(* ===== verification/SN_Prelude.thy ===== *)
theory SN_Prelude
  imports Main "HOL-Library.Word" "HOL-Library.Sublist"
begin

unbundle bit_operations_syntax

text \<open>
  The prelude of the SerialNet development: the type names of \<^verbatim>\<open>Source/Include/types_def.h\<close>, the
  part of the C library the sources use (character classes, the decimal and
  hexadecimal conversions of \<^verbatim>\<open>printf\<close>), byte order conversions, bounded buffers, and the lemmas
  on lists and words the component theories share.

  A NUL-terminated C string is the list of its characters before the NUL (\<open>string\<close>); reading
  the list at its end is reading the NUL. Raw memory is a list of bytes (\<open>8 word list\<close>) with explicit
  offsets, and an access outside it is an explicit error value.
\<close>

named_theorems cchar_simps \<open>character classes of the C library\<close>
named_theorems buf_simps \<open>bounded buffers\<close>

type_synonym u8 = "8 word"
type_synonym u16 = "16 word"
type_synonym u32 = "32 word"
type_synonym u64 = "64 word"
type_synonym bytes = "8 word list"

section \<open>Characters\<close>

definition NUL :: char where
  "NUL = CHR 0x00"

abbreviation cval :: "char \<Rightarrow> nat" where
  "cval c \<equiv> of_char c"

text \<open>A C string holds no NUL before its end.\<close>

definition cstring :: "string \<Rightarrow> bool" where
  "cstring s \<longleftrightarrow> NUL \<notin> set s"

definition isdigit :: "char \<Rightarrow> bool" where
  "isdigit c \<longleftrightarrow> 48 \<le> cval c \<and> cval c \<le> 57"

definition isspace :: "char \<Rightarrow> bool" where
  "isspace c \<longleftrightarrow> cval c = 32 \<or> 9 \<le> cval c \<and> cval c \<le> 13"

definition islower :: "char \<Rightarrow> bool" where
  "islower c \<longleftrightarrow> 97 \<le> cval c \<and> cval c \<le> 122"

definition isupper :: "char \<Rightarrow> bool" where
  "isupper c \<longleftrightarrow> 65 \<le> cval c \<and> cval c \<le> 90"

definition toupper :: "char \<Rightarrow> char" where
  "toupper c = (if islower c then char_of (cval c - 32) else c)"

definition tolower :: "char \<Rightarrow> char" where
  "tolower c = (if isupper c then char_of (cval c + 32) else c)"

definition digit_char :: "nat \<Rightarrow> char" where
  "digit_char d = char_of (48 + d)"

lemma cval_inject [cchar_simps]: "cval a = cval b \<longleftrightarrow> a = b"
  by simp

lemma cval_char_of [cchar_simps]: "n < 256 \<Longrightarrow> cval (char_of n) = n"
  by simp

lemma cval_NUL [simp]: "cval NUL = 0"
  by (simp add: NUL_def)

lemma cval_eq_0_iff [simp]: "cval c = 0 \<longleftrightarrow> c = NUL"
  by (metis cval_NUL cval_inject)

lemma isdigit_digit_char [simp]: "d < 10 \<Longrightarrow> isdigit (digit_char d)"
  by (simp add: isdigit_def digit_char_def cval_char_of)

lemma cval_digit_char [simp]: "d < 10 \<Longrightarrow> cval (digit_char d) = 48 + d"
  by (simp add: digit_char_def cval_char_of)

lemma isdigit_NUL [simp]: "\<not> isdigit NUL"
  by (simp add: isdigit_def)

lemma isspace_NUL [simp]: "\<not> isspace NUL"
  by (simp add: isspace_def)

lemma isdigit_not_space: "isdigit c \<Longrightarrow> \<not> isspace c"
  by (auto simp: isdigit_def isspace_def)

lemma toupper_NUL [simp]: "toupper c = NUL \<longleftrightarrow> c = NUL"
proof -
  have "cval (toupper c) = 0 \<longleftrightarrow> cval c = 0"
    using nat_of_char_less_256 [of c]
    by (auto simp: toupper_def islower_def cval_char_of simp del: cval_eq_0_iff nat_of_char_less_256)
  then show ?thesis by simp
qed

lemma tolower_NUL [simp]: "tolower c = NUL \<longleftrightarrow> c = NUL"
proof -
  have "cval (tolower c) = 0 \<longleftrightarrow> cval c = 0"
    using nat_of_char_less_256 [of c]
    by (auto simp: tolower_def isupper_def cval_char_of simp del: cval_eq_0_iff nat_of_char_less_256)
  then show ?thesis by simp
qed

lemma toupper_idem [simp]: "toupper (toupper c) = toupper c"
proof -
  have "islower c \<Longrightarrow> \<not> islower (char_of (cval c - 32))"
    by (auto simp: islower_def cval_char_of)
  then show ?thesis by (simp add: toupper_def)
qed

section \<open>Numbers as text\<close>

text \<open>The digits \<^verbatim>\<open>printf\<close> writes for \<^verbatim>\<open>%d\<close>, and the value \<^verbatim>\<open>atoi\<close> reads back.\<close>

fun dec_of_nat :: "nat \<Rightarrow> string" where
  "dec_of_nat n = (if n < 10 then [digit_char n] else dec_of_nat (n div 10) @ [digit_char (n mod 10)])"

declare dec_of_nat.simps [simp del]

definition dec_of_int :: "int \<Rightarrow> string" where
  "dec_of_int i = (if i < 0 then CHR ''-'' # dec_of_nat (nat (- i)) else dec_of_nat (nat i))"

definition dec_value :: "string \<Rightarrow> nat" where
  "dec_value s = foldl (\<lambda>a c. 10 * a + (cval c - 48)) 0 s"

text \<open>\<^verbatim>\<open>atoi\<close> is the one of \<^verbatim>\<open>uCOS-II/os_core.c\<close>, which the program links: it takes no sign and no leading space, reads digits up to
  the first other character, wraps around, and returns an \<^verbatim>\<open>unsigned int\<close>.\<close>

fun atoi_loop :: "u32 \<Rightarrow> string \<Rightarrow> u32" where
  "atoi_loop v [] = v"
| "atoi_loop v (c # s) = (if c = NUL then v else if isdigit c then atoi_loop (v * 10 + of_nat (cval c - 48)) s else v)"

definition atoi :: "string \<Rightarrow> u32" where
  "atoi s = atoi_loop 0 s"

text \<open>A hexadecimal digit in lower case, and the conversions \<^verbatim>\<open>%x\<close> and \<^verbatim>\<open>%02x\<close> on a byte.\<close>

definition hex_char :: "nat \<Rightarrow> char" where
  "hex_char d = (if d < 10 then char_of (48 + d) else char_of (87 + d))"

definition hex2_of_u8 :: "u8 \<Rightarrow> string" where
  "hex2_of_u8 b = [hex_char (unat b div 16), hex_char (unat b mod 16)]"

definition hex_of_u8 :: "u8 \<Rightarrow> string" where
  "hex_of_u8 b = (if unat b < 16 then [hex_char (unat b)] else hex2_of_u8 b)"

lemma dec_value_append:
  "dec_value (xs @ [c]) = 10 * dec_value xs + (cval c - 48)"
  by (simp add: dec_value_def)

lemma dec_of_nat_digits: "\<forall>c \<in> set (dec_of_nat n). isdigit c"
proof (induction n rule: dec_of_nat.induct)
  case (1 n)
  then show ?case by (subst dec_of_nat.simps) auto
qed

lemma dec_of_nat_not_Nil [simp]: "dec_of_nat n \<noteq> []"
  by (subst dec_of_nat.simps) simp

lemma dec_value_dec_of_nat [simp]: "dec_value (dec_of_nat n) = n"
proof (induction n rule: dec_of_nat.induct)
  case (1 n)
  show ?case
  proof (cases "n < 10")
    case True
    then show ?thesis by (subst dec_of_nat.simps) (simp add: dec_value_def)
  next
    case False
    have "dec_value (dec_of_nat n) = 10 * dec_value (dec_of_nat (n div 10)) + n mod 10"
      using False by (subst dec_of_nat.simps) (simp add: dec_value_append)
    with 1 False show ?thesis by simp
  qed
qed

lemma takeWhile_isdigit_dec [simp]: "takeWhile isdigit (dec_of_nat n) = dec_of_nat n"
  using dec_of_nat_digits by (simp add: takeWhile_eq_all_conv)

lemma atoi_loop_digits:
  assumes "\<forall>c \<in> set s. isdigit c"
  shows "atoi_loop (of_nat a) s = of_nat (foldl (\<lambda>a c. 10 * a + (cval c - 48)) a s)"
  using assms
proof (induction s arbitrary: a)
  case (Cons c s)
  have "(of_nat a :: u32) * 10 + of_nat (cval c - 48) = of_nat (10 * a + (cval c - 48))" by (simp add: algebra_simps)
  with Cons show ?case by (auto simp del: of_nat_add of_nat_mult of_nat_diff)
qed simp

lemma atoi_digits: "\<forall>c \<in> set s. isdigit c \<Longrightarrow> atoi s = of_nat (dec_value s)"
  using atoi_loop_digits [of s 0] by (simp add: atoi_def dec_value_def)

lemma atoi_dec_of_nat [simp]: "atoi (dec_of_nat n) = of_nat n"
  by (simp add: atoi_digits dec_of_nat_digits)

lemma dec_value_less: "\<forall>c \<in> set s. isdigit c \<Longrightarrow> dec_value s < 10 ^ length s"
proof (induction s rule: rev_induct)
  case Nil
  show ?case by (simp add: dec_value_def)
next
  case (snoc c s)
  then have "dec_value s + 1 \<le> 10 ^ length s" and "cval c - 48 < 10"
    by (auto simp: isdigit_def)
  then show ?case by (simp add: dec_value_append)
qed

section \<open>Byte order\<close>

text \<open>The target is little endian (\<^verbatim>\<open>LwIP/port/include/arch/cpu.h\<close>): a 16 or 32 bit field is stored
  low byte first and \<^verbatim>\<open>htons\<close>, \<^verbatim>\<open>htonl\<close> reverse the bytes.\<close>

definition le16 :: "u16 \<Rightarrow> bytes" where
  "le16 w = [ucast w, ucast (drop_bit 8 w)]"

definition le32 :: "u32 \<Rightarrow> bytes" where
  "le32 w = [ucast w, ucast (drop_bit 8 w), ucast (drop_bit 16 w), ucast (drop_bit 24 w)]"

fun of_le16 :: "bytes \<Rightarrow> u16" where
  "of_le16 (a # b # _) = ucast a OR push_bit 8 (ucast b)"
| "of_le16 _ = 0"

fun of_le32 :: "bytes \<Rightarrow> u32" where
  "of_le32 (a # b # c # d # _) =
     ucast a OR push_bit 8 (ucast b) OR push_bit 16 (ucast c) OR push_bit 24 (ucast d)"
| "of_le32 _ = 0"

definition htons :: "u16 \<Rightarrow> u16" where
  "htons w = of_le16 (rev (le16 w))"

definition htonl :: "u32 \<Rightarrow> u32" where
  "htonl w = of_le32 (rev (le32 w))"

abbreviation ntohs :: "u16 \<Rightarrow> u16" where
  "ntohs \<equiv> htons"

abbreviation ntohl :: "u32 \<Rightarrow> u32" where
  "ntohl \<equiv> htonl"

lemma length_le16 [simp]: "length (le16 w) = 2"
  by (simp add: le16_def)

lemma length_le32 [simp]: "length (le32 w) = 4"
  by (simp add: le32_def)

lemma of_le16_le16 [simp]: "of_le16 (le16 w @ xs) = w"
  by (rule bit_word_eqI) (auto simp: le16_def bit_simps)

lemma byte_index_cases:
  assumes "(n::nat) < 32"
  obtains "n < 8" | "8 \<le> n" "n < 16" | "16 \<le> n" "n < 24" | "24 \<le> n" "n < 32"
  using assms by linarith

lemma of_le32_le32 [simp]: "of_le32 (le32 w @ xs) = w"
proof (rule bit_word_eqI)
  fix n assume "n < LENGTH(32)"
  then have "n < 32" by simp
  then show "bit (of_le32 (le32 w @ xs)) n = bit w n"
    by (cases n rule: byte_index_cases) (auto simp: le32_def bit_simps)
qed

lemma byte_high_bits: "\<not> bit (b::u8) (8 + n)" "\<not> bit b (16 + n)" "\<not> bit b (24 + n)"
  using bit_imp_le_length [of b "8 + n"] bit_imp_le_length [of b "16 + n"]
    bit_imp_le_length [of b "24 + n"] by auto

lemma le16_of_le16 [simp]: "le16 (of_le16 [a, b]) = [a, b]"
  by (auto simp: le16_def bit_simps byte_high_bits intro!: bit_word_eqI)

lemma le32_of_le32 [simp]: "le32 (of_le32 [a, b, c, d]) = [a, b, c, d]"
  by (auto simp: le32_def bit_simps byte_high_bits intro!: bit_word_eqI)

lemma le16_htons: "le16 (htons w) = rev (le16 w)"
  by (simp add: htons_def le16_def [of w] le16_of_le16 del: of_le16.simps)

lemma le32_htonl: "le32 (htonl w) = rev (le32 w)"
  by (simp add: htonl_def le32_def [of w] le32_of_le32 del: of_le32.simps)

lemma htons_htons [simp]: "htons (htons w) = w"
  using of_le16_le16 [of w "[]"] by (simp add: htons_def [of "htons w"] le16_htons)

lemma htonl_htonl [simp]: "htonl (htonl w) = w"
  using of_le32_le32 [of w "[]"] by (simp add: htonl_def [of "htonl w"] le32_htonl)

section \<open>Signed 32 bit values\<close>

lemma unat_of_int_small: "0 \<le> k \<Longrightarrow> k < 2 ^ 32 \<Longrightarrow> unat (of_int k :: u32) = nat k"
  by (simp add: unat_eq_nat_uint unsigned_of_int take_bit_eq_mod)

lemma sint_bounds: "- (2 ^ 31) \<le> sint (v::u32)" "sint (v::u32) < 2 ^ 31"
  using sint_ge [of v] sint_lt [of v] by simp_all

lemma unat_nonneg_sint: "0 \<le> sint v \<Longrightarrow> unat (v::u32) = nat (sint v)"
  using unat_of_int_small [of "sint v"] sint_bounds [of v] by simp

lemma unat_neg_sint: "sint v < 0 \<Longrightarrow> unat (- v :: u32) = nat (- sint v)"
  using unat_of_int_small [of "- sint v"] sint_bounds [of v] by simp

lemma unat_ucast_8_32 [simp]: "unat (ucast (w::u8) :: u32) = unat w"
proof -
  have "unat w < 256" using unsigned_less [of w] by simp
  then show ?thesis by (simp add: unsigned_ucast_eq take_bit_nat_eq_self)
qed

lemma unat_ucast_16_32 [simp]: "unat (ucast (w::u16) :: u32) = unat w"
proof -
  have "unat w < 65536" using unsigned_less [of w] by simp
  then show ?thesis by (simp add: unsigned_ucast_eq take_bit_nat_eq_self)
qed

section \<open>Bounded buffers\<close>

text \<open>\<open>buf_write b p xs\<close> stores \<open>xs\<close> at offset \<open>p\<close>; \<open>None\<close> is a store outside the buffer.\<close>

definition buf_write :: "'a list \<Rightarrow> nat \<Rightarrow> 'a list \<Rightarrow> 'a list option" where
  "buf_write b p xs =
     (if p + length xs \<le> length b then Some (take p b @ xs @ drop (p + length xs) b) else None)"

lemma buf_write_length [buf_simps]: "buf_write b p xs = Some b' \<Longrightarrow> length b' = length b"
  by (auto simp: buf_write_def split: if_splits)

lemma buf_write_read [buf_simps]:
  "buf_write b p xs = Some b' \<Longrightarrow> take (length xs) (drop p b') = xs"
  by (auto simp: buf_write_def split: if_splits)

lemma buf_write_nth:
  "buf_write b p xs = Some b' \<Longrightarrow> i < length b \<Longrightarrow>
     b' ! i = (if p \<le> i \<and> i < p + length xs then xs ! (i - p) else b ! i)"
  by (auto simp: buf_write_def nth_append split: if_splits)

lemma buf_write_empty [simp]: "p \<le> length b \<Longrightarrow> buf_write b p [] = Some b"
  by (simp add: buf_write_def)

end
