(* ===== verification/Str_Lib.thy ===== *)
theory Str_Lib
  imports SN_Prelude "HOL-Library.Monad_Syntax"
begin

text \<open>
  The string routines of \<^verbatim>\<open>App/ExtLib/str_lib.c\<close> and of \<^verbatim>\<open>Sys/util.c\<close>. A \<^verbatim>\<open>char *\<close> that is only
  read is the list of characters up to its NUL, a pointer into it is the remaining suffix, and a
  NULL pointer is \<open>None\<close>. Each C loop is a recursion with the loop's own conditions, and a routine
  that writes its destination returns the characters it stores.
\<close>

section \<open>Definitions\<close>

text \<open>\<^verbatim>\<open>*p\<close>: the character a pointer reads, the NUL at the end of the string.\<close>

definition deref :: "string \<Rightarrow> char" where
  "deref p = (case p of [] \<Rightarrow> NUL | c # _ \<Rightarrow> c)"

subsection \<open>Searching and comparing\<close>

text \<open>The inner \<^verbatim>\<open>for\<close> loop of \<^verbatim>\<open>nustrstr\<close>: compare from the current position until the pattern ends.\<close>

fun nustrstr_match :: "string \<Rightarrow> string \<Rightarrow> bool" where
  "nustrstr_match s1 [] = False"
| "nustrstr_match s1 (c # s2) =
     (if deref s1 = c then (if deref s2 = NUL then True else nustrstr_match (tl s1) s2) else False)"

fun nustrstr_scan :: "string \<Rightarrow> string \<Rightarrow> string option" where
  "nustrstr_scan [] s2 = None"
| "nustrstr_scan (c # s1) s2 =
     (if nustrstr_match (c # s1) s2 then Some (c # s1) else nustrstr_scan s1 s2)"

definition nustrstr :: "string \<Rightarrow> string \<Rightarrow> string option" where
  "nustrstr s1 s2 = (if deref s2 \<noteq> NUL then nustrstr_scan s1 s2 else Some s1)"

fun str_is_digit :: "string \<Rightarrow> bool" where
  "str_is_digit [] = True"
| "str_is_digit (c # s) = (if \<not> isdigit c then False else str_is_digit s)"

text \<open>The loop of \<^verbatim>\<open>is_valid_ip\<close>; \<^verbatim>\<open>section\<close> is a signed 32 bit \<^verbatim>\<open>int\<close>, \<open>0\<close> is valid and \<open>-1\<close> is not.\<close>

definition sec_ok :: "u32 \<Rightarrow> bool" where
  "sec_ok section = (0 \<le> sint section \<and> sint section \<le> 255)"

fun is_valid_ip_loop :: "string \<Rightarrow> u32 \<Rightarrow> nat \<Rightarrow> int" where
  "is_valid_ip_loop [] sec dot =
     (if 0 < sint sec \<and> sint sec \<le> 255 then (if 3 = dot then 0 else -1) else -1)"
| "is_valid_ip_loop (c # ip) sec dot =
     (if c = CHR ''.'' then
        (if dot + 1 > 3 then -1
         else if sec_ok sec then is_valid_ip_loop ip 0 (dot + 1)
         else -1)
      else if cval c \<ge> 48 \<and> cval c \<le> 57 then
        is_valid_ip_loop ip (sec * 10 + of_nat (cval c) - 48) dot
      else -1)"

definition is_valid_ip :: "string \<Rightarrow> int" where
  "is_valid_ip ip = is_valid_ip_loop ip 0 0"

fun strStartsWith :: "string \<Rightarrow> string \<Rightarrow> bool" where
  "strStartsWith (l # line) (p # pfx) = (if l \<noteq> p then False else strStartsWith line pfx)"
| "strStartsWith line pfx = (deref pfx = NUL)"

text \<open>The \<^verbatim>\<open>do ... while (sc != 0)\<close> loop of \<^verbatim>\<open>strsep\<close>: is \<open>c\<close> one of the delimiters?\<close>

fun strsep_span :: "char \<Rightarrow> string \<Rightarrow> bool" where
  "strsep_span c [] = (c = NUL)"
| "strsep_span c (sc # spanp) = (if sc = c then True else strsep_span c spanp)"

fun strsep_scan :: "string \<Rightarrow> string \<Rightarrow> string \<times> string option" where
  "strsep_scan [] delim = ([], None)"
| "strsep_scan (c # s) delim =
     (if strsep_span c delim then ([], if c = NUL then None else Some s)
      else (case strsep_scan s delim of (tok, r) \<Rightarrow> (c # tok, r)))"

text \<open>\<^verbatim>\<open>strsep(&p, delim)\<close>: the token and the new value of \<^verbatim>\<open>p\<close>.\<close>

definition strsep :: "string option \<Rightarrow> string \<Rightarrow> string option \<times> string option" where
  "strsep stringp delim =
     (case stringp of
        None \<Rightarrow> (None, None)
      | Some s \<Rightarrow> (case strsep_scan s delim of (tok, r) \<Rightarrow> (Some tok, r)))"

fun strncmp :: "string \<Rightarrow> string \<Rightarrow> nat \<Rightarrow> int" where
  "strncmp s1 s2 0 = 0"
| "strncmp s1 s2 (Suc n) =
     (if deref s1 \<noteq> deref s2 then
        (if deref s1 = NUL then -1
         else if deref s2 = NUL then 1
         else int (cval (deref s1)) - int (cval (deref s2)))
      else if deref s1 = NUL then 0
      else strncmp (tl s1) (tl s2) n)"

fun strncmpi :: "string \<Rightarrow> string \<Rightarrow> nat \<Rightarrow> int" where
  "strncmpi s1 s2 0 = 0"
| "strncmpi s1 s2 (Suc n) =
     (if tolower (deref s1) = NUL \<or> tolower (deref s2) = NUL
      then int (cval (tolower (deref s1))) - int (cval (tolower (deref s2)))
      else if tolower (deref s1) = tolower (deref s2) \<and> n \<noteq> 0 then strncmpi (tl s1) (tl s2) n
      else int (cval (tolower (deref s1))) - int (cval (tolower (deref s2))))"

text \<open>\<^verbatim>\<open>strspn\<close> and \<^verbatim>\<open>strpbrk\<close> of \<^verbatim>\<open>Sys/util.c\<close>.\<close>

fun strspn_accept :: "char \<Rightarrow> string \<Rightarrow> bool" where
  "strspn_accept c [] = False"
| "strspn_accept c (a # acc) = (if c = a then True else strspn_accept c acc)"

fun strspn :: "string \<Rightarrow> string \<Rightarrow> nat" where
  "strspn [] acc = 0"
| "strspn (c # p) acc = (if \<not> strspn_accept c acc then 0 else Suc (strspn p acc))"

fun strpbrk :: "string \<Rightarrow> string \<Rightarrow> string option" where
  "strpbrk [] s2 = None"
| "strpbrk (c # s) s2 = (if strspn_accept c s2 then Some (c # s) else strpbrk s s2)"

subsection \<open>Copying\<close>

text \<open>The characters \<^verbatim>\<open>strcpy\<close> stores, the NUL included.\<close>

fun strcpy :: "string \<Rightarrow> string" where
  "strcpy [] = [NUL]"
| "strcpy (c # s) = c # strcpy s"

text \<open>\<^verbatim>\<open>strcat\<close> on a destination buffer: look for its NUL, then store the source from there on.
  \<open>None\<close> is a run past the end of the buffer.\<close>

fun strcat :: "string \<Rightarrow> string \<Rightarrow> string option" where
  "strcat [] s2 = None"
| "strcat (c # buf) s2 =
     (if c = NUL then buf_write (c # buf) 0 (strcpy s2)
      else map_option ((#) c) (strcat buf s2))"

text \<open>\<^verbatim>\<open>strncpy\<close>, unrolled by four as in the source: \<open>strncpy4\<close> is the \<^verbatim>\<open>for (;;)\<close> loop over \<^verbatim>\<open>n4\<close>
  groups, \<open>strncpy_last\<close> the code at \<^verbatim>\<open>last_chars\<close>, \<open>zero_fill\<close> the code at \<^verbatim>\<open>zero_fill\<close>. Each returns the
  characters stored from the current position on; \<open>n\<close> is the count at the start.\<close>

definition zero_fill :: "nat \<Rightarrow> string" where
  "zero_fill n = (if n = 0 then [] else replicate n NUL)"

fun strncpy_last :: "string \<Rightarrow> nat \<Rightarrow> string" where
  "strncpy_last s2 0 = []"
| "strncpy_last s2 (Suc n) =
     deref s2 # (if n = 0 then []
                 else if deref s2 \<noteq> NUL then strncpy_last (tl s2) n
                 else zero_fill n)"

definition strncpy_break :: "nat \<Rightarrow> nat \<Rightarrow> string" where
  "strncpy_break n done = zero_fill (n - done)"

fun strncpy4 :: "string \<Rightarrow> nat \<Rightarrow> nat \<Rightarrow> nat \<Rightarrow> string" where
  "strncpy4 s2 n done 0 = []"
| "strncpy4 s2 n done (Suc n4) =
     deref s2 # (if deref s2 = NUL then strncpy_break n (done + 1) else
     deref (tl s2) # (if deref (tl s2) = NUL then strncpy_break n (done + 2) else
     deref (tl (tl s2)) # (if deref (tl (tl s2)) = NUL then strncpy_break n (done + 3) else
     deref (tl (tl (tl s2))) # (if deref (tl (tl (tl s2))) = NUL then strncpy_break n (done + 4)
     else if n4 = 0 then strncpy_last (tl (tl (tl (tl s2)))) (n mod 4)
     else strncpy4 (tl (tl (tl (tl s2)))) n (done + 4) n4))))"

definition strncpy :: "string \<Rightarrow> nat \<Rightarrow> string" where
  "strncpy s2 n = (if n \<ge> 4 then strncpy4 s2 n 0 (n div 4) else strncpy_last s2 (n mod 4))"

definition strtoupper :: "string \<Rightarrow> string" where
  "strtoupper s = map toupper s"

text \<open>\<^verbatim>\<open>strrmvspace\<close> trims at both ends. Its backward loop starts at \<^verbatim>\<open>strlen(dst) - 1\<close> and has no
  lower bound, so the model carries the memory below \<^verbatim>\<open>dst\<close> (nearest byte first). The loop walks the
  reversed destination followed by that memory; \<open>None\<close> is a walk off the modelled memory.\<close>

fun rmvspace_back :: "string \<Rightarrow> string option" where
  "rmvspace_back [] = None"
| "rmvspace_back (c # m) =
     (if isspace c then map_option ((#) NUL) (rmvspace_back m) else Some (c # m))"

definition strrmvspace :: "string \<Rightarrow> string \<Rightarrow> (string \<times> string) option" where
  "strrmvspace below src =
     (if src = [] then Some ([], below)
      else
        let dst = dropWhile isspace src in
        do {
          m \<leftarrow> rmvspace_back (rev dst @ below);
          Some (takeWhile (\<lambda>c. c \<noteq> NUL) (rev (take (length dst) m)), drop (length dst) m)
        })"

text \<open>\<^verbatim>\<open>NST_MoveMemOvlap\<close>: the byte by byte loops on one memory, backwards when the destination is
  above the source and forwards otherwise.\<close>

fun move_back :: "bytes \<Rightarrow> nat \<Rightarrow> nat \<Rightarrow> nat \<Rightarrow> bytes" where
  "move_back m d s 0 = m"
| "move_back m d s (Suc n) = move_back (m[d + n := m ! (s + n)]) d s n"

fun move_fwd :: "bytes \<Rightarrow> nat \<Rightarrow> nat \<Rightarrow> nat \<Rightarrow> bytes" where
  "move_fwd m d s 0 = m"
| "move_fwd m d s (Suc n) = move_fwd (m[d := m ! s]) (Suc d) (Suc s) n"

definition NST_MoveMemOvlap :: "bytes \<Rightarrow> nat \<Rightarrow> nat \<Rightarrow> u16 \<Rightarrow> bytes option" where
  "NST_MoveMemOvlap m pDst pSrc sz =
     (if pDst + unat sz > length m \<or> pSrc + unat sz > length m then None
      else if pDst > pSrc then Some (move_back m pDst pSrc (unat sz))
      else Some (move_fwd m pDst pSrc (unat sz)))"

subsection \<open>Numbers\<close>

definition utoa_digits :: string where
  "utoa_digits = ''0123456789abcdefghijklmnopqrstuvwxyz''"

text \<open>The digit string with its NUL at index 36; beyond it is a read out of bounds.\<close>

definition utoa_digit :: "nat \<Rightarrow> string option" where
  "utoa_digit v = (if v < 36 then Some [utoa_digits ! v] else if v = 36 then Some [] else None)"

partial_function (option) utoa_loop :: "nat \<Rightarrow> nat \<Rightarrow> string option" where
  "utoa_loop v radix =
     (if v < radix then utoa_digit v
      else do {
        p \<leftarrow> utoa_loop (v div radix) radix;
        q \<leftarrow> utoa_loop (v mod radix) radix;
        Some (p @ q)
      })"

text \<open>\<^verbatim>\<open>utoa\<close> on a non-NULL buffer: the string it leaves there.\<close>

definition utoa :: "u32 \<Rightarrow> u32 \<Rightarrow> string option" where
  "utoa v radix = utoa_loop (unat v) (if radix = 0 then 10 else unat radix)"

definition itoa :: "u32 \<Rightarrow> u32 \<Rightarrow> string option" where
  "itoa v radix =
     (if v <s 0 then map_option ((#) (CHR ''-'')) (utoa (- v) radix) else utoa v radix)"

text \<open>\<^verbatim>\<open>BtoH\<close> and \<^verbatim>\<open>AtoH\<close> of \<^verbatim>\<open>Sys/util.c\<close>, \<^verbatim>\<open>atou_hex\<close> of \<^verbatim>\<open>str_lib.c\<close>.\<close>

definition BtoH :: "char \<Rightarrow> u8" where
  "BtoH ch =
     (if cval ch \<ge> 48 \<and> cval ch \<le> 57 then of_nat (cval ch - 48)
      else if cval ch \<ge> 65 \<and> cval ch \<le> 70 then of_nat (cval ch - 65 + 10)
      else if cval ch \<ge> 97 \<and> cval ch \<le> 102 then of_nat (cval ch - 97 + 10)
      else 255)"

fun AtoH :: "string \<Rightarrow> nat \<Rightarrow> bytes" where
  "AtoH src 0 = []"
| "AtoH src (Suc n) =
     (push_bit 4 (BtoH (deref src)) + BtoH (deref (tl src))) # AtoH (tl (tl src)) n"

fun atou_hex_loop :: "string \<Rightarrow> u32 \<Rightarrow> u32" where
  "atou_hex_loop [] acc = acc"
| "atou_hex_loop (c # s) acc =
     (if cval c \<ge> 48 \<and> cval c \<le> 57 then atou_hex_loop s (acc * 16 + of_nat (cval c - 48))
      else if cval c \<ge> 65 \<and> cval c \<le> 70 then atou_hex_loop s (acc * 16 + of_nat (cval c - 65 + 10))
      else if cval c \<ge> 97 \<and> cval c \<le> 102 then atou_hex_loop s (acc * 16 + of_nat (cval c - 97 + 10))
      else acc)"

definition atou_hex :: "string option \<Rightarrow> u32" where
  "atou_hex s = (case s of None \<Rightarrow> 0 | Some t \<Rightarrow> atou_hex_loop t 0)"

section \<open>Searching and comparing: lemmas\<close>

lemma deref_simps [simp]: "deref [] = NUL" "deref (c # s) = c"
  by (simp_all add: deref_def)

lemma cstring_simps [simp]: "cstring []" "cstring (c # s) \<longleftrightarrow> c \<noteq> NUL \<and> cstring s"
    "cstring (s @ t) \<longleftrightarrow> cstring s \<and> cstring t"
  by (auto simp: cstring_def)

lemma cstring_tl: "cstring s \<Longrightarrow> cstring (tl s)"
  by (cases s) auto

lemma deref_NUL: "cstring s \<Longrightarrow> deref s = NUL \<longleftrightarrow> s = []"
  by (cases s) auto

lemma nustrstr_match_prefix:
  "cstring s2 \<Longrightarrow> s2 \<noteq> [] \<Longrightarrow> nustrstr_match s1 s2 \<longleftrightarrow> prefix s2 s1"
proof (induction s1 s2 rule: nustrstr_match.induct)
  case (2 s1 c s2)
  then show ?case
    by (cases s1) (auto simp: deref_NUL)
qed simp

lemma nustrstr_scan_None:
  "cstring s2 \<Longrightarrow> s2 \<noteq> [] \<Longrightarrow> nustrstr_scan s1 s2 = None \<longleftrightarrow> \<not> sublist s2 s1"
  by (induction s1) (auto simp: nustrstr_match_prefix sublist_Cons_right)

lemma nustrstr_scan_Some:
  "cstring s2 \<Longrightarrow> s2 \<noteq> [] \<Longrightarrow> nustrstr_scan s1 s2 = Some r \<Longrightarrow>
     \<exists>p. s1 = p @ r \<and> prefix s2 r \<and> (\<forall>k < length p. \<not> prefix s2 (drop k s1))"
proof (induction s1)
  case (Cons c s1)
  show ?case
  proof (cases "nustrstr_match (c # s1) s2")
    case True
    with Cons.prems have "c # s1 = [] @ r \<and> prefix s2 r"
      by (auto simp: nustrstr_match_prefix)
    then show ?thesis by (intro exI [of _ "[]"]) auto
  next
    case False
    with Cons obtain p where p: "s1 = p @ r" "prefix s2 r"
        "\<forall>k < length p. \<not> prefix s2 (drop k s1)" by auto
    have "\<not> prefix s2 (drop k (c # s1))" if "k < length (c # p)" for k
      using that p(3) False Cons.prems by (cases k) (auto simp: nustrstr_match_prefix)
    with p show ?thesis by (intro exI [of _ "c # p"]) auto
  qed
qed simp

lemma str_is_digit_iff: "str_is_digit s \<longleftrightarrow> (\<forall>c \<in> set s. isdigit c)"
  by (induction s) auto

lemma strStartsWith_prefix: "cstring p \<Longrightarrow> strStartsWith line p \<longleftrightarrow> prefix p line"
  by (induction line p rule: strStartsWith.induct) (auto simp: deref_NUL)

lemma strsep_span_iff: "strsep_span c delim \<longleftrightarrow> c = NUL \<or> c \<in> set delim"
  by (induction delim) auto

lemma strspn_accept_iff: "strspn_accept c acc \<longleftrightarrow> c \<in> set acc"
  by (induction acc) auto

lemma strspn_takeWhile: "strspn s acc = length (takeWhile (\<lambda>c. c \<in> set acc) s)"
  by (induction s) (auto simp: strspn_accept_iff)

lemma strpbrk_dropWhile:
  "strpbrk s acc = (let r = dropWhile (\<lambda>c. c \<notin> set acc) s in if r = [] then None else Some r)"
  by (induction s) (auto simp: strspn_accept_iff Let_def)

lemma strsep_scan_eq:
  "cstring s \<Longrightarrow> strsep_scan s delim =
     (takeWhile (\<lambda>c. c \<notin> set delim) s,
      case dropWhile (\<lambda>c. c \<notin> set delim) s of [] \<Rightarrow> None | _ # r \<Rightarrow> Some r)"
  by (induction s) (auto simp: strsep_span_iff)

lemma strncmp_zero_iff:
  "cstring s1 \<Longrightarrow> cstring s2 \<Longrightarrow> strncmp s1 s2 n = 0 \<longleftrightarrow> take n s1 = take n s2"
proof (induction s1 s2 n rule: strncmp.induct)
  case (2 s1 s2 n)
  then show ?case
    by (cases s1; cases s2) auto
qed simp

lemma tolower_of_NUL [simp]: "tolower NUL = NUL" "NUL = tolower c \<longleftrightarrow> c = NUL"
  using tolower_NUL by metis+

lemma tolower_not_NUL: "cstring s \<Longrightarrow> tolower (deref s) = NUL \<longleftrightarrow> s = []"
  by (simp add: deref_NUL)

lemma strncmpi_zero_iff:
  "cstring s1 \<Longrightarrow> cstring s2 \<Longrightarrow>
     strncmpi s1 s2 n = 0 \<longleftrightarrow> map tolower (take n s1) = map tolower (take n s2)"
proof (induction s1 s2 n rule: strncmpi.induct)
  case (2 s1 s2 n)
  then show ?case
    by (cases s1; cases s2; cases n) (auto simp: of_char_eq_iff)
qed simp

section \<open>Copying: lemmas\<close>

lemma strcpy_eq: "strcpy s = s @ [NUL]"
  by (induction s) auto

lemma strcat_eq:
  "cstring d \<Longrightarrow> strcat (d @ NUL # rest) s =
     (if length s \<le> length rest then Some (d @ s @ NUL # drop (length s) rest) else None)"
  by (induction d) (auto simp: buf_write_def strcpy_eq)

lemma zero_fill_eq [simp]: "zero_fill n = replicate n NUL"
  by (simp add: zero_fill_def)

text \<open>The specification of \<^verbatim>\<open>strncpy\<close>: the first \<open>n\<close> characters of the source padded with NULs.\<close>

definition strncpy_spec :: "string \<Rightarrow> nat \<Rightarrow> string" where
  "strncpy_spec s n = take n (s @ replicate n NUL)"

lemma strncpy_spec_simps:
  "strncpy_spec s 0 = []"
  "strncpy_spec [] n = replicate n NUL"
  "strncpy_spec (c # s) (Suc n) = c # strncpy_spec s n"
  by (simp_all add: strncpy_spec_def append_assoc flip: replicate_append_same)

lemma strncpy_last_eq: "cstring s \<Longrightarrow> strncpy_last s n = strncpy_spec s n"
proof (induction s n rule: strncpy_last.induct)
  case (2 s n)
  then show ?case
    by (cases s; cases n) (auto simp: strncpy_spec_simps)
qed (simp add: strncpy_spec_simps)

lemma strncpy4_eq:
  "cstring s \<Longrightarrow> n4 > 0 \<Longrightarrow> n = k + 4 * n4 + n mod 4 \<Longrightarrow> strncpy4 s n k n4 = strncpy_spec s (n - k)"
proof (induction s n k n4 rule: strncpy4.induct)
  case (2 s n k n4)
  obtain r where r: "n mod 4 = r" by simp
  have n: "n = k + 4 * Suc n4 + r" using 2(4) r by simp
  have len: "n - k = Suc (Suc (Suc (Suc (4 * n4 + n mod 4))))" using n r by simp
  have d: "n - Suc k = Suc (Suc (Suc (4 * n4 + n mod 4)))"
    "n - Suc (Suc k) = Suc (Suc (4 * n4 + n mod 4))"
    "n - (k + 3) = Suc (4 * n4 + n mod 4)" "n - (k + 4) = 4 * n4 + n mod 4"
    using n r by simp_all
  consider "length s < 4" | a b c e t where "s = a # b # c # e # t"
    by (cases s; cases "tl s"; cases "tl (tl s)"; cases "tl (tl (tl s))") auto
  then show ?case
  proof cases
    case 1
    then consider "s = []" | a where "s = [a]" | a b where "s = [a, b]" | a b c where "s = [a, b, c]"
      by (cases s; cases "tl s"; cases "tl (tl s)") (auto simp: Suc_le_eq)
    then show ?thesis
      using 2(2) by cases (simp_all add: strncpy_spec_simps strncpy_break_def len d)
  next
    case (2 a b c e t)
    with "2.prems" "2.IH" show ?thesis
      by (auto simp: strncpy_spec_simps strncpy_break_def len d strncpy_last_eq)
  qed
qed simp

lemma strncpy_eq: "cstring s \<Longrightarrow> strncpy s n = strncpy_spec s n"
  by (auto simp: strncpy_def strncpy_last_eq strncpy4_eq)

lemma rmvspace_back_eq:
  "rmvspace_back m = (let r = dropWhile isspace m in
     if r = [] then None else Some (replicate (length m - length r) NUL @ r))"
proof (induction m)
  case (Cons c m)
  have "length (dropWhile isspace m) \<le> length m" by (simp add: length_dropWhile_le)
  with Cons show ?case by (auto simp: Let_def Suc_diff_le)
qed simp

lemma rev_dropWhile_rev: "rev (dropWhile P (rev xs)) = take (length (dropWhile P (rev xs))) xs"
  by (metis append_eq_conv_conj length_rev rev_append rev_rev_ident takeWhile_dropWhile_id)

text \<open>The trimming of \<^verbatim>\<open>strrmvspace\<close> when some character is not a space.\<close>

definition strip :: "string \<Rightarrow> string" where
  "strip s = rev (dropWhile isspace (rev (dropWhile isspace s)))"

lemma strrmvspace_strip:
  assumes c: "cstring src" and x: "x \<in> set src" "\<not> isspace x"
  shows "strrmvspace below src = Some (strip src, below)"
proof -
  define dst where "dst = dropWhile isspace src"
  have "dst \<noteq> []" using x by (auto simp: dst_def)
  then have "\<not> isspace (hd dst)" unfolding dst_def by (rule hd_dropWhile)
  then have nz: "dropWhile isspace (rev dst) \<noteq> []" using \<open>dst \<noteq> []\<close>
    by (auto simp: dropWhile_eq_Nil_conv)
  have dcs: "cstring dst"
    using c set_dropWhileD [of _ isspace src] by (auto simp: dst_def cstring_def)
  define r where "r = dropWhile isspace (rev dst)"
  have le: "length r \<le> length dst"
    using length_dropWhile_le [of isspace "rev dst"] by (simp add: r_def)
  have ap: "dropWhile isspace (rev dst @ below) = r @ below"
    using nz by (auto simp: r_def dropWhile_eq_Nil_conv intro!: dropWhile_append1)
  then have m: "rmvspace_back (rev dst @ below) =
      Some (replicate (length dst - length r) NUL @ r @ below)"
    using nz by (simp add: rmvspace_back_eq Let_def r_def)
  have "cstring r"
    using dcs set_dropWhileD [of _ isspace "rev dst"] by (auto simp: r_def cstring_def)
  then have "takeWhile (\<lambda>c. c \<noteq> NUL) (rev r @ replicate k NUL) = rev r" for k
    by (subst takeWhile_append2) (auto simp: cstring_def takeWhile_replicate)
  with m le x show ?thesis
    by (auto simp: strrmvspace_def strip_def r_def [symmetric] dst_def [symmetric] Let_def)
qed

lemma move_back_nth:
  "s < d \<Longrightarrow> d + n \<le> length m \<Longrightarrow> i < length m \<Longrightarrow>
     move_back m d s n ! i = (if d \<le> i \<and> i < d + n then m ! (s + (i - d)) else m ! i)"
proof (induction n arbitrary: m)
  case (Suc n)
  then show ?case by (auto simp: nth_list_update not_less less_Suc_eq)
qed auto

lemma move_fwd_nth:
  "d \<le> s \<Longrightarrow> s + n \<le> length m \<Longrightarrow> i < length m \<Longrightarrow>
     move_fwd m d s n ! i = (if d \<le> i \<and> i < d + n then m ! (s + (i - d)) else m ! i)"
proof (induction n arbitrary: m d s)
  case (Suc n)
  have "move_fwd m d s (Suc n) ! i =
      (if Suc d \<le> i \<and> i < Suc d + n then m[d := m ! s] ! (Suc s + (i - Suc d)) else m[d := m ! s] ! i)"
    using Suc.prems Suc.IH [of "Suc d" "Suc s" "m[d := m ! s]"] by simp
  then show ?case
    using Suc.prems by (auto simp: nth_list_update Suc_diff_Suc)
qed auto

lemma move_length [simp]:
  "length (move_back m d s n) = length m" "length (move_fwd m d s n) = length m"
  by (induction n arbitrary: m d s) auto

section \<open>Numbers: lemmas\<close>

text \<open>The digits of a number, most significant first, and their value.\<close>

fun nat_digits :: "nat \<Rightarrow> nat \<Rightarrow> nat list" where
  "nat_digits r v = (if v < r \<or> r < 2 then [v] else nat_digits r (v div r) @ [v mod r])"

declare nat_digits.simps [simp del]

definition digits_value :: "nat \<Rightarrow> nat list \<Rightarrow> nat" where
  "digits_value r ds = foldl (\<lambda>a d. r * a + d) 0 ds"

lemma nat_digits_value: "digits_value r (nat_digits r v) = v"
proof (induction r v rule: nat_digits.induct)
  case (1 r v)
  then show ?case by (subst nat_digits.simps) (simp add: digits_value_def)
qed

lemma nat_digits_less: "2 \<le> r \<Longrightarrow> d \<in> set (nat_digits r v) \<Longrightarrow> d < r"
proof (induction r v rule: nat_digits.induct)
  case (1 r v)
  show ?case
  proof (cases "v < r")
    case True
    with 1 show ?thesis by (simp add: nat_digits.simps [of r v])
  next
    case False
    with 1 show ?thesis by (auto simp: nat_digits.simps [of r v] not_less)
  qed
qed

lemma utoa_loop_digits:
  "2 \<le> r \<Longrightarrow> r \<le> 36 \<Longrightarrow> utoa_loop v r = Some (map ((!) utoa_digits) (nat_digits r v))"
proof (induction r v rule: nat_digits.induct)
  case (1 r v)
  show ?case
  proof (cases "v < r")
    case True
    with 1 show ?thesis
      by (simp add: nat_digits.simps [of r v] utoa_loop.simps [of v r] utoa_digit_def)
  next
    case False
    have "v mod r < r" using 1(2) by simp
    then have "utoa_loop (v mod r) r = Some [utoa_digits ! (v mod r)]"
      using 1(3) by (subst utoa_loop.simps) (simp add: utoa_digit_def)
    with False 1 show ?thesis
      by (simp add: nat_digits.simps [of r v] utoa_loop.simps [of v r])
  qed
qed

lemma utoa_digits_dec: "d < 10 \<Longrightarrow> utoa_digits ! d = digit_char d"
proof -
  assume "d < 10"
  then have "d \<in> {0,1,2,3,4,5,6,7,8,9}" by auto
  then have "cval (utoa_digits ! d) = cval (digit_char d)"
    by (elim insertE emptyE) (simp_all add: utoa_digits_def)
  then show ?thesis by simp
qed

lemma utoa_dec: "utoa_loop v 10 = Some (dec_of_nat v)"
proof -
  have "map ((!) utoa_digits) (nat_digits 10 v) = dec_of_nat v"
  proof (induction v rule: dec_of_nat.induct)
    case (1 v)
    then show ?case
      by (subst nat_digits.simps, subst dec_of_nat.simps) (auto simp: utoa_digits_dec)
  qed
  then show ?thesis by (simp add: utoa_loop_digits)
qed

lemma atou_hex_digit:
  assumes "d < 16"
  shows "atou_hex_loop ((utoa_digits ! d) # s) acc = atou_hex_loop s (acc * 16 + of_nat d)"
proof -
  from assms have "d \<in> set [0..<16]" by simp
  then have "d \<in> {0,1,2,3,4,5,6,7,8,9,10,11,12,13,14,15}" by (simp add: upt_rec numeral_eq_Suc)
  then show ?thesis by (elim insertE emptyE) (simp_all add: utoa_digits_def)
qed

lemma atou_hex_digits:
  "\<forall>d \<in> set ds. d < 16 \<Longrightarrow>
     atou_hex_loop (map ((!) utoa_digits) ds) (of_nat a) = of_nat (foldl (\<lambda>a d. 16 * a + d) a ds)"
proof (induction ds arbitrary: a)
  case (Cons d ds)
  have eq: "of_nat a * 16 + of_nat d = (of_nat (16 * a + d) :: u32)" by simp
  have "atou_hex_loop (map ((!) utoa_digits) (d # ds)) (of_nat a) =
      atou_hex_loop (map ((!) utoa_digits) ds) (of_nat a * 16 + of_nat d)"
    using Cons.prems atou_hex_digit by (simp del: atou_hex_loop.simps)
  also have "\<dots> = of_nat (foldl (\<lambda>a d. 16 * a + d) (16 * a + d) ds)"
    unfolding eq using Cons by (intro Cons.IH) simp
  finally show ?case by simp
qed simp

section \<open>Dotted addresses\<close>

text \<open>The values of the dotted sections of a text, the first one continuing from \<open>v\<close>.\<close>

fun split_on :: "char \<Rightarrow> string \<Rightarrow> string list" where
  "split_on d [] = [[]]"
| "split_on d (c # s) =
     (if c = d then [] # split_on d s
      else (case split_on d s of [] \<Rightarrow> [[c]] | x # xs \<Rightarrow> (c # x) # xs))"

fun ip_vals :: "nat \<Rightarrow> string \<Rightarrow> nat list" where
  "ip_vals v [] = [v]"
| "ip_vals v (c # s) = (if c = CHR ''.'' then v # ip_vals 0 s else ip_vals (10 * v + (cval c - 48)) s)"

definition sec_value :: "nat \<Rightarrow> string \<Rightarrow> nat" where
  "sec_value v s = foldl (\<lambda>a c. 10 * a + (cval c - 48)) v s"

lemma split_on_not_Nil [simp]: "split_on d s \<noteq> []"
  by (cases s) (auto split: list.splits)

lemma split_on_Cons:
  "c \<noteq> d \<Longrightarrow> split_on d (c # s) = (c # hd (split_on d s)) # tl (split_on d s)"
  by (cases "split_on d s") auto

lemma split_on_append: "d \<notin> set x \<Longrightarrow> split_on d (x @ d # s) = x # split_on d s"
  by (induction x) auto

lemma split_on_single: "d \<notin> set x \<Longrightarrow> split_on d x = [x]"
  by (induction x) auto

lemma ip_vals_split:
  "ip_vals v s = sec_value v (hd (split_on (CHR ''.'') s)) # map (sec_value 0) (tl (split_on (CHR ''.'') s))"
proof (induction s arbitrary: v)
  case (Cons c s)
  show ?case
  proof (cases "c = CHR ''.''")
    case True
    have "map (sec_value 0) (split_on (CHR ''.'') s) = ip_vals 0 s"
      by (subst Cons.IH) (cases "split_on (CHR ''.'') s"; simp)
    moreover have "sec_value v [] = v" by (simp add: sec_value_def)
    ultimately show ?thesis using True by simp
  next
    case False
    then show ?thesis by (simp add: split_on_Cons Cons.IH sec_value_def del: split_on.simps)
  qed
qed (simp add: sec_value_def)

lemma sint_small: "v < 2 ^ 31 \<Longrightarrow> sint (of_nat v :: u32) = int v"
  by (simp add: signed_of_nat signed_take_bit_int_eq_self_iff)

lemma is_valid_ip_loop_iff:
  assumes "v < 10 ^ (9 - length (hd (split_on (CHR ''.'') s)))"
    and "\<forall>x \<in> set (split_on (CHR ''.'') s). length x \<le> 9"
  shows "is_valid_ip_loop s (of_nat v) dot = 0 \<longleftrightarrow>
     (\<forall>c \<in> set s. isdigit c \<or> c = CHR ''.'') \<and> length (ip_vals v s) + dot = 4 \<and>
     (\<forall>x \<in> set (ip_vals v s). x \<le> 255) \<and> last (ip_vals v s) > 0"
  using assms
proof (induction s arbitrary: v dot)
  case Nil
  then show ?case by (auto simp: sint_small)
next
  case (Cons c s)
  let ?ss = "split_on (CHR ''.'') s"
  have hd_le: "length (hd ?ss) \<le> 9" if "\<forall>x \<in> set ?ss. length x \<le> 9"
    using that by (cases ?ss) auto
  have ne: "ip_vals w t \<noteq> []" for w t by (subst ip_vals_split) simp
  consider "c = CHR ''.''" | "isdigit c" "c \<noteq> CHR ''.''" | "\<not> isdigit c" "c \<noteq> CHR ''.''" by blast
  then show ?case
  proof cases
    case 1
    with Cons.prems have v: "v < 10 ^ 9" and all: "\<forall>x \<in> set ?ss. length x \<le> 9" by auto
    obtain y ys where y: "ip_vals 0 s = y # ys" using ne [of 0 s] by (cases "ip_vals 0 s") auto
    show ?thesis
      using 1 v Cons.IH [of 0 "Suc dot"] all
      by (auto simp: sec_ok_def sint_small y not_less)
  next
    case 2
    let ?w = "10 * v + (cval c - 48)"
    have d: "48 \<le> cval c" "cval c \<le> 57" using 2 by (auto simp: isdigit_def)
    have all: "\<forall>x \<in> set ?ss. length x \<le> 9" and len: "length (hd ?ss) < 9"
      using Cons.prems 2 by (cases ?ss; auto)+
    then have "9 - length (hd ?ss) = Suc (9 - length (c # hd ?ss))" by simp
    moreover have "v < 10 ^ (9 - length (c # hd ?ss))"
      using Cons.prems(1) 2 by (simp add: split_on_Cons del: split_on.simps)
    ultimately have w: "?w < 10 ^ (9 - length (hd ?ss))" using d by simp
    have step: "of_nat v * 10 + of_nat (cval c) - 48 = (of_nat ?w :: u32)"
      using d by (simp add: of_nat_diff)
    show ?thesis
      using 2 d Cons.IH [OF w all] by (simp add: step isdigit_def)
  next
    case 3
    then show ?thesis by (auto simp: isdigit_def)
  qed
qed

lemma split_on_digits:
  "(\<forall>c \<in> set s. P c \<or> c = d) \<longleftrightarrow> (\<forall>x \<in> set (split_on d s). \<forall>c \<in> set x. P c)"
proof (induction s)
  case (Cons c s)
  then show ?case by (cases "split_on d s") auto
qed simp

section \<open>Properties\<close>

text \<open>\<^verbatim>\<open>nustrstr\<close> is substring search: it returns NULL exactly when the pattern does not occur, and
  otherwise the first occurrence.\<close>

theorem nustrstr_correct:
  assumes "cstring s2"
  shows "case nustrstr s1 s2 of
      None \<Rightarrow> \<not> sublist s2 s1
    | Some r \<Rightarrow> \<exists>p. s1 = p @ r \<and> prefix s2 r \<and> (\<forall>k < length p. \<not> prefix s2 (drop k s1))"
proof (cases "s2 = []")
  case False
  with assms show ?thesis
    by (auto simp: nustrstr_def deref_NUL nustrstr_scan_None split: option.splits
        dest: nustrstr_scan_Some)
qed (simp add: nustrstr_def)

theorem nustrstr_witness:
  "nustrstr ''GET / HTTP'' ''HTTP'' = Some ''HTTP'' \<and>
   (\<exists>p. ''GET / HTTP'' = p @ ''HTTP'' \<and> prefix ''HTTP'' ''HTTP'')"
proof -
  have "nustrstr ''GET / HTTP'' ''HTTP'' = Some ''HTTP''"
    by (simp add: nustrstr_def NUL_def)
  with nustrstr_correct [of "''HTTP''" "''GET / HTTP''"] show ?thesis
    by (auto simp: NUL_def)
qed

text \<open>On texts whose sections have at most nine digits \<^verbatim>\<open>is_valid_ip\<close> accepts exactly four
  dot-separated decimal sections that are each at most 255, the last one not zero (an empty section
  counts as zero).\<close>

theorem is_valid_ip_correct:
  assumes "\<forall>x \<in> set (split_on (CHR ''.'') s). length x \<le> 9"
  shows "is_valid_ip s = 0 \<longleftrightarrow>
     (let ss = split_on (CHR ''.'') s in
      length ss = 4 \<and> (\<forall>x \<in> set ss. (\<forall>c \<in> set x. isdigit c) \<and> dec_value x \<le> 255) \<and>
      0 < dec_value (last ss))"
proof -
  let ?ss = "split_on (CHR ''.'') s"
  have sv: "sec_value 0 = dec_value" by (auto simp: sec_value_def dec_value_def)
  have vals: "ip_vals 0 s = map dec_value ?ss"
    by (subst ip_vals_split) (cases ?ss; simp add: sv)
  have "is_valid_ip s = 0 \<longleftrightarrow> (\<forall>c \<in> set s. isdigit c \<or> c = CHR ''.'') \<and>
      length (ip_vals 0 s) + 0 = 4 \<and> (\<forall>x \<in> set (ip_vals 0 s). x \<le> 255) \<and> last (ip_vals 0 s) > 0"
    using is_valid_ip_loop_iff [of 0 s 0] assms by (simp add: is_valid_ip_def)
  then show ?thesis
    by (auto simp: split_on_digits vals Let_def last_map)
qed

theorem is_valid_ip_witness:
  "is_valid_ip ''192.168.1.7'' = 0 \<and> is_valid_ip ''10.0.0.256'' \<noteq> 0"
  using is_valid_ip_correct [of "''192.168.1.7''"] is_valid_ip_correct [of "''10.0.0.256''"]
  by (simp add: dec_value_def isdigit_def)

text \<open>The unrolled \<^verbatim>\<open>strncpy\<close> stores exactly \<open>n\<close> characters: the source cut at \<open>n\<close>, padded with NULs.\<close>

theorem strncpy_correct:
  assumes "cstring s"
  shows "strncpy s n = strncpy_spec s n \<and> length (strncpy s n) = n \<and>
    (n > length s \<longrightarrow> takeWhile (\<lambda>c. c \<noteq> NUL) (strncpy s n) = s)"
proof -
  have "takeWhile (\<lambda>c. c \<noteq> NUL) (s @ replicate k NUL) = s" for k
    using assms by (subst takeWhile_append2) (auto simp: cstring_def takeWhile_replicate)
  then show ?thesis
    using assms by (auto simp: strncpy_eq strncpy_spec_def)
qed

theorem strncpy_witness:
  "strncpy ''NL6621'' 9 = strncpy_spec ''NL6621'' 9 \<and>
   takeWhile (\<lambda>c. c \<noteq> NUL) (strncpy ''NL6621'' 9) = ''NL6621''"
proof -
  have "cstring ''NL6621''" by (simp add: NUL_def)
  from strncpy_correct [OF this, of 9] show ?thesis by auto
qed

text \<open>\<^verbatim>\<open>NST_MoveMemOvlap\<close> copies correctly whether or not the regions overlap: every destination
  byte is the source byte of the memory before the call, every other byte is unchanged.\<close>

theorem NST_MoveMemOvlap_correct:
  assumes "pDst + unat sz \<le> length m" "pSrc + unat sz \<le> length m"
  shows "\<exists>m'. NST_MoveMemOvlap m pDst pSrc sz = Some m' \<and> length m' = length m \<and>
    take (unat sz) (drop pDst m') = take (unat sz) (drop pSrc m) \<and>
    (\<forall>i < length m. i < pDst \<or> pDst + unat sz \<le> i \<longrightarrow> m' ! i = m ! i)"
proof -
  define m' where "m' = (if pDst > pSrc then move_back m pDst pSrc (unat sz)
    else move_fwd m pDst pSrc (unat sz))"
  have nth: "m' ! i = (if pDst \<le> i \<and> i < pDst + unat sz then m ! (pSrc + (i - pDst)) else m ! i)"
    if "i < length m" for i
    using that assms by (simp add: m'_def move_back_nth move_fwd_nth)
  have len: "length m' = length m" by (simp add: m'_def)
  have "take (unat sz) (drop pDst m') = take (unat sz) (drop pSrc m)"
    using assms len by (intro nth_equalityI) (auto simp: nth)
  with nth len assms show ?thesis by (auto simp: NST_MoveMemOvlap_def m'_def)
qed

theorem NST_MoveMemOvlap_witness:
  "\<exists>m'. NST_MoveMemOvlap [1, 2, 3, 4, 5] 1 0 3 = Some m' \<and> take 3 (drop 1 m') = [1, 2, 3] \<and> m' ! 0 = 1"
  using NST_MoveMemOvlap_correct [of 1 3 "[1, 2, 3, 4, 5]" 0] by auto

lemma itoa_dec: "itoa v 10 = Some (dec_of_int (sint v))"
  by (simp add: itoa_def utoa_def utoa_dec dec_of_int_def word_sless_alt unat_nonneg_sint unat_neg_sint not_less)

text \<open>\<^verbatim>\<open>itoa\<close> and \<^verbatim>\<open>utoa\<close> return for radix 10 and 16 and their texts read back as the number:
  decimal through \<^verbatim>\<open>atoi\<close> where the number is not negative, and hexadecimal through \<^verbatim>\<open>atou_hex\<close>.\<close>

theorem number_text_roundtrip:
  "(0 \<le> sint v \<longrightarrow> map_option atoi (itoa v 10) = Some v) \<and>
   itoa v 10 = Some (dec_of_int (sint v)) \<and>
   utoa v 0 = utoa v 10 \<and>
   atou_hex (utoa v 16) = v"
proof -
  have len: "unat (10::u32) = 10" "unat (16::u32) = 16" by simp_all
  note dec = itoa_dec [of v]
  have "\<forall>d \<in> set (nat_digits 16 (unat v)). d < 16" using nat_digits_less by simp
  then have "atou_hex (utoa v 16) = v"
    using atou_hex_digits [of "nat_digits 16 (unat v)" 0] nat_digits_value [of 16 "unat v"]
    by (simp add: utoa_def atou_hex_def utoa_loop_digits digits_value_def)
  moreover have "atoi (dec_of_int (sint v)) = v" if "0 \<le> sint v"
    using that by (simp add: dec_of_int_def unat_nonneg_sint [symmetric])
  ultimately show ?thesis using dec by (simp add: utoa_def)
qed

text \<open>\<^verbatim>\<open>strrmvspace\<close> trims a string with a visible character and leaves the memory below the
  destination alone, but on a string of spaces only its backward loop runs below the destination and
  clears the spaces there.\<close>

theorem strrmvspace_behaviour:
  assumes "cstring src" "src \<noteq> []"
  shows "strrmvspace below src =
    (if \<forall>c \<in> set src. isspace c
     then map_option (Pair []) (rmvspace_back below)
     else Some (strip src, below))"
proof (cases "\<forall>c \<in> set src. isspace c")
  case True
  then have dw: "dropWhile isspace src = []" by simp
  show ?thesis
    using True assms by (cases "rmvspace_back below") (simp_all add: strrmvspace_def dw)
next
  case False
  then show ?thesis using strrmvspace_strip assms by auto
qed

theorem strrmvspace_witness:
  "strrmvspace '' x'' ''  '' = Some ([], [NUL, CHR ''x'']) \<and>
   strrmvspace '' x'' '' a '' = Some (''a'', '' x'')"
  using strrmvspace_behaviour [of "''  ''" "'' x''"] strrmvspace_behaviour [of "'' a ''" "'' x''"]
  by (simp add: NUL_def isspace_def strip_def)

end
