(* ===== verification/Crc.thy ===== *)
theory Crc
  imports SN_Prelude
begin

text \<open>
  The checksums of \<^verbatim>\<open>Sys/util.c\<close>: the table driven \<^verbatim>\<open>NST_GetCrc8\<close> and \<^verbatim>\<open>NST_GetCrc32\<close>, whose byte step
  \<^verbatim>\<open>_cal_crc32\<close> is written out bit by bit. The reference definitions are the shift register forms:
  the reflected polynomial \<^verbatim>\<open>0xE0\<close> for CRC-8, and the CRC-32 of IEEE 802.3 (reflected polynomial
  \<^verbatim>\<open>0xEDB88320\<close>, initial value and final complement all ones).
\<close>

section \<open>Definitions\<close>

definition crc8_tbl :: "u8 list" where
  "crc8_tbl = [
     0x00, 0x91, 0xe3, 0x72, 0x07, 0x96, 0xe4, 0x75, 0x0e, 0x9f, 0xed, 0x7c, 0x09, 0x98, 0xea,
     0x7b, 0x1c, 0x8d, 0xff, 0x6e, 0x1b, 0x8a, 0xf8, 0x69, 0x12, 0x83, 0xf1, 0x60, 0x15, 0x84,
     0xf6, 0x67, 0x38, 0xa9, 0xdb, 0x4a, 0x3f, 0xae, 0xdc, 0x4d, 0x36, 0xa7, 0xd5, 0x44, 0x31,
     0xa0, 0xd2, 0x43, 0x24, 0xb5, 0xc7, 0x56, 0x23, 0xb2, 0xc0, 0x51, 0x2a, 0xbb, 0xc9, 0x58,
     0x2d, 0xbc, 0xce, 0x5f, 0x70, 0xe1, 0x93, 0x02, 0x77, 0xe6, 0x94, 0x05, 0x7e, 0xef, 0x9d,
     0x0c, 0x79, 0xe8, 0x9a, 0x0b, 0x6c, 0xfd, 0x8f, 0x1e, 0x6b, 0xfa, 0x88, 0x19, 0x62, 0xf3,
     0x81, 0x10, 0x65, 0xf4, 0x86, 0x17, 0x48, 0xd9, 0xab, 0x3a, 0x4f, 0xde, 0xac, 0x3d, 0x46,
     0xd7, 0xa5, 0x34, 0x41, 0xd0, 0xa2, 0x33, 0x54, 0xc5, 0xb7, 0x26, 0x53, 0xc2, 0xb0, 0x21,
     0x5a, 0xcb, 0xb9, 0x28, 0x5d, 0xcc, 0xbe, 0x2f, 0xe0, 0x71, 0x03, 0x92, 0xe7, 0x76, 0x04,
     0x95, 0xee, 0x7f, 0x0d, 0x9c, 0xe9, 0x78, 0x0a, 0x9b, 0xfc, 0x6d, 0x1f, 0x8e, 0xfb, 0x6a,
     0x18, 0x89, 0xf2, 0x63, 0x11, 0x80, 0xf5, 0x64, 0x16, 0x87, 0xd8, 0x49, 0x3b, 0xaa, 0xdf,
     0x4e, 0x3c, 0xad, 0xd6, 0x47, 0x35, 0xa4, 0xd1, 0x40, 0x32, 0xa3, 0xc4, 0x55, 0x27, 0xb6,
     0xc3, 0x52, 0x20, 0xb1, 0xca, 0x5b, 0x29, 0xb8, 0xcd, 0x5c, 0x2e, 0xbf, 0x90, 0x01, 0x73,
     0xe2, 0x97, 0x06, 0x74, 0xe5, 0x9e, 0x0f, 0x7d, 0xec, 0x99, 0x08, 0x7a, 0xeb, 0x8c, 0x1d,
     0x6f, 0xfe, 0x8b, 0x1a, 0x68, 0xf9, 0x82, 0x13, 0x61, 0xf0, 0x85, 0x14, 0x66, 0xf7, 0xa8,
     0x39, 0x4b, 0xda, 0xaf, 0x3e, 0x4c, 0xdd, 0xa6, 0x37, 0x45, 0xd4, 0xa1, 0x30, 0x42, 0xd3,
     0xb4, 0x25, 0x57, 0xc6, 0xb3, 0x22, 0x50, 0xc1, 0xba, 0x2b, 0x59, 0xc8, 0xbd, 0x2c, 0x5e,
     0xcf]"

text \<open>\<^verbatim>\<open>NST_GetCrc8\<close>: the loop over the data, from \<^verbatim>\<open>crc8 = 0\<close>.\<close>

fun crc8_loop :: "u8 \<Rightarrow> bytes \<Rightarrow> u8" where
  "crc8_loop crc [] = crc"
| "crc8_loop crc (x # xs) = crc8_loop (crc8_tbl ! unat (crc XOR x)) xs"

definition NST_GetCrc8 :: "bytes \<Rightarrow> u8" where
  "NST_GetCrc8 xs = crc8_loop 0 xs"

text \<open>\<^verbatim>\<open>_cal_crc32\<close>: \<^verbatim>\<open>in_data_buf\<close> and \<^verbatim>\<open>crc_buf\<close> hold one bit per byte, \<open>crc_out\<close> is the list of the 32
  assignments of the source, and the result collects its non-zero entries.\<close>

definition in_data_buf :: "u8 \<Rightarrow> u8 list" where
  "in_data_buf x = map (\<lambda>i. drop_bit i x AND 1) [0..<8]"

definition crc_buf :: "u32 \<Rightarrow> u8 list" where
  "crc_buf w = map (\<lambda>i. ucast (drop_bit i w) AND 1) [0..<32]"

definition crc_out :: "u8 list \<Rightarrow> u8 list \<Rightarrow> u8 list" where
  "crc_out d c = [
     d ! 1 XOR d ! 7 XOR c ! 30 XOR c ! 24,
     d ! 0 XOR d ! 1 XOR d ! 6 XOR d ! 7 XOR c ! 31 XOR c ! 30 XOR c ! 25 XOR c ! 24,
     d ! 0 XOR d ! 1 XOR d ! 5 XOR d ! 6 XOR d ! 7 XOR c ! 31 XOR c ! 30 XOR c ! 26 XOR
       c ! 25 XOR c ! 24,
     d ! 0 XOR d ! 4 XOR d ! 5 XOR d ! 6 XOR c ! 31 XOR c ! 27 XOR c ! 26 XOR c ! 25,
     d ! 1 XOR d ! 3 XOR d ! 4 XOR d ! 5 XOR d ! 7 XOR c ! 30 XOR c ! 28 XOR c ! 27 XOR
       c ! 26 XOR c ! 24,
     d ! 0 XOR d ! 1 XOR d ! 2 XOR d ! 3 XOR d ! 4 XOR d ! 6 XOR d ! 7 XOR c ! 31 XOR
       c ! 30 XOR c ! 29 XOR c ! 28 XOR c ! 27 XOR c ! 25 XOR c ! 24,
     d ! 0 XOR d ! 1 XOR d ! 2 XOR d ! 3 XOR d ! 5 XOR d ! 6 XOR c ! 31 XOR c ! 30 XOR
       c ! 29 XOR c ! 28 XOR c ! 26 XOR c ! 25,
     d ! 0 XOR d ! 2 XOR d ! 4 XOR d ! 5 XOR d ! 7 XOR c ! 31 XOR c ! 29 XOR c ! 27 XOR
       c ! 26 XOR c ! 24,
     d ! 3 XOR d ! 4 XOR d ! 6 XOR d ! 7 XOR c ! 28 XOR c ! 27 XOR c ! 25 XOR c ! 24 XOR
       c ! 0,
     d ! 2 XOR d ! 3 XOR d ! 5 XOR d ! 6 XOR c ! 29 XOR c ! 28 XOR c ! 26 XOR c ! 25 XOR
       c ! 1,
     d ! 2 XOR d ! 4 XOR d ! 5 XOR d ! 7 XOR c ! 29 XOR c ! 27 XOR c ! 26 XOR c ! 24 XOR
       c ! 2,
     d ! 3 XOR d ! 4 XOR d ! 6 XOR d ! 7 XOR c ! 28 XOR c ! 27 XOR c ! 25 XOR c ! 24 XOR
       c ! 3,
     d ! 1 XOR d ! 2 XOR d ! 3 XOR d ! 5 XOR d ! 6 XOR d ! 7 XOR c ! 30 XOR c ! 29 XOR
       c ! 28 XOR c ! 26 XOR c ! 25 XOR c ! 24 XOR c ! 4,
     d ! 0 XOR d ! 1 XOR d ! 2 XOR d ! 4 XOR d ! 5 XOR d ! 6 XOR c ! 31 XOR c ! 30 XOR
       c ! 29 XOR c ! 27 XOR c ! 26 XOR c ! 25 XOR c ! 5,
     d ! 0 XOR d ! 1 XOR d ! 3 XOR d ! 4 XOR d ! 5 XOR c ! 31 XOR c ! 30 XOR c ! 28 XOR
       c ! 27 XOR c ! 26 XOR c ! 6,
     d ! 0 XOR d ! 2 XOR d ! 3 XOR d ! 4 XOR c ! 31 XOR c ! 29 XOR c ! 28 XOR c ! 27 XOR
       c ! 7,
     d ! 2 XOR d ! 3 XOR d ! 7 XOR c ! 29 XOR c ! 28 XOR c ! 24 XOR c ! 8,
     d ! 1 XOR d ! 2 XOR d ! 6 XOR c ! 30 XOR c ! 29 XOR c ! 25 XOR c ! 9,
     d ! 0 XOR d ! 1 XOR d ! 5 XOR c ! 31 XOR c ! 30 XOR c ! 26 XOR c ! 10,
     d ! 0 XOR d ! 4 XOR c ! 31 XOR c ! 27 XOR c ! 11,
     d ! 3 XOR c ! 28 XOR c ! 12,
     d ! 2 XOR c ! 29 XOR c ! 13,
     d ! 7 XOR c ! 24 XOR c ! 14,
     d ! 1 XOR d ! 6 XOR d ! 7 XOR c ! 30 XOR c ! 25 XOR c ! 24 XOR c ! 15,
     d ! 0 XOR d ! 5 XOR d ! 6 XOR c ! 31 XOR c ! 26 XOR c ! 25 XOR c ! 16,
     d ! 4 XOR d ! 5 XOR c ! 27 XOR c ! 26 XOR c ! 17,
     d ! 1 XOR d ! 3 XOR d ! 4 XOR d ! 7 XOR c ! 30 XOR c ! 28 XOR c ! 27 XOR c ! 24 XOR
       c ! 18,
     d ! 0 XOR d ! 2 XOR d ! 3 XOR d ! 6 XOR c ! 31 XOR c ! 29 XOR c ! 28 XOR c ! 25 XOR
       c ! 19,
     d ! 1 XOR d ! 2 XOR d ! 5 XOR c ! 30 XOR c ! 29 XOR c ! 26 XOR c ! 20,
     d ! 0 XOR d ! 1 XOR d ! 4 XOR c ! 31 XOR c ! 30 XOR c ! 27 XOR c ! 21,
     d ! 0 XOR d ! 3 XOR c ! 31 XOR c ! 28 XOR c ! 22,
     d ! 2 XOR c ! 23 XOR c ! 29]"

definition crc_collect :: "u8 list \<Rightarrow> nat \<Rightarrow> u32" where
  "crc_collect out n = foldl (\<lambda>r i. if out ! i \<noteq> 0 then r OR push_bit i 1 else r) 0 [0..<n]"

definition cal_crc32 :: "u32 \<Rightarrow> u8 \<Rightarrow> u32" where
  "cal_crc32 crc_result data_8 = crc_collect (crc_out (in_data_buf data_8) (crc_buf crc_result)) 32"

text \<open>\<^verbatim>\<open>NST_GetCrc32\<close>: all bytes from \<^verbatim>\<open>0xFFFFFFFF\<close>, then the bits reversed and complemented.\<close>

definition crc_reflect :: "u32 \<Rightarrow> u32" where
  "crc_reflect w = foldl (\<lambda>r i. if bit w i then r OR push_bit (31 - i) 1 else r) 0 [0..<32]"

definition NST_GetCrc32 :: "bytes \<Rightarrow> u32" where
  "NST_GetCrc32 xs = NOT (crc_reflect (foldl cal_crc32 0xFFFFFFFF xs))"

section \<open>Reference definitions\<close>

definition crc8_shift :: "u8 \<Rightarrow> u8" where
  "crc8_shift c = (if bit c 0 then drop_bit 1 c XOR 0xE0 else drop_bit 1 c)"

definition crc8_byte :: "u8 \<Rightarrow> u8 \<Rightarrow> u8" where
  "crc8_byte crc x = (crc8_shift ^^ 8) (crc XOR x)"

definition crc32_shift :: "u32 \<Rightarrow> u32" where
  "crc32_shift c = (if bit c 0 then drop_bit 1 c XOR 0xEDB88320 else drop_bit 1 c)"

definition crc32_byte :: "u32 \<Rightarrow> u8 \<Rightarrow> u32" where
  "crc32_byte crc x = (crc32_shift ^^ 8) (crc XOR ucast x)"

definition crc32_ieee :: "bytes \<Rightarrow> u32" where
  "crc32_ieee xs = NOT (foldl crc32_byte 0xFFFFFFFF xs)"

section \<open>CRC-8\<close>

lemma crc8_shift8: "(crc8_shift ^^ 8) x =
    crc8_shift (crc8_shift (crc8_shift (crc8_shift (crc8_shift (crc8_shift (crc8_shift (crc8_shift x)))))))"
  by (simp add: numeral_eq_Suc)

text \<open>The table, entry by entry from the byte \<open>x\<close> on, holds the eight shifts of its index.\<close>

fun tbl_ok :: "u8 \<Rightarrow> u8 list \<Rightarrow> bool" where
  "tbl_ok x [] = True"
| "tbl_ok x (t # ts) = (t = (crc8_shift ^^ 8) x \<and> tbl_ok (x + 1) ts)"

lemma tbl_ok_nth: "tbl_ok x ts \<Longrightarrow> i < length ts \<Longrightarrow> ts ! i = (crc8_shift ^^ 8) (x + of_nat i)"
  by (induction x ts arbitrary: i rule: tbl_ok.induct) (auto simp: nth_Cons algebra_simps split: nat.splits)

lemma crc8_tbl_ok: "tbl_ok 0 crc8_tbl"
  by (simp add: crc8_tbl_def crc8_shift8 crc8_shift_def)

lemma crc8_tbl_nth: "crc8_tbl ! unat x = (crc8_shift ^^ 8) x"
proof -
  have "length crc8_tbl = 256" by (simp add: crc8_tbl_def)
  then have "unat x < length crc8_tbl" using unsigned_less [of x] by simp
  then show ?thesis using tbl_ok_nth [OF crc8_tbl_ok] by simp
qed

lemma crc8_loop_fold: "crc8_loop c xs = foldl crc8_byte c xs"
  by (induction xs arbitrary: c) (simp_all add: crc8_tbl_nth crc8_byte_def)

lemma xor_left_cancel: "a XOR x = b XOR x \<longleftrightarrow> a = b" "x XOR a = x XOR b \<longleftrightarrow> a = b"
  for a b x :: "'a::len word"
  by (metis xor.assoc xor.right_neutral xor_self_eq) (metis xor.assoc xor.left_neutral xor_self_eq)

lemma crc8_shift_inj: "inj crc8_shift"
proof (rule injI)
  fix a b assume eq: "crc8_shift a = crc8_shift b"
  have top: "bit (crc8_shift c) 7 = bit c 0" for c
    using bit_imp_le_length [of c 8] by (auto simp: crc8_shift_def bit_simps)
  from top [of a] top [of b] eq have zero: "bit a 0 = bit b 0" by simp
  with eq have "drop_bit 1 a = drop_bit 1 b"
    by (auto simp: crc8_shift_def xor_left_cancel split: if_splits)
  then have "bit (drop_bit 1 a) n = bit (drop_bit 1 b) n" for n by simp
  then have "bit a (Suc n) = bit b (Suc n)" for n by (simp add: bit_simps)
  with zero have "bit a n = bit b n" for n by (cases n) auto
  then show "a = b" by (intro bit_word_eqI) simp
qed

lemma crc8_byte_inject: "crc8_byte c x = crc8_byte d y \<longleftrightarrow> c XOR x = d XOR y"
  unfolding crc8_byte_def by (rule inj_eq [OF inj_fn [OF crc8_shift_inj]])

lemma crc8_fold_inject: "foldl crc8_byte c xs = foldl crc8_byte d xs \<longleftrightarrow> c = d"
  by (induction xs arbitrary: c d) (auto simp: crc8_byte_inject xor_left_cancel)

section \<open>CRC-32\<close>

text \<open>One shift of the reflected register on a list of bits, lowest first.\<close>

definition poly_bits :: "bool list" where
  "poly_bits = map (bit (0xEDB88320 :: u32)) [0..<32]"

definition shift_bits :: "u8 list \<Rightarrow> u8 list" where
  "shift_bits bs = map2 (\<lambda>x p. if p then x XOR hd bs else x) (tl bs @ [0]) poly_bits"

definition zeros24 :: "u8 list" where
  "zeros24 = [0, 0, 0, 0, 0, 0, 0, 0, 0, 0, 0, 0, 0, 0, 0, 0, 0, 0, 0, 0, 0, 0, 0, 0]"

definition byte_bits :: "u8 list \<Rightarrow> u8 list \<Rightarrow> u8 list" where
  "byte_bits bs ds = shift_bits (shift_bits (shift_bits (shift_bits (shift_bits (shift_bits (shift_bits
     (shift_bits (map2 (XOR) bs (ds @ zeros24)))))))))"

lemma poly_bits_eq: "poly_bits =
  [False, False, False, False, False, True, False, False, True, True, False, False, False, False,
   False, True, False, False, False, True, True, True, False, True, True, False, True, True, False,
   True, True, True]"
  by (simp add: poly_bits_def upt_rec)

lemma shift_bits_list: "shift_bits [r0, r1, r2, r3, r4, r5, r6, r7, r8, r9, r10, r11, r12, r13,
   r14, r15, r16, r17, r18, r19, r20, r21, r22, r23, r24, r25, r26, r27, r28, r29, r30, r31] =
  [r1, r2, r3, r4, r5, r6 XOR r0, r7, r8, r9 XOR r0, r10 XOR r0, r11, r12, r13, r14, r15,
   r16 XOR r0, r17, r18, r19, r20 XOR r0, r21 XOR r0, r22 XOR r0, r23, r24 XOR r0, r25 XOR r0,
   r26, r27 XOR r0, r28 XOR r0, r29, r30 XOR r0, r31 XOR r0, 0 XOR r0]"
  by (simp add: shift_bits_def poly_bits_eq)

lemma xor_left_self: "a XOR (a XOR b) = b" for a b :: u8
  by (simp flip: xor.assoc)

lemma crc_out_byte_bits: "rev (crc_out [d0, d1, d2, d3, d4, d5, d6, d7] [r0, r1, r2, r3, r4, r5,
   r6, r7, r8, r9, r10, r11, r12, r13, r14, r15, r16, r17, r18, r19, r20, r21, r22, r23, r24,
   r25, r26, r27, r28, r29, r30, r31]) =
  byte_bits (rev [r0, r1, r2, r3, r4, r5, r6, r7, r8, r9, r10, r11, r12, r13, r14, r15, r16, r17,
   r18, r19, r20, r21, r22, r23, r24, r25, r26, r27, r28, r29, r30, r31])
    [d0, d1, d2, d3, d4, d5, d6, d7]"
  by (simp add: crc_out_def byte_bits_def shift_bits_list xor.assoc xor.commute xor.left_commute
      xor_left_self zeros24_def)

lemma crc_out_rev:
  assumes "length bs = 32" "length ds = 8"
  shows "crc_out ds bs = rev (byte_bits (rev bs) ds)"
proof -
  from assms(2) obtain d0 d1 d2 d3 d4 d5 d6 d7 where d: "ds = [d0, d1, d2, d3, d4, d5, d6, d7]"
    by (auto simp: numeral_eq_Suc length_Suc_conv)
  from assms(1) obtain r0 r1 r2 r3 r4 r5 r6 r7 r8 r9 r10 r11 r12 r13 r14 r15 r16 r17 r18 r19 r20
      r21 r22 r23 r24 r25 r26 r27 r28 r29 r30 r31 where r: "bs = [r0, r1, r2, r3, r4, r5, r6, r7, r8,
      r9, r10, r11, r12, r13, r14, r15, r16, r17, r18, r19, r20, r21, r22, r23, r24, r25, r26, r27,
      r28, r29, r30, r31]"
    by (auto simp: numeral_eq_Suc length_Suc_conv)
  show ?thesis
    unfolding d r crc_out_byte_bits [symmetric] by simp
qed

definition bits32 :: "u32 \<Rightarrow> u8 list" where
  "bits32 w = map (\<lambda>i. of_bool (bit w i)) [0..<32]"

lemma bits32_length [simp]: "length (bits32 w) = 32"
  by (simp add: bits32_def)

lemma bits32_nth [simp]: "i < 32 \<Longrightarrow> bits32 w ! i = of_bool (bit w i)"
  by (simp add: bits32_def)

lemma bits32_inject: "bits32 v = bits32 w \<longleftrightarrow> v = w"
proof
  assume "bits32 v = bits32 w"
  then have "bits32 v ! i = bits32 w ! i" for i by simp
  then have "bit v i = bit w i" if "i < 32" for i
    using that by (metis (full_types) bits32_nth of_bool_eq_iff)
  then show "v = w" by (intro bit_word_eqI) simp
qed simp

lemma and_one_bit: "w AND 1 = of_bool (bit w 0)" for w :: "'a::len word"
  by (rule bit_word_eqI) (auto simp: bit_simps)

lemma crc_buf_bits: "crc_buf w = bits32 w"
  by (simp add: crc_buf_def bits32_def and_one_bit bit_simps)

lemma in_data_buf_nth [simp]: "i < 8 \<Longrightarrow> in_data_buf x ! i = of_bool (bit x i)"
  by (simp add: in_data_buf_def and_one_bit bit_simps)

lemma in_data_buf_length [simp]: "length (in_data_buf x) = 8"
  by (simp add: in_data_buf_def)

lemma of_bool_xor: "of_bool P XOR of_bool Q = (of_bool (P \<noteq> Q) :: u8)"
  by (cases P; cases Q) simp_all

lemma bits32_shift: "bits32 (crc32_shift w) = shift_bits (bits32 w)"
proof (rule nth_equalityI)
  show "length (bits32 (crc32_shift w)) = length (shift_bits (bits32 w))"
    by (simp add: shift_bits_def poly_bits_def)
next
  fix i assume "i < length (bits32 (crc32_shift w))"
  then have i: "i < 32" by simp
  have hd: "hd (bits32 w) = of_bool (bit w 0)" by (simp add: bits32_def hd_map)
  have tl: "(tl (bits32 w) @ [0]) ! i = of_bool (bit w (Suc i))"
    using i bit_imp_le_length [of w "Suc i"] by (auto simp: nth_append nth_tl)
  show "bits32 (crc32_shift w) ! i = shift_bits (bits32 w) ! i"
    using i by (auto simp: shift_bits_def poly_bits_def hd tl crc32_shift_def bit_simps of_bool_xor)
qed

lemma bits32_xor: "bits32 (w XOR ucast x) = map2 (XOR) (bits32 w) (in_data_buf x @ zeros24)"
proof (rule nth_equalityI)
  fix i assume "i < length (bits32 (w XOR ucast x))"
  then have i: "i < 32" by simp
  have z: "zeros24 = replicate 24 0" by (simp add: zeros24_def numeral_eq_Suc)
  have "(in_data_buf x @ zeros24) ! i = of_bool (bit x i)"
    using i bit_imp_le_length [of x i] by (auto simp: z nth_append)
  with i show "bits32 (w XOR ucast x) ! i = map2 (XOR) (bits32 w) (in_data_buf x @ zeros24) ! i"
    using bit_imp_le_length [of x i] by (auto simp: z bit_simps of_bool_xor)
qed (simp add: zeros24_def)

lemma bits32_byte: "bits32 (crc32_byte w x) = byte_bits (bits32 w) (in_data_buf x)"
proof -
  have "crc32_byte w x = crc32_shift (crc32_shift (crc32_shift (crc32_shift (crc32_shift (crc32_shift
      (crc32_shift (crc32_shift (w XOR ucast x))))))))"
    by (simp add: crc32_byte_def numeral_eq_Suc)
  then show ?thesis by (simp add: byte_bits_def bits32_shift bits32_xor)
qed

lemma crc_collect_bit: "n \<le> 32 \<Longrightarrow> bit (crc_collect out n) i \<longleftrightarrow> i < n \<and> out ! i \<noteq> 0"
  by (induction n) (auto simp: crc_collect_def bit_simps less_Suc_eq)

lemma crc_reflect_bit: "i < 32 \<Longrightarrow> bit (crc_reflect w) i \<longleftrightarrow> bit w (31 - i)"
proof -
  assume i: "i < 32"
  have "bit (foldl (\<lambda>r j. if bit w j then r OR push_bit (31 - j) 1 else r) (0::u32) [0..<n]) i
      \<longleftrightarrow> 31 - i < n \<and> bit w (31 - i)" if "n \<le> 32" for n
    using that i by (induction n) (auto simp: bit_simps less_Suc_eq)
  from this [of 32] show ?thesis using i by (auto simp: crc_reflect_def)
qed

lemma bits32_reflect: "bits32 (crc_reflect w) = rev (bits32 w)"
  by (rule nth_equalityI) (simp_all add: rev_nth crc_reflect_bit)

lemma crc_reflect_cal: "crc_reflect (cal_crc32 w x) = crc32_byte (crc_reflect w) x"
proof -
  have out: "crc_out (in_data_buf x) (crc_buf w) = rev (bits32 (crc32_byte (crc_reflect w) x))"
    by (simp add: crc_buf_bits crc_out_rev bits32_byte bits32_reflect)
  have "bits32 (cal_crc32 w x) = rev (bits32 (crc32_byte (crc_reflect w) x))"
    by (rule nth_equalityI) (simp_all add: cal_crc32_def out crc_collect_bit rev_nth)
  then have "bits32 (crc_reflect (cal_crc32 w x)) = bits32 (crc32_byte (crc_reflect w) x)"
    by (simp add: bits32_reflect)
  then show ?thesis by (simp add: bits32_inject)
qed

lemma crc_reflect_fold:
  "crc_reflect (foldl cal_crc32 w xs) = foldl crc32_byte (crc_reflect w) xs"
  by (induction xs arbitrary: w) (simp_all add: crc_reflect_cal)

lemma crc_reflect_ones: "crc_reflect 0xFFFFFFFF = 0xFFFFFFFF"
proof -
  have ones: "(0xFFFFFFFF :: u32) = - 1" by simp
  show ?thesis unfolding ones by (intro bit_word_eqI) (auto simp: crc_reflect_bit)
qed

section \<open>Properties\<close>

text \<open>C31: \<^verbatim>\<open>NST_GetCrc32\<close>, written as 32 sums of data and register bits, is the IEEE 802.3 CRC-32 for
  every input.\<close>

theorem NST_GetCrc32_ieee: "NST_GetCrc32 xs = crc32_ieee xs"
  by (simp add: NST_GetCrc32_def crc32_ieee_def crc_reflect_fold crc_reflect_ones)

text \<open>The table of \<^verbatim>\<open>NST_GetCrc8\<close> is the shift register of the reflected polynomial \<^verbatim>\<open>0xE0\<close>, and a
  change confined to one byte of the data always changes the checksum.\<close>

theorem NST_GetCrc8_correct:
  "NST_GetCrc8 xs = foldl crc8_byte 0 xs \<and>
   (NST_GetCrc8 (ps @ x # qs) = NST_GetCrc8 (ps @ y # qs) \<longleftrightarrow> x = y)"
  by (simp add: NST_GetCrc8_def crc8_loop_fold crc8_fold_inject crc8_byte_inject xor_left_cancel)

end
