(* ===== verification/Mem_Pool.thy ===== *)
theory Mem_Pool
  imports SN_Prelude "HOL-Library.Monad_Syntax"
begin

text \<open>
  The dynamic memory pool of \<^verbatim>\<open>Ports/Cortex-M3/os_dmem.c\<close>. The block headers form a circular doubly
  linked list inside the pool; \<open>hdrs\<close> is the memory seen at the header addresses, \<open>ram\<close> the memory the
  clients use. Addresses and sizes are natural numbers below \<open>2 ^ 32\<close> with the wrap-around of \<^verbatim>\<open>UNSIGNED\<close>
  written out. The abstraction of a pool is the list of its blocks (size, free flag) in address
  order; the lemmas show that every operation implements the block list operation, that the blocks
  tile the pool, and that live blocks never overlap.
\<close>

section \<open>Definitions\<close>

definition wrap32 :: "nat \<Rightarrow> nat" where
  "wrap32 n = n mod 4294967296"

definition usub :: "nat \<Rightarrow> nat \<Rightarrow> nat" where
  "usub a b = wrap32 (a + (4294967296 - wrap32 b))"

record dm_header =
  dm_next_memory :: nat
  dm_previous_memory :: nat
  dm_memory_free :: bool
  dm_memory_pool :: nat

record dm_pcb =
  dm_id :: nat
  dm_name :: string
  dm_start_address :: nat
  dm_pool_size :: nat
  dm_min_allocation :: nat
  dm_available :: nat
  dm_memory_list :: nat
  dm_search_ptr :: nat

record dmem =
  pools :: "nat \<Rightarrow> dm_pcb"
  hdrs :: "nat \<Rightarrow> dm_header"
  ram :: "nat \<Rightarrow> u8"
  DMD_Total_Pools :: u32

definition DM_OVERHEAD :: nat where "DM_OVERHEAD = ((16 + 4 - 1) div 4) * 4"
definition DM_DYNAMIC_ID :: nat where "DM_DYNAMIC_ID = 0x44594e41"
definition OS_ERR_NONE :: nat where "OS_ERR_NONE = 0"
definition OS_ERR_MEM_FULL :: nat where "OS_ERR_MEM_FULL = 94"

text \<open>A store to a field of the header at an address, and to a field of a pool control block.\<close>

definition upd_hdr :: "nat \<Rightarrow> (dm_header \<Rightarrow> dm_header) \<Rightarrow> dmem \<Rightarrow> dmem" where
  "upd_hdr a f st = st\<lparr>hdrs := (hdrs st)(a := f (hdrs st a))\<rparr>"

definition upd_pool :: "nat \<Rightarrow> (dm_pcb \<Rightarrow> dm_pcb) \<Rightarrow> dmem \<Rightarrow> dmem" where
  "upd_pool p f st = st\<lparr>pools := (pools st)(p := f (pools st p))\<rparr>"

text \<open>Rounding up to a multiple of \<^verbatim>\<open>sizeof(UNSIGNED)\<close>, with the wrap of the addition.\<close>

definition round_up4 :: "nat \<Rightarrow> nat" where
  "round_up4 n = wrap32 (n + 3) div 4 * 4"

definition OS_Create_Memory_Pool :: "nat \<Rightarrow> string \<Rightarrow> nat \<Rightarrow> nat \<Rightarrow> nat \<Rightarrow> dmem \<Rightarrow> nat \<times> dmem" where
  "OS_Create_Memory_Pool p name start_address pool_size0 min_allocation st =
     (let pool_size = pool_size0 div 4 * 4;
          available = usub pool_size (2 * DM_OVERHEAD);
          trailer = wrap32 (start_address + available + DM_OVERHEAD);
          st1 = upd_pool p (\<lambda>b. b\<lparr>dm_id := 0, dm_name := take 4 name,
                  dm_start_address := start_address, dm_pool_size := pool_size,
                  dm_min_allocation := round_up4 min_allocation,
                  dm_available := available, dm_memory_list := start_address,
                  dm_search_ptr := start_address\<rparr>) st;
          st2 = upd_hdr start_address (\<lambda>h. h\<lparr>dm_memory_pool := p, dm_memory_free := True,
                  dm_next_memory := trailer, dm_previous_memory := trailer\<rparr>) st1;
          st3 = upd_hdr trailer (\<lambda>h. h\<lparr>dm_next_memory := start_address,
                  dm_previous_memory := start_address, dm_memory_pool := p,
                  dm_memory_free := False\<rparr>) st2;
          st4 = upd_pool p (\<lambda>b. b\<lparr>dm_id := DM_DYNAMIC_ID\<rparr>) st3
      in (OS_ERR_NONE, st4\<lparr>DMD_Total_Pools := DMD_Total_Pools st4 + 1\<rparr>))"

definition OS_DelMemPool :: "nat \<Rightarrow> dmem \<Rightarrow> nat \<times> dmem" where
  "OS_DelMemPool p st =
     (let st1 = upd_pool p (\<lambda>b. b\<lparr>dm_id := 0\<rparr>) st
      in (OS_ERR_NONE, st1\<lparr>DMD_Total_Pools := DMD_Total_Pools st1 - 1\<rparr>))"

text \<open>The size of the block at an address when it is free, 0 otherwise.\<close>

definition free_size :: "(nat \<Rightarrow> dm_header) \<Rightarrow> nat \<Rightarrow> nat" where
  "free_size h m =
     (if dm_memory_free (h m) then usub (usub (dm_next_memory (h m)) m) DM_OVERHEAD else 0)"

text \<open>The \<^verbatim>\<open>do ... while\<close> search of \<^verbatim>\<open>OS_GetMem\<close>, which follows \<^verbatim>\<open>dm_next_memory\<close> until it is back at
  the search pointer; \<open>None\<close> is a search that does not end.\<close>

partial_function (option) mem_search ::
  "(nat \<Rightarrow> dm_header) \<Rightarrow> nat \<Rightarrow> nat \<Rightarrow> nat \<Rightarrow> (nat \<times> nat) option" where
  "mem_search h sz search_ptr m =
     (let fs = free_size h m; m' = (if fs < sz then dm_next_memory (h m) else m)
      in if fs < sz \<and> m' \<noteq> search_ptr then mem_search h sz search_ptr m' else Some (m', fs))"

definition adjust_size :: "nat \<Rightarrow> nat \<Rightarrow> nat" where
  "adjust_size min_allocation sz = (if sz < min_allocation then min_allocation else round_up4 sz)"

text \<open>The split of the block at \<open>m\<close> after \<open>sz\<close> bytes, store by store.\<close>

definition split_block :: "nat \<Rightarrow> nat \<Rightarrow> nat \<Rightarrow> dmem \<Rightarrow> dmem" where
  "split_block p m sz st =
     (let new_ptr = wrap32 (m + sz + DM_OVERHEAD);
          st1 = upd_hdr new_ptr (\<lambda>h. h\<lparr>dm_memory_free := True\<rparr>) st;
          st2 = upd_hdr new_ptr (\<lambda>h. h\<lparr>dm_memory_pool := p\<rparr>) st1;
          st3 = upd_hdr new_ptr (\<lambda>h. h\<lparr>dm_previous_memory := m\<rparr>) st2;
          st4 = upd_hdr new_ptr (\<lambda>h. h\<lparr>dm_next_memory := dm_next_memory (hdrs st3 m)\<rparr>) st3;
          st5 = upd_hdr (dm_next_memory (hdrs st4 new_ptr)) (\<lambda>h. h\<lparr>dm_previous_memory := new_ptr\<rparr>) st4;
          st6 = upd_hdr m (\<lambda>h. h\<lparr>dm_next_memory := new_ptr\<rparr>) st5
      in upd_pool p (\<lambda>b. b\<lparr>dm_available := usub (usub (dm_available b) sz) DM_OVERHEAD\<rparr>) st6)"

text \<open>\<^verbatim>\<open>OS_GetMem\<close>: the status, \<^verbatim>\<open>*return_pointer\<close> (0 is NULL) and the new state.\<close>

definition OS_GetMem :: "nat \<Rightarrow> nat \<Rightarrow> dmem \<Rightarrow> (nat \<times> nat \<times> dmem) option" where
  "OS_GetMem p size0 st =
     (let sz = adjust_size (dm_min_allocation (pools st p)) size0;
          sp = dm_search_ptr (pools st p)
      in do {
        (m, fs) \<leftarrow> mem_search (hdrs st) sz sp sp;
        if fs \<ge> sz then
          let st1 = (if fs \<ge> wrap32 (sz + DM_OVERHEAD + dm_min_allocation (pools st p))
                     then split_block p m sz st
                     else upd_pool p (\<lambda>b. b\<lparr>dm_available := usub (dm_available b) fs\<rparr>) st);
              st2 = upd_hdr m (\<lambda>h. h\<lparr>dm_memory_free := False\<rparr>) st1;
              st3 = (if dm_search_ptr (pools st2 p) = m
                     then upd_pool p (\<lambda>b. b\<lparr>dm_search_ptr := dm_next_memory (hdrs st2 m)\<rparr>) st2
                     else st2)
          in Some (OS_ERR_NONE, wrap32 (m + DM_OVERHEAD), st3)
        else Some (OS_ERR_MEM_FULL, 0, st)
      })"

definition merge_prev :: "nat \<Rightarrow> nat \<Rightarrow> dmem \<Rightarrow> nat \<times> dmem" where
  "merge_prev p m st =
     (if dm_memory_free (hdrs st (dm_previous_memory (hdrs st m))) then
        let st1 = upd_pool p (\<lambda>b. b\<lparr>dm_available := wrap32 (dm_available b + DM_OVERHEAD)\<rparr>) st;
            st2 = upd_hdr (dm_previous_memory (hdrs st1 m))
                    (\<lambda>h. h\<lparr>dm_next_memory := dm_next_memory (hdrs st1 m)\<rparr>) st1;
            st3 = upd_hdr (dm_next_memory (hdrs st2 m))
                    (\<lambda>h. h\<lparr>dm_previous_memory := dm_previous_memory (hdrs st2 m)\<rparr>) st2;
            m' = dm_previous_memory (hdrs st3 m)
        in (m', upd_pool p (\<lambda>b. b\<lparr>dm_search_ptr := m'\<rparr>) st3)
      else (m, st))"

definition merge_next :: "nat \<Rightarrow> nat \<Rightarrow> dmem \<Rightarrow> dmem" where
  "merge_next p m st =
     (if dm_memory_free (hdrs st (dm_next_memory (hdrs st m))) then
        let st1 = upd_pool p (\<lambda>b. b\<lparr>dm_available := wrap32 (dm_available b + DM_OVERHEAD)\<rparr>) st;
            new_ptr = dm_next_memory (hdrs st1 m);
            st2 = upd_hdr (dm_next_memory (hdrs st1 new_ptr)) (\<lambda>h. h\<lparr>dm_previous_memory := m\<rparr>) st1;
            st3 = upd_hdr m (\<lambda>h. h\<lparr>dm_next_memory := dm_next_memory (hdrs st2 new_ptr)\<rparr>) st2
        in upd_pool p (\<lambda>b. b\<lparr>dm_search_ptr := m\<rparr>) st3
      else st)"

definition OS_FreeMem :: "nat \<Rightarrow> dmem \<Rightarrow> nat \<times> dmem" where
  "OS_FreeMem memory st =
     (let m = usub memory DM_OVERHEAD;
          p = dm_memory_pool (hdrs st m);
          st1 = upd_hdr m (\<lambda>h. h\<lparr>dm_memory_free := True\<rparr>) st;
          st2 = upd_pool p (\<lambda>b. b\<lparr>dm_available :=
                  usub (wrap32 (dm_available b + usub (dm_next_memory (hdrs st1 m)) m)) DM_OVERHEAD\<rparr>) st1;
          (m', st3) = merge_prev p m st2
      in (OS_ERR_NONE, merge_next p m' st3))"

text \<open>The system pool: \<open>OS_system_mempool\<close> is the address of its control block and \<open>sysemPool\<close> that of the
  static array.\<close>

definition OS_DMEM_POOL_SIZE :: nat where "OS_DMEM_POOL_SIZE = 1024 * 20"

definition OS_DMemInit :: "nat \<Rightarrow> nat \<Rightarrow> dmem \<Rightarrow> dmem" where
  "OS_DMemInit OS_system_mempool sysemPool st =
     snd (OS_Create_Memory_Pool OS_system_mempool (''Sys'' @ [NUL]) sysemPool OS_DMEM_POOL_SIZE 16
       (st\<lparr>DMD_Total_Pools := 0\<rparr>))"

definition OSMMalloc :: "nat \<Rightarrow> nat \<Rightarrow> dmem \<Rightarrow> (nat \<times> dmem) option" where
  "OSMMalloc OS_system_mempool sz st =
     do {
       (err, pointer, st') \<leftarrow> OS_GetMem OS_system_mempool sz st;
       Some (if err = OS_ERR_NONE then pointer else 0, st')
     }"

definition memset_ram :: "nat \<Rightarrow> u8 \<Rightarrow> nat \<Rightarrow> dmem \<Rightarrow> dmem" where
  "memset_ram a v n st = st\<lparr>ram := (\<lambda>x. if a \<le> x \<and> x < a + n then v else ram st x)\<rparr>"

definition OSMCalloc :: "nat \<Rightarrow> nat \<Rightarrow> nat \<Rightarrow> dmem \<Rightarrow> (nat \<times> dmem) option" where
  "OSMCalloc OS_system_mempool count sz st =
     do {
       (pt, st') \<leftarrow> OSMMalloc OS_system_mempool (wrap32 (count * sz)) st;
       Some (pt, if pt \<noteq> 0 then memset_ram pt 0 (wrap32 (count * sz)) st' else st')
     }"

definition OSMFree :: "nat \<Rightarrow> dmem \<Rightarrow> dmem" where
  "OSMFree ptr st = snd (OS_FreeMem ptr st)"

section \<open>The block list\<close>

type_synonym blk = "nat \<times> bool"

text \<open>The bytes of a list of blocks with their headers, and the address before a position.\<close>

fun blen :: "blk list \<Rightarrow> nat" where
  "blen [] = 0"
| "blen ((s, f) # bs) = 16 + s + blen bs"

fun lastp :: "nat \<Rightarrow> nat \<Rightarrow> blk list \<Rightarrow> nat" where
  "lastp pr a [] = pr"
| "lastp pr a ((s, f) # bs) = lastp a (a + 16 + s) bs"

text \<open>\<open>seg\<close>: the headers from \<open>a\<close> on describe the blocks \<open>bs\<close>; \<open>chain\<close>: and after them comes the trailer,
  which is never free and links back to the start \<open>st\<close>.\<close>

fun seg :: "(nat \<Rightarrow> dm_header) \<Rightarrow> nat \<Rightarrow> nat \<Rightarrow> nat \<Rightarrow> blk list \<Rightarrow> bool" where
  "seg h p pr a [] = True"
| "seg h p pr a ((s, f) # bs) =
     (h a = \<lparr>dm_next_memory = a + 16 + s, dm_previous_memory = pr, dm_memory_free = f, dm_memory_pool = p\<rparr> \<and>
      seg h p a (a + 16 + s) bs)"

fun chain :: "(nat \<Rightarrow> dm_header) \<Rightarrow> nat \<Rightarrow> nat \<Rightarrow> nat \<Rightarrow> nat \<Rightarrow> blk list \<Rightarrow> bool" where
  "chain h p st pr a [] =
     (h a = \<lparr>dm_next_memory = st, dm_previous_memory = pr, dm_memory_free = False, dm_memory_pool = p\<rparr>)"
| "chain h p st pr a ((s, f) # bs) =
     (h a = \<lparr>dm_next_memory = a + 16 + s, dm_previous_memory = pr, dm_memory_free = f, dm_memory_pool = p\<rparr> \<and>
      chain h p st a (a + 16 + s) bs)"

text \<open>The header addresses, the trailer last.\<close>

fun addrs :: "nat \<Rightarrow> blk list \<Rightarrow> nat list" where
  "addrs a [] = [a]"
| "addrs a ((s, f) # bs) = a # addrs (a + 16 + s) bs"

definition free_sum :: "blk list \<Rightarrow> nat" where
  "free_sum bs = sum_list (map (\<lambda>(s, f). if f then s else 0) bs)"

definition no_adjacent_free :: "blk list \<Rightarrow> bool" where
  "no_adjacent_free bs = successively (\<lambda>x y. \<not> (snd x \<and> snd y)) bs"

text \<open>The invariant of the pool \<open>p\<close> with blocks \<open>bs\<close>: the shape holds between the stores of a release too,
  and between operations no two neighbouring blocks are free.\<close>

definition pool_shape :: "nat \<Rightarrow> dmem \<Rightarrow> blk list \<Rightarrow> bool" where
  "pool_shape p st bs \<longleftrightarrow>
     (let b = pools st p; a = dm_start_address b in
      0 < a \<and> a + dm_pool_size b + dm_min_allocation b \<le> 4294967295 \<and>
      blen bs + 16 = dm_pool_size b \<and> bs \<noteq> [] \<and>
      chain (hdrs st) p a (a + blen bs) a bs \<and>
      dm_search_ptr b \<in> set (addrs a bs) \<and>
      dm_available b = free_sum bs \<and>
      (\<forall>(s, f) \<in> set bs. dm_min_allocation b \<le> s \<and> 4 dvd s) \<and>
      0 < dm_min_allocation b \<and> 4 dvd dm_min_allocation b \<and> 4 dvd a)"

definition pool_inv :: "nat \<Rightarrow> dmem \<Rightarrow> blk list \<Rightarrow> bool" where
  "pool_inv p st bs \<longleftrightarrow> pool_shape p st bs \<and> no_adjacent_free bs"

text \<open>The block list operations: the first fit search from a position in circular order, allocation
  in the chosen block, and release with merging.\<close>

definition alloc_blocks :: "nat \<Rightarrow> nat \<Rightarrow> blk list \<Rightarrow> nat \<Rightarrow> blk list \<Rightarrow> blk list" where
  "alloc_blocks min_alloc sz us s vs =
     us @ (if s \<ge> sz + 16 + min_alloc then (sz, False) # (s - sz - 16, True) # vs else (s, False) # vs)"

text \<open>A walk up the addresses from \<open>sp\<close>, around the end and on from the start reaches \<open>x\<close> no later than \<open>y\<close>.\<close>

definition reached_first :: "nat \<Rightarrow> nat \<Rightarrow> nat \<Rightarrow> bool" where
  "reached_first sp x y \<longleftrightarrow> (if sp \<le> x then x \<le> y \<or> y < sp else x \<le> y \<and> y < sp)"

definition free_blocks :: "blk list \<Rightarrow> nat \<Rightarrow> blk list \<Rightarrow> blk list" where
  "free_blocks us s vs =
     (let (us1, s1) = (if us \<noteq> [] \<and> snd (last us) then (butlast us, fst (last us) + 16 + s) else (us, s));
          (s2, vs1) = (if vs \<noteq> [] \<and> snd (hd vs) then (s1 + 16 + fst (hd vs), tl vs) else (s1, vs))
      in us1 @ (s2, True) # vs1)"

text \<open>The regions handed out: payload address and size of every block that is not free.\<close>

fun live_blocks :: "nat \<Rightarrow> blk list \<Rightarrow> (nat \<times> nat) set" where
  "live_blocks a [] = {}"
| "live_blocks a ((s, f) # bs) = (if f then {} else {(a + 16, s)}) \<union> live_blocks (a + 16 + s) bs"

section \<open>Arithmetic\<close>

named_theorems u32_simps \<open>unsigned arithmetic that does not wrap\<close>

lemma wrap32_small [u32_simps]: "n < 4294967296 \<Longrightarrow> wrap32 n = n"
  by (simp add: wrap32_def)

lemma wrap32_less: "wrap32 n < 4294967296"
  by (simp add: wrap32_def)

lemma usub_small [u32_simps]: "b \<le> a \<Longrightarrow> a < 4294967296 \<Longrightarrow> usub a b = a - b"
proof -
  assume a: "b \<le> a" "a < 4294967296"
  then have "a + (4294967296 - b) = (a - b) + 4294967296" by simp
  then have "(a + (4294967296 - b)) mod 4294967296 = (a - b) mod 4294967296" by simp
  with a show ?thesis by (simp add: usub_def wrap32_def)
qed

lemma DM_OVERHEAD_16 [simp]: "DM_OVERHEAD = 16"
  by (simp add: DM_OVERHEAD_def)

lemma round_up4_bounds:
  assumes "n \<le> 4294967292"
  shows "n \<le> round_up4 n" "round_up4 n \<le> n + 3" "4 dvd round_up4 n"
  using assms by (auto simp: round_up4_def wrap32_def)

lemma adjust_size_props:
  assumes "n \<le> 4294967292" "4 dvd min_alloc" "0 < min_alloc"
  shows "n \<le> adjust_size min_alloc n" "min_alloc \<le> adjust_size min_alloc n" "4 dvd adjust_size min_alloc n"
    "0 < adjust_size min_alloc n"
  using assms round_up4_bounds [OF assms(1)] by (auto simp: adjust_size_def)

section \<open>Chains of headers\<close>

lemma blen_append [simp]: "blen (us @ vs) = blen us + blen vs"
  by (induction us rule: blen.induct) auto

lemma lastp_append [simp]: "lastp pr a (us @ vs) = lastp (lastp pr a us) (a + blen us) vs"
  by (induction pr a us rule: lastp.induct) (auto simp: algebra_simps)

lemma seg_append [simp]:
  "seg h p pr a (us @ vs) \<longleftrightarrow> seg h p pr a us \<and> seg h p (lastp pr a us) (a + blen us) vs"
  by (induction h p pr a us rule: seg.induct) (auto simp: algebra_simps)

lemma chain_append:
  "chain h p st pr a (us @ vs) \<longleftrightarrow> seg h p pr a us \<and> chain h p st (lastp pr a us) (a + blen us) vs"
  by (induction h p pr a us rule: seg.induct) (auto simp: algebra_simps)

lemma seg_frame: "x < a \<or> a + blen bs \<le> x \<Longrightarrow> seg (h(x := v)) p pr a bs = seg h p pr a bs"
  by (induction h p pr a bs rule: seg.induct) auto

lemma chain_frame: "x < a \<or> a + blen bs < x \<Longrightarrow> chain (h(x := v)) p st pr a bs = chain h p st pr a bs"
  by (induction h p st pr a bs rule: chain.induct) auto

lemma chain_set_prev:
  "chain h p st pr a bs \<Longrightarrow> chain (h(a := (h a)\<lparr>dm_previous_memory := pr'\<rparr>)) p st pr' a bs"
  by (cases bs rule: remdups_adj.cases) (auto simp: chain_frame)

lemma chain_hd: "chain h p st pr a bs \<Longrightarrow> dm_previous_memory (h a) = pr \<and> dm_memory_pool (h a) = p"
  by (cases bs) auto

lemma addrs_ge: "x \<in> set (addrs a bs) \<Longrightarrow> a \<le> x \<and> x \<le> a + blen bs"
  by (induction a bs rule: addrs.induct) fastforce+

lemma addrs_not_Nil [simp]: "addrs a bs \<noteq> []"
  by (cases "(a, bs)" rule: addrs.cases) auto

lemma addrs_append: "addrs a (us @ vs) = butlast (addrs a us) @ addrs (a + blen us) vs"
  by (induction a us rule: addrs.induct) (auto simp: algebra_simps)

lemma addrs_hd [simp]: "hd (addrs a bs) = a"
  by (cases "(a, bs)" rule: addrs.cases) auto

lemma addrs_self [simp]: "a \<in> set (addrs a bs)"
  using hd_in_set [of "addrs a bs"] by simp

lemma addrs_distinct: "distinct (addrs a bs)"
  by (induction a bs rule: addrs.induct) (auto dest: addrs_ge)

lemma addrs_sorted: "sorted_wrt (<) (addrs a bs)"
  by (induction a bs rule: addrs.induct) (auto dest: addrs_ge)

lemma addrs_last: "last (addrs a bs) = a + blen bs"
  by (induction a bs rule: addrs.induct) auto

text \<open>An address in the list is the trailer or starts one of the blocks.\<close>

lemma addrs_cases:
  assumes "x \<in> set (addrs a bs)"
  obtains "x = a + blen bs" | us s f vs where "bs = us @ (s, f) # vs" "x = a + blen us"
proof -
  have "x = a + blen bs \<or> (\<exists>us s f vs. bs = us @ (s, f) # vs \<and> x = a + blen us)"
    using assms
  proof (induction a bs rule: addrs.induct)
    case (2 a s f bs)
    then consider "x = a" | "x \<in> set (addrs (a + 16 + s) bs)" by auto
    then show ?case
    proof cases
      case 1
      then show ?thesis by (intro disjI2 exI [of _ "[]"]) auto
    next
      case b: 2
      from 2(1) [OF b] show ?thesis
      proof (elim disjE exE conjE)
        fix us s' f' vs assume "bs = us @ (s', f') # vs" "x = a + 16 + s + blen us"
        then show ?thesis by (intro disjI2 exI [of _ "(s, f) # us"]) auto
      qed auto
    qed
  qed auto
  then show ?thesis using that by blast
qed

lemma chain_at: "chain h p st pr a (us @ (s, f) # vs) \<Longrightarrow>
    h (a + blen us) = \<lparr>dm_next_memory = a + blen us + 16 + s, dm_previous_memory = lastp pr a us,
      dm_memory_free = f, dm_memory_pool = p\<rparr>"
  by (simp add: chain_append)

lemma chain_trailer: "chain h p st pr a bs \<Longrightarrow> \<not> dm_memory_free (h (a + blen bs))"
  using chain_append [of h p st pr a bs "[]"] by simp

section \<open>The search\<close>

text \<open>Consecutive addresses linked by \<^verbatim>\<open>dm_next_memory\<close>, the last one to \<open>sp\<close>.\<close>

fun linked :: "(nat \<Rightarrow> dm_header) \<Rightarrow> nat list \<Rightarrow> nat \<Rightarrow> bool" where
  "linked h [] sp = True"
| "linked h (x # xs) sp = (dm_next_memory (h x) = hd (xs @ [sp]) \<and> linked h xs sp)"

lemma linked_append: "linked h (xs @ ys) sp \<longleftrightarrow> linked h xs (hd (ys @ [sp])) \<and> linked h ys sp"
  by (induction xs) (auto simp: hd_append)

lemma chain_linked: "chain h p st pr a bs \<Longrightarrow> linked h (addrs a bs) st"
  by (induction h p st pr a bs rule: chain.induct) auto

lemma linked_rotate:
  "linked h (xs @ y # ys) (hd (xs @ [y])) \<Longrightarrow> linked h ((y # ys) @ xs) y"
  by (cases xs) (auto simp: linked_append hd_append split: if_splits)

lemma mem_search_linked:
  "linked h (x # xs) sp \<Longrightarrow> sp \<notin> set xs \<Longrightarrow> 0 < sz \<Longrightarrow>
     mem_search h sz sp x =
       Some (case find (\<lambda>y. sz \<le> free_size h y) (x # xs) of
               None \<Rightarrow> (sp, free_size h (last (x # xs)))
             | Some y \<Rightarrow> (y, free_size h y))"
proof (induction xs arbitrary: x)
  case Nil
  then show ?case by (subst mem_search.simps) (simp add: Let_def)
next
  case (Cons z zs)
  show ?case
  proof (cases "free_size h x < sz")
    case True
    with Cons.prems have "mem_search h sz sp x = mem_search h sz sp z"
      by (subst mem_search.simps) (simp add: Let_def)
    moreover have "mem_search h sz sp z = Some (case find (\<lambda>y. sz \<le> free_size h y) (z # zs) of
               None \<Rightarrow> (sp, free_size h (last (z # zs)))
             | Some y \<Rightarrow> (y, free_size h y))"
      using Cons.prems by (intro Cons.IH) auto
    ultimately show ?thesis using True by (simp split: option.split)
  next
    case False
    then show ?thesis by (subst mem_search.simps) (simp add: Let_def)
  qed
qed

text \<open>The first hit of a search over a rotation of the address list is the one reached first.\<close>

lemma find_rotated:
  assumes f: "find P ((sp # ys) @ xs) = Some x" and s: "sorted_wrt (<) (xs @ sp # ys)"
    and y: "y \<in> set (xs @ sp # ys)" "P y"
  shows "reached_first sp x (y :: nat)"
proof -
  from f obtain i where i: "i < length ((sp # ys) @ xs)" "x = ((sp # ys) @ xs) ! i"
      "\<forall>j < i. \<not> P (((sp # ys) @ xs) ! j)"
    unfolding find_Some_iff by blast
  define us vs where "us = take i ((sp # ys) @ xs)" and "vs = drop (Suc i) ((sp # ys) @ xs)"
  have l: "(sp # ys) @ xs = us @ x # vs"
    unfolding us_def vs_def i(2) by (rule id_take_nth_drop [OF i(1)])
  have "\<forall>u \<in> set us. \<not> P u" using i unfolding us_def by (auto simp: in_set_conv_nth)
  then have "y \<notin> set us" using y(2) by blast
  moreover have "set (xs @ sp # ys) = set (us @ x # vs)" unfolding l [symmetric] by auto
  ultimately have yv: "y = x \<or> y \<in> set vs" using y(1) by auto
  from l consider (up) ws where "sp # ys = us @ x # ws" "vs = ws @ xs"
    | (around) ws where "us = sp # ys @ ws" "xs = ws @ x # vs"
    unfolding append_eq_append_conv2 by (auto simp: Cons_eq_append_conv append_eq_Cons_conv)
  then show ?thesis
  proof cases
    case up
    then have "sp = x \<or> sp \<in> set us" by (cases us) auto
    moreover have "sorted_wrt (<) (us @ x # ws)" using s up(1) by (simp add: sorted_wrt_append)
    ultimately have "sp \<le> x" "\<forall>w \<in> set ws. x < w" by (auto simp: sorted_wrt_append)
    moreover have "\<forall>w \<in> set xs. w < sp" using s by (simp add: sorted_wrt_append)
    ultimately show ?thesis using yv up(2) by (auto simp: reached_first_def)
  next
    case around
    then have "x < sp" "\<forall>w \<in> set vs. x < w \<and> w < sp" using s by (auto simp: sorted_wrt_append)
    then show ?thesis using yv by (auto simp: reached_first_def)
  qed
qed

lemma mem_search_pool:
  assumes c: "chain h p a pr a bs" and sp: "sp \<in> set (addrs a bs)" and sz: "0 < sz"
  obtains (found) m where "mem_search h sz sp sp = Some (m, free_size h m)"
      "m \<in> set (addrs a bs)" "sz \<le> free_size h m"
      "\<forall>y \<in> set (addrs a bs). sz \<le> free_size h y \<longrightarrow> reached_first sp m y"
  | (full) m fs where "mem_search h sz sp sp = Some (m, fs)" "fs < sz"
      "\<forall>x \<in> set (addrs a bs). free_size h x < sz"
proof -
  from sp obtain xs ys where A: "addrs a bs = xs @ sp # ys" by (meson split_list)
  define l where "l = ys @ xs"
  have "hd (xs @ [sp]) = a" using A addrs_hd [of a bs] by (cases xs) auto
  then have "linked h (sp # l) sp"
    using linked_rotate [of h xs sp ys] chain_linked [OF c] A by (simp add: l_def)
  moreover have "sp \<notin> set l" using addrs_distinct [of a bs] A by (auto simp: l_def)
  ultimately have eq: "mem_search h sz sp sp =
      Some (case find (\<lambda>y. sz \<le> free_size h y) (sp # l) of
               None \<Rightarrow> (sp, free_size h (last (sp # l)))
             | Some y \<Rightarrow> (y, free_size h y))"
    using mem_search_linked sz by blast
  have set: "set (addrs a bs) = set (sp # l)" using A by (auto simp: l_def)
  show thesis
  proof (cases "find (\<lambda>y. sz \<le> free_size h y) (sp # l)")
    case None
    then have small: "\<forall>x \<in> set (sp # l). free_size h x < sz"
      unfolding find_None_iff by (auto simp: not_le)
    moreover have "last (sp # l) \<in> set (sp # l)" by (rule last_in_set) simp
    ultimately have "free_size h (last (sp # l)) < sz" by blast
    moreover have "mem_search h sz sp sp = Some (sp, free_size h (last (sp # l)))"
      using eq None by (simp only: option.case)
    ultimately show thesis using small set by (intro full) auto
  next
    case (Some y)
    then have "y \<in> set (sp # l)" "sz \<le> free_size h y"
      unfolding find_Some_iff by (metis nth_mem)+
    moreover have "mem_search h sz sp sp = Some (y, free_size h y)"
      using eq Some by (simp only: option.case)
    moreover have "reached_first sp y z" if "z \<in> set (addrs a bs)" "sz \<le> free_size h z" for z
      using find_rotated [OF Some [unfolded l_def, folded append_Cons]] addrs_sorted [of a bs] that A by simp
    ultimately show thesis using set by (intro found) blast+
  qed
qed

lemma free_size_block:
  "chain h p st pr a (us @ (s, f) # vs) \<Longrightarrow> a + blen us + 16 + s < 4294967296 \<Longrightarrow>
     free_size h (a + blen us) = (if f then s else 0)"
  by (simp add: free_size_def chain_at u32_simps)

lemma free_size_trailer: "chain h p st pr a bs \<Longrightarrow> free_size h (a + blen bs) = 0"
  by (simp add: free_size_def chain_trailer)

lemma free_size_addrs:
  assumes c: "chain h p st pr a bs" and x: "x \<in> set (addrs a bs)"
    and lim: "a + blen bs < 4294967296" and pos: "0 < free_size h x"
  obtains us vs where "bs = us @ (free_size h x, True) # vs" "x = a + blen us"
  using x
proof (cases rule: addrs_cases)
  case 1
  with pos free_size_trailer [OF c] show ?thesis by simp
next
  case (2 us s f vs)
  then have "free_size h x = (if f then s else 0)"
    using c lim free_size_block [of h p st pr a us s f vs] by simp
  with pos 2 show ?thesis by (intro that [of us vs]) (auto split: if_splits)
qed

lemma block_addrs: "a + blen us \<in> set (addrs a (us @ b # vs))"
  by (cases b) (simp add: addrs_append)

section \<open>Allocation\<close>

lemma chain_set_prev':
  "chain h p st pr a bs \<Longrightarrow> y = (h a)\<lparr>dm_previous_memory := pr'\<rparr> \<Longrightarrow> chain (h(a := y)) p st pr' a bs"
  using chain_set_prev by simp

lemma chain_split:
  fixes h :: "nat \<Rightarrow> dm_header"
  assumes c: "chain h p st pr a (us @ (s, True) # vs)" and sz: "sz + 16 \<le> s"
  defines "m \<equiv> a + blen us"
  defines "n \<equiv> m + sz + 16"
  defines "nx \<equiv> m + 16 + s"
  shows "chain (h(n := \<lparr>dm_next_memory = nx, dm_previous_memory = m, dm_memory_free = True, dm_memory_pool = p\<rparr>,
      nx := (h nx)\<lparr>dm_previous_memory := n\<rparr>,
      m := (h m)\<lparr>dm_next_memory := n, dm_memory_free := False\<rparr>))
    p st pr a (us @ (sz, False) # (s - sz - 16, True) # vs)" (is "chain ?h _ _ _ _ _")
proof -
  let ?h1 = "h(n := \<lparr>dm_next_memory = nx, dm_previous_memory = m, dm_memory_free = True, dm_memory_pool = p\<rparr>)"
  have ord: "m < n" "n < nx" using sz by (simp_all add: n_def nx_def)
  have hm: "h m = \<lparr>dm_next_memory = nx, dm_previous_memory = lastp pr a us, dm_memory_free = True,
      dm_memory_pool = p\<rparr>" and us: "seg h p pr a us" and vs: "chain h p st m nx vs"
    using c by (simp_all add: chain_append m_def nx_def algebra_simps)
  have "chain ?h1 p st m nx vs" using vs ord by (simp add: chain_frame)
  then have "chain (?h1(nx := (h nx)\<lparr>dm_previous_memory := n\<rparr>)) p st n nx vs"
    by (rule chain_set_prev') (use ord in simp)
  then have vs': "chain ?h p st n nx vs" using ord by (simp add: chain_frame)
  have us': "seg ?h p pr a us" using us ord by (simp add: seg_frame m_def)
  have "?h m = \<lparr>dm_next_memory = n, dm_previous_memory = lastp pr a us, dm_memory_free = False, dm_memory_pool = p\<rparr>"
    "?h n = \<lparr>dm_next_memory = nx, dm_previous_memory = m, dm_memory_free = True, dm_memory_pool = p\<rparr>"
    using ord by (simp_all add: hm)
  moreover have "m + 16 + sz = n" "n + 16 + (s - sz - 16) = nx" using sz by (simp_all add: n_def nx_def)
  ultimately show ?thesis using us' vs' by (simp add: chain_append m_def [symmetric])
qed

lemma chain_take:
  assumes "chain h p st pr a (us @ (s, True) # vs)"
  shows "chain (h(a + blen us := (h (a + blen us))\<lparr>dm_memory_free := False\<rparr>)) p st pr a (us @ (s, False) # vs)"
  using assms by (simp add: chain_append seg_frame chain_frame)

lemma hdrs_upd [simp]:
  "hdrs (upd_hdr x f st) = (hdrs st)(x := f (hdrs st x))" "pools (upd_hdr x f st) = pools st"
  "hdrs (upd_pool p g st) = hdrs st" "pools (upd_pool p g st) = (pools st)(p := g (pools st p))"
  "ram (upd_hdr x f st) = ram st" "ram (upd_pool p g st) = ram st"
  by (simp_all add: upd_hdr_def upd_pool_def)

lemma hdr_stores:
  "h\<lparr>dm_memory_free := f, dm_memory_pool := p, dm_previous_memory := x, dm_next_memory := y\<rparr> =
   \<lparr>dm_next_memory = y, dm_previous_memory = x, dm_memory_free = f, dm_memory_pool = p\<rparr>"
  by (cases h) simp

lemma split_block_hdrs:
  assumes "m + 16 + s < 4294967296" "sz + 16 \<le> s" "dm_next_memory (hdrs st m) = m + 16 + s"
  shows "hdrs (upd_hdr m (\<lambda>h. h\<lparr>dm_memory_free := False\<rparr>) (split_block p m sz st)) =
    (hdrs st)(m + sz + 16 := \<lparr>dm_next_memory = m + 16 + s, dm_previous_memory = m,
        dm_memory_free = True, dm_memory_pool = p\<rparr>,
      m + 16 + s := (hdrs st (m + 16 + s))\<lparr>dm_previous_memory := m + sz + 16\<rparr>,
      m := (hdrs st m)\<lparr>dm_next_memory := m + sz + 16, dm_memory_free := False\<rparr>)"
  using assms by (simp add: split_block_def Let_def u32_simps hdr_stores)

lemma split_block_pools:
  "pools (split_block p m sz st) =
    (pools st)(p := (pools st p)\<lparr>dm_available := usub (usub (dm_available (pools st p)) sz) DM_OVERHEAD\<rparr>)"
  "ram (split_block p m sz st) = ram st"
  by (simp_all add: split_block_def Let_def)

lemma free_sum_simps [simp]:
  "free_sum [] = 0" "free_sum ((s, f) # bs) = (if f then s else 0) + free_sum bs"
  "free_sum (us @ vs) = free_sum us + free_sum vs"
  by (simp_all add: free_sum_def)

lemma free_sum_le: "free_sum bs \<le> blen bs"
  by (induction bs rule: blen.induct) auto

lemma naf_append: "no_adjacent_free (us @ vs) \<longleftrightarrow> no_adjacent_free us \<and> no_adjacent_free vs \<and>
    (us \<noteq> [] \<and> vs \<noteq> [] \<longrightarrow> \<not> (snd (last us) \<and> snd (hd vs)))"
  by (auto simp: no_adjacent_free_def successively_append_iff)

lemma naf_Cons: "no_adjacent_free (b # vs) \<longleftrightarrow> no_adjacent_free vs \<and> (vs \<noteq> [] \<longrightarrow> \<not> (snd b \<and> snd (hd vs)))"
  by (cases vs) (auto simp: no_adjacent_free_def)

lemma alloc_blocks_naf:
  "no_adjacent_free (us @ (s, True) # vs) \<Longrightarrow> no_adjacent_free (alloc_blocks k sz us s vs)"
  by (auto simp: alloc_blocks_def naf_append naf_Cons)

lemma alloc_blocks_blen: "blen (alloc_blocks k sz us s vs) = blen (us @ (s, True) # vs)"
  by (simp add: alloc_blocks_def)

lemma alloc_addrs:
  "set (addrs a (us @ (s, True) # vs)) \<subseteq> set (addrs a (alloc_blocks k sz us s vs))"
proof (cases "sz + 16 + k \<le> s")
  case True
  then have "addrs a (alloc_blocks k sz us s vs) =
      butlast (addrs a us) @ [a + blen us, a + blen us + 16 + sz] @ addrs (a + blen us + 16 + s) vs"
    by (simp add: alloc_blocks_def addrs_append ac_simps)
  then show ?thesis by (auto simp: addrs_append)
qed (auto simp: alloc_blocks_def addrs_append)

lemma alloc_blocks_not_Nil: "alloc_blocks k sz us s vs \<noteq> []"
  by (simp add: alloc_blocks_def)

text \<open>What an operation on the pool \<open>p\<close> leaves alone.\<close>

definition same_frame :: "nat \<Rightarrow> dmem \<Rightarrow> dmem \<Rightarrow> bool" where
  "same_frame p st st' \<longleftrightarrow>
     ram st' = ram st \<and> (\<forall>q. q \<noteq> p \<longrightarrow> pools st' q = pools st q) \<and>
     dm_start_address (pools st' p) = dm_start_address (pools st p) \<and>
     dm_pool_size (pools st' p) = dm_pool_size (pools st p) \<and>
     dm_min_allocation (pools st' p) = dm_min_allocation (pools st p)"

text \<open>The search pointer after an allocation of \<open>sz\<close> bytes at \<open>m\<close>: it moves on only from the block taken.\<close>

definition next_search :: "nat \<Rightarrow> nat \<Rightarrow> nat \<Rightarrow> nat" where
  "next_search sp m sz = (if sp = m then m + 16 + sz else sp)"

lemma GetMem_block:
  assumes inv: "pool_inv p st bs" and n: "n \<le> 4294967292"
    and bs: "bs = us @ (s, True) # vs"
    and sz: "sz = adjust_size (dm_min_allocation (pools st p)) n" "sz \<le> s"
    and m: "m = dm_start_address (pools st p) + blen us"
    and search: "mem_search (hdrs st) sz (dm_search_ptr (pools st p)) (dm_search_ptr (pools st p)) = Some (m, s)"
  shows "\<exists>st'. OS_GetMem p n st = Some (OS_ERR_NONE, m + 16, st') \<and> same_frame p st st' \<and>
    pool_inv p st' (alloc_blocks (dm_min_allocation (pools st p)) sz us s vs) \<and>
    dm_search_ptr (pools st' p) = next_search (dm_search_ptr (pools st p)) m
      (if s \<ge> sz + 16 + dm_min_allocation (pools st p) then sz else s)"
proof -
  define a where "a = dm_start_address (pools st p)"
  define k where "k = dm_min_allocation (pools st p)"
  define T where "T = a + blen bs"
  note I = inv [unfolded pool_inv_def pool_shape_def Let_def, folded a_def k_def T_def]
  have lim: "m + 16 + s + blen vs < 4294967296" "s \<le> T" "T < 4294967296" and m': "m = a + blen us"
    using I m bs by (auto simp: T_def a_def)
  have c: "chain (hdrs st) p a T a (us @ (s, True) # vs)" using I bs by simp
  have hm: "dm_next_memory (hdrs st m) = m + 16 + s" "dm_memory_free (hdrs st m)"
    using chain_at [OF c] m' by simp_all
  have szp: "0 < sz" "k \<le> sz" "4 dvd sz"
    using adjust_size_props [OF n] I sz(1) by (auto simp: k_def)
  have kl: "sz + 16 + k < 4294967296" using szp I lim sz(2) by (simp add: bs)
  have av: "dm_available (pools st p) = free_sum us + s + free_sum vs" "free_sum us + s + free_sum vs < 4294967296"
    using I bs free_sum_le [of bs] by auto
  define st1 where "st1 = (if s \<ge> sz + 16 + k then split_block p m sz st
      else upd_pool p (\<lambda>b. b\<lparr>dm_available := usub (dm_available b) s\<rparr>) st)"
  define st2 where "st2 = upd_hdr m (\<lambda>h. h\<lparr>dm_memory_free := False\<rparr>) st1"
  define st3 where "st3 = (if dm_search_ptr (pools st2 p) = m
      then upd_pool p (\<lambda>b. b\<lparr>dm_search_ptr := dm_next_memory (hdrs st2 m)\<rparr>) st2 else st2)"
  have run: "OS_GetMem p n st = Some (OS_ERR_NONE, m + 16, st3)"
    using sz search lim kl
    by (simp add: OS_GetMem_def Let_def k_def [symmetric] wrap32_small st1_def st2_def st3_def)
  let ?bs = "alloc_blocks k sz us s vs"
  have c2: "chain (hdrs st2) p a T a ?bs"
    using chain_split [OF c] chain_take [OF c] split_block_hdrs [of m s sz st p] lim hm m'
    by (simp add: st2_def st1_def alloc_blocks_def)
  have p1: "dm_available (pools st1 p) = free_sum ?bs" "dm_search_ptr (pools st1 p) = dm_search_ptr (pools st p)"
    using av by (auto simp: st1_def alloc_blocks_def split_block_pools u32_simps)
  have nx: "dm_next_memory (hdrs st2 m) \<in> set (addrs a ?bs)"
    using c2 m' by (auto simp: alloc_blocks_def chain_append addrs_append)
  have "dm_search_ptr (pools st p) \<in> set (addrs a ?bs)"
    using I bs alloc_addrs [of a us s vs k sz] by auto
  then have sp: "dm_search_ptr (pools st3 p) \<in> set (addrs a ?bs)"
    using nx by (auto simp: st3_def st2_def p1)
  have fr: "same_frame p st st3"
    by (auto simp: same_frame_def st3_def st2_def st1_def split_block_pools)
  have p3: "dm_available (pools st3 p) = free_sum ?bs" "hdrs st3 = hdrs st2"
    using p1 by (auto simp: st3_def st2_def)
  have sizes: "\<forall>(s, f) \<in> set ?bs. k \<le> s \<and> 4 dvd s"
    using I szp bs by (auto simp: alloc_blocks_def dvd_diff_nat)
  have bl: "blen ?bs = blen bs" by (simp only: alloc_blocks_blen bs)
  have naf: "no_adjacent_free ?bs" using I bs by (blast intro: alloc_blocks_naf)
  have "pool_inv p st3 ?bs"
    using I c2 p3 sp sizes naf fr
    by (simp add: pool_inv_def pool_shape_def Let_def same_frame_def a_def [symmetric] k_def [symmetric] bl
        T_def [symmetric] alloc_blocks_not_Nil)
  moreover have "dm_next_memory (hdrs st2 m) = m + 16 + (if s \<ge> sz + 16 + k then sz else s)"
    using c2 m' by (auto simp: alloc_blocks_def chain_append split: if_splits)
  then have "dm_search_ptr (pools st3 p) = next_search (dm_search_ptr (pools st p)) m
      (if s \<ge> sz + 16 + k then sz else s)"
    by (simp add: st3_def next_search_def) (simp add: st2_def p1)
  ultimately show ?thesis using run fr by (auto simp: k_def)
qed

lemma GetMem_found:
  assumes inv: "pool_inv p st bs" and n: "n \<le> 4294967292"
    and sz: "sz = adjust_size (dm_min_allocation (pools st p)) n"
    and ex: "\<exists>s. (s, True) \<in> set bs \<and> sz \<le> s"
  obtains us s vs st' where "bs = us @ (s, True) # vs" "sz \<le> s"
    "OS_GetMem p n st = Some (OS_ERR_NONE, dm_start_address (pools st p) + blen us + 16, st')"
    "same_frame p st st'" "pool_inv p st' (alloc_blocks (dm_min_allocation (pools st p)) sz us s vs)"
    "dm_search_ptr (pools st' p) = next_search (dm_search_ptr (pools st p)) (dm_start_address (pools st p) + blen us)
      (if s \<ge> sz + 16 + dm_min_allocation (pools st p) then sz else s)"
    "\<forall>us' s' vs'. bs = us' @ (s', True) # vs' \<and> sz \<le> s' \<longrightarrow> reached_first (dm_search_ptr (pools st p))
      (dm_start_address (pools st p) + blen us) (dm_start_address (pools st p) + blen us')"
proof -
  let ?a = "dm_start_address (pools st p)"
  have I: "chain (hdrs st) p ?a (?a + blen bs) ?a bs" "dm_search_ptr (pools st p) \<in> set (addrs ?a bs)"
      "?a + blen bs < 4294967296" "0 < sz"
    using inv sz adjust_size_props [OF n] by (auto simp: pool_inv_def pool_shape_def Let_def)
  obtain us0 s0 vs0 where b0: "bs = us0 @ (s0, True) # vs0" "sz \<le> s0" using ex by (meson split_list)
  have big: "sz \<le> free_size (hdrs st) (?a + blen us0)"
    using free_size_block [of "hdrs st" p ?a "?a + blen bs" ?a us0 s0 True vs0] I b0 by simp
  have mem: "?a + blen us0 \<in> set (addrs ?a bs)" unfolding b0 by (rule block_addrs)
  from I(1,2,4) show thesis
  proof (cases rule: mem_search_pool)
    case (found m)
    define fs where "fs = free_size (hdrs st) m"
    note F = found(1,3) [folded fs_def]
    obtain us vs where b: "bs = us @ (fs, True) # vs" "m = ?a + blen us"
      using free_size_addrs [OF I(1) found(2) I(3)] found(3) I(4) by (auto simp: fs_def)
    have first: "reached_first (dm_search_ptr (pools st p)) m (?a + blen us')"
      if b': "bs = us' @ (s', True) # vs'" and s': "sz \<le> s'" for us' s' vs'
    proof -
      have "?a + blen us' \<in> set (addrs ?a bs)" unfolding b' by (rule block_addrs)
      moreover have "free_size (hdrs st) (?a + blen us') = s'"
        using free_size_block [of "hdrs st" p ?a "?a + blen bs" ?a us' s' True vs'] I b' by simp
      ultimately show ?thesis using found(4) s' by simp
    qed
    obtain st' where r: "OS_GetMem p n st = Some (OS_ERR_NONE, m + 16, st')" "same_frame p st st'"
        "pool_inv p st' (alloc_blocks (dm_min_allocation (pools st p)) sz us fs vs)"
        "dm_search_ptr (pools st' p) = next_search (dm_search_ptr (pools st p)) m
          (if fs \<ge> sz + 16 + dm_min_allocation (pools st p) then sz else fs)"
      using GetMem_block [OF inv n b(1) sz F(2) b(2) F(1)] by blast
    show thesis
      by (rule that [OF b(1) F(2) r(1) [unfolded b(2)] r(2,3) r(4) [unfolded b(2)]])
        (use first b(2) in blast)
  next
    case (full m fs)
    with big mem show thesis by fastforce
  qed
qed

lemma GetMem_full:
  assumes inv: "pool_inv p st bs" and n: "n \<le> 4294967292"
    and sz: "sz = adjust_size (dm_min_allocation (pools st p)) n"
    and none: "\<nexists>s. (s, True) \<in> set bs \<and> sz \<le> s"
  shows "OS_GetMem p n st = Some (OS_ERR_MEM_FULL, 0, st)"
proof -
  let ?a = "dm_start_address (pools st p)"
  have I: "chain (hdrs st) p ?a (?a + blen bs) ?a bs" "dm_search_ptr (pools st p) \<in> set (addrs ?a bs)"
      "?a + blen bs < 4294967296" "0 < sz"
    using inv sz adjust_size_props [OF n] by (auto simp: pool_inv_def pool_shape_def Let_def)
  from I(1,2,4) show ?thesis
  proof (cases rule: mem_search_pool)
    case (found m)
    obtain us vs where "bs = us @ (free_size (hdrs st) m, True) # vs" "m = ?a + blen us"
      using free_size_addrs [OF I(1) found(2) I(3)] found(3) I(4) by auto
    with none found(3) show ?thesis by auto
  next
    case (full m fs)
    then show ?thesis by (simp add: OS_GetMem_def Let_def sz [symmetric])
  qed
qed

section \<open>Release\<close>

lemma chain_merge:
  fixes h :: "nat \<Rightarrow> dm_header"
  assumes c: "chain h p st pr a (us @ (s, f) # (s', f') # vs)"
  defines "m \<equiv> a + blen us"
  defines "nx \<equiv> m + 16 + s + 16 + s'"
  shows "chain (h(m := (h m)\<lparr>dm_next_memory := nx\<rparr>, nx := (h nx)\<lparr>dm_previous_memory := m\<rparr>))
    p st pr a (us @ (s + 16 + s', f) # vs)" (is "chain ?h _ _ _ _ _")
proof -
  have ord: "m < nx" by (simp add: nx_def)
  have hm: "h m = \<lparr>dm_next_memory = m + 16 + s, dm_previous_memory = lastp pr a us, dm_memory_free = f,
      dm_memory_pool = p\<rparr>" and us: "seg h p pr a us" and vs: "chain h p st (m + 16 + s) nx vs"
    using c by (simp_all add: chain_append m_def nx_def algebra_simps)
  have "chain (h(m := (h m)\<lparr>dm_next_memory := nx\<rparr>)) p st (m + 16 + s) nx vs"
    using vs ord by (simp add: chain_frame)
  then have vs': "chain ?h p st m nx vs" by (rule chain_set_prev') (use ord in simp)
  have us': "seg ?h p pr a us" using us ord by (simp add: seg_frame m_def)
  moreover have "m + 16 + (s + 16 + s') = nx" by (simp add: nx_def)
  ultimately show ?thesis using vs' ord hm by (simp add: chain_append m_def [symmetric])
qed

text \<open>Both merges of \<^verbatim>\<open>OS_FreeMem\<close> replace two neighbouring free blocks by one.\<close>

lemma pool_shape_merge:
  assumes shp: "pool_shape p st (us @ (s, True) # (s', True) # vs)"
    and m: "m = dm_start_address (pools st p) + blen us" "nx = m + 16 + s + 16 + s'"
    and h: "hdrs st' = (hdrs st)(m := (hdrs st m)\<lparr>dm_next_memory := nx\<rparr>,
        nx := (hdrs st nx)\<lparr>dm_previous_memory := m\<rparr>)"
    and q: "pools st' = (pools st)(p := (pools st p)\<lparr>dm_available := wrap32 (dm_available (pools st p) + 16),
        dm_search_ptr := m\<rparr>)"
  shows "pool_shape p st' (us @ (s + 16 + s', True) # vs)"
proof -
  define a where "a = dm_start_address (pools st p)"
  define bs where "bs = us @ (s, True) # (s', True) # vs"
  define bs' where "bs' = us @ (s + 16 + s', True) # vs"
  note I = shp [folded bs_def, unfolded pool_shape_def Let_def, folded a_def]
  have m': "m = a + blen us" using m by (simp add: a_def)
  have "chain (hdrs st) p a (a + blen bs) a (us @ (s, True) # (s', True) # vs)"
    using I unfolding bs_def by blast
  from chain_merge [OF this] have "chain (hdrs st') p a (a + blen bs) a bs'"
    unfolding h m(2) m' bs'_def .
  moreover have "blen bs' = blen bs" "free_sum bs' = free_sum bs + 16" "bs' \<noteq> []"
    by (simp_all add: bs_def bs'_def)
  moreover have "m \<in> set (addrs a bs')"
    unfolding m a_def bs'_def by (rule block_addrs)
  moreover have "\<forall>(s, f) \<in> set bs'. dm_min_allocation (pools st p) \<le> s \<and> 4 dvd s"
    using I by (auto simp: bs_def bs'_def)
  moreover have "free_sum bs + 16 < 4294967296" using I free_sum_le [of bs] by linarith
  ultimately have "pool_shape p st' bs'"
    using I q by (simp add: pool_shape_def Let_def a_def [symmetric] wrap32_small)
  then show ?thesis by (simp add: bs'_def)
qed

lemma merge_next_shape:
  assumes shp: "pool_shape p st (us @ (s, True) # vs)"
    and m: "m = dm_start_address (pools st p) + blen us"
  shows "pool_shape p (merge_next p m st)
      (us @ (if vs \<noteq> [] \<and> snd (hd vs) then (s + 16 + fst (hd vs), True) # tl vs else (s, True) # vs))"
    and "same_frame p st (merge_next p m st)"
proof -
  let ?a = "dm_start_address (pools st p)"
  have c: "chain (hdrs st) p ?a (?a + blen (us @ (s, True) # vs)) ?a (us @ (s, True) # vs)"
    using shp by (simp add: pool_shape_def Let_def)
  have hm: "dm_next_memory (hdrs st m) = m + 16 + s" using chain_at [OF c] m by simp
  have ch: "chain (hdrs st) p ?a m (m + 16 + s) vs"
    using c m by (simp add: chain_append)
  show "pool_shape p (merge_next p m st)
      (us @ (if vs \<noteq> [] \<and> snd (hd vs) then (s + 16 + fst (hd vs), True) # tl vs else (s, True) # vs))"
  proof (cases "vs \<noteq> [] \<and> snd (hd vs)")
    case True
    then obtain s' vs' where vs: "vs = (s', True) # vs'" by (cases vs) auto
    have hn: "hdrs st (m + 16 + s) = \<lparr>dm_next_memory = m + 16 + s + 16 + s', dm_previous_memory = m,
        dm_memory_free = True, dm_memory_pool = p\<rparr>"
      using ch vs by simp
    have "pool_shape p (merge_next p m st) (us @ (s + 16 + s', True) # vs')"
    proof (rule pool_shape_merge [OF _ m refl])
      show "pool_shape p st (us @ (s, True) # (s', True) # vs')" using shp vs by simp
    qed (auto simp: merge_next_def Let_def hm hn fun_upd_twist)
    then show ?thesis by (simp add: vs)
  next
    case False
    then have "\<not> dm_memory_free (hdrs st (m + 16 + s))" using ch by (cases vs) auto
    then show ?thesis using False shp by (auto simp: merge_next_def hm)
  qed
  show "same_frame p st (merge_next p m st)"
    by (auto simp: merge_next_def same_frame_def Let_def)
qed

lemma merge_prev_shape:
  assumes shp: "pool_shape p st (us @ (s, True) # vs)"
    and m: "m = dm_start_address (pools st p) + blen us"
    and r: "us1 = (if us \<noteq> [] \<and> snd (last us) then butlast us else us)"
      "s1 = (if us \<noteq> [] \<and> snd (last us) then fst (last us) + 16 + s else s)"
  obtains st' where "merge_prev p m st = (dm_start_address (pools st p) + blen us1, st')"
    "pool_shape p st' (us1 @ (s1, True) # vs)" "same_frame p st st'"
proof -
  let ?a = "dm_start_address (pools st p)"
  have c: "chain (hdrs st) p ?a (?a + blen (us @ (s, True) # vs)) ?a (us @ (s, True) # vs)"
    using shp by (simp add: pool_shape_def Let_def)
  have hm: "hdrs st m = \<lparr>dm_next_memory = m + 16 + s,
      dm_previous_memory = lastp (?a + blen (us @ (s, True) # vs)) ?a us, dm_memory_free = True,
      dm_memory_pool = p\<rparr>" using chain_at [OF c] m by simp
  have frame: "same_frame p st (snd (merge_prev p m st))"
    by (auto simp: merge_prev_def same_frame_def Let_def)
  show thesis
  proof (cases "us \<noteq> [] \<and> snd (last us)")
    case True
    then obtain us' s' where us: "us = us' @ [(s', True)]"
      by (cases us rule: rev_cases) auto
    define k where "k = ?a + blen us'"
    have mk: "m = k + 16 + s'" using m us by (simp add: k_def)
    have hk: "hdrs st k = \<lparr>dm_next_memory = m, dm_previous_memory = lastp (?a + blen (us @ (s, True) # vs)) ?a us',
        dm_memory_free = True, dm_memory_pool = p\<rparr>"
      using chain_at [of "hdrs st" p ?a _ ?a us' s' True "(s, True) # vs"] c us mk by (simp add: k_def)
    have pm: "dm_previous_memory (hdrs st m) = k" using hm us by (simp add: k_def)
    have "pool_shape p (snd (merge_prev p m st)) (us' @ (s' + 16 + s, True) # vs)"
    proof (rule pool_shape_merge [OF _ k_def refl])
      show "pool_shape p st (us' @ (s', True) # (s, True) # vs)" using shp us by simp
    qed (use hm pm hk mk in \<open>auto simp: merge_prev_def Let_def\<close>)
    moreover have "fst (merge_prev p m st) = k" using hm pm hk mk by (auto simp: merge_prev_def Let_def)
    ultimately show thesis
      using that [of "snd (merge_prev p m st)"] frame r us by (simp add: k_def prod_eq_iff)
  next
    case False
    have "\<not> dm_memory_free (hdrs st (dm_previous_memory (hdrs st m)))"
    proof (cases us rule: rev_cases)
      case Nil
      then show ?thesis using hm chain_trailer [OF c] by simp
    next
      case (snoc us' b)
      with False obtain s' where us: "us = us' @ [(s', False)]" by (cases b) auto
      then show ?thesis
        using hm chain_at [of "hdrs st" p ?a _ ?a us' s' False "(s, True) # vs"] c by simp
    qed
    then show thesis using that [of st] False shp r m frame by (simp add: merge_prev_def)
  qed
qed

lemma chain_release:
  assumes "chain h p st pr a (us @ (s, False) # vs)"
  shows "chain (h(a + blen us := (h (a + blen us))\<lparr>dm_memory_free := True\<rparr>)) p st pr a (us @ (s, True) # vs)"
  using assms by (simp add: chain_append seg_frame chain_frame)

lemma free_blocks_naf:
  "no_adjacent_free (us @ (s, False) # vs) \<Longrightarrow> no_adjacent_free (free_blocks us s vs)"
  by (cases us rule: rev_cases; cases vs)
    (auto simp: free_blocks_def Let_def naf_append naf_Cons no_adjacent_free_def [of "[]"] split: prod.splits)

lemma FreeMem_block:
  assumes inv: "pool_inv p st (us @ (s, False) # vs)"
    and m: "m = dm_start_address (pools st p) + blen us"
  obtains st' where "OS_FreeMem (m + 16) st = (OS_ERR_NONE, st')" "same_frame p st st'"
    "pool_inv p st' (free_blocks us s vs)"
proof -
  define a where "a = dm_start_address (pools st p)"
  define bs where "bs = us @ (s, False) # vs"
  define bs1 where "bs1 = us @ (s, True) # vs"
  note I = inv [folded bs_def, unfolded pool_inv_def pool_shape_def Let_def, folded a_def]
  have c: "chain (hdrs st) p a (a + blen bs) a (us @ (s, False) # vs)" using I by (auto simp: bs_def)
  have m': "m = a + blen us" and lim: "m + 16 + s < 4294967296" using m I by (auto simp: a_def bs_def)
  have hm: "dm_next_memory (hdrs st m) = m + 16 + s" "dm_memory_pool (hdrs st m) = p"
    using chain_at [OF c] m' by simp_all
  define st1 where "st1 = upd_hdr m (\<lambda>h. h\<lparr>dm_memory_free := True\<rparr>) st"
  define st2 where "st2 = upd_pool p (\<lambda>b. b\<lparr>dm_available :=
      usub (wrap32 (dm_available b + usub (dm_next_memory (hdrs st1 m)) m)) DM_OVERHEAD\<rparr>) st1"
  have "chain (hdrs st2) p a (a + blen bs) a bs1"
    using chain_release [OF c] by (simp add: st2_def st1_def m' bs1_def)
  moreover have "blen bs1 = blen bs" "bs1 \<noteq> []" "free_sum bs1 = free_sum bs + s" "addrs a bs1 = addrs a bs"
    "\<forall>(s, f) \<in> set bs1. dm_min_allocation (pools st p) \<le> s \<and> 4 dvd s"
    using I by (auto simp: bs_def bs1_def addrs_append)
  moreover have "free_sum bs + 16 + s < 4294967296"
    using I free_sum_le [of us] free_sum_le [of vs] by (simp add: bs_def)
  ultimately have shp: "pool_shape p st2 (us @ (s, True) # vs)"
    unfolding bs1_def [symmetric]
    using I lim hm(1) by (simp add: pool_shape_def Let_def st2_def st1_def a_def [symmetric] u32_simps)
  have start: "dm_start_address (pools st2 p) = a" by (simp add: st2_def st1_def a_def)
  define us1 where "us1 = (if us \<noteq> [] \<and> snd (last us) then butlast us else us)"
  define s1 where "s1 = (if us \<noteq> [] \<and> snd (last us) then fst (last us) + 16 + s else s)"
  obtain st3 where mp: "merge_prev p m st2 = (a + blen us1, st3)"
      "pool_shape p st3 (us1 @ (s1, True) # vs)" "same_frame p st2 st3"
    using merge_prev_shape [OF shp _ us1_def s1_def] m' start by auto
  have "dm_start_address (pools st3 p) = a" using mp(3) start by (simp add: same_frame_def)
  note mn = merge_next_shape [OF mp(2) this [symmetric, THEN arg_cong [of _ _ "\<lambda>x. x + blen us1"]]]
  have "free_blocks us s vs = us1 @ (if vs \<noteq> [] \<and> snd (hd vs) then (s1 + 16 + fst (hd vs), True) # tl vs
      else (s1, True) # vs)"
    by (auto simp: free_blocks_def us1_def s1_def Let_def)
  then have "pool_inv p (merge_next p (a + blen us1) st3) (free_blocks us s vs)"
    using mn(1) free_blocks_naf [of us s vs] I by (simp add: pool_inv_def bs_def)
  moreover have "same_frame p st (merge_next p (a + blen us1) st3)"
    using mn(2) mp(3) by (simp add: same_frame_def st2_def st1_def)
  moreover have "OS_FreeMem (m + 16) st = (OS_ERR_NONE, merge_next p (a + blen us1) st3)"
    using lim hm mp(1) by (simp add: OS_FreeMem_def Let_def u32_simps st2_def st1_def)
  ultimately show thesis using that by blast
qed

section \<open>Live blocks\<close>

lemma live_append [simp]: "live_blocks a (us @ vs) = live_blocks a us \<union> live_blocks (a + blen us) vs"
  by (induction a us rule: live_blocks.induct) (auto simp: algebra_simps)

lemma live_bounds: "(x, n) \<in> live_blocks a bs \<Longrightarrow> a + 16 \<le> x \<and> x + n \<le> a + blen bs"
  by (induction a bs rule: live_blocks.induct) (fastforce split: if_splits)+

lemma live_disjoint:
  "r \<in> live_blocks a bs \<Longrightarrow> r' \<in> live_blocks a bs \<Longrightarrow> r \<noteq> r' \<Longrightarrow>
     fst r + snd r \<le> fst r' \<or> fst r' + snd r' \<le> fst r"
proof (induction a bs rule: live_blocks.induct)
  case (2 a s f bs)
  then consider "r \<in> live_blocks (a + 16 + s) bs" "r' \<in> live_blocks (a + 16 + s) bs"
    | "r = (a + 16, s)" "r' \<in> live_blocks (a + 16 + s) bs"
    | "r' = (a + 16, s)" "r \<in> live_blocks (a + 16 + s) bs" by (auto split: if_splits)
  then show ?case
  proof cases
    case 1
    then show ?thesis using 2(1,4) by blast
  next
    case c: 2
    then show ?thesis using live_bounds [of "fst r'" "snd r'" "a + 16 + s" bs] by simp
  next
    case c: 3
    then show ?thesis using live_bounds [of "fst r" "snd r" "a + 16 + s" bs] by simp
  qed
qed simp

lemma live_split:
  "(x, n) \<in> live_blocks a bs \<Longrightarrow> \<exists>us vs. bs = us @ (n, False) # vs \<and> x = a + blen us + 16"
proof (induction a bs rule: live_blocks.induct)
  case (2 a s f bs)
  then consider "(x, n) = (a + 16, s)" "\<not> f" | "(x, n) \<in> live_blocks (a + 16 + s) bs"
    by (auto split: if_splits)
  then show ?case
  proof cases
    case 1
    then show ?thesis by (intro exI [of _ "[]"] exI [of _ bs]) auto
  next
    case b: 2
    from 2(1) [OF b] obtain us vs where "bs = us @ (n, False) # vs" "x = a + 16 + s + blen us + 16" by blast
    then show ?thesis by (intro exI [of _ "(s, f) # us"] exI [of _ vs]) auto
  qed
qed simp

lemma live_alloc:
  "\<exists>k \<ge> min sz s. (a + blen us + 16, k) \<notin> live_blocks a (us @ (s, True) # vs) \<and>
     live_blocks a (alloc_blocks mn sz us s vs) = insert (a + blen us + 16, k) (live_blocks a (us @ (s, True) # vs))"
proof -
  have "(a + blen us + 16, k) \<notin> live_blocks a (us @ (s, True) # vs)" for k
    by (auto dest: live_bounds)
  moreover have "a + blen us + 16 + sz + 16 + (s - sz - 16) = a + blen us + 16 + s" if "sz + 16 + mn \<le> s"
    using that by simp
  ultimately show ?thesis
    by (intro exI [of _ "if sz + 16 + mn \<le> s then sz else s"]) (auto simp: alloc_blocks_def ac_simps)
qed

lemma live_free:
  "live_blocks a (free_blocks us s vs) = live_blocks a (us @ (s, False) # vs) - {(a + blen us + 16, s)}"
proof -
  have ni: "(a + blen us + 16, s) \<notin> live_blocks a us"
    "(a + blen us + 16, s) \<notin> live_blocks (a + blen us + 16 + s) vs"
    by (auto dest: live_bounds)
  have "live_blocks a (free_blocks us s vs) = live_blocks a us \<union> live_blocks (a + blen us + 16 + s) vs"
    by (cases us rule: rev_cases; cases vs) (auto simp: free_blocks_def Let_def ac_simps split: if_splits)
  then show ?thesis using ni by auto
qed

section \<open>The allocator interface\<close>

text \<open>Operation sequences of a client, and which of them respect the contract (only live blocks are
  released, no request within three bytes of \<open>2 ^ 32\<close>).\<close>

datatype mop = Alloc nat | Release nat

fun run_mops :: "(nat \<Rightarrow> 's \<Rightarrow> (nat \<times> 's) option) \<Rightarrow> (nat \<Rightarrow> 's \<Rightarrow> 's) \<Rightarrow> mop list \<Rightarrow> 's \<Rightarrow> 's option" where
  "run_mops malloc mfree [] st = Some st"
| "run_mops malloc mfree (Alloc n # ops) st = do { (_, st') \<leftarrow> malloc n st; run_mops malloc mfree ops st' }"
| "run_mops malloc mfree (Release x # ops) st = run_mops malloc mfree ops (mfree x st)"

fun mops_ok :: "('s \<Rightarrow> (nat \<times> nat) set) \<Rightarrow> (nat \<Rightarrow> 's \<Rightarrow> (nat \<times> 's) option) \<Rightarrow> (nat \<Rightarrow> 's \<Rightarrow> 's) \<Rightarrow> mop list \<Rightarrow> 's \<Rightarrow> bool" where
  "mops_ok live malloc mfree [] st = True"
| "mops_ok live malloc mfree (Alloc n # ops) st =
     (n \<le> 4294967292 \<and> (case malloc n st of None \<Rightarrow> True | Some (_, st') \<Rightarrow> mops_ok live malloc mfree ops st'))"
| "mops_ok live malloc mfree (Release x # ops) st =
     (x \<in> fst ` live st \<and> mops_ok live malloc mfree ops (mfree x st))"

locale allocator =
  fixes inv :: "'s \<Rightarrow> bool" and live :: "'s \<Rightarrow> (nat \<times> nat) set"
    and malloc :: "nat \<Rightarrow> 's \<Rightarrow> (nat \<times> 's) option" and mfree :: "nat \<Rightarrow> 's \<Rightarrow> 's"
    and lo hi :: nat
  assumes inside: "inv st \<Longrightarrow> (x, n) \<in> live st \<Longrightarrow> lo < x \<and> x + n \<le> hi"
    and disjoint: "inv st \<Longrightarrow> r \<in> live st \<Longrightarrow> r' \<in> live st \<Longrightarrow> r \<noteq> r' \<Longrightarrow>
        fst r + snd r \<le> fst r' \<or> fst r' + snd r' \<le> fst r"
    and malloc_ok: "inv st \<Longrightarrow> n \<le> 4294967292 \<Longrightarrow>
        \<exists>x st'. malloc n st = Some (x, st') \<and> inv st' \<and>
          (if x = 0 then st' = st else \<exists>k \<ge> n. (x, k) \<notin> live st \<and> live st' = insert (x, k) (live st))"
    and mfree_ok: "inv st \<Longrightarrow> (x, n) \<in> live st \<Longrightarrow> inv (mfree x st) \<and> live (mfree x st) = live st - {(x, n)}"
begin

text \<open>A client that follows the contract never gets stuck and never breaks the invariant.\<close>

lemma run_inv: "inv st \<Longrightarrow> mops_ok live malloc mfree ops st \<Longrightarrow> \<exists>st'. run_mops malloc mfree ops st = Some st' \<and> inv st'"
proof (induction ops arbitrary: st)
  case Nil
  then show ?case by simp
next
  case (Cons oper ops)
  show ?case
  proof (cases oper)
    case (Alloc n)
    with Cons.prems malloc_ok [of st n] obtain x st' where "malloc n st = Some (x, st')" "inv st'" by auto
    with Alloc Cons show ?thesis by auto
  next
    case (Release x)
    with Cons.prems obtain n where "(x, n) \<in> live st" by auto
    with Release Cons mfree_ok [of st x n] show ?thesis by auto
  qed
qed

text \<open>Freeing what was just allocated restores the set of live blocks.\<close>

lemma malloc_mfree:
  assumes "inv st" "n \<le> 4294967292" "malloc n st = Some (x, st')" "x \<noteq> 0"
  shows "live (mfree x st') = live st"
proof -
  from malloc_ok [OF assms(1,2)] assms(3,4) obtain k where k: "inv st'" "(x, k) \<notin> live st"
      "live st' = insert (x, k) (live st)" by auto
  then have "live (mfree x st') = live st' - {(x, k)}" using mfree_ok [of st' x k] by simp
  with k show ?thesis by simp
qed

end

text \<open>The live blocks of the pool \<open>p\<close>; the invariant determines the block list.\<close>

definition pool_ok :: "nat \<Rightarrow> nat \<Rightarrow> nat \<Rightarrow> dmem \<Rightarrow> bool" where
  "pool_ok p lo hi st \<longleftrightarrow> (\<exists>bs. pool_inv p st bs) \<and> dm_start_address (pools st p) = lo \<and>
     lo + dm_pool_size (pools st p) = hi"

definition live_of :: "nat \<Rightarrow> dmem \<Rightarrow> (nat \<times> nat) set" where
  "live_of p st = {r. \<exists>bs. pool_inv p st bs \<and> r \<in> live_blocks (dm_start_address (pools st p)) bs}"

lemma chain_unique:
  "chain h p st pr a bs \<Longrightarrow> chain h p st pr' a bs' \<Longrightarrow> blen bs = blen bs' \<Longrightarrow> bs = bs'"
proof (induction h p st pr a bs arbitrary: pr' bs' rule: chain.induct)
  case (1 h p st pr a)
  then show ?case by (cases bs') auto
next
  case (2 h p st pr a s f bs)
  then obtain s' f' bs'' where b: "bs' = (s', f') # bs''" by (cases bs') auto
  with 2(2,3) have "s' = s" "f' = f" by auto
  with 2 b show ?case by auto
qed

lemma pool_inv_chain:
  "pool_inv p st bs \<Longrightarrow> chain (hdrs st) p (dm_start_address (pools st p))
     (dm_start_address (pools st p) + blen bs) (dm_start_address (pools st p)) bs"
  "pool_inv p st bs \<Longrightarrow> blen bs + 16 = dm_pool_size (pools st p)"
  by (simp_all add: pool_inv_def pool_shape_def Let_def)

lemma pool_inv_unique: "pool_inv p st bs \<Longrightarrow> pool_inv p st bs' \<Longrightarrow> bs = bs'"
proof (rule chain_unique [OF pool_inv_chain(1) pool_inv_chain(1)])
  assume "pool_inv p st bs" "pool_inv p st bs'"
  from this [THEN pool_inv_chain(2)] show "blen bs = blen bs'" by simp
qed

lemma live_of_eq:
  assumes "pool_inv p st bs"
  shows "live_of p st = live_blocks (dm_start_address (pools st p)) bs"
  using assms pool_inv_unique [OF assms] unfolding live_of_def by blast

lemma OSMMalloc_ok:
  assumes ok: "pool_ok p lo hi st" and n: "n \<le> 4294967292"
  shows "\<exists>x st'. OSMMalloc p n st = Some (x, st') \<and> pool_ok p lo hi st' \<and>
    (if x = 0 then st' = st else \<exists>k \<ge> n. (x, k) \<notin> live_of p st \<and> live_of p st' = insert (x, k) (live_of p st))"
proof -
  obtain bs where inv: "pool_inv p st bs" using ok by (auto simp: pool_ok_def)
  define sz where "sz = adjust_size (dm_min_allocation (pools st p)) n"
  have n_sz: "n \<le> sz" using adjust_size_props [OF n] inv
    by (auto simp: sz_def pool_inv_def pool_shape_def Let_def)
  show ?thesis
  proof (cases "\<exists>s. (s, True) \<in> set bs \<and> sz \<le> s")
    case True
    obtain us s vs st' where r: "bs = us @ (s, True) # vs" "sz \<le> s"
      "OS_GetMem p n st = Some (OS_ERR_NONE, dm_start_address (pools st p) + blen us + 16, st')"
      "same_frame p st st'" "pool_inv p st' (alloc_blocks (dm_min_allocation (pools st p)) sz us s vs)"
      by (rule GetMem_found [OF inv n sz_def True]) (rule that)
    obtain k where "k \<ge> min sz s" "(lo + blen us + 16, k) \<notin> live_of p st"
      "live_of p st' = insert (lo + blen us + 16, k) (live_of p st)"
      using live_alloc [of sz s lo us vs "dm_min_allocation (pools st p)"] r ok
        live_of_eq [OF inv] live_of_eq [OF r(5)] by (auto simp: pool_ok_def same_frame_def)
    then show ?thesis
      using r ok n_sz by (auto simp: OSMMalloc_def pool_ok_def same_frame_def intro!: exI [of _ k])
  next
    case False
    then have "OS_GetMem p n st = Some (OS_ERR_MEM_FULL, 0, st)"
      using GetMem_full [OF inv n sz_def] by blast
    then show ?thesis using ok by (simp add: OSMMalloc_def OS_ERR_MEM_FULL_def OS_ERR_NONE_def)
  qed
qed

lemma OSMFree_ok:
  assumes ok: "pool_ok p lo hi st" and x: "(x, n) \<in> live_of p st"
  shows "pool_ok p lo hi (OSMFree x st) \<and> live_of p (OSMFree x st) = live_of p st - {(x, n)}"
proof -
  obtain bs where inv: "pool_inv p st bs" using ok by (auto simp: pool_ok_def)
  then obtain us vs where b: "bs = us @ (n, False) # vs" "x = lo + blen us + 16"
    using live_split [of x n lo bs] x ok live_of_eq [OF inv] by (auto simp: pool_ok_def)
  obtain st' where r: "OS_FreeMem x st = (OS_ERR_NONE, st')" "same_frame p st st'"
      "pool_inv p st' (free_blocks us n vs)"
    using FreeMem_block [of p st us n vs "lo + blen us"] inv b ok by (auto simp: pool_ok_def)
  then show ?thesis
    using live_free [of lo us n vs] live_of_eq [OF inv] live_of_eq [OF r(3)] b ok
    by (auto simp: OSMFree_def pool_ok_def same_frame_def)
qed

interpretation osm: allocator "pool_ok p lo hi" "live_of p" "OSMMalloc p" OSMFree lo hi for p lo hi
proof
  fix st x n assume ok: "pool_ok p lo hi st" and x: "(x, n) \<in> live_of p st"
  then obtain bs where inv: "pool_inv p st bs" by (auto simp: pool_ok_def)
  then show "lo < x \<and> x + n \<le> hi"
    using live_bounds [of x n lo bs] x ok live_of_eq [OF inv]
    by (auto simp: pool_ok_def pool_inv_def pool_shape_def Let_def)
next
  fix st r r' assume "pool_ok p lo hi st" "r \<in> live_of p st" "r' \<in> live_of p st" "r \<noteq> r'"
  moreover from this obtain bs where "pool_inv p st bs" by (auto simp: pool_ok_def)
  ultimately show "fst r + snd r \<le> fst r' \<or> fst r' + snd r' \<le> fst r"
    using live_disjoint [of r "dm_start_address (pools st p)" bs r'] by (simp add: live_of_eq)
qed (rule OSMMalloc_ok OSMFree_ok; assumption)+

section \<open>Initialisation\<close>

lemma Create_inv:
  assumes "0 < a" "4 dvd a" "32 + round_up4 k \<le> n div 4 * 4" "0 < k" "k \<le> 4294967292"
    "a + n div 4 * 4 + round_up4 k \<le> 4294967295"
  shows "pool_inv p (snd (OS_Create_Memory_Pool p name a n k st)) [(n div 4 * 4 - 32, True)]"
    and "dm_start_address (pools (snd (OS_Create_Memory_Pool p name a n k st)) p) = a"
    and "dm_pool_size (pools (snd (OS_Create_Memory_Pool p name a n k st)) p) = n div 4 * 4"
proof -
  have k: "0 < round_up4 k" "4 dvd round_up4 k" using assms round_up4_bounds [of k] by auto
  define m where "m = n div 4 * 4"
  note assms' = assms [folded m_def]
  have "4 dvd m" by (simp add: m_def)
  then have d: "4 dvd m - 32" by (rule dvd_diff_nat) simp
  show "pool_inv p (snd (OS_Create_Memory_Pool p name a n k st)) [(n div 4 * 4 - 32, True)]"
    unfolding m_def [symmetric]
    using assms' k d
    by (simp add: OS_Create_Memory_Pool_def Let_def m_def [symmetric] pool_inv_def pool_shape_def
        u32_simps no_adjacent_free_def)
  show "dm_start_address (pools (snd (OS_Create_Memory_Pool p name a n k st)) p) = a"
    "dm_pool_size (pools (snd (OS_Create_Memory_Pool p name a n k st)) p) = n div 4 * 4"
    by (simp_all add: OS_Create_Memory_Pool_def Let_def)
qed

text \<open>A placement of the static array: word aligned and clear of the end of the address space.\<close>

definition pool_place :: "nat \<Rightarrow> bool" where
  "pool_place a \<longleftrightarrow> 0 < a \<and> 4 dvd a \<and> a + 20496 \<le> 4294967295"

lemma DMemInit_inv:
  assumes "pool_place a"
  shows "pool_inv p (OS_DMemInit p a st) [(20448, True)]" "pool_ok p a (a + 20480) (OS_DMemInit p a st)"
proof -
  have r: "round_up4 16 = 16" by (simp add: round_up4_def wrap32_def)
  note C = Create_inv [of a 16 20480 p "''Sys'' @ [NUL]" "st\<lparr>DMD_Total_Pools := 0\<rparr>"]
  show i: "pool_inv p (OS_DMemInit p a st) [(20448, True)]"
    using C(1) assms r by (simp add: OS_DMemInit_def OS_DMEM_POOL_SIZE_def pool_place_def)
  then show "pool_ok p a (a + 20480) (OS_DMemInit p a st)"
    using C(2,3) assms r unfolding pool_ok_def
    by (auto simp: OS_DMemInit_def OS_DMEM_POOL_SIZE_def pool_place_def)
qed

lemma blen_dvd: "\<forall>(s, f) \<in> set bs. 4 dvd s \<Longrightarrow> 4 dvd blen bs"
  by (induction bs rule: blen.induct) auto

lemma live_empty: "live_blocks a bs = {} \<Longrightarrow> \<forall>b \<in> set bs. snd b"
  by (induction a bs rule: live_blocks.induct) (auto split: if_splits)

lemma init_malloc:
  obtains st1 where "OS_GetMem 8 10 (OS_DMemInit 8 4096 st) = Some (OS_ERR_NONE, 4112, st1)"
    "dm_start_address (pools st1 8) = 4096" "pool_inv 8 st1 [(16, False), (20416, True)]"
proof -
  have inv: "pool_inv 8 (OS_DMemInit 8 4096 st) [(20448, True)]"
    by (rule DMemInit_inv) (simp add: pool_place_def)
  have p: "dm_start_address (pools (OS_DMemInit 8 4096 st) 8) = 4096"
    "dm_min_allocation (pools (OS_DMemInit 8 4096 st) 8) = 16"
    by (simp_all add: OS_DMemInit_def OS_Create_Memory_Pool_def Let_def round_up4_def wrap32_def)
  have sz: "16 = adjust_size (dm_min_allocation (pools (OS_DMemInit 8 4096 st) 8)) 10"
    by (simp add: adjust_size_def p)
  have n: "(10::nat) \<le> 4294967292" and ex: "\<exists>s. (s, True) \<in> set [(20448::nat, True)] \<and> 16 \<le> s" by auto
  show thesis
  proof (rule GetMem_found [OF inv n sz ex])
    fix us s vs st1 
    assume r: "[(20448, True)] = us @ (s, True) # vs"
      "OS_GetMem 8 10 (OS_DMemInit 8 4096 st) =
        Some (OS_ERR_NONE, dm_start_address (pools (OS_DMemInit 8 4096 st) 8) + blen us + 16, st1)"
      "same_frame 8 (OS_DMemInit 8 4096 st) st1"
      "pool_inv 8 st1 (alloc_blocks (dm_min_allocation (pools (OS_DMemInit 8 4096 st) 8)) 16 us s vs)"
    from r(1) have e: "us = []" "s = 20448" "vs = []" by (cases us; simp)+
    from r(2-4) show thesis
      by (intro that [of st1]) (simp_all add: e p same_frame_def alloc_blocks_def)
  qed
qed

text \<open>A memory for the examples.\<close>

definition blank_dmem :: dmem where
  "blank_dmem = \<lparr>pools = (\<lambda>_. \<lparr>dm_id = 0, dm_name = [], dm_start_address = 0, dm_pool_size = 0,
       dm_min_allocation = 0, dm_available = 0, dm_memory_list = 0, dm_search_ptr = 0\<rparr>),
     hdrs = (\<lambda>_. \<lparr>dm_next_memory = 0, dm_previous_memory = 0, dm_memory_free = False, dm_memory_pool = 0\<rparr>),
     ram = (\<lambda>_. 0), DMD_Total_Pools = 0\<rparr>"

section \<open>Properties\<close>

text \<open>C2: for every request of at most \<open>2 ^ 32 - 4\<close> bytes \<^verbatim>\<open>OS_GetMem\<close> is first fit from the search pointer:
  when some free block is large enough it takes, of these, the one reached first going up from
  \<^verbatim>\<open>dm_search_ptr\<close> and around the circular list, and returns a word aligned pointer into it; the block becomes
  a used block of at least the requested size (the rest split off when it can hold a minimal block) and the
  search pointer moves past it only when it stood on it. Otherwise it returns \<^verbatim>\<open>OS_ERR_MEM_FULL\<close> and changes
  nothing. The pool invariant is kept. (For a larger request the rounding at \<^verbatim>\<open>os_dmem.c:177\<close> wraps,
  \<open>OS_GetMem_wraps\<close>.)\<close>

theorem OS_GetMem_correct:
  assumes "pool_inv p st bs" "n \<le> 4294967292"
  shows "let sz = adjust_size (dm_min_allocation (pools st p)) n;
             mn = dm_min_allocation (pools st p);
             a = dm_start_address (pools st p);
             sp = dm_search_ptr (pools st p) in
    n \<le> sz \<and>
    (if \<exists>s. (s, True) \<in> set bs \<and> sz \<le> s
     then \<exists>us s vs st'. bs = us @ (s, True) # vs \<and> sz \<le> s \<and> 4 dvd a + blen us + 16 \<and>
       (\<forall>us' s' vs'. bs = us' @ (s', True) # vs' \<and> sz \<le> s' \<longrightarrow>
          reached_first sp (a + blen us) (a + blen us')) \<and>
       OS_GetMem p n st = Some (OS_ERR_NONE, a + blen us + 16, st') \<and>
       pool_inv p st' (alloc_blocks mn sz us s vs) \<and> same_frame p st st' \<and>
       dm_search_ptr (pools st' p) = next_search sp (a + blen us) (if s \<ge> sz + 16 + mn then sz else s)
     else OS_GetMem p n st = Some (OS_ERR_MEM_FULL, 0, st))"
proof -
  define sz where "sz = adjust_size (dm_min_allocation (pools st p)) n"
  define a where "a = dm_start_address (pools st p)"
  note D = assms(1) [unfolded pool_inv_def pool_shape_def Let_def]
  have I: "n \<le> sz" "4 dvd a" "\<forall>(s, f) \<in> set bs. 4 dvd s"
    unfolding sz_def a_def using D adjust_size_props(1) [OF assms(2)] by blast+
  have al: "4 dvd a + blen us + 16" if "bs = us @ (s, True) # vs" for us s vs
  proof -
    have "4 dvd blen us" using that I(3) by (intro blen_dvd) simp
    with I(2) show ?thesis by (intro dvd_add) simp_all
  qed
  show ?thesis
  proof (cases "\<exists>s. (s, True) \<in> set bs \<and> sz \<le> s")
    case True
    show ?thesis
      unfolding Let_def sz_def [symmetric] if_P [OF True]
    proof (rule GetMem_found [OF assms sz_def True, folded a_def], intro conjI exI)
      fix us s vs st'
      assume "bs = us @ (s, True) # vs"
      then show "4 dvd dm_start_address (pools st p) + blen us + 16" unfolding a_def [symmetric] by (rule al)
    qed (use I(1) in \<open>(assumption | simp only: a_def)+\<close>)
  next
    case False
    show ?thesis
      unfolding Let_def sz_def [symmetric] if_not_P [OF False]
      using I(1) GetMem_full [OF assms sz_def False] by (rule conjI)
  qed
qed

theorem OS_GetMem_witness:
  "\<exists>st'. OS_GetMem 8 10 (OS_DMemInit 8 4096 blank_dmem) = Some (OS_ERR_NONE, 4112, st') \<and>
     pool_inv 8 st' [(16, False), (20416, True)] \<and> dm_search_ptr (pools st' 8) = 4128"
proof -
  have inv: "pool_inv 8 (OS_DMemInit 8 4096 blank_dmem) [(20448, True)]"
    by (rule DMemInit_inv) (simp add: pool_place_def)
  have p: "dm_start_address (pools (OS_DMemInit 8 4096 blank_dmem) 8) = 4096"
    "dm_min_allocation (pools (OS_DMemInit 8 4096 blank_dmem) 8) = 16"
    "dm_search_ptr (pools (OS_DMemInit 8 4096 blank_dmem) 8) = 4096"
    by (simp_all add: OS_DMemInit_def OS_Create_Memory_Pool_def Let_def round_up4_def wrap32_def)
  have a: "adjust_size 16 10 = 16" by (simp add: adjust_size_def)
  obtain us s vs st' where r: "[(20448, True)] = us @ (s, True) # vs"
    "OS_GetMem 8 10 (OS_DMemInit 8 4096 blank_dmem) = Some (OS_ERR_NONE, 4096 + blen us + 16, st')"
    "pool_inv 8 st' (alloc_blocks 16 16 us s vs)"
    "dm_search_ptr (pools st' 8) = next_search 4096 (4096 + blen us) (if s \<ge> 48 then 16 else s)"
    using OS_GetMem_correct [OF inv, of 10] unfolding p a Let_def by auto
  from r(1) have "us = []" "s = 20448" "vs = []" by (cases us; simp)+
  with r show ?thesis by (simp add: alloc_blocks_def next_search_def)
qed

text \<open>C4: \<^verbatim>\<open>OS_FreeMem\<close> on the pointer of a used block releases exactly that block, merges it with its free
  neighbours on both sides, and keeps the pool invariant: the list stays circular and doubly linked,
  \<^verbatim>\<open>dm_available\<close> is the sum of the free blocks, no two neighbours are free.\<close>

theorem OS_FreeMem_correct:
  assumes "pool_inv p st (us @ (s, False) # vs)"
  shows "\<exists>st'. OS_FreeMem (dm_start_address (pools st p) + blen us + 16) st = (OS_ERR_NONE, st') \<and>
     same_frame p st st' \<and> pool_inv p st' (free_blocks us s vs)"
  using FreeMem_block [OF assms refl] by blast

theorem OS_FreeMem_witness:
  "\<exists>st1 st2. OS_GetMem 8 10 (OS_DMemInit 8 4096 blank_dmem) = Some (OS_ERR_NONE, 4112, st1) \<and>
     OS_FreeMem 4112 st1 = (OS_ERR_NONE, st2) \<and> pool_inv 8 st2 [(20448, True)]"
proof -
  obtain st1 where g: "OS_GetMem 8 10 (OS_DMemInit 8 4096 blank_dmem) = Some (OS_ERR_NONE, 4112, st1)"
    "dm_start_address (pools st1 8) = 4096" "pool_inv 8 st1 [(16, False), (20416, True)]"
    by (rule init_malloc)
  have "pool_inv 8 st1 ([] @ (16, False) # [(20416, True)])" using g(3) by simp
  from OS_FreeMem_correct [OF this] g show ?thesis by (auto simp: free_blocks_def)
qed

text \<open>C1: from initialisation on, every sequence of \<^verbatim>\<open>OSMMalloc\<close> and \<^verbatim>\<open>OSMFree\<close> calls that frees only
  blocks in use runs to its end, keeps the pool invariant, and at the end the blocks in use lie inside the
  pool and do not overlap.\<close>

theorem mem_ops_safe:
  assumes "pool_place a"
    and "mops_ok (live_of p) (OSMMalloc p) OSMFree ops (OS_DMemInit p a st0)"
  shows "\<exists>st. run_mops (OSMMalloc p) OSMFree ops (OS_DMemInit p a st0) = Some st \<and>
    pool_ok p a (a + 20480) st \<and>
    (\<forall>(x, n) \<in> live_of p st. a < x \<and> x + n \<le> a + 20480) \<and>
    (\<forall>(x, n) \<in> live_of p st. \<forall>(y, k) \<in> live_of p st. (x, n) \<noteq> (y, k) \<longrightarrow> x + n \<le> y \<or> y + k \<le> x)"
proof -
  obtain st where run: "run_mops (OSMMalloc p) OSMFree ops (OS_DMemInit p a st0) = Some st"
      and ok: "pool_ok p a (a + 20480) st"
    using osm.run_inv [OF DMemInit_inv(2) [OF assms(1)] assms(2)] by blast
  have "\<forall>(x, n) \<in> live_of p st. a < x \<and> x + n \<le> a + 20480" using osm.inside [OF ok] by blast
  moreover have "\<forall>(x, n) \<in> live_of p st. \<forall>(y, k) \<in> live_of p st.
      (x, n) \<noteq> (y, k) \<longrightarrow> x + n \<le> y \<or> y + k \<le> x"
    using osm.disjoint [OF ok] by fastforce
  ultimately show ?thesis using run ok by blast
qed

theorem mem_ops_witness:
  "\<exists>st. run_mops (OSMMalloc 8) OSMFree [Alloc 10, Alloc 5000, Alloc 30000] (OS_DMemInit 8 4096 blank_dmem) = Some st \<and>
    pool_ok 8 4096 24576 st"
proof -
  have "mops_ok (live_of 8) (OSMMalloc 8) OSMFree [Alloc 10, Alloc 5000, Alloc 30000] (OS_DMemInit 8 4096 blank_dmem)"
    by (simp split: option.splits)
  from mem_ops_safe [OF _ this] show ?thesis by (auto simp: pool_place_def)
qed

text \<open>A pool with no block in use is one free block again: release never leaves the memory
  fragmented, and no byte is lost.\<close>

theorem pool_coalesced:
  assumes "pool_inv p st bs" "live_of p st = {}"
  shows "bs = [(dm_pool_size (pools st p) - 32, True)] \<and>
    dm_available (pools st p) = dm_pool_size (pools st p) - 32"
proof -
  have I: "no_adjacent_free bs" "bs \<noteq> []" "blen bs + 16 = dm_pool_size (pools st p)"
      "dm_available (pools st p) = free_sum bs"
    using assms(1) by (auto simp: pool_inv_def pool_shape_def Let_def)
  have "\<forall>b \<in> set bs. snd b" using live_empty assms live_of_eq by blast
  with I(1,2) obtain s where "bs = [(s, True)]"
    by (cases bs; cases "tl bs") (auto simp: no_adjacent_free_def)
  with I show ?thesis by auto
qed

theorem pool_coalesced_witness:
  "dm_available (pools (OS_DMemInit 8 4096 blank_dmem) 8) = dm_pool_size (pools (OS_DMemInit 8 4096 blank_dmem) 8) - 32"
proof -
  have inv: "pool_inv 8 (OS_DMemInit 8 4096 blank_dmem) [(20448, True)]"
    by (rule DMemInit_inv) (simp add: pool_place_def)
  then have "live_of 8 (OS_DMemInit 8 4096 blank_dmem) = {}" by (simp add: live_of_eq)
  from pool_coalesced [OF inv this] show ?thesis by simp
qed

text \<open>A request in the last three values of the 32 bit range is rounded to zero bytes, and
  \<^verbatim>\<open>OS_GetMem\<close> reports success on the block under the search pointer whatever its state, so that a used block
  or the trailer is handed out.\<close>

theorem OS_GetMem_wraps:
  assumes "4294967293 \<le> n" "n < 4294967296" "dm_min_allocation (pools st p) \<le> n"
  shows "\<exists>st'. OS_GetMem p n st = Some (OS_ERR_NONE, wrap32 (dm_search_ptr (pools st p) + 16), st')"
proof -
  have "wrap32 (n + 3) < 4"
  proof -
    obtain j where "n = 4294967293 + j" using assms(1) le_Suc_ex by blast
    with assms(2) show ?thesis by (simp add: wrap32_def)
  qed
  then have "adjust_size (dm_min_allocation (pools st p)) n = 0"
    using assms(3) by (simp add: adjust_size_def round_up4_def)
  moreover have "mem_search h 0 sp m = Some (m, free_size h m)" for h sp m
    by (subst mem_search.simps) simp
  ultimately show ?thesis by (simp add: OS_GetMem_def Let_def)
qed

theorem OS_GetMem_wraps_witness:
  "\<exists>st'. OS_GetMem 8 4294967295 (OS_DMemInit 8 4096 blank_dmem) =
     Some (OS_ERR_NONE, wrap32 (dm_search_ptr (pools (OS_DMemInit 8 4096 blank_dmem) 8) + 16), st')"
  by (rule OS_GetMem_wraps)
    (simp_all add: OS_DMemInit_def OS_Create_Memory_Pool_def Let_def round_up4_def wrap32_def)

end
