(* ===== verification/Dhcp_Server.thy ===== *)
theory Dhcp_Server
  imports SN_Prelude
begin

text \<open>
  The DHCP server of \<^verbatim>\<open>App/DhcpServer/dhcp_server.c\<close>. The static \<^verbatim>\<open>DhcpServer\<close> is a record, the static
  message buffer \<^verbatim>\<open>DhcpMsg\<close> its 548 bytes, and a pointer to a client entry is its index in the table. IP
  addresses are the 32 bit words as they lie in memory (network byte order read on the little endian
  target). The lwIP calls are parameters: whether \<^verbatim>\<open>pbuf_alloc\<close> succeeds, the socket of \<^verbatim>\<open>udp_new\<close> and the
  station status of the wireless library; the packets handed to \<^verbatim>\<open>udp_sendto\<close> are collected in \<open>Sent\<close>.
\<close>

section \<open>Data\<close>

datatype DHCP_CLIENT_STATE =
    DHCP_CLIENT_STATE_IDLE
  | DHCP_CLIENT_STATE_SELECT
  | DHCP_CLIENT_STATE_REQUEST
  | DHCP_CLIENT_STATE_BIND

record DHCP_CLIENT =
  State :: DHCP_CLIENT_STATE
  Timeout :: u32
  IpAddr :: u32
  MacAddr :: bytes
  Lease :: u32

record DHCP_SERVER =
  Enable :: bool
  Socket :: "nat option"
  ServerIpAddr :: u32
  StartIpAddr :: u32
  SubnetMask :: u32
  GateWay :: u32
  Dns1 :: u32
  Dns2 :: u32
  LeaseTime :: u32
  Clients :: "DHCP_CLIENT list"
  DhcpMsg :: bytes
  TickArmed :: bool
  Sent :: "bytes list"

definition DHCPS_HISTORY_CLIENT_NUM :: nat where "DHCPS_HISTORY_CLIENT_NUM = 8"
definition DHCP_DEFAULT_LEASE_TIME :: u32 where "DHCP_DEFAULT_LEASE_TIME = 3600 * 24 * 365 * 10"
definition DHCP_DEFFAULT_TIMEOUT :: u32 where "DHCP_DEFFAULT_TIMEOUT = 10"
definition DHCP_MAGIC :: u32 where "DHCP_MAGIC = 0x63825363"
definition DHCP_MSG_SIZE :: nat where "DHCP_MSG_SIZE = 548"

definition DHCP_MSG_DISCOVER :: u8 where "DHCP_MSG_DISCOVER = 1"
definition DHCP_MSG_OFFER :: u8 where "DHCP_MSG_OFFER = 2"
definition DHCP_MSG_REQUEST :: u8 where "DHCP_MSG_REQUEST = 3"
definition DHCP_MSG_DECLINE :: u8 where "DHCP_MSG_DECLINE = 4"
definition DHCP_MSG_ACK :: u8 where "DHCP_MSG_ACK = 5"
definition DHCP_MSG_NAK :: u8 where "DHCP_MSG_NAK = 6"
definition DHCP_MSG_RELEASE :: u8 where "DHCP_MSG_RELEASE = 7"

definition DHCP_OPTION_ID_PAD :: u8 where "DHCP_OPTION_ID_PAD = 0"
definition DHCP_OPTION_ID_SUBNET_MASK :: u8 where "DHCP_OPTION_ID_SUBNET_MASK = 1"
definition DHCP_OPTION_ID_DEF_GW :: u8 where "DHCP_OPTION_ID_DEF_GW = 3"
definition DHCP_OPTION_ID_DNS_SERVER :: u8 where "DHCP_OPTION_ID_DNS_SERVER = 6"
definition DHCP_OPTION_ID_REQ_IP_ADDR :: u8 where "DHCP_OPTION_ID_REQ_IP_ADDR = 50"
definition DHCP_OPTION_ID_LEASE_TIME :: u8 where "DHCP_OPTION_ID_LEASE_TIME = 51"
definition DHCP_OPTION_ID_MSG_TYPE :: u8 where "DHCP_OPTION_ID_MSG_TYPE = 53"
definition DHCP_OPTION_ID_SERVER_ID :: u8 where "DHCP_OPTION_ID_SERVER_ID = 54"
definition DHCP_OPTION_ID_END :: u8 where "DHCP_OPTION_ID_END = 255"

lemmas dhcp_consts =
  DHCPS_HISTORY_CLIENT_NUM_def DHCP_MSG_DISCOVER_def DHCP_MSG_OFFER_def DHCP_MSG_REQUEST_def
  DHCP_MSG_DECLINE_def DHCP_MSG_ACK_def DHCP_MSG_NAK_def DHCP_MSG_RELEASE_def
  DHCP_OPTION_ID_PAD_def DHCP_OPTION_ID_SUBNET_MASK_def DHCP_OPTION_ID_DEF_GW_def
  DHCP_OPTION_ID_DNS_SERVER_def DHCP_OPTION_ID_REQ_IP_ADDR_def DHCP_OPTION_ID_LEASE_TIME_def
  DHCP_OPTION_ID_MSG_TYPE_def DHCP_OPTION_ID_SERVER_ID_def DHCP_OPTION_ID_END_def

definition zero_mac :: bytes where "zero_mac = [0, 0, 0, 0, 0, 0]"

section \<open>The message buffer\<close>

text \<open>Stores at an offset of the 548 byte message, and the fields the server reads.\<close>

definition put :: "nat \<Rightarrow> bytes \<Rightarrow> bytes \<Rightarrow> bytes" where
  "put p xs b = take p b @ xs @ drop (p + length xs) b"

definition msg_Op :: "bytes \<Rightarrow> u8" where "msg_Op b = b ! 0"
definition msg_HType :: "bytes \<Rightarrow> u8" where "msg_HType b = b ! 1"
definition msg_Xid :: "bytes \<Rightarrow> u32" where "msg_Xid b = of_le32 (drop 4 b)"
definition msg_Yiaddr :: "bytes \<Rightarrow> u32" where "msg_Yiaddr b = of_le32 (drop 16 b)"
definition msg_Chaddr6 :: "bytes \<Rightarrow> bytes" where "msg_Chaddr6 b = take 6 (drop 28 b)"
definition msg_Magic :: "bytes \<Rightarrow> u32" where "msg_Magic b = of_le32 (drop 236 b)"

text \<open>The option macros: each appends its bytes at the write position.\<close>

definition set_opt4 :: "u8 \<Rightarrow> u32 \<Rightarrow> bytes" where "set_opt4 oid v = [oid, 4] @ le32 v"

definition DHCP_SET_OPTION_SUBNET_MASK :: "u32 \<Rightarrow> bytes" where
  "DHCP_SET_OPTION_SUBNET_MASK smask = set_opt4 DHCP_OPTION_ID_SUBNET_MASK smask"
definition DHCP_SET_OPTION_GW :: "u32 \<Rightarrow> bytes" where
  "DHCP_SET_OPTION_GW gw = set_opt4 DHCP_OPTION_ID_DEF_GW gw"
definition DHCP_SET_OPTION_DNS :: "u32 \<Rightarrow> bytes" where
  "DHCP_SET_OPTION_DNS dns = set_opt4 DHCP_OPTION_ID_DNS_SERVER dns"
definition DHCP_SET_OPTION_SERVER_ID :: "u32 \<Rightarrow> bytes" where
  "DHCP_SET_OPTION_SERVER_ID ip = set_opt4 DHCP_OPTION_ID_SERVER_ID ip"
definition DHCP_SET_OPTION_MSG_TYPE :: "u8 \<Rightarrow> bytes" where
  "DHCP_SET_OPTION_MSG_TYPE ty = [DHCP_OPTION_ID_MSG_TYPE, 1, ty]"
definition DHCP_SET_OPTION_LEASE_TIME :: "u32 \<Rightarrow> bytes" where
  "DHCP_SET_OPTION_LEASE_TIME time = set_opt4 DHCP_OPTION_ID_LEASE_TIME (htonl time)"
definition DHCP_SET_OPTION_END :: bytes where
  "DHCP_SET_OPTION_END = [DHCP_OPTION_ID_END]"

text \<open>\<^verbatim>\<open>_ParseDhcpOptions\<close>. \<open>mem i\<close> is the byte at \<^verbatim>\<open>Options + i\<close>; the array ends at 308, and the bytes
  beyond belong to whatever lies behind the message. The condition reads a byte before it compares the
  pointer with the end, and the four byte copies do not check the end, as in the source.\<close>

record parsed =
  pRet :: u8
  pMsgType :: u8
  pReqIpAddr :: u32
  pServerId :: u32

definition mem4 :: "(nat \<Rightarrow> u8) \<Rightarrow> nat \<Rightarrow> u32" where
  "mem4 mem i = of_le32 [mem i, mem (i + 1), mem (i + 2), mem (i + 3)]"

function parse_loop :: "(nat \<Rightarrow> u8) \<Rightarrow> nat \<Rightarrow> parsed \<Rightarrow> parsed" where
  "parse_loop mem i r =
     (if mem i \<noteq> DHCP_OPTION_ID_END \<and> i < 308 then
        if mem i = DHCP_OPTION_ID_PAD then parse_loop mem (i + 1) r
        else
          let len = unat (mem (i + 1));
              r' = (if mem i = DHCP_OPTION_ID_MSG_TYPE then
                      r\<lparr>pMsgType := mem (i + 2), pRet := pRet r OR 1\<rparr>
                    else if mem i = DHCP_OPTION_ID_REQ_IP_ADDR then
                      r\<lparr>pReqIpAddr := mem4 mem (i + 2), pRet := pRet r OR 2\<rparr>
                    else if mem i = DHCP_OPTION_ID_SERVER_ID then
                      r\<lparr>pServerId := mem4 mem (i + 2), pRet := pRet r OR 4\<rparr>
                    else r)
          in parse_loop mem (i + 2 + len) r'
      else r)"
  by pat_completeness auto

termination by (relation "measure (\<lambda>(mem, i, r). 308 - i)") auto

declare parse_loop.simps [simp del]

text \<open>The bytes behind the message are the parameter \<open>beyond\<close>.\<close>

definition ParseDhcpOptions :: "bytes \<Rightarrow> (nat \<Rightarrow> u8) \<Rightarrow> u8 \<Rightarrow> u32 \<Rightarrow> u32 \<Rightarrow> parsed" where
  "ParseDhcpOptions msg beyond MsgType ReqIpAddr ServerId =
     parse_loop (\<lambda>i. if 240 + i < length msg then msg ! (240 + i) else beyond i) 0
       \<lparr>pRet = 0, pMsgType = MsgType, pReqIpAddr = ReqIpAddr, pServerId = ServerId\<rparr>"

section \<open>The client table\<close>

text \<open>The pointers \<^verbatim>\<open>_ClientTableLookup\<close> collects in its loop over the table.\<close>

record lookup =
  pFreeClient :: "nat option"
  pReqClient :: "nat option"
  pMyHistoryClient :: "nat option"
  pHistoryClient :: "nat option"
  pMyClient :: "nat option"
  IpUnavailable :: bool

definition first_idx :: "nat option \<Rightarrow> bool \<Rightarrow> nat \<Rightarrow> nat option" where
  "first_idx p cond i = (if p = None \<and> cond then Some i else p)"

definition lookup_step :: "DHCP_CLIENT list \<Rightarrow> bytes \<Rightarrow> u32 \<Rightarrow> lookup \<Rightarrow> nat \<Rightarrow> lookup" where
  "lookup_step cs mac req l i =
     (let c = cs ! i in
      if State c = DHCP_CLIENT_STATE_IDLE then
        l\<lparr>pMyHistoryClient := first_idx (pMyHistoryClient l) (MacAddr c = mac) i,
          pReqClient := first_idx (pReqClient l) (IpAddr c = req) i,
          pFreeClient := first_idx (pFreeClient l) (MacAddr c = zero_mac) i,
          pHistoryClient := first_idx (pHistoryClient l) (MacAddr c \<noteq> zero_mac) i\<rparr>
      else if MacAddr c = mac then l\<lparr>pMyClient := Some i\<rparr>
      else if IpAddr c = req then l\<lparr>IpUnavailable := True\<rparr>
      else l)"

definition lookup_scan :: "DHCP_CLIENT list \<Rightarrow> bytes \<Rightarrow> u32 \<Rightarrow> nat \<Rightarrow> lookup" where
  "lookup_scan cs mac req n =
     foldl (lookup_step cs mac req)
       \<lparr>pFreeClient = None, pReqClient = None, pMyHistoryClient = None, pHistoryClient = None,
        pMyClient = None, IpUnavailable = False\<rparr> [0..<n]"

definition upd_client :: "nat \<Rightarrow> (DHCP_CLIENT \<Rightarrow> DHCP_CLIENT) \<Rightarrow> DHCP_CLIENT list \<Rightarrow> DHCP_CLIENT list" where
  "upd_client i f cs = cs[i := f (cs ! i)]"

text \<open>The code that gives up a negotiation: an entry that is not bound loses its MAC address, and the
  entry becomes idle.\<close>

definition drop_client :: "nat \<Rightarrow> DHCP_CLIENT list \<Rightarrow> DHCP_CLIENT list" where
  "drop_client i cs =
     upd_client i (\<lambda>c. (if State c \<noteq> DHCP_CLIENT_STATE_BIND then c\<lparr>MacAddr := zero_mac\<rparr> else c)
       \<lparr>State := DHCP_CLIENT_STATE_IDLE\<rparr>) cs"

text \<open>The \<^verbatim>\<open>DISCOVER\<close> case: the state is set to idle before the test against \<^verbatim>\<open>BIND\<close>, as in the source.\<close>

definition lookup_discover :: "lookup \<Rightarrow> DHCP_CLIENT list \<Rightarrow> nat option \<times> DHCP_CLIENT list" where
  "lookup_discover l cs =
     (case pMyClient l of
        Some my \<Rightarrow>
          let cs1 = upd_client my (\<lambda>c. c\<lparr>State := DHCP_CLIENT_STATE_IDLE\<rparr>) cs in
          (case pReqClient l of
             Some rq \<Rightarrow>
               (Some rq, if State (cs1 ! my) \<noteq> DHCP_CLIENT_STATE_BIND
                         then upd_client my (\<lambda>c. c\<lparr>MacAddr := zero_mac\<rparr>) cs1 else cs1)
           | None \<Rightarrow> (Some my, cs1))
      | None \<Rightarrow>
          (case pReqClient l of Some rq \<Rightarrow> (Some rq, cs)
           | None \<Rightarrow> (case pMyHistoryClient l of Some h \<Rightarrow> (Some h, cs)
           | None \<Rightarrow> (case pFreeClient l of Some f \<Rightarrow> (Some f, cs)
           | None \<Rightarrow> (case pHistoryClient l of Some h \<Rightarrow> (Some h, cs)
           | None \<Rightarrow> (None, cs))))))"

definition lookup_request :: "u32 \<Rightarrow> u32 \<Rightarrow> lookup \<Rightarrow> DHCP_CLIENT list \<Rightarrow> nat option \<times> DHCP_CLIENT list" where
  "lookup_request server ServerId l cs =
     (case pMyClient l of
        Some my \<Rightarrow>
          if IpUnavailable l then (None, drop_client my cs)
          else (case pReqClient l of
              Some rq \<Rightarrow>
                (if ServerId = 0 \<or> server = ServerId then Some rq else None, drop_client my cs)
            | None \<Rightarrow> (if ServerId = 0 \<or> server = ServerId then Some my else None, cs))
      | None \<Rightarrow>
          if IpUnavailable l then (None, cs)
          else if ServerId = 0 \<or> server = ServerId then (pReqClient l, cs)
          else (None, cs))"

definition lookup_release :: "lookup \<Rightarrow> DHCP_CLIENT list \<Rightarrow> nat option \<times> DHCP_CLIENT list" where
  "lookup_release l cs = (None, case pMyClient l of Some my \<Rightarrow> drop_client my cs | None \<Rightarrow> cs)"

definition ClientTableLookup ::
  "bytes \<Rightarrow> u8 \<Rightarrow> u32 \<Rightarrow> u32 \<Rightarrow> DHCP_SERVER \<Rightarrow> nat option \<times> DHCP_SERVER" where
  "ClientTableLookup mac MsgType ReqIpAddr ServerId srv =
     (let cs = Clients srv;
          l = lookup_scan cs mac ReqIpAddr DHCPS_HISTORY_CLIENT_NUM;
          (ret, cs1) =
            (if MsgType = DHCP_MSG_DISCOVER then lookup_discover l cs
             else if MsgType = DHCP_MSG_REQUEST then lookup_request (ServerIpAddr srv) ServerId l cs
             else if MsgType = DHCP_MSG_RELEASE then lookup_release l cs
             else if MsgType = DHCP_MSG_DECLINE then lookup_release l cs
             else (None, cs));
          cs2 = (case ret of Some i \<Rightarrow> upd_client i (\<lambda>c. c\<lparr>MacAddr := mac\<rparr>) cs1 | None \<Rightarrow> cs1)
      in (ret, srv\<lparr>Clients := cs2\<rparr>))"

section \<open>Replies\<close>

text \<open>The message header the three generators share: \<^verbatim>\<open>memset\<close>, then the fields in their order.\<close>

definition reply_header :: "u32 \<Rightarrow> u32 \<Rightarrow> u32 \<Rightarrow> bytes \<Rightarrow> bytes" where
  "reply_header xid yiaddr siaddr mac =
     put 236 (le32 (htonl DHCP_MAGIC))
    (put 28 (take 6 mac)
    (put 20 (le32 siaddr)
    (put 16 (le32 yiaddr)
    (put 4 (le32 (htonl xid))
    (put 2 [6] (put 1 [1] (put 0 [2] (replicate DHCP_MSG_SIZE 0))))))))"

text \<open>Write the options behind the header and send the first \<^verbatim>\<open>Len\<close> bytes.\<close>

definition send_reply :: "bool \<Rightarrow> bytes \<Rightarrow> bytes \<Rightarrow> DHCP_SERVER \<Rightarrow> DHCP_SERVER" where
  "send_reply pbuf_ok hdr opts srv =
     (if \<not> pbuf_ok then srv
      else let m = put 240 opts hdr
           in srv\<lparr>DhcpMsg := m, Sent := Sent srv @ [take (240 + length opts) m]\<rparr>)"

definition DHCPNakGenAndSend :: "bool \<Rightarrow> bytes \<Rightarrow> u32 \<Rightarrow> DHCP_SERVER \<Rightarrow> DHCP_SERVER" where
  "DHCPNakGenAndSend pbuf_ok mac xid srv =
     send_reply pbuf_ok (reply_header xid 0 (ServerIpAddr srv) mac)
       (DHCP_SET_OPTION_MSG_TYPE DHCP_MSG_NAK @ DHCP_SET_OPTION_END) srv"

definition reply_options :: "u8 \<Rightarrow> DHCP_SERVER \<Rightarrow> bytes" where
  "reply_options ty srv =
     DHCP_SET_OPTION_MSG_TYPE ty @
     DHCP_SET_OPTION_LEASE_TIME DHCP_DEFAULT_LEASE_TIME @
     DHCP_SET_OPTION_SERVER_ID (ServerIpAddr srv) @
     DHCP_SET_OPTION_SUBNET_MASK (SubnetMask srv) @
     DHCP_SET_OPTION_GW (GateWay srv) @
     DHCP_SET_OPTION_DNS (Dns1 srv) @
     DHCP_SET_OPTION_END"

definition DHCPAckGenAndSend :: "bool \<Rightarrow> nat \<Rightarrow> bytes \<Rightarrow> u32 \<Rightarrow> DHCP_SERVER \<Rightarrow> DHCP_SERVER" where
  "DHCPAckGenAndSend pbuf_ok i mac xid srv =
     send_reply pbuf_ok (reply_header xid (IpAddr (Clients srv ! i)) 0 mac)
       (reply_options DHCP_MSG_ACK srv) srv"

definition DHCPOfferGenAndSend :: "bool \<Rightarrow> nat \<Rightarrow> bytes \<Rightarrow> u32 \<Rightarrow> DHCP_SERVER \<Rightarrow> DHCP_SERVER" where
  "DHCPOfferGenAndSend pbuf_ok i mac xid srv =
     send_reply pbuf_ok (reply_header xid (IpAddr (Clients srv ! i)) 0 mac)
       (reply_options DHCP_MSG_OFFER srv) srv"

definition CleanClientHistory :: "bytes \<Rightarrow> DHCP_SERVER \<Rightarrow> DHCP_SERVER" where
  "CleanClientHistory mac srv =
     srv\<lparr>Clients := map (\<lambda>c. if State c = DHCP_CLIENT_STATE_IDLE \<and> MacAddr c = mac
                             then c\<lparr>MacAddr := zero_mac\<rparr> else c) (Clients srv)\<rparr>"

definition set_client :: "nat \<Rightarrow> (DHCP_CLIENT \<Rightarrow> DHCP_CLIENT) \<Rightarrow> DHCP_SERVER \<Rightarrow> DHCP_SERVER" where
  "set_client i f srv = srv\<lparr>Clients := upd_client i f (Clients srv)\<rparr>"

text \<open>The acknowledge and offer branches of the client state machine; the idle case falls through to
  the offer unless the message is a request.\<close>

definition sme_ack :: "bool \<Rightarrow> nat \<Rightarrow> u32 \<Rightarrow> DHCP_SERVER \<Rightarrow> DHCP_SERVER" where
  "sme_ack pbuf_ok i xid srv =
     (let srv1 = DHCPAckGenAndSend pbuf_ok i (MacAddr (Clients srv ! i)) xid srv;
          srv2 = set_client i (\<lambda>c. c\<lparr>Lease := DHCP_DEFAULT_LEASE_TIME, State := DHCP_CLIENT_STATE_BIND\<rparr>) srv1
      in CleanClientHistory (MacAddr (Clients srv2 ! i)) srv2)"

definition sme_offer :: "bool \<Rightarrow> nat \<Rightarrow> u32 \<Rightarrow> DHCP_SERVER \<Rightarrow> DHCP_SERVER" where
  "sme_offer pbuf_ok i xid srv =
     set_client i (\<lambda>c. c\<lparr>Timeout := DHCP_DEFFAULT_TIMEOUT, State := DHCP_CLIENT_STATE_REQUEST\<rparr>)
       (DHCPOfferGenAndSend pbuf_ok i (MacAddr (Clients srv ! i)) xid srv)"

definition DhcpClientSMEHandle :: "bool \<Rightarrow> nat \<Rightarrow> u8 \<Rightarrow> u32 \<Rightarrow> DHCP_SERVER \<Rightarrow> DHCP_SERVER" where
  "DhcpClientSMEHandle pbuf_ok i MsgType xid srv =
     (case State (Clients srv ! i) of
        DHCP_CLIENT_STATE_IDLE \<Rightarrow>
          if MsgType = DHCP_MSG_DISCOVER then
            sme_offer pbuf_ok i xid (set_client i (\<lambda>c. c\<lparr>State := DHCP_CLIENT_STATE_SELECT\<rparr>) srv)
          else if MsgType = DHCP_MSG_REQUEST then sme_ack pbuf_ok i xid srv
          else sme_offer pbuf_ok i xid srv
      | DHCP_CLIENT_STATE_SELECT \<Rightarrow> sme_offer pbuf_ok i xid srv
      | DHCP_CLIENT_STATE_REQUEST \<Rightarrow> sme_ack pbuf_ok i xid srv
      | DHCP_CLIENT_STATE_BIND \<Rightarrow> sme_ack pbuf_ok i xid srv)"

section \<open>Entry points\<close>

text \<open>\<^verbatim>\<open>DHCPS_RecvCb\<close>: \<^verbatim>\<open>pbuf_copy_partial\<close> overwrites the front of the static message, so the bytes
  behind a short packet are those of an earlier message.\<close>

definition DHCPS_RecvCb :: "bool \<Rightarrow> (nat \<Rightarrow> u8) \<Rightarrow> bytes \<Rightarrow> DHCP_SERVER \<Rightarrow> DHCP_SERVER" where
  "DHCPS_RecvCb pbuf_ok beyond P srv0 =
     (let srv = srv0\<lparr>DhcpMsg := put 0 (take DHCP_MSG_SIZE P) (DhcpMsg srv0)\<rparr>;
          m = DhcpMsg srv
      in
      if P = [] \<or> msg_Op m \<noteq> 1 \<or> ntohl (msg_Magic m) \<noteq> DHCP_MAGIC \<or> msg_HType m \<noteq> 1 then srv
      else
        let r = ParseDhcpOptions m beyond 0xff 0 0 in
        if pRet r AND 1 = 0 then srv
        else
          let xid = ntohl (msg_Xid m);
              mac = msg_Chaddr6 m;
              (cl, srv1) = ClientTableLookup mac (pMsgType r) (pReqIpAddr r) (pServerId r) srv
          in (case cl of
                None \<Rightarrow>
                  if pMsgType r \<noteq> DHCP_MSG_RELEASE \<and> pMsgType r \<noteq> DHCP_MSG_DECLINE
                  then DHCPNakGenAndSend pbuf_ok mac xid srv1 else srv1
              | Some i \<Rightarrow> DhcpClientSMEHandle pbuf_ok i (pMsgType r) xid srv1))"

text \<open>One entry of the tick handler.\<close>

definition tick_client :: "(bytes \<Rightarrow> u8) \<Rightarrow> DHCP_CLIENT \<Rightarrow> DHCP_CLIENT" where
  "tick_client APGetStationStatus c =
     (case State c of
        DHCP_CLIENT_STATE_REQUEST \<Rightarrow>
          if Timeout c \<noteq> 0 then
            (if Timeout c - 1 = 0
             then c\<lparr>Timeout := 0, MacAddr := zero_mac, State := DHCP_CLIENT_STATE_IDLE\<rparr>
             else c\<lparr>Timeout := Timeout c - 1\<rparr>)
          else c
      | DHCP_CLIENT_STATE_BIND \<Rightarrow>
          if Lease c \<noteq> 0 \<and> Lease c - 1 = 0 then c\<lparr>Lease := 0, State := DHCP_CLIENT_STATE_IDLE\<rparr>
          else
            let c1 = (if Lease c \<noteq> 0 then c\<lparr>Lease := Lease c - 1\<rparr> else c)
            in if APGetStationStatus (MacAddr c1) = 0 then c1\<lparr>State := DHCP_CLIENT_STATE_IDLE\<rparr> else c1
      | _ \<Rightarrow> c)"

definition DhcpTickHandle :: "(bytes \<Rightarrow> u8) \<Rightarrow> DHCP_SERVER \<Rightarrow> DHCP_SERVER" where
  "DhcpTickHandle APGetStationStatus srv =
     (if \<not> Enable srv then srv
      else srv\<lparr>Clients := map (tick_client APGetStationStatus) (Clients srv), TickArmed := True\<rparr>)"

definition DHCPS_ERR_SUCCESS :: int where "DHCPS_ERR_SUCCESS = 0"
definition DHCPS_ERR_LINKDOWN :: int where "DHCPS_ERR_LINKDOWN = -1"
definition DHCPS_ERR_PARAM :: int where "DHCPS_ERR_PARAM = -2"
definition DHCPS_ERR_MEM :: int where "DHCPS_ERR_MEM = -3"
definition DHCPS_ERR_NOT_BIND :: int where "DHCPS_ERR_NOT_BIND = -4"
definition DHCPS_ERR_NOT_FOUND :: int where "DHCPS_ERR_NOT_FOUND = -5"
definition DHCPS_ERR_INACTIVE :: int where "DHCPS_ERR_INACTIVE = -6"

fun delete_scan :: "bytes \<Rightarrow> DHCP_CLIENT list \<Rightarrow> int \<times> DHCP_CLIENT list" where
  "delete_scan mac [] = (DHCPS_ERR_NOT_FOUND, [])"
| "delete_scan mac (c # cs) =
     (if State c \<noteq> DHCP_CLIENT_STATE_IDLE \<and> MacAddr c = mac then
        if State c \<noteq> DHCP_CLIENT_STATE_BIND then (DHCPS_ERR_NOT_BIND, c # cs)
        else (DHCPS_ERR_SUCCESS, c\<lparr>State := DHCP_CLIENT_STATE_IDLE\<rparr> # cs)
      else (case delete_scan mac cs of (e, cs') \<Rightarrow> (e, c # cs')))"

definition DHCPS_ClientDelete :: "bytes option \<Rightarrow> DHCP_SERVER \<Rightarrow> int \<times> DHCP_SERVER" where
  "DHCPS_ClientDelete mac srv =
     (if \<not> Enable srv then (DHCPS_ERR_INACTIVE, srv)
      else case mac of
        None \<Rightarrow> (DHCPS_ERR_PARAM, srv)
      | Some m \<Rightarrow> (case delete_scan m (Clients srv) of (e, cs) \<Rightarrow> (e, srv\<lparr>Clients := cs\<rparr>)))"

text \<open>\<^verbatim>\<open>DHCPS_Start\<close>: \<open>pool_host\<close> is the host part computation \<^verbatim>\<open>(h % ~Mask) ? (h % ~Mask) : 1\<close>, and \<open>None\<close> is
  the division by zero of an all ones mask.\<close>

definition pool_host :: "u32 \<Rightarrow> u32 \<Rightarrow> u32" where
  "pool_host Mask h = (if h mod (NOT Mask) \<noteq> 0 then h mod (NOT Mask) else 1)"

definition start_addr :: "u32 \<Rightarrow> u32 \<Rightarrow> u32" where
  "start_addr ip smask =
     (let Val = ntohl ip; Mask = ntohl smask
      in htonl ((Val AND Mask) OR pool_host Mask ((Val AND NOT Mask) + 1)))"

definition pool_addr :: "u32 \<Rightarrow> u32 \<Rightarrow> nat \<Rightarrow> u32" where
  "pool_addr startip smask i =
     (let Val = ntohl startip; Mask = ntohl smask
      in htonl ((Val AND Mask) OR pool_host Mask ((Val AND NOT Mask) + of_nat i)))"

definition server0 :: "bytes \<Rightarrow> bytes list \<Rightarrow> bool \<Rightarrow> DHCP_SERVER" where
  "server0 msg sent armed =
     \<lparr>Enable = False, Socket = None, ServerIpAddr = 0, StartIpAddr = 0, SubnetMask = 0, GateWay = 0,
      Dns1 = 0, Dns2 = 0, LeaseTime = 0,
      Clients = replicate DHCPS_HISTORY_CLIENT_NUM
        \<lparr>State = DHCP_CLIENT_STATE_IDLE, Timeout = 0, IpAddr = 0, MacAddr = zero_mac, Lease = 0\<rparr>,
      DhcpMsg = msg, TickArmed = armed, Sent = sent\<rparr>"

definition DHCPS_Start :: "bool \<Rightarrow> u32 \<Rightarrow> u32 \<Rightarrow> nat option \<Rightarrow> DHCP_SERVER \<Rightarrow> (int \<times> DHCP_SERVER) option" where
  "DHCPS_Start netif_up ip smask udp_new srv =
     (if \<not> netif_up then Some (DHCPS_ERR_LINKDOWN, srv)
      else if NOT (ntohl smask) = 0 then None
      else
        let start = start_addr ip smask;
            srv1 = (server0 (DhcpMsg srv) (Sent srv) (TickArmed srv))
              \<lparr>ServerIpAddr := ip, StartIpAddr := start, SubnetMask := smask, GateWay := ip, Dns1 := ip,
               LeaseTime := DHCP_DEFAULT_LEASE_TIME,
               Clients := map (\<lambda>i. \<lparr>State = DHCP_CLIENT_STATE_IDLE, Timeout = 0,
                  IpAddr = pool_addr start smask i, MacAddr = zero_mac, Lease = DHCP_DEFAULT_LEASE_TIME\<rparr>)
                [0..<DHCPS_HISTORY_CLIENT_NUM],
               Socket := udp_new\<rparr>
        in if udp_new = None then Some (DHCPS_ERR_MEM, srv1)
           else Some (DHCPS_ERR_SUCCESS, srv1\<lparr>TickArmed := True, Enable := True\<rparr>))"

definition DHCPS_Stop :: "DHCP_SERVER \<Rightarrow> DHCP_SERVER" where
  "DHCPS_Stop srv = server0 (DhcpMsg srv) (Sent srv) False"

section \<open>The table scan\<close>

abbreviation active :: "DHCP_CLIENT \<Rightarrow> bool" where
  "active c \<equiv> State c \<noteq> DHCP_CLIENT_STATE_IDLE"

text \<open>A pointer is an entry below \<open>n\<close> with a property, or NULL when there is none.\<close>

definition points :: "nat option \<Rightarrow> nat \<Rightarrow> (nat \<Rightarrow> bool) \<Rightarrow> bool" where
  "points p n P = (case p of Some i \<Rightarrow> i < n \<and> P i | None \<Rightarrow> \<forall>i < n. \<not> P i)"

definition scan_ok :: "DHCP_CLIENT list \<Rightarrow> bytes \<Rightarrow> u32 \<Rightarrow> nat \<Rightarrow> lookup \<Rightarrow> bool" where
  "scan_ok cs mac req n l \<longleftrightarrow>
     points (pMyClient l) n (\<lambda>i. active (cs ! i) \<and> MacAddr (cs ! i) = mac) \<and>
     points (pReqClient l) n (\<lambda>i. \<not> active (cs ! i) \<and> IpAddr (cs ! i) = req) \<and>
     points (pMyHistoryClient l) n (\<lambda>i. \<not> active (cs ! i) \<and> MacAddr (cs ! i) = mac) \<and>
     points (pFreeClient l) n (\<lambda>i. \<not> active (cs ! i) \<and> MacAddr (cs ! i) = zero_mac) \<and>
     points (pHistoryClient l) n (\<lambda>i. \<not> active (cs ! i) \<and> MacAddr (cs ! i) \<noteq> zero_mac) \<and>
     (IpUnavailable l \<longleftrightarrow> (\<exists>i < n. active (cs ! i) \<and> MacAddr (cs ! i) \<noteq> mac \<and> IpAddr (cs ! i) = req))"

lemma points_first: "points p n P \<Longrightarrow> b = P n \<Longrightarrow> points (first_idx p b n) (Suc n) P"
  by (auto simp: points_def first_idx_def less_Suc_eq split: option.splits)

lemma points_keep: "points p n P \<Longrightarrow> \<not> P n \<Longrightarrow> points p (Suc n) P"
  by (auto simp: points_def less_Suc_eq split: option.splits)

lemma points_set: "P n \<Longrightarrow> points (Some n) (Suc n) P"
  by (simp add: points_def)

lemma points_simps:
  "points (Some i) n P \<longleftrightarrow> i < n \<and> P i" "points None n P \<longleftrightarrow> (\<forall>i < n. \<not> P i)"
  by (simp_all add: points_def)

lemma lookup_step_ok:
  assumes l: "scan_ok cs mac req n l"
  shows "scan_ok cs mac req (Suc n) (lookup_step cs mac req l n)"
proof (cases "State (cs ! n) = DHCP_CLIENT_STATE_IDLE")
  case True
  then have "lookup_step cs mac req l n =
      l\<lparr>pMyHistoryClient := first_idx (pMyHistoryClient l) (MacAddr (cs ! n) = mac) n,
          pReqClient := first_idx (pReqClient l) (IpAddr (cs ! n) = req) n,
          pFreeClient := first_idx (pFreeClient l) (MacAddr (cs ! n) = zero_mac) n,
          pHistoryClient := first_idx (pHistoryClient l) (MacAddr (cs ! n) \<noteq> zero_mac) n\<rparr>"
    by (simp add: lookup_step_def Let_def)
  with True l show ?thesis
    unfolding scan_ok_def by (simp add: points_first points_keep less_Suc_eq) blast
next
  case False
  with l show ?thesis
    unfolding scan_ok_def
    by (cases "MacAddr (cs ! n) = mac"; cases "IpAddr (cs ! n) = req")
      (simp_all add: lookup_step_def points_keep points_set less_Suc_eq, blast+)
qed

lemma lookup_scan_ok: "scan_ok cs mac req n (lookup_scan cs mac req n)"
proof (induction n)
  case 0
  show ?case by (simp add: scan_ok_def lookup_scan_def points_simps)
next
  case (Suc n)
  then show ?case using lookup_step_ok by (simp add: lookup_scan_def)
qed

section \<open>What a lookup changes\<close>

lemma upd_client_simps [simp]:
  "length (upd_client i f cs) = length cs"
  "j < length cs \<Longrightarrow> upd_client i f cs ! j = (if j = i then f (cs ! j) else cs ! j)"
  by (auto simp: upd_client_def nth_list_update)

text \<open>No client has two active entries.\<close>

definition uniq_macs :: "DHCP_CLIENT list \<Rightarrow> bool" where
  "uniq_macs cs \<longleftrightarrow> (\<forall>i < length cs. \<forall>j < length cs.
     active (cs ! i) \<and> active (cs ! j) \<and> MacAddr (cs ! i) = MacAddr (cs ! j) \<longrightarrow> i = j)"

text \<open>The effect of a lookup for \<open>mac\<close> on the table: addresses stay, active entries of other clients are
  untouched, nothing becomes active, and the returned entry is idle or the client's own, with no
  other active entry of that client.\<close>

definition lookup_post :: "bytes \<Rightarrow> DHCP_CLIENT list \<Rightarrow> nat option \<Rightarrow> DHCP_CLIENT list \<Rightarrow> bool" where
  "lookup_post mac cs ret cs' \<longleftrightarrow>
     length cs' = length cs \<and>
     (\<forall>j < length cs. IpAddr (cs' ! j) = IpAddr (cs ! j) \<and>
        (active (cs ! j) \<and> MacAddr (cs ! j) \<noteq> mac \<longrightarrow> cs' ! j = cs ! j) \<and>
        (active (cs' ! j) \<longrightarrow> cs' ! j = cs ! j) \<and>
        (MacAddr (cs' ! j) = MacAddr (cs ! j) \<or> MacAddr (cs' ! j) = zero_mac)) \<and>
     (\<forall>i. ret = Some i \<longrightarrow> i < length cs \<and> (active (cs ! i) \<longrightarrow> MacAddr (cs ! i) = mac) \<and>
        (\<forall>j < length cs. j \<noteq> i \<and> active (cs' ! j) \<longrightarrow> MacAddr (cs' ! j) \<noteq> mac))"

lemma drop_client_nth:
  "j < length cs \<Longrightarrow> drop_client i cs ! j =
     (if j = i then (if State (cs ! i) \<noteq> DHCP_CLIENT_STATE_BIND then (cs ! i)\<lparr>MacAddr := zero_mac\<rparr> else cs ! i)
       \<lparr>State := DHCP_CLIENT_STATE_IDLE\<rparr> else cs ! j)"
  "length (drop_client i cs) = length cs"
  by (simp_all add: drop_client_def)

lemma uniq_my:
  "uniq_macs cs \<Longrightarrow> i < length cs \<Longrightarrow> active (cs ! i) \<Longrightarrow> j < length cs \<Longrightarrow> j \<noteq> i \<Longrightarrow>
     active (cs ! j) \<Longrightarrow> MacAddr (cs ! j) \<noteq> MacAddr (cs ! i)"
  by (auto simp: uniq_macs_def)

lemma post_same:
  "(\<And>i. ret = Some i \<Longrightarrow> i < length cs \<and> (active (cs ! i) \<longrightarrow> MacAddr (cs ! i) = mac) \<and>
      (\<forall>j < length cs. j \<noteq> i \<and> active (cs ! j) \<longrightarrow> MacAddr (cs ! j) \<noteq> mac)) \<Longrightarrow>
   lookup_post mac cs ret cs"
  by (simp add: lookup_post_def)

lemma post_drop:
  assumes "my < length cs" "MacAddr (cs ! my) = mac" "active (cs ! my)" "uniq_macs cs"
    "\<And>i. ret = Some i \<Longrightarrow> i < length cs \<and> (active (cs ! i) \<longrightarrow> MacAddr (cs ! i) = mac)"
    "cs' ! my = c'" "\<not> active c'" "IpAddr c' = IpAddr (cs ! my)"
    "MacAddr c' = MacAddr (cs ! my) \<or> MacAddr c' = zero_mac"
    "length cs' = length cs" "\<And>j. j < length cs \<Longrightarrow> j \<noteq> my \<Longrightarrow> cs' ! j = cs ! j"
  shows "lookup_post mac cs ret cs'"
proof -
  have nth: "cs' ! j = (if j = my then c' else cs ! j)" if "j < length cs" for j using assms that by auto
  show ?thesis
    unfolding lookup_post_def
  proof (intro conjI allI impI)
    fix i assume "ret = Some i"
    then show "i < length cs" "active (cs ! i) \<Longrightarrow> MacAddr (cs ! i) = mac" using assms(5) by auto
  next
    fix i j assume "j < length cs" "j \<noteq> i \<and> active (cs' ! j)"
    then show "MacAddr (cs' ! j) \<noteq> mac"
      using nth [of j] uniq_my [OF assms(4,1,3), of j] assms(2,7) by (auto split: if_splits)
  qed (use assms(1-3,7-10) nth in \<open>auto split: if_splits\<close>)
qed

lemma discover_post:
  assumes l: "scan_ok cs mac req (length cs) l" and u: "uniq_macs cs"
    and r: "lookup_discover l cs = (ret, cs')"
  shows "lookup_post mac cs ret cs'"
proof (cases "pMyClient l")
  case None
  then have my: "\<forall>i < length cs. active (cs ! i) \<longrightarrow> MacAddr (cs ! i) \<noteq> mac"
    and req: "\<And>i. pReqClient l = Some i \<Longrightarrow> i < length cs \<and> \<not> active (cs ! i)"
    and mh: "\<And>i. pMyHistoryClient l = Some i \<Longrightarrow> i < length cs \<and> \<not> active (cs ! i)"
    and fr: "\<And>i. pFreeClient l = Some i \<Longrightarrow> i < length cs \<and> \<not> active (cs ! i)"
    and hi: "\<And>i. pHistoryClient l = Some i \<Longrightarrow> i < length cs \<and> \<not> active (cs ! i)"
    using l by (auto simp: scan_ok_def points_simps)
  have "cs' = cs" and "\<And>i. ret = Some i \<Longrightarrow> i < length cs \<and> \<not> active (cs ! i)"
    using r None req mh fr hi by (auto simp: lookup_discover_def split: option.splits)
  then show ?thesis using my by (auto intro!: post_same)
next
  case (Some my)
  then have my: "my < length cs" "MacAddr (cs ! my) = mac" "active (cs ! my)"
    and req: "\<And>i. pReqClient l = Some i \<Longrightarrow> i < length cs \<and> \<not> active (cs ! i)"
    using l by (auto simp: scan_ok_def points_simps)
  show ?thesis
  proof (rule post_drop [OF my u])
    show "cs' ! my = cs' ! my" ..
  qed (use r Some my req in \<open>auto simp: lookup_discover_def Let_def split: option.splits if_splits\<close>)
qed

lemma request_post:
  assumes l: "scan_ok cs mac req (length cs) l" and u: "uniq_macs cs"
    and r: "lookup_request server sid l cs = (ret, cs')"
  shows "lookup_post mac cs ret cs'"
proof (cases "pMyClient l")
  case None
  then have my: "\<forall>i < length cs. active (cs ! i) \<longrightarrow> MacAddr (cs ! i) \<noteq> mac"
    and req: "\<And>i. pReqClient l = Some i \<Longrightarrow> i < length cs \<and> \<not> active (cs ! i)"
    using l by (auto simp: scan_ok_def points_simps)
  have "cs' = cs" and "\<And>i. ret = Some i \<Longrightarrow> i < length cs \<and> \<not> active (cs ! i)"
    using r None req by (auto simp: lookup_request_def split: option.splits if_splits)
  then show ?thesis using my by (auto intro!: post_same)
next
  case (Some my)
  then have my: "my < length cs" "MacAddr (cs ! my) = mac" "active (cs ! my)"
    and req: "\<And>i. pReqClient l = Some i \<Longrightarrow> i < length cs \<and> \<not> active (cs ! i)"
    using l by (auto simp: scan_ok_def points_simps)
  consider "cs' = drop_client my cs" "ret = None \<or> ret = pReqClient l"
    | "cs' = cs" "ret = None \<or> ret = Some my"
    using r Some by (auto simp: lookup_request_def split: option.splits if_splits)
  then show ?thesis
  proof cases
    case 1
    show ?thesis
    proof (rule post_drop [OF my u])
      show "cs' ! my = cs' ! my" ..
    qed (use 1 my req in \<open>auto simp: drop_client_nth\<close>)
  next
    case 2
    show ?thesis
      unfolding 2(1) by (rule post_same) (use 2(2) my uniq_my [OF u my(1,3)] in auto)
  qed
qed

lemma release_post:
  assumes l: "scan_ok cs mac req (length cs) l" and u: "uniq_macs cs"
    and r: "lookup_release l cs = (ret, cs')"
  shows "lookup_post mac cs ret cs'"
proof (cases "pMyClient l")
  case None
  then show ?thesis using r by (auto simp: lookup_release_def intro!: post_same)
next
  case (Some my)
  then have my: "my < length cs" "MacAddr (cs ! my) = mac" "active (cs ! my)"
    using l by (auto simp: scan_ok_def points_simps)
  show ?thesis
  proof (rule post_drop [OF my u])
    show "cs' ! my = cs' ! my" ..
  qed (use r Some my in \<open>auto simp: lookup_release_def drop_client_nth\<close>)
qed

text \<open>The table of a server: eight entries, no client with two active entries, and \<^verbatim>\<open>SELECT\<close> never left
  between messages.\<close>

definition dhcp_inv :: "DHCP_SERVER \<Rightarrow> bool" where
  "dhcp_inv srv \<longleftrightarrow> length (Clients srv) = DHCPS_HISTORY_CLIENT_NUM \<and> uniq_macs (Clients srv) \<and>
     (\<forall>c \<in> set (Clients srv). State c \<noteq> DHCP_CLIENT_STATE_SELECT) \<and>
     length (DhcpMsg srv) = DHCP_MSG_SIZE"

text \<open>What handling a message from \<open>mac\<close> may do to the table.\<close>

definition table_frame :: "bytes \<Rightarrow> DHCP_CLIENT list \<Rightarrow> DHCP_CLIENT list \<Rightarrow> bool" where
  "table_frame mac cs cs' \<longleftrightarrow> length cs' = length cs \<and>
     (\<forall>j < length cs. IpAddr (cs' ! j) = IpAddr (cs ! j) \<and>
        (active (cs ! j) \<and> MacAddr (cs ! j) \<noteq> mac \<longrightarrow> cs' ! j = cs ! j) \<and>
        (active (cs' ! j) \<longrightarrow> cs' ! j = cs ! j \<or> MacAddr (cs' ! j) = mac))"

lemma Lookup_post:
  assumes inv: "dhcp_inv srv" and r: "ClientTableLookup mac ty req sid srv = (ret, srv')"
  obtains cs1 where "lookup_post mac (Clients srv) ret cs1"
    "srv' = srv\<lparr>Clients := (case ret of Some i \<Rightarrow> upd_client i (\<lambda>c. c\<lparr>MacAddr := mac\<rparr>) cs1 | None \<Rightarrow> cs1)\<rparr>"
proof -
  define cs where "cs = Clients srv"
  define l where "l = lookup_scan cs mac req DHCPS_HISTORY_CLIENT_NUM"
  have u: "uniq_macs cs" and len: "length cs = DHCPS_HISTORY_CLIENT_NUM" using inv by (auto simp: dhcp_inv_def cs_def)
  have l: "scan_ok cs mac req (length cs) l" using lookup_scan_ok by (simp add: l_def len)
  obtain ret0 cs1 where s: "(if ty = DHCP_MSG_DISCOVER then lookup_discover l cs
             else if ty = DHCP_MSG_REQUEST then lookup_request (ServerIpAddr srv) sid l cs
             else if ty = DHCP_MSG_RELEASE then lookup_release l cs
             else if ty = DHCP_MSG_DECLINE then lookup_release l cs
             else (None, cs)) = (ret0, cs1)" by fastforce
  have "lookup_post mac cs ret0 cs1"
    using s discover_post [OF l u] request_post [OF l u] release_post [OF l u]
    by (auto split: if_splits intro: post_same)
  moreover have "ret0 = ret" "srv' = srv\<lparr>Clients := (case ret of Some i \<Rightarrow> upd_client i (\<lambda>c. c\<lparr>MacAddr := mac\<rparr>) cs1 | None \<Rightarrow> cs1)\<rparr>"
    using r unfolding ClientTableLookup_def Let_def cs_def [symmetric] l_def [symmetric] s by auto
  ultimately show thesis using that by (simp add: cs_def)
qed

lemma same_mac: "MacAddr c = mac \<Longrightarrow> c\<lparr>MacAddr := mac\<rparr> = c"
  by (cases c) auto

lemma Lookup_frame:
  assumes inv: "dhcp_inv srv" and r: "ClientTableLookup mac ty req sid srv = (ret, srv')"
  shows "table_frame mac (Clients srv) (Clients srv')" "dhcp_inv srv'"
    "ret = Some i \<Longrightarrow> i < DHCPS_HISTORY_CLIENT_NUM \<and> MacAddr (Clients srv' ! i) = mac \<and>
       (\<forall>j < DHCPS_HISTORY_CLIENT_NUM. j \<noteq> i \<and> active (Clients srv' ! j) \<longrightarrow> MacAddr (Clients srv' ! j) \<noteq> mac)"
    "srv' = srv\<lparr>Clients := Clients srv'\<rparr>"
    "active (Clients srv' ! j) \<Longrightarrow> j < DHCPS_HISTORY_CLIENT_NUM \<Longrightarrow> Clients srv' ! j = Clients srv ! j"
proof -
  obtain cs1 where post: "lookup_post mac (Clients srv) ret cs1" and s: "srv' = srv\<lparr>Clients :=
      (case ret of Some i \<Rightarrow> upd_client i (\<lambda>c. c\<lparr>MacAddr := mac\<rparr>) cs1 | None \<Rightarrow> cs1)\<rparr>"
    by (rule Lookup_post [OF inv r])
  have len: "length (Clients srv) = DHCPS_HISTORY_CLIENT_NUM" "length cs1 = DHCPS_HISTORY_CLIENT_NUM"
    using inv post by (auto simp: dhcp_inv_def lookup_post_def)
  have nth: "Clients srv' ! j = (if ret = Some j then (cs1 ! j)\<lparr>MacAddr := mac\<rparr> else cs1 ! j)"
    if "j < DHCPS_HISTORY_CLIENT_NUM" for j
    using that len by (auto simp: s split: option.splits)
  have len': "length (Clients srv') = DHCPS_HISTORY_CLIENT_NUM" using len by (simp add: s split: option.splits)
  have P: "IpAddr (cs1 ! j) = IpAddr (Clients srv ! j)"
    "active (Clients srv ! j) \<Longrightarrow> MacAddr (Clients srv ! j) \<noteq> mac \<Longrightarrow> cs1 ! j = Clients srv ! j"
    "active (cs1 ! j) \<Longrightarrow> cs1 ! j = Clients srv ! j"
    "ret = Some j \<Longrightarrow> active (Clients srv ! j) \<Longrightarrow> MacAddr (Clients srv ! j) = mac"
    if "j < DHCPS_HISTORY_CLIENT_NUM" for j
    using post that unfolding lookup_post_def len(1) by blast+
  show act: "active (Clients srv' ! j) \<Longrightarrow> j < DHCPS_HISTORY_CLIENT_NUM \<Longrightarrow> Clients srv' ! j = Clients srv ! j" for j
  proof -
    assume a: "active (Clients srv' ! j)" and j: "j < DHCPS_HISTORY_CLIENT_NUM"
    have "active (cs1 ! j)" using a nth [OF j] by (simp split: if_splits)
    with P(3) [OF j] have c: "cs1 ! j = Clients srv ! j" by simp
    with \<open>active (cs1 ! j)\<close> have "ret = Some j \<Longrightarrow> MacAddr (cs1 ! j) = mac" using P(4) [OF j] by simp
    then show ?thesis using nth [OF j] c by (simp add: same_mac)
  qed
  have "Clients srv' ! j = Clients srv ! j" if "active (Clients srv ! j)" "MacAddr (Clients srv ! j) \<noteq> mac"
    "j < DHCPS_HISTORY_CLIENT_NUM" for j
    using P(2,4) [OF that(3)] nth [OF that(3)] that by auto
  moreover have "IpAddr (Clients srv' ! j) = IpAddr (Clients srv ! j)" if "j < DHCPS_HISTORY_CLIENT_NUM" for j
    using P(1) [OF that] nth [OF that] by simp
  ultimately show "table_frame mac (Clients srv) (Clients srv')"
    unfolding table_frame_def len(1) len' using act by blast
  show "srv' = srv\<lparr>Clients := Clients srv'\<rparr>" by (simp add: s)
  show "ret = Some i \<Longrightarrow> i < DHCPS_HISTORY_CLIENT_NUM \<and> MacAddr (Clients srv' ! i) = mac \<and>
       (\<forall>j < DHCPS_HISTORY_CLIENT_NUM. j \<noteq> i \<and> active (Clients srv' ! j) \<longrightarrow> MacAddr (Clients srv' ! j) \<noteq> mac)"
  proof -
    assume ret: "ret = Some i"
    then have i: "i < DHCPS_HISTORY_CLIENT_NUM" and
        o: "\<forall>j < DHCPS_HISTORY_CLIENT_NUM. j \<noteq> i \<and> active (cs1 ! j) \<longrightarrow> MacAddr (cs1 ! j) \<noteq> mac"
      using post unfolding lookup_post_def len(1) by blast+
    have "Clients srv' ! j = cs1 ! j" if "j < DHCPS_HISTORY_CLIENT_NUM" "j \<noteq> i" for j
      using nth [OF that(1)] that(2) ret by simp
    with i o show ?thesis using nth [OF i] ret by auto
  qed
  have "uniq_macs (Clients srv')"
    unfolding uniq_macs_def
  proof (intro allI impI, elim conjE)
    fix i j assume "i < length (Clients srv')" "j < length (Clients srv')" "active (Clients srv' ! i)"
      "active (Clients srv' ! j)" "MacAddr (Clients srv' ! i) = MacAddr (Clients srv' ! j)"
    moreover from this have "Clients srv' ! i = Clients srv ! i" "Clients srv' ! j = Clients srv ! j"
      using act len' by auto
    ultimately show "i = j" using inv len len' unfolding dhcp_inv_def uniq_macs_def by auto
  qed
  moreover have "State (Clients srv' ! j) \<noteq> DHCP_CLIENT_STATE_SELECT" if "j < DHCPS_HISTORY_CLIENT_NUM" for j
  proof
    assume sel: "State (Clients srv' ! j) = DHCP_CLIENT_STATE_SELECT"
    then have "Clients srv' ! j = Clients srv ! j" using act that by simp
    with sel that len inv show False by (auto simp: dhcp_inv_def)
  qed
  moreover have "DhcpMsg srv' = DhcpMsg srv" by (simp add: s)
  ultimately show "dhcp_inv srv'"
    using inv len' unfolding dhcp_inv_def by (auto simp: in_set_conv_nth)
qed

section \<open>The state machine\<close>

lemma send_reply_fields [simp]:
  "Clients (send_reply ok h ops srv) = Clients srv" "ServerIpAddr (send_reply ok h ops srv) = ServerIpAddr srv"
  "Enable (send_reply ok h ops srv) = Enable srv"
  by (simp_all add: send_reply_def Let_def)

lemma put_length [simp]: "p + length xs \<le> length b \<Longrightarrow> length (put p xs b) = length b"
  by (simp add: put_def)

lemma reply_header_length [simp]: "length (reply_header xid yi si mac) = DHCP_MSG_SIZE"
  by (simp add: reply_header_def DHCP_MSG_SIZE_def)

lemma send_reply_msg:
  "length (DhcpMsg srv) = DHCP_MSG_SIZE \<Longrightarrow> length ops \<le> 308 \<Longrightarrow>
     length (DhcpMsg (send_reply ok (reply_header xid yi si mac) ops srv)) = DHCP_MSG_SIZE"
  by (simp add: send_reply_def Let_def DHCP_MSG_SIZE_def reply_header_length [unfolded DHCP_MSG_SIZE_def])

lemma reply_options_length [simp]: "length (reply_options ty srv) = 34"
  by (simp add: reply_options_def DHCP_SET_OPTION_MSG_TYPE_def DHCP_SET_OPTION_LEASE_TIME_def
      DHCP_SET_OPTION_SERVER_ID_def DHCP_SET_OPTION_SUBNET_MASK_def DHCP_SET_OPTION_GW_def
      DHCP_SET_OPTION_DNS_def DHCP_SET_OPTION_END_def set_opt4_def)

text \<open>Activating an entry that already carries its MAC address, and clearing idle entries, keeps the
  table rules.\<close>

lemma uniq_activate:
  assumes "uniq_macs cs" "i < length cs" "MacAddr c' = mac"
    "\<forall>j < length cs. j \<noteq> i \<and> active (cs ! j) \<longrightarrow> MacAddr (cs ! j) \<noteq> mac"
  shows "uniq_macs (cs[i := c'])"
  unfolding uniq_macs_def
proof (intro allI impI, elim conjE)
  fix a b
  assume "a < length (cs[i := c'])" "b < length (cs[i := c'])" "active (cs[i := c'] ! a)"
    "active (cs[i := c'] ! b)" "MacAddr (cs[i := c'] ! a) = MacAddr (cs[i := c'] ! b)"
  then show "a = b"
    using assms unfolding uniq_macs_def by (cases "a = i"; cases "b = i") auto
qed

lemma uniq_clean:
  "uniq_macs (map (\<lambda>c. if State c = DHCP_CLIENT_STATE_IDLE \<and> MacAddr c = m then c\<lparr>MacAddr := z\<rparr> else c) cs)
     = uniq_macs cs"
  by (auto simp: uniq_macs_def)

definition activated :: "nat \<Rightarrow> DHCP_CLIENT_STATE \<Rightarrow> DHCP_SERVER \<Rightarrow> DHCP_SERVER \<Rightarrow> bool" where
  "activated i stt srv srv' \<longleftrightarrow>
     length (Clients srv') = length (Clients srv) \<and>
     State (Clients srv' ! i) = stt \<and> MacAddr (Clients srv' ! i) = MacAddr (Clients srv ! i) \<and>
     IpAddr (Clients srv' ! i) = IpAddr (Clients srv ! i) \<and>
     (\<forall>j < length (Clients srv). j \<noteq> i \<longrightarrow>
        IpAddr (Clients srv' ! j) = IpAddr (Clients srv ! j) \<and>
        State (Clients srv' ! j) = State (Clients srv ! j) \<and>
        (active (Clients srv ! j) \<longrightarrow> Clients srv' ! j = Clients srv ! j)) \<and>
     length (DhcpMsg srv') = DHCP_MSG_SIZE"

lemma sme_ack_activated:
  "i < length (Clients srv) \<Longrightarrow> length (DhcpMsg srv) = DHCP_MSG_SIZE \<Longrightarrow>
     activated i DHCP_CLIENT_STATE_BIND srv (sme_ack ok i xid srv)"
  by (auto simp: activated_def sme_ack_def Let_def DHCPAckGenAndSend_def CleanClientHistory_def
      set_client_def send_reply_msg)

lemma sme_offer_activated:
  "i < length (Clients srv) \<Longrightarrow> length (DhcpMsg srv) = DHCP_MSG_SIZE \<Longrightarrow>
     activated i DHCP_CLIENT_STATE_REQUEST srv (sme_offer ok i xid srv)"
  by (auto simp: activated_def sme_offer_def DHCPOfferGenAndSend_def set_client_def send_reply_msg)

lemma activated_pre:
  "activated i s (set_client i f srv) srv' \<Longrightarrow> i < length (Clients srv) \<Longrightarrow>
   MacAddr (f (Clients srv ! i)) = MacAddr (Clients srv ! i) \<Longrightarrow>
   IpAddr (f (Clients srv ! i)) = IpAddr (Clients srv ! i) \<Longrightarrow> activated i s srv srv'"
  by (auto simp: activated_def set_client_def)

lemma SMEHandle_activated:
  assumes "i < length (Clients srv)" "length (DhcpMsg srv) = DHCP_MSG_SIZE"
  shows "\<exists>s \<in> {DHCP_CLIENT_STATE_REQUEST, DHCP_CLIENT_STATE_BIND}.
    activated i s srv (DhcpClientSMEHandle ok i ty xid srv)"
proof -
  let ?srv = "set_client i (\<lambda>c. c\<lparr>State := DHCP_CLIENT_STATE_SELECT\<rparr>) srv"
  have "activated i DHCP_CLIENT_STATE_REQUEST ?srv (sme_offer ok i xid ?srv)"
    using assms by (intro sme_offer_activated) (simp_all add: set_client_def)
  from activated_pre [OF this assms(1)]
  have "activated i DHCP_CLIENT_STATE_REQUEST srv (sme_offer ok i xid ?srv)" by simp
  then show ?thesis
    using sme_ack_activated [OF assms] sme_offer_activated [OF assms]
    by (simp add: DhcpClientSMEHandle_def split: DHCP_CLIENT_STATE.split)
qed

lemma activated_inv:
  assumes inv: "dhcp_inv srv" and i: "i < DHCPS_HISTORY_CLIENT_NUM"
    and o: "\<forall>j < DHCPS_HISTORY_CLIENT_NUM. j \<noteq> i \<and> active (Clients srv ! j) \<longrightarrow>
        MacAddr (Clients srv ! j) \<noteq> MacAddr (Clients srv ! i)"
    and a: "activated i s srv srv'" and s: "s \<in> {DHCP_CLIENT_STATE_REQUEST, DHCP_CLIENT_STATE_BIND}"
  shows "dhcp_inv srv'"
proof -
  have len: "length (Clients srv) = DHCPS_HISTORY_CLIENT_NUM" "length (Clients srv') = DHCPS_HISTORY_CLIENT_NUM"
    using inv a by (auto simp: dhcp_inv_def activated_def)
  have sel: "State (Clients srv ! j) \<noteq> DHCP_CLIENT_STATE_SELECT" if "j < DHCPS_HISTORY_CLIENT_NUM" for j
    using inv that len(1) nth_mem unfolding dhcp_inv_def by metis
  have oth: "active (Clients srv ! j) \<and> Clients srv' ! j = Clients srv ! j"
    if "j < DHCPS_HISTORY_CLIENT_NUM" "j \<noteq> i" "active (Clients srv' ! j)" for j
    using a that len unfolding activated_def by auto
  have my: "MacAddr (Clients srv' ! i) = MacAddr (Clients srv ! i)" "State (Clients srv' ! i) = s"
    using a by (auto simp: activated_def)
  have "uniq_macs (Clients srv')"
    unfolding uniq_macs_def len
  proof (intro allI impI, elim conjE)
    fix x y assume xy: "x < DHCPS_HISTORY_CLIENT_NUM" "y < DHCPS_HISTORY_CLIENT_NUM"
      "active (Clients srv' ! x)" "active (Clients srv' ! y)"
      "MacAddr (Clients srv' ! x) = MacAddr (Clients srv' ! y)"
    show "x = y"
    proof (cases "x = i \<or> y = i")
      case True
      with xy oth [of x] oth [of y] o my show ?thesis by metis
    next
      case False
      with xy oth [of x] oth [of y] inv len show ?thesis
        unfolding dhcp_inv_def uniq_macs_def by metis
    qed
  qed
  moreover have "State (Clients srv' ! j) \<noteq> DHCP_CLIENT_STATE_SELECT" if "j < DHCPS_HISTORY_CLIENT_NUM" for j
    using a that sel s my(2) len(1) unfolding activated_def by (cases "j = i") auto
  moreover have "length (DhcpMsg srv') = DHCP_MSG_SIZE" using a by (simp add: activated_def)
  ultimately show ?thesis using len by (auto simp: dhcp_inv_def in_set_conv_nth)
qed

section \<open>Messages, ticks and deletion\<close>

lemma table_frame_activated:
  assumes f: "table_frame mac cs (Clients srv)" and a: "activated i s srv srv'"
    and m: "MacAddr (Clients srv ! i) = mac" and len: "length cs = length (Clients srv)" "i < length cs"
    and keep: "\<And>j. j < length cs \<Longrightarrow> active (Clients srv ! j) \<Longrightarrow> Clients srv ! j = cs ! j"
    and own: "active (cs ! i) \<Longrightarrow> MacAddr (cs ! i) = mac"
  shows "table_frame mac cs (Clients srv')"
  unfolding table_frame_def
proof (intro conjI allI impI)
  show "length (Clients srv') = length cs" using a len by (simp add: activated_def)
next
  fix j assume j: "j < length cs"
  have F: "IpAddr (Clients srv ! j) = IpAddr (cs ! j)"
    "active (cs ! j) \<and> MacAddr (cs ! j) \<noteq> mac \<Longrightarrow> Clients srv ! j = cs ! j"
    using f j unfolding table_frame_def by blast+
  have A: "j \<noteq> i \<Longrightarrow> IpAddr (Clients srv' ! j) = IpAddr (Clients srv ! j)"
    "j \<noteq> i \<Longrightarrow> State (Clients srv' ! j) = State (Clients srv ! j)"
    "j \<noteq> i \<Longrightarrow> active (Clients srv ! j) \<Longrightarrow> Clients srv' ! j = Clients srv ! j"
    "IpAddr (Clients srv' ! i) = IpAddr (Clients srv ! i)" "MacAddr (Clients srv' ! i) = mac"
    using a j len(1) m unfolding activated_def by auto
  show "IpAddr (Clients srv' ! j) = IpAddr (cs ! j)" using A F by (cases "j = i") auto
  show "Clients srv' ! j = cs ! j" if "active (cs ! j) \<and> MacAddr (cs ! j) \<noteq> mac"
  proof -
    have "j \<noteq> i" using that own by auto
    with F(2) [OF that] A(3) that show ?thesis by auto
  qed
  show "Clients srv' ! j = cs ! j \<or> MacAddr (Clients srv' ! j) = mac" if "active (Clients srv' ! j)"
    using that A keep [OF j] by (cases "j = i") auto
qed

text \<open>A lookup result goes to the state machine, or a refusal is sent.\<close>

lemma process_frame:
  assumes inv: "dhcp_inv srv" and r: "ClientTableLookup mac ty req sid srv = (cl, srv1)"
    and s: "srv' = (case cl of
        None \<Rightarrow> if ty \<noteq> DHCP_MSG_RELEASE \<and> ty \<noteq> DHCP_MSG_DECLINE then DHCPNakGenAndSend ok mac xid srv1 else srv1
      | Some i \<Rightarrow> DhcpClientSMEHandle ok i ty xid srv1)"
  shows "dhcp_inv srv' \<and> table_frame mac (Clients srv) (Clients srv')"
proof -
  note L = Lookup_frame [OF inv r]
  have len: "length (Clients srv) = DHCPS_HISTORY_CLIENT_NUM" "length (Clients srv1) = DHCPS_HISTORY_CLIENT_NUM"
    "length (DhcpMsg srv1) = DHCP_MSG_SIZE"
    using inv L(2) by (auto simp: dhcp_inv_def)
  show ?thesis
  proof (cases cl)
    case None
    have nak: "Clients (DHCPNakGenAndSend ok mac xid srv1) = Clients srv1"
      "length (DhcpMsg (DHCPNakGenAndSend ok mac xid srv1)) = DHCP_MSG_SIZE"
      using len(3) by (simp_all add: DHCPNakGenAndSend_def send_reply_msg DHCP_SET_OPTION_MSG_TYPE_def
          DHCP_SET_OPTION_END_def)
    then show ?thesis using None s L(1,2) by (simp add: dhcp_inv_def)
  next
    case (Some i)
    note I = L(3) [OF Some]
    obtain t where t: "t \<in> {DHCP_CLIENT_STATE_REQUEST, DHCP_CLIENT_STATE_BIND}" "activated i t srv1 srv'"
      using SMEHandle_activated [of i srv1 ok ty xid] I len s Some by auto
    have "dhcp_inv srv'"
      by (rule activated_inv [OF L(2) _ _ t(2,1)]) (use I in auto)
    moreover have "table_frame mac (Clients srv) (Clients srv')"
    proof (rule table_frame_activated [OF L(1) t(2)])
      show "active (Clients srv ! i) \<Longrightarrow> MacAddr (Clients srv ! i) = mac"
        using L(1) I len unfolding table_frame_def by (metis (full_types))
    qed (use I len L(5) in auto)
    ultimately show ?thesis ..
  qed
qed

definition msg_from :: "bytes \<Rightarrow> DHCP_SERVER \<Rightarrow> bytes" where
  "msg_from P srv = msg_Chaddr6 (put 0 (take DHCP_MSG_SIZE P) (DhcpMsg srv))"

lemma table_frame_refl: "table_frame mac cs cs"
  by (simp add: table_frame_def)

lemma RecvCb_frame:
  assumes inv: "dhcp_inv srv"
  shows "dhcp_inv (DHCPS_RecvCb ok beyond P srv) \<and>
    table_frame (msg_from P srv) (Clients srv) (Clients (DHCPS_RecvCb ok beyond P srv))"
proof -
  define srv1 where "srv1 = srv\<lparr>DhcpMsg := put 0 (take DHCP_MSG_SIZE P) (DhcpMsg srv)\<rparr>"
  have inv1: "dhcp_inv srv1" and c: "Clients srv1 = Clients srv"
    using inv by (auto simp: dhcp_inv_def srv1_def)
  define r where "r = ParseDhcpOptions (DhcpMsg srv1) beyond 0xff 0 0"
  obtain cl srv2 where k: "ClientTableLookup (msg_from P srv) (pMsgType r) (pReqIpAddr r) (pServerId r) srv1 = (cl, srv2)"
    by fastforce
  have m: "msg_Chaddr6 (DhcpMsg srv1) = msg_from P srv" by (simp add: msg_from_def srv1_def)
  note pf = process_frame [OF inv1 k refl, where ok = ok and xid = "ntohl (msg_Xid (DhcpMsg srv1))"]
  show ?thesis
    unfolding DHCPS_RecvCb_def Let_def srv1_def [symmetric] r_def [symmetric] m k
    using pf inv1 c table_frame_refl by auto
qed

lemma tick_client_keeps:
  "IpAddr (tick_client ap c) = IpAddr c" "active (tick_client ap c) \<Longrightarrow> active c"
  "active (tick_client ap c) \<Longrightarrow> MacAddr (tick_client ap c) = MacAddr c"
  "active (tick_client ap c) \<Longrightarrow> State (tick_client ap c) = State c"
  by (auto simp: tick_client_def Let_def split: DHCP_CLIENT_STATE.splits if_splits)

lemma uniq_weaken:
  assumes "uniq_macs cs" "length cs' = length cs"
    "\<And>j. j < length cs \<Longrightarrow> active (cs' ! j) \<Longrightarrow> active (cs ! j) \<and> MacAddr (cs' ! j) = MacAddr (cs ! j)"
  shows "uniq_macs cs'"
  using assms unfolding uniq_macs_def by metis

lemma tick_inv: "dhcp_inv srv \<Longrightarrow> dhcp_inv (DhcpTickHandle ap srv)"
proof -
  assume inv: "dhcp_inv srv"
  have "uniq_macs (map (tick_client ap) (Clients srv))"
  proof (rule uniq_weaken)
    show "uniq_macs (Clients srv)" using inv by (simp add: dhcp_inv_def)
  qed (use tick_client_keeps(2,3) in simp_all)
  moreover have "State (tick_client ap c) \<noteq> DHCP_CLIENT_STATE_SELECT" if "c \<in> set (Clients srv)" for c
    using inv that tick_client_keeps(4) [of ap c] by (fastforce simp: dhcp_inv_def)
  ultimately show ?thesis using inv by (auto simp: dhcp_inv_def DhcpTickHandle_def)
qed

lemma delete_scan_keeps:
  "delete_scan mac cs = (e, cs') \<Longrightarrow> length cs' = length cs \<and>
     (\<forall>j < length cs. IpAddr (cs' ! j) = IpAddr (cs ! j) \<and> (active (cs' ! j) \<longrightarrow> cs' ! j = cs ! j))"
proof (induction cs arbitrary: e cs')
  case (Cons c cs)
  then show ?case
    by (auto simp: nth_Cons split: if_splits prod.splits nat.splits)
qed simp

lemma delete_inv:
  assumes inv: "dhcp_inv srv" and d: "DHCPS_ClientDelete m srv = (e, srv')"
  shows "dhcp_inv srv' \<and> map IpAddr (Clients srv') = map IpAddr (Clients srv)"
proof (cases "Enable srv \<and> m \<noteq> None")
  case True
  then obtain mac cs where m: "m = Some mac" and k: "delete_scan mac (Clients srv) = (e, cs)"
      and s: "srv' = srv\<lparr>Clients := cs\<rparr>"
    using d by (auto simp: DHCPS_ClientDelete_def split: prod.splits)
  note D = delete_scan_keeps [OF k]
  have u: "uniq_macs cs"
  proof (rule uniq_weaken)
    show "uniq_macs (Clients srv)" using inv by (simp add: dhcp_inv_def)
    show "length cs = length (Clients srv)" using D by blast
    show "active (Clients srv ! j) \<and> MacAddr (cs ! j) = MacAddr (Clients srv ! j)"
      if "j < length (Clients srv)" "active (cs ! j)" for j
      using D that by metis
  qed
  have "State (cs ! j) \<noteq> DHCP_CLIENT_STATE_SELECT" if j: "j < length (Clients srv)" for j
  proof
    assume sel: "State (cs ! j) = DHCP_CLIENT_STATE_SELECT"
    then have "active (cs ! j)" by simp
    then have "cs ! j = Clients srv ! j" using D j by blast
    with sel inv j nth_mem [OF j] show False unfolding dhcp_inv_def by metis
  qed
  then have "dhcp_inv srv'"
    using conjunct1 [OF D] u inv unfolding s dhcp_inv_def by (auto simp: in_set_conv_nth)
  moreover have "map IpAddr cs = map IpAddr (Clients srv)"
    by (rule nth_equalityI) (use D in auto)
  ultimately show ?thesis by (simp add: s)
next
  case False
  with d inv show ?thesis by (auto simp: DHCPS_ClientDelete_def split: option.splits if_splits)
qed

section \<open>Reachable servers\<close>

text \<open>Everything that can happen to a running server: a packet arrives (with or without memory for the
  reply), the second tick, a deletion by the application.\<close>

inductive dhcp_step :: "DHCP_SERVER \<Rightarrow> DHCP_SERVER \<Rightarrow> bool" where
  recv: "dhcp_step srv (DHCPS_RecvCb ok beyond P srv)"
| tick: "dhcp_step srv (DhcpTickHandle ap srv)"
| delete: "DHCPS_ClientDelete m srv = (e, srv') \<Longrightarrow> dhcp_step srv srv'"

lemma frame_ips: "table_frame mac cs cs' \<Longrightarrow> map IpAddr cs' = map IpAddr cs"
  by (auto simp: table_frame_def intro: nth_equalityI)

lemma dhcp_step_inv:
  "dhcp_step srv srv' \<Longrightarrow> dhcp_inv srv \<Longrightarrow> dhcp_inv srv' \<and> map IpAddr (Clients srv') = map IpAddr (Clients srv)"
proof (induction rule: dhcp_step.induct)
  case (recv srv ok beyond P)
  then show ?case using RecvCb_frame frame_ips by blast
next
  case (tick srv ap)
  then show ?case using tick_inv by (auto simp: DhcpTickHandle_def tick_client_keeps)
next
  case (delete m srv e srv')
  then show ?case using delete_inv by blast
qed

lemma dhcp_steps_inv:
  "dhcp_step\<^sup>*\<^sup>* srv srv' \<Longrightarrow> dhcp_inv srv \<Longrightarrow>
     dhcp_inv srv' \<and> map IpAddr (Clients srv') = map IpAddr (Clients srv)"
  by (induction rule: rtranclp_induct) (auto dest: dhcp_step_inv)

section \<open>The address pool\<close>

lemma Start_inv:
  assumes "DHCPS_Start up ip smask sock srv0 = Some (DHCPS_ERR_SUCCESS, srv)" "length (DhcpMsg srv0) = DHCP_MSG_SIZE"
  shows "dhcp_inv srv" "map IpAddr (Clients srv) = map (pool_addr (start_addr ip smask) smask) [0..<8]"
    "Enable srv" "ServerIpAddr srv = ip" "\<forall>c \<in> set (Clients srv). \<not> active c \<and> MacAddr c = zero_mac"
  using assms
  by (auto simp: DHCPS_Start_def Let_def dhcp_inv_def server0_def uniq_macs_def dhcp_consts
      DHCPS_ERR_SUCCESS_def DHCPS_ERR_LINKDOWN_def DHCPS_ERR_MEM_def split: if_splits)

lemma split_addr:
  fixes V M t :: u32
  assumes "t AND M = 0"
  shows "((V AND M) OR t) AND NOT M = t" "((V AND M) OR t) AND M = V AND M"
proof -
  have z: "\<not> (bit t n \<and> bit M n)" for n using assms by (metis bit_0_eq bit_and_iff bot_apply bot_bool_def)
  show "((V AND M) OR t) AND NOT M = t" "((V AND M) OR t) AND M = V AND M"
    using z by (auto intro!: bit_word_eqI simp: bit_simps)
qed

lemma mask_and:
  fixes M :: u32
  assumes "NOT M = mask k" "n < 2 ^ k" "k \<le> 32"
  shows "of_nat n AND M = 0"
proof -
  have M: "M = NOT (mask k)" using assms(1) by (metis bit.double_compl)
  show ?thesis
    unfolding M
  proof (rule bit_word_eqI)
    fix i assume "i < LENGTH(32)"
    have "\<not> (bit n i \<and> k \<le> i)"
      using assms(2) by (metis bit_take_bit_iff not_less take_bit_nat_eq_self)
    then show "bit ((of_nat n :: u32) AND NOT (mask k)) i = bit (0 :: u32) i"
      by (auto simp: bit_simps)
  qed
qed

lemma unat_mask32: "k \<le> 32 \<Longrightarrow> unat (mask k :: u32) = 2 ^ k - 1"
proof -
  assume k: "k \<le> 32"
  then have "(2::nat) ^ k \<le> 2 ^ 32" by (intro power_increasing) auto
  moreover have "0 < (2::nat) ^ k" by simp
  ultimately have "(mask k :: nat) < 2 ^ 32" unfolding mask_eq_exp_minus_1 by linarith
  then have "unat (of_nat (mask k) :: u32) = mask k" by (simp add: unat_of_nat)
  then show ?thesis by (simp add: of_nat_mask_eq mask_eq_exp_minus_1)
qed

lemma pool_host_small:
  fixes M :: u32
  assumes "NOT M = mask k" "k \<le> 32" "0 < n" "n < 2 ^ k - 1"
  shows "pool_host M (of_nat n) = of_nat n"
proof -
  have lt: "n < 2 ^ 32" using assms(2,4) power_increasing [of k 32 "2::nat"] by linarith
  then have u: "unat (of_nat n :: u32) = n" by (simp add: unat_of_nat)
  have "unat ((of_nat n :: u32) mod mask k) = n"
    using u assms(4) unat_mask32 [OF assms(2)] by (simp add: unat_mod)
  then have "(of_nat n :: u32) mod mask k = of_nat n" by (metis u word_unat_eq_iff)
  moreover have "(of_nat n :: u32) \<noteq> 0" using u assms(3) by (metis unat_0 less_irrefl)
  ultimately show ?thesis using assms(1) by (simp add: pool_host_def)
qed

lemma pool_addr_eq:
  assumes M: "NOT (ntohl smask) = mask k" and k: "k \<le> 32"
    and h: "h = unat (ntohl ip AND NOT (ntohl smask))" "h + 9 < 2 ^ k - 1" and i: "i < 8"
  shows "pool_addr (start_addr ip smask) smask i =
    htonl ((ntohl ip AND ntohl smask) OR of_nat (h + 1 + i))"
proof -
  define M' where "M' = ntohl smask"
  define V where "V = ntohl ip"
  have M': "NOT M' = mask k" and hV: "V AND NOT M' = of_nat h" using M h(1) by (simp_all add: M'_def V_def)
  have s1: "start_addr ip smask = htonl ((V AND M') OR of_nat (h + 1))"
    using pool_host_small [OF M' k, of "h + 1"] h(2) hV
    by (simp add: start_addr_def Let_def V_def [symmetric] M'_def [symmetric] add.commute)
  have z: "of_nat (h + 1) AND M' = 0" using mask_and [OF M' _ k, of "h + 1"] h(2) by simp
  have v: "ntohl (start_addr ip smask) = (V AND M') OR of_nat (h + 1)" by (simp add: s1)
  have "pool_host M' (of_nat (h + 1) + of_nat i) = of_nat (h + 1 + i)"
    using pool_host_small [OF M' k, of "h + 1 + i"] h(2) i by (simp add: add.assoc)
  then show ?thesis
    unfolding pool_addr_def Let_def v M'_def [symmetric] split_addr [OF z] V_def [symmetric] by simp
qed

lemma pool_addr_inject:
  assumes M: "NOT (ntohl smask) = mask k" and k: "k \<le> 32"
    and h: "h = unat (ntohl ip AND NOT (ntohl smask))" "h + 9 < 2 ^ k - 1" and n: "m \<le> 8" "n \<le> 8"
    and eq: "htonl ((ntohl ip AND ntohl smask) OR of_nat (h + m)) = htonl ((ntohl ip AND ntohl smask) OR of_nat (h + n))"
  shows "m = n"
proof -
  have z: "of_nat (h + j) AND ntohl smask = 0" if "j \<le> 8" for j
    using mask_and [OF M _ k, of "h + j"] h(2) that by simp
  have lt: "h + j < 2 ^ 32" if "j \<le> 8" for j
    using power_increasing [OF k, of "2::nat"] h(2) that by linarith
  have "(ntohl ip AND ntohl smask) OR of_nat (h + m) = (ntohl ip AND ntohl smask) OR of_nat (h + n)"
    using arg_cong [OF eq, of htonl] by simp
  then have "(of_nat (h + m) :: u32) = of_nat (h + n)"
    using split_addr(1) [OF z [OF n(1)], of "ntohl ip"] split_addr(1) [OF z [OF n(2)], of "ntohl ip"] by metis
  then have "unat (of_nat (h + m) :: u32) = unat (of_nat (h + n) :: u32)" by simp
  then have "h + m = h + n" using lt [OF n(1)] lt [OF n(2)] by (simp add: unat_of_nat del: of_nat_add)
  then show ?thesis by simp
qed

section \<open>Option lists\<close>

text \<open>The bytes of an option: a pad is one byte, any other option its code, its length and its data.\<close>

definition enc_opt :: "u8 \<times> bytes \<Rightarrow> bytes" where
  "enc_opt p = (if fst p = DHCP_OPTION_ID_PAD then [DHCP_OPTION_ID_PAD]
     else fst p # of_nat (length (snd p)) # snd p)"

definition enc_opts :: "(u8 \<times> bytes) list \<Rightarrow> bytes" where
  "enc_opts ops = concat (map enc_opt ops)"

text \<open>Well formed: not the end marker, data that fits the length byte (none for a pad), and at least the bytes
  the option's own field has.\<close>

definition opt_ok :: "u8 \<times> bytes \<Rightarrow> bool" where
  "opt_ok p \<longleftrightarrow> fst p \<noteq> DHCP_OPTION_ID_END \<and> length (snd p) \<le> 255 \<and>
     (fst p = DHCP_OPTION_ID_PAD \<longrightarrow> snd p = []) \<and>
     (fst p = DHCP_OPTION_ID_MSG_TYPE \<longrightarrow> 1 \<le> length (snd p)) \<and>
     (fst p = DHCP_OPTION_ID_REQ_IP_ADDR \<or> fst p = DHCP_OPTION_ID_SERVER_ID \<longrightarrow> 4 \<le> length (snd p))"

text \<open>The meaning of one option.\<close>

definition apply_opt :: "parsed \<Rightarrow> u8 \<times> bytes \<Rightarrow> parsed" where
  "apply_opt r p =
     (if fst p = DHCP_OPTION_ID_MSG_TYPE then r\<lparr>pMsgType := snd p ! 0, pRet := pRet r OR 1\<rparr>
      else if fst p = DHCP_OPTION_ID_REQ_IP_ADDR then r\<lparr>pReqIpAddr := of_le32 (snd p), pRet := pRet r OR 2\<rparr>
      else if fst p = DHCP_OPTION_ID_SERVER_ID then r\<lparr>pServerId := of_le32 (snd p), pRet := pRet r OR 4\<rparr>
      else r)"

lemma of_le32_nth: "4 \<le> length xs \<Longrightarrow> of_le32 xs = of_le32 [xs ! 0, xs ! 1, xs ! 2, xs ! 3]"
  by (cases xs rule: of_le32.cases) (auto simp: nth_Cons' )

lemma parse_enc:
  "\<forall>p \<in> set ops. opt_ok p \<Longrightarrow> i + length (enc_opts ops) < 308 \<Longrightarrow>
   (\<And>k. k \<le> length (enc_opts ops) \<Longrightarrow> mem (i + k) = (enc_opts ops @ [DHCP_OPTION_ID_END]) ! k) \<Longrightarrow>
     parse_loop mem i r = foldl apply_opt r ops"
proof (induction ops arbitrary: i r)
  case Nil
  have "mem i = DHCP_OPTION_ID_END" using Nil.prems(3) [of 0] by (simp add: enc_opts_def)
  then show ?case by (subst parse_loop.simps) simp
next
  case (Cons p ops)
  obtain oid d where p: "p = (oid, d)" by (cases p)
  show ?case
  proof (cases "oid = DHCP_OPTION_ID_PAD")
    case True
    then have enc: "enc_opts (p # ops) = DHCP_OPTION_ID_PAD # enc_opts ops"
      by (simp add: enc_opts_def enc_opt_def p)
    have m0: "mem i = DHCP_OPTION_ID_PAD" using Cons.prems(3) [of 0] by (simp add: enc)
    have tl: "mem (i + 1 + k) = (enc_opts ops @ [DHCP_OPTION_ID_END]) ! k" if "k \<le> length (enc_opts ops)" for k
      using Cons.prems(3) [of "Suc k"] that by (simp add: enc)
    have "i < 308" using Cons.prems(2) by simp
    then have "parse_loop mem i r = parse_loop mem (i + 1) r"
      unfolding parse_loop.simps [of mem i r] m0 by (simp add: dhcp_consts)
    also have "\<dots> = foldl apply_opt r ops"
      using Cons.prems(1,2) by (intro Cons.IH tl) (simp_all add: enc)
    also have "\<dots> = foldl apply_opt r (p # ops)" using True by (simp add: apply_opt_def p dhcp_consts)
    finally show ?thesis .
  next
    case False
    have enc: "enc_opts (p # ops) = oid # of_nat (length d) # d @ enc_opts ops"
      using False by (simp add: enc_opts_def enc_opt_def p)
    have ok: "opt_ok p" using Cons.prems(1) by simp
    have m0: "mem i = oid" using Cons.prems(3) [of 0] by (simp add: enc)
    have m1: "mem (i + 1) = of_nat (length d)" using Cons.prems(3) [of 1] by (simp add: enc)
    have md: "mem (i + 2 + k) = d ! k" if "k < length d" for k
      using Cons.prems(3) [of "Suc (Suc k)"] that by (simp add: enc nth_append)
    have len: "unat (of_nat (length d) :: u8) = length d" using ok p by (simp add: opt_ok_def unat_of_nat)
    have tl: "mem (i + 2 + length d + k) = (enc_opts ops @ [DHCP_OPTION_ID_END]) ! k" if "k \<le> length (enc_opts ops)" for k
      using Cons.prems(3) [of "Suc (Suc (length d + k))"] that by (simp add: enc nth_append add.assoc)
    have le: "mem4 mem (i + 2) = of_le32 d" if "4 \<le> length d"
    proof -
      have "d \<noteq> []" using that by auto
      then show ?thesis
        using md [of 0] md [of 1] md [of 2] md [of 3] that of_le32_nth [OF that]
        by (simp add: mem4_def add.assoc)
    qed
    have "i < 308" using Cons.prems(2) by simp
    then have "parse_loop mem i r = parse_loop mem (i + 2 + length d)
        (if oid = DHCP_OPTION_ID_MSG_TYPE then r\<lparr>pMsgType := mem (i + 2), pRet := pRet r OR 1\<rparr>
         else if oid = DHCP_OPTION_ID_REQ_IP_ADDR then r\<lparr>pReqIpAddr := mem4 mem (i + 2), pRet := pRet r OR 2\<rparr>
         else if oid = DHCP_OPTION_ID_SERVER_ID then r\<lparr>pServerId := mem4 mem (i + 2), pRet := pRet r OR 4\<rparr>
         else r)"
      using ok False unfolding parse_loop.simps [of mem i r] m0 m1 len Let_def by (simp add: opt_ok_def p)
    also have "(if oid = DHCP_OPTION_ID_MSG_TYPE then r\<lparr>pMsgType := mem (i + 2), pRet := pRet r OR 1\<rparr>
         else if oid = DHCP_OPTION_ID_REQ_IP_ADDR then r\<lparr>pReqIpAddr := mem4 mem (i + 2), pRet := pRet r OR 2\<rparr>
         else if oid = DHCP_OPTION_ID_SERVER_ID then r\<lparr>pServerId := mem4 mem (i + 2), pRet := pRet r OR 4\<rparr>
         else r) = apply_opt r p"
      using ok le md [of 0] by (simp add: apply_opt_def p opt_ok_def Suc_le_eq)
    also have "parse_loop mem (i + 2 + length d) (apply_opt r p) = foldl apply_opt (apply_opt r p) ops"
      using Cons.prems(1,2) by (intro Cons.IH tl) (simp_all add: enc)
    finally show ?thesis by simp
  qed
qed

section \<open>Packets\<close>

lemma put_nth:
  "j < length b \<Longrightarrow> p + length xs \<le> length b \<Longrightarrow>
     put p xs b ! j = (if p \<le> j \<and> j < p + length xs then xs ! (j - p) else b ! j)"
  by (auto simp: put_def nth_append min_def)

lemma field4: "p + 4 \<le> length b \<Longrightarrow> of_le32 (drop p b) = of_le32 [b ! p, b ! (p + 1), b ! (p + 2), b ! (p + 3)]"
  by (subst of_le32_nth) (simp_all add: add.commute)

lemma field4_put:
  "p + 4 \<le> length b \<Longrightarrow> of_le32 (drop p (put p (le32 v) b)) = v"
  using of_le32_le32 [of v "drop (p + 4) b"] by (simp add: put_def)

lemma field4_other:
  assumes "p + 4 \<le> q \<or> q + length xs \<le> p" "p + 4 \<le> length b" "q + length xs \<le> length b"
  shows "of_le32 (drop p (put q xs b)) = of_le32 (drop p b)"
  using assms by (simp only: field4 put_length) (auto simp: put_nth)

lemma field1_other:
  "p < q \<or> q + length xs \<le> p \<Longrightarrow> p < length b \<Longrightarrow> q + length xs \<le> length b \<Longrightarrow> put q xs b ! p = b ! p"
  by (auto simp: put_nth)

lemma take_drop_put: "p + length xs \<le> length b \<Longrightarrow> n = length xs \<Longrightarrow> take n (drop p (put p xs b)) = xs"
  by (simp add: put_def)

lemma take_drop_other:
  assumes "p + n \<le> q \<or> q + length xs \<le> p" "p + n \<le> length b" "q + length xs \<le> length b"
  shows "take n (drop p (put q xs b)) = take n (drop p b)"
  using assms by (intro nth_equalityI) (auto simp: put_nth)

text \<open>A client's message with the given options.\<close>

definition client_packet :: "bytes \<Rightarrow> u32 \<Rightarrow> (u8 \<times> bytes) list \<Rightarrow> bytes" where
  "client_packet mac xid ops =
     put 240 (enc_opts ops @ [DHCP_OPTION_ID_END])
    (put 236 (le32 (htonl DHCP_MAGIC))
    (put 28 mac
    (put 4 (le32 (htonl xid))
    (put 2 [6] (put 1 [1] (put 0 [1] (replicate DHCP_MSG_SIZE 0)))))))"

lemma client_packet_fields:
  assumes "length mac = 6" "length (enc_opts ops) < 308"
  shows "length (client_packet mac xid ops) = DHCP_MSG_SIZE" "msg_Op (client_packet mac xid ops) = 1"
    "msg_HType (client_packet mac xid ops) = 1" "ntohl (msg_Magic (client_packet mac xid ops)) = DHCP_MAGIC"
    "ntohl (msg_Xid (client_packet mac xid ops)) = xid" "msg_Chaddr6 (client_packet mac xid ops) = mac"
  using assms
  by (simp_all add: client_packet_def DHCP_MSG_SIZE_def msg_Op_def msg_HType_def msg_Magic_def msg_Xid_def
      msg_Chaddr6_def field1_other field4_other field4_put take_drop_other take_drop_put)
    (simp_all add: put_nth)

lemma parse_put:
  assumes "\<forall>p \<in> set ops. opt_ok p" "length (enc_opts ops) < 308" "length b = DHCP_MSG_SIZE"
  shows "ParseDhcpOptions (put 240 (enc_opts ops @ [DHCP_OPTION_ID_END]) b) beyond ty req sid =
    foldl apply_opt \<lparr>pRet = 0, pMsgType = ty, pReqIpAddr = req, pServerId = sid\<rparr> ops"
  unfolding ParseDhcpOptions_def
  by (rule parse_enc) (use assms in \<open>auto simp: DHCP_MSG_SIZE_def put_nth\<close>)

lemma RecvCb_packet:
  assumes inv: "dhcp_inv srv" and mac: "length mac = 6" and ops: "\<forall>p \<in> set ops. opt_ok p" "length (enc_opts ops) < 308"
    and r: "r = foldl apply_opt \<lparr>pRet = 0, pMsgType = 0xff, pReqIpAddr = 0, pServerId = 0\<rparr> ops" "pRet r AND 1 \<noteq> 0"
    and srv1: "srv1 = srv\<lparr>DhcpMsg := client_packet mac xid ops\<rparr>"
    and k: "ClientTableLookup mac (pMsgType r) (pReqIpAddr r) (pServerId r) srv1 = (Some i, srv2)"
  shows "DHCPS_RecvCb ok beyond (client_packet mac xid ops) srv = DhcpClientSMEHandle ok i (pMsgType r) xid srv2"
proof -
  let ?P = "client_packet mac xid ops"
  note F = client_packet_fields [OF mac ops(2), of xid]
  have m: "put 0 (take DHCP_MSG_SIZE ?P) (DhcpMsg srv) = ?P"
    using inv F(1) by (simp add: dhcp_inv_def put_def)
  have ne: "?P \<noteq> []" using F(1) by (auto simp: DHCP_MSG_SIZE_def)
  have "ParseDhcpOptions ?P beyond 0xff 0 0 = r"
    unfolding r(1) client_packet_def using mac by (intro parse_put ops) (simp add: DHCP_MSG_SIZE_def)
  moreover have "DhcpMsg srv1 = ?P" by (simp add: srv1)
  ultimately show ?thesis
    unfolding DHCPS_RecvCb_def m srv1 [symmetric] by (simp add: Let_def ne F r(2) k)
qed

section \<open>The handshake\<close>

definition discover_opts :: "(u8 \<times> bytes) list" where
  "discover_opts = [(DHCP_OPTION_ID_MSG_TYPE, [DHCP_MSG_DISCOVER])]"

definition request_opts :: "u32 \<Rightarrow> u32 \<Rightarrow> (u8 \<times> bytes) list" where
  "request_opts ip sid = [(DHCP_OPTION_ID_MSG_TYPE, [DHCP_MSG_REQUEST]),
     (DHCP_OPTION_ID_REQ_IP_ADDR, le32 ip), (DHCP_OPTION_ID_SERVER_ID, le32 sid)]"

lemma opts_wf:
  "\<forall>p \<in> set discover_opts. opt_ok p" "length (enc_opts discover_opts) < 308"
  "\<forall>p \<in> set (request_opts ip sid). opt_ok p" "length (enc_opts (request_opts ip sid)) < 308"
  by (simp_all add: discover_opts_def request_opts_def opt_ok_def dhcp_consts enc_opts_def enc_opt_def)

lemma opts_parsed:
  "foldl apply_opt \<lparr>pRet = 0, pMsgType = 0xff, pReqIpAddr = 0, pServerId = 0\<rparr> discover_opts =
     \<lparr>pRet = 1, pMsgType = DHCP_MSG_DISCOVER, pReqIpAddr = 0, pServerId = 0\<rparr>"
  "foldl apply_opt \<lparr>pRet = 0, pMsgType = 0xff, pReqIpAddr = 0, pServerId = 0\<rparr> (request_opts ip sid) =
     \<lparr>pRet = 7, pMsgType = DHCP_MSG_REQUEST, pReqIpAddr = ip, pServerId = sid\<rparr>"
  using of_le32_le32 [of ip "[]"] of_le32_le32 [of sid "[]"]
  by (simp_all add: discover_opts_def request_opts_def apply_opt_def dhcp_consts)

text \<open>The messages the server sends: an offer or acknowledge for an address.\<close>

definition reply_msg :: "u8 \<Rightarrow> DHCP_SERVER \<Rightarrow> u32 \<Rightarrow> u32 \<Rightarrow> bytes \<Rightarrow> bytes" where
  "reply_msg ty srv xid ip mac = take 274 (put 240 (reply_options ty srv) (reply_header xid ip 0 mac))"

lemma sme_sent:
  "Sent (sme_offer True i xid srv) = Sent srv @
     [reply_msg DHCP_MSG_OFFER srv xid (IpAddr (Clients srv ! i)) (MacAddr (Clients srv ! i))]"
  "Sent (sme_ack True i xid srv) = Sent srv @
     [reply_msg DHCP_MSG_ACK srv xid (IpAddr (Clients srv ! i)) (MacAddr (Clients srv ! i))]"
  by (simp_all add: sme_offer_def sme_ack_def Let_def DHCPOfferGenAndSend_def DHCPAckGenAndSend_def
      set_client_def CleanClientHistory_def send_reply_def reply_msg_def)

lemma discover_idle:
  assumes l: "scan_ok cs mac req (length cs) l" and none: "\<forall>c \<in> set cs. active c \<longrightarrow> MacAddr c \<noteq> mac"
    and idle: "\<exists>c \<in> set cs. \<not> active c"
  obtains i where "lookup_discover l cs = (Some i, cs)" "i < length cs" "\<not> active (cs ! i)"
proof -
  have my: "pMyClient l = None"
    using l none by (cases "pMyClient l") (auto simp: scan_ok_def points_simps)
  obtain j where j: "j < length cs" "\<not> active (cs ! j)" using idle by (metis in_set_conv_nth)
  have fh: "pFreeClient l \<noteq> None \<or> pHistoryClient l \<noteq> None"
  proof (rule ccontr)
    assume "\<not> ?thesis"
    then have "pFreeClient l = None" "pHistoryClient l = None" by auto
    with l j show False by (auto simp: scan_ok_def points_simps)
  qed
  have pt: "p < length cs \<and> \<not> active (cs ! p)" if "pReqClient l = Some p \<or> pMyHistoryClient l = Some p \<or>
      pFreeClient l = Some p \<or> pHistoryClient l = Some p" for p
    using l that by (auto simp: scan_ok_def points_simps)
  have "\<exists>i. lookup_discover l cs = (Some i, cs) \<and> (pReqClient l = Some i \<or> pMyHistoryClient l = Some i \<or>
      pFreeClient l = Some i \<or> pHistoryClient l = Some i)"
    using my fh by (auto simp: lookup_discover_def split: option.split)
  then show thesis using pt that by blast
qed

lemma discover_step:
  assumes inv: "dhcp_inv srv" and mac: "length mac = 6"
    and none: "\<forall>c \<in> set (Clients srv). active c \<longrightarrow> MacAddr c \<noteq> mac"
    and idle: "\<exists>c \<in> set (Clients srv). \<not> active c"
    and srv': "srv' = DHCPS_RecvCb True beyond (client_packet mac xid discover_opts) srv"
  obtains i where "i < DHCPS_HISTORY_CLIENT_NUM" "State (Clients srv' ! i) = DHCP_CLIENT_STATE_REQUEST"
    "MacAddr (Clients srv' ! i) = mac"
    "Sent srv' = Sent srv @ [reply_msg DHCP_MSG_OFFER srv xid (IpAddr (Clients srv ! i)) mac]"
    "ServerIpAddr srv' = ServerIpAddr srv"
proof -
  define srv1 where "srv1 = srv\<lparr>DhcpMsg := client_packet mac xid discover_opts\<rparr>"
  have len: "length (Clients srv) = DHCPS_HISTORY_CLIENT_NUM" using inv by (simp add: dhcp_inv_def)
  obtain i where d: "lookup_discover (lookup_scan (Clients srv) mac 0 DHCPS_HISTORY_CLIENT_NUM) (Clients srv) =
      (Some i, Clients srv)" and i: "i < DHCPS_HISTORY_CLIENT_NUM" "\<not> active (Clients srv ! i)"
    using discover_idle [OF lookup_scan_ok none idle, of 0] len by auto
  define srv2 where "srv2 = srv1\<lparr>Clients := upd_client i (\<lambda>c. c\<lparr>MacAddr := mac\<rparr>) (Clients srv)\<rparr>"
  have k: "ClientTableLookup mac DHCP_MSG_DISCOVER 0 0 srv1 = (Some i, srv2)"
    using d by (simp add: ClientTableLookup_def Let_def srv1_def srv2_def)
  have "srv' = DhcpClientSMEHandle True i DHCP_MSG_DISCOVER xid srv2"
    using RecvCb_packet [OF inv mac opts_wf(1,2) opts_parsed(1) [symmetric] _ srv1_def, of i srv2 True beyond] k srv'
    by simp
  moreover have "State (Clients srv2 ! i) = DHCP_CLIENT_STATE_IDLE" using i len by (simp add: srv2_def)
  ultimately have e: "srv' = sme_offer True i xid (set_client i (\<lambda>c. c\<lparr>State := DHCP_CLIENT_STATE_SELECT\<rparr>) srv2)"
    by (simp add: DhcpClientSMEHandle_def)
  show thesis
  proof (rule that [OF i(1)])
    show "State (Clients srv' ! i) = DHCP_CLIENT_STATE_REQUEST" "MacAddr (Clients srv' ! i) = mac"
      "ServerIpAddr srv' = ServerIpAddr srv"
      using i len by (simp_all add: e sme_offer_def set_client_def DHCPOfferGenAndSend_def srv2_def srv1_def)
    show "Sent srv' = Sent srv @ [reply_msg DHCP_MSG_OFFER srv xid (IpAddr (Clients srv ! i)) mac]"
      using i len by (simp add: e sme_sent set_client_def srv2_def srv1_def reply_msg_def reply_options_def)
  qed
qed

lemma request_step:
  assumes inv: "dhcp_inv srv" and mac: "length mac = 6" and i: "i < DHCPS_HISTORY_CLIENT_NUM"
    and my: "State (Clients srv ! i) = DHCP_CLIENT_STATE_REQUEST \<or> State (Clients srv ! i) = DHCP_CLIENT_STATE_BIND"
      "MacAddr (Clients srv ! i) = mac"
    and dist: "distinct (map IpAddr (Clients srv))"
    and srv': "srv' = DHCPS_RecvCb True beyond (client_packet mac xid
        (request_opts (IpAddr (Clients srv ! i)) (ServerIpAddr srv))) srv"
  shows "State (Clients srv' ! i) = DHCP_CLIENT_STATE_BIND \<and> MacAddr (Clients srv' ! i) = mac \<and>
    Sent srv' = Sent srv @ [reply_msg DHCP_MSG_ACK srv xid (IpAddr (Clients srv ! i)) mac]"
proof -
  define ip where "ip = IpAddr (Clients srv ! i)"
  define srv1 where "srv1 = srv\<lparr>DhcpMsg := client_packet mac xid (request_opts ip (ServerIpAddr srv))\<rparr>"
  define l where "l = lookup_scan (Clients srv) mac ip DHCPS_HISTORY_CLIENT_NUM"
  have len: "length (Clients srv) = DHCPS_HISTORY_CLIENT_NUM" using inv by (simp add: dhcp_inv_def)
  have only: "j = i" if "j < DHCPS_HISTORY_CLIENT_NUM" "IpAddr (Clients srv ! j) = ip" for j
    using dist that i len by (simp add: distinct_conv_nth ip_def) metis
  have act: "active (Clients srv ! i)" using my(1) by auto
  have l: "scan_ok (Clients srv) mac ip DHCPS_HISTORY_CLIENT_NUM l" unfolding l_def by (rule lookup_scan_ok)
  have "pMyClient l = Some i"
  proof (cases "pMyClient l")
    case None
    with l i act my(2) show ?thesis by (auto simp: scan_ok_def points_simps)
  next
    case (Some j)
    with l have "j < DHCPS_HISTORY_CLIENT_NUM" "active (Clients srv ! j)" "MacAddr (Clients srv ! j) = mac"
      by (auto simp: scan_ok_def points_simps)
    with Some inv i act my(2) len show ?thesis unfolding dhcp_inv_def uniq_macs_def by metis
  qed
  moreover have "pReqClient l = None"
    using l only act by (cases "pReqClient l") (auto simp: scan_ok_def points_simps)
  moreover have "\<not> IpUnavailable l" using l only my(2) unfolding scan_ok_def by blast
  ultimately have "lookup_request (ServerIpAddr srv) (ServerIpAddr srv) l (Clients srv) = (Some i, Clients srv)"
    by (simp add: lookup_request_def)
  moreover have "upd_client i (\<lambda>c. c\<lparr>MacAddr := mac\<rparr>) (Clients srv) = Clients srv"
    using my(2) i len by (simp add: upd_client_def same_mac)
  ultimately have k: "ClientTableLookup mac DHCP_MSG_REQUEST ip (ServerIpAddr srv) srv1 = (Some i, srv1)"
    by (simp add: ClientTableLookup_def Let_def srv1_def l_def dhcp_consts)
  have "srv' = DhcpClientSMEHandle True i DHCP_MSG_REQUEST xid srv1"
    using RecvCb_packet [OF inv mac opts_wf(3,4) opts_parsed(2) [symmetric] _ srv1_def, of i srv1 True beyond] k srv'
    by (simp add: ip_def)
  moreover have "Clients srv1 = Clients srv" by (simp add: srv1_def)
  ultimately have e: "srv' = sme_ack True i xid srv1" using my(1) by (auto simp: DhcpClientSMEHandle_def)
  have "activated i DHCP_CLIENT_STATE_BIND srv1 srv'"
    unfolding e using i len client_packet_fields(1) [OF mac opts_wf(4)]
    by (intro sme_ack_activated) (simp_all add: srv1_def)
  then show ?thesis
    using my(2) by (simp add: activated_def e sme_sent) (simp add: srv1_def ip_def reply_msg_def reply_options_def)
qed

lemma pool_distinct:
  assumes "NOT (ntohl smask) = mask k" "k \<le> 32" "unat (ntohl ip AND NOT (ntohl smask)) + 9 < 2 ^ k - 1"
  shows "distinct (map (pool_addr (start_addr ip smask) smask) [0..<8])"
proof -
  note E = pool_addr_eq [OF assms(1,2) refl assms(3)]
  have "i = j" if "i < 8" "j < 8" "pool_addr (start_addr ip smask) smask i = pool_addr (start_addr ip smask) smask j" for i j
    using pool_addr_inject [OF assms(1,2) refl assms(3), of "1 + i" "1 + j"] that
    by (simp add: E [OF that(1)] E [OF that(2)] add.assoc)
  then show ?thesis by (auto simp: distinct_map inj_on_def)
qed

lemma uniq_distinct: "uniq_macs cs \<Longrightarrow> distinct (map MacAddr (filter active cs))"
proof (induction cs)
  case (Cons c cs)
  have tl: "uniq_macs cs"
    using Cons.prems unfolding uniq_macs_def by (metis Suc_less_eq length_Cons nat.inject nth_Cons_Suc)
  have "MacAddr d \<noteq> MacAddr c" if a: "active c" "d \<in> set cs" "active d" for d
  proof
    assume eq: "MacAddr d = MacAddr c"
    obtain j where "j < length cs" "cs ! j = d" using a(2) by (metis in_set_conv_nth)
    then have "0 = Suc j"
      using Cons.prems [unfolded uniq_macs_def, rule_format, of 0 "Suc j"] a eq by simp
    then show False by simp
  qed
  then show ?case using Cons.IH [OF tl] by auto (metis (mono_tags))
qed simp

text \<open>A home network for the examples: 192.168.1.1/24.\<close>

definition home_ip :: u32 where "home_ip = htonl 0xC0A80101"
definition home_mask :: u32 where "home_mask = htonl 0xFFFFFF00"
definition blank_server :: DHCP_SERVER where "blank_server = server0 (replicate 548 0) [] False"

lemma home_net:
  "NOT (ntohl home_mask) = mask 8" "unat (ntohl home_ip AND NOT (ntohl home_mask)) + 9 < 2 ^ 8 - 1"
  by (simp_all add: home_ip_def home_mask_def mask_eq_exp_minus_1)

lemma home_start:
  obtains srv where "DHCPS_Start True home_ip home_mask (Some 1) blank_server = Some (DHCPS_ERR_SUCCESS, srv)"
  using home_net(1) by (simp add: DHCPS_Start_def Let_def mask_eq_exp_minus_1)

section \<open>Properties\<close>

text \<open>C6: in every state a started server reaches, through any packets, ticks and deletions, no client holds
  two addresses (the active entries have different MAC addresses) and the addresses of the table are those
  computed at the start; and when the mask is a prefix mask of \<open>k\<close> host bits and the server's host number \<open>h\<close>
  leaves room for the pool, \<open>h + 9 < 2 ^ k - 1\<close>, no address is held by two clients. (Without that room the
  pool repeats addresses, \<open>dhcp_pool_repeats\<close>: 192.168.1.253/24.)\<close>

theorem dhcp_leases_exclusive:
  assumes "DHCPS_Start up ip smask sock srv0 = Some (DHCPS_ERR_SUCCESS, srv)" "length (DhcpMsg srv0) = DHCP_MSG_SIZE"
    and "dhcp_step\<^sup>*\<^sup>* srv srv'"
  shows "distinct (map MacAddr (filter active (Clients srv'))) \<and>
    map IpAddr (Clients srv') = map (pool_addr (start_addr ip smask) smask) [0..<DHCPS_HISTORY_CLIENT_NUM] \<and>
    (\<forall>k \<le> 32. NOT (ntohl smask) = mask k \<and> unat (ntohl ip AND NOT (ntohl smask)) + 9 < 2 ^ k - 1 \<longrightarrow>
       distinct (map IpAddr (filter active (Clients srv'))))"
proof (intro conjI allI impI)
  note S = Start_inv [OF assms(1,2)]
  have inv: "dhcp_inv srv'" and ips: "map IpAddr (Clients srv') = map IpAddr (Clients srv)"
    using dhcp_steps_inv [OF assms(3) S(1)] by auto
  show "distinct (map MacAddr (filter active (Clients srv')))"
    using inv by (intro uniq_distinct) (simp add: dhcp_inv_def)
  show pool: "map IpAddr (Clients srv') = map (pool_addr (start_addr ip smask) smask) [0..<DHCPS_HISTORY_CLIENT_NUM]"
    using ips S(2) by (simp add: DHCPS_HISTORY_CLIENT_NUM_def)
  fix k assume "k \<le> 32"
    "NOT (ntohl smask) = mask k \<and> unat (ntohl ip AND NOT (ntohl smask)) + 9 < 2 ^ k - 1"
  then have "distinct (map IpAddr (Clients srv'))"
    unfolding pool DHCPS_HISTORY_CLIENT_NUM_def by (intro pool_distinct) blast+
  then show "distinct (map IpAddr (filter active (Clients srv')))" by (rule distinct_map_filter)
qed

theorem dhcp_leases_witness:
  "\<exists>srv. DHCPS_Start True home_ip home_mask (Some 1) blank_server = Some (DHCPS_ERR_SUCCESS, srv) \<and>
     distinct (map IpAddr (filter active (Clients (DHCPS_RecvCb True (\<lambda>_. 0) (client_packet [1, 2, 3, 4, 5, 6] 77 discover_opts) srv)))) \<and>
     distinct (map MacAddr (filter active (Clients (DHCPS_RecvCb True (\<lambda>_. 0) (client_packet [1, 2, 3, 4, 5, 6] 77 discover_opts) srv))))"
proof -
  obtain srv where s: "DHCPS_Start True home_ip home_mask (Some 1) blank_server = Some (DHCPS_ERR_SUCCESS, srv)"
    by (rule home_start)
  have len: "length (DhcpMsg blank_server) = DHCP_MSG_SIZE" by (simp add: blank_server_def server0_def DHCP_MSG_SIZE_def)
  have "dhcp_step\<^sup>*\<^sup>* srv (DHCPS_RecvCb True (\<lambda>_. 0) (client_packet [1, 2, 3, 4, 5, 6] 77 discover_opts) srv)" by (blast intro: dhcp_step.recv)
  note L = dhcp_leases_exclusive [OF s len this]
  have "(8::nat) \<le> 32" by simp
  with L home_net s show ?thesis by blast
qed

text \<open>C9: a message never takes an address from another client: every entry that is active for a
  MAC address other than the sender's is exactly as before, no entry changes its IP address, and every
  entry that is active afterwards is an unchanged one or belongs to the sender.\<close>

theorem dhcp_no_steal:
  assumes "dhcp_inv srv"
  shows "dhcp_inv (DHCPS_RecvCb ok beyond P srv) \<and>
    table_frame (msg_from P srv) (Clients srv) (Clients (DHCPS_RecvCb ok beyond P srv))"
  by (rule RecvCb_frame [OF assms])

theorem dhcp_no_steal_witness:
  "\<exists>srv. DHCPS_Start True home_ip home_mask (Some 1) blank_server = Some (DHCPS_ERR_SUCCESS, srv) \<and>
     dhcp_inv (DHCPS_RecvCb True (\<lambda>_. 0) (client_packet [1, 2, 3, 4, 5, 6] 77 discover_opts) srv)"
proof -
  obtain srv where s: "DHCPS_Start True home_ip home_mask (Some 1) blank_server = Some (DHCPS_ERR_SUCCESS, srv)"
    by (rule home_start)
  have "dhcp_inv srv" using Start_inv(1) [OF s] by (simp add: blank_server_def server0_def DHCP_MSG_SIZE_def)
  from dhcp_no_steal [OF this] s show ?thesis by blast
qed

text \<open>C10: the handshake completes when the addresses of the pool are pairwise different, as they are on a
  network with room for the pool (\<open>pool_distinct\<close>), and reply buffers can be allocated: a client without an
  entry that broadcasts a discover while some entry is idle is offered the address of one entry, and its request
  for that address is acknowledged with the same address, which is then bound to it. (On a pool that repeats an
  address, 192.168.1.253/24, the idle copy of a bound address can be offered and its request refused.)\<close>

theorem dhcp_handshake:
  assumes "dhcp_inv srv" "length mac = 6" "distinct (map IpAddr (Clients srv))"
    and "\<forall>c \<in> set (Clients srv). active c \<longrightarrow> MacAddr c \<noteq> mac" "\<exists>c \<in> set (Clients srv). \<not> active c"
    and "srv1 = DHCPS_RecvCb True b1 (client_packet mac xid discover_opts) srv"
  shows "\<exists>i < 8. let ip = IpAddr (Clients srv ! i);
      srv2 = DHCPS_RecvCb True b2 (client_packet mac xid (request_opts ip (ServerIpAddr srv))) srv1 in
    Sent srv1 = Sent srv @ [reply_msg DHCP_MSG_OFFER srv xid ip mac] \<and>
    Sent srv2 = Sent srv1 @ [reply_msg DHCP_MSG_ACK srv1 xid ip mac] \<and>
    IpAddr (Clients srv2 ! i) = ip \<and> MacAddr (Clients srv2 ! i) = mac \<and>
    State (Clients srv2 ! i) = DHCP_CLIENT_STATE_BIND"
proof -
  obtain i where i: "i < DHCPS_HISTORY_CLIENT_NUM" "State (Clients srv1 ! i) = DHCP_CLIENT_STATE_REQUEST"
    "MacAddr (Clients srv1 ! i) = mac" "ServerIpAddr srv1 = ServerIpAddr srv"
    "Sent srv1 = Sent srv @ [reply_msg DHCP_MSG_OFFER srv xid (IpAddr (Clients srv ! i)) mac]"
    by (rule discover_step [OF assms(1,2,4-6)])
  have fr: "dhcp_inv srv1" "map IpAddr (Clients srv1) = map IpAddr (Clients srv)"
    using RecvCb_frame [OF assms(1)] frame_ips assms(6) by blast+
  have len: "length (Clients srv) = DHCPS_HISTORY_CLIENT_NUM" using assms(1) by (simp add: dhcp_inv_def)
  then have ip: "IpAddr (Clients srv1 ! i) = IpAddr (Clients srv ! i)"
    using fr(2) i(1) by (metis length_map nth_map)
  define srv2 where "srv2 = DHCPS_RecvCb True b2 (client_packet mac xid
      (request_opts (IpAddr (Clients srv1 ! i)) (ServerIpAddr srv1))) srv1"
  have R: "State (Clients srv2 ! i) = DHCP_CLIENT_STATE_BIND \<and> MacAddr (Clients srv2 ! i) = mac \<and>
      Sent srv2 = Sent srv1 @ [reply_msg DHCP_MSG_ACK srv1 xid (IpAddr (Clients srv1 ! i)) mac]"
    by (rule request_step [OF fr(1) assms(2) i(1) disjI1 [OF i(2)] i(3) _ srv2_def]) (use fr assms(3) in simp)
  have "map IpAddr (Clients srv2) = map IpAddr (Clients srv1)"
    using RecvCb_frame [OF fr(1)] frame_ips srv2_def by blast
  then have "IpAddr (Clients srv2 ! i) = IpAddr (Clients srv1 ! i)"
    using i(1) len fr(2) by (metis length_map nth_map)
  with R i ip show ?thesis
    unfolding Let_def by (intro exI [of _ i]) (simp add: srv2_def dhcp_consts)
qed

theorem dhcp_handshake_witness:
  "\<exists>srv i. DHCPS_Start True home_ip home_mask (Some 1) blank_server = Some (DHCPS_ERR_SUCCESS, srv) \<and>
     (let srv1 = DHCPS_RecvCb True (\<lambda>_. 0) (client_packet [1, 2, 3, 4, 5, 6] 77 discover_opts) srv;
          srv2 = DHCPS_RecvCb True (\<lambda>_. 0) (client_packet [1, 2, 3, 4, 5, 6] 77
            (request_opts (IpAddr (Clients srv ! i)) (ServerIpAddr srv))) srv1
      in MacAddr (Clients srv2 ! i) = [1, 2, 3, 4, 5, 6] \<and> State (Clients srv2 ! i) = DHCP_CLIENT_STATE_BIND)"
proof -
  obtain srv where s: "DHCPS_Start True home_ip home_mask (Some 1) blank_server = Some (DHCPS_ERR_SUCCESS, srv)"
    by (rule home_start)
  have "length (DhcpMsg blank_server) = DHCP_MSG_SIZE" by (simp add: blank_server_def server0_def DHCP_MSG_SIZE_def)
  note S = Start_inv [OF s this]
  have "distinct (map IpAddr (Clients srv))" using S(2) pool_distinct [OF home_net(1) _ home_net(2)] by simp
  moreover have "Clients srv \<noteq> []" using S(1) by (auto simp: dhcp_inv_def dhcp_consts)
  then have "\<exists>c \<in> set (Clients srv). \<not> active c" using S(5) by (meson list.set_sel(1))
  ultimately show ?thesis
    using dhcp_handshake [OF S(1), of "[1, 2, 3, 4, 5, 6]" _ "\<lambda>_. 0" 77 "\<lambda>_. 0"] S(5) s unfolding Let_def by fastforce
qed

text \<open>C34: the option parser reads every well formed option list of at most 307 bytes, pads anywhere between
  the options included, that is closed by an end marker exactly: the last message type, requested address and
  server identifier options, whatever the other options and whatever lies behind the end marker.\<close>

theorem ParseDhcpOptions_correct:
  assumes "\<forall>p \<in> set ops. opt_ok p" "length (enc_opts ops) < 308" "length b = DHCP_MSG_SIZE"
  shows "ParseDhcpOptions (put 240 (enc_opts ops @ [DHCP_OPTION_ID_END]) b) beyond ty req sid =
    foldl apply_opt \<lparr>pRet = 0, pMsgType = ty, pReqIpAddr = req, pServerId = sid\<rparr> ops"
  by (rule parse_put [OF assms])

theorem ParseDhcpOptions_witness:
  "ParseDhcpOptions (put 240 (enc_opts ((DHCP_OPTION_ID_PAD, []) # request_opts 7 9) @ [DHCP_OPTION_ID_END]) (replicate 548 0))
    (\<lambda>_. 0) 0xff 0 0 = \<lparr>pRet = 7, pMsgType = DHCP_MSG_REQUEST, pReqIpAddr = 7, pServerId = 9\<rparr>"
proof -
  have ok: "opt_ok (DHCP_OPTION_ID_PAD, [])" by (simp add: opt_ok_def dhcp_consts)
  have len: "length (enc_opts ((DHCP_OPTION_ID_PAD, []) # request_opts 7 9)) < 308"
    by (simp add: request_opts_def enc_opts_def enc_opt_def dhcp_consts)
  have "apply_opt r (DHCP_OPTION_ID_PAD, []) = r" for r by (simp add: apply_opt_def dhcp_consts)
  then show ?thesis
    using ok len opts_wf(3) [of 7 9]
    by (subst ParseDhcpOptions_correct) (simp_all add: opts_parsed DHCP_MSG_SIZE_def)
qed

text \<open>The offers and acknowledgements are readable by the server's own reader: the address field
  is the entry's address, and the options give the message type and the server's address.\<close>

theorem dhcp_reply_readable:
  fixes srv xid ip mac ty
  defines "m \<equiv> put 240 (reply_options ty srv) (reply_header xid ip 0 mac)"
  assumes "length mac = 6"
  shows "reply_msg ty srv xid ip mac = take 274 m \<and> msg_Op m = 2 \<and> ntohl (msg_Xid m) = xid \<and>
    msg_Yiaddr m = ip \<and> msg_Chaddr6 m = mac \<and> ntohl (msg_Magic m) = DHCP_MAGIC \<and>
    ParseDhcpOptions m beyond 0xff 0 0 = \<lparr>pRet = 5, pMsgType = ty, pReqIpAddr = 0, pServerId = ServerIpAddr srv\<rparr>"
proof -
  let ?ops = "[(DHCP_OPTION_ID_MSG_TYPE, [ty]), (DHCP_OPTION_ID_LEASE_TIME, le32 (htonl DHCP_DEFAULT_LEASE_TIME)),
    (DHCP_OPTION_ID_SERVER_ID, le32 (ServerIpAddr srv)), (DHCP_OPTION_ID_SUBNET_MASK, le32 (SubnetMask srv)),
    (DHCP_OPTION_ID_DEF_GW, le32 (GateWay srv)), (DHCP_OPTION_ID_DNS_SERVER, le32 (Dns1 srv))]"
  have o: "reply_options ty srv = enc_opts ?ops @ [DHCP_OPTION_ID_END]"
    by (simp add: reply_options_def enc_opts_def enc_opt_def DHCP_SET_OPTION_MSG_TYPE_def
        DHCP_SET_OPTION_LEASE_TIME_def DHCP_SET_OPTION_SERVER_ID_def DHCP_SET_OPTION_SUBNET_MASK_def
        DHCP_SET_OPTION_GW_def DHCP_SET_OPTION_DNS_def DHCP_SET_OPTION_END_def set_opt4_def dhcp_consts)
  have "ParseDhcpOptions m beyond 0xff 0 0 =
      foldl apply_opt \<lparr>pRet = 0, pMsgType = 0xff, pReqIpAddr = 0, pServerId = 0\<rparr> ?ops"
    unfolding m_def o by (rule parse_put) (simp_all add: opt_ok_def dhcp_consts enc_opts_def enc_opt_def)
  also have "\<dots> = \<lparr>pRet = 5, pMsgType = ty, pReqIpAddr = 0, pServerId = ServerIpAddr srv\<rparr>"
    using of_le32_le32 [of "ServerIpAddr srv" "[]"] by (simp add: apply_opt_def dhcp_consts)
  finally have p: "ParseDhcpOptions m beyond 0xff 0 0 = \<lparr>pRet = 5, pMsgType = ty, pReqIpAddr = 0, pServerId = ServerIpAddr srv\<rparr>" .
  have op: "msg_Op m = 2" unfolding m_def msg_Op_def reply_header_def DHCP_MSG_SIZE_def using assms(2) by (simp add: put_nth)
  have "ntohl (msg_Xid m) = xid" "msg_Yiaddr m = ip" "msg_Chaddr6 m = mac" "ntohl (msg_Magic m) = DHCP_MAGIC"
    unfolding m_def msg_Xid_def msg_Yiaddr_def msg_Chaddr6_def msg_Magic_def reply_header_def DHCP_MSG_SIZE_def
    using assms(2) by (simp_all add: field4_other field4_put take_drop_other take_drop_put)
  with p op show ?thesis by (simp add: reply_msg_def m_def)
qed

theorem dhcp_reply_witness:
  "msg_Yiaddr (put 240 (reply_options DHCP_MSG_ACK (server0 [] [] False)) (reply_header 1 42 0 [1, 2, 3, 4, 5, 6])) = 42"
  using dhcp_reply_readable [of "[1, 2, 3, 4, 5, 6]"] by simp

text \<open>A server at host \<open>h\<close> of a network with at least \<open>h + 10\<close> host numbers offers the eight
  addresses that follow its own, none of them its own.\<close>

theorem dhcp_pool_addresses:
  assumes "NOT (ntohl smask) = mask k" "k \<le> 32" "unat (ntohl ip AND NOT (ntohl smask)) + 9 < 2 ^ k - 1" "i < 8"
  shows "pool_addr (start_addr ip smask) smask i =
      htonl ((ntohl ip AND ntohl smask) OR of_nat (unat (ntohl ip AND NOT (ntohl smask)) + 1 + i)) \<and>
    pool_addr (start_addr ip smask) smask i \<noteq> ip"
proof -
  define h where "h = unat (ntohl ip AND NOT (ntohl smask))"
  note E = pool_addr_eq [OF assms(1,2) h_def _ assms(4)]
  have lim: "h + 9 < 2 ^ k - 1" using assms(3) by (simp add: h_def)
  have "ip = htonl ((ntohl ip AND ntohl smask) OR (ntohl ip AND NOT (ntohl smask)))"
  proof -
    have "(ntohl ip AND ntohl smask) OR (ntohl ip AND NOT (ntohl smask)) = ntohl ip"
      by (rule bit_word_eqI) (auto simp: bit_simps)
    then show ?thesis by simp
  qed
  then have ip: "ip = htonl ((ntohl ip AND ntohl smask) OR of_nat (h + 0))" by (simp add: h_def)
  have "pool_addr (start_addr ip smask) smask i \<noteq> ip"
  proof
    assume "pool_addr (start_addr ip smask) smask i = ip"
    then have "htonl ((ntohl ip AND ntohl smask) OR of_nat (h + (1 + i))) =
        htonl ((ntohl ip AND ntohl smask) OR of_nat (h + 0))"
      using E [OF lim] ip by (simp add: add.assoc)
    from pool_addr_inject [OF assms(1,2) h_def lim _ _ this] assms(4) show False by simp
  qed
  with E [OF lim] show ?thesis by (simp add: h_def)
qed

theorem dhcp_pool_witness:
  "pool_addr (start_addr home_ip home_mask) home_mask 3 = htonl 0xC0A80105"
  using dhcp_pool_addresses [OF home_net(1) _ home_net(2), of 3] by (simp add: home_ip_def home_mask_def)

text \<open>Near the end of the host range the pool wraps and repeats an address: a server at
  192.168.1.253/24 has the same address in two entries, so two clients can hold it.\<close>

theorem dhcp_pool_repeats:
  "\<exists>srv. DHCPS_Start True (htonl 0xC0A801FD) home_mask (Some 1) blank_server = Some (DHCPS_ERR_SUCCESS, srv) \<and>
     IpAddr (Clients srv ! 1) = htonl 0xC0A80101 \<and> IpAddr (Clients srv ! 2) = htonl 0xC0A80101"
  by (simp add: DHCPS_Start_def Let_def home_mask_def start_addr_def pool_addr_def pool_host_def dhcp_consts)

end
