(* ===== verification/Nor_Flash.thy ===== *)
theory Nor_Flash
  imports SN_Prelude "HOL-Library.Monad_Syntax"
begin

text \<open>
  The flash writers: \<^verbatim>\<open>QSpiWriteOneSector\<close> and \<^verbatim>\<open>QSpiWriteAny\<close> of \<^verbatim>\<open>BSP/flash.c\<close> and \<^verbatim>\<open>WriteFlash\<close>, \<^verbatim>\<open>ReadFlash\<close>
  of \<^verbatim>\<open>App/SerialNet/serialNet.c\<close>. The three hardware accesses below them (read, program a page, erase a
  sector over the QSPI registers) are the operations of a device given as a record of functions. The
  locale \<open>nor_flash\<close> states what a NOR flash promises of them: programming clears bits, erasing sets
  them, reading shows them. The writers are proved against that contract and the contract is
  interpreted on a byte array with AND programming.
\<close>

section \<open>Definitions\<close>

definition FLASH_PAGE_SIZE :: nat where "FLASH_PAGE_SIZE = 256"
definition FLASH_SECTOR_SIZE :: nat where "FLASH_SECTOR_SIZE = 4096"

record 'f flash_dev =
  QSpiFlashRead :: "'f \<Rightarrow> nat \<Rightarrow> nat \<Rightarrow> bytes"
  QSpiFlashWriteOnePage :: "'f \<Rightarrow> nat \<Rightarrow> bytes \<Rightarrow> 'f"
  QSpiFlashEraseSector :: "'f \<Rightarrow> nat \<Rightarrow> 'f"

text \<open>The retry loop \<^verbatim>\<open>j = 10; while (j--) { write; read; if equal break; }\<close> with the value \<^verbatim>\<open>j\<close> has
  after it: the counter when a try succeeds, all ones (of a counter of \<open>width\<close> bits) when the
  post-decrement runs past zero.\<close>

fun retry_page :: "'f flash_dev \<Rightarrow> nat \<Rightarrow> 'f \<Rightarrow> nat \<Rightarrow> bytes \<Rightarrow> nat \<Rightarrow> 'f \<times> nat" where
  "retry_page dev width f adr xs 0 = (f, 2 ^ width - 1)"
| "retry_page dev width f adr xs (Suc j) =
     (let f1 = QSpiFlashWriteOnePage dev f adr xs
      in if QSpiFlashRead dev f1 adr (length xs) = xs then (f1, j)
         else retry_page dev width f1 adr xs j)"

text \<open>The page loop of \<^verbatim>\<open>QSpiWriteOneSector\<close>; \<^verbatim>\<open>j\<close> is a \<^verbatim>\<open>UINT32\<close> here.\<close>

fun sector_pages :: "'f flash_dev \<Rightarrow> 'f \<Rightarrow> nat \<Rightarrow> bytes \<Rightarrow> nat \<Rightarrow> int \<times> 'f" where
  "sector_pages dev f adr pBuf 0 = (0, f)"
| "sector_pages dev f adr pBuf (Suc n) =
     (case retry_page dev 32 f adr (take FLASH_PAGE_SIZE pBuf) 10 of
        (f1, j) \<Rightarrow> if j = 0 then (-1, f1)
                  else sector_pages dev f1 (adr + FLASH_PAGE_SIZE) (drop FLASH_PAGE_SIZE pBuf) n)"

definition QSpiWriteOneSector :: "'f flash_dev \<Rightarrow> 'f \<Rightarrow> nat \<Rightarrow> bytes \<Rightarrow> int \<times> 'f" where
  "QSpiWriteOneSector dev f SectorAddr pBuf =
     sector_pages dev (QSpiFlashEraseSector dev f SectorAddr) SectorAddr pBuf
       (FLASH_SECTOR_SIZE div FLASH_PAGE_SIZE)"

text \<open>The \<^verbatim>\<open>do ... while (1)\<close> loop of \<^verbatim>\<open>QSpiWriteAny\<close>; \<open>xs\<close> is what is left of the data and \<open>pr\<close> is
  \<^verbatim>\<open>pageremain\<close>. \<open>None\<close> would be a loop that does not end.\<close>

partial_function (option) write_any_loop ::
  "'f flash_dev \<Rightarrow> 'f \<Rightarrow> nat \<Rightarrow> bytes \<Rightarrow> nat \<Rightarrow> (int \<times> 'f) option" where
  "write_any_loop dev f adr xs pr =
     (case retry_page dev 16 f adr (take pr xs) 10 of
        (f1, j) \<Rightarrow>
          if j = 0 then Some (-1, f1)
          else if length xs = pr then Some (0, f1)
          else write_any_loop dev f1 (adr + pr) (drop pr xs)
                 (if length xs - pr > FLASH_PAGE_SIZE then FLASH_PAGE_SIZE else length xs - pr))"

definition QSpiWriteAny :: "'f flash_dev \<Rightarrow> 'f \<Rightarrow> nat \<Rightarrow> bytes \<Rightarrow> (int \<times> 'f) option" where
  "QSpiWriteAny dev f WriteAddr pData =
     (let pr = FLASH_PAGE_SIZE - WriteAddr mod FLASH_PAGE_SIZE
      in write_any_loop dev f WriteAddr pData (if length pData \<le> pr then length pData else pr))"

definition ReadFlash :: "'f flash_dev \<Rightarrow> 'f \<Rightarrow> nat \<Rightarrow> nat \<Rightarrow> bytes" where
  "ReadFlash dev f DataLen ReadStartPos = QSpiFlashRead dev f ReadStartPos DataLen"

text \<open>The sector loop of \<^verbatim>\<open>WriteFlash\<close>. \<open>sn\<close>, \<open>off\<close>, \<open>sm\<close> are \<^verbatim>\<open>sector_num\<close> (a \<^verbatim>\<open>UINT8\<close>), \<^verbatim>\<open>sector_off\<close> and
  \<^verbatim>\<open>secre_main\<close>; a sector that is not blank where the data goes is read, erased and written back whole.
  A failed \<^verbatim>\<open>QSpiWriteAny\<close> ends the loop.\<close>

definition blank :: "bytes \<Rightarrow> bool" where
  "blank xs \<longleftrightarrow> (\<forall>x \<in> set xs. x = 0xFF)"

partial_function (option) write_flash_loop ::
  "'f flash_dev \<Rightarrow> 'f \<Rightarrow> nat \<Rightarrow> nat \<Rightarrow> nat \<Rightarrow> nat \<Rightarrow> bytes \<Rightarrow> 'f option" where
  "write_flash_loop dev f sn off sm adr xs =
     (let base = sn * FLASH_SECTOR_SIZE;
          buf = QSpiFlashRead dev f base FLASH_SECTOR_SIZE
      in do {
        (r, f1) \<leftarrow>
          (if \<not> blank (take sm (drop off buf)) then
             QSpiWriteAny dev (QSpiFlashEraseSector dev f base) base
               (take off buf @ take sm xs @ drop (off + sm) buf)
           else QSpiWriteAny dev f adr (take sm xs));
        if r \<noteq> 0 then Some f1
        else if length xs = sm then Some f1
        else write_flash_loop dev f1 ((sn + 1) mod 256) 0
               (if length xs - sm > FLASH_SECTOR_SIZE then FLASH_SECTOR_SIZE else length xs - sm)
               (adr + sm) (drop sm xs)
      })"

text \<open>\<^verbatim>\<open>WriteFlash\<close>; \<open>None\<close> when the sector buffer could not be allocated (the source prints a message and
  goes on with a NULL buffer) .\<close>

definition WriteFlash :: "'f flash_dev \<Rightarrow> bool \<Rightarrow> bytes \<Rightarrow> nat \<Rightarrow> 'f \<Rightarrow> 'f option" where
  "WriteFlash dev malloc_ok pData BurnStartPos f =
     (if \<not> malloc_ok then None
      else
        let off = BurnStartPos mod FLASH_SECTOR_SIZE;
            sm = FLASH_SECTOR_SIZE - off
        in write_flash_loop dev f (BurnStartPos div FLASH_SECTOR_SIZE mod 256) off
             (if length pData \<le> sm then length pData else sm) BurnStartPos pData)"

section \<open>The contract of a NOR flash\<close>

locale nor_flash =
  fixes dev :: "'f flash_dev" and fbyte :: "'f \<Rightarrow> nat \<Rightarrow> u8"
  assumes read: "QSpiFlashRead dev f a n = map (fbyte f) [a..<a + n]"
    and prog: "a mod 256 + length xs \<le> 256 \<Longrightarrow>
      fbyte (QSpiFlashWriteOnePage dev f a xs) x =
        (if a \<le> x \<and> x < a + length xs then fbyte f x AND xs ! (x - a) else fbyte f x)"
    and erase: "fbyte (QSpiFlashEraseSector dev f a) x =
        (if x div 4096 = a div 4096 then 0xFF else fbyte f x)"
begin

text \<open>The bytes of a region, and the bytes after storing data at an address.\<close>

definition stored :: "'f \<Rightarrow> nat \<Rightarrow> bytes \<Rightarrow> nat \<Rightarrow> u8" where
  "stored f a xs x = (if a \<le> x \<and> x < a + length xs then xs ! (x - a) else fbyte f x)"

definition erased :: "'f \<Rightarrow> nat \<Rightarrow> nat \<Rightarrow> bool" where
  "erased f a n \<longleftrightarrow> (\<forall>x. a \<le> x \<and> x < a + n \<longrightarrow> fbyte f x = 0xFF)"

lemma ones_and: "(0xFF :: u8) AND w = w"
proof -
  have "(0xFF :: u8) = - 1" by simp
  then show ?thesis by (metis and.left_neutral)
qed

text \<open>A page programmed over erased bytes reads back at the first try.\<close>

lemma prog_erased:
  assumes "erased f a (length xs)" "a mod 256 + length xs \<le> 256"
  shows "fbyte (QSpiFlashWriteOnePage dev f a xs) = stored f a xs"
    "QSpiFlashRead dev (QSpiFlashWriteOnePage dev f a xs) a (length xs) = xs"
proof -
  have eq: "fbyte (QSpiFlashWriteOnePage dev f a xs) x = stored f a xs x" for x
    unfolding prog [OF assms(2)] stored_def using assms(1) by (simp add: erased_def ones_and)
  then show "fbyte (QSpiFlashWriteOnePage dev f a xs) = stored f a xs" by blast
  show "QSpiFlashRead dev (QSpiFlashWriteOnePage dev f a xs) a (length xs) = xs"
    unfolding read using eq by (intro nth_equalityI) (simp_all add: stored_def)
qed

lemma retry_ok:
  assumes "erased f a (length xs)" "a mod 256 + length xs \<le> 256"
  shows "retry_page dev width f a xs (Suc j) = (QSpiFlashWriteOnePage dev f a xs, j)"
  using prog_erased [OF assms] by simp

lemma stored_append:
  assumes "\<And>x. fbyte f1 x = stored f a xs x" "b = a + length xs"
  shows "stored f1 b ys x = stored f a (xs @ ys) x"
  using assms by (auto simp: stored_def nth_append)

lemma write_any_loop_ok:
  assumes "erased f adr (length xs)" "adr mod 256 + pr \<le> 256" "pr \<le> length xs"
    "length xs \<noteq> pr \<longrightarrow> 0 < pr \<and> (adr + pr) mod 256 = 0"
  shows "\<exists>f'. write_any_loop dev f adr xs pr = Some (0, f') \<and> (\<forall>x. fbyte f' x = stored f adr xs x)"
  using assms
proof (induction "length xs" arbitrary: f adr xs pr rule: less_induct)
  case less
  let ?f1 = "QSpiFlashWriteOnePage dev f adr (take pr xs)"
  have len: "length (take pr xs) = pr" using less.prems(3) by simp
  have er: "erased f adr (length (take pr xs))" using less.prems(1,3) by (simp add: erased_def len)
  have fits: "adr mod 256 + length (take pr xs) \<le> 256" using less.prems(2) len by simp
  have rt: "retry_page dev 16 f adr (take pr xs) 10 = (?f1, 9)"
    using retry_ok [OF er fits, of 16 9] by (simp add: numeral_eq_Suc)
  have st: "fbyte ?f1 = stored f adr (take pr xs)" by (rule prog_erased(1) [OF er fits])
  show ?case
  proof (cases "length xs = pr")
    case True
    then show ?thesis using rt st by (subst write_any_loop.simps) simp
  next
    case False
    define ys where "ys = drop pr xs"
    define pr' where "pr' = (if length xs - pr > FLASH_PAGE_SIZE then FLASH_PAGE_SIZE else length xs - pr)"
    have pr: "0 < pr" "(adr + pr) mod 256 = 0" using less.prems(4) False by auto
    have ys: "length ys < length xs" "length ys = length xs - pr" using pr(1) less.prems(3) False by (auto simp: ys_def)
    have e: "erased ?f1 (adr + pr) (length ys)"
      using less.prems(1,3) by (auto simp: erased_def st stored_def len ys_def)
    have m: "(adr + pr + 256) mod 256 = 0" using pr(2) by simp
    have p: "(adr + pr) mod 256 + pr' \<le> 256" "pr' \<le> length ys"
      "length ys \<noteq> pr' \<longrightarrow> 0 < pr' \<and> (adr + pr + pr') mod 256 = 0"
      using pr(2) m ys(2) by (simp_all add: pr'_def FLASH_PAGE_SIZE_def)
    obtain f' where f': "write_any_loop dev ?f1 (adr + pr) ys pr' = Some (0, f')"
        "\<forall>x. fbyte f' x = stored ?f1 (adr + pr) ys x"
      using less.hyps [OF ys(1) e p] by blast
    have "stored ?f1 (adr + pr) ys x = stored f adr xs x" for x
      using stored_append [of ?f1 f adr "take pr xs" "adr + pr" ys x] st len by (simp add: ys_def)
    moreover have "write_any_loop dev f adr xs pr = Some (0, f')"
      using rt False f'(1) by (subst write_any_loop.simps) (simp add: pr'_def ys_def)
    ultimately show ?thesis using f'(2) by simp
  qed
qed

lemma QSpiWriteAny_ok:
  assumes "erased f adr (length xs)"
  shows "\<exists>f'. QSpiWriteAny dev f adr xs = Some (0, f') \<and> (\<forall>x. fbyte f' x = stored f adr xs x)"
proof -
  have "adr mod 256 < 256" by simp
  moreover have "(adr + (256 - adr mod 256)) mod 256 = 0"
  proof -
    define r where "r = adr mod 256"
    have "adr = 256 * (adr div 256) + r" "r < 256" by (simp_all add: r_def)
    then have "adr + (256 - r) = 256 * (adr div 256 + 1)" by simp
    then have "(adr + (256 - r)) mod 256 = 0" by (metis mod_mult_self1_is_0)
    then show ?thesis by (simp add: r_def)
  qed
  ultimately show ?thesis
    unfolding QSpiWriteAny_def Let_def FLASH_PAGE_SIZE_def
    using assms by (intro write_any_loop_ok) auto
qed

text \<open>One sector of \<^verbatim>\<open>WriteFlash\<close>, in both of its cases.\<close>

lemma rewrite_sector:
  assumes "off + sm \<le> 4096" "length ys = sm"
    and buf: "buf = QSpiFlashRead dev f (sn * 4096) 4096"
  shows "\<exists>f'. QSpiWriteAny dev (QSpiFlashEraseSector dev f (sn * 4096)) (sn * 4096)
        (take off buf @ ys @ drop (off + sm) buf) = Some (0, f') \<and>
      (\<forall>x. fbyte f' x = stored f (sn * 4096 + off) ys x)"
proof -
  let ?e = "QSpiFlashEraseSector dev f (sn * 4096)"
  let ?d = "take off buf @ ys @ drop (off + sm) buf"
  have lb: "length buf = 4096" by (simp add: buf read)
  then have ld: "length ?d = 4096" using assms(1,2) by simp
  have same: "x div 4096 = sn" if "sn * 4096 \<le> x" "x < sn * 4096 + 4096" for x
    using that by (metis add.commute div_nat_eqI mult.commute mult_Suc_right)
  then have "erased ?e (sn * 4096) (length ?d)" unfolding ld erased_def by (auto simp: erase)
  from QSpiWriteAny_ok [OF this] obtain f' where f': "QSpiWriteAny dev ?e (sn * 4096) ?d = Some (0, f')"
      "\<forall>x. fbyte f' x = stored ?e (sn * 4096) ?d x" by blast
  have "stored ?e (sn * 4096) ?d x = stored f (sn * 4096 + off) ys x" for x
  proof (cases "sn * 4096 \<le> x \<and> x < sn * 4096 + 4096")
    case True
    define k where "k = x - sn * 4096"
    have x: "x = sn * 4096 + k" "k < 4096" using True by (auto simp: k_def)
    have "?d ! k = (if off \<le> k \<and> k < off + sm then ys ! (k - off) else buf ! k)"
      using assms(1,2) x(2) lb by (auto simp: nth_append min_def)
    moreover have "buf ! k = fbyte f x" using x by (simp add: buf read)
    ultimately show ?thesis
      unfolding stored_def ld using x assms(1,2) by auto
  next
    case False
    then have "x div 4096 \<noteq> sn" by (metis div_times_less_eq_dividend dividend_less_div_times mult.commute
          mod_mult_div_eq add.commute mod_less_divisor zero_less_numeral nat_add_left_cancel_less)
    then show ?thesis using False assms(1,2) unfolding stored_def ld by (auto simp: erase)
  qed
  with f' show ?thesis by auto
qed

lemma write_flash_loop_ok:
  assumes "adr = sn * 4096 + off" "off + sm \<le> 4096" "sm \<le> length xs" "adr + length xs \<le> 256 * 4096"
    "length xs \<noteq> sm \<longrightarrow> 0 < sm \<and> off + sm = 4096"
  shows "\<exists>f'. write_flash_loop dev f sn off sm adr xs = Some f' \<and> (\<forall>x. fbyte f' x = stored f adr xs x)"
  using assms
proof (induction "length xs" arbitrary: f adr xs sn off sm rule: less_induct)
  case less
  let ?buf = "QSpiFlashRead dev f (sn * 4096) 4096"
  have len: "length (take sm xs) = sm" using less.prems(3) by simp
  have er: "erased f adr (length (take sm xs))" if "blank (take sm (drop off ?buf))"
    unfolding erased_def
  proof (intro allI impI)
    fix x assume x: "adr \<le> x \<and> x < adr + length (take sm xs)"
    then have "x - adr < sm" "off + (x - adr) < 4096" using len less.prems(2) by auto
    then have "take sm (drop off ?buf) ! (x - adr) = fbyte f x" "x - adr < length (take sm (drop off ?buf))"
      using x less.prems(1,2) by (simp_all add: read)
    with that show "fbyte f x = 0xFF" unfolding blank_def by (metis nth_mem)
  qed
  obtain f1 where f1: "(if \<not> blank (take sm (drop off ?buf)) then
       QSpiWriteAny dev (QSpiFlashEraseSector dev f (sn * 4096)) (sn * 4096)
         (take off ?buf @ take sm xs @ drop (off + sm) ?buf)
     else QSpiWriteAny dev f adr (take sm xs)) = Some (0, f1)"
     "\<forall>x. fbyte f1 x = stored f adr (take sm xs) x"
    using rewrite_sector [OF less.prems(2) len refl, of f sn] QSpiWriteAny_ok [OF er] less.prems(1)
    by (cases "blank (take sm (drop off ?buf))") auto
  show ?case
  proof (cases "length xs = sm")
    case True
    then show ?thesis
      using f1 by (subst write_flash_loop.simps) (simp add: Let_def FLASH_SECTOR_SIZE_def)
  next
    case False
    define ys where "ys = drop sm xs"
    define sm' where "sm' = (if length xs - sm > FLASH_SECTOR_SIZE then FLASH_SECTOR_SIZE else length xs - sm)"
    have p: "0 < sm" "off + sm = 4096" using less.prems(5) False by auto
    have ys: "length ys < length xs" "length ys = length xs - sm" using p(1) less.prems(3) False by (auto simp: ys_def)
    have "sm < length xs" using less.prems(3) False by simp
    then have "sn + 1 < 256" using less.prems(1,4) p by linarith
    then have sn: "(sn + 1) mod 256 = sn + 1" by simp
    have q: "adr + sm = (sn + 1) * 4096 + 0" "0 + sm' \<le> 4096" "sm' \<le> length ys"
      "adr + sm + length ys \<le> 256 * 4096" "length ys \<noteq> sm' \<longrightarrow> 0 < sm' \<and> 0 + sm' = 4096"
      using less.prems(1,4) p ys(2) False less.prems(3) by (simp_all add: sm'_def FLASH_SECTOR_SIZE_def)
    obtain f' where f': "write_flash_loop dev f1 (sn + 1) 0 sm' (adr + sm) ys = Some f'"
        "\<forall>x. fbyte f' x = stored f1 (adr + sm) ys x"
      using less.hyps [OF ys(1) q] by blast
    have "stored f1 (adr + sm) ys x = stored f adr xs x" for x
      using stored_append [of f1 f adr "take sm xs" "adr + sm" ys x] f1(2) len by (simp add: ys_def)
    moreover have "write_flash_loop dev f sn off sm adr xs = Some f'"
      using f1(1) False f'(1) sn
      by (subst write_flash_loop.simps) (simp add: Let_def sm'_def ys_def FLASH_SECTOR_SIZE_def)
    ultimately show ?thesis using f'(2) by simp
  qed
qed

lemma WriteFlash_ok:
  assumes "adr + length xs \<le> 256 * 4096" "adr < 256 * 4096"
  shows "\<exists>f'. WriteFlash dev True xs adr f = Some f' \<and> (\<forall>x. fbyte f' x = stored f adr xs x)"
proof -
  have "adr div 4096 mod 256 = adr div 4096" using assms by simp
  moreover have "adr mod 4096 < 4096" by simp
  moreover have "\<exists>f'. write_flash_loop dev f (adr div 4096) (adr mod 4096)
      (if length xs \<le> 4096 - adr mod 4096 then length xs else 4096 - adr mod 4096) adr xs = Some f' \<and>
      (\<forall>x. fbyte f' x = stored f adr xs x)"
    using assms(1) calculation(2) by (intro write_flash_loop_ok) auto
  ultimately show ?thesis
    by (simp only: WriteFlash_def Let_def FLASH_SECTOR_SIZE_def) simp
qed

text \<open>What is written is what is read, and other addresses keep their contents.\<close>

lemma write_read:
  assumes "adr + length xs \<le> 256 * 4096" "adr < 256 * 4096"
  shows "\<exists>f'. WriteFlash dev True xs adr f = Some f' \<and> ReadFlash dev f' (length xs) adr = xs \<and>
     (\<forall>b n. b + n \<le> adr \<or> adr + length xs \<le> b \<longrightarrow> ReadFlash dev f' n b = ReadFlash dev f n b)"
proof -
  obtain f' where f': "WriteFlash dev True xs adr f = Some f'" "\<forall>x. fbyte f' x = stored f adr xs x"
    using WriteFlash_ok [OF assms] by blast
  have "ReadFlash dev f' (length xs) adr = xs"
    unfolding ReadFlash_def read by (rule nth_equalityI) (simp_all add: f' stored_def)
  moreover have "ReadFlash dev f' n b = ReadFlash dev f n b" if "b + n \<le> adr \<or> adr + length xs \<le> b" for b n
    unfolding ReadFlash_def read using that by (auto simp: f' stored_def)
  ultimately show ?thesis using f'(1) by blast
qed

end

section \<open>A NOR array\<close>

text \<open>A flash chip as a byte array: programming a page combines by AND with a wrap inside the page as
  the chips do, erasing fills a sector with ones.\<close>

type_synonym nor = "nat \<Rightarrow> u8"

definition nor_read :: "nor \<Rightarrow> nat \<Rightarrow> nat \<Rightarrow> bytes" where
  "nor_read f a n = map f [a..<a + n]"

definition nor_prog :: "nor \<Rightarrow> nat \<Rightarrow> bytes \<Rightarrow> nor" where
  "nor_prog f a xs = fold (\<lambda>(i, v) g. let x = a div 256 * 256 + (a + i) mod 256 in g(x := g x AND v))
     (zip [0..<length xs] xs) f"

definition nor_erase :: "nor \<Rightarrow> nat \<Rightarrow> nor" where
  "nor_erase f a = (\<lambda>x. if x div 4096 = a div 4096 then 0xFF else f x)"

definition nor_dev :: "nor flash_dev" where
  "nor_dev = \<lparr>QSpiFlashRead = nor_read, QSpiFlashWriteOnePage = nor_prog, QSpiFlashEraseSector = nor_erase\<rparr>"

lemma nor_prog_snoc: "nor_prog f a (xs @ [v]) =
    (let g = nor_prog f a xs; x = a div 256 * 256 + (a + length xs) mod 256 in g(x := g x AND v))"
  by (simp add: nor_prog_def zip_append1 Let_def)

lemma nor_prog_byte:
  "a mod 256 + length xs \<le> 256 \<Longrightarrow> nor_prog f a xs x =
     (if a \<le> x \<and> x < a + length xs then f x AND xs ! (x - a) else f x)"
proof (induction xs rule: rev_induct)
  case Nil
  then show ?case by (auto simp: nor_prog_def)
next
  case (snoc v xs)
  have "a mod 256 + length xs < 256" using snoc.prems by simp
  then have "(a mod 256 + length xs) mod 256 = a mod 256 + length xs" by (rule mod_less)
  then have "(a + length xs) mod 256 = a mod 256 + length xs" by (simp only: mod_add_left_eq)
  then have pos: "a div 256 * 256 + (a + length xs) mod 256 = a + length xs"
    using div_mult_mod_eq [of a 256] by simp
  show ?case
    unfolding nor_prog_snoc Let_def pos using snoc by (auto simp: nth_append)
qed

interpretation nor: nor_flash nor_dev "\<lambda>f. f"
  by unfold_locales (simp_all add: nor_dev_def nor_read_def nor_erase_def nor_prog_byte)

section \<open>Properties\<close>

text \<open>C13: on a NOR flash \<^verbatim>\<open>WriteFlash\<close> ends, what it wrote is read back, and every region outside the
  written one keeps its contents, also inside the sectors that had to be erased.\<close>

theorem WriteFlash_readback:
  assumes "adr + length xs \<le> 256 * 4096" "adr < 256 * 4096"
  shows "\<exists>f'. WriteFlash nor_dev True xs adr f = Some f' \<and> ReadFlash nor_dev f' (length xs) adr = xs \<and>
     (\<forall>b n. b + n \<le> adr \<or> adr + length xs \<le> b \<longrightarrow> ReadFlash nor_dev f' n b = ReadFlash nor_dev f n b)"
  by (rule nor.write_read [OF assms])

theorem WriteFlash_witness:
  "\<exists>f'. WriteFlash nor_dev True [1, 2, 3] 4094 (\<lambda>_. 0) = Some f' \<and> ReadFlash nor_dev f' 3 4094 = [1, 2, 3] \<and>
     ReadFlash nor_dev f' 2 4092 = ReadFlash nor_dev (\<lambda>_. 0) 2 4092"
proof -
  obtain f' where f: "WriteFlash nor_dev True [1, 2, 3] 4094 (\<lambda>_. 0) = Some f'" "ReadFlash nor_dev f' 3 4094 = [1, 2, 3]"
     "\<forall>b n. b + n \<le> 4094 \<or> 4094 + length [1, 2, 3 :: u8] \<le> b \<longrightarrow>
        ReadFlash nor_dev f' n b = ReadFlash nor_dev (\<lambda>_. 0) n b"
    using WriteFlash_readback [of 4094 "[1, 2, 3]" "\<lambda>_. 0"] by (auto simp: numeral_3_eq_3)
  from f(3) have "ReadFlash nor_dev f' 2 4092 = ReadFlash nor_dev (\<lambda>_. 0) 2 4092" by simp
  with f show ?thesis by blast
qed

text \<open>A device that ignores every program command.\<close>

definition dead_dev :: "nor flash_dev" where
  "dead_dev = \<lparr>QSpiFlashRead = nor_read, QSpiFlashWriteOnePage = (\<lambda>f a xs. f), QSpiFlashEraseSector = (\<lambda>f a. f)\<rparr>"

lemma retry_dead: "nor_read f a (length xs) \<noteq> xs \<Longrightarrow> retry_page dead_dev w f a xs j = (f, 2 ^ w - 1)"
  by (induction j) (simp_all add: dead_dev_def)

text \<open>A page that never reads back is not noticed: on a device that ignores every program
  command \<^verbatim>\<open>QSpiWriteAny\<close> returns 0 for any data within a page that differs from what the page holds,
  because the counter has wrapped to all ones when it is compared with 0.\<close>

theorem QSpiWriteAny_unnoticed:
  assumes "length xs \<le> 256 - adr mod 256" "ReadFlash dead_dev f (length xs) adr \<noteq> xs"
  shows "QSpiWriteAny dead_dev f adr xs = Some (0, f) \<and> ReadFlash dead_dev f (length xs) adr \<noteq> xs"
proof -
  have "nor_read f adr (length xs) \<noteq> xs" using assms(2) by (simp add: ReadFlash_def dead_dev_def)
  then have "retry_page dead_dev 16 f adr xs 10 = (f, 65535)" by (simp add: retry_dead)
  then have "write_any_loop dead_dev f adr xs (length xs) = Some (0, f)"
    by (subst write_any_loop.simps) simp
  then show ?thesis using assms by (simp add: QSpiWriteAny_def Let_def FLASH_PAGE_SIZE_def)
qed

theorem QSpiWriteAny_unnoticed_witness:
  "QSpiWriteAny dead_dev (\<lambda>_. 0xFF) 0 [1, 2] = Some (0, \<lambda>_. 0xFF)"
  using QSpiWriteAny_unnoticed [of "[1, 2]" 0 "\<lambda>_. 0xFF"]
  by (simp add: ReadFlash_def dead_dev_def nor_read_def)

end
