(* ===== verification/Inet.thy ===== *)
theory Inet
  imports SN_Prelude "HOL-Library.Monad_Syntax"
begin

text \<open>
  Internet addresses as text: \<^verbatim>\<open>ipaddr_aton\<close>, \<^verbatim>\<open>ipaddr_addr\<close>, \<^verbatim>\<open>ipaddr_ntoa\<close> of
  \<^verbatim>\<open>LwIP/src/core/ipv4/ip_addr.c\<close>, which the AT commands, the web pages and the factory defaults use under
  their socket names \<^verbatim>\<open>inet_aton\<close>, \<^verbatim>\<open>inet_addr\<close>, \<^verbatim>\<open>inet_ntoa\<close>. An address is a 32 bit word in network order,
  so its bytes in memory are the four numbers in the order they are written.
\<close>

section \<open>Definitions\<close>

definition isxdigit :: "char \<Rightarrow> bool" where
  "isxdigit c \<longleftrightarrow> isdigit c \<or> 97 \<le> cval c \<and> cval c \<le> 102 \<or> 65 \<le> cval c \<and> cval c \<le> 70"

text \<open>The inner loop: the digits of one part in the base its prefix announces.\<close>

fun aton_digits :: "u32 \<Rightarrow> u32 \<Rightarrow> string \<Rightarrow> u32 \<times> string" where
  "aton_digits base val [] = (val, [])"
| "aton_digits base val (c # cp) =
     (if isdigit c then aton_digits base (val * base + of_nat (cval c - 48)) cp
      else if base = 16 \<and> isxdigit c then
        aton_digits base (push_bit 4 val OR of_nat (cval c + 10 - (if islower c then 97 else 65))) cp
      else (val, c # cp))"

definition aton_number :: "string \<Rightarrow> (u32 \<times> string) option" where
  "aton_number s =
     (case s of
        [] \<Rightarrow> None
      | c # cp \<Rightarrow>
          if \<not> isdigit c then None
          else if c = CHR ''0'' then
            (case cp of
               [] \<Rightarrow> Some (aton_digits 8 0 [])
             | x # cp1 \<Rightarrow> if x = CHR ''x'' \<or> x = CHR ''X'' then Some (aton_digits 16 0 cp1)
                          else Some (aton_digits 8 0 cp))
          else Some (aton_digits 10 0 s))"

text \<open>The outer loop: parts separated by dots, at most three of them stored in \<^verbatim>\<open>parts\<close>.\<close>

function aton_parts :: "string \<Rightarrow> u32 list \<Rightarrow> (u32 list \<times> u32 \<times> string) option" where
  "aton_parts s parts =
     (case aton_number s of
        None \<Rightarrow> None
      | Some (val, r) \<Rightarrow>
          if r \<noteq> [] \<and> hd r = CHR ''.'' then
            if length parts \<ge> 3 then None else aton_parts (tl r) (parts @ [val])
          else Some (parts, val, r))"
  by pat_completeness auto
termination by (relation "measure (\<lambda>(s, parts). 3 - length parts)") auto

declare aton_parts.simps [simp del]

definition aton_concoct :: "u32 list \<Rightarrow> u32 \<Rightarrow> u32 option" where
  "aton_concoct parts val =
     (case parts of
        [] \<Rightarrow> Some val
      | [a] \<Rightarrow> if val > 0xffffff then None else Some (val OR push_bit 24 a)
      | [a, b] \<Rightarrow> if val > 0xffff then None else Some (val OR (push_bit 24 a OR push_bit 16 b))
      | a # b # c # _ \<Rightarrow>
          if val > 0xff then None
          else Some (val OR (push_bit 24 a OR push_bit 16 b OR push_bit 8 c)))"

text \<open>\<open>None\<close> is the result 0 of \<^verbatim>\<open>ipaddr_aton\<close>, \<open>Some a\<close> the result 1 with \<open>a\<close> stored.\<close>

definition ipaddr_aton :: "string \<Rightarrow> u32 option" where
  "ipaddr_aton cp =
     do {
       (parts, val, r) \<leftarrow> aton_parts cp [];
       if r \<noteq> [] \<and> \<not> isspace (hd r) then None
       else map_option htonl (aton_concoct parts val)
     }"

definition IPADDR_NONE :: u32 where "IPADDR_NONE = 0xffffffff"

definition ipaddr_addr :: "string \<Rightarrow> u32" where
  "ipaddr_addr cp = (case ipaddr_aton cp of Some v \<Rightarrow> v | None \<Rightarrow> IPADDR_NONE)"

text \<open>\<^verbatim>\<open>ipaddr_ntoa_r\<close>: the digits of an octet come out low first into \<^verbatim>\<open>inv\<close> and are copied backwards;
  \<open>None\<close> is the NULL of a buffer that is too short.\<close>

fun ntoa_inv :: "nat \<Rightarrow> string" where
  "ntoa_inv ap = digit_char (ap mod 10) # (if ap div 10 = 0 then [] else ntoa_inv (ap div 10))"

declare ntoa_inv.simps [simp del]

fun ntoa_put :: "nat \<Rightarrow> string \<Rightarrow> string \<Rightarrow> string option" where
  "ntoa_put buflen out [] = Some out"
| "ntoa_put buflen out (c # cs) =
     (if length out \<ge> buflen then None else ntoa_put buflen (out @ [c]) cs)"

fun ntoa_octets :: "nat \<Rightarrow> string \<Rightarrow> bytes \<Rightarrow> string option" where
  "ntoa_octets buflen out [] = Some out"
| "ntoa_octets buflen out (b # bs) =
     do {
       out1 \<leftarrow> ntoa_put buflen out (rev (ntoa_inv (unat b)));
       out2 \<leftarrow> ntoa_put buflen out1 [CHR ''.''];
       ntoa_octets buflen out2 bs
     }"

definition ipaddr_ntoa_r :: "u32 \<Rightarrow> nat \<Rightarrow> string option" where
  "ipaddr_ntoa_r addr buflen = map_option butlast (ntoa_octets buflen [] (le32 addr))"

definition ipaddr_ntoa :: "u32 \<Rightarrow> string option" where
  "ipaddr_ntoa addr = ipaddr_ntoa_r addr 16"

section \<open>Printing fits and parses back\<close>

lemma ntoa_inv_rev: "rev (ntoa_inv n) = dec_of_nat n"
proof (induction n rule: ntoa_inv.induct)
  case (1 ap)
  show ?case
  proof (cases "ap < 10")
    case True
    then show ?thesis by (simp add: ntoa_inv.simps [of ap] dec_of_nat.simps [of ap])
  next
    case False
    then have "ap div 10 \<noteq> 0" by simp
    with 1 False show ?thesis by (simp add: ntoa_inv.simps [of ap] dec_of_nat.simps [of ap])
  qed
qed

lemma dec_of_nat_length: "n < 256 \<Longrightarrow> length (dec_of_nat n) \<le> 3"
  by (simp add: dec_of_nat.simps [of n] dec_of_nat.simps [of "n div 10"] dec_of_nat.simps [of "n div 10 div 10"])

lemma ntoa_put_ok: "length out + length cs \<le> buflen \<Longrightarrow> ntoa_put buflen out cs = Some (out @ cs)"
  by (induction cs arbitrary: out) simp_all

lemma ntoa_octets_ok:
  "length out + 4 * length bs \<le> buflen \<Longrightarrow>
     ntoa_octets buflen out bs = Some (out @ concat (map (\<lambda>b. dec_of_nat (unat b) @ ''.'') bs))"
proof (induction bs arbitrary: out)
  case Nil
  then show ?case by simp
next
  case (Cons b bs)
  have "unat b < 256" using unsigned_less [of b] by simp
  then have b: "length (dec_of_nat (unat b)) \<le> 3" by (rule dec_of_nat_length)
  have 1: "ntoa_put buflen out (rev (ntoa_inv (unat b))) = Some (out @ dec_of_nat (unat b))"
    unfolding ntoa_inv_rev by (rule ntoa_put_ok) (use b Cons.prems in simp)
  have 2: "ntoa_put buflen (out @ dec_of_nat (unat b)) ''.'' = Some (out @ dec_of_nat (unat b) @ ''.'')"
    by (subst ntoa_put_ok) (use b Cons.prems in simp_all)
  show ?case
    unfolding ntoa_octets.simps 1 bind.bind_lunit 2
    by (subst Cons.IH) (use b Cons.prems in simp_all)
qed

definition dotted :: "nat \<Rightarrow> nat \<Rightarrow> nat \<Rightarrow> nat \<Rightarrow> string" where
  "dotted a b c d = dec_of_nat a @ ''.'' @ dec_of_nat b @ ''.'' @ dec_of_nat c @ ''.'' @ dec_of_nat d"

lemma ipaddr_ntoa_dotted:
  "ipaddr_ntoa (of_le32 [a, b, c, d]) = Some (dotted (unat a) (unat b) (unat c) (unat d))"
  by (simp add: ipaddr_ntoa_def ipaddr_ntoa_r_def ntoa_octets_ok dotted_def butlast_append
      del: of_le32.simps ntoa_octets.simps ntoa_put.simps)

lemma aton_digits_dec:
  assumes "\<forall>c \<in> set ds. isdigit c" and "r = [] \<or> \<not> isdigit (hd r)"
  shows "aton_digits 10 (of_nat v) (ds @ r) = (of_nat (foldl (\<lambda>a c. 10 * a + (cval c - 48)) v ds), r)"
  using assms(1)
proof (induction ds arbitrary: v)
  case Nil
  then show ?case using assms(2) by (cases r) auto
next
  case (Cons c ds)
  have "(of_nat v * 10 + of_nat (cval c - 48) :: u32) = of_nat (10 * v + (cval c - 48))"
    by (simp add: mult.commute)
  with Cons show ?case by (auto simp del: of_nat_add of_nat_mult)
qed

lemma dec_of_nat_hd0: "n \<noteq> 0 \<Longrightarrow> hd (dec_of_nat n) \<noteq> CHR ''0''"
proof (induction n rule: dec_of_nat.induct)
  case (1 n)
  show ?case
  proof (cases "n < 10")
    case True
    then have "cval (digit_char n) = 48 + n" by simp
    with 1(2) have "digit_char n \<noteq> CHR ''0''" by (auto simp: cval_inject [symmetric])
    with True show ?thesis by (simp add: dec_of_nat.simps [of n])
  next
    case False
    then have "n div 10 \<noteq> 0" by simp
    with 1(1) False show ?thesis by (simp add: dec_of_nat.simps [of n] hd_append)
  qed
qed

lemma aton_number_dec:
  assumes "r = [] \<or> hd r = CHR ''.''"
  shows "aton_number (dec_of_nat n @ r) = Some (of_nat n, r)"
proof (cases "n = 0")
  case True
  have "digit_char 0 = CHR ''0''" by (simp add: cval_inject [symmetric])
  then have "dec_of_nat n = [CHR ''0'']" unfolding True by (simp add: dec_of_nat.simps)
  moreover have "isdigit (CHR ''0'')" "\<not> isdigit (CHR ''.'')" by (simp_all add: isdigit_def)
  ultimately show ?thesis using assms True by (cases r) (auto simp: aton_number_def)
next
  case False
  obtain c cs where c: "dec_of_nat n = c # cs" using dec_of_nat_not_Nil [of n] by (cases "dec_of_nat n") auto
  have d: "isdigit c" using dec_of_nat_digits [of n] by (simp add: c)
  have z: "c \<noteq> CHR ''0''" using dec_of_nat_hd0 [OF False] by (simp add: c)
  have "\<not> isdigit (CHR ''.'')" by (simp add: isdigit_def)
  with assms have r: "r = [] \<or> \<not> isdigit (hd r)" by auto
  have "aton_number (dec_of_nat n @ r) = Some (aton_digits 10 0 (dec_of_nat n @ r))"
    using d z by (simp add: c aton_number_def)
  also have "aton_digits 10 0 (dec_of_nat n @ r) = (of_nat (dec_value (dec_of_nat n)), r)"
    using aton_digits_dec [OF dec_of_nat_digits r, of 0 n] unfolding dec_value_def by simp
  finally show ?thesis by simp
qed

lemma aton_parts_dotted:
  "aton_parts (dotted a b c d) [] = Some ([of_nat a, of_nat b, of_nat c], of_nat d, [])"
  unfolding dotted_def
  by (simp add: aton_parts.simps aton_number_dec aton_number_dec [of "[]", simplified])

lemma of_nat_unat8 [simp]: "(of_nat (unat (b::u8)) :: u32) = ucast b"
  by (simp add: unsigned_ucast_eq)

lemma concoct_bytes:
  "aton_concoct [ucast (a::u8), ucast (b::u8), ucast (c::u8)] (ucast (d::u8)) = Some (of_le32 [d, c, b, a])"
proof -
  have "unat d < 256" using unsigned_less [of d] by simp
  then have "unat (ucast d :: u32) < 256" by (simp add: unsigned_ucast_eq take_bit_nat_eq_self)
  then have "\<not> (ucast d :: u32) > 0xff" by (simp add: word_less_nat_alt)
  then show ?thesis by (simp add: aton_concoct_def or.assoc or.commute or.left_commute)
qed

lemma u32_bytes: obtains a b c d where "(addr::u32) = of_le32 [a, b, c, d]"
  using of_le32_le32 [of addr "[]"] by (metis append_Nil2 le32_def)

text \<open>C37: printing never runs out of the 16 byte buffer of \<^verbatim>\<open>ipaddr_ntoa\<close> and \<^verbatim>\<open>ipaddr_aton\<close> reads the
  text back: every address survives the way through its dotted form.\<close>

theorem ipaddr_ntoa_aton:
  "\<exists>s. ipaddr_ntoa addr = Some s \<and> length s < 16 \<and> ipaddr_aton s = Some addr"
proof -
  obtain a b c d where addr: "addr = of_le32 [a, b, c, d]" by (rule u32_bytes)
  have len: "length (dec_of_nat (unat x)) \<le> 3" for x :: u8
    using unsigned_less [of x] by (intro dec_of_nat_length) simp
  have l: "length (dotted (unat a) (unat b) (unat c) (unat d)) < 16"
    using len [of a] len [of b] len [of c] len [of d] by (simp add: dotted_def)
  have "ipaddr_aton (dotted (unat a) (unat b) (unat c) (unat d)) = Some (htonl (of_le32 [d, c, b, a]))"
    unfolding ipaddr_aton_def aton_parts_dotted by (simp add: concoct_bytes del: of_le32.simps)
  also have "htonl (of_le32 [d, c, b, a]) = addr"
    unfolding htonl_def le32_of_le32 addr by simp
  finally show ?thesis using ipaddr_ntoa_dotted [of a b c d] l unfolding addr by blast
qed

end
