(* ===== verification/Params.thy ===== *)
theory Params
  imports SN_Prelude "HOL-Library.Monad_Syntax"
begin

text \<open>
  The configuration store: the structures of \<^verbatim>\<open>Include/param.h\<close> and \<^verbatim>\<open>App/SerialNet/common.h\<close>, the setters
  and control interfaces of \<^verbatim>\<open>Sys/param.c\<close>, and the parameter routines of the web server in
  \<^verbatim>\<open>App/Webserver/wifi_opt.c\<close>. An array field is a list of its bytes; \<open>store_at\<close> is a \<^verbatim>\<open>memcpy\<close> into it and is
  \<open>None\<close> when it would leave the array, so a result \<open>Some\<close> is also a proof that no store was out of bounds.
  Messages posted to the MAC task (\<^verbatim>\<open>PostTaskMsg\<close>, a ROM function) are recorded in order.
\<close>

section \<open>Data\<close>

record WIFI_CFG =
  Ssid :: bytes
  SSIDBrdEnable :: u8
  PhyMode :: u8
  Channel :: u8
  Encry :: u8
  AuthMode :: u8
  Protocol :: u8
  KeyLength :: u8
  KeyIndex :: u8
  PSK :: bytes
  WscEn :: u8
  ConTryTimes :: u8
  WmmEn :: u8

record IP_CFG =
  Ip :: bytes
  Netmask :: bytes
  GateWay :: bytes
  Dns :: bytes
  bDhcp :: u8
  DhcpTryTimes :: u8
  Res_2 :: bytes

record CFG_PARAM =
  WiFiCfg :: WIFI_CFG
  IPCfg :: IP_CFG
  bDhcpServer :: u8
  bDnsServer :: u8
  DnsName :: bytes
  Res_3 :: bytes

text \<open>\<open>padding\<close> holds the two alignment bytes between \<^verbatim>\<open>SleepMode\<close> and \<^verbatim>\<open>Baudrate\<close>, which \<^verbatim>\<open>memcpy\<close> and the flash
  copy as well.\<close>

record USER_CFG_PARAM =
  isValid :: u32
  atMode :: u8
  SleepMode :: u8
  padding :: bytes
  Baudrate :: u32
  socketProtocol :: u8
  socketType :: u8
  socketPort :: u16
  remoteCommIp :: u32
  frameLength :: u16
  frameGap :: u16
  cfg :: CFG_PARAM
  web_ssid :: bytes
  web_key :: bytes
  web_IPCfg :: IP_CFG

datatype MLME_ID =
    MLME_SCAN_REQUEST_ID | MLME_DIRECT_CFG_ID | MLME_START_ID | MLME_STOP_ID | MLME_PS_MODE_SET_ID
  | MLME_DEEP_SLEEP_SET_ID | MLME_TX_RATE_SET_ID | MLME_TX_PWR_LEVEL_SET_ID | MLME_AUTO_WAKEUP_ID
  | MLME_BCN_PRD_SET_ID | MLME_LISTEN_INTVL_SET_ID | MLME_PEER_AGE_OUT_SET_ID | MLME_PEER_KICK_OUT_ID
  | MLME_PROTECT_MODE_SET_ID | MLME_WPS_START_SET_ID | MLME_WPS_STOP_SET_ID | MLME_SNIFFER_START_ID
  | MLME_VENDOR_IE_SET_ID

text \<open>The globals: \<^verbatim>\<open>SysParam\<close>, \<^verbatim>\<open>UserParam\<close>, \<^verbatim>\<open>FactoryParam\<close>, the adapter address, the event callback (a code
  address), and the queue of the MAC task.\<close>

record params =
  SysParam :: CFG_PARAM
  UserParam :: USER_CFG_PARAM
  FactoryParam :: USER_CFG_PARAM
  PermanentAddress :: bytes
  SysEvtCB :: u32
  gpMacMngTskMsgQ :: "(MLME_ID \<times> bytes) list"

definition PostTaskMsg :: "MLME_ID \<Rightarrow> bytes \<Rightarrow> 'a params_scheme \<Rightarrow> 'a params_scheme" where
  "PostTaskMsg i body s = s\<lparr>gpMacMngTskMsgQ := gpMacMngTskMsgQ s @ [(i, body)]\<rparr>"

text \<open>A \<^verbatim>\<open>memcpy\<close> of \<open>n\<close> bytes from a source of known extent to offset \<open>p\<close> of an array.\<close>

definition store_at :: "bytes \<Rightarrow> nat \<Rightarrow> bytes \<Rightarrow> nat \<Rightarrow> bytes option" where
  "store_at b p src n = (if n \<le> length src then buf_write b p (take n src) else None)"

section \<open>Defaults\<close>

definition zero_WIFI_CFG :: WIFI_CFG where
  "zero_WIFI_CFG = \<lparr>Ssid = replicate 33 0, SSIDBrdEnable = 0, PhyMode = 0, Channel = 0, Encry = 0, AuthMode = 0,
     Protocol = 0, KeyLength = 0, KeyIndex = 0, PSK = replicate 64 0, WscEn = 0, ConTryTimes = 0, WmmEn = 0\<rparr>"

definition zero_IP_CFG :: IP_CFG where
  "zero_IP_CFG = \<lparr>Ip = replicate 4 0, Netmask = replicate 4 0, GateWay = replicate 4 0, Dns = replicate 4 0,
     bDhcp = 0, DhcpTryTimes = 0, Res_2 = replicate 2 0\<rparr>"

definition zero_CFG_PARAM :: CFG_PARAM where
  "zero_CFG_PARAM = \<lparr>WiFiCfg = zero_WIFI_CFG, IPCfg = zero_IP_CFG, bDhcpServer = 0, bDnsServer = 0,
     DnsName = replicate 33 0, Res_3 = [0]\<rparr>"

definition zero_USER_CFG_PARAM :: USER_CFG_PARAM where
  "zero_USER_CFG_PARAM = \<lparr>isValid = 0, atMode = 0, SleepMode = 0, padding = [0, 0], Baudrate = 0,
     socketProtocol = 0, socketType = 0, socketPort = 0, remoteCommIp = 0, frameLength = 0, frameGap = 0,
     cfg = zero_CFG_PARAM, web_ssid = replicate 32 0, web_key = replicate 64 0, web_IPCfg = zero_IP_CFG\<rparr>"

definition to_bytes :: "string \<Rightarrow> bytes" where
  "to_bytes s = map (\<lambda>c. of_nat (cval c)) s"

definition of_bytes :: "bytes \<Rightarrow> string" where
  "of_bytes b = map (\<lambda>x. char_of (unat x)) (takeWhile (\<lambda>x. x \<noteq> 0) b)"

text \<open>\<^verbatim>\<open>strcpy\<close>/\<^verbatim>\<open>sprintf\<close> of a literal into a zeroed array: text and NUL.\<close>

definition put_cstring :: "bytes \<Rightarrow> string \<Rightarrow> bytes option" where
  "put_cstring b s = buf_write b 0 (to_bytes s @ [0])"

definition default_IP :: "IP_CFG \<Rightarrow> IP_CFG" where
  "default_IP c = c\<lparr>bDhcp := 1, DhcpTryTimes := 5, Ip := [192, 168, 0, 1], Netmask := [255, 255, 255, 0],
     GateWay := [192, 168, 0, 1], Dns := [192, 168, 0, 1]\<rparr>"

definition web_config_init :: "'a params_scheme \<Rightarrow> 'a params_scheme option" where
  "web_config_init s =
     do {
       ssid \<leftarrow> buf_write (replicate 32 0) 0 (to_bytes ''nufront_sta'');
       key \<leftarrow> buf_write (replicate 64 0) 0 (to_bytes ''nufront_sta'');
       Some (s\<lparr>FactoryParam := (FactoryParam s)\<lparr>web_ssid := ssid, web_key := key,
                 web_IPCfg := default_IP zero_IP_CFG\<rparr>\<rparr>)
     }"

definition InfLoadDefaultParam :: "'a params_scheme \<Rightarrow> 'a params_scheme option" where
  "InfLoadDefaultParam s =
     do {
       ssid \<leftarrow> put_cstring (Ssid zero_WIFI_CFG)
         (''Nufront_Serial'' @ hex2_of_u8 (PermanentAddress s ! 4) @ hex2_of_u8 (PermanentAddress s ! 5));
       dns \<leftarrow> put_cstring (DnsName zero_CFG_PARAM) ''nufront.com'';
       web_config_init (s\<lparr>SysParam := zero_CFG_PARAM\<lparr>
         WiFiCfg := zero_WIFI_CFG\<lparr>Ssid := ssid, SSIDBrdEnable := 1, Channel := 11, Encry := 0, AuthMode := 0,
           Protocol := 2, KeyIndex := 0, KeyLength := 0, WmmEn := 0, PhyMode := 1\<rparr>,
         IPCfg := default_IP zero_IP_CFG, bDhcpServer := 1, bDnsServer := 1, DnsName := dns\<rparr>\<rparr>)
     }"

section \<open>Configuration interface\<close>

text \<open>A result pairs the return value with the state; \<open>None\<close> is a store or load outside its buffer. A
  pointer argument is \<open>None\<close> when it is \<^verbatim>\<open>NULL\<close>.\<close>

type_synonym 'a result = "(int \<times> 'a params_scheme) option"

definition upd_wifi :: "(WIFI_CFG \<Rightarrow> WIFI_CFG) \<Rightarrow> 'a params_scheme \<Rightarrow> 'a params_scheme" where
  "upd_wifi f s = s\<lparr>SysParam := (SysParam s)\<lparr>WiFiCfg := f (WiFiCfg (SysParam s))\<rparr>\<rparr>"

definition InfConfigQuery :: "bool \<Rightarrow> 'a params_scheme \<Rightarrow> int \<times> CFG_PARAM option" where
  "InfConfigQuery nonnull s = (if nonnull then (0, Some (SysParam s)) else (-1, None))"

definition InfNetModeSet :: "u32 \<Rightarrow> 'a params_scheme \<Rightarrow> int \<times> 'a params_scheme" where
  "InfNetModeSet Mode s =
     (if (ucast Mode :: u8) \<ge> 3 then (-1, s) else (0, upd_wifi (\<lambda>w. w\<lparr>Protocol := ucast Mode\<rparr>) s))"

definition InfPhyModeSet :: "u32 \<Rightarrow> 'a params_scheme \<Rightarrow> int \<times> 'a params_scheme" where
  "InfPhyModeSet Mode s =
     (if (ucast Mode :: u8) \<ge> 3 then (-1, s) else (0, upd_wifi (\<lambda>w. w\<lparr>PhyMode := ucast Mode\<rparr>) s))"

definition InfSsidSet :: "bytes option \<Rightarrow> u8 \<Rightarrow> 'a params_scheme \<Rightarrow> 'a result" where
  "InfSsidSet pSsid SsidLen s =
     (let old = Ssid (WiFiCfg (SysParam s))
      in if pSsid = None \<or> SsidLen > 32 \<or> SsidLen = 0 then
           do { b \<leftarrow> buf_write old 0 [0]; Some (-1, upd_wifi (\<lambda>w. w\<lparr>Ssid := b\<rparr>) s) }
         else
           do { b \<leftarrow> store_at old 0 (the pSsid) (unat SsidLen);
                b1 \<leftarrow> buf_write b (unat SsidLen) [0];
                Some (0, upd_wifi (\<lambda>w. w\<lparr>Ssid := b1\<rparr>) s) })"

definition InfSsidBrdcastSet :: "u8 \<Rightarrow> 'a params_scheme \<Rightarrow> int \<times> 'a params_scheme" where
  "InfSsidBrdcastSet Enable s = (0, upd_wifi (\<lambda>w. w\<lparr>SSIDBrdEnable := if Enable \<noteq> 0 then 1 else 0\<rparr>) s)"

definition InfChannelSet :: "u8 \<Rightarrow> 'a params_scheme \<Rightarrow> int \<times> 'a params_scheme" where
  "InfChannelSet Ch s =
     (if Ch < 1 \<or> Ch > 13 then (-1, s) else (0, upd_wifi (\<lambda>w. w\<lparr>Channel := Ch\<rparr>) s))"

definition InfEncModeSet :: "u32 \<Rightarrow> 'a params_scheme \<Rightarrow> int \<times> 'a params_scheme" where
  "InfEncModeSet EncMode s =
     (if (ucast EncMode :: u8) \<ge> 5 then (-1, s) else (0, upd_wifi (\<lambda>w. w\<lparr>Encry := ucast EncMode\<rparr>) s))"

definition InfAuthModeSet :: "u32 \<Rightarrow> 'a params_scheme \<Rightarrow> int \<times> 'a params_scheme" where
  "InfAuthModeSet Mode s =
     (if (ucast Mode :: u8) \<ge> 4 then (-1, s) else (0, upd_wifi (\<lambda>w. w\<lparr>AuthMode := ucast Mode\<rparr>) s))"

definition InfKeySet :: "u8 \<Rightarrow> bytes option \<Rightarrow> u8 \<Rightarrow> 'a params_scheme \<Rightarrow> 'a result" where
  "InfKeySet Index KeyBuf KeyLen s =
     (if Index > 3 \<or> KeyBuf = None \<or> KeyLen > 64 then Some (-1, s)
      else
        do { b \<leftarrow> store_at (PSK (WiFiCfg (SysParam s))) 0 (the KeyBuf) (unat KeyLen);
             b1 \<leftarrow> (if KeyLen < 64 then buf_write b (unat KeyLen) [0] else Some b);
             Some (0, upd_wifi (\<lambda>w. w\<lparr>KeyIndex := Index, KeyLength := KeyLen, PSK := b1\<rparr>) s) })"

definition InfConTryTimesSet :: "u8 \<Rightarrow> 'a params_scheme \<Rightarrow> int \<times> 'a params_scheme" where
  "InfConTryTimesSet TryTimes s = (0, upd_wifi (\<lambda>w. w\<lparr>ConTryTimes := TryTimes\<rparr>) s)"

definition InfWmmEnableSet :: "u8 \<Rightarrow> 'a params_scheme \<Rightarrow> int \<times> 'a params_scheme" where
  "InfWmmEnableSet Enable s = (0, upd_wifi (\<lambda>w. w\<lparr>WmmEn := Enable\<rparr>) s)"

definition InfIpSet :: "IP_CFG option \<Rightarrow> 'a params_scheme \<Rightarrow> int \<times> 'a params_scheme" where
  "InfIpSet IpParam s =
     (case IpParam of None \<Rightarrow> (-1, s) | Some c \<Rightarrow> (0, s\<lparr>SysParam := (SysParam s)\<lparr>IPCfg := c\<rparr>\<rparr>))"

definition InfDhcpSrvSet :: "u8 \<Rightarrow> 'a params_scheme \<Rightarrow> int \<times> 'a params_scheme" where
  "InfDhcpSrvSet Enable s =
     (0, s\<lparr>SysParam := (SysParam s)\<lparr>bDhcpServer := if Enable \<noteq> 0 then 1 else 0\<rparr>\<rparr>)"

definition InfDnsSrvSet :: "u8 \<Rightarrow> bytes option \<Rightarrow> u8 \<Rightarrow> 'a params_scheme \<Rightarrow> 'a result" where
  "InfDnsSrvSet Enable Name DnsNameLen s =
     (if Enable \<noteq> 0 then
        if Name = None \<or> DnsNameLen > 32 then Some (-1, s)
        else do { b \<leftarrow> store_at (DnsName (SysParam s)) 0 (the Name) (unat DnsNameLen);
                  Some (0, s\<lparr>SysParam := (SysParam s)\<lparr>bDnsServer := 1, DnsName := b\<rparr>\<rparr>) }
      else Some (0, s\<lparr>SysParam := (SysParam s)\<lparr>bDnsServer := 0\<rparr>\<rparr>))"

definition InfMacAddrSet :: "bytes option \<Rightarrow> 'a params_scheme \<Rightarrow> 'a result" where
  "InfMacAddrSet Addr s =
     (case Addr of None \<Rightarrow> Some (-1, s)
      | Some a \<Rightarrow> do { b \<leftarrow> store_at (PermanentAddress s) 0 a 6; Some (0, s\<lparr>PermanentAddress := b\<rparr>) })"

definition InfSysEvtCBSet :: "u32 \<Rightarrow> 'a params_scheme \<Rightarrow> int \<times> 'a params_scheme" where
  "InfSysEvtCBSet pFuncCb s = (if pFuncCb = 0 then (-1, s) else (0, s\<lparr>SysEvtCB := pFuncCb\<rparr>))"

section \<open>Control interface\<close>

text \<open>Pointers that travel inside a message are 32 bit addresses; \<open>InfScanStart\<close> is given the address of the
  table and its \<^verbatim>\<open>InfoCount\<close> (\<open>None\<close> for NULL). The signed arguments are read with \<open>sint\<close>.\<close>

definition InfWiFiStart :: "'a params_scheme \<Rightarrow> int \<times> 'a params_scheme" where
  "InfWiFiStart s = (0, PostTaskMsg MLME_START_ID [] s)"

definition InfWiFiStop :: "'a params_scheme \<Rightarrow> int \<times> 'a params_scheme" where
  "InfWiFiStop s = (0, PostTaskMsg MLME_STOP_ID [] s)"

definition InfScanStart :: "(u32 \<times> u8) option \<Rightarrow> u8 \<Rightarrow> u8 \<Rightarrow> 'a params_scheme \<Rightarrow> int \<times> 'a params_scheme" where
  "InfScanStart pScanTable MinRssiFilter ScanType s =
     (case pScanTable of
        None \<Rightarrow> (-1, s)
      | Some (adr, InfoCount) \<Rightarrow>
          if InfoCount = 0 then (-1, s)
          else (0, PostTaskMsg MLME_SCAN_REQUEST_ID
                     (le32 adr @ [if sint MinRssiFilter > 0 then 0 else MinRssiFilter, ScanType]) s))"

definition InfTxRateSet :: "u32 \<Rightarrow> u32 \<Rightarrow> 'a params_scheme \<Rightarrow> int \<times> 'a params_scheme" where
  "InfTxRateSet RateMode RateIdx s =
     (let post = (0, PostTaskMsg MLME_TX_RATE_SET_ID [ucast RateMode, ucast RateIdx] s)
      in if RateMode = 0 then (if RateIdx > 4 then (-1, s) else post)
         else if RateMode = 1 \<or> RateMode = 2 then (if RateIdx > 8 then (-1, s) else post)
         else (-1, s))"

definition InfTxPwrLevelSet :: "u32 \<Rightarrow> 'a params_scheme \<Rightarrow> int \<times> 'a params_scheme" where
  "InfTxPwrLevelSet TxPwrLevel s =
     (if TxPwrLevel > 9 then (-1, s) else (0, PostTaskMsg MLME_TX_PWR_LEVEL_SET_ID [ucast TxPwrLevel] s))"

definition InfPowerSaveSet :: "u8 \<Rightarrow> 'a params_scheme \<Rightarrow> int \<times> 'a params_scheme" where
  "InfPowerSaveSet PowerSaveMode s =
     (if PowerSaveMode > 3 then (-1, s) else (0, PostTaskMsg MLME_PS_MODE_SET_ID [PowerSaveMode] s))"

definition WAKEUP_MODE_GPIO0 :: u32 where "WAKEUP_MODE_GPIO0 = 0"
definition WAKEUP_MODE_32K_TIMER :: u32 where "WAKEUP_MODE_32K_TIMER = 0x80000000"

definition InfDeepSleepSet :: "u32 \<Rightarrow> 'a params_scheme \<Rightarrow> int \<times> 'a params_scheme" where
  "InfDeepSleepSet WakeUpMode s =
     (if WakeUpMode > WAKEUP_MODE_GPIO0 \<and> WakeUpMode AND WAKEUP_MODE_32K_TIMER = 0 then (-1, s)
      else (0, PostTaskMsg MLME_DEEP_SLEEP_SET_ID (le32 WakeUpMode) s))"

definition InfBeaconPeriodSet :: "u16 \<Rightarrow> u8 \<Rightarrow> 'a params_scheme \<Rightarrow> int \<times> 'a params_scheme" where
  "InfBeaconPeriodSet BcnPrd NotifyPeerEn s =
     (0, PostTaskMsg MLME_BCN_PRD_SET_ID (le16 BcnPrd @ [NotifyPeerEn]) s)"

definition InfListenIntervalSet :: "u8 \<Rightarrow> u8 \<Rightarrow> 'a params_scheme \<Rightarrow> int \<times> 'a params_scheme" where
  "InfListenIntervalSet ListenIntv ListenDtim s =
     (if ListenIntv = 0 then (-1, s)
      else (0, PostTaskMsg MLME_LISTEN_INTVL_SET_ID [ListenIntv, ListenDtim] s))"

definition InfDirectCfgStart :: "u8 \<Rightarrow> u8 \<Rightarrow> u32 \<Rightarrow> 'a params_scheme \<Rightarrow> int \<times> 'a params_scheme" where
  "InfDirectCfgStart MinRssiFilter TryPeerNum pCustomStr s =
     (0, PostTaskMsg MLME_DIRECT_CFG_ID
           ([MinRssiFilter, TryPeerNum] @ (if pCustomStr \<noteq> 0 then le32 pCustomStr else [0, 0, 0, 0])) s)"

definition InfSnifferStart :: "u32 \<Rightarrow> bytes \<Rightarrow> u8 \<Rightarrow> 'a params_scheme \<Rightarrow> int \<times> 'a params_scheme" where
  "InfSnifferStart pFuncCb BindBssid ch s =
     (0, PostTaskMsg MLME_SNIFFER_START_ID (le32 pFuncCb @ take 6 BindBssid @ [ch]) s)"

definition InfPeerAgeOutSet :: "u32 \<Rightarrow> 'a params_scheme \<Rightarrow> int \<times> 'a params_scheme" where
  "InfPeerAgeOutSet Time s = (0, PostTaskMsg MLME_PEER_AGE_OUT_SET_ID (le32 Time) s)"

definition InfPeerKickOut :: "bytes option \<Rightarrow> 'a params_scheme \<Rightarrow> int \<times> 'a params_scheme" where
  "InfPeerKickOut pMacAddr s =
     (case pMacAddr of None \<Rightarrow> (-1, s) | Some m \<Rightarrow> (0, PostTaskMsg MLME_PEER_KICK_OUT_ID (take 6 m) s))"

definition InfProtectModeSet :: "u32 \<Rightarrow> 'a params_scheme \<Rightarrow> int \<times> 'a params_scheme" where
  "InfProtectModeSet Mode s =
     (if Mode > 2 then (-1, s) else (0, PostTaskMsg MLME_PROTECT_MODE_SET_ID [ucast Mode] s))"

definition InfVendorIESet :: "u32 \<Rightarrow> u8 \<Rightarrow> 'a params_scheme \<Rightarrow> int \<times> 'a params_scheme" where
  "InfVendorIESet pIePtr IeLen s = (0, PostTaskMsg MLME_VENDOR_IE_SET_ID (le32 pIePtr @ [IeLen]) s)"

text \<open>\<^verbatim>\<open>InfSysTimeGet\<close> for the tick counter \<^verbatim>\<open>Ticks.QuadPart\<close>; every step is 64 bit arithmetic.\<close>

definition InfSysTimeGet :: "u64 \<Rightarrow> u64" where
  "InfSysTimeGet Ticks = (Ticks div 1024 * 125) + (Ticks mod 1024 * 125 div 1024)"

section \<open>The web server's parameter routines\<close>

definition wl_get_ssid :: "'a params_scheme \<Rightarrow> string" where
  "wl_get_ssid s = of_bytes (Ssid (WiFiCfg (SysParam s)))"

text \<open>\<^verbatim>\<open>WlKeyBuf\<close> has 65 bytes; the outer \<open>None\<close> is a store outside it, the inner one the NULL result.\<close>

definition wl_get_key :: "'a params_scheme \<Rightarrow> bytes \<Rightarrow> (string option \<times> bytes) option" where
  "wl_get_key s WlKeyBuf =
     (let w = WiFiCfg (SysParam s)
      in if KeyLength w > 64 then Some (None, WlKeyBuf)
         else do { b \<leftarrow> store_at WlKeyBuf 0 (PSK w) (unat (KeyLength w));
                   b1 \<leftarrow> buf_write b (unat (KeyLength w)) [0];
                   Some (Some (of_bytes b1), b1) })"

definition AuthModeStr :: "string list" where
  "AuthModeStr = [''open'', ''share'', ''wpapsk'', ''wpa2psk'']"

definition EncModeStr :: "string list" where
  "EncModeStr = [''open'', ''web'', ''tkip'', ''ccmp'', ''auto'']"

definition wl_get_authmode :: "'a params_scheme \<Rightarrow> string option" where
  "wl_get_authmode s =
     (let m = AuthMode (WiFiCfg (SysParam s)) in if m < 4 then Some (AuthModeStr ! unat m) else None)"

definition wl_get_encrymode :: "'a params_scheme \<Rightarrow> string option" where
  "wl_get_encrymode s =
     (let m = Encry (WiFiCfg (SysParam s)) in if m < 5 then Some (EncModeStr ! unat m) else None)"

definition wl_get_channel :: "'a params_scheme \<Rightarrow> nat" where
  "wl_get_channel s = unat (Channel (WiFiCfg (SysParam s)))"

definition wl_set_ssid :: "string \<Rightarrow> 'a params_scheme \<Rightarrow> 'a result" where
  "wl_set_ssid ssid s =
     (let t = (if length ssid > 32 then take 31 ssid else ssid)
      in InfSsidSet (Some (to_bytes t @ [0])) (of_nat (length t)) s)"

definition KEY_LEN :: nat where "KEY_LEN = 64"

definition wl_set_key :: "string \<Rightarrow> 'a params_scheme \<Rightarrow> 'a result" where
  "wl_set_key key s =
     (let t = (if length key > KEY_LEN then take KEY_LEN key else key)
      in InfKeySet 0 (Some (to_bytes t @ [0])) (of_nat (length t)) s)"

definition upd_user_cfg :: "(CFG_PARAM \<Rightarrow> CFG_PARAM) \<Rightarrow> 'a params_scheme \<Rightarrow> 'a params_scheme" where
  "upd_user_cfg f s = s\<lparr>UserParam := (UserParam s)\<lparr>cfg := f (cfg (UserParam s))\<rparr>\<rparr>"

text \<open>\<^verbatim>\<open>ip4_addr1 .. ip4_addr4\<close> are the bytes of the address in memory order.\<close>

definition wl_set_ipconfig :: "u32 \<Rightarrow> u32 \<Rightarrow> u32 \<Rightarrow> u32 \<Rightarrow> 'a params_scheme \<Rightarrow> 'a params_scheme" where
  "wl_set_ipconfig ipaddr netmask gateway dnsserv s =
     upd_user_cfg (\<lambda>c. c\<lparr>IPCfg := (IPCfg c)\<lparr>Ip := le32 ipaddr, Netmask := le32 netmask,
       GateWay := le32 gateway, Dns := le32 dnsserv\<rparr>\<rparr>) s"

definition SetWifiParam ::
  "string \<Rightarrow> string \<Rightarrow> u32 \<Rightarrow> u32 \<Rightarrow> u32 \<Rightarrow> u32 \<Rightarrow> u32 \<Rightarrow> u32 \<Rightarrow> u32 \<Rightarrow> u32 \<Rightarrow> 'a params_scheme \<Rightarrow> 'a params_scheme option" where
  "SetWifiParam ssid key ipaddr netmask gateway dnsserv protocol encrymode authmode channel s =
     (let s1 = wl_set_ipconfig ipaddr netmask gateway dnsserv s;
          s2 = upd_user_cfg (\<lambda>c. c\<lparr>WiFiCfg := (WiFiCfg c)\<lparr>Protocol := ucast protocol\<rparr>\<rparr>) s1;
          ipc = IPCfg (cfg (UserParam s2));
          s3 = (if protocol = 0 then
                  s2\<lparr>UserParam := (UserParam s2)\<lparr>web_IPCfg :=
                    (web_IPCfg (UserParam s2))\<lparr>GateWay := GateWay ipc, Dns := Dns ipc\<rparr>\<rparr>\<rparr>
                else s2);
          w = WiFiCfg (cfg (UserParam s3))
      in do {
        sb \<leftarrow> buf_write (Ssid w) 0 (to_bytes ssid);
        sb1 \<leftarrow> buf_write sb (length ssid) [0];
        kb \<leftarrow> buf_write (PSK w) 0 (to_bytes key);
        kb1 \<leftarrow> (if length key < 64 then buf_write kb (length key) [0] else Some kb);
        Some (upd_user_cfg (\<lambda>c. c\<lparr>WiFiCfg := (WiFiCfg c)\<lparr>Ssid := sb1, PSK := kb1,
          KeyLength := of_nat (length key), AuthMode := ucast authmode, Encry := ucast encrymode,
          Channel := if channel > 0 \<and> channel < 14 then ucast channel else Channel (WiFiCfg c)\<rparr>\<rparr>) s3)
      })"

section \<open>Structure images\<close>

text \<open>The bytes of the structures as the compiler lays them out (natural alignment, little endian). All fields
  of \<^verbatim>\<open>CFG_PARAM\<close> are bytes, so it has no padding: 164 bytes, as \<^verbatim>\<open>common.h\<close> notes; \<^verbatim>\<open>USER_CFG_PARAM\<close> has 304.\<close>

definition WIFI_CFG_bytes :: "WIFI_CFG \<Rightarrow> bytes" where
  "WIFI_CFG_bytes w = Ssid w @ [SSIDBrdEnable w, PhyMode w, Channel w, Encry w, AuthMode w, Protocol w,
     KeyLength w, KeyIndex w] @ PSK w @ [WscEn w, ConTryTimes w, WmmEn w]"

definition bytes_WIFI_CFG :: "bytes \<Rightarrow> WIFI_CFG" where
  "bytes_WIFI_CFG b = \<lparr>Ssid = take 33 b, SSIDBrdEnable = b ! 33, PhyMode = b ! 34, Channel = b ! 35,
     Encry = b ! 36, AuthMode = b ! 37, Protocol = b ! 38, KeyLength = b ! 39, KeyIndex = b ! 40,
     PSK = take 64 (drop 41 b), WscEn = b ! 105, ConTryTimes = b ! 106, WmmEn = b ! 107\<rparr>"

definition IP_CFG_bytes :: "IP_CFG \<Rightarrow> bytes" where
  "IP_CFG_bytes c = Ip c @ Netmask c @ GateWay c @ Dns c @ [bDhcp c, DhcpTryTimes c] @ Res_2 c"

definition bytes_IP_CFG :: "bytes \<Rightarrow> IP_CFG" where
  "bytes_IP_CFG b = \<lparr>Ip = take 4 b, Netmask = take 4 (drop 4 b), GateWay = take 4 (drop 8 b),
     Dns = take 4 (drop 12 b), bDhcp = b ! 16, DhcpTryTimes = b ! 17, Res_2 = take 2 (drop 18 b)\<rparr>"

definition CFG_PARAM_bytes :: "CFG_PARAM \<Rightarrow> bytes" where
  "CFG_PARAM_bytes c = WIFI_CFG_bytes (WiFiCfg c) @ IP_CFG_bytes (IPCfg c) @ [bDhcpServer c, bDnsServer c] @
     DnsName c @ Res_3 c"

definition bytes_CFG_PARAM :: "bytes \<Rightarrow> CFG_PARAM" where
  "bytes_CFG_PARAM b = \<lparr>WiFiCfg = bytes_WIFI_CFG (take 108 b), IPCfg = bytes_IP_CFG (take 20 (drop 108 b)),
     bDhcpServer = b ! 128, bDnsServer = b ! 129, DnsName = take 33 (drop 130 b), Res_3 = take 1 (drop 163 b)\<rparr>"

definition USER_CFG_PARAM_bytes :: "USER_CFG_PARAM \<Rightarrow> bytes" where
  "USER_CFG_PARAM_bytes u = le32 (isValid u) @ [atMode u, SleepMode u] @ padding u @ le32 (Baudrate u) @
     [socketProtocol u, socketType u] @ le16 (socketPort u) @ le32 (remoteCommIp u) @ le16 (frameLength u) @
     le16 (frameGap u) @ CFG_PARAM_bytes (cfg u) @ web_ssid u @ web_key u @ IP_CFG_bytes (web_IPCfg u)"

definition bytes_USER_CFG_PARAM :: "bytes \<Rightarrow> USER_CFG_PARAM" where
  "bytes_USER_CFG_PARAM b = \<lparr>isValid = of_le32 b, atMode = b ! 4, SleepMode = b ! 5,
     padding = take 2 (drop 6 b), Baudrate = of_le32 (drop 8 b), socketProtocol = b ! 12, socketType = b ! 13,
     socketPort = of_le16 (drop 14 b), remoteCommIp = of_le32 (drop 16 b), frameLength = of_le16 (drop 20 b),
     frameGap = of_le16 (drop 22 b), cfg = bytes_CFG_PARAM (take 164 (drop 24 b)),
     web_ssid = take 32 (drop 188 b), web_key = take 64 (drop 220 b),
     web_IPCfg = bytes_IP_CFG (take 20 (drop 284 b))\<rparr>"

definition USER_CFG_PARAM_size :: nat where "USER_CFG_PARAM_size = 304"

text \<open>The array sizes of the structures.\<close>

definition sized_wifi :: "WIFI_CFG \<Rightarrow> bool" where
  "sized_wifi w \<longleftrightarrow> length (Ssid w) = 33 \<and> length (PSK w) = 64"

definition sized_ip :: "IP_CFG \<Rightarrow> bool" where
  "sized_ip c \<longleftrightarrow> length (Ip c) = 4 \<and> length (Netmask c) = 4 \<and> length (GateWay c) = 4 \<and> length (Dns c) = 4 \<and>
     length (Res_2 c) = 2"

definition sized_cfg :: "CFG_PARAM \<Rightarrow> bool" where
  "sized_cfg c \<longleftrightarrow> sized_wifi (WiFiCfg c) \<and> sized_ip (IPCfg c) \<and> length (DnsName c) = 33 \<and> length (Res_3 c) = 1"

definition sized_user :: "USER_CFG_PARAM \<Rightarrow> bool" where
  "sized_user u \<longleftrightarrow> sized_cfg (cfg u) \<and> sized_ip (web_IPCfg u) \<and> length (padding u) = 2 \<and>
     length (web_ssid u) = 32 \<and> length (web_key u) = 64"

lemma length_WIFI_CFG [simp]: "sized_wifi w \<Longrightarrow> length (WIFI_CFG_bytes w) = 108"
  by (simp add: sized_wifi_def WIFI_CFG_bytes_def)

lemma length_IP_CFG [simp]: "sized_ip c \<Longrightarrow> length (IP_CFG_bytes c) = 20"
  by (simp add: sized_ip_def IP_CFG_bytes_def)

lemma length_CFG_PARAM [simp]: "sized_cfg c \<Longrightarrow> length (CFG_PARAM_bytes c) = 164"
  by (simp add: sized_cfg_def CFG_PARAM_bytes_def)

lemma length_USER_CFG_PARAM [simp]: "sized_user u \<Longrightarrow> length (USER_CFG_PARAM_bytes u) = 304"
  by (simp add: sized_user_def USER_CFG_PARAM_bytes_def)

lemma bytes_WIFI_CFG_inverse [simp]: "sized_wifi w \<Longrightarrow> bytes_WIFI_CFG (WIFI_CFG_bytes w) = w"
  by (cases w) (simp add: sized_wifi_def bytes_WIFI_CFG_def WIFI_CFG_bytes_def nth_append)

lemma bytes_IP_CFG_inverse [simp]: "sized_ip c \<Longrightarrow> bytes_IP_CFG (IP_CFG_bytes c) = c"
  by (cases c) (simp add: sized_ip_def bytes_IP_CFG_def IP_CFG_bytes_def nth_append)

lemma bytes_CFG_PARAM_inverse [simp]: "sized_cfg c \<Longrightarrow> bytes_CFG_PARAM (CFG_PARAM_bytes c) = c"
  by (cases c) (simp add: sized_cfg_def bytes_CFG_PARAM_def CFG_PARAM_bytes_def nth_append)

lemma bytes_USER_CFG_PARAM_inverse [simp]:
  assumes "sized_user u" shows "bytes_USER_CFG_PARAM (USER_CFG_PARAM_bytes u) = u"
  using assms
  by (cases u) (simp add: sized_user_def bytes_USER_CFG_PARAM_def USER_CFG_PARAM_bytes_def nth_append)

text \<open>Whatever bytes are read, the structure they make has the right array sizes.\<close>

lemma sized_bytes_IP: "length b = 20 \<Longrightarrow> sized_ip (bytes_IP_CFG b)"
  by (simp add: sized_ip_def bytes_IP_CFG_def)

lemma sized_bytes_CFG: "length b = 164 \<Longrightarrow> sized_cfg (bytes_CFG_PARAM b)"
  by (simp add: sized_cfg_def bytes_CFG_PARAM_def sized_bytes_IP sized_wifi_def bytes_WIFI_CFG_def)

lemma sized_bytes_USER: "length b = 304 \<Longrightarrow> sized_user (bytes_USER_CFG_PARAM b)"
  by (simp add: sized_user_def bytes_USER_CFG_PARAM_def sized_bytes_IP sized_bytes_CFG)

text \<open>A state with a minimal valid configuration.\<close>

definition params0 :: params where
  "params0 = \<lparr>SysParam = zero_CFG_PARAM\<lparr>WiFiCfg := zero_WIFI_CFG\<lparr>Channel := 6\<rparr>,
       DnsName := to_bytes ''nufront.com'' @ replicate 22 0\<rparr>, UserParam = zero_USER_CFG_PARAM,
     FactoryParam = zero_USER_CFG_PARAM, PermanentAddress = [0, 0x13, 0xEF, 0, 0x12, 0x34], SysEvtCB = 0,
     gpMacMngTskMsgQ = []\<rparr>"

section \<open>The setters keep a valid configuration\<close>

text \<open>What the MAC task may rely on: terminated names, modes and lengths in range.\<close>

definition valid_wifi :: "WIFI_CFG \<Rightarrow> bool" where
  "valid_wifi w \<longleftrightarrow> sized_wifi w \<and> 0 \<in> set (Ssid w) \<and> SSIDBrdEnable w \<le> 1 \<and> PhyMode w < 3 \<and>
     1 \<le> Channel w \<and> Channel w \<le> 13 \<and> Encry w < 5 \<and> AuthMode w < 4 \<and> Protocol w < 3 \<and> KeyLength w \<le> 64 \<and>
     KeyIndex w \<le> 3"

definition valid_cfg :: "CFG_PARAM \<Rightarrow> bool" where
  "valid_cfg c \<longleftrightarrow> sized_cfg c \<and> valid_wifi (WiFiCfg c) \<and> bDhcpServer c \<le> 1 \<and> bDnsServer c \<le> 1 \<and>
     DnsName c ! 32 = 0"

text \<open>The calls of the configuration interface.\<close>

datatype cfg_call =
    NetMode u32 | PhyModeCall u32 | SsidCall "bytes option" u8 | SsidBrdcast u8 | ChannelCall u8
  | EncModeCall u32 | AuthModeCall u32 | KeyCall u8 "bytes option" u8 | ConTryTimesCall u8 | WmmEnable u8
  | IpCall "IP_CFG option" | DhcpSrv u8 | DnsSrv u8 "bytes option" u8

fun do_call :: "cfg_call \<Rightarrow> 'a params_scheme \<Rightarrow> 'a result" where
  "do_call (NetMode m) s = Some (InfNetModeSet m s)"
| "do_call (PhyModeCall m) s = Some (InfPhyModeSet m s)"
| "do_call (SsidCall p n) s = InfSsidSet p n s"
| "do_call (SsidBrdcast e) s = Some (InfSsidBrdcastSet e s)"
| "do_call (ChannelCall c) s = Some (InfChannelSet c s)"
| "do_call (EncModeCall m) s = Some (InfEncModeSet m s)"
| "do_call (AuthModeCall m) s = Some (InfAuthModeSet m s)"
| "do_call (KeyCall i p n) s = InfKeySet i p n s"
| "do_call (ConTryTimesCall n) s = Some (InfConTryTimesSet n s)"
| "do_call (WmmEnable e) s = Some (InfWmmEnableSet e s)"
| "do_call (IpCall c) s = Some (InfIpSet c s)"
| "do_call (DhcpSrv e) s = Some (InfDhcpSrvSet e s)"
| "do_call (DnsSrv e p n) s = InfDnsSrvSet e p n s"

text \<open>A buffer argument is readable for the length passed with it; a structure has its array sizes.\<close>

definition readable :: "bytes option \<Rightarrow> u8 \<Rightarrow> bool" where
  "readable p n \<longleftrightarrow> (case p of None \<Rightarrow> True | Some b \<Rightarrow> unat n \<le> length b)"

fun args_ok :: "cfg_call \<Rightarrow> bool" where
  "args_ok (SsidCall p n) \<longleftrightarrow> readable p n"
| "args_ok (KeyCall i p n) \<longleftrightarrow> readable p n"
| "args_ok (DnsSrv e p n) \<longleftrightarrow> readable p n"
| "args_ok (IpCall c) \<longleftrightarrow> (case c of None \<Rightarrow> True | Some c \<Rightarrow> sized_ip c)"
| "args_ok _ \<longleftrightarrow> True"

fun do_calls :: "cfg_call list \<Rightarrow> 'a params_scheme \<Rightarrow> 'a params_scheme option" where
  "do_calls [] s = Some s"
| "do_calls (c # cs) s = do { (r, s1) \<leftarrow> do_call c s; do_calls cs s1 }"

abbreviation wf_params :: "'a params_scheme \<Rightarrow> bool" where
  "wf_params s \<equiv> valid_cfg (SysParam s)"

lemma SysParam_upd_wifi [simp]:
  "SysParam (upd_wifi f s) = (SysParam s)\<lparr>WiFiCfg := f (WiFiCfg (SysParam s))\<rparr>"
  by (simp add: upd_wifi_def)

lemma store_at_Some:
  "unat n \<le> length src \<Longrightarrow> p + unat n \<le> length b \<Longrightarrow>
     store_at b p src (unat n) = Some (take p b @ take (unat n) src @ drop (p + unat n) b)"
  by (simp add: store_at_def buf_write_def)

lemma buf_write1: "p < length b \<Longrightarrow> buf_write b p [x] = Some (b[p := x])"
  by (simp add: buf_write_def upd_conv_take_nth_drop)

lemma unat_le_u8: "(n::u8) \<le> 32 \<Longrightarrow> unat n \<le> 32" "(n::u8) \<le> 64 \<Longrightarrow> unat n \<le> 64" "(n::u8) < 64 \<Longrightarrow> unat n < 64"
  by (simp_all add: word_le_nat_alt word_less_nat_alt)

lemma word_one_le: "(x::u8) \<noteq> 0 \<Longrightarrow> 1 \<le> x"
  using unat_gt_0 [of x] by (simp add: word_le_nat_alt Suc_le_eq)

lemma valid_upd_wifi:
  "valid_cfg c \<Longrightarrow> valid_wifi w \<Longrightarrow> valid_cfg (c\<lparr>WiFiCfg := w\<rparr>)"
  by (simp add: valid_cfg_def valid_wifi_def sized_cfg_def)

lemma InfSsidSet_ok:
  assumes "wf_params s" "readable p n"
  shows "\<exists>r s'. InfSsidSet p n s = Some (r, s') \<and> wf_params s'"
proof (cases "p = None \<or> n > 32 \<or> n = 0")
  case True
  have "0 < length (Ssid (WiFiCfg (SysParam s)))" using assms by (simp add: valid_cfg_def valid_wifi_def sized_wifi_def)
  with True assms show ?thesis
    by (auto simp: InfSsidSet_def buf_write1 Let_def intro!: valid_upd_wifi)
      (auto simp: valid_cfg_def valid_wifi_def sized_wifi_def intro: set_update_memI)
next
  case False
  then obtain b where p: "p = Some b" by auto
  let ?old = "Ssid (WiFiCfg (SysParam s))"
  have len: "length ?old = 33" using assms by (simp add: valid_cfg_def valid_wifi_def sized_wifi_def)
  have n: "unat n \<le> 32" using False by (simp add: word_le_nat_alt word_less_nat_alt)
  have "unat n \<le> length b" using assms(2) p by (simp add: readable_def)
  then have "InfSsidSet p n s = Some (0, upd_wifi (\<lambda>w. w\<lparr>Ssid := (take (unat n) b @ drop (unat n) ?old)[unat n := 0]\<rparr>) s)"
    using False len n p by (simp add: InfSsidSet_def store_at_Some buf_write1)
  moreover have "0 \<in> set ((take (unat n) b @ drop (unat n) ?old)[unat n := 0])"
    by (rule set_update_memI) (use \<open>unat n \<le> length b\<close> len n in simp)
  ultimately show ?thesis
    using assms(1) len n \<open>unat n \<le> length b\<close>
    by (auto intro!: valid_upd_wifi) (simp add: valid_cfg_def valid_wifi_def sized_wifi_def)
qed

lemma InfKeySet_ok:
  assumes "wf_params s" "readable p n"
  shows "\<exists>r s'. InfKeySet i p n s = Some (r, s') \<and> wf_params s'"
proof (cases "i > 3 \<or> p = None \<or> n > 64")
  case True
  then show ?thesis using assms by (auto simp: InfKeySet_def)
next
  case False
  then obtain b where p: "p = Some b" by auto
  let ?old = "PSK (WiFiCfg (SysParam s))"
  have len: "length ?old = 64" using assms by (simp add: valid_cfg_def valid_wifi_def sized_wifi_def)
  have n: "n \<le> 64" "unat n \<le> 64" and i: "i \<le> 3"
    using False unat_le_u8(2) [of n] by (auto simp: word_le_nat_alt word_less_nat_alt)
  have rd: "unat n \<le> length b" using assms(2) p by (simp add: readable_def)
  let ?b = "take (unat n) b @ drop (unat n) ?old"
  obtain b1 where b1: "(if n < 64 then buf_write ?b (unat n) [0] else Some ?b) = Some b1" "length b1 = 64"
    using len n rd by (cases "n < 64") (auto simp: buf_write1 word_less_nat_alt)
  have "InfKeySet i p n s = Some (0, upd_wifi (\<lambda>w. w\<lparr>KeyIndex := i, KeyLength := n, PSK := b1\<rparr>) s)"
    using False len n p rd b1 by (simp add: InfKeySet_def store_at_Some)
  then show ?thesis
    using assms(1) b1(2) n i
    by (auto intro!: valid_upd_wifi) (simp add: valid_cfg_def valid_wifi_def sized_wifi_def)
qed

lemma InfDnsSrvSet_ok:
  assumes "wf_params s" "readable p n"
  shows "\<exists>r s'. InfDnsSrvSet e p n s = Some (r, s') \<and> wf_params s'"
proof (cases "e \<noteq> 0 \<and> p \<noteq> None \<and> n \<le> 32")
  case False
  then show ?thesis using assms by (auto simp: InfDnsSrvSet_def valid_cfg_def sized_cfg_def)
next
  case True
  then obtain b where p: "p = Some b" by auto
  have n: "unat n \<le> 32" using True unat_le_u8(1) by blast
  have len: "length (DnsName (SysParam s)) = 33" and z: "DnsName (SysParam s) ! 32 = 0"
    using assms by (simp_all add: valid_cfg_def sized_cfg_def)
  have rd: "unat n \<le> length b" using assms(2) p by (simp add: readable_def)
  have "(take (unat n) b @ drop (unat n) (DnsName (SysParam s))) ! 32 = 0"
    using n len rd z by (simp add: nth_append)
  then show ?thesis
    using assms(1) True p n len rd
    by (auto simp: InfDnsSrvSet_def store_at_Some valid_cfg_def sized_cfg_def)
qed

lemma do_call_ok:
  assumes "wf_params s" "args_ok c"
  shows "\<exists>r s'. do_call c s = Some (r, s') \<and> wf_params s'"
proof (cases c)
  case (SsidCall p n)
  then show ?thesis using assms InfSsidSet_ok by simp
next
  case (KeyCall i p n)
  then show ?thesis using assms InfKeySet_ok by simp
next
  case (DnsSrv e p n)
  then show ?thesis using assms InfDnsSrvSet_ok by simp
qed (use assms in \<open>auto simp: valid_cfg_def valid_wifi_def sized_cfg_def sized_wifi_def InfNetModeSet_def
       InfPhyModeSet_def InfSsidBrdcastSet_def InfChannelSet_def InfEncModeSet_def InfAuthModeSet_def
       InfConTryTimesSet_def InfWmmEnableSet_def InfIpSet_def InfDhcpSrvSet_def not_le not_less
       word_one_le split: option.splits\<close>)

lemma do_calls_ok:
  "wf_params s \<Longrightarrow> \<forall>c \<in> set cs. args_ok c \<Longrightarrow> \<exists>s'. do_calls cs s = Some s' \<and> wf_params s'"
proof (induction cs arbitrary: s)
  case Nil
  then show ?case by simp
next
  case (Cons c cs)
  then obtain r s1 where s1: "do_call c s = Some (r, s1)" "wf_params s1" using do_call_ok by fastforce
  with Cons show ?case by simp
qed

text \<open>Strings in byte arrays.\<close>

lemma byte_of_char [simp]: "char_of (unat (of_nat (cval c) :: u8)) = c"
  by (simp add: unsigned_of_nat take_bit_nat_eq_self)

lemma of_nat_cval_0 [simp]: "(of_nat (cval c) :: u8) = 0 \<longleftrightarrow> c = NUL"
proof -
  have "(of_nat (cval c) :: u8) = 0 \<longleftrightarrow> unat (of_nat (cval c) :: u8) = 0" by (rule unat_eq_zero [symmetric])
  also have "\<dots> \<longleftrightarrow> cval c = 0" by (simp add: unsigned_of_nat take_bit_nat_eq_self)
  finally show ?thesis by simp
qed

lemma length_to_bytes [simp]: "length (to_bytes s) = length s"
  by (simp add: to_bytes_def)

lemma of_bytes_to_bytes:
  "cstring s \<Longrightarrow> r = [] \<or> hd r = 0 \<Longrightarrow> of_bytes (to_bytes s @ r) = s"
proof (induction s)
  case Nil
  then show ?case by (cases r) (auto simp: of_bytes_def to_bytes_def)
next
  case (Cons c s)
  then have "c \<noteq> NUL" "of_bytes (to_bytes s @ r) = s" by (auto simp: cstring_def)
  then show ?case by (simp add: of_bytes_def to_bytes_def)
qed

lemma put_cstring_Some:
  assumes "length s < length b"
  shows "put_cstring b s = Some (to_bytes s @ 0 # drop (Suc (length s)) b)"
  using assms by (simp add: put_cstring_def buf_write_def)

lemma length_hex2 [simp]: "length (hex2_of_u8 b) = 2"
  by (simp add: hex2_of_u8_def)

lemma InfLoadDefaultParam_ok:
  "\<exists>c ws wk ip. InfLoadDefaultParam s = Some (s\<lparr>SysParam := c,
       FactoryParam := (FactoryParam s)\<lparr>web_ssid := ws, web_key := wk, web_IPCfg := ip\<rparr>\<rparr>) \<and> valid_cfg c \<and>
     length ws = 32 \<and> length wk = 64 \<and> sized_ip ip \<and> of_bytes ws = ''nufront_sta'' \<and> of_bytes wk = ''nufront_sta'' \<and>
     of_bytes (DnsName c) = ''nufront.com''"
proof -
  let ?ss = "''Nufront_Serial'' @ hex2_of_u8 (PermanentAddress s ! 4) @ hex2_of_u8 (PermanentAddress s ! 5)"
  have 1: "put_cstring (Ssid zero_WIFI_CFG) ?ss = Some (to_bytes ?ss @ 0 # replicate 14 0)"
    by (subst put_cstring_Some) (simp_all add: zero_WIFI_CFG_def)
  have 2: "put_cstring (DnsName zero_CFG_PARAM) ''nufront.com'' = Some (to_bytes ''nufront.com'' @ 0 # replicate 21 0)"
    by (subst put_cstring_Some) (simp_all add: zero_CFG_PARAM_def)
  have 3: "buf_write (replicate 32 0) 0 (to_bytes ''nufront_sta'') = Some (to_bytes ''nufront_sta'' @ replicate 21 0)"
    "buf_write (replicate 64 0) 0 (to_bytes ''nufront_sta'') = Some (to_bytes ''nufront_sta'' @ replicate 53 0)"
    by (simp_all add: buf_write_def)
  have 4: "of_bytes (to_bytes ''nufront_sta'' @ replicate 21 0) = ''nufront_sta''"
    "of_bytes (to_bytes ''nufront_sta'' @ replicate 53 0) = ''nufront_sta''"
    "of_bytes (to_bytes ''nufront.com'' @ 0 # replicate 21 0) = ''nufront.com''"
    by (rule of_bytes_to_bytes; simp add: cstring_def NUL_def)+
  have 5: "(to_bytes ''nufront.com'' @ 0 # replicate 21 0) ! 32 = (0::u8)"
    by (simp add: nth_append)
  define c where "c = zero_CFG_PARAM\<lparr>WiFiCfg := zero_WIFI_CFG\<lparr>Ssid := to_bytes ?ss @ 0 # replicate 14 0,
      SSIDBrdEnable := 1, Channel := 11, Encry := 0, AuthMode := 0, Protocol := 2, KeyIndex := 0, KeyLength := 0,
      WmmEn := 0, PhyMode := 1\<rparr>, IPCfg := default_IP zero_IP_CFG, bDhcpServer := 1, bDnsServer := 1,
      DnsName := to_bytes ''nufront.com'' @ 0 # replicate 21 0\<rparr>"
  have 6: "InfLoadDefaultParam s = Some (s\<lparr>SysParam := c, FactoryParam := (FactoryParam s)\<lparr>
      web_ssid := to_bytes ''nufront_sta'' @ replicate 21 0, web_key := to_bytes ''nufront_sta'' @ replicate 53 0,
      web_IPCfg := default_IP zero_IP_CFG\<rparr>\<rparr>)"
    unfolding InfLoadDefaultParam_def 1 2 web_config_init_def 3 bind.bind_lunit c_def by simp
  have 7: "valid_cfg c"
    unfolding c_def using 5 by (simp add: valid_cfg_def valid_wifi_def sized_cfg_def sized_wifi_def sized_ip_def
         zero_CFG_PARAM_def zero_WIFI_CFG_def zero_IP_CFG_def default_IP_def)
  have 8: "sized_ip (default_IP zero_IP_CFG)" "of_bytes (DnsName c) = ''nufront.com''"
    using 4 by (simp_all add: sized_ip_def default_IP_def zero_IP_CFG_def c_def)
  have 9: "length (to_bytes ''nufront_sta'' @ replicate 21 0) = 32" "length (to_bytes ''nufront_sta'' @ replicate 53 0) = 64"
    by simp_all
  show ?thesis by (intro exI conjI) (rule 6 7 8 9 4)+
qed

text \<open>C23: no sequence of calls of the configuration interface writes outside a parameter array, and all of
  them, starting from the default parameters, leave a configuration with terminated names and every mode,
  channel, key length and key index in its range.\<close>

theorem config_calls_safe:
  assumes "\<forall>c \<in> set cs. args_ok c"
  shows "\<exists>s' s''. InfLoadDefaultParam s = Some s' \<and> do_calls cs s' = Some s'' \<and> valid_cfg (SysParam s'')"
proof -
  obtain s' where "InfLoadDefaultParam s = Some s'" "wf_params s'" using InfLoadDefaultParam_ok [of s] by auto
  with do_calls_ok [OF _ assms] show ?thesis by blast
qed

theorem config_calls_witness:
  "\<exists>s' s''. InfLoadDefaultParam params0 = Some s' \<and>
     do_calls [ChannelCall 6, SsidCall (Some [65, 66]) 2, KeyCall 0 None 3, SsidCall (Some (replicate 40 65)) 40] s' = Some s'' \<and>
     valid_cfg (SysParam s'')"
  by (rule config_calls_safe) (simp add: readable_def)

text \<open>The milliseconds since launch are the tick count times 125/1024, rounded down, for every 64 bit
  count: the split into quotient and remainder avoids the overflow of the plain product.\<close>

theorem InfSysTimeGet_exact: "unat (InfSysTimeGet t) = unat t * 125 div 1024"
proof -
  have t: "unat t < 2 ^ 64" using unsigned_less [of t] by simp
  let ?q = "unat t div 1024" and ?r = "unat t mod 1024"
  have r: "?r < 1024" by simp
  have q: "?q * 1024 + ?r = unat t" by simp
  have eq: "unat t * 125 div 1024 = ?q * 125 + ?r * 125 div 1024"
  proof -
    have "unat t * 125 = ?r * 125 + 1024 * (?q * 125)" using q by linarith
    then show ?thesis by (metis add.commute div_mult_self4 mult.commute zero_neq_numeral)
  qed
  have b1: "?q * 125 < 2 ^ 64" using t by linarith
  have "?r * 125 < 1024 * 125" using r by simp
  then have b2: "?r * 125 < 2 ^ 64" by simp
  have b3: "unat t * 125 div 1024 < 2 ^ 64" using t by linarith
  have q1: "unat (t div 1024 * 125) = ?q * 125"
    using b1 by (simp add: unat_word_ariths unat_div_distrib)
  have r1: "unat (t mod 1024 * 125) = ?r * 125"
    using b2 by (simp add: unat_word_ariths unat_mod_distrib)
  have "unat (t mod 1024 * 125 div 1024) = ?r * 125 div 1024" by (simp add: unat_div_distrib r1)
  with q1 b3 eq show ?thesis unfolding InfSysTimeGet_def by (simp add: unat_word_ariths)
qed

lemma take_to_bytes [simp]: "take n (to_bytes s) = to_bytes (take n s)"
  by (simp add: to_bytes_def take_map)

text \<open>What \<^verbatim>\<open>wl_set_ssid\<close> keeps of a name: all of it up to 32 characters, else its first 31.\<close>

definition kept_ssid :: "string \<Rightarrow> string" where
  "kept_ssid ssid = (if length ssid > 32 then take 31 ssid else ssid)"

lemma unat_of_nat_u8: "n < 256 \<Longrightarrow> unat (of_nat n :: u8) = n"
  by (simp add: unsigned_of_nat take_bit_nat_eq_self)

lemma of_nat_u8_cmp:
  assumes "n < 256"
  shows "(of_nat n :: u8) > 32 \<longleftrightarrow> n > 32" "(of_nat n :: u8) = 0 \<longleftrightarrow> n = 0" "(of_nat n :: u8) > 64 \<longleftrightarrow> n > 64"
    "(of_nat n :: u8) < 64 \<longleftrightarrow> n < 64"
  using unat_of_nat_u8 [OF assms] by (auto simp: word_less_nat_alt unat_eq_zero [symmetric])

lemma InfKeySet_text:
  assumes "length k \<le> 64" "length (PSK (WiFiCfg (SysParam s))) = 64"
  shows "InfKeySet 0 (Some (to_bytes k @ [0])) (of_nat (length k)) s = Some (0, upd_wifi (\<lambda>w. w\<lparr>KeyIndex := 0,
     KeyLength := of_nat (length k), PSK := to_bytes k @
       (if length k < 64 then 0 # drop (Suc (length k)) (PSK (WiFiCfg (SysParam s))) else [])\<rparr>) s)"
proof (cases "length k < 64")
  case True
  then show ?thesis
    using assms by (simp add: InfKeySet_def of_nat_u8_cmp unat_of_nat_u8 store_at_def buf_write_def)
next
  case False
  with assms have "length k = 64" by simp
  with assms show ?thesis by (simp add: InfKeySet_def store_at_def buf_write_def)
qed

lemma wl_get_key_text:
  assumes "length k \<le> 64" "cstring k" "length buf = 65"
    "KeyLength (WiFiCfg (SysParam s)) = of_nat (length k)" "PSK (WiFiCfg (SysParam s)) = to_bytes k @ r"
  shows "wl_get_key s buf = Some (Some k, to_bytes k @ 0 # drop (Suc (length k)) buf)"
  using assms of_bytes_to_bytes [OF assms(2), of "0 # drop (Suc (length k)) buf"]
  by (simp add: wl_get_key_def of_nat_u8_cmp unat_of_nat_u8 store_at_def buf_write_def)

text \<open>A network name and a key set through the web server read back through its getters: names of up to
  32 and keys of up to 64 characters whole, longer ones truncated as the setters do.\<close>

theorem web_ssid_key_roundtrip:
  assumes "valid_cfg (SysParam s)" "length buf = 65" "cstring ssid" "ssid \<noteq> []" "cstring key"
  shows "\<exists>s1 s2 buf'. wl_set_ssid ssid s = Some (0, s1) \<and> wl_set_key key s1 = Some (0, s2) \<and>
     wl_get_ssid s2 = kept_ssid ssid \<and> wl_get_key s2 buf = Some (Some (take 64 key), buf')"
proof -
  let ?w = "WiFiCfg (SysParam s)"
  have len: "length (Ssid ?w) = 33" "length (PSK ?w) = 64"
    using assms(1) by (simp_all add: valid_cfg_def valid_wifi_def sized_wifi_def)
  let ?n = "kept_ssid ssid" let ?k = "take 64 key"
  have n: "0 < length ?n" "length ?n \<le> 32" and cn: "cstring ?n"
    using assms(3,4) by (auto simp: kept_ssid_def cstring_def dest: in_set_takeD)
  have k: "length ?k \<le> 64" and ck: "cstring ?k"
    using assms(5) by (auto simp: cstring_def dest: in_set_takeD)
  let ?s1 = "upd_wifi (\<lambda>w. w\<lparr>Ssid := to_bytes ?n @ 0 # drop (Suc (length ?n)) (Ssid ?w)\<rparr>) s"
  have 1: "wl_set_ssid ssid s = Some (0, ?s1)"
    using n len
    by (simp add: wl_set_ssid_def Let_def kept_ssid_def [symmetric] InfSsidSet_def of_nat_u8_cmp unat_of_nat_u8 store_at_def
        buf_write_def drop_Suc [symmetric] Cons_nth_drop_Suc drop_eq_Nil2)
  let ?psk = "to_bytes ?k @ (if length ?k < 64 then 0 # drop (Suc (length ?k)) (PSK ?w) else [])"
  let ?s2 = "upd_wifi (\<lambda>w. w\<lparr>KeyIndex := 0, KeyLength := of_nat (length ?k), PSK := ?psk\<rparr>) ?s1"
  have tk: "(if length key > KEY_LEN then take KEY_LEN key else key) = ?k"
    by (simp add: KEY_LEN_def)
  have 2: "wl_set_key key ?s1 = Some (0, ?s2)"
    unfolding wl_set_key_def tk Let_def by (subst InfKeySet_text [OF k]) (use len in simp_all)
  have 3: "wl_get_ssid ?s2 = ?n"
    unfolding wl_get_ssid_def using of_bytes_to_bytes [OF cn, of "0 # drop (Suc (length ?n)) (Ssid ?w)"] by simp
  have "wl_get_key ?s2 buf = Some (Some ?k, to_bytes ?k @ 0 # drop (Suc (length ?k)) buf)"
    using wl_get_key_text [OF k ck assms(2), of ?s2] by simp
  with 1 2 3 show ?thesis by blast
qed

lemma params0_valid: "valid_cfg (SysParam params0)"
  by (simp add: params0_def valid_cfg_def valid_wifi_def sized_cfg_def sized_wifi_def sized_ip_def zero_CFG_PARAM_def
      zero_WIFI_CFG_def zero_IP_CFG_def nth_append)

theorem web_ssid_key_witness:
  "\<exists>s1 s2 buf'. wl_set_ssid ''home'' params0 = Some (0, s1) \<and> wl_set_key ''secret'' s1 = Some (0, s2) \<and>
     wl_get_ssid s2 = kept_ssid ''home'' \<and> wl_get_key s2 (replicate 65 0) = Some (Some (take 64 ''secret''), buf')"
  by (rule web_ssid_key_roundtrip [OF params0_valid]) (simp_all add: cstring_def NUL_def)

text \<open>\<^verbatim>\<open>InfDnsSrvSet\<close> copies a name without its terminator, so a name shorter than the one it replaces keeps the
  rest of the old name.\<close>

theorem dns_name_keeps_tail:
  assumes "sized_cfg (SysParam s)" "en \<noteq> 0" "cstring name" "length name \<le> 32"
    and "DnsName (SysParam s) = to_bytes old @ 0 # pad" "cstring old" "length name \<le> length old"
  shows "\<exists>s'. InfDnsSrvSet en (Some (to_bytes name)) (of_nat (length name)) s = Some (0, s') \<and>
     of_bytes (DnsName (SysParam s')) = name @ drop (length name) old"
proof -
  have n: "length name < 256" using assms(4) by simp
  have len: "length (DnsName (SysParam s)) = 33" using assms(1) by (simp add: sized_cfg_def)
  have d: "drop (length name) (DnsName (SysParam s)) = to_bytes (drop (length name) old) @ 0 # pad"
    using assms(5,7) by (simp add: to_bytes_def drop_map)
  have c: "cstring (name @ drop (length name) old)"
    using assms(3,6) by (auto simp: cstring_def dest: in_set_dropD)
  have ap: "to_bytes name @ to_bytes (drop (length name) old) = to_bytes (name @ drop (length name) old)"
    by (simp add: to_bytes_def)
  have "of_bytes (to_bytes name @ drop (length name) (DnsName (SysParam s))) = name @ drop (length name) old"
    using of_bytes_to_bytes [OF c, of "0 # pad"] unfolding d ap [symmetric] by simp
  then show ?thesis
    using assms(2,4) len
    by (simp add: InfDnsSrvSet_def of_nat_u8_cmp [OF n] unat_of_nat_u8 [OF n] store_at_def buf_write_def)
qed

theorem dns_name_witness:
  "\<exists>s'. InfDnsSrvSet 1 (Some (to_bytes ''a.com'')) (of_nat (length ''a.com'')) params0 = Some (0, s') \<and>
     of_bytes (DnsName (SysParam s')) = ''a.com'' @ drop (length ''a.com'') ''nufront.com''"
  by (rule dns_name_keeps_tail [where pad = "replicate 21 0"])
    (use params0_valid in \<open>simp_all add: valid_cfg_def cstring_def NUL_def params0_def replicate_Suc [symmetric]
       del: replicate_Suc\<close>)

end
