(* ===== verification/Ping.thy ===== *)
theory Ping
  imports Inet
begin

text \<open>
  The ping client (\<^verbatim>\<open>App/SerialNet/ping.c\<close>) over lwIP's raw API, with the Internet checksum of
  \<^verbatim>\<open>LwIP/src/core/ipv4/inet_chksum.c\<close> (algorithm 2, the one configured) that its packets carry. Packets handed to
  \<^verbatim>\<open>raw_sendto\<close>, text printed and timeouts armed are recorded in the state.
\<close>

section \<open>The Internet checksum\<close>

definition FOLD_U32T :: "u32 \<Rightarrow> u32" where
  "FOLD_U32T u = drop_bit 16 u + (u AND 0xffff)"

definition SWAP_BYTES_IN_WORD :: "u32 \<Rightarrow> u32" where
  "SWAP_BYTES_IN_WORD w = push_bit 8 (w AND 0xff) OR drop_bit 8 (w AND 0xff00)"

text \<open>The bulk loop: sum of the 16 bit words, and the byte that may be left over.\<close>

fun chksum_bulk :: "u32 \<Rightarrow> bytes \<Rightarrow> u32 \<times> bytes" where
  "chksum_bulk acc (a # b # r) = chksum_bulk (acc + ucast (of_le16 [a, b])) r"
| "chksum_bulk acc r = (acc, r)"

text \<open>\<open>isodd\<close> (\<^verbatim>\<open>odd\<close>) tells whether the data starts at an odd address.\<close>

definition lwip_standard_chksum :: "bool \<Rightarrow> bytes \<Rightarrow> u16" where
  "lwip_standard_chksum isodd data =
     (let hi = (if isodd \<and> data \<noteq> [] then hd data else 0);
          pb = (if isodd \<and> data \<noteq> [] then tl data else data)
      in case chksum_bulk 0 pb of
           (acc, r) \<Rightarrow>
             let lo = (if r \<noteq> [] then hd r else 0);
                 s = FOLD_U32T (FOLD_U32T (acc + ucast (of_le16 [lo, hi])))
             in ucast (if isodd then SWAP_BYTES_IN_WORD s else s))"

definition inet_chksum :: "bytes \<Rightarrow> u16" where
  "inet_chksum data = NOT (lwip_standard_chksum False data)"

section \<open>The ping client\<close>

definition PING_ID :: u16 where "PING_ID = 0xAFAF"
definition PING_DATA_SIZE :: nat where "PING_DATA_SIZE = 32"
definition ICMP_ECHO :: u8 where "ICMP_ECHO = 8"

record ping_state =
  s_ping_target :: u32
  ping_seq_num :: u16
  ping_recv_num :: u16
  ping_count :: u16
  ping_time :: u32
  ping_flag :: bool
  ping_out :: "string list"
  icmp_sent :: "(u32 \<times> bytes) list"
  ping_timer :: bool

text \<open>The echo header is type, code, checksum, id, sequence number; the fields are stored low byte first.\<close>

definition echo_packet :: "u16 \<Rightarrow> u16 \<Rightarrow> nat \<Rightarrow> bytes" where
  "echo_packet chksum seqno data_len =
     [ICMP_ECHO, 0] @ le16 chksum @ le16 PING_ID @ le16 seqno @ map of_nat [0..<data_len]"

definition ping_prepare_echo :: "nat \<Rightarrow> ping_state \<Rightarrow> bytes \<times> ping_state" where
  "ping_prepare_echo len p =
     (let p1 = p\<lparr>ping_seq_num := ping_seq_num p + 1\<rparr>;
          seqno = htons (ping_seq_num p1)
      in (echo_packet (inet_chksum (echo_packet 0 seqno (len - 8))) seqno (len - 8), p1))"

text \<open>\<open>alloc\<close> is whether \<^verbatim>\<open>pbuf_alloc\<close> gave one contiguous buffer, \<open>now\<close> the clock.\<close>

definition ping_send :: "bool \<Rightarrow> u32 \<Rightarrow> u32 \<Rightarrow> ping_state \<Rightarrow> ping_state" where
  "ping_send alloc now addr p =
     (let p1 = p\<lparr>s_ping_target := addr\<rparr>
      in if \<not> alloc then p1
         else case ping_prepare_echo (8 + PING_DATA_SIZE) p1 of
                (pkt, p2) \<Rightarrow> p2\<lparr>icmp_sent := icmp_sent p2 @ [(addr, pkt)], ping_time := now\<rparr>)"

definition pprintf :: "string \<Rightarrow> ping_state \<Rightarrow> ping_state" where
  "pprintf t p = p\<lparr>ping_out := ping_out p @ [t]\<rparr>"

definition ntoa :: "u32 \<Rightarrow> string" where
  "ntoa a = (case ipaddr_ntoa a of Some t \<Rightarrow> t | None \<Rightarrow> [])"

text \<open>\<^verbatim>\<open>ping_recv\<close> on the ICMP part of a packet (\<open>None\<close> when it is shorter than the two headers): whether it is eaten.\<close>

definition ping_recv :: "u32 \<Rightarrow> u8 \<Rightarrow> u32 \<Rightarrow> bytes option \<Rightarrow> ping_state \<Rightarrow> bool \<times> ping_state" where
  "ping_recv now ttl addr icmp p =
     (case icmp of
        None \<Rightarrow> (False, p)
      | Some h \<Rightarrow>
          if of_le16 (drop 4 h) = PING_ID \<and> of_le16 (drop 6 h) = htons (ping_seq_num p) then
            (True, pprintf (''bytes=32 time='' @ dec_of_int (sint (now - ping_time p)) @ ''ms'' @ [CHR 0x09] @ ''TTL='' @
                 dec_of_nat (unat ttl) @ [CHR 0x0A])
               (pprintf (''Reply from '' @ ntoa addr @ '': '') (p\<lparr>ping_recv_num := ping_recv_num p + 1\<rparr>)))
          else (False, p))"

text \<open>The statistics are \<^verbatim>\<open>int\<close> arithmetic on two 16 bit counters; C division truncates towards zero.\<close>

definition cdiv :: "int \<Rightarrow> int \<Rightarrow> int" where
  "cdiv a b = (if a < 0 then - (- a div b) else a div b)"

definition ping_stats :: "ping_state \<Rightarrow> string" where
  "ping_stats p =
     (let sn = int (unat (ping_seq_num p)); rn = int (unat (ping_recv_num p))
      in [CHR 0x09] @ ''Packets:Sent='' @ dec_of_int sn @ '', Received='' @ dec_of_int rn @ '', lost='' @
         dec_of_int (sn - rn) @ ''('' @ dec_of_int (cdiv ((sn - rn) * 100) sn) @ ''% loss)'' @ [CHR 0x0A, CHR 0x0D])"

definition ping_timeout :: "bool \<Rightarrow> u32 \<Rightarrow> ping_state \<Rightarrow> ping_state" where
  "ping_timeout alloc now p0 =
     (let p = p0\<lparr>ping_timer := False\<rparr>
      in if ping_count p \<noteq> 0 \<and> ping_seq_num p \<ge> ping_count p then
           (pprintf (''+OK:PING'' @ [CHR 0x0A, CHR 0x0D]) (pprintf (ping_stats p)
             (pprintf (''Ping statistics for '' @ ntoa (s_ping_target p) @ '':'' @ [CHR 0x0A, CHR 0x0D]) p)))
               \<lparr>ping_flag := False\<rparr>
         else (ping_send alloc now (s_ping_target p) p)\<lparr>ping_timer := True\<rparr>)"

definition ping_send_to :: "bool \<Rightarrow> u32 \<Rightarrow> u32 \<Rightarrow> ping_state \<Rightarrow> ping_state" where
  "ping_send_to alloc now target p =
     ping_send alloc now target
       (pprintf (''Pinging from '' @ ntoa target @ '': with 32 bytes of data:'' @ [CHR 0x0A, CHR 0x0A, CHR 0x0D]) p)"

definition ping_raw_init :: "ping_state \<Rightarrow> ping_state" where
  "ping_raw_init p = p\<lparr>ping_recv_num := 0, ping_seq_num := 0, ping_timer := True\<rparr>"

definition ping_init :: "int \<Rightarrow> ping_state \<Rightarrow> int \<times> ping_state" where
  "ping_init count p =
     (if \<not> ping_flag p then (0, ping_raw_init (p\<lparr>ping_flag := True, ping_count := of_int count\<rparr>)) else (-1, p))"

definition ping0 :: ping_state where
  "ping0 = \<lparr>s_ping_target = 0, ping_seq_num = 0, ping_recv_num = 0, ping_count = 0, ping_time = 0, ping_flag = False,
     ping_out = [], icmp_sent = [], ping_timer = False\<rparr>"

section \<open>The checksum is a ones' complement sum\<close>

fun word_sum :: "bytes \<Rightarrow> nat" where
  "word_sum (a # b # r) = unat (of_le16 [a, b]) + word_sum r"
| "word_sum _ = 0"

lemma word_sum_append: "even (length xs) \<Longrightarrow> word_sum (xs @ ys) = word_sum xs + word_sum ys"
  by (induction xs rule: word_sum.induct) simp_all

lemma unat_u16_less: "unat (w::u16) < 65536"
  using unsigned_less [of w] by simp

lemma word_sum_le: "word_sum xs \<le> 65535 * (length xs div 2)"
proof (induction xs rule: word_sum.induct)
  case (1 a b r)
  then show ?case using unat_u16_less [of "of_le16 [a, b]"] by (simp del: of_le16.simps)
qed simp_all

lemma chksum_bulk_sum:
  "even (length xs) \<Longrightarrow> unat acc + word_sum xs < 2 ^ 32 \<Longrightarrow>
     \<exists>s. chksum_bulk acc xs = (s, []) \<and> unat s = unat acc + word_sum xs"
proof (induction acc xs rule: chksum_bulk.induct)
  case (1 acc a b r)
  let ?w = "ucast (of_le16 [a, b]) :: u32"
  have "unat (acc + ?w) = unat acc + unat (of_le16 [a, b])"
    using 1(3) by (simp add: unat_word_ariths del: of_le16.simps)
  with 1 show ?case by (simp add: add.assoc del: of_le16.simps)
qed simp_all

lemma unat_FOLD: "unat (FOLD_U32T u) = unat u div 65536 + unat u mod 65536"
proof -
  have u: "unat u < 2 ^ 32" using unsigned_less [of u] by simp
  have 1: "unat (drop_bit 16 u) = unat u div 65536" by (simp add: drop_bit_eq_div unat_div_distrib)
  have "u AND 0xffff = take_bit 16 u" by (simp add: take_bit_eq_mask mask_eq_exp_minus_1)
  then have 2: "unat (u AND 0xffff) = unat u mod 65536" by (simp add: take_bit_eq_mod unat_mod_distrib)
  have "unat u div 65536 + unat u mod 65536 < 2 ^ 32" using u by linarith
  with 1 2 show ?thesis unfolding FOLD_U32T_def by (simp add: unat_word_ariths)
qed

text \<open>The folded sum is the sum modulo 65535, with 65535 and not 0 for a non-zero multiple.\<close>

definition fold16 :: "nat \<Rightarrow> nat" where
  "fold16 n = n div 65536 + n mod 65536"

lemma fold16_mod: "fold16 n mod 65535 = n mod 65535"
proof -
  have "n = 65536 * (n div 65536) + n mod 65536" by simp
  then have "n = 65535 * (n div 65536) + fold16 n" unfolding fold16_def by linarith
  then show ?thesis by (metis mod_mult_self4)
qed

lemma fold16_zero: "fold16 n = 0 \<longleftrightarrow> n = 0"
  by (auto simp: fold16_def)

lemma fold16_twice: "n < 2 ^ 32 \<Longrightarrow> fold16 (fold16 n) \<le> 65535"
proof -
  assume "n < 2 ^ 32"
  then have "n div 65536 \<le> 65535" by simp
  moreover have "n mod 65536 \<le> 65535" by (simp add: less_Suc_eq_le [symmetric])
  ultimately have m: "fold16 n \<le> 131070" by (simp add: fold16_def)
  show ?thesis
  proof (cases "fold16 n < 65536")
    case True
    then show ?thesis by (simp add: fold16_def [of "fold16 n"])
  next
    case False
    define k where "k = fold16 n - 65536"
    have k: "fold16 n = 65536 + k" "k \<le> 65534" using False m by (auto simp: k_def)
    show ?thesis using k(2) by (simp add: k(1) fold16_def [of "65536 + k"])
  qed
qed

lemma chksum_even:
  assumes "even (length xs)" "length xs \<le> 65536"
  shows "unat (lwip_standard_chksum False xs) = fold16 (fold16 (word_sum xs))"
proof -
  have "65535 * (length xs div 2) \<le> 65535 * 32768" using assms(2) by simp
  with word_sum_le [of xs] have "word_sum xs \<le> 65535 * 32768" by (rule order_trans)
  then have b: "word_sum xs < 2 ^ 32" by simp
  obtain s where s: "chksum_bulk 0 xs = (s, [])" "unat s = word_sum xs"
    using chksum_bulk_sum [OF assms(1), of 0] b by auto
  have z: "ucast (of_le16 [0, 0]) = (0::u32)" by simp
  have "unat (FOLD_U32T (FOLD_U32T s)) = fold16 (fold16 (word_sum xs))"
    by (simp add: unat_FOLD fold16_def s(2))
  moreover have "fold16 (fold16 (word_sum xs)) < 65536" using fold16_twice [OF b] by simp
  ultimately have "unat (ucast (FOLD_U32T (FOLD_U32T s)) :: u16) = fold16 (fold16 (word_sum xs))"
    by (simp add: unsigned_ucast_eq take_bit_nat_eq_self)
  then show ?thesis by (simp add: lwip_standard_chksum_def s(1) Let_def)
qed

lemma unat_NOT16: "unat (NOT (w::u16)) = 65535 - unat w"
proof -
  have "w \<le> - 1" by simp
  have "NOT w = - 1 - w" by (simp add: not_eq_complement)
  then have "unat (NOT w) = unat (- 1 :: u16) - unat w" by (simp add: unat_sub)
  then show ?thesis by (simp add: unsigned_minus_1_eq_mask mask_eq_exp_minus_1)
qed

lemma word_sum_le16: "word_sum (le16 w @ ys) = unat w + word_sum ys"
proof -
  have "of_le16 (le16 w) = w" using of_le16_le16 [of w "[]"] by simp
  then show ?thesis by (simp add: le16_def del: of_le16.simps)
qed

text \<open>A checksum put into a zero field makes the whole sum read as zero.\<close>

lemma checksum_verifies:
  assumes "even (length pre)" "even (length post)" "length pre + 2 + length post \<le> 65536"
    and "ck = inet_chksum (pre @ le16 0 @ post)"
  shows "inet_chksum (pre @ le16 ck @ post) = 0"
proof -
  let ?S = "word_sum pre + word_sum post"
  have ev: "even (length (pre @ le16 w @ post))" "length (pre @ le16 w @ post) \<le> 65536" for w
    using assms(1-3) by simp_all
  have ws: "word_sum (pre @ le16 w @ post) = ?S + unat w" for w
    using assms(1) by (simp add: word_sum_append word_sum_le16)
  define c where "c = fold16 (fold16 ?S)"
  have "?S < 2 ^ 32"
  proof -
    have "65535 * (length (pre @ le16 0 @ post) div 2) \<le> 65535 * 32768" using assms(3) by simp
    with word_sum_le [of "pre @ le16 0 @ post"] show ?thesis unfolding ws by (simp add: order_trans)
  qed
  then have c: "c \<le> 65535" "c mod 65535 = ?S mod 65535" "c = 0 \<longleftrightarrow> ?S = 0"
    by (simp_all add: c_def fold16_twice fold16_mod fold16_zero)
  have ck: "unat ck = 65535 - c"
    using chksum_even [OF ev, of 0] by (simp add: assms(4) inet_chksum_def unat_NOT16 ws c_def)
  define T where "T = ?S + unat ck"
  have "(?S + (65535 - c)) mod 65535 = 0"
  proof -
    have "(?S + (65535 - c)) mod 65535 = (c + (65535 - c)) mod 65535"
      by (metis c(2) mod_add_left_eq)
    then show ?thesis using c(1) by simp
  qed
  then have T: "T mod 65535 = 0" "T \<noteq> 0"
    using c(1,3) by (auto simp: T_def ck)
  have "T < 2 ^ 32"
  proof -
    have "65535 * (length (pre @ le16 ck @ post) div 2) \<le> 65535 * 32768" using assms(3) by simp
    with word_sum_le [of "pre @ le16 ck @ post"] show ?thesis unfolding ws T_def by (simp add: order_trans)
  qed
  then have f: "fold16 (fold16 T) \<le> 65535" "fold16 (fold16 T) mod 65535 = 0" "fold16 (fold16 T) \<noteq> 0"
    using T by (simp_all add: fold16_twice fold16_mod fold16_zero)
  then have "fold16 (fold16 T) = 65535" by (metis le_neq_implies_less mod_less)
  then have "unat (lwip_standard_chksum False (pre @ le16 ck @ post)) = 65535"
    using chksum_even [OF ev, of ck] by (simp add: ws T_def)
  then have "unat (inet_chksum (pre @ le16 ck @ post)) = 0" by (simp add: inet_chksum_def unat_NOT16)
  then show ?thesis by (rule unat_eq_zero [THEN iffD1])
qed

text \<open>C32: every echo request the client builds verifies: the receiver's checksum over the whole packet is zero,
  for all sequence numbers, and the packet is an echo request with code 0 that carries the identifier
  \<^verbatim>\<open>PING_ID\<close>, the new sequence number in network order and the 32 data bytes.\<close>

theorem ping_packet_verifies:
  assumes "ping_prepare_echo (8 + PING_DATA_SIZE) p = (pkt, p')"
  shows "inet_chksum pkt = 0 \<and> length pkt = 40 \<and> ping_seq_num p' = ping_seq_num p + 1 \<and>
    pkt ! 0 = ICMP_ECHO \<and> pkt ! 1 = 0 \<and> of_le16 (drop 4 pkt) = PING_ID \<and>
    of_le16 (drop 6 pkt) = htons (ping_seq_num p') \<and> drop 8 pkt = map of_nat [0..<32]"
proof -
  let ?q = "htons (ping_seq_num p + 1)"
  let ?post = "le16 PING_ID @ le16 ?q @ map of_nat [0..<32]"
  have pk: "pkt = [ICMP_ECHO, 0] @ le16 (inet_chksum ([ICMP_ECHO, 0] @ le16 0 @ ?post)) @ ?post"
      and p': "ping_seq_num p' = ping_seq_num p + 1"
    using assms by (auto simp: ping_prepare_echo_def echo_packet_def PING_DATA_SIZE_def Let_def)
  have "inet_chksum pkt = 0"
    unfolding pk by (rule checksum_verifies [OF _ _ _ refl]) simp_all
  moreover have "of_le16 (drop 4 pkt) = PING_ID" "of_le16 (drop 6 pkt) = ?q"
    using of_le16_le16 [of PING_ID "le16 ?q @ map of_nat [0..<32]"] of_le16_le16 [of ?q "map of_nat [0..<32]"]
    by (simp_all add: pk le16_def del: of_le16.simps)
  moreover have "pkt ! 0 = ICMP_ECHO" "pkt ! 1 = 0" "length pkt = 40" "drop 8 pkt = map of_nat [0..<32]"
    by (simp_all add: pk le16_def del: upt.simps)
  ultimately show ?thesis using p' by simp
qed

theorem ping_packet_witness:
  "inet_chksum (fst (ping_prepare_echo (8 + PING_DATA_SIZE) ping0)) = 0"
proof -
  obtain pkt p' where "ping_prepare_echo (8 + PING_DATA_SIZE) ping0 = (pkt, p')" by fastforce
  with ping_packet_verifies [OF this] show ?thesis by simp
qed

section \<open>A ping session ends\<close>

text \<open>What may happen while a session runs: the timer expires, and the buffer for the next packet can be allocated or not;
  an ICMP packet arrives. The timer expires only while it is armed, and packets come in only until the session removes
  its control block.\<close>

datatype ping_event = P_Timeout bool u32 | P_Packet u32 u8 u32 "bytes option"

fun ping_step :: "ping_event \<Rightarrow> ping_state \<Rightarrow> ping_state" where
  "ping_step (P_Timeout alloc now) p = (if ping_timer p then ping_timeout alloc now p else p)"
| "ping_step (P_Packet now ttl addr icmp) p = (if ping_flag p then snd (ping_recv now ttl addr icmp p) else p)"

definition ping_run :: "ping_event list \<Rightarrow> ping_state \<Rightarrow> ping_state" where
  "ping_run evs p = fold ping_step evs p"

fun expiries :: "ping_event list \<Rightarrow> nat" where
  "expiries [] = 0"
| "expiries (P_Timeout alloc now # evs) = Suc (expiries evs)"
| "expiries (P_Packet now ttl addr icmp # evs) = expiries evs"

fun no_buffers :: "ping_event list \<Rightarrow> nat" where
  "no_buffers [] = 0"
| "no_buffers (P_Timeout alloc now # evs) = (if alloc then 0 else 1) + no_buffers evs"
| "no_buffers (P_Packet now ttl addr icmp # evs) = no_buffers evs"

definition ping_ended :: "ping_state \<Rightarrow> bool" where
  "ping_ended p \<longleftrightarrow> \<not> ping_flag p \<and> \<not> ping_timer p \<and>
     ping_out p \<noteq> [] \<and> last (ping_out p) = ''+OK:PING'' @ [CHR 0x0A, CHR 0x0D]"

text \<open>A session of \<open>n\<close> packets of which \<open>k\<close> have been sent, the first after \<open>m\<close> earlier ones.\<close>

definition ping_running :: "nat \<Rightarrow> nat \<Rightarrow> nat \<Rightarrow> ping_state \<Rightarrow> bool" where
  "ping_running n m k p \<longleftrightarrow> ping_flag p \<and> ping_timer p \<and> unat (ping_count p) = n \<and> unat (ping_seq_num p) = k \<and> k \<le> n \<and>
     length (icmp_sent p) = m + k"

lemma unat_Suc16: "unat (k::u16) < 65535 \<Longrightarrow> unat (k + 1) = Suc (unat k)"
  by (simp add: unat_word_ariths)

lemma running_packet: "ping_running n m k p \<Longrightarrow> ping_running n m k (ping_step (P_Packet now ttl addr icmp) p)"
  by (auto simp: ping_running_def ping_recv_def pprintf_def split: option.split)

lemma running_no_buffer:
  "ping_running n m k p \<Longrightarrow> k < n \<Longrightarrow> ping_running n m k (ping_step (P_Timeout False now) p)"
  by (auto simp: ping_running_def ping_timeout_def ping_send_def Let_def word_le_nat_alt)

lemma running_sends:
  assumes "ping_running n m k p" "k < n"
  shows "ping_running n m (Suc k) (ping_step (P_Timeout True now) p)"
proof -
  have r: "unat (ping_seq_num p) = k" "unat (ping_count p) = n" using assms(1) by (simp_all add: ping_running_def)
  have "n < 65536" using unat_u16_less [of "ping_count p"] r by simp
  then have "unat (ping_seq_num p + 1) = Suc k" using assms(2) r by (simp add: unat_Suc16)
  with assms show ?thesis
    by (auto simp: ping_running_def ping_timeout_def ping_send_def ping_prepare_echo_def Let_def word_le_nat_alt)
qed

lemma running_finishes:
  assumes "ping_running n m n p" "0 < n"
  shows "ping_ended (ping_step (P_Timeout alloc now) p)"
    "length (icmp_sent (ping_step (P_Timeout alloc now) p)) = m + n"
proof -
  have "ping_count p \<noteq> 0" "ping_seq_num p = ping_count p"
    using assms by (auto simp: ping_running_def word_unat_eq_iff)
  with assms(1) show "ping_ended (ping_step (P_Timeout alloc now) p)"
    "length (icmp_sent (ping_step (P_Timeout alloc now) p)) = m + n"
    by (simp_all add: ping_running_def ping_ended_def ping_timeout_def Let_def pprintf_def)
qed

lemma ended_step: "ping_ended p \<Longrightarrow> ping_step ev p = p"
  by (cases ev) (simp_all add: ping_ended_def)

lemma ended_run: "ping_ended p \<Longrightarrow> ping_run evs p = p"
  unfolding ping_run_def by (induction evs) (simp_all add: ended_step)

lemma run_Cons [simp]: "ping_run [] p = p" "ping_run (ev # evs) p = ping_run evs (ping_step ev p)"
  by (simp_all add: ping_run_def)

text \<open>Either the session still runs, with fewer expiries than it needs, or it has ended with all of its packets.\<close>

lemma running_run:
  assumes "ping_running n m k p" "0 < n"
  shows "(\<exists>j. ping_running n m j (ping_run evs p) \<and> expiries evs + k = j + no_buffers evs) \<or>
    ping_ended (ping_run evs p) \<and> length (icmp_sent (ping_run evs p)) = m + n \<and> n < expiries evs + k"
  using assms
proof (induction evs arbitrary: k p)
  case (Cons ev evs)
  show ?case
  proof (cases ev)
    case (P_Packet now ttl addr icmp)
    with Cons running_packet [OF Cons.prems(1)] show ?thesis by auto
  next
    case (P_Timeout alloc now)
    show ?thesis
    proof (cases "k = n")
      case True
      with Cons.prems have "ping_running n m n p" by simp
      note e = running_finishes [OF this Cons.prems(2), of alloc now]
      with True ended_run [OF e(1), of evs] P_Timeout show ?thesis by simp
    next
      case False
      with Cons.prems have k: "k < n" by (simp add: ping_running_def)
      show ?thesis
      proof (cases alloc)
        case True
        with Cons.IH [OF running_sends [OF Cons.prems(1) k] Cons.prems(2), of now] P_Timeout show ?thesis by auto
      next
        case no: False
        with Cons.IH [OF running_no_buffer [OF Cons.prems(1) k] Cons.prems(2), of now] P_Timeout show ?thesis by auto
      qed
    qed
  qed
qed auto

text \<open>C36: a ping of \<open>n\<close> packets, 1 to 65535, started while no other runs, never sends more than \<open>n\<close> packets, whatever
  packets arrive between the expiries of its timer and however many of them match; and after \<open>n\<close> expiries, and one more
  for each packet for which no buffer could be allocated, it has ended: exactly \<open>n\<close> packets were sent,
  \<^verbatim>\<open>+OK:PING\<close> is the last line printed, the timer is not armed, and a new ping can be started.\<close>

theorem ping_session_ends:
  assumes "\<not> ping_flag p" "0 < n" "n < 65536" "ping_init (int n) p = (r, p1)"
    and "p2 = ping_run evs (ping_send_to alloc t target p1)"
  shows "r = 0 \<and> length (icmp_sent p2) \<le> length (icmp_sent p) + n \<and>
    (n + no_buffers evs + (if alloc then 0 else 1) \<le> expiries evs \<longrightarrow>
       ping_ended p2 \<and> length (icmp_sent p2) = length (icmp_sent p) + n \<and> fst (ping_init c p2) = 0)"
proof -
  let ?k = "if alloc then 1 else 0 :: nat" and ?m = "length (icmp_sent p)"
  have c: "unat (of_nat n :: u16) = n" using assms(3) by (simp add: unsigned_of_nat take_bit_nat_eq_self)
  have p1: "p1 = ping_raw_init (p\<lparr>ping_flag := True, ping_count := of_nat n\<rparr>)" "r = 0"
    using assms(1,4) by (simp_all add: ping_init_def)
  have "ping_running n ?m ?k (ping_send_to alloc t target p1)"
    using c assms(2) by (simp add: ping_running_def ping_send_to_def ping_send_def ping_prepare_echo_def Let_def p1
        ping_raw_init_def pprintf_def)
  from running_run [OF this assms(2), of evs] show ?thesis
    unfolding assms(5) [symmetric] using p1(2)
    by (auto simp: ping_running_def ping_ended_def ping_init_def)
qed

text \<open>Three packets; a matching reply to the first arrives twice, and one buffer is missing.\<close>

theorem ping_session_witness:
  "let p2 = ping_run [P_Packet 5 64 0x0100A8C0 (Some [0, 0, 0, 0, 0xAF, 0xAF, 0, 1]), P_Packet 6 64 0x0100A8C0 (Some [0, 0, 0, 0, 0xAF, 0xAF, 0, 1]),
      P_Timeout True 1000, P_Timeout False 2000, P_Timeout True 3000, P_Timeout True 4000]
      (ping_send_to True 0 0x0100A8C0 (snd (ping_init (int 3) ping0)))
   in ping_ended p2 \<and> length (icmp_sent p2) = 3"
proof -
  obtain r p1 where i: "ping_init (int 3) ping0 = (r, p1)" by fastforce
  have "\<not> ping_flag ping0" "icmp_sent ping0 = []" by (simp_all add: ping0_def)
  with ping_session_ends [OF _ _ _ i refl, of "[P_Packet 5 64 0x0100A8C0 (Some [0, 0, 0, 0, 0xAF, 0xAF, 0, 1]),
      P_Packet 6 64 0x0100A8C0 (Some [0, 0, 0, 0, 0xAF, 0xAF, 0, 1]), P_Timeout True 1000, P_Timeout False 2000, P_Timeout True 3000,
      P_Timeout True 4000]" True 0 "0x0100A8C0"] show ?thesis
    unfolding i snd_conv Let_def by simp
qed

end
