(* ===== verification/Serial_Net.thy ===== *)
theory Serial_Net
  imports Params Nor_Flash Ping
begin

text \<open>
  The SerialNet application: its globals (\<^verbatim>\<open>serialNet.c\<close>, \<^verbatim>\<open>socketCom.c\<close>, \<^verbatim>\<open>at_cmd.c\<close>, \<^verbatim>\<open>common.h\<close>), saving and loading
  of the factory and user parameters, the boot sequence \<^verbatim>\<open>init_default_data\<close>, the event path
  \<^verbatim>\<open>DefaultProc\<close>/\<^verbatim>\<open>AppEvtCallBack\<close>, the UART receive interrupt \<^verbatim>\<open>uart_data_recv\<close>, the frame timer and the switch back
  to command mode. Effects outside the modelled state (text on the UART, resets, threads, semaphore and
  mailbox posts, closed sockets, datagrams) are recorded in the state in the order they happen.
\<close>

section \<open>State\<close>

datatype SYS_EVT_ID =
    SYS_EVT_LINK_DOWN | SYS_EVT_LINK_UP | SYS_EVT_JOIN_FAIL | SYS_EVT_DHCP_FAIL | SYS_EVT_SCAN_DONE
  | SYS_EVT_DIRECT_CFG_DONE

text \<open>A socket address is its \<^verbatim>\<open>s_addr\<close> and \<^verbatim>\<open>sin_port\<close>, both in network order.\<close>

type_synonym sockaddr_in = "u32 \<times> u16"

record CONN_STATUS =
  connStatus :: u8
  ws_socketProtocol :: u8
  ws_socketType :: u8
  ws_socketPort :: u16
  remoteIp :: u32
  localIp :: u32
  sockfd :: int
  connectFd :: int
  server_addr :: sockaddr_in
  client_addr :: sockaddr_in

record UDP_BROADCAST_STS =
  tx_status :: u16
  tx_port :: u16
  tx_len :: u32
  tx_sockfd :: int
  rx_status :: u16
  rx_port :: u16
  rx_len :: u32
  rx_sockfd :: int
  tx_addrto :: sockaddr_in
  rx_server_addr :: sockaddr_in
  rx_client_addr :: sockaddr_in

record SCAN_INFO =
  si_Bssid :: bytes
  si_Ssid :: bytes
  si_SsidLen :: u8
  si_BssType :: u8
  si_Channel :: u8
  si_EncryMode :: u8
  si_AuthMode :: u8
  si_Rssi :: u8

record 'f snet = params +
  flash :: 'f
  uart_recvEnd :: u8
  uart_rec_len :: u32
  uart_rec_data :: string
  recv_start :: u8
  end_sendFlags :: u8
  net_sendStart :: u8
  net_send_len :: u32
  net_send_data :: string
  uart_sendStart :: u8
  uart_hasData :: u8
  uart_send_data :: string
  uart_send_len :: u32
  ScanFlag :: u8
  link_status :: SYS_EVT_ID
  smtconfigBegin :: u8
  g_RecvBufSize :: u32
  WifiConnStatus :: CONN_STATUS
  broadcast_status :: UDP_BROADCAST_STS
  rate_opt :: "u8 \<times> u8"
  beacon_opt :: "u32 \<times> u8"
  wl_workmode :: int
  uart_baud :: u32
  stdout :: "string list"
  chip_reset :: bool
  threads :: "string list"
  uartMessg :: "string list"
  modeSwitch :: nat
  closed :: "int list"
  sent :: "(bytes \<times> sockaddr_in) list"
  scan_tables :: nat
  ping :: ping_state

text \<open>What the code reads from outside: the flash device, whether the heap serves requests, the two reads of
  the factory button, the clock, the radio, the network interface and the results of socket calls.\<close>

record 'f env =
  dev :: "'f flash_dev"
  malloc_ok :: bool
  gpio_factory :: "u8 \<times> u8"
  ticks :: u64
  cur_ch :: u8
  netif_ip :: u32
  netif_mask :: u32
  netif_gw :: u32
  socket_res :: int
  setsockopt_res :: int
  bind_res :: int
  sendto_res :: int
  scan_adr :: u32
  scan_res :: "SCAN_INFO list"
  l2_link :: int
  pbuf_ok :: bool
  system_now :: u32
  fw_type :: string
  fw_ver :: bytes

definition LF :: char where "LF = CHR 0x0A"
definition CR :: char where "CR = CHR 0x0D"

definition nr :: string where "nr = [LF, CR]"

definition printf :: "string \<Rightarrow> ('f, 'a) snet_scheme \<Rightarrow> ('f, 'a) snet_scheme" where
  "printf t s = s\<lparr>stdout := stdout s @ [t]\<rparr>"

definition lwip_close :: "int \<Rightarrow> ('f, 'a) snet_scheme \<Rightarrow> ('f, 'a) snet_scheme" where
  "lwip_close fd s = s\<lparr>closed := closed s @ [fd]\<rparr>"

definition MAX_RECV_BUFFER_SIZE :: nat where "MAX_RECV_BUFFER_SIZE = 1400"
definition MIN_RECV_BUFFER_SIZE :: nat where "MIN_RECV_BUFFER_SIZE = 32"
definition DEF_RECV_BUFFER_SIZE :: nat where "DEF_RECV_BUFFER_SIZE = 1024"
definition FACTORY_PARAM_ADDR :: nat where "FACTORY_PARAM_ADDR = 0x64000"
definition USER_PARAM_ADDR :: nat where "USER_PARAM_ADDR = 0x65000"
definition USER_PARAM_FLAG_VALID :: u32 where "USER_PARAM_FLAG_VALID = 0x01020304"
definition USER_PARAM_FLAG_INVALID :: u32 where "USER_PARAM_FLAG_INVALID = 0"
definition AT_MODE :: u8 where "AT_MODE = 0"
definition DATA_MODE :: u8 where "DATA_MODE = 1"
definition CONNECT_STATUS_FAIL :: u8 where "CONNECT_STATUS_FAIL = 0"
definition CONNECT_STATUS_OK :: u8 where "CONNECT_STATUS_OK = 1"

section \<open>Parameters in flash\<close>

definition GetFactoryParam :: "'f env \<Rightarrow> ('f, 'a) snet_scheme \<Rightarrow> ('f, 'a) snet_scheme" where
  "GetFactoryParam e s =
     s\<lparr>FactoryParam := bytes_USER_CFG_PARAM (ReadFlash (dev e) (flash s) USER_CFG_PARAM_size FACTORY_PARAM_ADDR)\<rparr>"

definition SaveFactoryParam :: "'f env \<Rightarrow> ('f, 'a) snet_scheme \<Rightarrow> ('f, 'a) snet_scheme option" where
  "SaveFactoryParam e s =
     map_option (\<lambda>f. s\<lparr>flash := f\<rparr>)
       (WriteFlash (dev e) (malloc_ok e) (USER_CFG_PARAM_bytes (FactoryParam s)) FACTORY_PARAM_ADDR (flash s))"

definition GetUserParam :: "'f env \<Rightarrow> ('f, 'a) snet_scheme \<Rightarrow> ('f, 'a) snet_scheme" where
  "GetUserParam e s =
     (let u = bytes_USER_CFG_PARAM (ReadFlash (dev e) (flash s) USER_CFG_PARAM_size USER_PARAM_ADDR)
      in s\<lparr>UserParam := u, SysParam := cfg u\<rparr>)"

definition SaveUserParam :: "'f env \<Rightarrow> ('f, 'a) snet_scheme \<Rightarrow> ('f, 'a) snet_scheme option" where
  "SaveUserParam e s =
     map_option (\<lambda>f. s\<lparr>flash := f\<rparr>)
       (WriteFlash (dev e) (malloc_ok e) (USER_CFG_PARAM_bytes (UserParam s)) USER_PARAM_ADDR (flash s))"

section \<open>Boot\<close>

text \<open>\<^verbatim>\<open>inet_aton\<close> leaves \<^verbatim>\<open>remoteCommIp\<close> uninitialised when it fails; it does not on the literal.\<close>

definition InitFactoryParam :: "('f, 'a) snet_scheme \<Rightarrow> ('f, 'a) snet_scheme option" where
  "InitFactoryParam s =
     do {
       ip \<leftarrow> ipaddr_aton ''192.168.0.100'';
       s1 \<leftarrow> InfLoadDefaultParam (s\<lparr>FactoryParam := zero_USER_CFG_PARAM\<lparr>isValid := USER_PARAM_FLAG_INVALID,
         SleepMode := 0, atMode := AT_MODE, Baudrate := 115200, socketType := 1, socketProtocol := 1,
         socketPort := 8101, remoteCommIp := ip, frameLength := of_nat DEF_RECV_BUFFER_SIZE, frameGap := 100\<rparr>\<rparr>);
       Some (s1\<lparr>FactoryParam := (FactoryParam s1)\<lparr>cfg := SysParam s1\<rparr>\<rparr>)
     }"

definition zero_CONN_STATUS :: CONN_STATUS where
  "zero_CONN_STATUS = \<lparr>connStatus = 0, ws_socketProtocol = 0, ws_socketType = 0, ws_socketPort = 0, remoteIp = 0,
     localIp = 0, sockfd = 0, connectFd = 0, server_addr = (0, 0), client_addr = (0, 0)\<rparr>"

text \<open>The connection set-up shared by \<^verbatim>\<open>Init_SeriaNet\<close> and \<^verbatim>\<open>responseQUIT\<close>.\<close>

definition init_conn :: "('f, 'a) snet_scheme \<Rightarrow> ('f, 'a) snet_scheme" where
  "init_conn s =
     s\<lparr>uart_recvEnd := 0, uart_rec_len := 0, net_sendStart := 0, net_send_len := 0,
       WifiConnStatus := zero_CONN_STATUS\<lparr>connStatus := CONNECT_STATUS_FAIL,
         ws_socketProtocol := socketProtocol (UserParam s), ws_socketType := socketType (UserParam s),
         ws_socketPort := socketPort (UserParam s), remoteIp := remoteCommIp (UserParam s),
         connectFd := -1, sockfd := -1\<rparr>\<rparr>"

definition Init_SeriaNet :: "('f, 'a) snet_scheme \<Rightarrow> ('f, 'a) snet_scheme" where
  "Init_SeriaNet s = snd (InfWiFiStart (init_conn s))"

definition LoadUserParam :: "('f, 'a) snet_scheme \<Rightarrow> ('f, 'a) snet_scheme option" where
  "LoadUserParam s =
     (let u = (UserParam s)\<lparr>SleepMode := 0\<rparr>; n = frameLength u;
          g = (if unat n < MIN_RECV_BUFFER_SIZE then of_nat MIN_RECV_BUFFER_SIZE
               else if unat n > MAX_RECV_BUFFER_SIZE then of_nat MAX_RECV_BUFFER_SIZE
               else ucast n :: u32)
      in do {
        dns \<leftarrow> put_cstring (DnsName (cfg u)) ''nufront.com'';
        Some (s\<lparr>UserParam := u, SysParam := (cfg u)\<lparr>bDhcpServer := 1, bDnsServer := 1, DnsName := dns\<rparr>,
          g_RecvBufSize := g, FactoryParam := (FactoryParam s)\<lparr>frameLength := ucast (g AND 0xffff)\<rparr>\<rparr>)
      })"

text \<open>\<^verbatim>\<open>memset\<close> of the first 1400 of the 1401 characters of a frame buffer.\<close>

definition clear_frame :: "string \<Rightarrow> string" where
  "clear_frame b = replicate MAX_RECV_BUFFER_SIZE NUL @ drop MAX_RECV_BUFFER_SIZE b"

definition GlobalInit :: "('f, 'a) snet_scheme \<Rightarrow> ('f, 'a) snet_scheme" where
  "GlobalInit s =
     s\<lparr>link_status := SYS_EVT_LINK_DOWN, uart_recvEnd := 0, uart_rec_len := 0, net_sendStart := 0, net_send_len := 0,
       uart_rec_data := clear_frame (uart_rec_data s), net_send_data := clear_frame (net_send_data s)\<rparr>"

definition BSP_UartOpen :: "u32 \<Rightarrow> ('f, 'a) snet_scheme \<Rightarrow> ('f, 'a) snet_scheme" where
  "BSP_UartOpen b s = s\<lparr>uart_baud := b\<rparr>"

text \<open>The factory path, which the boot takes when the button is down and when the user parameters are not
  valid; \<open>how\<close> is the word the message has.\<close>

definition load_factory :: "'f env \<Rightarrow> string \<Rightarrow> ('f, 'a) snet_scheme \<Rightarrow> ('f, 'a) snet_scheme option" where
  "load_factory e msg s =
     do {
       s1 \<leftarrow> InitFactoryParam s;
       s2 \<leftarrow> SaveFactoryParam e s1;
       let s3 = GetFactoryParam e s2;
       s4 \<leftarrow> SaveUserParam e (s3\<lparr>UserParam := FactoryParam s3\<rparr>);
       Some (snd (InfWiFiStart (printf msg (BSP_UartOpen (Baudrate (FactoryParam s4)) s4))))
     }"

definition init_default_data :: "'f env \<Rightarrow> ('f, 'a) snet_scheme \<Rightarrow> (int \<times> ('f, 'a) snet_scheme) option" where
  "init_default_data e s =
     (let s0 = GlobalInit s
      in if fst (gpio_factory e) = 0 \<and> snd (gpio_factory e) = 0 then
           do { s1 \<leftarrow> load_factory e (''Load factory parameters(Hardware).'' @ [LF]) s0; Some (0, s1) }
         else
           do {
             let s1 = GetUserParam e s0;
             s2 \<leftarrow> (if isValid (UserParam s1) = USER_PARAM_FLAG_VALID then
                      do {
                        s2 \<leftarrow> LoadUserParam s1;
                        Some (Init_SeriaNet (printf (''Load user''@ [CHR 0x27] @ ''s parameters.'' @ [CR, LF])
                          (BSP_UartOpen (Baudrate (UserParam s2)) s2)))
                      }
                    else load_factory e (''Load factory parameters(Software).'' @ [CR, LF]) s1);
             Some (0, s2\<lparr>wl_workmode := uint (atMode (UserParam s2))\<rparr>)
           })"

section \<open>A store for parameters\<close>

text \<open>The two parameter images in a flash, and that everything outside them is kept.\<close>

definition user_area :: "'f flash_dev \<Rightarrow> 'f \<Rightarrow> USER_CFG_PARAM" where
  "user_area d f = bytes_USER_CFG_PARAM (ReadFlash d f 304 USER_PARAM_ADDR)"

definition factory_area :: "'f flash_dev \<Rightarrow> 'f \<Rightarrow> USER_CFG_PARAM" where
  "factory_area d f = bytes_USER_CFG_PARAM (ReadFlash d f 304 FACTORY_PARAM_ADDR)"

definition same_rest :: "'f flash_dev \<Rightarrow> 'f \<Rightarrow> 'f \<Rightarrow> bool" where
  "same_rest d f f' \<longleftrightarrow> (\<forall>b n. b + n \<le> FACTORY_PARAM_ADDR \<or> FACTORY_PARAM_ADDR + 304 \<le> b \<and> b + n \<le> USER_PARAM_ADDR \<or>
     USER_PARAM_ADDR + 304 \<le> b \<longrightarrow> ReadFlash d f' n b = ReadFlash d f n b)"

text \<open>What the boot code relies on from the flash writers; \<open>nor_flash\<close> provides it.\<close>

locale param_store =
  fixes fdev :: "'f flash_dev"
  assumes store_load: "adr + length xs \<le> 256 * 4096 \<Longrightarrow> adr < 256 * 4096 \<Longrightarrow>
      \<exists>f'. WriteFlash fdev True xs adr f = Some f' \<and> ReadFlash fdev f' (length xs) adr = xs \<and>
        (\<forall>b n. b + n \<le> adr \<or> adr + length xs \<le> b \<longrightarrow> ReadFlash fdev f' n b = ReadFlash fdev f n b)"
    and load_length: "length (ReadFlash fdev f n a) = n"
begin

lemma sized_user_area: "sized_user (user_area fdev f)"
  by (simp add: user_area_def sized_bytes_USER load_length)

lemma save_user:
  assumes "dev e = fdev" "malloc_ok e" "sized_user (UserParam s)"
  shows "\<exists>f'. SaveUserParam e s = Some (s\<lparr>flash := f'\<rparr>) \<and> user_area fdev f' = UserParam s \<and>
    factory_area fdev f' = factory_area fdev (flash s) \<and> same_rest fdev (flash s) f'"
proof -
  let ?xs = "USER_CFG_PARAM_bytes (UserParam s)"
  have len: "length ?xs = 304" using assms(3) by simp
  obtain f' where f': "WriteFlash fdev True ?xs USER_PARAM_ADDR (flash s) = Some f'"
      "ReadFlash fdev f' 304 USER_PARAM_ADDR = ?xs"
      and fr: "\<And>b n. b + n \<le> USER_PARAM_ADDR \<or> USER_PARAM_ADDR + 304 \<le> b \<Longrightarrow>
        ReadFlash fdev f' n b = ReadFlash fdev (flash s) n b"
    using store_load [of USER_PARAM_ADDR ?xs "flash s"] len unfolding USER_PARAM_ADDR_def by auto
  have "user_area fdev f' = UserParam s" using assms(3) by (simp add: user_area_def f'(2))
  moreover have "factory_area fdev f' = factory_area fdev (flash s)"
    unfolding factory_area_def by (subst fr) (simp_all add: USER_PARAM_ADDR_def FACTORY_PARAM_ADDR_def)
  moreover have "same_rest fdev (flash s) f'"
    unfolding same_rest_def using fr by (auto simp: USER_PARAM_ADDR_def FACTORY_PARAM_ADDR_def)
  ultimately show ?thesis using assms f'(1) by (auto simp: SaveUserParam_def)
qed

lemma save_factory:
  assumes "dev e = fdev" "malloc_ok e" "sized_user (FactoryParam s)"
  shows "\<exists>f'. SaveFactoryParam e s = Some (s\<lparr>flash := f'\<rparr>) \<and> factory_area fdev f' = FactoryParam s \<and>
    same_rest fdev (flash s) f'"
proof -
  let ?xs = "USER_CFG_PARAM_bytes (FactoryParam s)"
  have len: "length ?xs = 304" using assms(3) by simp
  obtain f' where f': "WriteFlash fdev True ?xs FACTORY_PARAM_ADDR (flash s) = Some f'"
      "ReadFlash fdev f' 304 FACTORY_PARAM_ADDR = ?xs"
      and fr: "\<And>b n. b + n \<le> FACTORY_PARAM_ADDR \<or> FACTORY_PARAM_ADDR + 304 \<le> b \<Longrightarrow>
        ReadFlash fdev f' n b = ReadFlash fdev (flash s) n b"
    using store_load [of FACTORY_PARAM_ADDR ?xs "flash s"] len unfolding FACTORY_PARAM_ADDR_def by auto
  have "factory_area fdev f' = FactoryParam s" using assms(3) by (simp add: factory_area_def f'(2))
  moreover have "same_rest fdev (flash s) f'"
    unfolding same_rest_def using fr by (auto simp: USER_PARAM_ADDR_def FACTORY_PARAM_ADDR_def)
  ultimately show ?thesis using assms f'(1) by (auto simp: SaveFactoryParam_def)
qed

lemma same_rest_trans: "same_rest fdev f g \<Longrightarrow> same_rest fdev g h \<Longrightarrow> same_rest fdev f h"
  unfolding same_rest_def by (metis (full_types))

end

sublocale nor_flash \<subseteq> store: param_store dev
  by unfold_locales (use write_read in \<open>blast\<close>, simp add: ReadFlash_def read)

text \<open>The factory defaults the code sets up.\<close>

definition is_factory :: "USER_CFG_PARAM \<Rightarrow> bool" where
  "is_factory u \<longleftrightarrow> sized_user u \<and> isValid u = USER_PARAM_FLAG_INVALID \<and> atMode u = AT_MODE \<and> SleepMode u = 0 \<and>
     Baudrate u = 115200 \<and> socketType u = 1 \<and> socketProtocol u = 1 \<and> socketPort u = 8101 \<and>
     le32 (remoteCommIp u) = [192, 168, 0, 100] \<and> frameLength u = 1024 \<and> frameGap u = 100 \<and> valid_cfg (cfg u)"

lemma aton_default: "ipaddr_aton ''192.168.0.100'' = Some (of_le32 [192, 168, 0, 100])"
  by code_simp

lemma InitFactoryParam_ok:
  "\<exists>c u. InitFactoryParam s = Some (s\<lparr>SysParam := c, FactoryParam := u\<rparr>) \<and> is_factory u \<and> cfg u = c"
proof -
  define u0 where "u0 = zero_USER_CFG_PARAM\<lparr>isValid := USER_PARAM_FLAG_INVALID, SleepMode := 0, atMode := AT_MODE,
    Baudrate := 115200, socketType := 1, socketProtocol := 1, socketPort := 8101,
    remoteCommIp := of_le32 [192, 168, 0, 100], frameLength := of_nat DEF_RECV_BUFFER_SIZE, frameGap := 100\<rparr>"
  obtain c ws wk ip where ld: "InfLoadDefaultParam (s\<lparr>FactoryParam := u0\<rparr>) = Some (s\<lparr>FactoryParam := u0\<rparr>\<lparr>SysParam := c,
       FactoryParam := (FactoryParam (s\<lparr>FactoryParam := u0\<rparr>))\<lparr>web_ssid := ws, web_key := wk, web_IPCfg := ip\<rparr>\<rparr>)"
      and c: "valid_cfg c" "length ws = 32" "length wk = 64" "sized_ip ip"
    using InfLoadDefaultParam_ok [of "s\<lparr>FactoryParam := u0\<rparr>"] by blast
  let ?u = "u0\<lparr>web_ssid := ws, web_key := wk, web_IPCfg := ip, cfg := c\<rparr>"
  have "InitFactoryParam s = Some (s\<lparr>SysParam := c, FactoryParam := ?u\<rparr>)"
    using ld unfolding InitFactoryParam_def aton_default bind.bind_lunit u0_def [symmetric] by simp
  moreover have "is_factory ?u"
    using c unfolding is_factory_def sized_user_def u0_def
    by (simp add: zero_USER_CFG_PARAM_def valid_cfg_def DEF_RECV_BUFFER_SIZE_def le32_of_le32 del: of_le32.simps)
  ultimately show ?thesis by fastforce
qed

text \<open>What a boot from the factory defaults leaves.\<close>

definition factory_booted :: "('f, 'a) snet_scheme \<Rightarrow> bool" where
  "factory_booted s \<longleftrightarrow> is_factory (UserParam s) \<and> FactoryParam s = UserParam s \<and> SysParam s = cfg (UserParam s) \<and>
     uart_baud s = 115200 \<and> link_status s = SYS_EVT_LINK_DOWN \<and> uart_rec_len s = 0 \<and> net_send_len s = 0"

context param_store
begin

lemma load_factory_ok:
  assumes "dev e = fdev" "malloc_ok e"
  shows "\<exists>s'. load_factory e msg s = Some s' \<and> is_factory (UserParam s') \<and> FactoryParam s' = UserParam s' \<and>
    SysParam s' = cfg (UserParam s') \<and> uart_baud s' = 115200 \<and> link_status s' = link_status s \<and>
    uart_rec_len s' = uart_rec_len s \<and> net_send_len s' = net_send_len s \<and>
    user_area fdev (flash s') = UserParam s' \<and> factory_area fdev (flash s') = UserParam s' \<and> same_rest fdev (flash s) (flash s') \<and>
    gpMacMngTskMsgQ s' = gpMacMngTskMsgQ s @ [(MLME_START_ID, [])]"
proof -
  obtain c u where 1: "InitFactoryParam s = Some (s\<lparr>SysParam := c, FactoryParam := u\<rparr>)" and u: "is_factory u" "cfg u = c"
    using InitFactoryParam_ok by blast
  let ?s1 = "s\<lparr>SysParam := c, FactoryParam := u\<rparr>"
  have sz: "sized_user u" using u by (simp add: is_factory_def)
  obtain f1 where 2: "SaveFactoryParam e ?s1 = Some (?s1\<lparr>flash := f1\<rparr>)" "factory_area fdev f1 = u"
      "same_rest fdev (flash s) f1"
    using save_factory [OF assms, of ?s1] sz by auto
  have 3: "GetFactoryParam e (?s1\<lparr>flash := f1\<rparr>) = ?s1\<lparr>flash := f1\<rparr>"
    using 2(2) assms(1) by (simp add: GetFactoryParam_def USER_CFG_PARAM_size_def factory_area_def)
  let ?s3 = "?s1\<lparr>flash := f1, UserParam := u\<rparr>"
  obtain f2 where 4: "SaveUserParam e ?s3 = Some (?s3\<lparr>flash := f2\<rparr>)" "user_area fdev f2 = u" "factory_area fdev f2 = u"
      "same_rest fdev f1 f2"
    using save_user [OF assms, of ?s3] sz 2(2) by auto
  have "load_factory e msg s = Some (snd (InfWiFiStart (printf msg (BSP_UartOpen 115200 (?s3\<lparr>flash := f2\<rparr>)))))"
    unfolding load_factory_def 1 bind.bind_lunit 2 Let_def 3 using 4(1) u(1) by (simp add: is_factory_def)
  then show ?thesis
    using u 4(2,3) same_rest_trans [OF 2(3) 4(4)]
    by (simp add: InfWiFiStart_def PostTaskMsg_def printf_def BSP_UartOpen_def is_factory_def)
qed

lemma boot_factory:
  assumes "dev e = fdev" "malloc_ok e"
    and "gpio_factory e = (0, 0) \<or> isValid (user_area fdev (flash s)) \<noteq> USER_PARAM_FLAG_VALID"
  shows "\<exists>s'. init_default_data e s = Some (0, s') \<and> factory_booted s' \<and> user_area fdev (flash s') = UserParam s' \<and>
    factory_area fdev (flash s') = UserParam s' \<and> same_rest fdev (flash s) (flash s')"
proof -
  have g: "user_area fdev (flash (GlobalInit s)) = user_area fdev (flash s)" "flash (GlobalInit s) = flash s"
    "UserParam (GetUserParam e (GlobalInit s)) = user_area fdev (flash s)" "flash (GetUserParam e (GlobalInit s)) = flash s"
    using assms(1) by (simp_all add: GlobalInit_def GetUserParam_def Let_def user_area_def USER_CFG_PARAM_size_def)
  show ?thesis
  proof (cases "gpio_factory e = (0, 0)")
    case True
    then show ?thesis
      using load_factory_ok [OF assms(1,2), of "''Load factory parameters(Hardware).'' @ [LF]" "GlobalInit s"]
      by (auto simp: init_default_data_def factory_booted_def GlobalInit_def)
  next
    case False
    with assms(3) have "isValid (UserParam (GetUserParam e (GlobalInit s))) \<noteq> USER_PARAM_FLAG_VALID"
      using g by simp
    moreover have "\<not> (fst (gpio_factory e) = 0 \<and> snd (gpio_factory e) = 0)" using False by (simp add: prod_eq_iff)
    ultimately show ?thesis
      using load_factory_ok [OF assms(1,2), of "''Load factory parameters(Software).'' @ [CR, LF]"
          "GetUserParam e (GlobalInit s)"] g
      by (auto simp: init_default_data_def factory_booted_def Let_def GlobalInit_def GetUserParam_def)
  qed
qed

lemma boot_user:
  assumes "dev e = fdev" "gpio_factory e \<noteq> (0, 0)" and valid: "isValid (user_area fdev (flash s)) = USER_PARAM_FLAG_VALID"
  shows "\<exists>s'. init_default_data e s = Some (0, s') \<and> UserParam s' = (user_area fdev (flash s))\<lparr>SleepMode := 0\<rparr> \<and>
    flash s' = flash s \<and> uart_baud s' = Baudrate (user_area fdev (flash s)) \<and>
    32 \<le> unat (g_RecvBufSize s') \<and> unat (g_RecvBufSize s') \<le> 1400 \<and>
    WiFiCfg (SysParam s') = WiFiCfg (cfg (user_area fdev (flash s))) \<and> IPCfg (SysParam s') = IPCfg (cfg (user_area fdev (flash s))) \<and>
    ws_socketPort (WifiConnStatus s') = socketPort (user_area fdev (flash s)) \<and> sockfd (WifiConnStatus s') = -1 \<and>
    remoteIp (WifiConnStatus s') = remoteCommIp (user_area fdev (flash s)) \<and> wl_workmode s' = uint (atMode (user_area fdev (flash s)))"
proof -
  let ?u = "user_area fdev (flash s)"
  let ?s1 = "GetUserParam e (GlobalInit s)"
  have s1: "UserParam ?s1 = ?u" "flash ?s1 = flash s"
    using assms(1) by (simp_all add: GlobalInit_def GetUserParam_def Let_def user_area_def USER_CFG_PARAM_size_def)
  have "length (DnsName (cfg ?u)) = 33" using sized_user_area [of "flash s"] by (simp add: sized_user_def sized_cfg_def)
  then obtain dns where dns: "put_cstring (DnsName (cfg ?u)) ''nufront.com'' = Some dns"
    by (simp add: put_cstring_Some)
  define g where "g = (if unat (frameLength ?u) < MIN_RECV_BUFFER_SIZE then of_nat MIN_RECV_BUFFER_SIZE
      else if unat (frameLength ?u) > MAX_RECV_BUFFER_SIZE then of_nat MAX_RECV_BUFFER_SIZE
      else ucast (frameLength ?u) :: u32)"
  have gb: "32 \<le> unat g" "unat g \<le> 1400"
    by (simp_all add: g_def MIN_RECV_BUFFER_SIZE_def MAX_RECV_BUFFER_SIZE_def)
  have ld: "LoadUserParam ?s1 = Some (?s1\<lparr>UserParam := ?u\<lparr>SleepMode := 0\<rparr>,
      SysParam := (cfg ?u)\<lparr>bDhcpServer := 1, bDnsServer := 1, DnsName := dns\<rparr>, g_RecvBufSize := g,
      FactoryParam := (FactoryParam ?s1)\<lparr>frameLength := ucast (g AND 0xffff)\<rparr>\<rparr>)"
    unfolding LoadUserParam_def s1(1) using dns by (simp add: g_def Let_def)
  have b: "\<not> (fst (gpio_factory e) = 0 \<and> snd (gpio_factory e) = 0)" using assms(2) by (simp add: prod_eq_iff)
  show ?thesis
    unfolding init_default_data_def Let_def if_not_P [OF b]
    using valid gb s1(2)
    by (simp add: s1(1) ld Init_SeriaNet_def InfWiFiStart_def PostTaskMsg_def
        init_conn_def printf_def BSP_UartOpen_def zero_CONN_STATUS_def)
qed

lemma save_boot:
  assumes "dev e = fdev" "malloc_ok e" "sized_user (UserParam s)" "isValid (UserParam s) = USER_PARAM_FLAG_VALID"
    and "gpio_factory e' \<noteq> (0, 0)" "dev e' = fdev"
  shows "\<exists>s1. SaveUserParam e s = Some s1 \<and>
    (\<forall>t. flash t = flash s1 \<longrightarrow> (\<exists>t'. init_default_data e' t = Some (0, t') \<and>
        UserParam t' = (UserParam s)\<lparr>SleepMode := 0\<rparr> \<and> uart_baud t' = Baudrate (UserParam s)))"
proof -
  obtain f' where f': "SaveUserParam e s = Some (s\<lparr>flash := f'\<rparr>)" "user_area fdev f' = UserParam s"
    using save_user [OF assms(1-3)] by blast
  have "\<exists>t'. init_default_data e' t = Some (0, t') \<and> UserParam t' = (UserParam s)\<lparr>SleepMode := 0\<rparr> \<and>
      uart_baud t' = Baudrate (UserParam s)" if t: "flash t = f'" for t
    using boot_user [OF assms(6,5), of t] f'(2) assms(4) unfolding t by fastforce
  with f'(1) show ?thesis by auto
qed

end

text \<open>A concrete device state with saved parameters, and its environment.\<close>

definition user0 :: USER_CFG_PARAM where
  "user0 = zero_USER_CFG_PARAM\<lparr>isValid := USER_PARAM_FLAG_VALID, Baudrate := 9600, frameLength := 64, frameGap := 100,
     socketPort := 8101, cfg := SysParam params0\<rparr>"

definition env0 :: "nor env" where
  "env0 = \<lparr>dev = nor_dev, malloc_ok = True, gpio_factory = (1, 1), ticks = 0, cur_ch = 6, netif_ip = 0, netif_mask = 0,
     netif_gw = 0, socket_res = 3, setsockopt_res = 0, bind_res = 0, sendto_res = 1, scan_adr = 0x10000, scan_res = [], l2_link = 0, pbuf_ok = True, system_now = 0,
     fw_type = ''NL6621'', fw_ver = [1, 2, 3]\<rparr>"

definition snet0 :: "nor snet" where
  "snet0 = \<lparr>SysParam = SysParam params0, UserParam = user0, FactoryParam = zero_USER_CFG_PARAM,
     PermanentAddress = [0, 0x13, 0xEF, 0, 0x12, 0x34], SysEvtCB = 0, gpMacMngTskMsgQ = [], flash = (\<lambda>_. 0xFF),
     uart_recvEnd = 0, uart_rec_len = 0, uart_rec_data = replicate 1401 NUL, recv_start = 0, end_sendFlags = 0,
     net_sendStart = 0, net_send_len = 0, net_send_data = replicate 1401 NUL, uart_sendStart = 0, uart_hasData = 0,
     uart_send_data = replicate 1401 NUL, uart_send_len = 0, ScanFlag = 0, link_status = SYS_EVT_LINK_DOWN,
     smtconfigBegin = 0, g_RecvBufSize = 1024, WifiConnStatus = zero_CONN_STATUS,
     broadcast_status = \<lparr>tx_status = 0, tx_port = 0, tx_len = 0, tx_sockfd = 0, rx_status = 0, rx_port = 0, rx_len = 0,
       rx_sockfd = 0, tx_addrto = (0, 0), rx_server_addr = (0, 0), rx_client_addr = (0, 0)\<rparr>,
     rate_opt = (0, 0), beacon_opt = (100, 0), wl_workmode = 0, uart_baud = 115200, stdout = [], chip_reset = False,
     threads = [], uartMessg = [], modeSwitch = 0, closed = [], sent = [], scan_tables = 0, ping = ping0\<rparr>"

lemma sized_user0: "sized_user user0"
  using params0_valid by (simp add: user0_def sized_user_def valid_cfg_def sized_ip_def zero_USER_CFG_PARAM_def zero_IP_CFG_def)

lemma snet0_simps [simp]:
  "UserParam snet0 = user0" "isValid user0 = USER_PARAM_FLAG_VALID" "dev env0 = nor_dev" "malloc_ok env0"
  "gpio_factory env0 = (1, 1)" "flash snet0 = (\<lambda>_. 0xFF)"
  by (simp_all add: snet0_def user0_def env0_def)

section \<open>Boot properties\<close>

text \<open>C3: parameters saved with the valid flag come back after a restart on a NOR flash, whatever the RAM holds
  then: the boot ends, the user parameters are the saved ones (with normal sleep mode) and the UART runs at the saved
  rate.\<close>

theorem saved_parameters_survive_reboot:
  assumes "dev e = nor_dev" "malloc_ok e" "sized_user (UserParam s)" "isValid (UserParam s) = USER_PARAM_FLAG_VALID"
    and "gpio_factory e' \<noteq> (0, 0)" "dev e' = nor_dev"
  shows "\<exists>s1. SaveUserParam e s = Some s1 \<and>
    (\<forall>t. flash t = flash s1 \<longrightarrow> (\<exists>t'. init_default_data e' t = Some (0, t') \<and>
        UserParam t' = (UserParam s)\<lparr>SleepMode := 0\<rparr> \<and> uart_baud t' = Baudrate (UserParam s)))"
  by (rule nor.store.save_boot [OF assms])

theorem saved_parameters_witness:
  "\<exists>s1 t'. SaveUserParam env0 snet0 = Some s1 \<and> init_default_data env0 (snet0\<lparr>flash := flash s1\<rparr>) = Some (0, t') \<and>
     UserParam t' = user0\<lparr>SleepMode := 0\<rparr> \<and> uart_baud t' = Baudrate user0"
proof -
  obtain s1 where s1: "SaveUserParam env0 snet0 = Some s1"
      "\<forall>t. flash t = flash s1 \<longrightarrow> (\<exists>t'. init_default_data env0 (t :: nor snet) = Some (0, t') \<and>
        UserParam t' = (UserParam snet0)\<lparr>SleepMode := 0\<rparr> \<and> uart_baud t' = Baudrate (UserParam snet0))"
    using saved_parameters_survive_reboot [of env0 snet0 env0] sized_user0 by auto
  have "flash (snet0\<lparr>flash := flash s1\<rparr>) = flash s1" by simp
  with s1 show ?thesis by fastforce
qed

text \<open>C18: a boot with the factory button held, or with user parameters that are not marked valid, restores the
  factory defaults in RAM and in both parameter areas of the flash and leaves the rest of the flash as it was.\<close>

theorem factory_boot:
  assumes "dev e = nor_dev" "malloc_ok e"
    and "gpio_factory e = (0, 0) \<or> isValid (user_area nor_dev (flash s)) \<noteq> USER_PARAM_FLAG_VALID"
  shows "\<exists>s'. init_default_data e s = Some (0, s') \<and> factory_booted s' \<and>
    user_area nor_dev (flash s') = UserParam s' \<and> factory_area nor_dev (flash s') = UserParam s' \<and>
    same_rest nor_dev (flash s) (flash s')"
  by (rule nor.store.boot_factory [OF assms])

theorem factory_boot_witness:
  "\<exists>s'. init_default_data (env0\<lparr>gpio_factory := (0, 0)\<rparr>) snet0 = Some (0, s') \<and> factory_booted s' \<and>
    user_area nor_dev (flash s') = UserParam s' \<and> factory_area nor_dev (flash s') = UserParam s' \<and>
    same_rest nor_dev (flash snet0) (flash s')"
  by (rule factory_boot) simp_all

text \<open>C25: a boot with valid user parameters runs with a receive buffer of 32 to 1400 bytes whatever frame length
  the flash holds, with the stored radio and address settings, no open socket, and without writing the flash.\<close>

theorem user_boot:
  assumes "dev e = nor_dev" "gpio_factory e \<noteq> (0, 0)"
    and "isValid (user_area nor_dev (flash s)) = USER_PARAM_FLAG_VALID"
  shows "\<exists>s'. init_default_data e s = Some (0, s') \<and>
    UserParam s' = (user_area nor_dev (flash s))\<lparr>SleepMode := 0\<rparr> \<and> flash s' = flash s \<and>
    uart_baud s' = Baudrate (user_area nor_dev (flash s)) \<and>
    32 \<le> unat (g_RecvBufSize s') \<and> unat (g_RecvBufSize s') \<le> 1400 \<and>
    WiFiCfg (SysParam s') = WiFiCfg (cfg (user_area nor_dev (flash s))) \<and>
    IPCfg (SysParam s') = IPCfg (cfg (user_area nor_dev (flash s))) \<and>
    ws_socketPort (WifiConnStatus s') = socketPort (user_area nor_dev (flash s)) \<and>
    sockfd (WifiConnStatus s') = -1 \<and> remoteIp (WifiConnStatus s') = remoteCommIp (user_area nor_dev (flash s)) \<and>
    wl_workmode s' = uint (atMode (user_area nor_dev (flash s)))"
  by (rule nor.store.boot_user [OF assms])

theorem user_boot_witness:
  "\<exists>f s'. user_area nor_dev f = user0 \<and> init_default_data env0 (snet0\<lparr>flash := f\<rparr>) = Some (0, s') \<and>
    UserParam s' = user0\<lparr>SleepMode := 0\<rparr> \<and> flash s' = f"
proof -
  obtain f where f: "user_area nor_dev f = user0"
    using nor.store.save_user [of env0 snet0] sized_user0 by auto
  then show ?thesis using user_boot [of env0 "snet0\<lparr>flash := f\<rparr>"] by auto
qed

end
