(* ===== verification/Sys_Events.thy ===== *)
theory Sys_Events
  imports Serial_Net
begin

text \<open>
  The path of a system event: \<^verbatim>\<open>DefaultProc\<close> of \<^verbatim>\<open>Sys/sys_mgmt.c\<close> turns a message of the MAC task into an
  event, \<^verbatim>\<open>AppEvtCallBack\<close> of \<^verbatim>\<open>Sys/app_main.c\<close> keeps \<^verbatim>\<open>link_status\<close>, and \<^verbatim>\<open>ResponseSmartconfig\<close> of \<^verbatim>\<open>serialNet.c\<close> with
  \<^verbatim>\<open>RespondUdpBroadcast\<close> of \<^verbatim>\<open>socketCom.c\<close> finishes a smart configuration.
\<close>

section \<open>Definitions\<close>

text \<open>\<^verbatim>\<open>inet_ntoa\<close> always fits its buffer (\<open>Inet.ipaddr_ntoa_aton\<close>).\<close>

definition inet_ntoa :: "u32 \<Rightarrow> string" where
  "inet_ntoa a = (case ipaddr_ntoa a of Some t \<Rightarrow> t | None \<Rightarrow> [])"

definition INADDR_BROADCAST :: u32 where "INADDR_BROADCAST = 0xffffffff"

definition respond_buf :: bytes where
  "respond_buf = (replicate 24 0)[0 := 0x18, 8 := 0x06, 10 := 0x01]"

definition RespondUdpBroadcast :: "'f env \<Rightarrow> ('f, 'a) snet_scheme \<Rightarrow> ('f, 'a) snet_scheme" where
  "RespondUdpBroadcast e s =
     (if socket_res e = -1 then s
      else if setsockopt_res e = -1 then lwip_close (socket_res e) s
      else lwip_close (socket_res e)
             (s\<lparr>sent := sent s @ [(respond_buf, (htonl INADDR_BROADCAST, htons 60002))]\<rparr>))"

definition ResponseSmartconfig :: "'f env \<Rightarrow> ('f, 'a) snet_scheme \<Rightarrow> ('f, 'a) snet_scheme" where
  "ResponseSmartconfig e s =
     (if smtconfigBegin s = 1 then
        let s1 = s\<lparr>smtconfigBegin := 0, UserParam := (UserParam s)\<lparr>cfg := SysParam s\<rparr>\<rparr>
        in RespondUdpBroadcast e (printf (''+OK:IP='' @ inet_ntoa (netif_ip e) @ nr) s1)
      else s)"

definition event_name :: "SYS_EVT_ID \<Rightarrow> string" where
  "event_name ev =
     (case ev of
        SYS_EVT_LINK_DOWN \<Rightarrow> ''SYS_EVT_LINK_DOWN'' | SYS_EVT_LINK_UP \<Rightarrow> ''SYS_EVT_LINK_UP''
      | SYS_EVT_JOIN_FAIL \<Rightarrow> ''SYS_EVT_JOIN_FAIL'' | SYS_EVT_DHCP_FAIL \<Rightarrow> ''SYS_EVT_DHCP_FAIL''
      | SYS_EVT_SCAN_DONE \<Rightarrow> ''SYS_EVT_SCAN_DONE'' | SYS_EVT_DIRECT_CFG_DONE \<Rightarrow> ''SYS_EVT_DIRECT_CFG_DONE'')"

text \<open>\<^verbatim>\<open>strlen(SysParam.WiFiCfg.Ssid)\<close>.\<close>

definition ssid_len :: "'a params_scheme \<Rightarrow> nat" where
  "ssid_len s = length (of_bytes (Ssid (WiFiCfg (SysParam s))))"

definition AppEvtCallBack :: "'f env \<Rightarrow> SYS_EVT_ID \<Rightarrow> ('f, 'a) snet_scheme \<Rightarrow> ('f, 'a) snet_scheme" where
  "AppEvtCallBack e ev s0 =
     (let s = printf (''+EVENT='' @ event_name ev @ nr) s0
      in case ev of
           SYS_EVT_LINK_UP \<Rightarrow> (ResponseSmartconfig e s)\<lparr>link_status := SYS_EVT_LINK_UP\<rparr>
         | SYS_EVT_LINK_DOWN \<Rightarrow> s\<lparr>link_status := SYS_EVT_LINK_DOWN\<rparr>
         | SYS_EVT_JOIN_FAIL \<Rightarrow> s\<lparr>link_status := SYS_EVT_JOIN_FAIL\<rparr>
         | SYS_EVT_DHCP_FAIL \<Rightarrow>
             s\<lparr>link_status := if link_status s = SYS_EVT_LINK_UP then SYS_EVT_LINK_UP else SYS_EVT_DHCP_FAIL\<rparr>
         | SYS_EVT_SCAN_DONE \<Rightarrow>
             s\<lparr>link_status :=
                 (if link_status s = SYS_EVT_LINK_UP then SYS_EVT_LINK_UP
                  else if ssid_len s = 0 then SYS_EVT_LINK_DOWN else SYS_EVT_SCAN_DONE),
               ScanFlag := 1\<rparr>
         | SYS_EVT_DIRECT_CFG_DONE \<Rightarrow>
             (snd (InfWiFiStart (snd (InfNetModeSet 0 (snd (InfWiFiStop s))))))
               \<lparr>link_status := SYS_EVT_DIRECT_CFG_DONE\<rparr>)"

datatype SYS_MSG_ID =
    SYS_LINK_UP_ID | SYS_LINK_DOWN_ID | SYS_DHCP_TIMEOUT_ID | SYS_SCAN_DONE_ID | SYS_DIRECT_CFG_DONE_ID
  | SYS_STA_JOIN_FAIL_ID | SYS_OTHER_ID

text \<open>\<^verbatim>\<open>DefaultProc\<close> with the callback the application registered; \<open>None\<close> is a NULL message. \<^verbatim>\<open>L2LinkUp\<close> and
  \<^verbatim>\<open>L2LinkDown\<close> start and stop the IP stack; only the result of the first matters here.\<close>

definition call_cb :: "'f env \<Rightarrow> SYS_EVT_ID \<Rightarrow> ('f, 'a) snet_scheme \<Rightarrow> ('f, 'a) snet_scheme" where
  "call_cb e ev s = (if SysEvtCB s \<noteq> 0 then AppEvtCallBack e ev s else s)"

definition DefaultProc :: "'f env \<Rightarrow> SYS_MSG_ID option \<Rightarrow> ('f, 'a) snet_scheme \<Rightarrow> ('f, 'a) snet_scheme" where
  "DefaultProc e msg s =
     (case msg of
        None \<Rightarrow> s
      | Some SYS_LINK_UP_ID \<Rightarrow> if l2_link e \<noteq> 0 then s else call_cb e SYS_EVT_LINK_UP s
      | Some SYS_LINK_DOWN_ID \<Rightarrow> call_cb e SYS_EVT_LINK_DOWN s
      | Some SYS_STA_JOIN_FAIL_ID \<Rightarrow> call_cb e SYS_EVT_JOIN_FAIL s
      | Some SYS_DHCP_TIMEOUT_ID \<Rightarrow> call_cb e SYS_EVT_DHCP_FAIL s
      | Some SYS_SCAN_DONE_ID \<Rightarrow> call_cb e SYS_EVT_SCAN_DONE s
      | Some SYS_DIRECT_CFG_DONE_ID \<Rightarrow> call_cb e SYS_EVT_DIRECT_CFG_DONE s
      | Some SYS_OTHER_ID \<Rightarrow> s)"

text \<open>The AT commands treat these two states as a running radio.\<close>

definition wifi_started :: "('f, 'a) snet_scheme \<Rightarrow> bool" where
  "wifi_started s \<longleftrightarrow> link_status s = SYS_EVT_LINK_UP \<or> link_status s = SYS_EVT_SCAN_DONE"

section \<open>The link state over message sequences\<close>

fun run_msgs :: "('f env \<times> SYS_MSG_ID) list \<Rightarrow> ('f, 'a) snet_scheme \<Rightarrow> ('f, 'a) snet_scheme" where
  "run_msgs [] s = s"
| "run_msgs ((e, m) # ms) s = run_msgs ms (DefaultProc e (Some m) s)"

text \<open>An abstract link: up after a successful link up message, until a message that takes it down. Scan results
  and DHCP timeouts do not.\<close>

fun spec_link :: "bool \<Rightarrow> ('f env \<times> SYS_MSG_ID) list \<Rightarrow> bool" where
  "spec_link up [] = up"
| "spec_link up ((e, m) # ms) =
     spec_link (case m of
        SYS_LINK_UP_ID \<Rightarrow> l2_link e = 0 \<or> up
      | SYS_DHCP_TIMEOUT_ID \<Rightarrow> up | SYS_SCAN_DONE_ID \<Rightarrow> up | SYS_OTHER_ID \<Rightarrow> up
      | SYS_LINK_DOWN_ID \<Rightarrow> False | SYS_STA_JOIN_FAIL_ID \<Rightarrow> False | SYS_DIRECT_CFG_DONE_ID \<Rightarrow> False) ms"

lemma printf_simps [simp]:
  "link_status (printf t s) = link_status s" "SysEvtCB (printf t s) = SysEvtCB s"
  "UserParam (printf t s) = UserParam s" "SysParam (printf t s) = SysParam s" "flash (printf t s) = flash s"
  "stdout (printf t s) = stdout s @ [t]"
  by (simp_all add: printf_def)

lemma CB_ResponseSmartconfig [simp]: "SysEvtCB (ResponseSmartconfig e s) = SysEvtCB s"
  by (simp add: ResponseSmartconfig_def RespondUdpBroadcast_def lwip_close_def Let_def)

lemma CB_Inf [simp]:
  "SysEvtCB (snd (InfWiFiStart s)) = SysEvtCB s" "SysEvtCB (snd (InfWiFiStop s)) = SysEvtCB s"
  "SysEvtCB (snd (InfNetModeSet m s)) = SysEvtCB s"
  by (simp_all add: InfWiFiStart_def InfWiFiStop_def PostTaskMsg_def InfNetModeSet_def upd_wifi_def)

lemma CB_AppEvtCallBack [simp]: "SysEvtCB (AppEvtCallBack e ev s) = SysEvtCB s"
  by (cases ev) (simp_all add: AppEvtCallBack_def Let_def)

lemma CB_DefaultProc [simp]: "SysEvtCB (DefaultProc e m s) = SysEvtCB s"
  by (auto simp: DefaultProc_def call_cb_def split: option.split SYS_MSG_ID.split)

lemma link_DefaultProc:
  assumes "SysEvtCB s \<noteq> 0"
  shows "link_status (DefaultProc e (Some m) s) = SYS_EVT_LINK_UP \<longleftrightarrow>
    spec_link (link_status s = SYS_EVT_LINK_UP) [(e, m)]"
  using assms by (cases m) (simp_all add: DefaultProc_def call_cb_def AppEvtCallBack_def Let_def)

text \<open>C27: after any sequence of system messages the recorded link state is up exactly when the abstract link
  is: scans and DHCP timeouts never hide an established link and nothing but a successful link up message raises it.\<close>

theorem link_status_refines:
  assumes "SysEvtCB s \<noteq> 0"
  shows "link_status (run_msgs ms s) = SYS_EVT_LINK_UP \<longleftrightarrow> spec_link (link_status s = SYS_EVT_LINK_UP) ms"
  using assms
proof (induction ms arbitrary: s)
  case Nil
  show ?case by simp
next
  case (Cons em ms)
  obtain e m where em: "em = (e, m)" by (cases em)
  have "link_status (run_msgs (em # ms) s) = SYS_EVT_LINK_UP \<longleftrightarrow>
      spec_link (link_status (DefaultProc e (Some m) s) = SYS_EVT_LINK_UP) ms"
    using Cons.IH [of "DefaultProc e (Some m) s"] Cons.prems by (simp add: em)
  also have "\<dots> \<longleftrightarrow> spec_link (link_status s = SYS_EVT_LINK_UP) (em # ms)"
    unfolding link_DefaultProc [OF Cons.prems] em by simp
  finally show ?case .
qed

theorem link_status_witness:
  "link_status (run_msgs [(env0, SYS_LINK_UP_ID), (env0, SYS_SCAN_DONE_ID), (env0, SYS_DHCP_TIMEOUT_ID)]
     (snet0\<lparr>SysEvtCB := 1\<rparr>)) = SYS_EVT_LINK_UP"
  using link_status_refines [of "snet0\<lparr>SysEvtCB := 1\<rparr>"
      "[(env0, SYS_LINK_UP_ID), (env0, SYS_SCAN_DONE_ID), (env0, SYS_DHCP_TIMEOUT_ID)]"]
  by (simp add: env0_def snet0_def)

end
