(* ===== verification/Uart_Rx.thy ===== *)
theory Uart_Rx
  imports Serial_Net Str_Lib
begin

text \<open>
  The serial side: the receive interrupt \<^verbatim>\<open>uart_data_recv\<close>, the frame timer \<^verbatim>\<open>timerFuncProcess\<close> and the mailbox
  loop of \<^verbatim>\<open>UartRecvThread\<close> (\<^verbatim>\<open>at_cmd.c\<close>), \<^verbatim>\<open>UartSendThread\<close> (\<^verbatim>\<open>socketCom.c\<close>), and the data mode branch of \<^verbatim>\<open>TestSerialToWifi\<close>
  (\<^verbatim>\<open>serialNet.c\<close>). \<open>None\<close> is a store outside a buffer or a division by zero. \<^verbatim>\<open>strcmp(&Dummy, "+")\<close> reads the
  stack slot of a \<^verbatim>\<open>char\<close> argument, whose upper bytes are zero on this target, so it compares one character.
\<close>

section \<open>Definitions\<close>

definition set_char :: "string \<Rightarrow> nat \<Rightarrow> char \<Rightarrow> string option" where
  "set_char b i c = (if i < length b then Some (b[i := c]) else None)"

definition OSMboxPost :: "string \<Rightarrow> ('f, 'a) snet_scheme \<Rightarrow> ('f, 'a) snet_scheme" where
  "OSMboxPost m s = s\<lparr>uartMessg := uartMessg s @ [m]\<rparr>"

definition OSSemPost :: "('f, 'a) snet_scheme \<Rightarrow> ('f, 'a) snet_scheme" where
  "OSSemPost s = s\<lparr>modeSwitch := modeSwitch s + 1\<rparr>"

definition escape_seq :: string where "escape_seq = ''+++'' @ [CR, LF]"

text \<open>Data mode, part one: store the character.\<close>

definition recv_store :: "char \<Rightarrow> ('f, 'a) snet_scheme \<Rightarrow> ('f, 'a) snet_scheme option" where
  "recv_store Dummy s =
     (if unat (uart_rec_len s) < MAX_RECV_BUFFER_SIZE then
        do {
          b \<leftarrow> set_char (uart_rec_data s) (unat (uart_rec_len s)) Dummy;
          Some (OSMboxPost ''start timer'' (s\<lparr>uart_rec_data := b, uart_rec_len := uart_rec_len s + 1\<rparr>))
        }
      else Some s)"

text \<open>Part two: with a full buffer only the escape sequence is looked for.\<close>

definition recv_escape :: "char \<Rightarrow> ('f, 'a) snet_scheme \<Rightarrow> ('f, 'a) snet_scheme option" where
  "recv_escape Dummy s =
     (if end_sendFlags s < 3 then
        if Dummy = CHR ''+'' then Some (s\<lparr>end_sendFlags := end_sendFlags s + 1\<rparr>)
        else Some (OSMboxPost ''-14'' (s\<lparr>end_sendFlags := 0\<rparr>))
      else if end_sendFlags s = 3 then
        Some (s\<lparr>end_sendFlags := if Dummy = CR then end_sendFlags s + 1 else 0\<rparr>)
      else if end_sendFlags s = 4 then
        if Dummy = LF then
          do {
            b \<leftarrow> buf_write (uart_rec_data s) 0 escape_seq;
            Some (OSMboxPost ''cancelled timer'' (OSSemPost
              (s\<lparr>uart_send_data := clear_frame (uart_send_data s), end_sendFlags := 0, uart_rec_len := 5,
                 uart_rec_data := b\<rparr>)))
          }
        else Some (s\<lparr>end_sendFlags := 0\<rparr>)
      else Some s)"

text \<open>The copy of a finished frame to the network buffer, also made by the timer.\<close>

definition to_net :: "('f, 'a) snet_scheme \<Rightarrow> ('f, 'a) snet_scheme option" where
  "to_net s =
     do {
       b \<leftarrow> set_char (uart_rec_data s) (unat (uart_rec_len s)) NUL;
       n \<leftarrow> buf_write (net_send_data s) 0 (take (unat (uart_rec_len s)) b);
       Some (s\<lparr>uart_rec_data := b, net_send_len := uart_rec_len s, uart_rec_len := 0, net_send_data := n,
               net_sendStart := 1\<rparr>)
     }"

text \<open>Part three: a frame of the configured length goes to the network.\<close>

definition recv_frame :: "('f, 'a) snet_scheme \<Rightarrow> ('f, 'a) snet_scheme option" where
  "recv_frame s =
     (if frameLength (UserParam s) = 0 then None
      else if unat (uart_rec_len s) mod unat (frameLength (UserParam s)) = 0 \<and>
              unat (uart_rec_len s) < MAX_RECV_BUFFER_SIZE then
        if connStatus (WifiConnStatus s) = CONNECT_STATUS_OK \<and>
           (link_status s = SYS_EVT_LINK_UP \<or> link_status s = SYS_EVT_SCAN_DONE) then
          if net_sendStart s = 0 then to_net s else Some s
        else Some (OSMboxPost ''-18'' s)
      else Some s)"

definition recv_data_mode :: "char \<Rightarrow> ('f, 'a) snet_scheme \<Rightarrow> ('f, 'a) snet_scheme option" where
  "recv_data_mode Dummy s =
     do {
       s1 \<leftarrow> recv_store Dummy s;
       if connStatus (WifiConnStatus s1) \<noteq> CONNECT_STATUS_OK then Some s1
       else do {
         s2 \<leftarrow> (if unat (uart_rec_len s1) = MAX_RECV_BUFFER_SIZE then recv_escape Dummy s1 else Some s1);
         recv_frame s2
       }
     }"

text \<open>Command mode: collect a line that starts with \<^verbatim>\<open>AT\<close>.\<close>

definition recv_line_end :: "('f, 'a) snet_scheme \<Rightarrow> ('f, 'a) snet_scheme option" where
  "recv_line_end s =
     (let d = uart_rec_data s
      in if (d ! 0 = CHR ''A'' \<or> d ! 0 = CHR ''a'') \<and> (d ! 1 = CHR ''T'' \<or> d ! 1 = CHR ''t'') then
           if d ! 2 = CHR ''+'' \<or> d ! 2 = CR then
             do {
               b \<leftarrow> set_char d (unat (uart_rec_len s - 1)) NUL;
               Some (s\<lparr>uart_rec_len := uart_rec_len s - 1, uart_recvEnd := 1, recv_start := 0, uart_rec_data := b\<rparr>)
             }
           else Some (s\<lparr>uart_rec_len := 0, recv_start := 0\<rparr>)
         else Some s)"

definition recv_line_char :: "char \<Rightarrow> ('f, 'a) snet_scheme \<Rightarrow> ('f, 'a) snet_scheme option" where
  "recv_line_char Dummy s =
     do {
       d \<leftarrow> set_char (uart_rec_data s) (unat (uart_rec_len s)) Dummy;
       let s1 = s\<lparr>uart_rec_data := d\<rparr>;
       let s2 = (if recv_start s1 = 0 then
                   let s2 = (if Dummy = CHR ''A'' \<or> Dummy = CHR ''a'' then
                               s1\<lparr>uart_rec_data := d[0 := CHR ''A''], uart_rec_len := 0\<rparr>
                             else s1);
                       d2 = uart_rec_data s2
                   in if uart_rec_len s2 = 1 \<and> (d2 ! 1 = CHR ''T'' \<or> d2 ! 1 = CHR ''t'') \<and> d2 ! 0 = CHR ''A'' \<or>
                         d2 ! 0 = CHR ''a'' then s2\<lparr>recv_start := 1\<rparr>
                      else s2\<lparr>uart_rec_len := 0\<rparr>
                 else s1);
       let s3 = s2\<lparr>uart_rec_len := uart_rec_len s2 + 1\<rparr>;
       Some (if unat (uart_rec_len s2) > 200 then s3\<lparr>recv_start := 0, uart_rec_len := 0, uart_recvEnd := 0\<rparr> else s3)
     }"

definition uart_data_recv :: "char \<Rightarrow> ('f, 'a) snet_scheme \<Rightarrow> ('f, 'a) snet_scheme option" where
  "uart_data_recv Dummy s =
     (if atMode (UserParam s) = DATA_MODE then recv_data_mode Dummy s
      else if uart_recvEnd s = 0 then
        if Dummy = LF then recv_line_end s else recv_line_char Dummy s
      else Some s)"

fun uart_feed :: "string \<Rightarrow> ('f, 'a) snet_scheme \<Rightarrow> ('f, 'a) snet_scheme option" where
  "uart_feed [] s = Some s"
| "uart_feed (c # cs) s = do { s1 \<leftarrow> uart_data_recv c s; uart_feed cs s1 }"

text \<open>The C string at the start of a character array.\<close>

definition cstr :: "string \<Rightarrow> string" where
  "cstr b = takeWhile (\<lambda>c. c \<noteq> NUL) b"

definition timerFuncProcess :: "('f, 'a) snet_scheme \<Rightarrow> ('f, 'a) snet_scheme option" where
  "timerFuncProcess s =
     (if net_sendStart s = 1 then Some s
      else if uart_rec_len s \<noteq> 0 then
        do {
          b \<leftarrow> (if uart_rec_len s = 5 then set_char (uart_rec_data s) 5 NUL else Some (uart_rec_data s));
          let s1 = s\<lparr>uart_rec_data := b\<rparr>;
          if uart_rec_len s = 5 \<and> cstr b = escape_seq then Some (OSSemPost s1)
          else if connStatus (WifiConnStatus s1) = CONNECT_STATUS_OK then to_net s1
          else Some (s1\<lparr>uart_rec_len := 0\<rparr>)
        }
      else Some s)"

text \<open>One message of the mailbox in \<^verbatim>\<open>UartRecvThread\<close>: the timer commands it gives and what it prints.\<close>

datatype timer_cmd = NST_SetTimer u16 | NST_CancelTimer | NoTimer

definition UartRecv_message :: "string \<Rightarrow> ('f, 'a) snet_scheme \<Rightarrow> timer_cmd \<times> ('f, 'a) snet_scheme" where
  "UartRecv_message m s =
     (if m = ''start timer'' then (NST_SetTimer (frameGap (UserParam s)), s)
      else if m = ''cancelled timer'' then (NST_CancelTimer, s)
      else if m = ''-14'' then (NoTimer, printf (''+ERROR='' @ m @ nr) s)
      else (NoTimer, s))"

text \<open>A turn of \<^verbatim>\<open>UartSendThread\<close>: the bytes \<^verbatim>\<open>FormatPrintf\<close> puts on the UART.\<close>

definition UartSend_turn :: "('f, 'a) snet_scheme \<Rightarrow> ('f, 'a) snet_scheme" where
  "UartSend_turn s =
     (if atMode (UserParam s) = DATA_MODE \<and> uart_sendStart s = 0 \<and> uart_hasData s = 1 then
        (printf (take (unat (uart_send_len s)) (uart_send_data s)) s)\<lparr>uart_sendStart := 0, uart_hasData := 0\<rparr>
      else s)"

text \<open>A turn of the data mode branch of \<^verbatim>\<open>TestSerialToWifi\<close>, after \<^verbatim>\<open>modeSwitchSem\<close> was posted.\<close>

definition close_fd :: "int \<Rightarrow> ('f, 'a) snet_scheme \<Rightarrow> ('f, 'a) snet_scheme" where
  "close_fd fd s = (if fd \<ge> 0 then lwip_close fd s else s)"

definition mode_switch_turn :: "('f, 'a) snet_scheme \<Rightarrow> ('f, 'a) snet_scheme option" where
  "mode_switch_turn s =
     (if uart_rec_len s = 5 then
        do {
          b \<leftarrow> set_char (uart_rec_data s) 5 NUL;
          let s1 = s\<lparr>uart_rec_data := b, modeSwitch := modeSwitch s - 1\<rparr>;
          if cstr b = escape_seq then
            let w = WifiConnStatus s1;
                s2 = close_fd (sockfd w) (close_fd (connectFd w)
                       (s1\<lparr>uart_recvEnd := 0, uart_rec_len := 0, net_sendStart := 0, net_send_len := 0\<rparr>))
            in Some (printf (''+OK:CMDMODE'' @ [LF])
                 (s2\<lparr>WifiConnStatus := w\<lparr>connectFd := if connectFd w \<ge> 0 then -1 else connectFd w,
                                         sockfd := if sockfd w \<ge> 0 then -1 else sockfd w\<rparr>,
                     UserParam := (UserParam s2)\<lparr>atMode := AT_MODE\<rparr>, wl_workmode := uint AT_MODE\<rparr>))
          else Some s1
        }
      else Some (s\<lparr>modeSwitch := modeSwitch s - 1\<rparr>))"

lemma uart_feed_append: "uart_feed (as @ bs) s = Option.bind (uart_feed as s) (uart_feed bs)"
proof (induction as arbitrary: s)
  case (Cons a as)
  then show ?case by (cases "uart_data_recv a s") simp_all
qed simp

lemma uart_feed_then: "uart_feed as s = Some s1 \<Longrightarrow> uart_feed (as @ bs) s = uart_feed bs s1"
  by (simp add: uart_feed_append)

section \<open>Data mode\<close>

text \<open>The buffers have their sizes and the fill level fits.\<close>

definition rx_ok :: "('f, 'a) snet_scheme \<Rightarrow> bool" where
  "rx_ok s \<longleftrightarrow> length (uart_rec_data s) = 1401 \<and> length (net_send_data s) = 1401 \<and> length (uart_send_data s) = 1401 \<and>
     unat (uart_rec_len s) \<le> 1400 \<and> frameLength (UserParam s) \<noteq> 0"

lemma unat_Suc_small: "unat (n::u32) \<le> k \<Longrightarrow> k < 2 ^ 32 - 1 \<Longrightarrow> unat (n + 1) = unat n + 1"
  by (simp add: unat_word_ariths)

lemma length_clear_frame [simp]: "length (clear_frame b) = (if length b \<le> 1400 then 1400 else length b)"
  by (simp add: clear_frame_def MAX_RECV_BUFFER_SIZE_def)

lemma post_simps [simp]:
  "rx_ok (OSMboxPost m s) = rx_ok s" "rx_ok (OSSemPost s) = rx_ok s"
  "UserParam (OSMboxPost m s) = UserParam s" "UserParam (OSSemPost s) = UserParam s"
  by (simp_all add: rx_ok_def OSMboxPost_def OSSemPost_def)

lemma recv_store_ok:
  "rx_ok s \<Longrightarrow> \<exists>s'. recv_store c s = Some s' \<and> rx_ok s' \<and> UserParam s' = UserParam s"
  by (auto simp: recv_store_def rx_ok_def set_char_def MAX_RECV_BUFFER_SIZE_def OSMboxPost_def
      unat_Suc_small [where k = 1400])

lemma recv_escape_ok:
  "rx_ok s \<Longrightarrow> \<exists>s'. recv_escape c s = Some s' \<and> rx_ok s' \<and> UserParam s' = UserParam s"
  by (auto simp: recv_escape_def rx_ok_def buf_write_def escape_seq_def OSMboxPost_def OSSemPost_def)

lemma to_net_ok:
  assumes "rx_ok s" shows "\<exists>s'. to_net s = Some s' \<and> rx_ok s' \<and> UserParam s' = UserParam s"
proof -
  have "unat (uart_rec_len s) < length (uart_rec_data s)" using assms by (simp add: rx_ok_def)
  with assms show ?thesis by (auto simp: to_net_def rx_ok_def set_char_def buf_write_def)
qed

lemma recv_frame_ok:
  assumes "rx_ok s" shows "\<exists>s'. recv_frame s = Some s' \<and> rx_ok s' \<and> UserParam s' = UserParam s"
proof -
  have "frameLength (UserParam s) \<noteq> 0" using assms by (simp add: rx_ok_def)
  with assms to_net_ok [OF assms] show ?thesis by (simp add: recv_frame_def)
qed

lemma uart_data_recv_ok:
  assumes "rx_ok s" "atMode (UserParam s) = DATA_MODE"
  shows "\<exists>s'. uart_data_recv c s = Some s' \<and> rx_ok s' \<and> UserParam s' = UserParam s"
proof -
  obtain s1 where s1: "recv_store c s = Some s1" "rx_ok s1" "UserParam s1 = UserParam s"
    using recv_store_ok [OF assms(1)] by blast
  obtain s2 where s2: "(if unat (uart_rec_len s1) = MAX_RECV_BUFFER_SIZE then recv_escape c s1 else Some s1) = Some s2"
      "rx_ok s2" "UserParam s2 = UserParam s"
    using recv_escape_ok [OF s1(2), of c] s1
    by (cases "unat (uart_rec_len s1) = MAX_RECV_BUFFER_SIZE") auto
  obtain s3 where s3: "recv_frame s2 = Some s3" "rx_ok s3" "UserParam s3 = UserParam s"
    using recv_frame_ok [OF s2(2)] s2(3) by auto
  show ?thesis
    using assms(2) s1 s2 s3 by (cases "connStatus (WifiConnStatus s1) = CONNECT_STATUS_OK")
      (simp_all add: uart_data_recv_def recv_data_mode_def)
qed

lemma timer_ok:
  assumes "rx_ok s" shows "\<exists>s'. timerFuncProcess s = Some s' \<and> rx_ok s' \<and> UserParam s' = UserParam s"
proof -
  have len: "5 < length (uart_rec_data s)" using assms by (simp add: rx_ok_def)
  define b where "b = (if uart_rec_len s = 5 then (uart_rec_data s)[5 := NUL] else uart_rec_data s)"
  have b: "(if uart_rec_len s = 5 then set_char (uart_rec_data s) 5 NUL else Some (uart_rec_data s)) = Some b"
    using len by (simp add: b_def set_char_def)
  have ok: "rx_ok (s\<lparr>uart_rec_data := b\<rparr>)" using assms by (simp add: rx_ok_def b_def)
  have ok0: "rx_ok (s\<lparr>uart_rec_data := b, uart_rec_len := 0\<rparr>)" using ok by (simp add: rx_ok_def)
  obtain s' where s': "to_net (s\<lparr>uart_rec_data := b\<rparr>) = Some s'" "rx_ok s'" "UserParam s' = UserParam s"
    using to_net_ok [OF ok] by auto
  show ?thesis
    unfolding timerFuncProcess_def b bind.bind_lunit Let_def using assms ok ok0 s'
    by (simp split: if_split)
qed

text \<open>What the serial side does in data mode.\<close>

inductive rx_step :: "('f, 'a) snet_scheme \<Rightarrow> ('f, 'a) snet_scheme option \<Rightarrow> bool" where
  rx_char: "rx_step s (uart_data_recv c s)"
| rx_timer: "rx_step s (timerFuncProcess s)"
| rx_sent: "rx_step s (Some (s\<lparr>net_sendStart := 0, net_send_len := 0\<rparr>))"
| rx_link: "rx_step s (Some (s\<lparr>link_status := l, WifiConnStatus := w\<rparr>))"

inductive rx_reach :: "('f, 'a) snet_scheme \<Rightarrow> ('f, 'a) snet_scheme option \<Rightarrow> bool" for s0 where
  rx_init: "rx_reach s0 (Some s0)"
| rx_next: "rx_reach s0 (Some s) \<Longrightarrow> rx_step s r \<Longrightarrow> rx_reach s0 r"

inductive_cases rx_step_cases: "rx_step s r"

text \<open>C19: in data mode no interleaving of received characters, timer expiries, completed transmissions and
  connection changes stores outside a buffer or divides by zero; the fill level never passes 1400.\<close>

theorem data_mode_safe:
  assumes "rx_reach s0 r" "rx_ok s0" "atMode (UserParam s0) = DATA_MODE"
  shows "\<exists>s. r = Some s \<and> rx_ok s \<and> unat (uart_rec_len s) \<le> 1400"
proof -
  have "\<exists>s. r = Some s \<and> rx_ok s \<and> UserParam s = UserParam s0"
    using assms
  proof (induction rule: rx_reach.induct)
    case rx_init
    then show ?case by simp
  next
    case (rx_next s r)
    then have s: "rx_ok s" "UserParam s = UserParam s0" "atMode (UserParam s) = DATA_MODE" by auto
    from rx_next(2) show ?case
    proof (cases rule: rx_step.cases)
      case (rx_char c)
      then show ?thesis using uart_data_recv_ok [OF s(1,3)] s(2) by auto
    next
      case rx_timer
      then show ?thesis using timer_ok [OF s(1)] s(2) by auto
    qed (use s in \<open>auto simp: rx_ok_def\<close>)
  qed
  then show ?thesis by (auto simp: rx_ok_def)
qed

text \<open>The conditions under which characters are gathered into frames of length \<open>L\<close>.\<close>

definition gathering :: "nat \<Rightarrow> ('f, 'a) snet_scheme \<Rightarrow> bool" where
  "gathering L s \<longleftrightarrow> rx_ok s \<and> atMode (UserParam s) = DATA_MODE \<and> unat (frameLength (UserParam s)) = L \<and>
     connStatus (WifiConnStatus s) = CONNECT_STATUS_OK \<and>
     (link_status s = SYS_EVT_LINK_UP \<or> link_status s = SYS_EVT_SCAN_DONE) \<and> net_sendStart s = 0"

lemma gather_char:
  assumes "gathering L s" "unat (uart_rec_len s) + 1 < L" "L < 1400"
  shows "\<exists>s'. uart_data_recv c s = Some s' \<and> gathering L s' \<and> unat (uart_rec_len s') = unat (uart_rec_len s) + 1 \<and>
    uart_rec_data s' = (uart_rec_data s)[unat (uart_rec_len s) := c]"
proof -
  let ?n = "unat (uart_rec_len s)"
  have n: "?n < 1401" "?n < 1400" "unat (uart_rec_len s + 1) = ?n + 1"
    using assms(2,3) by (simp_all add: unat_Suc_small [where k = 1400])
  have "(?n + 1) mod L = ?n + 1" using assms(2) by simp
  then show ?thesis
    using assms n unfolding gathering_def rx_ok_def
    by (auto simp: uart_data_recv_def recv_data_mode_def recv_store_def set_char_def OSMboxPost_def recv_frame_def
        MAX_RECV_BUFFER_SIZE_def)
qed

lemma take_list_update_snoc: "n < length d \<Longrightarrow> take (Suc n) (d[n := c]) = take n d @ [c]"
  by (simp add: take_Suc_conv_app_nth)

lemma gather_chars:
  assumes "gathering L s" "unat (uart_rec_len s) + length xs < L" "L < 1400"
  shows "\<exists>s'. uart_feed xs s = Some s' \<and> gathering L s' \<and> unat (uart_rec_len s') = unat (uart_rec_len s) + length xs \<and>
    take (unat (uart_rec_len s')) (uart_rec_data s') = take (unat (uart_rec_len s)) (uart_rec_data s) @ xs"
  using assms(1,2)
proof (induction xs arbitrary: s)
  case Nil
  then show ?case by simp
next
  case (Cons c xs)
  then obtain s1 where s1: "uart_data_recv c s = Some s1" "gathering L s1"
      "unat (uart_rec_len s1) = unat (uart_rec_len s) + 1"
      "uart_rec_data s1 = (uart_rec_data s)[unat (uart_rec_len s) := c]"
    using gather_char [of L s c] assms(3) by auto
  have len: "unat (uart_rec_len s) < length (uart_rec_data s)"
    using Cons.prems assms(3) by (simp add: gathering_def rx_ok_def)
  have "unat (uart_rec_len s1) + length xs < L" using Cons.prems s1(3) by simp
  from Cons.IH [OF s1(2) this] s1 len show ?case by (auto simp: take_list_update_snoc)
qed

lemma gather_last:
  assumes "gathering L s" "unat (uart_rec_len s) + 1 = L" "L < 1400"
  shows "\<exists>s'. uart_data_recv c s = Some s' \<and> uart_rec_len s' = 0 \<and> net_sendStart s' = 1 \<and> unat (net_send_len s') = L \<and>
    take L (net_send_data s') = take (unat (uart_rec_len s)) (uart_rec_data s) @ [c]"
proof -
  define n where "n = unat (uart_rec_len s)"
  have L: "L = Suc n" using assms(2) by (simp add: n_def)
  have n: "n < 1399" "unat (uart_rec_len s + 1) = Suc n"
    using assms(3) by (simp_all add: L n_def unat_Suc_small [where k = 1400])
  have d: "length (uart_rec_data s) = 1401" "length (net_send_data s) = 1401" "frameLength (UserParam s) \<noteq> 0"
    "unat (frameLength (UserParam s)) = Suc n" "atMode (UserParam s) = DATA_MODE" "net_sendStart s = 0"
    "connStatus (WifiConnStatus s) = CONNECT_STATUS_OK"
    "link_status s = SYS_EVT_LINK_UP \<or> link_status s = SYS_EVT_SCAN_DONE"
    using assms(1) by (simp_all add: gathering_def rx_ok_def L)
  have t: "take (Suc n) ((uart_rec_data s)[n := c]) = take n (uart_rec_data s) @ [c]"
    using d(1) n(1) by (simp add: take_list_update_snoc)
  show ?thesis
    unfolding L n_def [symmetric] using n d t
    by (simp add: uart_data_recv_def recv_data_mode_def recv_store_def set_char_def OSMboxPost_def recv_frame_def
        MAX_RECV_BUFFER_SIZE_def to_net_def buf_write_def n_def [symmetric])
qed

text \<open>In data mode with an open connection and an idle sender, as many characters as the frame length, for
  every frame length below 1400, become exactly one network frame with these characters in order, and the
  receive buffer is empty again.\<close>

lemma frame_complete:
  assumes "gathering L s" "uart_rec_len s = 0" "length xs = L" "L < 1400"
  shows "\<exists>s'. uart_feed xs s = Some s' \<and> net_sendStart s' = 1 \<and> unat (net_send_len s') = L \<and>
    take L (net_send_data s') = xs \<and> uart_rec_len s' = 0"
proof -
  have "unat (frameLength (UserParam s)) \<noteq> 0"
    using assms(1) unfolding gathering_def rx_ok_def by (metis unat_eq_zero)
  then have "L \<noteq> 0" using assms(1) by (simp add: gathering_def)
  then obtain ys y where xs: "xs = ys @ [y]" using assms(3) by (cases xs rule: rev_cases) auto
  obtain s1 where s1: "uart_feed ys s = Some s1" "gathering L s1" "unat (uart_rec_len s1) = length ys"
      "take (length ys) (uart_rec_data s1) = ys"
  proof -
    have "unat (uart_rec_len s) + length ys < L" using assms(2,3) xs by simp
    from gather_chars [OF assms(1) this assms(4)] that show ?thesis unfolding assms(2) by auto
  qed
  obtain s2 where s2: "uart_data_recv y s1 = Some s2" "uart_rec_len s2 = 0" "net_sendStart s2 = 1"
      "unat (net_send_len s2) = L" "take L (net_send_data s2) = ys @ [y]"
  proof -
    have "unat (uart_rec_len s1) + 1 = L" using assms(3) xs s1(3) by simp
    from gather_last [OF s1(2) this assms(4), of y] that show ?thesis unfolding s1(3,4) by blast
  qed
  have "uart_feed (ys @ [y]) s = Some s2" unfolding uart_feed_append s1(1) using s2(1) by simp
  with s2 show ?thesis unfolding xs by blast
qed

section \<open>Command mode\<close>

text \<open>Waiting for a command line.\<close>

definition idle :: "('f, 'a) snet_scheme \<Rightarrow> bool" where
  "idle s \<longleftrightarrow> length (uart_rec_data s) = 1401 \<and> atMode (UserParam s) = AT_MODE \<and> uart_recvEnd s = 0 \<and>
     uart_rec_len s = 0 \<and> recv_start s = 0"

text \<open>Inside a line: \<open>pre\<close> has been stored.\<close>

definition in_line :: "string \<Rightarrow> ('f, 'a) snet_scheme \<Rightarrow> bool" where
  "in_line pre s \<longleftrightarrow> length (uart_rec_data s) = 1401 \<and> atMode (UserParam s) = AT_MODE \<and> uart_recvEnd s = 0 \<and>
     unat (uart_rec_len s) = length pre \<and> recv_start s = 1 \<and> take (length pre) (uart_rec_data s) = pre"

definition is_a :: "char \<Rightarrow> bool" where "is_a c \<longleftrightarrow> c = CHR ''A'' \<or> c = CHR ''a''"
definition is_t :: "char \<Rightarrow> bool" where "is_t c \<longleftrightarrow> c = CHR ''T'' \<or> c = CHR ''t''"

lemma mode_distinct [simp]: "AT_MODE \<noteq> DATA_MODE" "DATA_MODE \<noteq> AT_MODE"
  by (simp_all add: AT_MODE_def DATA_MODE_def)

lemma line_start:
  assumes "idle s" "is_a a" "is_t t"
  shows "\<exists>s'. uart_feed [a, t] s = Some s' \<and> in_line [CHR ''A'', t] s'"
proof -
  obtain c0 c1 d where d: "uart_rec_data s = c0 # c1 # d" "length d = 1399"
    using assms(1) unfolding idle_def
    by (cases "uart_rec_data s"; cases "tl (uart_rec_data s)") auto
  have ne: "a \<noteq> LF" "t \<noteq> LF" "t \<noteq> CHR ''A''" "t \<noteq> CHR ''a''"
    using assms(2,3) by (auto simp: is_a_def is_t_def LF_def)
  have 1: "uart_data_recv a s = Some (s\<lparr>uart_rec_data := CHR ''A'' # c1 # d, uart_rec_len := 1\<rparr>)"
    using assms(1,2) ne d by (simp add: idle_def uart_data_recv_def recv_line_char_def set_char_def Let_def is_a_def)
  have 2: "uart_data_recv t (s\<lparr>uart_rec_data := CHR ''A'' # c1 # d, uart_rec_len := 1\<rparr>) =
      Some (s\<lparr>uart_rec_data := CHR ''A'' # t # d, uart_rec_len := 2, recv_start := 1\<rparr>)"
    using assms(1,3) ne d by (simp add: idle_def uart_data_recv_def recv_line_char_def set_char_def Let_def is_t_def)
  show ?thesis using 1 2 assms(1) d by (simp add: in_line_def idle_def)
qed

lemma line_char:
  assumes "in_line pre s" "c \<noteq> LF" "length pre \<le> 200"
  shows "\<exists>s'. uart_data_recv c s = Some s' \<and> in_line (pre @ [c]) s'"
proof -
  have len: "unat (uart_rec_len s) = length pre" using assms(1) by (simp add: in_line_def)
  then have "unat (uart_rec_len s + 1) = Suc (length pre)"
    using assms(3) by (simp add: unat_Suc_small [where k = 1400])
  then show ?thesis
    using assms len unfolding in_line_def
    by (simp add: uart_data_recv_def recv_line_char_def set_char_def Let_def take_list_update_snoc)
qed

lemma line_chars:
  "in_line pre s \<Longrightarrow> LF \<notin> set xs \<Longrightarrow> length pre + length xs \<le> 201 \<Longrightarrow>
     \<exists>s'. uart_feed xs s = Some s' \<and> in_line (pre @ xs) s'"
proof (induction xs arbitrary: pre s)
  case Nil
  then show ?case by simp
next
  case (Cons c xs)
  then obtain s1 where s1: "uart_data_recv c s = Some s1" "in_line (pre @ [c]) s1"
    using line_char [of pre s c] by auto
  with Cons.IH [OF s1(2)] Cons.prems show ?case by auto
qed

lemma in_line_nth: "in_line pre s \<Longrightarrow> i < length pre \<Longrightarrow> uart_rec_data s ! i = pre ! i"
  unfolding in_line_def by (metis nth_take)

lemma line_end:
  assumes "in_line (CHR ''A'' # t # x # xs) s" "is_t t" "x = CHR ''+'' \<or> x = CR" "length xs \<le> 198"
  shows "\<exists>s'. uart_data_recv LF s = Some s' \<and> uart_recvEnd s' = 1 \<and>
    uart_rec_data s' = (uart_rec_data s)[Suc (Suc (length xs)) := NUL] \<and>
    unat (uart_rec_len s') = Suc (Suc (length xs)) \<and> recv_start s' = 0"
proof -
  have d: "uart_rec_data s ! 0 = CHR ''A''" "uart_rec_data s ! 1 = t" "uart_rec_data s ! 2 = x"
    using in_line_nth [OF assms(1), of 0] in_line_nth [OF assms(1), of 1] in_line_nth [OF assms(1), of 2] by simp_all
  have len: "unat (uart_rec_len s) = Suc (Suc (Suc (length xs)))" using assms(1) by (simp add: in_line_def)
  then have "uart_rec_len s \<noteq> 0" by auto
  then have "unat (uart_rec_len s - 1) = Suc (Suc (length xs))" using len by (simp add: unat_minus_one)
  then show ?thesis
    using assms d unfolding in_line_def
    by (auto simp: uart_data_recv_def recv_line_end_def Let_def set_char_def is_t_def)
qed

lemma line_received:
  assumes "idle s" "is_a a" "is_t t" "LF \<notin> set body" "NUL \<notin> set body" "body = [] \<or> hd body = CHR ''+''"
    and "length body \<le> 198"
  shows "\<exists>s'. uart_feed (a # t # body @ [CR, LF]) s = Some s' \<and> uart_recvEnd s' = 1 \<and>
    cstr (uart_rec_data s') = CHR ''A'' # t # body \<and> unat (uart_rec_len s') = length body + 2 \<and> length (uart_rec_data s') = 1401 \<and>
    recv_start s' = 0"
proof -
  obtain s1 where s1: "uart_feed [a, t] s = Some s1" "in_line [CHR ''A'', t] s1"
    using line_start [OF assms(1-3)] by blast
  have "LF \<notin> set (body @ [CR])" "length [CHR ''A'', t] + length (body @ [CR]) \<le> 201"
    using assms(4,7) by (simp_all add: LF_def CR_def)
  from line_chars [OF s1(2) this] obtain s2
    where s2: "uart_feed (body @ [CR]) s1 = Some s2" "in_line ([CHR ''A'', t] @ body @ [CR]) s2" by blast
  obtain x xs where x: "body @ [CR] = x # xs" "x = CHR ''+'' \<or> x = CR" "length xs = length body"
    using assms(6) by (cases body) auto
  then obtain s3 where s3: "uart_data_recv LF s2 = Some s3" "uart_recvEnd s3 = 1"
      "uart_rec_data s3 = (uart_rec_data s2)[Suc (Suc (length body)) := NUL]"
      "unat (uart_rec_len s3) = Suc (Suc (length body))" "recv_start s3 = 0"
    using line_end [of t x xs s2] s2(2) assms(3,7) by auto
  have "uart_feed ([a, t] @ (body @ [CR]) @ [LF]) s = Some s3"
    unfolding uart_feed_then [OF s1(1)] uart_feed_then [OF s2(1)] using s3(1) by simp
  moreover have "cstr (uart_rec_data s3) = CHR ''A'' # t # body"
  proof -
    let ?n = "Suc (Suc (length body))"
    have l: "?n < length (uart_rec_data s2)" using s2(2) assms(7) by (simp add: in_line_def)
    have "take (Suc ?n) (uart_rec_data s2) = [CHR ''A'', t] @ body @ [CR]" using s2(2) by (simp add: in_line_def)
    then have "take ?n (take (Suc ?n) (uart_rec_data s2)) = CHR ''A'' # t # body" by simp
    then have "take ?n (uart_rec_data s2) = CHR ''A'' # t # body" by (simp add: min_def)
    then have "uart_rec_data s3 = (CHR ''A'' # t # body) @ NUL # drop (Suc ?n) (uart_rec_data s2)"
      unfolding s3(3) using l by (simp add: upd_conv_take_nth_drop)
    moreover have "\<And>c. c \<in> set (CHR ''A'' # t # body) \<Longrightarrow> c \<noteq> NUL"
      using assms(3,5) by (auto simp: is_t_def NUL_def)
    ultimately show ?thesis unfolding cstr_def by (simp only: takeWhile_append2) simp
  qed
  moreover have "length (uart_rec_data s3) = 1401" using s2(2) by (simp add: s3(3) in_line_def)
  ultimately show ?thesis using s3 by auto
qed

text \<open>In command mode the interrupt touches the line buffer and its three flags only.\<close>

definition line_only :: "('f, 'a) snet_scheme \<Rightarrow> ('f, 'a) snet_scheme \<Rightarrow> bool" where
  "line_only s s' \<longleftrightarrow> UserParam s' = UserParam s \<and> SysParam s' = SysParam s \<and> flash s' = flash s \<and>
     stdout s' = stdout s \<and> link_status s' = link_status s"

lemma recv_line_end_frame: "recv_line_end s = Some s' \<Longrightarrow> line_only s s'"
  unfolding recv_line_end_def Let_def set_char_def line_only_def by (auto split: if_splits)

lemma recv_line_char_frame: "recv_line_char c s = Some s' \<Longrightarrow> line_only s s'"
  unfolding recv_line_char_def Let_def set_char_def line_only_def by (simp split: if_splits) (erule subst, simp)+

lemma recv_frame_rule:
  "uart_data_recv c s = Some s' \<Longrightarrow> atMode (UserParam s) = AT_MODE \<Longrightarrow> line_only s s'"
  unfolding uart_data_recv_def
  by (cases "uart_recvEnd s = 0"; cases "c = LF") (auto simp: recv_line_end_frame recv_line_char_frame line_only_def [of s' s'])

lemma feed_frame_rule:
  "uart_feed cs s = Some s' \<Longrightarrow> atMode (UserParam s) = AT_MODE \<Longrightarrow> line_only s s'"
proof (induction cs arbitrary: s)
  case Nil
  then show ?case by (simp add: line_only_def)
next
  case (Cons c cs)
  then obtain s1 where s1: "uart_data_recv c s = Some s1" "uart_feed cs s1 = Some s'"
    by (cases "uart_data_recv c s") auto
  have e: "line_only s s1" by (rule recv_frame_rule [OF s1(1) Cons.prems(2)])
  with Cons.prems(2) have "line_only s1 s'" by (intro Cons.IH [OF s1(2)]) (simp add: line_only_def)
  with e show ?case by (simp add: line_only_def)
qed

text \<open>C24: a command line of up to 200 characters that starts with \<^verbatim>\<open>AT\<close> in either case, followed by \<^verbatim>\<open>+\<close> or the
  line end, and is closed by CR LF, is delivered whole: the flag is set and the buffer holds the line as a C string
  without its line end.\<close>

theorem command_line_received:
  assumes "idle s" "is_a a" "is_t t" "LF \<notin> set body" "NUL \<notin> set body" "body = [] \<or> hd body = CHR ''+''"
    and "length body \<le> 198"
  shows "\<exists>s'. uart_feed (a # t # body @ [CR, LF]) s = Some s' \<and> uart_recvEnd s' = 1 \<and>
    cstr (uart_rec_data s') = CHR ''A'' # t # body \<and> unat (uart_rec_len s') = length body + 2"
  using line_received [OF assms] by blast

lemma line_overflow:
  assumes "in_line pre s" "c \<noteq> LF" "length pre = 201"
  shows "\<exists>s'. uart_data_recv c s = Some s' \<and> uart_rec_len s' = 0 \<and> uart_recvEnd s' = 0 \<and> UserParam s' = UserParam s \<and>
    length (uart_rec_data s') = 1401 \<and> (\<forall>i < 201. uart_rec_data s' ! i = pre ! i)"
proof -
  have n: "\<forall>i < 201. uart_rec_data s ! i = pre ! i" using in_line_nth [OF assms(1)] assms(3) by simp
  show ?thesis
    using assms n unfolding in_line_def
    by (auto simp: uart_data_recv_def recv_line_char_def set_char_def Let_def nth_list_update)
qed

text \<open>A line of exactly 202 characters before its line feed resets the length to zero but leaves \<^verbatim>\<open>AT+\<close> in the
  buffer, so the line feed decrements the unsigned length below zero and stores the terminator outside the buffer.\<close>

theorem command_line_underflow:
  assumes "idle s" "is_a a" "is_t t" "LF \<notin> set body" "hd body = CHR ''+''" "length body = 200"
  shows "uart_feed (a # t # body @ [LF]) s = None"
proof -
  obtain s1 where s1: "uart_feed [a, t] s = Some s1" "in_line [CHR ''A'', t] s1"
    using line_start [OF assms(1-3)] by blast
  obtain ys y where b: "body = ys @ [y]" using assms(6) by (cases body rule: rev_cases) auto
  have ys: "LF \<notin> set ys" "y \<noteq> LF" "length ys = 199" "ys \<noteq> []" "hd ys = CHR ''+''"
    using assms(4-6) b by (auto simp: hd_append split: if_splits)
  obtain s2 where s2: "uart_feed ys s1 = Some s2" "in_line ([CHR ''A'', t] @ ys) s2"
    using line_chars [OF s1(2) ys(1)] ys(3) by auto
  obtain s3 where s3: "uart_data_recv y s2 = Some s3" "uart_rec_len s3 = 0" "uart_recvEnd s3 = 0"
      "UserParam s3 = UserParam s2" "length (uart_rec_data s3) = 1401"
      "\<forall>i < 201. uart_rec_data s3 ! i = ([CHR ''A'', t] @ ys) ! i"
    using line_overflow [OF s2(2) ys(2)] ys(3) by auto
  have "uart_rec_data s3 ! 0 = CHR ''A''" "uart_rec_data s3 ! 1 = t" "uart_rec_data s3 ! 2 = CHR ''+''"
    using s3(6) [rule_format, of 0] s3(6) [rule_format, of 1] s3(6) [rule_format, of 2] ys(4,5)
    by (simp_all add: hd_conv_nth)
  moreover have "atMode (UserParam s3) = AT_MODE" using s2(2) s3(4) by (simp add: in_line_def)
  ultimately have "uart_data_recv LF s3 = None"
    using assms(3) s3(2,3,5)
    by (simp add: uart_data_recv_def recv_line_end_def Let_def set_char_def is_t_def unsigned_minus_1_eq_mask
        mask_eq_exp_minus_1)
  then have "uart_feed ([a, t] @ ys @ [y, LF]) s = None"
    unfolding uart_feed_then [OF s1(1)] uart_feed_then [OF s2(1)] using s3(1) by simp
  then show ?thesis unfolding b by simp
qed

section \<open>Witnesses\<close>

lemma snet0_idle: "idle snet0"
  by (simp add: idle_def snet0_def user0_def zero_USER_CFG_PARAM_def AT_MODE_def)

theorem command_line_witness:
  "\<exists>s'. uart_feed (CHR ''a'' # CHR ''t'' # ''+VER'' @ [CR, LF]) snet0 = Some s' \<and> uart_recvEnd s' = 1 \<and>
    cstr (uart_rec_data s') = CHR ''A'' # CHR ''t'' # ''+VER'' \<and> unat (uart_rec_len s') = length ''+VER'' + 2"
  by (rule command_line_received [OF snet0_idle]) (simp_all add: is_a_def is_t_def LF_def NUL_def)

theorem command_line_underflow_witness:
  "uart_feed (CHR ''A'' # CHR ''T'' # (CHR ''+'' # replicate 199 (CHR ''x'')) @ [LF]) snet0 = None"
  by (rule command_line_underflow [OF snet0_idle]) (simp_all add: is_a_def is_t_def LF_def)

definition snet_data :: "nor snet" where
  "snet_data = snet0\<lparr>UserParam := user0\<lparr>atMode := DATA_MODE\<rparr>, link_status := SYS_EVT_LINK_UP,
     WifiConnStatus := zero_CONN_STATUS\<lparr>connStatus := CONNECT_STATUS_OK\<rparr>\<rparr>"

lemma snet_data_gathering: "gathering 64 snet_data"
  by (simp add: gathering_def snet_data_def rx_ok_def snet0_def user0_def)

theorem data_mode_safe_witness:
  "\<exists>s. uart_data_recv (CHR ''+'') snet_data = Some s \<and> rx_ok s \<and> unat (uart_rec_len s) \<le> 1400"
proof (rule data_mode_safe)
  show "rx_reach snet_data (uart_data_recv (CHR ''+'') snet_data)"
    by (rule rx_next [OF rx_init rx_char])
qed (use snet_data_gathering in \<open>simp_all add: gathering_def\<close>)

end
