(* ===== verification/At_Cmd.thy ===== *)
theory At_Cmd
  imports Uart_Rx Sys_Events
begin

text \<open>
  The AT command interpreter (\<^verbatim>\<open>App/SerialNet/at_cmd.c\<close>): tokenizer, command table, dispatcher and the response
  handlers. \<^verbatim>\<open>argv\<close> is the list of arguments with the command name first, so \<^verbatim>\<open>argc\<close> is its length; a handler
  yields the new state, \<open>None\<close> when it would read or write memory it must not. Text written with
  \<^verbatim>\<open>printf\<close> is appended to the state's output.
\<close>

section \<open>Requests and error codes\<close>

datatype REQUEST =
    REQ_HELP | REQ_VER | REQ_SVER | REQ_SAVE | REQ_FACTORY | REQ_RST | REQ_SYSTIME | REQ_BAUDRATE | REQ_UARTFT
  | REQ_UARTFL | REQ_MSLP | REQ_LSLPT | REQ_IPCONFIG | REQ_PING | REQ_MAC | REQ_WQSOPT | REQ_WPHYMODE | REQ_WTXRATE
  | REQ_WSCANAP | REQ_WSBCN | REQ_WSCAP | REQ_WSMTCONF | REQ_WSTOP | REQ_NQSCNN | REQ_NLOCIP | REQ_WSACONF
  | REQ_AIRKISS | REQ_BCTTXSTART | REQ_BCTTXSTOP | REQ_BCTTXDATA | REQ_BCTRXSTART | REQ_BCTRXSTOP | REQ_QUIT

definition INVALID_COMMAND :: int where "INVALID_COMMAND = -1"
definition INVALID_PARAMETER :: int where "INVALID_PARAMETER = -2"
definition INVALID_SCAN_AP_FAIL :: int where "INVALID_SCAN_AP_FAIL = -9"
definition INVALID_PING_RUNNING :: int where "INVALID_PING_RUNNING = -16"
definition INVALID_SMTCONF_RUNNING :: int where "INVALID_SMTCONF_RUNNING = -17"
definition INVALID_DATA_LINKDOWN :: int where "INVALID_DATA_LINKDOWN = -18"
definition INVALID_BCTTX_RUNNING_OR_LINKED :: int where "INVALID_BCTTX_RUNNING_OR_LINKED = -40"
definition INVALID_BCTTX_SOCK :: int where "INVALID_BCTTX_SOCK = -41"
definition INVALID_BCTTX_SETOPT :: int where "INVALID_BCTTX_SETOPT = -42"
definition INVALID_BCTTX_SEND :: int where "INVALID_BCTTX_SEND = -43"
definition INVALID_BCTRX_RUNNING_OR_LINKED :: int where "INVALID_BCTRX_RUNNING_OR_LINKED = -45"
definition INVALID_BCTRX_SOCK :: int where "INVALID_BCTRX_SOCK = -46"
definition INVALID_BCTRX_BIND :: int where "INVALID_BCTRX_BIND = -47"

definition MAX_SINGLE_PARAMETER :: nat where "MAX_SINGLE_PARAMETER = 50"

type_synonym 'f handler = "'f env \<Rightarrow> string list \<Rightarrow> 'f snet \<Rightarrow> 'f snet option"

text \<open>The three spellings of an error line.\<close>

definition err :: "int \<Rightarrow> string" where "err e = ''+ERROR='' @ dec_of_int e @ nr"
definition err_sp :: "int \<Rightarrow> string" where "err_sp e = ''+ERROR= '' @ dec_of_int e @ nr"
definition err_rn :: "int \<Rightarrow> string" where "err_rn e = ''+ERROR='' @ dec_of_int e @ [CR, LF]"

definition reply :: "string \<Rightarrow> 'f snet \<Rightarrow> 'f snet option" where
  "reply t s = Some (printf t s)"

text \<open>The value of \<^verbatim>\<open>atoi\<close> in an \<^verbatim>\<open>int\<close> variable. Where the call stands in a comparison the value is unsigned.\<close>

definition atoi32 :: "string \<Rightarrow> int" where
  "atoi32 t = sint (atoi t)"

definition is_query :: "string list \<Rightarrow> bool" where
  "is_query argv \<longleftrightarrow> length argv = 2 \<and> argv ! 1 = ''?''"

text \<open>\<^verbatim>\<open>memcpy(&UserParam.cfg, &SysParam, sizeof(CFG_PARAM))\<close> and back.\<close>

definition sys_to_user :: "'f snet \<Rightarrow> 'f snet" where
  "sys_to_user s = s\<lparr>UserParam := (UserParam s)\<lparr>cfg := SysParam s\<rparr>\<rparr>"

definition user_to_sys :: "'f snet \<Rightarrow> 'f snet" where
  "user_to_sys s = s\<lparr>SysParam := cfg (UserParam s)\<rparr>"

definition upd_user :: "(USER_CFG_PARAM \<Rightarrow> USER_CFG_PARAM) \<Rightarrow> 'f snet \<Rightarrow> 'f snet" where
  "upd_user f s = s\<lparr>UserParam := f (UserParam s)\<rparr>"

section \<open>Command table\<close>

definition s_at_commands :: "(REQUEST \<times> string) list" where
  "s_at_commands =
     [(REQ_HELP, ''AT+HELP''), (REQ_VER, ''AT+VER''), (REQ_SVER, ''AT+SVER''), (REQ_SAVE, ''AT+SAVE''),
      (REQ_FACTORY, ''AT+FACTORY''), (REQ_RST, ''AT+RST''), (REQ_SYSTIME, ''AT+SYSTIME''),
      (REQ_BAUDRATE, ''AT+BAUDRATE''), (REQ_UARTFT, ''AT+UARTFT''), (REQ_UARTFL, ''AT+UARTFL''),
      (REQ_MSLP, ''AT+MSLP''), (REQ_LSLPT, ''AT+LSLPT''), (REQ_IPCONFIG, ''AT+IPCONFIG''), (REQ_PING, ''AT+PING''),
      (REQ_MAC, ''AT+MAC''), (REQ_WQSOPT, ''AT+WQSOPT''), (REQ_WPHYMODE, ''AT+WPHYMODE''),
      (REQ_WTXRATE, ''AT+WTXRATE''), (REQ_WSCANAP, ''AT+WSCANAP''), (REQ_WSBCN, ''AT+WSBCN''),
      (REQ_WSCAP, ''AT+WSCAP''), (REQ_WSMTCONF, ''AT+WSMTCONF''), (REQ_WSTOP, ''AT+WSTOP''),
      (REQ_NQSCNN, ''AT+NQSCNN''), (REQ_NLOCIP, ''AT+NLOCIP''), (REQ_WSACONF, ''AT+WSACONF''),
      (REQ_AIRKISS, ''AT+AIRKISS''), (REQ_BCTTXSTART, ''AT+BCTTXSTART''), (REQ_BCTTXSTOP, ''AT+BCTTXSTOP''),
      (REQ_BCTTXDATA, ''AT+BCTTXDATA''), (REQ_BCTRXSTART, ''AT+BCTRXSTART''), (REQ_BCTRXSTOP, ''AT+BCTRXSTOP''),
      (REQ_QUIT, ''AT+QUIT'')]"

text \<open>The chain of \<^verbatim>\<open>strcmp\<close> tests of \<^verbatim>\<open>stringTorequest\<close>, in its order.\<close>

definition request_names :: "(string \<times> REQUEST) list" where
  "request_names =
     [(''HELP'', REQ_HELP), (''VER'', REQ_VER), (''SVER'', REQ_SVER), (''SAVE'', REQ_SAVE), (''FACTORY'', REQ_FACTORY),
      (''RST'', REQ_RST), (''SYSTIME'', REQ_SYSTIME), (''BAUDRATE'', REQ_BAUDRATE), (''UARTFT'', REQ_UARTFT),
      (''UARTFL'', REQ_UARTFL), (''MSLP'', REQ_MSLP), (''LSLPT'', REQ_LSLPT), (''IPCONFIG'', REQ_IPCONFIG),
      (''PING'', REQ_PING), (''MAC'', REQ_MAC), (''WQSOPT'', REQ_WQSOPT), (''WSCANAP'', REQ_WSCANAP),
      (''WSTOP'', REQ_WSTOP), (''WPHYMODE'', REQ_WPHYMODE), (''WTXRATE'', REQ_WTXRATE), (''WSBCN'', REQ_WSBCN),
      (''WSCAP'', REQ_WSCAP), (''WSMTCONF'', REQ_WSMTCONF), (''NQSCNN'', REQ_NQSCNN), (''NLOCIP'', REQ_NLOCIP),
      (''WSACONF'', REQ_WSACONF), (''AIRKISS'', REQ_AIRKISS), (''BCTTXSTART'', REQ_BCTTXSTART),
      (''BCTTXSTOP'', REQ_BCTTXSTOP), (''BCTTXDATA'', REQ_BCTTXDATA), (''BCTRXSTART'', REQ_BCTRXSTART),
      (''BCTRXSTOP'', REQ_BCTRXSTOP), (''QUIT'', REQ_QUIT)]"

text \<open>The upper case loop has a \<^verbatim>\<open>UINT8\<close> counter and ends for names of up to 255 characters.\<close>

definition stringTorequest :: "string \<Rightarrow> REQUEST option" where
  "stringTorequest str = map_of request_names (map toupper str)"

section \<open>Base commands\<close>

definition responseHELP :: "'f handler" where
  "responseHELP e argv s =
     (if length argv \<noteq> 1 then reply (err INVALID_COMMAND) s
      else Some (printf (''------- COMMAND LIST ------'' @ [LF] @ ''+OK'' @ nr)
             (fold (\<lambda>(r, name). printf (name @ nr)) s_at_commands
               (printf (''+++++++ COMMAND LIST ++++++'' @ [LF]) s))))"

definition AtVerNum :: bytes where "AtVerNum = [1, 4, 0]"

definition responseVER :: "'f handler" where
  "responseVER e argv s =
     (if length argv \<noteq> 1 then reply (err INVALID_COMMAND) s
      else reply (''+OK=ATI:'' @ dec_of_nat (unat (AtVerNum ! 0)) @ ''.'' @ hex2_of_u8 (AtVerNum ! 1) @ ''.'' @
             hex2_of_u8 (AtVerNum ! 2) @ nr) s)"

definition responseSVER :: "'f handler" where
  "responseSVER e argv s =
     (if length argv \<noteq> 1 then reply (err INVALID_COMMAND) s
      else reply (''+OK='' @ fw_type e @ '':'' @ hex_of_u8 (fw_ver e ! 0) @ ''.'' @ hex2_of_u8 (fw_ver e ! 1) @ ''.'' @
             hex2_of_u8 (fw_ver e ! 2) @ nr) s)"

definition responseSAVE :: "'f handler" where
  "responseSAVE e argv s =
     (if length argv \<noteq> 1 then reply (err INVALID_COMMAND) s
      else do {
        s1 \<leftarrow> SaveUserParam e (upd_user (\<lambda>u. u\<lparr>isValid := USER_PARAM_FLAG_VALID\<rparr>) s);
        reply (''+OK'' @ nr) s1
      })"

definition responseFACTORY :: "'f handler" where
  "responseFACTORY e argv s =
     (if length argv \<noteq> 1 then reply (err INVALID_COMMAND) s
      else do {
        s1 \<leftarrow> SaveUserParam e (upd_user (\<lambda>u. zero_USER_CFG_PARAM) s);
        Some ((printf (''+OK:rebooting...'' @ nr) s1)\<lparr>chip_reset := True\<rparr>)
      })"

definition responseRST :: "'f handler" where
  "responseRST e argv s =
     (if length argv \<noteq> 1 then reply (err INVALID_COMMAND) s
      else Some ((printf (''+OK:RST'' @ nr) s)\<lparr>chip_reset := True\<rparr>))"

definition responseSYSTIME :: "'f handler" where
  "responseSYSTIME e argv s =
     (if length argv \<noteq> 1 then reply (err INVALID_COMMAND) s
      else reply (''+OK=SYSTIME:'' @ dec_of_int (sint (ucast (InfSysTimeGet (ticks e)) :: u32)) @ nr) s)"

definition baud_ok :: "u32 \<Rightarrow> bool" where
  "baud_ok b \<longleftrightarrow> b \<in> {300, 1200, 2400, 4800, 9600, 19200, 38400, 57600, 115200, 156250, 250000, 312500, 500000, 625000,
     1250000}"

text \<open>\<^verbatim>\<open>argv[1]\<close> is read before \<^verbatim>\<open>argc\<close> is looked at; without an argument that is an uninitialised pointer.\<close>

definition responseBAUDRATE :: "'f handler" where
  "responseBAUDRATE e argv s =
     (if length argv < 2 then None
      else if argv ! 1 = ''?'' \<and> length argv = 2 then
        reply (''+OK='' @ dec_of_int (sint (Baudrate (UserParam s))) @ nr) s
      else if length argv = 2 \<and> str_is_digit (argv ! 1) then
        let b = of_int (atoi32 (argv ! 1)) :: u32
        in if baud_ok b then
             Some (upd_user (\<lambda>u. u\<lparr>Baudrate := b\<rparr>) (BSP_UartOpen b (printf (''+OK'' @ nr) s)))
           else reply (err INVALID_PARAMETER) s
      else reply (err INVALID_PARAMETER) s)"

definition responseUARTFL :: "'f handler" where
  "responseUARTFL e argv s =
     (if is_query argv then
        reply (''+OK=UARTFL:'' @ dec_of_nat (unat (frameLength (UserParam s))) @ nr) s
      else if length argv = 2 \<and> str_is_digit (argv ! 1) then
        let n = of_int (atoi32 (argv ! 1)) :: u16;
            m = (if unat n < MIN_RECV_BUFFER_SIZE then of_nat MIN_RECV_BUFFER_SIZE
                 else if unat n > MAX_RECV_BUFFER_SIZE then of_nat MAX_RECV_BUFFER_SIZE else n)
        in Some (printf (''+OK'' @ nr) (upd_user (\<lambda>u. u\<lparr>frameLength := m AND 0xffff\<rparr>) s))
      else reply (err INVALID_PARAMETER) s)"

definition UART_FRAME_MIN_LEN :: int where "UART_FRAME_MIN_LEN = 30"
definition UART_FRAME_MAX_LEN :: int where "UART_FRAME_MAX_LEN = 10000"

definition responseUARTFT :: "'f handler" where
  "responseUARTFT e argv s =
     (if is_query argv then reply (''+OK=UARTFT:'' @ dec_of_nat (unat (frameGap (UserParam s))) @ nr) s
      else if length argv = 2 \<and> str_is_digit (argv ! 1) then
        let n = uint (atoi (argv ! 1));
            m = (if n < UART_FRAME_MIN_LEN then UART_FRAME_MIN_LEN
                 else if n > UART_FRAME_MAX_LEN then UART_FRAME_MAX_LEN else n)
        in Some (printf (''+OK'' @ nr) (upd_user (\<lambda>u. u\<lparr>frameGap := of_int m\<rparr>) s))
      else reply (err INVALID_PARAMETER) s)"

definition responseMSLP :: "'f handler" where
  "responseMSLP e argv s =
     (if length argv \<noteq> 1 then reply (err INVALID_COMMAND) s
      else if SleepMode (UserParam s) = 0 then reply (''+OK=NORMAL'' @ nr) s
      else reply (''+OK=LIGHT'' @ nr) s)"

definition not_started :: string where
  "not_started = ''+ERROR=WiFi isn'' @ [CHR 0x27] @ ''t started'' @ nr"

definition responseLSLPT :: "'f handler" where
  "responseLSLPT e argv s =
     (if length argv \<noteq> 4 \<or> \<not> str_is_digit (argv ! 1) \<or> \<not> str_is_digit (argv ! 2) \<or> \<not> str_is_digit (argv ! 3) \<or>
         length (argv ! 2) > 3 then reply (err INVALID_PARAMETER) s
      else
        let mode = of_int (atoi32 (argv ! 1)) :: u32; time = of_int (atoi32 (argv ! 2)) :: u32;
            DTIM = of_int (atoi32 (argv ! 3)) :: u32
        in if mode > 3 \<or> time > 255 \<or> time = 0 \<or> DTIM > 1 then reply (err INVALID_PARAMETER) s
           else if \<not> wifi_started s then reply not_started s
           else if mode = 0 then
             Some (printf (''+OK'' @ nr) (upd_user (\<lambda>u. u\<lparr>SleepMode := 0\<rparr>) (snd (InfPowerSaveSet 0
               (upd_user (\<lambda>u. u\<lparr>SleepMode := 1\<rparr>) s)))))
           else
             Some (printf (''+OK'' @ nr) (snd (InfPowerSaveSet (ucast mode)
               (snd (InfListenIntervalSet (ucast time) (ucast DTIM) (upd_user (\<lambda>u. u\<lparr>SleepMode := 1\<rparr>) s)))))))"

end
