(* ===== verification/At_Net.thy ===== *)
theory At_Net
  imports At_Cmd
begin

text \<open>
  The network commands of the AT interpreter and its dispatcher (\<^verbatim>\<open>App/SerialNet/at_cmd.c\<close>).
\<close>

section \<open>Radio and address commands\<close>

definition proto_name :: "u8 \<Rightarrow> string" where
  "proto_name p = (if p = 0 then ''STA'' else if p = 2 then ''SOFTAP'' else ''AHDOC'')"

definition mac_text :: "bytes \<Rightarrow> string" where
  "mac_text m = concat (map (\<lambda>b. '':'' @ hex2_of_u8 b) (take 6 m))"

definition responseIPCONFIG :: "'f handler" where
  "responseIPCONFIG e argv s =
     (if length argv \<noteq> 1 then reply (err INVALID_COMMAND) s
      else
        let w = WiFiCfg (SysParam s)
        in Some (fold printf
          ([''DevMode:'' @ proto_name (Protocol (WiFiCfg (cfg (UserParam s)))) @ [CHR 0x09] @ ''HWaddr'',
            mac_text (PermanentAddress s),
            [CR, LF] @ ''Inet addr:'' @ inet_ntoa (netif_ip e) @ ''    '',
            [CR, LF] @ ''Netmask:'' @ inet_ntoa (netif_mask e) @ ''    '',
            [CR, LF] @ ''Gateway:'' @ inet_ntoa (netif_gw e) @ ''    '',
            [CR, LF] @ ''Channel:'' @ dec_of_nat (unat (if Protocol w = 0 then cur_ch e else Channel w)) @ '','' @ [CHR 0x09]] @
           (if Protocol w = 2 then
              [''Encry:'' @ (if Encry w = 0 then ''NONE'' else if Encry w = 1 then ''WEP'' else if Encry w = 2 then ''TKIP''
                  else if Encry w = 3 then ''CCMP'' else ''AUTO'') @ ''    '',
               ''AuthMode:'' @ (if AuthMode w = 0 then ''OPEN'' else if AuthMode w = 1 then ''SHARE''
                  else if AuthMode w = 2 then ''WPA1'' else ''WPA2'') @ ''    '']
            else []) @
           [''WMM:'' @ (if WmmEn w = 1 then ''ENABLE'' else ''DISABLE'') @ nr, ''+OK'' @ nr]) s))"

text \<open>\<^verbatim>\<open>inet_aton\<close> fails on an address with an empty part, such as \<^verbatim>\<open>1..2.3\<close>, which \<^verbatim>\<open>is_valid_ip\<close> accepts; the
  variable is then used uninitialised, which is \<open>None\<close>.\<close>

definition responsePING :: "'f handler" where
  "responsePING e argv s =
     (if length argv \<noteq> 3 \<or> is_valid_ip (argv ! 1) \<noteq> 0 \<or> \<not> str_is_digit (argv ! 2) \<or> argv ! 2 = [] then
        reply (err INVALID_PARAMETER) s
      else do {
        ip \<leftarrow> ipaddr_aton (argv ! 1);
        case ping_init (atoi32 (argv ! 2)) (ping s) of
          (r, p) \<Rightarrow>
            if r = 0 then Some (s\<lparr>ping := ping_send_to (pbuf_ok e) (system_now e) ip p\<rparr>)
            else reply (err INVALID_PING_RUNNING) s
      })"

definition responseMAC :: "'f handler" where
  "responseMAC e argv s =
     (if length argv \<noteq> 1 then reply (err INVALID_COMMAND) s
      else Some (printf nr (printf (mac_text (PermanentAddress s)) (printf ''+OK=MAC'' s))))"

definition wqsopt_query :: "'f env \<Rightarrow> 'f snet \<Rightarrow> 'f snet" where
  "wqsopt_query e s =
     (let w = WiFiCfg (SysParam s)
      in fold printf
        [if Protocol w = 0 then ''+OK=STA,'' else if Protocol w = 1 then ''+OK=ADHOC,''
         else if Protocol w = 2 then ''+OK=SOFTAP,'' else ''+<mode>ERROR='' @ dec_of_int INVALID_PARAMETER @ '','',
         dec_of_nat (unat (if Protocol w = 0 then cur_ch e else Channel w)) @ '','',
         if Encry w = 0 then ''none,'' else if Encry w = 1 then ''wep,'' else if Encry w = 2 then ''tkip,''
         else if Encry w = 3 then ''ccmp,'' else if Encry w = 4 then (if Protocol w = 2 then ''none,'' else ''auto,'')
         else err INVALID_COMMAND,
         if AuthMode w = 0 then ''open,'' else if AuthMode w = 1 then ''share,'' else if AuthMode w = 2 then ''wpa,''
         else if AuthMode w = 3 then ''wpa2,'' else err INVALID_COMMAND,
         if WmmEn w = 0 then ''Disable'' @ nr else if WmmEn w = 1 then ''Enable'' @ nr else []] s)"

definition one_digit :: "string \<Rightarrow> bool" where
  "one_digit t \<longleftrightarrow> str_is_digit t \<and> length t = 1"

definition responseWQSOPT :: "'f handler" where
  "responseWQSOPT e argv s =
     (if is_query argv then Some (wqsopt_query e s)
      else if length argv = 6 then
        let mode = of_int (atoi32 (argv ! 1)) :: u8;
            channel = (if mode = 0 then 1 else of_int (atoi32 (argv ! 2)) :: u8);
            encry = of_int (atoi32 (argv ! 3)) :: u8; auth = of_int (atoi32 (argv ! 4)) :: u8;
            wmm = of_int (atoi32 (argv ! 5)) :: u8
        in if one_digit (argv ! 1) \<and> str_is_digit (argv ! 2) \<and> length (argv ! 2) \<le> 2 \<and> one_digit (argv ! 3) \<and>
              one_digit (argv ! 4) \<and> one_digit (argv ! 5) then
             if mode \<noteq> 0 \<and> mode \<noteq> 1 \<and> mode \<noteq> 2 \<or> channel < 1 \<or> channel > 13 \<or> encry > 4 \<or> auth > 3 \<or>
                wmm \<noteq> 0 \<and> wmm \<noteq> 1 then reply (err INVALID_PARAMETER) s
             else
               let s1 = (if wifi_started s then snd (InfWiFiStop s) else s)
               in if encry = 0 \<and> auth \<noteq> 0 then reply (err INVALID_PARAMETER) s1
                  else if mode = 2 \<and> encry = 4 \<and> auth \<noteq> 0 then reply (err INVALID_PARAMETER) s1
                  else
                    let s2 = upd_wifi (\<lambda>w. w\<lparr>Channel := channel, Encry := encry, AuthMode := auth, WmmEn := wmm\<rparr>)
                               (snd (InfNetModeSet (ucast mode) s1))
                    in reply (''+OK'' @ [CR, LF]) (sys_to_user s2)
           else reply (err INVALID_PARAMETER) s
      else reply (err INVALID_PARAMETER) s)"

definition mode_cck_rate :: "string list" where
  "mode_cck_rate = [''auto'', ''1Mbps'', ''2Mbps'', ''5.5Mbps'', ''11Mbps'']"

definition mode_ofdm_rate :: "string list" where
  "mode_ofdm_rate = [''auto'', ''6Mbps'', ''9Mbps'', ''12Mbps'', ''18Mbps'', ''24Mbps'', ''36Mbps'', ''48Mbps'', ''54Mbps'']"

text \<open>The rate an argument names, as modulation mode and index.\<close>

definition rate_table :: "(string \<times> u8 \<times> u8) list" where
  "rate_table =
     [(''0'', 0, 0), (''1'', 0, 1), (''2'', 0, 2), (''5.5'', 0, 3), (''11'', 0, 4), (''6'', 1, 1), (''9'', 1, 2), (''12'', 1, 3),
      (''18'', 1, 4), (''24'', 1, 5), (''36'', 1, 6), (''48'', 1, 7), (''54'', 1, 8)]"

text \<open>The name tables have ten entries, the last of them NULL pointers.\<close>

definition rate_name :: "string list \<Rightarrow> u8 \<Rightarrow> string option" where
  "rate_name tab i = (if unat i < length tab then Some (tab ! unat i) else None)"

definition responseWTXRATE :: "'f handler" where
  "responseWTXRATE e argv s =
     (if is_query argv then
        (case rate_opt s of
           (m, i) \<Rightarrow>
             if m = 0 then do { t \<leftarrow> rate_name mode_cck_rate i; reply (''+OK='' @ t @ nr) s }
             else if m = 1 then do { t \<leftarrow> rate_name mode_ofdm_rate i; reply (''+OK='' @ t @ nr) s }
             else reply (err INVALID_PARAMETER) s)
      else if length argv = 2 then
        (case map_of rate_table (argv ! 1) of
           None \<Rightarrow> reply (err INVALID_PARAMETER) s
         | Some (mode, rate) \<Rightarrow>
             if \<not> wifi_started s then reply not_started s
             else (case InfTxRateSet (ucast mode) (ucast rate) s of
                     (r, s1) \<Rightarrow> if r \<noteq> 0 then reply (err INVALID_PARAMETER) s1
                               else reply (''+OK'' @ nr) (s1\<lparr>rate_opt := (mode, rate)\<rparr>)))
      else reply (err INVALID_PARAMETER) s)"

definition SCAN_INFO_bytes :: "SCAN_INFO \<Rightarrow> bytes" where
  "SCAN_INFO_bytes i = si_Bssid i @ si_Ssid i @ [si_SsidLen i, si_BssType i, si_Channel i, si_EncryMode i,
     si_AuthMode i, si_Rssi i]"

text \<open>\<^verbatim>\<open>%s\<close> of a name reads the table from the 32 bytes of the name on, up to the next zero byte: a name of 32
  characters runs into the fields and the entries behind it, and \<open>None\<close> is a read behind the last result, into memory the
  scan has not written or out of the table.\<close>

definition name_read :: "SCAN_INFO list \<Rightarrow> string option" where
  "name_read is =
     (let b = drop 6 (concat (map SCAN_INFO_bytes is)) in if 0 \<in> set b then Some (of_bytes b) else None)"

fun scan_lines :: "SCAN_INFO list \<Rightarrow> string list option" where
  "scan_lines [] = Some []"
| "scan_lines (i # is) =
     do {
       name \<leftarrow> name_read (i # is);
       rest \<leftarrow> scan_lines is;
       Some ((''Ssid:'' @ name @ '', Channel:'' @ dec_of_nat (unat (si_Channel i)) @
         '', EncryMode:'' @ dec_of_nat (unat (si_EncryMode i)) @ '', AuthMode:'' @ dec_of_nat (unat (si_AuthMode i)) @
         '', Rssi:'' @ dec_of_int (sint (si_Rssi i)) @ ''.'' @ nr) # rest)
     }"

definition AP_SCAN_TABLE_NUM :: nat where "AP_SCAN_TABLE_NUM = 32"

text \<open>The scan table is allocated first and freed on the success path only; \<open>scan_tables\<close> counts the blocks in
  use. The wait for \<^verbatim>\<open>ScanFlag\<close> ends with the scan event, whose callback runs meanwhile; the table then holds the
  results. The argument is negated as an \<^verbatim>\<open>INT8\<close>, which never exceeds 127.\<close>

definition responseWSCANAP :: "'f handler" where
  "responseWSCANAP e argv s =
     (if \<not> malloc_ok e then reply (err INVALID_SCAN_AP_FAIL) s
      else
        let s0 = s\<lparr>scan_tables := scan_tables s + 1\<rparr>
        in if length argv = 2 \<and> str_is_digit (argv ! 1) \<and> argv ! 1 \<noteq> [] then
             let f = of_int (atoi32 (argv ! 1)) :: u8;
                 s1 = printf (''+OK:scanning...'' @ nr) (s0\<lparr>ScanFlag := 0\<rparr>)
             in do {
               s2 \<leftarrow> (if \<not> wifi_started s1 then
                        map_option (\<lambda>r. snd (InfWiFiStart (snd r))) (InfSsidSet None 0 s1)
                      else Some s1);
               case InfScanStart (Some (scan_adr e, of_nat AP_SCAN_TABLE_NUM)) (- f) 0 s2 of
                 (r, s3) \<Rightarrow>
                   if r \<noteq> 0 then reply (err INVALID_SCAN_AP_FAIL) s3
                   else
                     let s4 = AppEvtCallBack e SYS_EVT_SCAN_DONE s3;
                         s5 = (if ssid_len s4 = 0 then snd (InfWiFiStop s4) else s4);
                         tab = take AP_SCAN_TABLE_NUM (scan_res e)
                     in do {
                          lines \<leftarrow> scan_lines tab;
                          Some (printf (''+OK:ScanFinish'' @ nr) ((fold printf
                            ([''Scan number:'' @ dec_of_nat (length tab) @ nr, ''+++++++ SCAN TABLE +++++++'' @ nr] @
                             lines @ [''+++++++ SCAN TABLE +++++++'' @ nr]) s5)
                              \<lparr>scan_tables := scan_tables s5 - 1\<rparr>))
                        }
             }
           else reply (err INVALID_PARAMETER) s0)"

definition responseWSBCN :: "'f handler" where
  "responseWSBCN e argv s =
     (if is_query argv then
        (case beacon_opt s of
           (prd, en) \<Rightarrow>
             let head = ''+OK=Period:'' @ dec_of_int (sint prd) @ ''  ''
             in if en = 0 then Some (printf (''NotifyPeerEn:DISANBLE'' @ nr) (printf head s))
                else if en = 1 then Some (printf (''NotifyPeerEn:ENABLE'' @ nr) (printf head s))
                else reply (err INVALID_PARAMETER) s)
      else if length argv = 3 \<and> str_is_digit (argv ! 1) \<and> one_digit (argv ! 2) then
        if Protocol (WiFiCfg (SysParam s)) = 0 then reply (err INVALID_PARAMETER) s
        else
          let period = of_int (atoi32 (argv ! 1)) :: u32; mode = of_int (atoi32 (argv ! 2)) :: u8
          in if period > 65535 \<or> mode \<noteq> 0 \<and> mode \<noteq> 1 then reply (err INVALID_PARAMETER) s
             else
               (case InfBeaconPeriodSet (ucast period) mode s of
                  (r, s1) \<Rightarrow>
                    if r \<noteq> 0 then reply (err INVALID_PARAMETER) s1
                    else if \<not> wifi_started s1 then reply not_started s1
                    else reply (''+OK'' @ nr) (s1\<lparr>beacon_opt := (ucast (ucast period :: u16), mode)\<rparr>))
      else reply (err INVALID_PARAMETER) s)"

text \<open>The query stores a terminator at \<^verbatim>\<open>PSK[KeyLength]\<close>; for a key of 64 characters that is the next field
  \<^verbatim>\<open>WscEn\<close>.\<close>

definition terminate_key :: "WIFI_CFG \<Rightarrow> WIFI_CFG option" where
  "terminate_key w =
     (let k = unat (KeyLength w)
      in if k < length (PSK w) then Some (w\<lparr>PSK := (PSK w)[k := 0]\<rparr>)
         else if k = 64 then Some (w\<lparr>WscEn := 0\<rparr>) else None)"

text \<open>The calls that set name and key; \<open>extra\<close> is 1 for the ad hoc mode, which passes one byte more.\<close>

definition set_ssid_key :: "string \<Rightarrow> string \<Rightarrow> nat \<Rightarrow> 'f snet \<Rightarrow> 'f snet option" where
  "set_ssid_key ssid key extra s =
     do {
       (r1, s1) \<leftarrow> InfSsidSet (Some (to_bytes ssid @ [0])) (of_nat (length ssid)) s;
       (r2, s2) \<leftarrow> InfKeySet 0 (Some (to_bytes key @ [0])) (of_nat (length key + extra)) s1;
       Some s2
     }"

definition responseWSCAP :: "'f handler" where
  "responseWSCAP e argv s =
     (if is_query argv then
        do {
          w \<leftarrow> terminate_key (WiFiCfg (SysParam s));
          let s1 = upd_wifi (\<lambda>_. w) s;
          reply (''+OK='' @ of_bytes (Ssid w) @ '','' @ of_bytes (PSK w) @ nr) s1
        }
      else if length argv = 4 \<and> length (argv ! 1) \<le> 32 \<and> argv ! 1 \<noteq> [] \<and> length (argv ! 2) \<le> 64 then
        if Protocol (WiFiCfg (SysParam s)) = 0 then
          if \<not> str_is_digit (argv ! 3) \<or> argv ! 3 = [] then reply (err INVALID_PARAMETER) s
          else
            let Trytime = of_int (atoi32 (argv ! 3)) :: u32
            in if Trytime > 255 then reply (err INVALID_PARAMETER) s
               else do {
                 s1 \<leftarrow> set_ssid_key (argv ! 1) (argv ! 2) 0 (snd (InfNetModeSet 0 (snd (InfWiFiStop s))));
                 let s2 = printf (''+OK:connecting...'' @ nr) (snd (InfConTryTimesSet (ucast Trytime) s1));
                 Some (sys_to_user (snd (InfWiFiStart s2)))
               }
        else if Protocol (WiFiCfg (SysParam s)) = 2 then
          do {
            let s1 = user_to_sys (snd (InfWiFiStop s));
            let s2 = s1\<lparr>SysParam := (SysParam s1)\<lparr>bDhcpServer := 1, bDnsServer := 1\<rparr>\<rparr>;
            s3 \<leftarrow> set_ssid_key (argv ! 1) (argv ! 2) 0 (snd (InfNetModeSet 2 s2));
            Some (sys_to_user (snd (InfWiFiStart (printf (''+OK:setting...'' @ nr) s3))))
          }
        else if Protocol (WiFiCfg (SysParam s)) = 1 then
          do {
            s1 \<leftarrow> set_ssid_key (argv ! 1) (argv ! 2) 1 (user_to_sys (snd (InfWiFiStop s)));
            Some (sys_to_user (snd (InfWiFiStart (printf (''+OK:adhoc...'' @ nr) s1))))
          }
        else Some s
      else reply (err INVALID_PARAMETER) s)"

definition responseWSMTCONF :: "'f handler" where
  "responseWSMTCONF e argv s =
     (if length argv \<noteq> 1 then reply (err INVALID_COMMAND) s
      else if smtconfigBegin s = 0 then
        reply (''+OK:DirectConfig...'' @ nr)
          ((snd (InfDirectCfgStart 0 0 0 (snd (InfNetModeSet 0 (snd (InfWiFiStop s))))))\<lparr>smtconfigBegin := 1\<rparr>)
      else reply (err INVALID_SMTCONF_RUNNING) s)"

definition responseWSTOP :: "'f handler" where
  "responseWSTOP e argv s =
     (if length argv \<noteq> 1 then reply (err INVALID_COMMAND) s
      else if \<not> wifi_started s then reply not_started s
      else reply (''+OK:WiFi Stopped'' @ nr) (snd (InfWiFiStop s)))"

definition already_started :: string where
  "already_started = ''+ERROR=WiFi Started'' @ nr"

definition responseWPHYMODE :: "'f handler" where
  "responseWPHYMODE e argv s =
     (if is_query argv then
        if PhyMode (WiFiCfg (SysParam s)) = 1 then reply (''+OK=PhyMode:b/g'' @ nr) s
        else if PhyMode (WiFiCfg (SysParam s)) = 2 then reply (''+OK=PhyMode:b'' @ nr) s
        else reply (err INVALID_PARAMETER) s
      else if length argv = 2 \<and> one_digit (argv ! 1) then
        let mode = of_int (atoi32 (argv ! 1)) :: u32
        in if mode \<noteq> 1 \<and> mode \<noteq> 2 then reply (err INVALID_PARAMETER) s
           else if wifi_started s then reply already_started s
           else
             let s1 = upd_user_cfg (\<lambda>c. c\<lparr>WiFiCfg := (WiFiCfg c)\<lparr>PhyMode := ucast mode\<rparr>\<rparr>) s
             in reply (''+OK'' @ nr) (sys_to_user (snd (InfPhyModeSet mode s1)))
      else reply (err INVALID_PARAMETER) s)"

section \<open>Connection commands\<close>

text \<open>The four parts of \<^verbatim>\<open>AT+NQSCNN\<close>; each takes the argument it is about.\<close>

definition responseNMODE :: "string \<Rightarrow> 'f snet \<Rightarrow> int \<times> 'f snet" where
  "responseNMODE a s =
     (let protocol = of_int (atoi32 a) :: u8
      in if one_digit a \<and> (protocol = 0 \<or> protocol = 1) then
           (0, sys_to_user (upd_user (\<lambda>u. u\<lparr>socketProtocol := protocol\<rparr>) s))
         else (-1, s))"

definition responseNTYPE :: "string \<Rightarrow> 'f snet \<Rightarrow> int \<times> 'f snet" where
  "responseNTYPE a s =
     (let nettype = of_int (atoi32 a) :: u8
      in if one_digit a \<and> (nettype = 0 \<or> nettype = 1) then
           (0, sys_to_user (upd_user (\<lambda>u. u\<lparr>socketType := nettype\<rparr>) s))
         else (-1, s))"

definition responseNPORT :: "string \<Rightarrow> 'f snet \<Rightarrow> int \<times> 'f snet" where
  "responseNPORT a s =
     (if str_is_digit a then
        if atoi a > 65535 \<or> atoi a = 0 then (-1, s)
        else (0, sys_to_user (upd_user (\<lambda>u. u\<lparr>socketPort := ucast (atoi a)\<rparr>) s))
      else (-1, s))"

definition responseNRMTIP :: "string \<Rightarrow> 'f snet \<Rightarrow> (int \<times> 'f snet) option" where
  "responseNRMTIP a s =
     (if socketType (UserParam s) = 1 then Some (0, s)
      else if is_valid_ip a = 0 then
        do { ip \<leftarrow> ipaddr_aton a; Some (0, sys_to_user (upd_user (\<lambda>u. u\<lparr>remoteCommIp := ip\<rparr>) s)) }
      else Some (-1, s))"

definition responseNQSCNN :: "'f handler" where
  "responseNQSCNN e argv s =
     (if is_query argv then
        let u = UserParam s
        in Some (fold printf
          [if socketProtocol u = 0 then ''+OK=UDP,'' else if socketProtocol u = 1 then ''+OK=TCP,'' else [],
           if socketType u = 1 then ''server,'' else if socketType u = 0 then ''client,'' else [],
           dec_of_nat (unat (socketPort u)) @ '','', inet_ntoa (remoteCommIp u) @ nr] s)
      else if length argv = 5 then
        case responseNMODE (argv ! 1) s of (r1, s1) \<Rightarrow>
        case responseNTYPE (argv ! 2) s1 of (r2, s2) \<Rightarrow>
        case responseNPORT (argv ! 3) s2 of (r3, s3) \<Rightarrow>
        do {
          (r4, s4) \<leftarrow> responseNRMTIP (argv ! 4) s3;
          if r1 = 0 \<and> r2 = 0 \<and> r3 = 0 \<and> r4 = 0 then reply (''+OK'' @ nr) s4
          else reply (err INVALID_PARAMETER) s4
        }
      else reply (err INVALID_PARAMETER) s)"

definition responseNLOCIP :: "'f handler" where
  "responseNLOCIP e argv s =
     (let ip = IPCfg (SysParam s)
      in if is_query argv then
           Some (fold printf
             [if wifi_started s then [CR, LF] @ ''Inet addr:'' @ inet_ntoa (netif_ip e) @ ''    ''
              else ''+OK=IP:'' @ dec_of_nat (unat (Ip ip ! 0)) @ ''.'' @ dec_of_nat (unat (Ip ip ! 1)) @ ''.'' @
                dec_of_nat (unat (Ip ip ! 2)) @ ''.'' @ dec_of_nat (unat (Ip ip ! 3)) @ nr,
              if bDhcp ip = 0 then ''dhcp:disable'' else if bDhcp ip = 1 then ''dhcp:enable'' else [],
              '' trytimes:'' @ dec_of_nat (unat (DhcpTryTimes ip)) @ nr] s)
         else if length argv = 4 then
           if is_valid_ip (argv ! 1) \<noteq> 0 then reply (err INVALID_PARAMETER) s
           else
             let mode = of_int (atoi32 (argv ! 2)) :: u8; trytimes = of_int (atoi32 (argv ! 3)) :: u8
             in if \<not> str_is_digit (argv ! 2) \<or> argv ! 2 = [] \<or> \<not> str_is_digit (argv ! 3) \<or> argv ! 3 = [] \<or>
                   mode \<noteq> 0 \<and> mode \<noteq> 1 then reply (err INVALID_PARAMETER) s
                else if wifi_started s then reply already_started s
                else do {
                  a \<leftarrow> ipaddr_aton (argv ! 1);
                  let ip1 = ip\<lparr>Ip := le32 a, GateWay := le32 a\<rparr>;
                  let ip2 = (if Protocol (WiFiCfg (SysParam s)) = 0 then ip1\<lparr>bDhcp := mode, DhcpTryTimes := trytimes\<rparr>
                             else ip1);
                  reply (''+OK'' @ nr) (sys_to_user (s\<lparr>SysParam := (SysParam s)\<lparr>IPCfg := ip2\<rparr>\<rparr>))
                }
         else reply (err INVALID_PARAMETER) s)"

definition responseWSACONF :: "'f handler" where
  "responseWSACONF e argv s =
     (if length argv = 1 then Some (s\<lparr>threads := threads s @ [''SoftApConfThread'']\<rparr>)
      else reply (err_rn INVALID_PARAMETER) s)"

definition responseAIRKISS :: "'f handler" where
  "responseAIRKISS e argv s =
     (if length argv = 1 then Some (s\<lparr>threads := threads s @ [''AirKissConfThread'']\<rparr>)
      else reply (err_rn INVALID_PARAMETER) s)"

section \<open>UDP broadcast commands\<close>

definition upd_bct :: "(UDP_BROADCAST_STS \<Rightarrow> UDP_BROADCAST_STS) \<Rightarrow> 'f snet \<Rightarrow> 'f snet" where
  "upd_bct f s = s\<lparr>broadcast_status := f (broadcast_status s)\<rparr>"

definition link_not_up :: string where
  "link_not_up = ''+ERROR=link_status isn'' @ [CHR 0x27] @ ''t SYS_EVT_LINK_UP'' @ nr"

definition responseBCTTXSTART :: "'f handler" where
  "responseBCTTXSTART e argv s =
     (let b = broadcast_status s
      in if length argv = 2 \<and> str_is_digit (argv ! 1) then
           let n = atoi (argv ! 1); port = ucast n :: u16
           in if n > 65535 \<or> n = 0 then reply (err INVALID_PARAMETER) s
              else if \<not> wifi_started s then reply link_not_up s
              else if rx_status b \<noteq> 0 then reply (err INVALID_BCTRX_RUNNING_OR_LINKED) s
              else if tx_status b \<noteq> 0 then reply (err INVALID_BCTTX_RUNNING_OR_LINKED) s
              else
                let s1 = upd_bct (\<lambda>b. b\<lparr>tx_port := port, tx_sockfd := socket_res e\<rparr>) s
                in if socket_res e = -1 then reply (err_sp INVALID_BCTTX_SOCK) s1
                   else if setsockopt_res e = -1 then
                     Some (lwip_close (socket_res e) (printf (err_sp INVALID_BCTTX_SETOPT) s1))
                   else reply (''+OK:BCTTXSTART'' @ nr)
                          (upd_bct (\<lambda>b. b\<lparr>tx_addrto := (htonl INADDR_BROADCAST, htons port), tx_status := 1\<rparr>) s1)
         else reply (err INVALID_PARAMETER) s)"

definition responseBCTTXSTOP :: "'f handler" where
  "responseBCTTXSTOP e argv s =
     (if length argv \<noteq> 1 then reply (err INVALID_COMMAND) s
      else
        let s1 = upd_bct (\<lambda>b. b\<lparr>tx_status := 0\<rparr>) s
        in reply (''+OK:BCTTXSTOP'' @ nr) (close_fd (tx_sockfd (broadcast_status s)) s1))"

text \<open>\<^verbatim>\<open>sendto\<close> takes \<^verbatim>\<open>tx_len\<close> bytes from \<^verbatim>\<open>argv[2]\<close>, which may be shorter: what lies behind its terminator is
  the rest of the line buffer, not modelled, so only a full argument yields a datagram here and a short one is \<open>None\<close>.\<close>

definition responseBCTTXDATA :: "'f handler" where
  "responseBCTTXDATA e argv s =
     (if length argv = 3 \<and> str_is_digit (argv ! 1) then
        let n = of_int (atoi32 (argv ! 1)) :: u32
        in if n > 256 \<or> n = 0 then reply (err INVALID_PARAMETER) (upd_bct (\<lambda>b. b\<lparr>tx_len := 0\<rparr>) s)
           else
             let s1 = upd_bct (\<lambda>b. b\<lparr>tx_len := n\<rparr>) s; b = broadcast_status s1
             in if \<not> wifi_started s1 then reply link_not_up s1
                else if tx_sockfd b < 0 then reply (err_sp INVALID_BCTTX_SOCK) s1
                else if length (argv ! 2) + 1 < unat n then None
                else if sendto_res e < 0 then reply (err INVALID_BCTTX_SEND) s1
                else reply (''+OK'' @ nr)
                       (s1\<lparr>sent := sent s1 @ [(take (unat n) (to_bytes (argv ! 2) @ [0]), tx_addrto b)]\<rparr>)
      else reply (err INVALID_PARAMETER) s)"

definition responseBCTRXSTART :: "'f handler" where
  "responseBCTRXSTART e argv s =
     (let b = broadcast_status s
      in if length argv = 2 \<and> str_is_digit (argv ! 1) then
           let n = atoi (argv ! 1); port = ucast n :: u16
           in if n > 65535 \<or> n = 0 then reply (err INVALID_PARAMETER) s
              else if \<not> wifi_started s then reply link_not_up s
              else if tx_status b \<noteq> 0 then reply (err INVALID_BCTTX_RUNNING_OR_LINKED) s
              else if rx_status b \<noteq> 0 then reply (err INVALID_BCTRX_RUNNING_OR_LINKED) s
              else
                let s1 = upd_bct (\<lambda>b. b\<lparr>rx_port := port, rx_sockfd := socket_res e\<rparr>) s
                in if socket_res e = -1 then reply (err INVALID_BCTRX_SOCK) s1
                   else
                     let s2 = upd_bct (\<lambda>b. b\<lparr>rx_server_addr := (htonl INADDR_BROADCAST, htons port)\<rparr>) s1
                     in if bind_res e = -1 then reply (err INVALID_BCTRX_BIND) s2
                        else reply (''+OK:BCTRXSTART'' @ nr) (upd_bct (\<lambda>b. b\<lparr>rx_status := 1\<rparr>) s2)
         else reply (err INVALID_PARAMETER) s)"

definition responseBCTRXSTOP :: "'f handler" where
  "responseBCTRXSTOP e argv s =
     (if length argv \<noteq> 1 then reply (err INVALID_COMMAND) s
      else
        let s1 = upd_bct (\<lambda>b. b\<lparr>rx_status := 0\<rparr>) s
        in reply (''+OK:BCTRXSTOP'' @ nr) (close_fd (rx_sockfd (broadcast_status s)) s1))"

definition responseQUIT :: "'f handler" where
  "responseQUIT e argv s =
     (if length argv \<noteq> 1 then reply (err INVALID_COMMAND) s
      else if \<not> wifi_started s then reply (err INVALID_DATA_LINKDOWN) s
      else reply (''+OK:DATAMODE'' @ [LF]) (init_conn (upd_user (\<lambda>u. u\<lparr>atMode := DATA_MODE\<rparr>) s)))"

section \<open>Dispatch\<close>

fun responseFunction :: "REQUEST \<Rightarrow> 'f handler" where
  "responseFunction REQ_HELP = responseHELP"
| "responseFunction REQ_VER = responseVER"
| "responseFunction REQ_SVER = responseSVER"
| "responseFunction REQ_SAVE = responseSAVE"
| "responseFunction REQ_FACTORY = responseFACTORY"
| "responseFunction REQ_RST = responseRST"
| "responseFunction REQ_SYSTIME = responseSYSTIME"
| "responseFunction REQ_BAUDRATE = responseBAUDRATE"
| "responseFunction REQ_UARTFT = responseUARTFT"
| "responseFunction REQ_UARTFL = responseUARTFL"
| "responseFunction REQ_MSLP = responseMSLP"
| "responseFunction REQ_LSLPT = responseLSLPT"
| "responseFunction REQ_IPCONFIG = responseIPCONFIG"
| "responseFunction REQ_PING = responsePING"
| "responseFunction REQ_MAC = responseMAC"
| "responseFunction REQ_WQSOPT = responseWQSOPT"
| "responseFunction REQ_WPHYMODE = responseWPHYMODE"
| "responseFunction REQ_WTXRATE = responseWTXRATE"
| "responseFunction REQ_WSCANAP = responseWSCANAP"
| "responseFunction REQ_WSBCN = responseWSBCN"
| "responseFunction REQ_WSCAP = responseWSCAP"
| "responseFunction REQ_WSMTCONF = responseWSMTCONF"
| "responseFunction REQ_WSTOP = responseWSTOP"
| "responseFunction REQ_NQSCNN = responseNQSCNN"
| "responseFunction REQ_NLOCIP = responseNLOCIP"
| "responseFunction REQ_WSACONF = responseWSACONF"
| "responseFunction REQ_AIRKISS = responseAIRKISS"
| "responseFunction REQ_BCTTXSTART = responseBCTTXSTART"
| "responseFunction REQ_BCTTXSTOP = responseBCTTXSTOP"
| "responseFunction REQ_BCTTXDATA = responseBCTTXDATA"
| "responseFunction REQ_BCTRXSTART = responseBCTRXSTART"
| "responseFunction REQ_BCTRXSTOP = responseBCTRXSTOP"
| "responseFunction REQ_QUIT = responseQUIT"

text \<open>\<^verbatim>\<open>processCommand\<close> looks the request up in the table; \<open>None\<close> for a name over 255 characters, on which the upper
  case loop does not end.\<close>

definition processCommand :: "'f handler" where
  "processCommand e argv s =
     (if argv = [] then reply (err INVALID_COMMAND) s
      else if length (argv ! 0) > 255 then None
      else
        case stringTorequest (argv ! 0) of
          None \<Rightarrow> reply (err_sp INVALID_COMMAND) s
        | Some r \<Rightarrow> if r \<in> set (map fst s_at_commands) then responseFunction r e argv s
                    else reply (err_sp INVALID_COMMAND) s)"

text \<open>\<^verbatim>\<open>parseParameter\<close>: \<open>n\<close> slots of \<^verbatim>\<open>argv\<close> are used; a store to slot 50 is \<open>None\<close>. The inner loop runs until \<^verbatim>\<open>strsep\<close>
  has used the string up, so it ends the outer one as well.\<close>

lemma strsep_scan_shorter: "strsep_scan s d = (t, Some r) \<Longrightarrow> length r < length s"
  by (induction s arbitrary: t) (auto split: if_splits prod.splits)

function split_args :: "string option \<Rightarrow> nat \<Rightarrow> string list option" where
  "split_args p n =
     (if n \<ge> MAX_SINGLE_PARAMETER then None
      else case p of
        None \<Rightarrow> Some []
      | Some t \<Rightarrow> (case strsep_scan t '','' of (tok, r) \<Rightarrow> map_option ((#) tok) (split_args r (Suc n))))"
  by pat_completeness auto
termination by (relation "measure (\<lambda>(p, n). case p of None \<Rightarrow> 0 | Some t \<Rightarrow> Suc (length t))")
    (auto split: option.splits dest!: strsep_scan_shorter [OF sym])

declare split_args.simps [simp del]

definition parse_argv :: "string \<Rightarrow> string list option" where
  "parse_argv args =
     (case strsep_scan args ''='' of
        (name, None) \<Rightarrow> Some [name]
      | (name, Some r) \<Rightarrow> map_option ((#) name) (split_args (Some r) 1))"

definition parseParameter :: "'f env \<Rightarrow> string \<Rightarrow> 'f snet \<Rightarrow> 'f snet option" where
  "parseParameter e args s = do { argv \<leftarrow> parse_argv args; processCommand e argv s }"

text \<open>One turn of \<^verbatim>\<open>AtThread\<close>.\<close>

definition at_line :: "'f env \<Rightarrow> string \<Rightarrow> 'f snet \<Rightarrow> 'f snet option" where
  "at_line e line s =
     (if strStartsWith line ''AT'' then
        if line = ''AT'' then reply (''+OK'' @ nr) s
        else if strStartsWith line ''AT+'' then parseParameter e (drop 3 line) s
        else reply (err_sp INVALID_COMMAND) s
      else reply (err_sp INVALID_COMMAND) s)"

definition AtThread_turn :: "'f env \<Rightarrow> 'f snet \<Rightarrow> 'f snet option" where
  "AtThread_turn e s =
     (if atMode (UserParam s) = AT_MODE \<and> uart_recvEnd s = 1 then
        let d = uart_rec_data s;
            d1 = d[0 := toupper (d ! 0), 1 := toupper (d ! 1)]
        in do {
          s1 \<leftarrow> at_line e (cstr d1) (s\<lparr>uart_rec_data := d1\<rparr>);
          Some (s1\<lparr>uart_rec_len := 0, uart_recvEnd := 0, uart_rec_data := clear_frame (uart_rec_data s1)\<rparr>)
        }
      else Some s)"

end
