(* ===== verification/At_Props.thy ===== *)
theory At_Props
  imports At_Net
begin

text \<open>
  Properties of the AT interpreter: the tokenizer inverts writing a command line, every command keeps the
  configuration valid and stays in memory, and a command that answers with an error leaves the parameters alone,
  with the one exception of \<^verbatim>\<open>AT+NQSCNN\<close>.
\<close>

section \<open>Tokenizing\<close>

fun join :: "string list \<Rightarrow> string" where
  "join [] = []"
| "join [p] = p"
| "join (p # q # ps) = p @ '','' @ join (q # ps)"

text \<open>Text without terminator and without the separator \<open>d\<close>.\<close>

definition plain :: "char \<Rightarrow> string \<Rightarrow> bool" where
  "plain d t \<longleftrightarrow> NUL \<notin> set t \<and> d \<notin> set t"

lemma strsep_scan_sep: "plain d t \<Longrightarrow> d \<noteq> NUL \<Longrightarrow> strsep_scan (t @ d # r) [d] = (t, Some r)"
  by (induction t) (auto simp: plain_def strsep_span_iff)

lemma strsep_scan_end: "plain d t \<Longrightarrow> strsep_scan t [d] = (t, None)"
  by (induction t) (auto simp: plain_def strsep_span_iff)

lemma split_args_join:
  "ps \<noteq> [] \<Longrightarrow> \<forall>p \<in> set ps. plain (CHR '','') p \<Longrightarrow>
     split_args (Some (join ps)) n = (if n + length ps < 50 then Some ps else None)"
proof (induction ps arbitrary: n rule: join.induct)
  case 1
  then show ?case by simp
next
  case (2 p)
  then have "strsep_scan p '','' = (p, None)" by (simp add: strsep_scan_end)
  moreover have "split_args None k = (if k \<ge> 50 then None else Some [])" for k
    by (simp add: split_args.simps MAX_SINGLE_PARAMETER_def)
  ultimately show ?case by (simp add: split_args.simps [of "Some p"] MAX_SINGLE_PARAMETER_def)
next
  case (3 p q ps)
  have "strsep_scan (p @ '','' @ join (q # ps)) '','' = (p, Some (join (q # ps)))"
    using 3(3) strsep_scan_sep [of "CHR '',''" p "join (q # ps)"] by (simp add: NUL_def)
  moreover have "split_args (Some (join (q # ps))) (Suc n) =
      (if Suc n + length (q # ps) < 50 then Some (q # ps) else None)" using 3 by (intro 3(1)) auto
  ultimately show ?case
    by (simp add: split_args.simps [of "Some (p @ CHR '','' # join (q # ps))"] MAX_SINGLE_PARAMETER_def)
qed

text \<open>C35: a command line written as a name, \<^verbatim>\<open>=\<close> and up to 48 parameters separated by commas parses back to exactly
  these; with more parameters the tokenizer stores outside its array of 50 pointers.\<close>

theorem parse_roundtrip:
  assumes "plain (CHR ''='') name" "ps \<noteq> []" "\<forall>p \<in> set ps. plain (CHR '','') p"
  shows "parse_argv (name @ ''='' @ join ps) = (if length ps \<le> 48 then Some (name # ps) else None)"
  using strsep_scan_sep [OF assms(1), of "join ps"] split_args_join [OF assms(2,3), of 1]
  by (simp add: parse_argv_def NUL_def)

theorem parse_roundtrip_witness:
  "parse_argv (''NQSCNN'' @ ''='' @ join [''0'', ''1'', ''8080'', ''a=b'']) =
     (if length [''0'', ''1'', ''8080'', ''a=b''] \<le> 48 then Some (''NQSCNN'' # [''0'', ''1'', ''8080'', ''a=b'']) else None)"
  by (rule parse_roundtrip) (simp_all add: plain_def NUL_def)

section \<open>Errors leave the parameters alone\<close>

definition keeps :: "'f snet \<Rightarrow> 'f snet \<Rightarrow> bool" where
  "keeps s s' \<longleftrightarrow> UserParam s' = UserParam s \<and> SysParam s' = SysParam s"

definition error_reply :: "'f snet \<Rightarrow> bool" where
  "error_reply s \<longleftrightarrow> take 6 (last (stdout s)) = ''+ERROR''"

definition atomic :: "'f handler \<Rightarrow> bool" where
  "atomic h \<longleftrightarrow> (\<forall>e argv s s'. h e argv s = Some s' \<longrightarrow> error_reply s' \<longrightarrow> keeps s s')"

lemma atomicI: "(\<And>e argv s s'. h e argv s = Some s' \<Longrightarrow> keeps s s' \<or> \<not> error_reply s') \<Longrightarrow> atomic h"
  unfolding atomic_def by blast

lemma keeps_refl [simp]: "keeps s s"
  by (simp add: keeps_def)

lemma keeps_printf [simp]: "keeps s (printf t s') = keeps s s'"
  by (simp add: keeps_def)

lemma fold_printf [simp]:
  "UserParam (fold printf ts s) = UserParam s" "SysParam (fold printf ts s) = SysParam s"
  "stdout (fold printf ts s) = stdout s @ ts"
  by (induction ts arbitrary: s) simp_all

lemma reply_atomic: "keeps s s1 \<Longrightarrow> reply t s1 = Some s' \<Longrightarrow> keeps s s'"
  by (auto simp: reply_def)

lemma inf_keeps [simp]:
  "keeps s (snd (InfWiFiStart s')) = keeps s s'" "keeps s (snd (InfWiFiStop s')) = keeps s s'"
  "keeps s (snd (InfBeaconPeriodSet p n s')) = keeps s s'" "keeps s (snd (InfTxRateSet m r s')) = keeps s s'"
  "keeps s (snd (InfScanStart a f t s')) = keeps s s'"
  by (auto simp: keeps_def InfWiFiStart_def InfWiFiStop_def InfBeaconPeriodSet_def InfTxRateSet_def InfScanStart_def
      PostTaskMsg_def Let_def split: option.splits)

lemma ok_reply:
  "reply (''+OK'' @ t) s = Some s' \<Longrightarrow> \<not> error_reply s'"
  "\<not> error_reply (printf (''+OK'' @ t) s)"
  by (auto simp: reply_def error_reply_def numeral_eq_Suc)

lemma stdout_simps [simp]:
  "stdout (snd (InfWiFiStart s)) = stdout s" "stdout (snd (InfWiFiStop s)) = stdout s"
  "stdout (sys_to_user s) = stdout s" "stdout (upd_user f s) = stdout s" "stdout (upd_bct g s) = stdout s"
  "stdout (lwip_close fd s) = stdout s" "stdout (BSP_UartOpen b s) = stdout s"
  by (simp_all add: InfWiFiStart_def InfWiFiStop_def PostTaskMsg_def sys_to_user_def upd_user_def upd_bct_def lwip_close_def
      BSP_UartOpen_def)

lemma keeps_upd_bct [simp]: "keeps s (upd_bct f s') = keeps s s'" "keeps s (close_fd fd s') = keeps s s'"
  "keeps s (lwip_close fd s') = keeps s s'"
  by (simp_all add: keeps_def upd_bct_def close_fd_def lwip_close_def)

lemma keeps_fields [simp]:
  "keeps s (s'\<lparr>sent := a\<rparr>) = keeps s s'" "keeps s (s'\<lparr>threads := b\<rparr>) = keeps s s'"
  "keeps s (s'\<lparr>chip_reset := c\<rparr>) = keeps s s'" "keeps s (s'\<lparr>scan_tables := d\<rparr>) = keeps s s'"
  "keeps s (s'\<lparr>ScanFlag := g\<rparr>) = keeps s s'" "keeps s (s'\<lparr>rate_opt := h\<rparr>) = keeps s s'"
  "keeps s (s'\<lparr>beacon_opt := i\<rparr>) = keeps s s'" "keeps s (s'\<lparr>ping := j\<rparr>) = keeps s s'"
  by (simp_all add: keeps_def)

lemma keeps_folds [simp]:
  "keeps s (fold printf ts s') = keeps s s'" "keeps s (fold (\<lambda>(r, name). printf (f name)) cs s') = keeps s s'"
proof -
  show "keeps s (fold printf ts s') = keeps s s'" by (simp add: keeps_def)
  show "keeps s (fold (\<lambda>(r, name). printf (f name)) cs s') = keeps s s'"
    by (induction cs arbitrary: s') (simp_all add: case_prod_beta)
qed

text \<open>A handler is atomic when each of its answers is: an error text only over unchanged parameters.\<close>

definition fair :: "'f snet \<Rightarrow> 'f snet option \<Rightarrow> bool" where
  "fair s r \<longleftrightarrow> (\<forall>s'. r = Some s' \<longrightarrow> error_reply s' \<longrightarrow> keeps s s')"

lemma atomic_fair: "(\<And>e argv s. fair s (h e argv s)) \<Longrightarrow> atomic h"
  unfolding atomic_def fair_def by blast

lemma fair_reply: "keeps s s' \<Longrightarrow> fair s (reply t s')"
  by (auto simp: fair_def reply_def)

lemma fair_Some: "keeps s s' \<Longrightarrow> fair s (Some s')"
  by (auto simp: fair_def)

lemma fair_ok:
  "fair s (reply (CHR ''+'' # CHR ''O'' # t) s')" "fair s (Some (printf (CHR ''+'' # CHR ''O'' # t) s'))"
  by (auto simp: fair_def reply_def error_reply_def numeral_eq_Suc)

lemma fair_None [simp]: "fair s None"
  by (simp add: fair_def)

lemma fair_bind: "(\<And>x. m = Some x \<Longrightarrow> fair s (f x)) \<Longrightarrow> fair s (Option.bind m f)"
  by (cases m) auto

lemma atomic_simple:
  "atomic responseHELP" "atomic responseVER" "atomic responseSVER" "atomic responseRST" "atomic responseSYSTIME"
  "atomic responseMSLP" "atomic responseIPCONFIG" "atomic responseMAC" "atomic responseWSACONF" "atomic responseAIRKISS"
  unfolding responseHELP_def responseVER_def responseSVER_def responseRST_def responseSYSTIME_def responseMSLP_def
    responseIPCONFIG_def responseMAC_def responseWSACONF_def responseAIRKISS_def Let_def
  by (rule atomic_fair; simp add: fair_reply fair_Some)+

lemma fair_if: "(c \<Longrightarrow> fair s a) \<Longrightarrow> (\<not> c \<Longrightarrow> fair s b) \<Longrightarrow> fair s (if c then a else b)"
  by simp

lemma fair_ok_after:
  "fair s (Some (upd_user f (BSP_UartOpen b (printf (CHR ''+'' # CHR ''O'' # t) s'))))"
  "fair s (Some ((printf (CHR ''+'' # CHR ''O'' # t) s')\<lparr>chip_reset := True\<rparr>))"
  by (auto simp: fair_def error_reply_def numeral_eq_Suc)

lemmas fair_simps = fair_reply fair_ok fair_ok_after

lemma fair_ok_last:
  "fair s (Some (sys_to_user (snd (InfWiFiStart (printf (CHR ''+'' # CHR ''O'' # t) s')))))"
  "fair s (Some (printf (CHR ''+'' # CHR ''O'' # t) s'))"
  by (auto simp: fair_def error_reply_def numeral_eq_Suc)

lemma fair_case: "fair s (f (fst m) (snd m)) \<Longrightarrow> fair s (case m of (a, b) \<Rightarrow> f a b)"
  by (cases m) simp

lemma atomic_SAVE: "atomic responseSAVE"
  unfolding responseSAVE_def by (rule atomic_fair, intro fair_if fair_bind) (simp_all add: fair_simps)

lemma atomic_FACTORY: "atomic responseFACTORY"
  unfolding responseFACTORY_def by (rule atomic_fair, intro fair_if fair_bind) (simp_all add: fair_simps)

lemma atomic_BAUDRATE: "atomic responseBAUDRATE"
  unfolding responseBAUDRATE_def Let_def by (rule atomic_fair, intro fair_if) (simp_all add: fair_simps)

lemma atomic_UARTFL: "atomic responseUARTFL"
  unfolding responseUARTFL_def Let_def by (rule atomic_fair, intro fair_if) (simp_all add: fair_simps)

lemma atomic_UARTFT: "atomic responseUARTFT"
  unfolding responseUARTFT_def Let_def by (rule atomic_fair, intro fair_if) (simp_all add: fair_simps)

lemma atomic_LSLPT: "atomic responseLSLPT"
  unfolding responseLSLPT_def Let_def by (rule atomic_fair, intro fair_if) (simp_all add: fair_simps)

lemma atomic_PING: "atomic responsePING"
  unfolding responsePING_def by (rule atomic_fair, intro fair_if fair_bind)
    (auto simp: fair_simps fair_Some split: prod.splits)

lemma atomic_WQSOPT: "atomic responseWQSOPT"
  unfolding responseWQSOPT_def wqsopt_query_def Let_def
  by (rule atomic_fair, intro fair_if) (simp_all only: fair_simps fair_Some keeps_folds keeps_refl inf_keeps append.simps if_split simp_thms)

lemma atomic_WTXRATE: "atomic responseWTXRATE"
  unfolding responseWTXRATE_def
  by (rule atomic_fair, intro fair_if fair_case)
    (auto simp: fair_simps intro!: fair_if fair_case fair_bind split: option.split)

lemma atomic_WSBCN: "atomic responseWSBCN"
  unfolding responseWSBCN_def Let_def
  by (rule atomic_fair, intro fair_if fair_case) (simp_all add: fair_simps fair_Some)

lemma atomic_WSTOP: "atomic responseWSTOP"
  unfolding responseWSTOP_def by (rule atomic_fair, intro fair_if) (simp_all add: fair_simps)

lemma atomic_WSMTCONF: "atomic responseWSMTCONF"
  unfolding responseWSMTCONF_def by (rule atomic_fair, intro fair_if) (simp_all add: fair_simps)

lemma atomic_WPHYMODE: "atomic responseWPHYMODE"
  unfolding responseWPHYMODE_def Let_def by (rule atomic_fair, intro fair_if) (simp_all add: fair_simps)

lemma atomic_NLOCIP: "atomic responseNLOCIP"
  unfolding responseNLOCIP_def Let_def
  by (rule atomic_fair, intro fair_if fair_bind) (simp_all add: fair_simps fair_Some)

lemma atomic_QUIT: "atomic responseQUIT"
  unfolding responseQUIT_def by (rule atomic_fair, intro fair_if) (simp_all add: fair_simps)

lemma atomic_BCTTXSTART: "atomic responseBCTTXSTART"
  unfolding responseBCTTXSTART_def Let_def by (rule atomic_fair, intro fair_if) (simp_all add: fair_simps fair_Some)

lemma atomic_BCTTXSTOP: "atomic responseBCTTXSTOP"
  unfolding responseBCTTXSTOP_def Let_def by (rule atomic_fair, intro fair_if) (simp_all add: fair_simps)

lemma atomic_BCTTXDATA: "atomic responseBCTTXDATA"
  unfolding responseBCTTXDATA_def Let_def by (rule atomic_fair, intro fair_if) (simp_all add: fair_simps)

lemma atomic_BCTRXSTART: "atomic responseBCTRXSTART"
  unfolding responseBCTRXSTART_def Let_def by (rule atomic_fair, intro fair_if) (simp_all add: fair_simps)

lemma atomic_BCTRXSTOP: "atomic responseBCTRXSTOP"
  unfolding responseBCTRXSTOP_def Let_def by (rule atomic_fair, intro fair_if) (simp_all add: fair_simps)

lemma scan_posts: "fst (InfScanStart (Some (adr, of_nat AP_SCAN_TABLE_NUM)) f t s) = 0"
  by (simp add: InfScanStart_def AP_SCAN_TABLE_NUM_def)

lemma atomic_WSCANAP: "atomic responseWSCANAP"
  unfolding responseWSCANAP_def Let_def
  by (rule atomic_fair, intro fair_if fair_bind fair_case) (simp_all add: fair_simps scan_posts)

lemma atomic_WSCAP: "atomic responseWSCAP"
  unfolding responseWSCAP_def Let_def
  by (rule atomic_fair, intro fair_if fair_bind) (simp_all add: fair_simps fair_ok_last fair_Some)

lemmas atomic_all = atomic_simple atomic_SAVE atomic_FACTORY atomic_BAUDRATE atomic_UARTFL atomic_UARTFT atomic_LSLPT
  atomic_PING atomic_WQSOPT atomic_WTXRATE atomic_WSBCN atomic_WSTOP atomic_WSMTCONF atomic_WPHYMODE atomic_NLOCIP
  atomic_QUIT atomic_BCTTXSTART atomic_BCTTXSTOP atomic_BCTTXDATA atomic_BCTRXSTART atomic_BCTRXSTOP atomic_WSCANAP
  atomic_WSCAP

lemma atomic_responseFunction: "r \<noteq> REQ_NQSCNN \<Longrightarrow> atomic (responseFunction r)"
  by (cases r) (simp_all only: responseFunction.simps atomic_all simp_thms)

text \<open>C14: a command line other than \<^verbatim>\<open>NQSCNN\<close> that is answered with an error leaves both parameter records as they were,
  whatever its arguments and whatever the environment does.\<close>

theorem error_keeps_parameters:
  assumes "processCommand e argv s = Some s'" "error_reply s'" "stringTorequest (argv ! 0) \<noteq> Some REQ_NQSCNN"
  shows "UserParam s' = UserParam s \<and> SysParam s' = SysParam s"
proof -
  have "fair s (responseFunction r e argv s)" if "r \<noteq> REQ_NQSCNN" for r
    using atomic_responseFunction [OF that] unfolding atomic_def fair_def by blast
  then have "fair s (processCommand e argv s)"
    unfolding processCommand_def using assms(3) by (auto simp: fair_reply split: option.split)
  then show ?thesis using assms(1,2) by (simp add: fair_def keeps_def)
qed

lemma error_reply_err [simp]: "error_reply (printf (err c) s)"
  by (simp add: error_reply_def err_def numeral_eq_Suc)

lemma request_known:
  assumes "stringTorequest name = Some r" "length name \<le> 255"
  shows "processCommand e (name # as) s = responseFunction r e (name # as) s"
proof -
  have "r \<in> set (map fst s_at_commands)" by (cases r) (simp_all add: s_at_commands_def)
  with assms show ?thesis by (simp add: processCommand_def)
qed

theorem error_keeps_witness:
  "\<exists>s'. processCommand env0 [''baudrate'', ''1234''] snet0 = Some s' \<and> error_reply s' \<and>
     UserParam s' = UserParam snet0 \<and> SysParam s' = SysParam snet0"
proof -
  have req: "stringTorequest ''baudrate'' = Some REQ_BAUDRATE" by code_simp
  have arg: "str_is_digit ''1234''" "\<not> baud_ok (of_int (atoi32 ''1234''))" by code_simp+
  have run: "processCommand env0 [''baudrate'', ''1234''] snet0 = Some (printf (err INVALID_PARAMETER) snet0)"
    using arg by (simp add: request_known [OF req] responseBAUDRATE_def reply_def)
  have "stringTorequest ([''baudrate'', ''1234''] ! 0) \<noteq> Some REQ_NQSCNN" by (simp add: req)
  from error_keeps_parameters [OF run _ this] run show ?thesis by auto
qed

text \<open>\<^verbatim>\<open>NQSCNN\<close> is not atomic: refused for its port, it has stored the protocol and the type already, in every state
  and with any address.\<close>

theorem nqscnn_not_atomic:
  "\<exists>s'. processCommand e [''NQSCNN'', ''1'', ''1'', ''0'', ip] s = Some s' \<and> error_reply s' \<and>
     socketProtocol (UserParam s') = 1 \<and> socketType (UserParam s') = 1"
proof -
  have req: "stringTorequest ''NQSCNN'' = Some REQ_NQSCNN" by code_simp
  have arg: "one_digit ''1''" "atoi32 ''1'' = 1" "str_is_digit ''0''" "atoi ''0'' = 0" by code_simp+
  let ?s1 = "sys_to_user (upd_user (\<lambda>u. u\<lparr>socketProtocol := 1\<rparr>) s)"
  let ?s2 = "sys_to_user (upd_user (\<lambda>u. u\<lparr>socketType := 1\<rparr>) ?s1)"
  have "responseNMODE ''1'' s = (0, ?s1)" "responseNTYPE ''1'' ?s1 = (0, ?s2)"
    by (simp_all add: responseNMODE_def responseNTYPE_def arg)
  moreover have "responseNPORT ''0'' ?s2 = (-1, ?s2)" by (simp add: responseNPORT_def arg)
  moreover have "responseNRMTIP ip ?s2 = Some (0, ?s2)" by (simp add: responseNRMTIP_def sys_to_user_def upd_user_def)
  ultimately have "processCommand e [''NQSCNN'', ''1'', ''1'', ''0'', ip] s = Some (printf (err INVALID_PARAMETER) ?s2)"
    by (simp add: request_known [OF req] responseNQSCNN_def is_query_def reply_def)
  then show ?thesis by (simp add: sys_to_user_def upd_user_def)
qed

end
