(* ===== verification/At_Safe.thy ===== *)
theory At_Safe
  imports At_Props
begin

text \<open>
  The AT interpreter keeps the configuration valid: an invariant of the parameters and of the tables the commands
  index, kept by every command outside the places where the handlers read or write memory they must not.
\<close>

section \<open>The invariant\<close>

definition user_ok :: "USER_CFG_PARAM \<Rightarrow> bool" where
  "user_ok u \<longleftrightarrow> sized_user u \<and> valid_cfg (cfg u) \<and> baud_ok (Baudrate u) \<and> 32 \<le> frameLength u \<and> frameLength u \<le> 1400 \<and>
     30 \<le> frameGap u \<and> frameGap u \<le> 10000 \<and> socketProtocol u \<le> 1 \<and> socketType u \<le> 1 \<and> atMode u \<le> 1"

definition rate_ok :: "u8 \<times> u8 \<Rightarrow> bool" where
  "rate_ok r \<longleftrightarrow> fst r = 0 \<and> snd r \<le> 4 \<or> fst r = 1 \<and> snd r \<le> 8"

definition at_wf :: "'f snet \<Rightarrow> bool" where
  "at_wf s \<longleftrightarrow> valid_cfg (SysParam s) \<and> user_ok (UserParam s) \<and> rate_ok (rate_opt s)"

text \<open>What each handler relies on without a check: arguments, the sector buffer of the flash writer, the end of the names
  the scan reports.\<close>

definition aton_ok :: "string \<Rightarrow> bool" where
  "aton_ok t \<longleftrightarrow> is_valid_ip t \<noteq> 0 \<or> ipaddr_aton t \<noteq> None"

definition names_end :: "'f env \<Rightarrow> bool" where
  "names_end e \<longleftrightarrow> (let tab = take AP_SCAN_TABLE_NUM (scan_res e) in tab = [] \<or> 0 \<in> set (drop 6 (SCAN_INFO_bytes (last tab))))"

fun args_fit :: "nor env \<Rightarrow> REQUEST \<Rightarrow> string list \<Rightarrow> bool" where
  "args_fit e REQ_BAUDRATE argv \<longleftrightarrow> 2 \<le> length argv"
| "args_fit e REQ_SAVE argv \<longleftrightarrow> dev e = nor_dev \<and> malloc_ok e"
| "args_fit e REQ_FACTORY argv \<longleftrightarrow> dev e = nor_dev \<and> malloc_ok e"
| "args_fit e REQ_WSCANAP argv \<longleftrightarrow> names_end e"
| "args_fit e REQ_PING argv \<longleftrightarrow> length argv \<noteq> 3 \<or> aton_ok (argv ! 1)"
| "args_fit e REQ_NLOCIP argv \<longleftrightarrow> length argv \<noteq> 4 \<or> aton_ok (argv ! 1)"
| "args_fit e REQ_NQSCNN argv \<longleftrightarrow> length argv \<noteq> 5 \<or> aton_ok (argv ! 4)"
| "args_fit e REQ_BCTTXDATA argv \<longleftrightarrow> length argv \<noteq> 3 \<or> unat (of_int (atoi32 (argv ! 1)) :: u32) \<le> length (argv ! 2) + 1"
| "args_fit e _ argv \<longleftrightarrow> True"

section \<open>Steps that keep it\<close>

lemma at_wf_cong:
  "SysParam s' = SysParam s \<Longrightarrow> UserParam s' = UserParam s \<Longrightarrow> rate_opt s' = rate_opt s \<Longrightarrow> at_wf s' = at_wf s"
  by (simp add: at_wf_def)

lemma at_wf_post [simp]: "at_wf (PostTaskMsg m b s) = at_wf s"
  by (rule at_wf_cong) (simp_all add: PostTaskMsg_def)

lemma at_wf_same [simp]:
  "at_wf (printf t s) = at_wf s" "at_wf (lwip_close fd s) = at_wf s" "at_wf (close_fd fd s) = at_wf s"
  "at_wf (upd_bct f s) = at_wf s" "at_wf (BSP_UartOpen b s) = at_wf s" "at_wf (init_conn s) = at_wf s"
  "at_wf (s\<lparr>sent := a\<rparr>) = at_wf s" "at_wf (s\<lparr>threads := c\<rparr>) = at_wf s" "at_wf (s\<lparr>scan_tables := d\<rparr>) = at_wf s"
  "at_wf (s\<lparr>ScanFlag := g\<rparr>) = at_wf s" "at_wf (s\<lparr>beacon_opt := i\<rparr>) = at_wf s" "at_wf (s\<lparr>ping := j\<rparr>) = at_wf s"
  "at_wf (s\<lparr>smtconfigBegin := k\<rparr>) = at_wf s" "at_wf (s\<lparr>flash := l\<rparr>) = at_wf s"
  by (simp_all add: at_wf_def printf_def lwip_close_def close_fd_def upd_bct_def BSP_UartOpen_def init_conn_def)

lemma at_wf_folds [simp]:
  "at_wf (fold printf ts s) = at_wf s" "at_wf (fold (\<lambda>(r, name). printf (f name)) cs s) = at_wf s"
proof -
  show "at_wf (fold printf ts s) = at_wf s" by (induction ts arbitrary: s) simp_all
  show "at_wf (fold (\<lambda>(r, name). printf (f name)) cs s) = at_wf s"
    by (induction cs arbitrary: s) (simp_all add: case_prod_beta)
qed

lemma at_wf_inf [simp]:
  "at_wf (snd (InfWiFiStart s)) = at_wf s" "at_wf (snd (InfWiFiStop s)) = at_wf s"
  "at_wf (snd (InfBeaconPeriodSet p n s)) = at_wf s" "at_wf (snd (InfTxRateSet m r s)) = at_wf s"
  "at_wf (snd (InfScanStart a f t s)) = at_wf s" "at_wf (snd (InfPowerSaveSet pm s)) = at_wf s"
  "at_wf (snd (InfListenIntervalSet li ld s)) = at_wf s" "at_wf (snd (InfDirectCfgStart x y z s)) = at_wf s"
  by (auto simp: InfWiFiStart_def InfWiFiStop_def InfBeaconPeriodSet_def InfTxRateSet_def InfScanStart_def
      InfPowerSaveSet_def InfListenIntervalSet_def InfDirectCfgStart_def Let_def split: option.split)

lemma at_wf_upd_wifi: "at_wf s \<Longrightarrow> valid_wifi (f (WiFiCfg (SysParam s))) \<Longrightarrow> at_wf (upd_wifi f s)"
  by (simp add: at_wf_def upd_wifi_def valid_upd_wifi)

lemma at_wf_valid_wifi: "at_wf s \<Longrightarrow> valid_wifi (WiFiCfg (SysParam s))"
  by (simp add: at_wf_def valid_cfg_def)

lemma at_wf_mode [simp]: "at_wf s \<Longrightarrow> at_wf (snd (InfNetModeSet m s))" "at_wf s \<Longrightarrow> at_wf (snd (InfPhyModeSet m s))"
  "at_wf s \<Longrightarrow> at_wf (snd (InfConTryTimesSet n s))"
  by (auto simp: InfNetModeSet_def InfPhyModeSet_def InfConTryTimesSet_def valid_wifi_def sized_wifi_def not_le
      dest: at_wf_valid_wifi intro!: at_wf_upd_wifi)

lemma at_wf_copy [simp]:
  "at_wf s \<Longrightarrow> at_wf (sys_to_user s)" "at_wf s \<Longrightarrow> at_wf (user_to_sys s)"
  by (simp_all add: at_wf_def sys_to_user_def user_to_sys_def user_ok_def sized_user_def valid_cfg_def)

lemma at_wf_upd_user: "at_wf s \<Longrightarrow> user_ok (f (UserParam s)) \<Longrightarrow> at_wf (upd_user f s)"
  by (simp add: at_wf_def upd_user_def)

lemma at_wf_fields [simp]:
  "at_wf s \<Longrightarrow> baud_ok b \<Longrightarrow> at_wf (upd_user (\<lambda>u. u\<lparr>Baudrate := b\<rparr>) s)"
  "at_wf s \<Longrightarrow> at_wf (upd_user (\<lambda>u. u\<lparr>SleepMode := m\<rparr>) s)"
  "at_wf s \<Longrightarrow> at_wf (upd_user (\<lambda>u. u\<lparr>isValid := v\<rparr>) s)"
  "at_wf s \<Longrightarrow> at_wf (upd_user (\<lambda>u. u\<lparr>atMode := DATA_MODE\<rparr>) s)"
  "at_wf s \<Longrightarrow> at_wf (upd_user (\<lambda>u. u\<lparr>socketPort := p\<rparr>) s)"
  "at_wf s \<Longrightarrow> at_wf (upd_user (\<lambda>u. u\<lparr>remoteCommIp := ip\<rparr>) s)"
  "at_wf s \<Longrightarrow> t \<le> 1 \<Longrightarrow> at_wf (upd_user (\<lambda>u. u\<lparr>socketType := t\<rparr>) s)"
  "at_wf s \<Longrightarrow> t \<le> 1 \<Longrightarrow> at_wf (upd_user (\<lambda>u. u\<lparr>socketProtocol := t\<rparr>) s)"
  "at_wf s \<Longrightarrow> 32 \<le> n \<Longrightarrow> n \<le> 1400 \<Longrightarrow> at_wf (upd_user (\<lambda>u. u\<lparr>frameLength := n\<rparr>) s)"
  "at_wf s \<Longrightarrow> 30 \<le> n \<Longrightarrow> n \<le> 10000 \<Longrightarrow> at_wf (upd_user (\<lambda>u. u\<lparr>frameGap := n\<rparr>) s)"
  by (simp_all add: at_wf_def upd_user_def user_ok_def sized_user_def DATA_MODE_def)

lemma at_wf_scan_done [simp]: "at_wf (AppEvtCallBack e SYS_EVT_SCAN_DONE s) = at_wf s"
  by (rule at_wf_cong) (simp_all add: AppEvtCallBack_def Let_def printf_def)

lemma wf_reads:
  assumes "at_wf s" "unat n \<le> length b"
  shows "\<exists>r s'. InfSsidSet (Some b) n s = Some (r, s') \<and> at_wf s'"
    "\<exists>r s'. InfKeySet i (Some b) n s = Some (r, s') \<and> at_wf s'"
proof -
  have rd: "readable (Some b) n" and v: "wf_params s" using assms by (simp_all add: readable_def at_wf_def)
  obtain r s' where "InfSsidSet (Some b) n s = Some (r, s')" "wf_params s'" using InfSsidSet_ok [OF v rd] by blast
  moreover from this have "UserParam s' = UserParam s" "rate_opt s' = rate_opt s"
    by (auto simp: InfSsidSet_def Let_def upd_wifi_def split: if_splits Option.bind_splits)
  ultimately show "\<exists>r s'. InfSsidSet (Some b) n s = Some (r, s') \<and> at_wf s'" using assms by (auto simp: at_wf_def)
  obtain r s' where "InfKeySet i (Some b) n s = Some (r, s')" "wf_params s'" using InfKeySet_ok [OF v rd] by blast
  moreover from this have "UserParam s' = UserParam s" "rate_opt s' = rate_opt s"
    by (auto simp: InfKeySet_def Let_def upd_wifi_def split: if_splits Option.bind_splits)
  ultimately show "\<exists>r s'. InfKeySet i (Some b) n s = Some (r, s') \<and> at_wf s'" using assms by (auto simp: at_wf_def)
qed

lemma wf_no_ssid:
  assumes "at_wf s"
  shows "\<exists>r s'. InfSsidSet None 0 s = Some (r, s') \<and> at_wf s'"
proof -
  obtain r s' where "InfSsidSet None 0 s = Some (r, s')" "wf_params s'"
    using InfSsidSet_ok [of s None 0] assms by (auto simp: at_wf_def readable_def)
  moreover from this have "UserParam s' = UserParam s" "rate_opt s' = rate_opt s"
    by (auto simp: InfSsidSet_def Let_def upd_wifi_def split: if_splits Option.bind_splits)
  ultimately show ?thesis using assms by (auto simp: at_wf_def)
qed

lemma set_ssid_key_ok:
  assumes "at_wf s" "length ssid \<le> 32" "length key \<le> 64" "x \<le> 1"
  shows "\<exists>s'. set_ssid_key ssid key x s = Some s' \<and> at_wf s'"
proof -
  have 1: "unat (of_nat (length ssid) :: u8) \<le> length (to_bytes ssid @ [0])" using assms(2)
    by (simp add: unsigned_of_nat take_bit_nat_eq_self)
  have 2: "unat (of_nat (length key + x) :: u8) \<le> length (to_bytes key @ [0])" using assms(3,4)
    by (simp add: unsigned_of_nat take_bit_nat_eq_self del: of_nat_add)
  obtain r1 s1 where s1: "InfSsidSet (Some (to_bytes ssid @ [0])) (of_nat (length ssid)) s = Some (r1, s1)" "at_wf s1"
    using wf_reads(1) [OF assms(1) 1] by blast
  obtain r2 s2 where "InfKeySet 0 (Some (to_bytes key @ [0])) (of_nat (length key + x)) s1 = Some (r2, s2)" "at_wf s2"
    using wf_reads(2) [OF s1(2) 2] by blast
  with s1 show ?thesis by (simp add: set_ssid_key_def)
qed

section \<open>Every command\<close>

definition safe :: "'f snet option \<Rightarrow> bool" where
  "safe r \<longleftrightarrow> (\<exists>s'. r = Some s' \<and> (at_wf s' \<or> chip_reset s'))"

lemma safe_reply: "at_wf s \<Longrightarrow> safe (reply t s)"
  by (simp add: safe_def reply_def)

lemma safe_Some: "at_wf s \<Longrightarrow> safe (Some s)"
  by (simp add: safe_def)

lemma safe_if: "(c \<Longrightarrow> safe a) \<Longrightarrow> (\<not> c \<Longrightarrow> safe b) \<Longrightarrow> safe (if c then a else b)"
  by simp

lemma safe_case: "safe (f (fst m) (snd m)) \<Longrightarrow> safe (case m of (a, b) \<Rightarrow> f a b)"
  by (cases m) simp

lemma safe_bind: "m \<noteq> None \<Longrightarrow> (\<And>x. m = Some x \<Longrightarrow> safe (f x)) \<Longrightarrow> safe (Option.bind m f)"
  by (cases m) auto

lemmas safe_simps = safe_reply safe_Some

lemma safe_HELP: "at_wf s \<Longrightarrow> safe (responseHELP e argv s)"
  by (simp add: responseHELP_def safe_simps)

lemma safe_VER: "at_wf s \<Longrightarrow> safe (responseVER e argv s)"
  by (simp add: responseVER_def safe_simps)

lemma safe_SVER: "at_wf s \<Longrightarrow> safe (responseSVER e argv s)"
  by (simp add: responseSVER_def safe_simps)

lemma safe_RST: "at_wf s \<Longrightarrow> safe (responseRST e argv s)"
  by (simp add: responseRST_def safe_simps safe_def [of "Some _"])

lemma safe_SYSTIME: "at_wf s \<Longrightarrow> safe (responseSYSTIME e argv s)"
  by (simp add: responseSYSTIME_def safe_simps)

lemma safe_SAVE:
  assumes "at_wf s" "dev e = nor_dev" "malloc_ok e"
  shows "safe (responseSAVE e argv s)"
proof -
  let ?s = "upd_user (\<lambda>u. u\<lparr>isValid := USER_PARAM_FLAG_VALID\<rparr>) s"
  have wf: "at_wf ?s" using assms(1) by simp
  then have "sized_user (UserParam ?s)" by (simp add: at_wf_def user_ok_def)
  then obtain f' where "SaveUserParam e ?s = Some (?s\<lparr>flash := f'\<rparr>)"
    using nor.store.save_user [OF assms(2,3)] by blast
  with wf assms(1) show ?thesis by (simp add: responseSAVE_def safe_simps)
qed

lemma sized_zero_user: "sized_user zero_USER_CFG_PARAM"
  by (simp add: zero_USER_CFG_PARAM_def sized_user_def sized_cfg_def sized_wifi_def sized_ip_def zero_CFG_PARAM_def
      zero_WIFI_CFG_def zero_IP_CFG_def)

lemma safe_FACTORY:
  assumes "at_wf s" "dev e = nor_dev" "malloc_ok e"
  shows "safe (responseFACTORY e argv s)"
proof -
  let ?s = "upd_user (\<lambda>u. zero_USER_CFG_PARAM) s"
  have "sized_user (UserParam ?s)" by (simp add: upd_user_def sized_zero_user)
  then obtain f' where "SaveUserParam e ?s = Some (?s\<lparr>flash := f'\<rparr>)"
    using nor.store.save_user [OF assms(2,3)] by blast
  with assms(1) show ?thesis by (simp add: responseFACTORY_def safe_simps safe_def [of "Some _"])
qed

lemma safe_BAUDRATE: "at_wf s \<Longrightarrow> 2 \<le> length argv \<Longrightarrow> safe (responseBAUDRATE e argv s)"
  unfolding responseBAUDRATE_def Let_def
  by (intro safe_if) (simp_all add: safe_simps)

lemma safe_MSLP: "at_wf s \<Longrightarrow> safe (responseMSLP e argv s)"
  by (simp add: responseMSLP_def safe_simps)

lemma safe_LSLPT: "at_wf s \<Longrightarrow> safe (responseLSLPT e argv s)"
  unfolding responseLSLPT_def Let_def
  by (intro safe_if) (simp_all add: safe_simps)

lemma safe_IPCONFIG: "at_wf s \<Longrightarrow> safe (responseIPCONFIG e argv s)"
  unfolding responseIPCONFIG_def Let_def by (intro safe_if) (simp_all add: safe_simps)

lemma safe_PING: "at_wf s \<Longrightarrow> length argv \<noteq> 3 \<or> aton_ok (argv ! 1) \<Longrightarrow> safe (responsePING e argv s)"
  unfolding responsePING_def
  by (intro safe_if safe_bind safe_case) (auto simp: safe_simps aton_ok_def)

lemma safe_MAC: "at_wf s \<Longrightarrow> safe (responseMAC e argv s)"
  by (simp add: responseMAC_def safe_simps)

lemma safe_WTXRATE: "at_wf s \<Longrightarrow> safe (responseWTXRATE e argv s)"
proof -
  assume wf: "at_wf s"
  obtain m i where r: "rate_opt s = (m, i)" by (cases "rate_opt s")
  with wf have "m = 0 \<and> unat i < 5 \<or> m = 1 \<and> unat i < 9"
    by (auto simp: at_wf_def rate_ok_def word_le_nat_alt)
  then have q: "is_query argv \<Longrightarrow> safe (responseWTXRATE e argv s)"
    using wf r by (auto simp: responseWTXRATE_def rate_name_def mode_cck_rate_def mode_ofdm_rate_def safe_simps)
  have t: "map_of rate_table x = Some (mo, ra) \<Longrightarrow> rate_ok (mo, ra)" for x mo ra
    by (drule map_of_SomeD) (auto simp: rate_table_def rate_ok_def)
  have "at_wf (s1\<lparr>rate_opt := (mo, ra)\<rparr>)" if "at_wf s1" "map_of rate_table x = Some (mo, ra)" for s1 :: "'a snet" and x mo ra
    using that t by (simp add: at_wf_def)
  then show ?thesis
    using wf q by (cases "is_query argv") (auto simp: responseWTXRATE_def safe_simps intro!: safe_case split: option.split)
qed

lemma safe_WSBCN: "at_wf s \<Longrightarrow> safe (responseWSBCN e argv s)"
  unfolding responseWSBCN_def Let_def by (intro safe_if safe_case) (simp_all add: safe_simps)

lemma safe_WSMTCONF: "at_wf s \<Longrightarrow> safe (responseWSMTCONF e argv s)"
  unfolding responseWSMTCONF_def by (intro safe_if) (simp_all add: safe_simps)

lemma safe_WSTOP: "at_wf s \<Longrightarrow> safe (responseWSTOP e argv s)"
  unfolding responseWSTOP_def by (intro safe_if) (simp_all add: safe_simps)

lemma safe_WSACONF: "at_wf s \<Longrightarrow> safe (responseWSACONF e argv s)"
  by (simp add: responseWSACONF_def safe_simps)

lemma safe_AIRKISS: "at_wf s \<Longrightarrow> safe (responseAIRKISS e argv s)"
  by (simp add: responseAIRKISS_def safe_simps)

lemma safe_BCTTXSTART: "at_wf s \<Longrightarrow> safe (responseBCTTXSTART e argv s)"
  unfolding responseBCTTXSTART_def Let_def by (intro safe_if) (simp_all add: safe_simps)

lemma safe_BCTTXSTOP: "at_wf s \<Longrightarrow> safe (responseBCTTXSTOP e argv s)"
  unfolding responseBCTTXSTOP_def Let_def by (intro safe_if) (simp_all add: safe_simps)

lemma safe_BCTTXDATA:
  "at_wf s \<Longrightarrow> length argv \<noteq> 3 \<or> unat (of_int (atoi32 (argv ! 1)) :: u32) \<le> length (argv ! 2) + 1 \<Longrightarrow>
     safe (responseBCTTXDATA e argv s)"
  unfolding responseBCTTXDATA_def Let_def by (intro safe_if) (simp_all add: safe_simps)

lemma safe_BCTRXSTART: "at_wf s \<Longrightarrow> safe (responseBCTRXSTART e argv s)"
  unfolding responseBCTRXSTART_def Let_def by (intro safe_if) (simp_all add: safe_simps)

lemma safe_BCTRXSTOP: "at_wf s \<Longrightarrow> safe (responseBCTRXSTOP e argv s)"
  unfolding responseBCTRXSTOP_def Let_def by (intro safe_if) (simp_all add: safe_simps)

lemma safe_QUIT: "at_wf s \<Longrightarrow> safe (responseQUIT e argv s)"
  unfolding responseQUIT_def by (intro safe_if) (simp_all add: safe_simps)

lemma uartfl_range:
  fixes n :: u16
  defines "m \<equiv> if unat n < MIN_RECV_BUFFER_SIZE then of_nat MIN_RECV_BUFFER_SIZE
    else if unat n > MAX_RECV_BUFFER_SIZE then of_nat MAX_RECV_BUFFER_SIZE else n"
  shows "32 \<le> m AND 0xffff" "m AND 0xffff \<le> 1400"
proof -
  have "(0xffff :: u16) = - 1" by simp
  then have "m AND 0xffff = m" by (simp only: and.right_neutral)
  moreover have "32 \<le> unat m \<and> unat m \<le> 1400"
    unfolding m_def MIN_RECV_BUFFER_SIZE_def MAX_RECV_BUFFER_SIZE_def by (simp add: not_less)
  ultimately show "32 \<le> m AND 0xffff" "m AND 0xffff \<le> 1400" by (simp_all add: word_le_nat_alt)
qed

lemma safe_UARTFL: "at_wf s \<Longrightarrow> safe (responseUARTFL e argv s)"
  unfolding responseUARTFL_def Let_def
  by (intro safe_if) (simp_all only: safe_simps at_wf_same at_wf_fields uartfl_range)

lemma uartft_range:
  fixes n :: int
  defines "m \<equiv> if n < UART_FRAME_MIN_LEN then UART_FRAME_MIN_LEN else if n > UART_FRAME_MAX_LEN then UART_FRAME_MAX_LEN else n"
  shows "30 \<le> (of_int m :: u16)" "(of_int m :: u16) \<le> 10000"
proof -
  have m: "30 \<le> m" "m \<le> 10000" unfolding m_def UART_FRAME_MIN_LEN_def UART_FRAME_MAX_LEN_def by auto
  then have "uint (of_int m :: u16) = m" by (simp add: uint_word_of_int take_bit_int_eq_self)
  with m show "30 \<le> (of_int m :: u16)" "(of_int m :: u16) \<le> 10000" by (simp_all add: word_le_def)
qed

lemma safe_UARTFT: "at_wf s \<Longrightarrow> safe (responseUARTFT e argv s)"
  unfolding responseUARTFT_def Let_def
  by (intro safe_if) (simp_all only: safe_simps at_wf_same at_wf_fields uartft_range)

lemma safe_WQSOPT: "at_wf s \<Longrightarrow> safe (responseWQSOPT e argv s)"
proof -
  have wq: "at_wf (upd_wifi (\<lambda>w. w\<lparr>Channel := c, Encry := en, AuthMode := au, WmmEn := wm\<rparr>) s1)"
    if "at_wf s1" "\<not> (no \<or> c < 1 \<or> c > 13 \<or> en > 4 \<or> au > 3 \<or> more)" for s1 :: "'a snet" and c en au wm no more
  proof -
    have "c \<ge> 1" "c \<le> 13" "en < 5" "au < 4" using that(2) by (auto simp: not_less word_less_nat_alt word_le_nat_alt)
    with that(1) show ?thesis
      by (auto intro!: at_wf_upd_wifi dest: at_wf_valid_wifi simp: valid_wifi_def sized_wifi_def)
  qed
  show ?thesis if "at_wf s"
    unfolding responseWQSOPT_def Let_def
    by (intro safe_if) (use that in \<open>simp_all only: safe_simps at_wf_copy wq at_wf_mode if_split at_wf_inf simp_thms
        wqsopt_query_def Let_def at_wf_folds\<close>)
qed

lemma safe_bind_wf:
  "\<exists>x. m = Some x \<and> at_wf x \<Longrightarrow> (\<And>x. at_wf x \<Longrightarrow> safe (f x)) \<Longrightarrow> safe (Option.bind m f)"
  by auto

lemma scan_start_ok:
  assumes "at_wf s"
  shows "\<exists>s'. (if c then map_option (\<lambda>r. snd (InfWiFiStart (snd r))) (InfSsidSet None 0 s) else Some s) = Some s' \<and> at_wf s'"
proof -
  obtain r s1 where "InfSsidSet None 0 s = Some (r, s1)" "at_wf s1" using wf_no_ssid [OF assms] by blast
  with assms show ?thesis by (cases c) auto
qed

text \<open>The scan report runs out of the results exactly when the last name does.\<close>

lemma scan_lines_None: "scan_lines tab = None \<longleftrightarrow> tab \<noteq> [] \<and> 0 \<notin> set (drop 6 (SCAN_INFO_bytes (last tab)))"
proof (induction tab)
  case (Cons i tab)
  show ?case
  proof (cases "tab = []")
    case True
    then show ?thesis by (simp add: name_read_def Let_def)
  next
    case False
    have "drop 6 (SCAN_INFO_bytes i @ b) = drop 6 (SCAN_INFO_bytes i) @ b" for b :: bytes
    proof -
      have "6 \<le> length (SCAN_INFO_bytes i)" by (simp add: SCAN_INFO_bytes_def)
      then show ?thesis by simp
    qed
    moreover have "0 \<in> set (concat (map SCAN_INFO_bytes tab))" if "0 \<in> set (drop 6 (SCAN_INFO_bytes (last tab)))"
      using in_set_dropD [OF that] last_in_set [OF False] by auto
    ultimately have "name_read (i # tab) \<noteq> None" if "0 \<in> set (drop 6 (SCAN_INFO_bytes (last tab)))"
      using that by (simp add: name_read_def Let_def)
    with Cons.IH False show ?thesis by (auto split: bind_splits)
  qed
qed simp

lemma safe_WSCANAP:
  assumes "at_wf s" "names_end e"
  shows "safe (responseWSCANAP e argv s)"
proof -
  have "scan_lines (take AP_SCAN_TABLE_NUM (scan_res e)) \<noteq> None"
    using assms(2) unfolding scan_lines_None names_end_def Let_def by blast
  with assms(1) show ?thesis
    unfolding responseWSCANAP_def Let_def
    by (intro safe_if safe_bind_wf scan_start_ok safe_case safe_bind) (simp_all add: safe_simps)
qed

lemma terminate_key_ok:
  assumes "valid_wifi w"
  shows "\<exists>w'. terminate_key w = Some w' \<and> valid_wifi w'"
proof -
  have "unat (KeyLength w) \<le> 64" "length (PSK w) = 64"
    using assms by (auto simp: valid_wifi_def sized_wifi_def word_le_nat_alt)
  with assms show ?thesis by (auto simp: terminate_key_def Let_def valid_wifi_def sized_wifi_def)
qed

lemma at_wf_servers: "at_wf s \<Longrightarrow> at_wf (s\<lparr>SysParam := (SysParam s)\<lparr>bDhcpServer := 1, bDnsServer := 1\<rparr>\<rparr>)"
  by (simp add: at_wf_def valid_cfg_def sized_cfg_def)

lemma safe_WSCAP: "at_wf s \<Longrightarrow> safe (responseWSCAP e argv s)"
proof -
  assume wf: "at_wf s"
  obtain w where w: "terminate_key (WiFiCfg (SysParam s)) = Some w" "valid_wifi w"
    using terminate_key_ok [OF at_wf_valid_wifi [OF wf]] by blast
  have q: "at_wf (upd_wifi (\<lambda>_. w) s)" by (rule at_wf_upd_wifi [OF wf w(2)])
  show ?thesis
    unfolding responseWSCAP_def Let_def w(1) bind.bind_lunit
    by (intro safe_if safe_bind_wf set_ssid_key_ok) (auto simp: safe_simps q wf at_wf_servers)
qed

lemma safe_WPHYMODE: "at_wf s \<Longrightarrow> safe (responseWPHYMODE e argv s)"
proof -
  assume wf: "at_wf s"
  have "at_wf (upd_user_cfg (\<lambda>c. c\<lparr>WiFiCfg := (WiFiCfg c)\<lparr>PhyMode := ucast mode\<rparr>\<rparr>) s)" if "\<not> (mode \<noteq> 1 \<and> mode \<noteq> 2)"
    for mode :: u32
  proof -
    have "(ucast mode :: u8) < 3" using that by auto
    with wf show ?thesis
      by (auto simp: at_wf_def upd_user_cfg_def user_ok_def sized_user_def sized_cfg_def valid_cfg_def valid_wifi_def sized_wifi_def)
  qed
  with wf show ?thesis
    unfolding responseWPHYMODE_def Let_def by (intro safe_if) (simp_all add: safe_simps)
qed

lemma wf_NMODE: "at_wf s \<Longrightarrow> at_wf (snd (responseNMODE a s))" "at_wf s \<Longrightarrow> at_wf (snd (responseNTYPE a s))"
  "at_wf s \<Longrightarrow> at_wf (snd (responseNPORT a s))"
  by (auto simp: responseNMODE_def responseNTYPE_def responseNPORT_def Let_def)

lemma NRMTIP_ok: "at_wf s \<Longrightarrow> aton_ok a \<Longrightarrow> \<exists>r s'. responseNRMTIP a s = Some (r, s') \<and> at_wf s'"
  by (auto simp: responseNRMTIP_def aton_ok_def)

lemma safe_NQSCNN: "at_wf s \<Longrightarrow> length argv \<noteq> 5 \<or> aton_ok (argv ! 4) \<Longrightarrow> safe (responseNQSCNN e argv s)"
proof -
  assume wf: "at_wf s" and ok: "length argv \<noteq> 5 \<or> aton_ok (argv ! 4)"
  let ?s3 = "snd (responseNPORT (argv ! 3) (snd (responseNTYPE (argv ! 2) (snd (responseNMODE (argv ! 1) s)))))"
  have s3: "at_wf ?s3" using wf by (intro wf_NMODE)
  show ?thesis
  proof (cases "length argv = 5")
    case True
    then obtain r s4 where "responseNRMTIP (argv ! 4) ?s3 = Some (r, s4)" "at_wf s4" using NRMTIP_ok [OF s3] ok by blast
    with True show ?thesis by (simp add: responseNQSCNN_def is_query_def case_prod_beta safe_reply)
  next
    case False
    with wf show ?thesis unfolding responseNQSCNN_def Let_def by (intro safe_if) (simp_all add: safe_simps)
  qed
qed

lemma safe_NLOCIP: "at_wf s \<Longrightarrow> length argv \<noteq> 4 \<or> aton_ok (argv ! 1) \<Longrightarrow> safe (responseNLOCIP e argv s)"
proof -
  assume wf: "at_wf s" and ok: "length argv \<noteq> 4 \<or> aton_ok (argv ! 1)"
  have ip: "at_wf (s\<lparr>SysParam := (SysParam s)\<lparr>IPCfg := c\<rparr>\<rparr>)" if "sized_ip c" for c
    using wf that by (simp add: at_wf_def valid_cfg_def sized_cfg_def)
  have sz: "sized_ip ((IPCfg (SysParam s))\<lparr>Ip := le32 a, GateWay := le32 a\<rparr>)"
      "sized_ip ((IPCfg (SysParam s))\<lparr>Ip := le32 a, GateWay := le32 a, bDhcp := m, DhcpTryTimes := n\<rparr>)" for a m n
    using wf by (auto simp: at_wf_def valid_cfg_def sized_cfg_def sized_ip_def)
  show ?thesis
    unfolding responseNLOCIP_def Let_def
    by (intro safe_if safe_bind) (use wf ok in \<open>auto simp: safe_simps aton_ok_def intro!: safe_reply at_wf_copy ip sz\<close>)
qed

lemmas safe_handlers = safe_HELP safe_VER safe_SVER safe_SAVE safe_FACTORY safe_RST safe_SYSTIME safe_BAUDRATE safe_UARTFT
  safe_UARTFL safe_MSLP safe_LSLPT safe_IPCONFIG safe_PING safe_MAC safe_WQSOPT safe_WPHYMODE safe_WTXRATE safe_WSCANAP
  safe_WSBCN safe_WSCAP safe_WSMTCONF safe_WSTOP safe_NQSCNN safe_NLOCIP safe_WSACONF safe_AIRKISS safe_BCTTXSTART
  safe_BCTTXSTOP safe_BCTTXDATA safe_BCTRXSTART safe_BCTRXSTOP safe_QUIT

lemma safe_responseFunction:
  "at_wf s \<Longrightarrow> args_fit e r argv \<Longrightarrow> safe (responseFunction r e argv s)"
  by (cases r) (simp_all only: responseFunction.simps args_fit.simps safe_handlers)

text \<open>C7: every command with a name of at most 255 characters, known or not, leaves a valid configuration (or resets the
  chip) and makes no bad access, provided that: for \<^verbatim>\<open>SAVE\<close> and \<^verbatim>\<open>FACTORY\<close> the flash is the NOR chip and the sector
  buffer of the flash writer can be allocated; for \<^verbatim>\<open>WSCANAP\<close> a zero byte follows the start of the last name the scan
  reports; \<^verbatim>\<open>BAUDRATE\<close> has an argument; the address argument of \<^verbatim>\<open>PING\<close>, \<^verbatim>\<open>NLOCIP\<close> and \<^verbatim>\<open>NQSCNN\<close>, if it passes
  \<^verbatim>\<open>is_valid_ip\<close>, also passes \<^verbatim>\<open>inet_aton\<close>; and \<^verbatim>\<open>BCTTXDATA\<close> has as much data as it announces.\<close>

theorem commands_safe:
  assumes "at_wf s" "length name \<le> 255"
    and "\<forall>r. stringTorequest name = Some r \<longrightarrow> args_fit e r (name # as)"
  shows "\<exists>s'. processCommand e (name # as) s = Some s' \<and> (at_wf s' \<or> chip_reset s')"
proof (cases "stringTorequest name")
  case None
  with assms show ?thesis by (simp add: processCommand_def reply_def)
next
  case (Some r)
  with assms have "safe (processCommand e (name # as) s)" by (simp add: request_known safe_responseFunction)
  then show ?thesis by (simp add: safe_def)
qed

lemma at_wf_snet0: "at_wf snet0"
proof -
  have "sized_user user0" by (rule sized_user0)
  moreover have "valid_cfg (SysParam params0)" by (rule params0_valid)
  ultimately show ?thesis
    by (simp add: at_wf_def snet0_def user0_def user_ok_def rate_ok_def baud_ok_def zero_USER_CFG_PARAM_def)
qed

theorem commands_safe_witness:
  "\<exists>s'. processCommand env0 (''wqsopt'' # [''2'', ''11'', ''3'', ''3'', ''1'']) snet0 = Some s' \<and> (at_wf s' \<or> chip_reset s')"
proof (rule commands_safe)
  show "\<forall>r. stringTorequest ''wqsopt'' = Some r \<longrightarrow> args_fit env0 r [''wqsopt'', ''2'', ''11'', ''3'', ''3'', ''1'']"
  proof -
    have "stringTorequest ''wqsopt'' = Some REQ_WQSOPT" by code_simp
    then show ?thesis by simp
  qed
qed (simp_all add: at_wf_snet0)

end
