(* ===== verification/Dns_Server.thy ===== *)
theory Dns_Server
  imports SN_Prelude
begin

text \<open>
  The DNS server of the soft access point (\<^verbatim>\<open>App/DnsServer/dns_server.c\<close>): it answers queries for the name of the
  device with its own address and every other name with a name error. A message is its bytes; reading outside a
  message or outside the server structure is \<open>None\<close>. What the heap and \<^verbatim>\<open>pbuf_alloc\<close> answer are arguments.
\<close>

section \<open>State\<close>

text \<open>\<^verbatim>\<open>Socket\<close> is whether the control block pointer is set.\<close>

record DNS_SERVER =
  Socket :: bool
  ds_DnsName :: bytes
  HostIp :: u32

definition DNSS_ERR_SUCCESS :: int where "DNSS_ERR_SUCCESS = 0"
definition DNSS_ERR_LINKDOWN :: int where "DNSS_ERR_LINKDOWN = -1"
definition DNSS_ERR_PARAM :: int where "DNSS_ERR_PARAM = -2"
definition DNSS_ERR_MEM :: int where "DNSS_ERR_MEM = -3"
definition DNS_DEFAULT_TTL :: u32 where "DNS_DEFAULT_TTL = 3600"
definition DNS_RRTYPE_A :: u16 where "DNS_RRTYPE_A = 1"
definition DNS_RRCLASS_IN :: u16 where "DNS_RRCLASS_IN = 1"
definition DNS_FLAG1_RESPONSE :: u8 where "DNS_FLAG1_RESPONSE = 0x80"
definition DNS_FLAG2_ERR_NONE :: u8 where "DNS_FLAG2_ERR_NONE = 0"
definition DNS_FLAG2_ERR_NAME :: u8 where "DNS_FLAG2_ERR_NAME = 3"
definition DNS_NAME_OFFSET :: u16 where "DNS_NAME_OFFSET = 0xC000"
definition DNS_HEADER_size :: nat where "DNS_HEADER_size = 12"
definition DNS_QUERY_size :: nat where "DNS_QUERY_size = 4"
definition DNS_ANSWER_size :: nat where "DNS_ANSWER_size = 8"

definition Nst_ToUpper :: "u8 \<Rightarrow> u8" where
  "Nst_ToUpper c = (if 0x61 \<le> c \<and> c \<le> 0x7A then c - 0x61 + 0x41 else c)"

text \<open>\<^verbatim>\<open>strlen\<close> and the string at a byte position; \<open>None\<close> when there is no terminator.\<close>

definition bstr :: "bytes \<Rightarrow> bytes option" where
  "bstr b = (if 0 \<in> set b then Some (takeWhile (\<lambda>c. c \<noteq> 0) b) else None)"

section \<open>Names\<close>

text \<open>The inner loop of \<^verbatim>\<open>_DnsCompareName\<close>: \<open>n\<close> characters at position \<open>my\<close> of the memory \<open>mem\<close> and at the start of the
  query. The result is \<open>Some None\<close> for a difference, else the two positions behind the label.\<close>

fun cmp_label :: "bytes \<Rightarrow> nat \<Rightarrow> bytes \<Rightarrow> nat \<Rightarrow> (nat \<times> bytes) option option" where
  "cmp_label mem my q 0 = Some (Some (my, q))"
| "cmp_label mem my [] (Suc n) = None"
| "cmp_label mem my (c # q) (Suc n) =
     (if my < length mem then
        if Nst_ToUpper (mem ! my) \<noteq> Nst_ToUpper c then Some None else cmp_label mem (Suc my) q n
      else None)"

lemma cmp_label_shorter: "cmp_label mem my q n = Some (Some (my', q')) \<Longrightarrow> length q' \<le> length q"
  by (induction mem my q n rule: cmp_label.induct) (auto split: if_splits)

definition cmp_end :: "bytes \<Rightarrow> nat \<Rightarrow> int option" where
  "cmp_end mem my = (if my = 0 \<or> my > length mem then None else Some (if mem ! (my - 1) = 0 then 0 else 1))"

function cmp_labels :: "bytes \<Rightarrow> nat \<Rightarrow> bytes \<Rightarrow> int option" where
  "cmp_labels mem my [] = None"
| "cmp_labels mem my (n # q) =
     (if n AND 0xC0 = 0xC0 then cmp_end mem my
      else
        case cmp_label mem my q (unat n) of
          None \<Rightarrow> None
        | Some None \<Rightarrow> Some 1
        | Some (Some (my', q')) \<Rightarrow>
            (case q' of
               [] \<Rightarrow> None
             | c # _ \<Rightarrow> if c \<noteq> 0 then cmp_labels mem (Suc my') q' else cmp_end mem (Suc my')))"
  by pat_completeness auto
termination
  by (relation "measure (\<lambda>(mem, my, q). length q)") (auto dest!: cmp_label_shorter)

declare cmp_labels.simps(2) [simp del]

text \<open>\<^verbatim>\<open>DnsServer.DnsName\<close> is followed in memory by the host address; \<open>strlen(Query) - 1\<close> is unsigned.\<close>

definition name_mem :: "DNS_SERVER \<Rightarrow> bytes" where
  "name_mem d = ds_DnsName d @ le32 (HostIp d)"

definition DnsCompareName :: "DNS_SERVER \<Rightarrow> bytes \<Rightarrow> int option" where
  "DnsCompareName d Query =
     (case bstr Query of
        None \<Rightarrow> None
      | Some t \<Rightarrow> if (of_nat (length t) - 1 :: u32) > 32 then Some 1 else cmp_labels (name_mem d) 0 Query)"

section \<open>Messages\<close>

definition dns_header :: "u16 \<Rightarrow> u8 \<Rightarrow> u16 \<Rightarrow> bytes" where
  "dns_header tid flag2 answers =
     le16 tid @ [DNS_FLAG1_RESPONSE, flag2] @ le16 (htons 1) @ le16 (htons answers) @ le16 0 @ le16 0"

definition round4 :: "nat \<Rightarrow> nat" where "round4 n = (n + 3) div 4 * 4"

text \<open>The replies are put together in a heap block of the computed length; more bytes than that would be written
  outside it.\<close>

definition emit :: "nat \<Rightarrow> bool \<Rightarrow> bool \<Rightarrow> bytes \<Rightarrow> bytes option option" where
  "emit sz mem_ok pb_ok b =
     (if \<not> mem_ok then Some None
      else if length b > sz then None
      else Some (if pb_ok then Some b else None))"

definition DNSNameErrGenAndSend :: "bool \<Rightarrow> bool \<Rightarrow> bytes \<Rightarrow> bytes \<Rightarrow> u16 \<Rightarrow> bytes option option" where
  "DNSNameErrGenAndSend mem_ok pb_ok query name tid =
     emit (round4 (DNS_HEADER_size + (length name + 1) + DNS_QUERY_size)) mem_ok pb_ok
       (dns_header tid DNS_FLAG2_ERR_NAME 0 @ (name @ [0]) @ query)"

definition DNSAnswerGenAndSend :: "DNS_SERVER \<Rightarrow> bool \<Rightarrow> bool \<Rightarrow> bytes \<Rightarrow> bytes \<Rightarrow> u16 \<Rightarrow> bytes option option" where
  "DNSAnswerGenAndSend d mem_ok pb_ok query name tid =
     emit (round4 (DNS_HEADER_size + (length name + 1) + DNS_QUERY_size + 2 + DNS_ANSWER_size + 2 + 4)) mem_ok pb_ok
       (dns_header tid DNS_FLAG2_ERR_NONE 1 @ (name @ [0]) @ query @
        le16 (htons (DNS_NAME_OFFSET OR of_nat DNS_HEADER_size)) @
        (le16 (htons DNS_RRTYPE_A) @ le16 (htons DNS_RRCLASS_IN) @ le32 (htonl DNS_DEFAULT_TTL)) @
        le16 (htons 4) @ le32 (HostIp d))"

text \<open>The datagram sent back to the sender of the message, if any.\<close>

definition DNSS_RecvCb :: "DNS_SERVER \<Rightarrow> bool \<Rightarrow> bool \<Rightarrow> bool \<Rightarrow> bytes \<Rightarrow> bytes option option" where
  "DNSS_RecvCb d msg_ok mem_ok pb_ok msg =
     (if \<not> msg_ok then Some None
      else if length msg < DNS_HEADER_size then None
      else if msg ! 2 AND DNS_FLAG1_RESPONSE \<noteq> 0 \<or> msg ! 2 AND 0x78 \<noteq> 0 then Some None
      else
        let name = drop DNS_HEADER_size msg
        in case bstr name of
             None \<Rightarrow> None
           | Some t \<Rightarrow>
               let query = take DNS_QUERY_size (drop (length t + 1) name)
               in if length query < DNS_QUERY_size then None
                  else if of_le16 (drop 2 query) \<noteq> htons DNS_RRCLASS_IN \<and> of_le16 query \<noteq> htons DNS_RRTYPE_A then Some None
                  else case DnsCompareName d name of
                         None \<Rightarrow> None
                       | Some r \<Rightarrow>
                           if r \<noteq> 0 then DNSNameErrGenAndSend mem_ok pb_ok query t (of_le16 msg)
                           else DNSAnswerGenAndSend d mem_ok pb_ok query t (of_le16 msg))"

section \<open>Configuration\<close>

definition DNSS_Config :: "bytes option \<Rightarrow> DNS_SERVER \<Rightarrow> int \<times> DNS_SERVER" where
  "DNSS_Config DnsName d =
     (case DnsName of
        None \<Rightarrow> (DNSS_ERR_PARAM, d)
      | Some n \<Rightarrow> if length n > 32 then (DNSS_ERR_PARAM, d)
                 else (DNSS_ERR_SUCCESS, d\<lparr>ds_DnsName := n @ replicate (32 - length n) 0\<rparr>))"

text \<open>The network interface is whether it is up and its address, \<open>None\<close> for NULL; \<open>udp_ok\<close> is the answer of \<^verbatim>\<open>udp_new\<close>.\<close>

definition DNSS_Start :: "(bool \<times> u32) option \<Rightarrow> bytes \<Rightarrow> bool \<Rightarrow> DNS_SERVER \<Rightarrow> int \<times> DNS_SERVER" where
  "DNSS_Start Netif DnsName udp_ok d =
     (case Netif of
        None \<Rightarrow> (DNSS_ERR_PARAM, d)
      | Some (up, ip) \<Rightarrow>
          if length DnsName > 32 then (DNSS_ERR_PARAM, d)
          else if \<not> up then (DNSS_ERR_LINKDOWN, d)
          else
            let d1 = \<lparr>Socket = False, ds_DnsName = DnsName @ replicate (32 - length DnsName) 0, HostIp = ip\<rparr>
            in if \<not> udp_ok then (DNSS_ERR_MEM, d1) else (DNSS_ERR_SUCCESS, d1\<lparr>Socket := True\<rparr>))"

section \<open>The comparison\<close>

text \<open>The wire form of a list of labels and its written form, with dots between the labels; two written names are the
  same when they differ in the case of letters only.\<close>

definition wire :: "bytes list \<Rightarrow> bytes" where
  "wire ls = concat (map (\<lambda>l. of_nat (length l) # l) ls)"

fun dotted :: "bytes list \<Rightarrow> bytes" where
  "dotted [] = []"
| "dotted [l] = l"
| "dotted (l # ls) = l @ 0x2E # dotted ls"

definition same_name :: "bytes \<Rightarrow> bytes \<Rightarrow> bool" where
  "same_name a b \<longleftrightarrow> map Nst_ToUpper a = map Nst_ToUpper b"

text \<open>The positions inside the labels of the written form, and equality of length and at the marked positions only.\<close>

fun inside :: "bytes list \<Rightarrow> bool list" where
  "inside [] = []"
| "inside [l] = replicate (length l) True"
| "inside (l # ls) = replicate (length l) True @ False # inside ls"

fun agrees :: "bool list \<Rightarrow> bytes \<Rightarrow> bytes \<Rightarrow> bool" where
  "agrees [] [] [] = True"
| "agrees (m # ms) (a # as) (b # bs) = ((m \<longrightarrow> Nst_ToUpper a = Nst_ToUpper b) \<and> agrees ms as bs)"
| "agrees _ _ _ = False"

text \<open>What the loop over the labels finds out about the name of the server: it steps over one character after each label
  without looking at it.\<close>

fun name_matches :: "bytes \<Rightarrow> bytes list \<Rightarrow> bool" where
  "name_matches name [] = False"
| "name_matches name [l] = (map Nst_ToUpper name = map Nst_ToUpper l)"
| "name_matches name (l # ls) =
     (length l < length name \<and> map Nst_ToUpper (take (length l) name) = map Nst_ToUpper l \<and>
      name_matches (drop (Suc (length l)) name) ls)"

definition label :: "bytes \<Rightarrow> bool" where
  "label l \<longleftrightarrow> l \<noteq> [] \<and> length l < 64 \<and> 0 \<notin> set l"

lemma ToUpper_eq_0 [simp]: "Nst_ToUpper c = 0 \<longleftrightarrow> c = 0"
proof -
  have "c - 0x61 + 0x41 \<noteq> 0" if "0x61 \<le> c" "c \<le> 0x7A"
  proof
    assume "c - 0x61 + 0x41 = 0"
    then have "c = 0x20" by (simp add: add_eq_0_iff)
    with that show False by simp
  qed
  then show ?thesis by (auto simp: Nst_ToUpper_def)
qed

lemma ToUpper_0 [simp]: "Nst_ToUpper 0 = 0" "0 = Nst_ToUpper c \<longleftrightarrow> c = 0"
  using ToUpper_eq_0 [of 0] ToUpper_eq_0 [of c] by (simp, metis)

lemma cmp_label_at:
  "my + length l \<le> length mem \<Longrightarrow>
     cmp_label mem my (l @ r) (length l) =
       Some (if map Nst_ToUpper (take (length l) (drop my mem)) = map Nst_ToUpper l then Some (my + length l, r) else None)"
proof (induction l arbitrary: my)
  case Nil
  then show ?case by simp
next
  case (Cons c l)
  then have "drop my mem = mem ! my # drop (Suc my) mem" by (intro Cons_nth_drop_Suc [symmetric]) simp
  with Cons show ?case by simp
qed

lemma length_byte_uncompressed: "n < 64 \<Longrightarrow> (of_nat n :: u8) AND 0xC0 \<noteq> 0xC0"
proof
  assume "n < 64" and eq: "(of_nat n :: u8) AND 0xC0 = 0xC0"
  have "(0xC0 :: u8) \<le> of_nat n" using word_and_le2 [of "of_nat n :: u8" "0xC0"] unfolding eq .
  with \<open>n < 64\<close> show False by (simp add: word_le_nat_alt unsigned_of_nat take_bit_nat_eq_self)
qed

lemma cmp_labels_step:
  assumes "label l" "my + length l \<le> length mem"
  shows "cmp_labels mem my (of_nat (length l) # l @ c # r) =
    (if map Nst_ToUpper (take (length l) (drop my mem)) \<noteq> map Nst_ToUpper l then Some 1
     else if c \<noteq> 0 then cmp_labels mem (Suc (my + length l)) (c # r) else cmp_end mem (Suc (my + length l)))"
proof -
  have "length l < 64" using assms(1) by (simp add: label_def)
  then have "unat (of_nat (length l) :: u8) = length l" by (simp add: unsigned_of_nat take_bit_nat_eq_self)
  then show ?thesis
    using length_byte_uncompressed [OF \<open>length l < 64\<close>] cmp_label_at [OF assms(2), of "c # r"]
    by (simp add: cmp_labels.simps(2))
qed

lemma cmp_labels_past_end:
  assumes "label l" "my + length l \<le> length mem" "mem ! my = 0"
  shows "cmp_labels mem my (of_nat (length l) # l @ c # r) = Some 1"
proof -
  obtain a l' where l: "l = a # l'" "a \<noteq> 0" using assms(1) by (cases l) (auto simp: label_def)
  have "drop my mem = mem ! my # drop (Suc my) mem"
    using assms(2) l by (intro Cons_nth_drop_Suc [symmetric]) simp
  then have "map Nst_ToUpper (take (length l) (drop my mem)) \<noteq> map Nst_ToUpper l" using l assms(3) by simp
  with cmp_labels_step [OF assms(1,2)] show ?thesis by simp
qed

lemma wire_simps [simp]: "wire [] = []" "wire (l # ls) = of_nat (length l) # l @ wire ls"
  by (simp_all add: wire_def)

lemma length_byte_nonzero: "label l \<Longrightarrow> (of_nat (length l) :: u8) \<noteq> 0"
proof -
  assume "label l"
  then have "0 < length l" "length l < 256" by (auto simp: label_def)
  then have "unat (of_nat (length l) :: u8) \<noteq> 0" by (simp add: unsigned_of_nat take_bit_nat_eq_self)
  then show ?thesis by auto
qed

text \<open>A label is compared with the rest of the name, the zero bytes behind it and what follows.\<close>

lemma label_prefix:
  assumes "label l" "length l \<le> length name + k"
  shows "map Nst_ToUpper (take (length l) (name @ replicate k 0 @ ip)) = map Nst_ToUpper l \<longleftrightarrow>
    length l \<le> length name \<and> map Nst_ToUpper (take (length l) name) = map Nst_ToUpper l"
proof (cases "length l \<le> length name")
  case False
  then obtain j where j: "length l = Suc (length name + j)" using less_imp_Suc_add [of "length name" "length l"] by auto
  with assms(2) have "k = Suc (k - 1)" by simp
  then have k: "name @ replicate k 0 @ ip = name @ 0 # replicate (k - 1) 0 @ ip" by (metis append_Cons replicate_Suc)
  let ?m = "take (length l) (name @ replicate k 0 @ ip)"
  have "?m ! length name = 0" unfolding k j by simp
  moreover have "length name < length ?m" using j assms(2) by simp
  ultimately have m: "map Nst_ToUpper ?m ! length name = 0" by (simp only: nth_map ToUpper_0)
  have "l ! length name \<in> set l" using j by (intro nth_mem) simp
  then have "l ! length name \<noteq> 0" using assms(1) unfolding label_def by metis
  then have "map Nst_ToUpper l ! length name \<noteq> 0" using j by simp
  with m have "map Nst_ToUpper ?m \<noteq> map Nst_ToUpper l" by auto
  with False show ?thesis by simp
qed simp

lemma cmp_labels_correct:
  "\<forall>l \<in> set ls. label l \<Longrightarrow> ls \<noteq> [] \<Longrightarrow> 0 \<notin> set name \<Longrightarrow> 0 < k \<Longrightarrow> length (wire ls) \<le> length name + k + 1 \<Longrightarrow>
     cmp_labels (pre @ name @ replicate k 0 @ ip) (length pre) (wire ls @ 0 # r) =
       Some (if name_matches name ls then 0 else 1)"
proof (induction name ls arbitrary: pre rule: name_matches.induct)
  case (1 name)
  then show ?case by simp
next
  case (2 name l)
  let ?mem = "pre @ name @ replicate k 0 @ ip"
  have l: "label l" "length l \<le> length name + k" using 2 by simp_all
  have step: "cmp_labels ?mem (length pre) (of_nat (length l) # l @ 0 # r) =
      (if \<not> (length l \<le> length name \<and> map Nst_ToUpper (take (length l) name) = map Nst_ToUpper l) then Some 1
       else cmp_end ?mem (Suc (length pre + length l)))"
    using cmp_labels_step [OF l(1), of "length pre" ?mem 0 r] label_prefix [OF l] l(2) by simp
  have fin: "cmp_end ?mem (Suc (length pre + length l)) = Some (if length l = length name then 0 else 1)"
    if "length l \<le> length name"
  proof -
    have "?mem ! (length pre + length l) = (name @ replicate k 0) ! length l" using that 2(4) by (simp add: nth_append)
    moreover have "(name @ replicate k 0) ! length l = 0 \<longleftrightarrow> length l = length name"
      using that 2(3,4) nth_mem [of "length l" name] by (cases "length l < length name") (auto simp: nth_append simp del: nth_mem)
    ultimately show ?thesis using that 2(4) by (simp add: cmp_end_def)
  qed
  have nm: "name_matches name [l] \<longleftrightarrow> length l = length name \<and> map Nst_ToUpper (take (length l) name) = map Nst_ToUpper l"
  proof -
    have "map Nst_ToUpper name = map Nst_ToUpper l \<Longrightarrow> length l = length name" using map_eq_imp_length_eq by metis
    then show ?thesis by auto
  qed
  show ?case
  proof (cases "length l \<le> length name \<and> map Nst_ToUpper (take (length l) name) = map Nst_ToUpper l")
    case True
    with step fin have "cmp_labels ?mem (length pre) (wire [l] @ 0 # r) = Some (if length l = length name then 0 else 1)"
      by simp
    with True nm show ?thesis by (simp only: simp_thms)
  next
    case False
    with step have "cmp_labels ?mem (length pre) (wire [l] @ 0 # r) = Some 1" by simp
    moreover have "\<not> name_matches name [l]" using False nm by fastforce
    ultimately show ?thesis by (simp only: if_False simp_thms)
  qed
next
  case (3 name l l2 ls)
  let ?mem = "pre @ name @ replicate k 0 @ ip"
  let ?q = "of_nat (length l2) # l2 @ wire ls @ 0 # r"
  have l: "label l" "length l \<le> length name + k" and l2: "label l2" using 3 by simp_all
  have step: "cmp_labels ?mem (length pre) (of_nat (length l) # l @ ?q) =
      (if \<not> (length l \<le> length name \<and> map Nst_ToUpper (take (length l) name) = map Nst_ToUpper l) then Some 1
       else cmp_labels ?mem (Suc (length pre + length l)) ?q)"
    using cmp_labels_step [OF l(1), of "length pre" ?mem "of_nat (length l2)" "l2 @ wire ls @ 0 # r"] label_prefix [OF l] l(2)
      length_byte_nonzero [OF l2] by simp
  show ?case
  proof (cases "length l < length name")
    case True
    let ?pre = "pre @ take (Suc (length l)) name" and ?name = "drop (Suc (length l)) name"
    have mem: "?pre @ ?name @ replicate k 0 @ ip = ?mem"
      using append_take_drop_id [of "Suc (length l)" name] by (metis append.assoc)
    have "0 \<notin> set ?name" using 3(4) by (meson in_set_dropD)
    then have "cmp_labels (?pre @ ?name @ replicate k 0 @ ip) (length ?pre) (wire (l2 # ls) @ 0 # r) =
        Some (if name_matches ?name (l2 # ls) then 0 else 1)"
      using 3(2,5,6) True by (intro 3(1)) auto
    then have "cmp_labels ?mem (Suc (length pre + length l)) ?q = Some (if name_matches ?name (l2 # ls) then 0 else 1)"
      unfolding mem using True by simp
    with step True show ?thesis by simp
  next
    case False
    have "cmp_labels ?mem (Suc (length pre + length l)) ?q = Some 1" if "length l \<le> length name"
    proof -
      have eq: "length l = length name" using that False by simp
      have "1 \<le> length l2" using l2 by (cases l2) (auto simp: label_def)
      then have k: "length l2 \<le> k - 1" "1 < k" using 3(6) eq by auto
      have "?mem ! Suc (length pre + length l) = 0" using k(2) eq by (simp add: nth_append)
      moreover obtain c r' where "wire ls @ 0 # r = c # r'" by (cases "wire ls @ 0 # r") auto
      ultimately show ?thesis
        using cmp_labels_past_end [OF l2, of "Suc (length pre + length l)" ?mem] k eq by simp
    qed
    with step False show ?thesis by simp
  qed
qed

lemma name_matches_length: "name_matches name ls \<Longrightarrow> Suc (length name) = length (wire ls)"
proof (induction name ls rule: name_matches.induct)
  case (2 name l)
  then show ?case by (auto dest: arg_cong [of _ _ length])
next
  case (3 name l l2 ls)
  then show ?case by auto
qed simp

lemma agrees_True: "agrees (replicate (length b) True) a b \<longleftrightarrow> same_name a b"
proof (induction b arbitrary: a)
  case Nil
  then show ?case by (cases a) (simp_all add: same_name_def)
next
  case (Cons c b)
  then show ?case by (cases a) (simp_all add: same_name_def)
qed

lemma agrees_append:
  "length ms = length bs \<Longrightarrow> agrees (ms @ ms') a (bs @ bs') \<longleftrightarrow>
     length bs \<le> length a \<and> agrees ms (take (length bs) a) bs \<and> agrees ms' (drop (length bs) a) bs'"
proof (induction ms bs arbitrary: a rule: list_induct2)
  case (Cons m ms b bs)
  then show ?case by (cases a) auto
qed simp

lemma name_matches_agrees: "ls \<noteq> [] \<Longrightarrow> name_matches name ls \<longleftrightarrow> agrees (inside ls) name (dotted ls)"
proof (induction name ls rule: name_matches.induct)
  case (2 name l)
  show ?case by (simp add: agrees_True same_name_def)
next
  case (3 name l l2 ls)
  have "agrees (False # ms) (drop (length l) name) (c # bs) \<longleftrightarrow>
      length l < length name \<and> agrees ms (drop (Suc (length l)) name) bs" for ms c bs
  proof (cases "length l < length name")
    case True
    then have "drop (length l) name = name ! length l # drop (Suc (length l)) name" by (simp add: Cons_nth_drop_Suc)
    with True show ?thesis by simp
  qed simp
  with 3 show ?case by (auto simp: agrees_append agrees_True same_name_def)
qed simp

lemma same_agrees: "same_name name (dotted ls) \<Longrightarrow> agrees (inside ls) name (dotted ls)"
proof -
  have len: "length (inside ls) = length (dotted ls)" by (induction ls rule: dotted.induct) simp_all
  have "length ms = length b \<Longrightarrow> map Nst_ToUpper a = map Nst_ToUpper b \<Longrightarrow> agrees ms a b" for ms a b
  proof (induction ms b arbitrary: a rule: list_induct2)
    case (Cons m ms c b)
    then show ?case by (cases a) auto
  qed simp
  with len show "same_name name (dotted ls) \<Longrightarrow> agrees (inside ls) name (dotted ls)" by (simp add: same_name_def)
qed

lemma wire_nonzero: "\<forall>l \<in> set ls. label l \<Longrightarrow> 0 \<notin> set (wire ls)"
  by (induction ls) (use length_byte_nonzero in \<open>auto simp: label_def\<close>)

lemma bstr_wire: "\<forall>l \<in> set ls. label l \<Longrightarrow> bstr (wire ls @ 0 # r) = Some (wire ls)"
proof -
  assume "\<forall>l \<in> set ls. label l"
  then have "\<And>c. c \<in> set (wire ls) \<Longrightarrow> c \<noteq> 0" using wire_nonzero by metis
  then show ?thesis by (simp add: bstr_def)
qed

lemma DnsCompareName_correct:
  assumes "\<forall>l \<in> set ls. label l" "ls \<noteq> []" "0 \<notin> set name" "length name \<le> 31" "length (wire ls) < 2 ^ 32"
    and "ds_DnsName d = name @ replicate (32 - length name) 0"
  shows "DnsCompareName d (wire ls @ 0 # r) = Some (if name_matches name ls then 0 else 1)"
proof -
  have pos: "0 < length (wire ls)" using assms(2) by (cases ls) auto
  then have "(of_nat (length (wire ls)) - of_nat 1 :: u32) = of_nat (length (wire ls) - 1)"
    by (intro of_nat_diff [symmetric]) (simp only: Suc_le_eq One_nat_def)
  then have "unat (of_nat (length (wire ls)) - 1 :: u32) = unat (of_nat (length (wire ls) - 1) :: u32)" by simp
  also have "\<dots> = length (wire ls) - 1" using assms(5) by (simp add: unsigned_of_nat take_bit_nat_eq_self)
  finally have gt: "(of_nat (length (wire ls)) - 1 :: u32) > 32 \<longleftrightarrow> length (wire ls) > 33"
    by (auto simp: word_less_nat_alt)
  show ?thesis
  proof (cases "length (wire ls) > 33")
    case True
    with name_matches_length [of name ls] assms(4) have "\<not> name_matches name ls" by auto
    with True gt bstr_wire [OF assms(1)] show ?thesis by (simp add: DnsCompareName_def)
  next
    case False
    have "cmp_labels ([] @ name @ replicate (32 - length name) 0 @ le32 (HostIp d)) (length ([] :: bytes)) (wire ls @ 0 # r) =
        Some (if name_matches name ls then 0 else 1)"
      by (rule cmp_labels_correct) (use assms False in auto)
    with False gt bstr_wire [OF assms(1)] show ?thesis by (simp add: DnsCompareName_def name_mem_def assms(6))
  qed
qed

section \<open>Replies\<close>

lemma round4_ge: "n \<le> round4 n"
  unfolding round4_def by presburger

lemma length_dns_header [simp]: "length (dns_header t f a) = 12"
  by (simp add: dns_header_def)

lemma emit_fits: "length b \<le> n \<Longrightarrow> emit (round4 n) True True b = Some (Some b)"
  using round4_ge [of n] by (simp add: emit_def)

definition error_bytes :: "bytes \<Rightarrow> bytes \<Rightarrow> bytes" where
  "error_bytes tid name = tid @ [0x80, 3, 0, 1, 0, 0, 0, 0, 0, 0] @ name @ [0, 0, 1, 0, 1]"

definition answer_bytes :: "bytes \<Rightarrow> bytes \<Rightarrow> u32 \<Rightarrow> bytes" where
  "answer_bytes tid name ip =
     tid @ [0x80, 0, 0, 1, 0, 1, 0, 0, 0, 0] @ name @ [0, 0, 1, 0, 1] @
     [0xC0, 0x0C, 0, 1, 0, 1, 0, 0, 0x0E, 0x10, 0, 4] @ le32 ip"

lemma net_words:
  "le16 (htons 1) = [0, 1]" "le16 (htons 4) = [0, 4]" "le16 (htons 0) = [0, 0]" "le16 0 = [0, 0]"
  "le16 (htons (DNS_NAME_OFFSET OR 12)) = [0xC0, 0x0C]" "le32 (htonl 3600) = [0, 0, 0x0E, 0x10]"
  unfolding DNS_NAME_OFFSET_def by code_simp+

lemma error_reply_bytes:
  "DNSNameErrGenAndSend True True [0, 1, 0, 1] name (of_le16 [a, b]) = Some (Some (error_bytes [a, b] name))"
  unfolding DNSNameErrGenAndSend_def DNS_HEADER_size_def DNS_QUERY_size_def
  by (subst emit_fits) (simp_all add: dns_header_def net_words error_bytes_def DNS_FLAG1_RESPONSE_def DNS_FLAG2_ERR_NAME_def
      del: of_le16.simps)

lemma answer_reply_bytes:
  "DNSAnswerGenAndSend d True True [0, 1, 0, 1] name (of_le16 [a, b]) = Some (Some (answer_bytes [a, b] name (HostIp d)))"
  unfolding DNSAnswerGenAndSend_def DNS_HEADER_size_def DNS_QUERY_size_def DNS_ANSWER_size_def
  by (subst emit_fits) (simp_all add: dns_header_def net_words answer_bytes_def DNS_FLAG1_RESPONSE_def DNS_FLAG2_ERR_NONE_def
      DNS_RRTYPE_A_def DNS_RRCLASS_IN_def DNS_DEFAULT_TTL_def del: of_le16.simps)

lemma query_reply:
  assumes "DNSS_Start (Some (True, ip)) name True d0 = (DNSS_ERR_SUCCESS, d)" "0 \<notin> set name" "length name \<le> 31"
    and "\<forall>l \<in> set ls. label l" "ls \<noteq> []" "length (wire ls) < 2 ^ 32" "length hdr = 9" "f1 AND 0xF8 = 0"
  shows "DNSS_RecvCb d True True True ([a, b, f1] @ hdr @ wire ls @ [0, 0, 1, 0, 1] @ extra) =
    Some (Some (if name_matches name ls then answer_bytes [a, b] (wire ls) ip else error_bytes [a, b] (wire ls)))"
proof -
  let ?msg = "[a, b, f1] @ hdr @ wire ls @ [0, 0, 1, 0, 1] @ extra"
  have d: "ds_DnsName d = name @ replicate (32 - length name) 0" "HostIp d = ip"
    using assms(1,3) by (auto simp: DNSS_Start_def)
  have name: "drop 12 ?msg = wire ls @ 0 # [0, 1, 0, 1] @ extra" using assms(7) by simp
  have flags: "f1 AND 0x80 = 0" "f1 AND 0x78 = 0"
  proof -
    have "f1 AND 0x80 = (f1 AND 0xF8) AND 0x80" "f1 AND 0x78 = (f1 AND 0xF8) AND 0x78" by (simp_all add: and.assoc)
    with assms(8) show "f1 AND 0x80 = 0" "f1 AND 0x78 = 0" by simp_all
  qed
  have cmp: "DnsCompareName d (wire ls @ 0 # [0, 1, 0, 1] @ extra) = Some (if name_matches name ls then 0 else 1)"
    by (rule DnsCompareName_correct [OF assms(4,5,2,3,6) d(1)])
  have cls: "of_le16 [0, 1] = htons 1"
    using le16_of_le16 [of 0 1] of_le16_le16 [of "htons 1" "[]"] net_words(1) by simp
  have msg: "\<not> length ?msg < 12" "?msg ! 2 = f1" "of_le16 ?msg = of_le16 [a, b]"
    using assms(7) by (simp_all add: numeral_2_eq_2)
  show ?thesis
    unfolding DNSS_RecvCb_def DNS_HEADER_size_def name Let_def bstr_wire [OF assms(4)] msg(2,3) cmp
    using msg(1) flags cls answer_reply_bytes [of d "wire ls" a b] error_reply_bytes [of "wire ls" a b] d(2)
    by (simp add: DNS_FLAG1_RESPONSE_def DNS_QUERY_size_def DNS_RRCLASS_IN_def del: of_le16.simps)
qed

text \<open>C21: a server started with a name of up to 31 characters replies to every standard query for an Internet address
  when the reply buffers can be allocated, and nothing is read or written outside a buffer. A question for its own name,
  the written form of the labels asked for being equal to it in either case, is answered with its own address. A question
  whose written form has another length or another character inside a label gets a name error. Only the characters of the
  name at the ends of the labels are not compared (the defect at \<^verbatim>\<open>dns_server.c:65\<close>): a question that differs from
  the name in nothing else is answered too. The reply repeats the transaction number and the question.\<close>

theorem dns_query_answered:
  assumes "DNSS_Start (Some (True, ip)) name True d0 = (DNSS_ERR_SUCCESS, d)" "0 \<notin> set name" "length name \<le> 31"
    and "\<forall>l \<in> set ls. label l" "ls \<noteq> []" "length (wire ls) < 2 ^ 32" "length hdr = 9" "f1 AND 0xF8 = 0"
  shows "let reply = DNSS_RecvCb d True True True ([a, b, f1] @ hdr @ wire ls @ [0, 0, 1, 0, 1] @ extra);
      answer = Some (Some (answer_bytes [a, b] (wire ls) ip));
      name_error = Some (Some (error_bytes [a, b] (wire ls)))
    in (same_name name (dotted ls) \<longrightarrow> reply = answer) \<and>
      (\<not> agrees (inside ls) name (dotted ls) \<longrightarrow> reply = name_error) \<and>
      (agrees (inside ls) name (dotted ls) \<and> \<not> same_name name (dotted ls) \<longrightarrow> reply = answer)"
  using query_reply [OF assms, of a b extra] name_matches_agrees [OF assms(5), of name] same_agrees [of name ls]
  by (simp add: Let_def)

theorem dns_query_witness:
  "DNSS_RecvCb (snd (DNSS_Start (Some (True, 0x0100A8C0)) [0x61, 0x2E, 0x62] True \<lparr>Socket = False, ds_DnsName = [], HostIp = 0\<rparr>))
     True True True ([7, 9, 1] @ replicate 9 0 @ wire [[0x41], [0x62]] @ [0, 0, 1, 0, 1] @ []) =
   Some (Some (answer_bytes [7, 9] (wire [[0x41], [0x62]]) 0x0100A8C0))"
proof -
  let ?n = "[0x61, 0x2E, 0x62] :: bytes"
  let ?d0 = "\<lparr>Socket = False, ds_DnsName = [], HostIp = 0\<rparr>"
  have "DNSS_Start (Some (True, 0x0100A8C0)) ?n True ?d0 = (DNSS_ERR_SUCCESS, snd (DNSS_Start (Some (True, 0x0100A8C0)) ?n True ?d0))"
    by (simp add: DNSS_Start_def)
  from dns_query_answered [OF this, of "[[0x41], [0x62]]" "replicate 9 0" 1 7 9 "[]"]
  show ?thesis by (simp add: label_def Nst_ToUpper_def same_name_def)
qed

end
