(* ===== verification/Socket_Com.thy ===== *)
theory Socket_Com
  imports Uart_Rx "HOL-Library.Multiset"
begin

text \<open>
  The two threads that move data between the serial buffers and the network (\<^verbatim>\<open>App/SerialNet/socketCom.c\<close>):
  \<^verbatim>\<open>SendThread\<close> with \<^verbatim>\<open>UDPSendTask\<close> and \<^verbatim>\<open>TCPSendTask\<close>, \<^verbatim>\<open>RecvThread\<close> with \<^verbatim>\<open>UDPRecvTask\<close> and \<^verbatim>\<open>TCPRecvTask\<close>. Each thread is a
  program counter; a turn runs it from one point where it may lose the processor (a delay, a blocking socket call)
  to the next. The results of the socket calls a turn makes are arguments. Descriptors obtained from
  \<^verbatim>\<open>socket\<close> and \<^verbatim>\<open>accept\<close> are recorded.
\<close>

section \<open>State\<close>

definition SOCK_CLIENT :: u8 where "SOCK_CLIENT = 0"
definition SOCK_SERVER :: u8 where "SOCK_SERVER = 1"
definition INVALID_TCP_LISTEN :: int where "INVALID_TCP_LISTEN = -22"
definition INVALID_TCP_CONNECT :: int where "INVALID_TCP_CONNECT = -23"
definition INVALID_TCP_SETOPT :: int where "INVALID_TCP_SETOPT = -24"
definition INVALID_BIND :: int where "INVALID_BIND = -30"
definition INVALID_UDP_SOCKET :: int where "INVALID_UDP_SOCKET = -31"
definition INVALID_TCP_SOCKET :: int where "INVALID_TCP_SOCKET = -32"
definition INVALID_SEND :: int where "INVALID_SEND = -33"

text \<open>Where the sender is: in \<^verbatim>\<open>SendThread\<close>, waiting for a connection, at the top of a task's loop, or in the frame
  loop of \<^verbatim>\<open>UDPSendTask\<close> (or in the delay after a failed \<^verbatim>\<open>send\<close> of \<^verbatim>\<open>TCPSendTask\<close>) with the offset of \<^verbatim>\<open>pdata\<close>, \<^verbatim>\<open>data_len\<close> and \<^verbatim>\<open>local_addr\<close>.\<close>

datatype send_pc =
    S_Idle | S_UdpWait u8 | S_Udp u8 | S_UdpSend u8 nat nat sockaddr_in | S_TcpWait u8 | S_Tcp int nat | S_TcpFailed int nat

text \<open>Where the receiver is: in \<^verbatim>\<open>RecvThread\<close>, at the top of the UDP loop (with \<^verbatim>\<open>count\<close>), in \<^verbatim>\<open>recvfrom\<close>, waiting for the
  UART buffer; at the top of the TCP connection loop, in the delay before \<^verbatim>\<open>socket\<close>, in \<^verbatim>\<open>connect\<close>, in \<^verbatim>\<open>select\<close>, in the delay before
  the transfer, at the top of the transfer loop, in
  \<^verbatim>\<open>recv\<close>, waiting for the UART buffer.\<close>

datatype recv_pc =
    R_Idle | R_Udp u8 nat | R_UdpRecv u8 nat | R_UdpDeliver u8 nat string
  | R_TcpOpen u8 | R_TcpSocket u8 | R_TcpConnect | R_TcpSelect | R_TcpReady int | R_Tcp int | R_TcpRecv int | R_TcpDeliver int string

text \<open>\<open>rbuf\<close> is the size of the block \<^verbatim>\<open>recv_data\<close>, \<open>None\<close> for NULL; \<open>tcp_out\<close> what \<^verbatim>\<open>send\<close> was given. Two records of
  the model's own: \<open>opened\<close>, the descriptors the socket layer has handed out, and \<open>lost\<close>, those that were overwritten while open.\<close>

record 'f net_sys = "'f snet" +
  send_at :: send_pc
  recv_at :: recv_pc
  rbuf :: "nat option"
  opened :: "int list"
  tcp_out :: "(int \<times> string) list"
  lost :: "int list"

text \<open>The answers of the socket layer and the heap to the calls of one turn; \<open>r_data\<close> is what a receive call stored,
  \<open>r_from\<close> the address it reports, \<open>r_opts\<close> the results of the calls of \<^verbatim>\<open>setsockopt\<close> in their order.\<close>

record sock_res =
  r_malloc :: bool
  r_socket :: int
  r_opts :: "int list"
  r_bind :: int
  r_listen :: int
  r_connect :: int
  r_select :: int
  r_accept :: int
  r_recv :: int
  r_data :: string
  r_from :: sockaddr_in
  r_send :: int

abbreviation conn :: "('f, 'a) snet_scheme \<Rightarrow> CONN_STATUS" where
  "conn s \<equiv> WifiConnStatus s"

definition upd_conn :: "(CONN_STATUS \<Rightarrow> CONN_STATUS) \<Rightarrow> ('f, 'a) snet_scheme \<Rightarrow> ('f, 'a) snet_scheme" where
  "upd_conn f s = s\<lparr>WifiConnStatus := f (WifiConnStatus s)\<rparr>"

definition err_line :: "int \<Rightarrow> string" where
  "err_line e = ''+ERROR= '' @ dec_of_int e @ nr"

text \<open>\<^verbatim>\<open>if (fd >= 0) { lwip_close(fd); fd = -1; }\<close> for the two descriptors.\<close>

definition close_sockfd :: "('f, 'a) snet_scheme \<Rightarrow> ('f, 'a) snet_scheme" where
  "close_sockfd s =
     (if sockfd (conn s) \<ge> 0 then upd_conn (\<lambda>w. w\<lparr>sockfd := -1\<rparr>) (lwip_close (sockfd (conn s)) s) else s)"

definition close_connectFd :: "('f, 'a) snet_scheme \<Rightarrow> ('f, 'a) snet_scheme" where
  "close_connectFd s =
     (if connectFd (conn s) \<ge> 0 then upd_conn (\<lambda>w. w\<lparr>connectFd := -1\<rparr>) (lwip_close (connectFd (conn s)) s) else s)"

definition drop_frames :: "('f, 'a) snet_scheme \<Rightarrow> ('f, 'a) snet_scheme" where
  "drop_frames s = s\<lparr>uart_recvEnd := 0, uart_rec_len := 0, net_sendStart := 0, net_send_len := 0\<rparr>"

text \<open>One line for each failed \<^verbatim>\<open>setsockopt\<close>.\<close>

definition opt_errors :: "int list \<Rightarrow> ('f, 'a) snet_scheme \<Rightarrow> ('f, 'a) snet_scheme" where
  "opt_errors rs s = fold (\<lambda>r. if r = -1 then printf (err_line INVALID_TCP_SETOPT) else (\<lambda>s. s)) rs s"

section \<open>Receiving\<close>

definition recv_end :: "('f, 'a) net_sys_scheme \<Rightarrow> ('f, 'a) net_sys_scheme" where
  "recv_end s = s\<lparr>recv_at := R_Idle, rbuf := None\<rparr>"

definition udp_end :: "('f, 'a) net_sys_scheme \<Rightarrow> ('f, 'a) net_sys_scheme" where
  "udp_end s = recv_end (close_sockfd (drop_frames (upd_conn (\<lambda>w. w\<lparr>connStatus := CONNECT_STATUS_FAIL\<rparr>) s)))"

definition tcp_end :: "('f, 'a) net_sys_scheme \<Rightarrow> ('f, 'a) net_sys_scheme" where
  "tcp_end s =
     recv_end (close_sockfd (close_connectFd (drop_frames (upd_conn (\<lambda>w. w\<lparr>connStatus := CONNECT_STATUS_FAIL\<rparr>) s))))"

definition new_sockfd :: "int \<Rightarrow> ('f, 'a) net_sys_scheme \<Rightarrow> ('f, 'a) net_sys_scheme" where
  "new_sockfd fd s = (upd_conn (\<lambda>w. w\<lparr>sockfd := fd\<rparr>) s)\<lparr>opened := opened s @ (if fd \<ge> 0 then [fd] else [])\<rparr>"

definition IPADDR_ANY :: u32 where "IPADDR_ANY = 0"

text \<open>\<^verbatim>\<open>UDPRecvTask\<close> up to its loop.\<close>

definition UDPRecv_start :: "sock_res \<Rightarrow> u8 \<Rightarrow> ('f, 'a) net_sys_scheme \<Rightarrow> ('f, 'a) net_sys_scheme" where
  "UDPRecv_start r type s0 =
     (let s = new_sockfd (r_socket r) (s0\<lparr>rbuf := if r_malloc r then Some (unat (g_RecvBufSize s0)) else None\<rparr>);
          port = htons (ws_socketPort (conn s));
          hello = printf (''UDP '' @ (if type = SOCK_CLIENT then ''client'' else ''server'') @
            '' Waiting/Connecting on port '' @ dec_of_nat (unat (ws_socketPort (conn s))) @ ''...'' @ [LF])
      in if r_socket r = -1 then udp_end (printf (err_line INVALID_UDP_SOCKET) s)
         else if type = SOCK_CLIENT then
           (hello (upd_conn (\<lambda>w. w\<lparr>connStatus := CONNECT_STATUS_OK\<rparr>)
             (opt_errors (r_opts r) (upd_conn (\<lambda>w. w\<lparr>server_addr := (remoteIp w, port)\<rparr>) s))))\<lparr>recv_at := R_Udp type 0\<rparr>
         else if type = SOCK_SERVER then
           let s1 = opt_errors (r_opts r) (upd_conn (\<lambda>w. w\<lparr>server_addr := (IPADDR_ANY, port)\<rparr>) s)
           in if r_bind r = -1 then udp_end (printf (err_line INVALID_BIND) s1)
              else (hello s1)\<lparr>recv_at := R_Udp type 0\<rparr>
         else (hello s)\<lparr>recv_at := R_Udp type 0\<rparr>)"

text \<open>A receive call stored at most the size it was given and the task then writes a terminator behind the data;
  \<open>None\<close> when that, or the data, lies outside the block.\<close>

definition recv_store_data :: "nat option \<Rightarrow> int \<Rightarrow> string \<Rightarrow> string option" where
  "recv_store_data buf n d = (case buf of Some sz \<Rightarrow> if nat n < sz then Some (take (nat n) d) else None | None \<Rightarrow> None)"

definition UDPRecv_turn :: "u8 \<Rightarrow> nat \<Rightarrow> ('f, 'a) net_sys_scheme \<Rightarrow> ('f, 'a) net_sys_scheme" where
  "UDPRecv_turn type cnt s =
     (if atMode (UserParam s) = DATA_MODE then
        if sockfd (conn s) \<noteq> -1 then s\<lparr>recv_at := R_UdpRecv type cnt\<rparr> else udp_end s
      else udp_end (close_sockfd s))"

text \<open>After \<^verbatim>\<open>recvfrom\<close> came back.\<close>

definition UDPRecv_data :: "sock_res \<Rightarrow> u8 \<Rightarrow> nat \<Rightarrow> ('f, 'a) net_sys_scheme \<Rightarrow> ('f, 'a) net_sys_scheme option" where
  "UDPRecv_data r type cnt s =
     (if r_recv r \<le> 0 then
        if atMode (UserParam s) = AT_MODE then Some (udp_end (close_sockfd s))
        else Some (s\<lparr>recv_at := R_Udp type cnt\<rparr>)
      else do {
        d \<leftarrow> recv_store_data (rbuf s) (r_recv r) (r_data r);
        let s1 = upd_conn (\<lambda>w. w\<lparr>client_addr := r_from r\<rparr>) s;
        Some (if type = SOCK_SERVER \<and> cnt = 0 then
                (upd_conn (\<lambda>w. w\<lparr>connStatus := CONNECT_STATUS_OK\<rparr>) s1)\<lparr>recv_at := R_UdpDeliver type 1 d\<rparr>
              else s1\<lparr>recv_at := R_UdpDeliver type cnt d\<rparr>)
      })"

text \<open>The wait for the UART buffer; \<open>next\<close> is where the task goes on.\<close>

definition deliver :: "string \<Rightarrow> recv_pc \<Rightarrow> ('f, 'a) net_sys_scheme \<Rightarrow> ('f, 'a) net_sys_scheme option" where
  "deliver d next s =
     (if uart_sendStart s = 0 \<and> uart_hasData s = 0 then
        do {
          b \<leftarrow> buf_write (uart_send_data s) 0 d;
          Some (s\<lparr>uart_send_data := b, uart_send_len := of_nat (length d), uart_hasData := 1, recv_at := next\<rparr>)
        }
      else Some s)"

text \<open>\<^verbatim>\<open>TCPRecvTask\<close>: a turn of the connection loop up to the delay, and on to its blocking call.\<close>

definition TCPRecv_open :: "u8 \<Rightarrow> ('f, 'a) net_sys_scheme \<Rightarrow> ('f, 'a) net_sys_scheme" where
  "TCPRecv_open type s =
     (if atMode (UserParam s) = DATA_MODE then (close_sockfd s)\<lparr>recv_at := R_TcpSocket type\<rparr> else tcp_end s)"

definition TCPRecv_socket :: "sock_res \<Rightarrow> u8 \<Rightarrow> ('f, 'a) net_sys_scheme \<Rightarrow> ('f, 'a) net_sys_scheme" where
  "TCPRecv_socket r type s0 =
     (let s = new_sockfd (r_socket r) s0;
          port = htons (ws_socketPort (conn s)); port_text = dec_of_nat (unat (ws_socketPort (conn s)))
      in if r_socket r = -1 then tcp_end (printf (err_line INVALID_TCP_SOCKET) s)
         else if type = SOCK_CLIENT then
           (printf (''TCP client connecting on port '' @ port_text @ ''...'' @ [LF]) (opt_errors (r_opts r)
             (upd_conn (\<lambda>w. w\<lparr>server_addr := (remoteIp w, port)\<rparr>) s)))\<lparr>recv_at := R_TcpConnect\<rparr>
         else if type = SOCK_SERVER then
           let s1 = opt_errors (r_opts r) (upd_conn (\<lambda>w. w\<lparr>server_addr := (IPADDR_ANY, port)\<rparr>) s)
           in if r_bind r = -1 then (printf (err_line INVALID_BIND) s1)\<lparr>recv_at := R_TcpOpen type\<rparr>
              else if r_listen r = -1 then (printf (err_line INVALID_TCP_LISTEN) s1)\<lparr>recv_at := R_TcpOpen type\<rparr>
              else (printf (''TCP server waiting on port '' @ port_text @ ''...'' @ [LF]) s1)\<lparr>recv_at := R_TcpSelect\<rparr>
         else s\<lparr>recv_at := R_TcpOpen type\<rparr>)"

text \<open>The connection is made: after a delay with the descriptor in hand the sender is released.\<close>

definition connected :: "int \<Rightarrow> ('f, 'a) net_sys_scheme \<Rightarrow> ('f, 'a) net_sys_scheme" where
  "connected fd s = (upd_conn (\<lambda>w. w\<lparr>connStatus := CONNECT_STATUS_OK\<rparr>) s)\<lparr>recv_at := R_Tcp fd\<rparr>"

definition TCPRecv_connect :: "sock_res \<Rightarrow> ('f, 'a) net_sys_scheme \<Rightarrow> ('f, 'a) net_sys_scheme" where
  "TCPRecv_connect r s =
     (if r_connect r = -1 then (printf (err_line INVALID_TCP_CONNECT) s)\<lparr>recv_at := R_TcpOpen SOCK_CLIENT\<rparr>
      else if atMode (UserParam s) \<noteq> DATA_MODE then s\<lparr>recv_at := R_TcpReady (sockfd (conn s))\<rparr>
      else (printf (''+OK:Connected Server'' @ [LF]) s)\<lparr>recv_at := R_TcpReady (sockfd (conn s))\<rparr>)"

definition TCPRecv_select :: "sock_res \<Rightarrow> ('f, 'a) net_sys_scheme \<Rightarrow> ('f, 'a) net_sys_scheme" where
  "TCPRecv_select r s =
     (if r_select r = -1 then tcp_end (printf (''error'' @ nr) s)
      else if r_select r = 0 then s\<lparr>recv_at := R_TcpOpen SOCK_SERVER\<rparr>
      else
        let s1 = (upd_conn (\<lambda>w. w\<lparr>connectFd := r_accept r, client_addr := r_from r\<rparr>) s)
                   \<lparr>opened := opened s @ (if r_accept r \<ge> 0 then [r_accept r] else [])\<rparr>
        in (printf (''+OK:DEV Connected'' @ nr) (opt_errors (r_opts r) s1))\<lparr>recv_at := R_TcpReady (r_accept r)\<rparr>)"

definition TCPRecv_turn :: "int \<Rightarrow> ('f, 'a) net_sys_scheme \<Rightarrow> ('f, 'a) net_sys_scheme" where
  "TCPRecv_turn fd s =
     (if atMode (UserParam s) = DATA_MODE \<and> fd \<noteq> -1 \<and> connStatus (conn s) \<noteq> CONNECT_STATUS_FAIL then
        s\<lparr>recv_at := R_TcpRecv fd\<rparr>
      else tcp_end s)"

definition TCPRecv_data :: "sock_res \<Rightarrow> int \<Rightarrow> ('f, 'a) net_sys_scheme \<Rightarrow> ('f, 'a) net_sys_scheme option" where
  "TCPRecv_data r fd s =
     (if r_recv r \<le> 0 then
        if atMode (UserParam s) = AT_MODE \<or> r_recv r = 0 then Some (tcp_end s)
        else Some (s\<lparr>recv_at := R_Tcp fd\<rparr>)
      else do {
        d \<leftarrow> recv_store_data (rbuf s) (r_recv r) (r_data r);
        Some ((upd_conn (\<lambda>w. w\<lparr>connStatus := CONNECT_STATUS_OK\<rparr>) s)\<lparr>recv_at := R_TcpDeliver fd d\<rparr>)
      })"

text \<open>The dispatch of \<^verbatim>\<open>RecvThread\<close> and all of its points.\<close>

definition RecvThread_idle :: "sock_res \<Rightarrow> ('f, 'a) net_sys_scheme \<Rightarrow> ('f, 'a) net_sys_scheme" where
  "RecvThread_idle r s =
     (let type = ws_socketType (conn s)
      in if link_status s = SYS_EVT_LINK_UP \<and> atMode (UserParam s) = DATA_MODE \<and> (type = SOCK_CLIENT \<or> type = SOCK_SERVER) then
           if ws_socketProtocol (conn s) = 0 then UDPRecv_start r type s
           else if ws_socketProtocol (conn s) = 1 then
             s\<lparr>rbuf := if r_malloc r then Some (unat (g_RecvBufSize s)) else None, recv_at := R_TcpOpen type\<rparr>
           else s
         else s)"

definition RecvThread_turn :: "sock_res \<Rightarrow> ('f, 'a) net_sys_scheme \<Rightarrow> ('f, 'a) net_sys_scheme option" where
  "RecvThread_turn r s =
     (case recv_at s of
        R_Idle \<Rightarrow> Some (RecvThread_idle r s)
      | R_Udp type cnt \<Rightarrow> Some (UDPRecv_turn type cnt s)
      | R_UdpRecv type cnt \<Rightarrow> UDPRecv_data r type cnt s
      | R_UdpDeliver type cnt d \<Rightarrow> deliver d (R_Udp type cnt) s
      | R_TcpOpen type \<Rightarrow> Some (TCPRecv_open type s)
      | R_TcpSocket type \<Rightarrow> Some (TCPRecv_socket r type s)
      | R_TcpConnect \<Rightarrow> Some (TCPRecv_connect r s)
      | R_TcpSelect \<Rightarrow> Some (TCPRecv_select r s)
      | R_TcpReady fd \<Rightarrow> Some (connected fd s)
      | R_Tcp fd \<Rightarrow> Some (TCPRecv_turn fd s)
      | R_TcpRecv fd \<Rightarrow> TCPRecv_data r fd s
      | R_TcpDeliver fd d \<Rightarrow> deliver d (R_Tcp fd) s)"

section \<open>Sending\<close>

definition UDPSend_turn :: "u8 \<Rightarrow> ('f, 'a) net_sys_scheme \<Rightarrow> ('f, 'a) net_sys_scheme" where
  "UDPSend_turn type s =
     (if atMode (UserParam s) = DATA_MODE then
        if sockfd (conn s) \<noteq> -1 then
          if net_sendStart s = 1 then
            s\<lparr>send_at := S_UdpSend type 0 (unat (net_send_len s))
                (if type = SOCK_CLIENT then server_addr (conn s) else client_addr (conn s))\<rparr>
          else s
        else (drop_frames s)\<lparr>send_at := S_Idle\<rparr>
      else (close_sockfd s)\<lparr>send_at := S_Idle\<rparr>)"

text \<open>One round of the frame loop: \<^verbatim>\<open>sendto\<close> is given at most \<^verbatim>\<open>frameLength\<close> bytes at \<^verbatim>\<open>pdata\<close> and answers with the number of
  bytes it took or a negative number. Reading \<^verbatim>\<open>net_send_data\<close> outside its 1401 bytes is \<open>None\<close>.\<close>

definition UDPSend_frame :: "sock_res \<Rightarrow> u8 \<Rightarrow> nat \<Rightarrow> nat \<Rightarrow> sockaddr_in \<Rightarrow> ('f, 'a) net_sys_scheme \<Rightarrow> ('f, 'a) net_sys_scheme option" where
  "UDPSend_frame r type off len addr s =
     (if len > 0 then
        let n = (if len > unat (frameLength (UserParam s)) then unat (frameLength (UserParam s)) else len)
        in if off + n > length (net_send_data s) then None
           else if r_send r < 0 then Some s
           else Some (s\<lparr>sent := sent s @ [(to_bytes (take (nat (r_send r)) (drop off (net_send_data s))), addr)],
                        send_at := S_UdpSend type (off + nat (r_send r)) (len - nat (r_send r)) addr\<rparr>)
      else Some (s\<lparr>net_sendStart := 0, net_send_len := 0, send_at := S_Udp type\<rparr>))"

definition TCPSend_turn :: "sock_res \<Rightarrow> int \<Rightarrow> nat \<Rightarrow> ('f, 'a) net_sys_scheme \<Rightarrow> ('f, 'a) net_sys_scheme option" where
  "TCPSend_turn r fd FailCnt s =
     (if atMode (UserParam s) = DATA_MODE then
        if fd \<noteq> -1 then
          if connStatus (conn s) = CONNECT_STATUS_FAIL then
            Some ((printf (err_line INVALID_TCP_CONNECT) s)\<lparr>send_at := S_Idle\<rparr>)
          else if net_sendStart s = 1 then
            if unat (net_send_len s) > length (net_send_data s) then None
            else if r_send r < 0 then Some ((printf (err_line INVALID_SEND) s)\<lparr>send_at := S_TcpFailed fd FailCnt\<rparr>)
            else Some (s\<lparr>tcp_out := tcp_out s @ [(fd, take (nat (r_send r)) (take (unat (net_send_len s)) (net_send_data s)))],
                         net_sendStart := 0, net_send_len := 0, send_at := S_Tcp fd 0\<rparr>)
          else Some s
        else Some ((drop_frames s)\<lparr>send_at := S_Idle\<rparr>)
      else Some (s\<lparr>send_at := S_Idle\<rparr>))"

text \<open>After the delay that follows a failed \<^verbatim>\<open>send\<close>.\<close>

definition TCPSend_failed :: "int \<Rightarrow> nat \<Rightarrow> ('f, 'a) net_sys_scheme \<Rightarrow> ('f, 'a) net_sys_scheme" where
  "TCPSend_failed fd FailCnt s =
     (if FailCnt + 1 = 10 then
        (upd_conn (\<lambda>w. w\<lparr>connStatus := CONNECT_STATUS_FAIL\<rparr>) (drop_frames s))\<lparr>send_at := S_Idle\<rparr>
      else s\<lparr>net_sendStart := 0, net_send_len := 0, send_at := S_Tcp fd (FailCnt + 1)\<rparr>)"

definition SendThread_idle :: "('f, 'a) net_sys_scheme \<Rightarrow> ('f, 'a) net_sys_scheme" where
  "SendThread_idle s =
     (let type = ws_socketType (conn s)
      in if link_status s = SYS_EVT_LINK_UP \<and> atMode (UserParam s) = DATA_MODE \<and> (type = SOCK_CLIENT \<or> type = SOCK_SERVER) then
           if ws_socketProtocol (conn s) = 0 then s\<lparr>send_at := S_UdpWait type\<rparr>
           else if ws_socketProtocol (conn s) = 1 then s\<lparr>send_at := S_TcpWait type\<rparr>
           else s
         else s)"

definition SendThread_turn :: "sock_res \<Rightarrow> ('f, 'a) net_sys_scheme \<Rightarrow> ('f, 'a) net_sys_scheme option" where
  "SendThread_turn r s =
     (case send_at s of
        S_Idle \<Rightarrow> Some (SendThread_idle s)
      | S_UdpWait type \<Rightarrow> Some (if connStatus (conn s) = CONNECT_STATUS_FAIL then s else s\<lparr>send_at := S_Udp type\<rparr>)
      | S_Udp type \<Rightarrow> Some (UDPSend_turn type s)
      | S_UdpSend type off len addr \<Rightarrow> UDPSend_frame r type off len addr s
      | S_TcpWait type \<Rightarrow>
          Some (if connStatus (conn s) = CONNECT_STATUS_FAIL then s
                else s\<lparr>send_at := S_Tcp (if type = SOCK_CLIENT then sockfd (conn s) else connectFd (conn s)) 0\<rparr>)
      | S_Tcp fd FailCnt \<Rightarrow> TCPSend_turn r fd FailCnt s
      | S_TcpFailed fd FailCnt \<Rightarrow> Some (TCPSend_failed fd FailCnt s))"

section \<open>Broadcast reception\<close>

definition INVALID_BCTRX_SELECT :: int where "INVALID_BCTRX_SELECT = -49"

text \<open>A round of \<^verbatim>\<open>BCTRecvThread\<close>; the data stops at the first NUL when it is printed.\<close>

definition BCTRecv_turn :: "sock_res \<Rightarrow> ('f, 'a) snet_scheme \<Rightarrow> ('f, 'a) snet_scheme" where
  "BCTRecv_turn r s =
     (let b = broadcast_status s
      in if rx_status b = 1 \<and> link_status s = SYS_EVT_LINK_UP then
           if rx_sockfd b > 0 then s
           else if r_select r < 0 then printf (''+ERROR='' @ dec_of_int INVALID_BCTRX_SELECT @ nr) s
           else if r_select r = 0 then s
           else if r_recv r > 0 then
             printf (''+BRX:len='' @ dec_of_int (r_recv r) @ '','' @ cstr (take (nat (r_recv r)) (r_data r) @ [NUL]) @ nr)
               (s\<lparr>broadcast_status := b\<lparr>rx_client_addr := r_from r\<rparr>\<rparr>)
           else s
         else s)"

end
