(* ===== verification/Socket_Inv.thy ===== *)
theory Socket_Inv
  imports Socket_Com Sys_Events
begin

text \<open>
  Every interleaving of the two network threads with the receive interrupt, the frame timer, the UART sender and the switch
  to command mode: descriptors are not closed twice and are lost only by \<^verbatim>\<open>AT+QUIT\<close>, the connection counts as open only while
  the receiver transfers data, and a buffer is exceeded in one way only: a receive call that fills its buffer, or is given none.
\<close>

section \<open>The invariant\<close>

definition held :: "('f, 'a) snet_scheme \<Rightarrow> int multiset" where
  "held s = (if sockfd (conn s) \<ge> 0 then {#sockfd (conn s)#} else {#}) +
     (if connectFd (conn s) \<ge> 0 then {#connectFd (conn s)#} else {#})"

definition fd_ok :: "int multiset \<Rightarrow> ('f, 'a) net_sys_scheme \<Rightarrow> bool" where
  "fd_ok C s \<longleftrightarrow> mset (closed s) + held s + mset (lost s) = C + mset (opened s) \<and> sockfd (conn s) \<ge> -1 \<and> connectFd (conn s) \<ge> -1"

text \<open>What each point of the receiver says about the descriptors and the status.\<close>

fun transferring :: "recv_pc \<Rightarrow> bool" where
  "transferring (R_Udp t n) = True"
| "transferring (R_UdpRecv t n) = True"
| "transferring (R_UdpDeliver t n d) = True"
| "transferring (R_Tcp fd) = True"
| "transferring (R_TcpRecv fd) = True"
| "transferring (R_TcpDeliver fd d) = True"
| "transferring _ = False"

fun tcp_transfer :: "recv_pc \<Rightarrow> bool" where
  "tcp_transfer (R_TcpReady fd) = True"
| "tcp_transfer (R_Tcp fd) = True"
| "tcp_transfer (R_TcpRecv fd) = True"
| "tcp_transfer (R_TcpDeliver fd d) = True"
| "tcp_transfer _ = False"

fun no_socket :: "recv_pc \<Rightarrow> bool" where
  "no_socket R_Idle = True"
| "no_socket (R_TcpSocket t) = True"
| "no_socket _ = False"

lemma transferring_socket: "transferring p \<Longrightarrow> \<not> no_socket p"
  by (cases p) simp_all

definition pc_ok :: "('f, 'a) net_sys_scheme \<Rightarrow> bool" where
  "pc_ok s \<longleftrightarrow> (no_socket (recv_at s) \<longrightarrow> sockfd (conn s) = -1) \<and> (\<not> tcp_transfer (recv_at s) \<longrightarrow> connectFd (conn s) = -1) \<and>
     (connStatus (conn s) \<noteq> CONNECT_STATUS_FAIL \<longrightarrow> transferring (recv_at s))"

fun pending :: "recv_pc \<Rightarrow> string" where
  "pending (R_UdpDeliver t n d) = d"
| "pending (R_TcpDeliver fd d) = d"
| "pending _ = []"

text \<open>The receive block has the size a receive call is given, unless its allocation failed.\<close>

definition recv_buf_ok :: "nat \<Rightarrow> nat option \<Rightarrow> recv_pc \<Rightarrow> bool" where
  [simp]: "recv_buf_ok g b p \<longleftrightarrow> (b = None \<or> b = Some g) \<and> length (pending p) \<le> 1400"

fun send_buf_ok :: "send_pc \<Rightarrow> bool" where
  "send_buf_ok (S_UdpSend t off len a) = (off + len \<le> 1400)"
| "send_buf_ok _ = True"

definition buf_ok :: "('f, 'a) net_sys_scheme \<Rightarrow> bool" where
  "buf_ok s \<longleftrightarrow> rx_ok s \<and> unat (net_send_len s) \<le> 1400 \<and> unat (g_RecvBufSize s) \<le> 1400 \<and>
     recv_buf_ok (unat (g_RecvBufSize s)) (rbuf s) (recv_at s) \<and> send_buf_ok (send_at s)"

definition net_ok :: "int multiset \<Rightarrow> ('f, 'a) net_sys_scheme \<Rightarrow> bool" where
  "net_ok C s \<longleftrightarrow> fd_ok C s \<and> pc_ok s \<and> buf_ok s"

text \<open>What the socket layer guarantees: descriptors are -1 or not negative, a receive call stores at most the bytes it was
  asked for, a send call takes at most what it is given.\<close>

definition res_ok :: "('f, 'a) net_sys_scheme \<Rightarrow> sock_res \<Rightarrow> bool" where
  "res_ok s r \<longleftrightarrow> r_socket r \<ge> -1 \<and> r_accept r \<ge> -1 \<and> r_recv r \<le> int (unat (g_RecvBufSize s)) \<and>
     (case send_at s of S_UdpSend t off len a \<Rightarrow> r_send r \<le> int len | _ \<Rightarrow> True)"

text \<open>The receive call that goes wrong: it returns data into a block that was not allocated, or as many bytes as the block
  has, and the task writes a terminator behind them.\<close>

fun receiving :: "recv_pc \<Rightarrow> bool" where
  "receiving (R_UdpRecv t n) = True"
| "receiving (R_TcpRecv fd) = True"
| "receiving _ = False"

definition overrun :: "('f, 'a) net_sys_scheme \<Rightarrow> sock_res \<Rightarrow> bool" where
  "overrun s r \<longleftrightarrow> receiving (recv_at s) \<and> 0 < r_recv r \<and>
     (rbuf s = None \<or> r_recv r \<ge> int (unat (g_RecvBufSize s)))"

section \<open>Parts\<close>

lemma closing [simp]:
  "sockfd (conn (close_sockfd s)) = (if sockfd (conn s) \<ge> 0 then -1 else sockfd (conn s))"
  "connectFd (conn (close_sockfd s)) = connectFd (conn s)" "connStatus (conn (close_sockfd s)) = connStatus (conn s)"
  "connectFd (conn (close_connectFd s)) = (if connectFd (conn s) \<ge> 0 then -1 else connectFd (conn s))"
  "sockfd (conn (close_connectFd s)) = sockfd (conn s)" "connStatus (conn (close_connectFd s)) = connStatus (conn s)"
  by (simp_all add: close_sockfd_def close_connectFd_def upd_conn_def lwip_close_def)

lemma closed_held [simp]:
  "mset (closed (close_sockfd s)) + held (close_sockfd s) = mset (closed s) + held s"
  "mset (closed (close_connectFd s)) + held (close_connectFd s) = mset (closed s) + held s"
  by (auto simp: close_sockfd_def close_connectFd_def upd_conn_def lwip_close_def held_def)

text \<open>The fields the invariant reads, apart from the connection.\<close>

definition same_bufs :: "('f, 'a) net_sys_scheme \<Rightarrow> ('f, 'a) net_sys_scheme \<Rightarrow> bool" where
  "same_bufs s s' \<longleftrightarrow> uart_rec_data s' = uart_rec_data s \<and> net_send_data s' = net_send_data s \<and>
     uart_send_data s' = uart_send_data s \<and> frameLength (UserParam s') = frameLength (UserParam s) \<and>
     g_RecvBufSize s' = g_RecvBufSize s \<and> send_at s' = send_at s \<and>
     (uart_rec_len s' = uart_rec_len s \<or> uart_rec_len s' = 0) \<and> (net_send_len s' = net_send_len s \<or> net_send_len s' = 0)"

lemma buf_ok_same:
  "buf_ok s \<Longrightarrow> same_bufs s s' \<Longrightarrow> recv_buf_ok (unat (g_RecvBufSize s)) (rbuf s') (recv_at s') \<Longrightarrow> buf_ok s'"
  unfolding buf_ok_def same_bufs_def rx_ok_def by (elim conjE disjE) simp_all

lemma same_bufs_close: "same_bufs s (close_sockfd s')= same_bufs s s'" "same_bufs s (close_connectFd s') = same_bufs s s'"
  "same_bufs s (upd_conn f s') = same_bufs s s'" "same_bufs s (printf t s') = same_bufs s s'"
  by (simp_all add: same_bufs_def close_sockfd_def close_connectFd_def upd_conn_def lwip_close_def printf_def)

lemma opt_errors_fields [simp]:
  "conn (opt_errors rs s) = conn s" "closed (opt_errors rs s) = closed s" "same_bufs s0 (opt_errors rs s) = same_bufs s0 s"
  "rbuf (opt_errors rs s) = rbuf s" "opened (opt_errors rs s) = opened s" "lost (opt_errors rs s) = lost s"
proof -
  let ?f = "\<lambda>r. if r = -1 then printf (err_line INVALID_TCP_SETOPT) else (\<lambda>s. s)"
  have "conn (fold ?f rs s) = conn s \<and> closed (fold ?f rs s) = closed s \<and> same_bufs s0 (fold ?f rs s) = same_bufs s0 s \<and>
      rbuf (fold ?f rs s) = rbuf s \<and> opened (fold ?f rs s) = opened s \<and> lost (fold ?f rs s) = lost s"
    by (induction rs arbitrary: s) (simp_all add: same_bufs_close, simp_all add: printf_def)
  then show "conn (opt_errors rs s) = conn s" "closed (opt_errors rs s) = closed s"
    "same_bufs s0 (opt_errors rs s) = same_bufs s0 s" "rbuf (opt_errors rs s) = rbuf s" "opened (opt_errors rs s) = opened s"
    "lost (opt_errors rs s) = lost s"
    by (simp_all add: opt_errors_def)
qed

lemma fd_ok_cong:
  "closed s' = closed s \<Longrightarrow> opened s' = opened s \<Longrightarrow> lost s' = lost s \<Longrightarrow> sockfd (conn s') = sockfd (conn s) \<Longrightarrow>
     connectFd (conn s') = connectFd (conn s) \<Longrightarrow> fd_ok C s' = fd_ok C s"
  by (simp add: fd_ok_def held_def)

lemma fd_ok_close [simp]: "fd_ok C s \<Longrightarrow> fd_ok C (close_sockfd s)" "fd_ok C s \<Longrightarrow> fd_ok C (close_connectFd s)"
proof -
  have "opened (close_sockfd s) = opened s" "opened (close_connectFd s) = opened s"
    "lost (close_sockfd s) = lost s" "lost (close_connectFd s) = lost s"
    by (simp_all add: close_sockfd_def close_connectFd_def upd_conn_def lwip_close_def)
  then show "fd_ok C s \<Longrightarrow> fd_ok C (close_sockfd s)" "fd_ok C s \<Longrightarrow> fd_ok C (close_connectFd s)"
    by (simp_all add: fd_ok_def)
qed

lemma fd_ok_keep [simp]:
  "fd_ok C (printf t s) = fd_ok C s" "fd_ok C (recv_end s) = fd_ok C s" "fd_ok C (drop_frames s) = fd_ok C s"
  "fd_ok C (upd_conn (\<lambda>w. w\<lparr>connStatus := x\<rparr>) s) = fd_ok C s" "fd_ok C (upd_conn (\<lambda>w. w\<lparr>server_addr := a\<rparr>) s) = fd_ok C s"
  "fd_ok C (upd_conn (\<lambda>w. w\<lparr>client_addr := b\<rparr>) s) = fd_ok C s" "fd_ok C (s\<lparr>recv_at := p\<rparr>) = fd_ok C s"
  "fd_ok C (s\<lparr>rbuf := q\<rparr>) = fd_ok C s" "fd_ok C (opt_errors rs s) = fd_ok C s" "fd_ok C (connected fd s) = fd_ok C s"
  "fd_ok C (s\<lparr>send_at := y\<rparr>) = fd_ok C s" "fd_ok C (s\<lparr>net_sendStart := e\<rparr>) = fd_ok C s" "fd_ok C (s\<lparr>net_send_len := f\<rparr>) = fd_ok C s"
  "fd_ok C (s\<lparr>sent := g\<rparr>) = fd_ok C s" "fd_ok C (s\<lparr>tcp_out := h\<rparr>) = fd_ok C s"
  "fd_ok C (upd_conn (\<lambda>w. w\<lparr>server_addr := (remoteIp w, z)\<rparr>) s) = fd_ok C s"
  by (rule fd_ok_cong; simp add: printf_def recv_end_def drop_frames_def upd_conn_def connected_def)+

lemma conn_simps [simp]:
  "conn (printf t s) = conn s" "conn (recv_end t') = conn t'" "conn (drop_frames s) = conn s"
  "conn (upd_conn f s) = f (conn s)"
  by (simp_all add: printf_def recv_end_def drop_frames_def upd_conn_def)

lemma same_bufs_refl [simp]: "same_bufs s s"
  by (simp add: same_bufs_def)

lemma same_bufs_more [simp]:
  "same_bufs s (s'\<lparr>recv_at := p\<rparr>) = same_bufs s s'" "same_bufs s (s'\<lparr>rbuf := q\<rparr>) = same_bufs s s'"
  "same_bufs s (s'\<lparr>opened := o'\<rparr>) = same_bufs s s'" "same_bufs s (recv_end s') = same_bufs s s'"
  "same_bufs s s' \<Longrightarrow> same_bufs s (drop_frames s')"
  by (auto simp: same_bufs_def recv_end_def drop_frames_def)

lemmas same_bufs_simps [simp] = same_bufs_close

lemma at_end [simp]: "recv_at (recv_end s) = R_Idle" "rbuf (recv_end s) = None"
  by (simp_all add: recv_end_def)

lemma net_okI:
  assumes "buf_ok s" "fd_ok C s'" "same_bufs s s'" "recv_buf_ok (unat (g_RecvBufSize s)) (rbuf s') (recv_at s')" "pc_ok s'"
  shows "net_ok C s'"
  using assms buf_ok_same unfolding net_ok_def by blast

lemma fd_range: "fd_ok C s \<Longrightarrow> sockfd (conn s) < 0 \<longleftrightarrow> sockfd (conn s) = -1" "fd_ok C s \<Longrightarrow> connectFd (conn s) < 0 \<longleftrightarrow> connectFd (conn s) = -1"
  unfolding fd_ok_def by auto

lemma udp_end_ok:
  assumes "buf_ok s0" "fd_ok C s" "same_bufs s0 s" "connectFd (conn s) = -1"
  shows "net_ok C (udp_end s)"
  by (rule net_okI [OF assms(1)]) (use assms fd_range [OF assms(2)] in \<open>auto simp: udp_end_def pc_ok_def\<close>)

lemma tcp_end_ok:
  assumes "buf_ok s0" "fd_ok C s" "same_bufs s0 s"
  shows "net_ok C (tcp_end s)"
  by (rule net_okI [OF assms(1)]) (use assms fd_range [OF assms(2)] in \<open>auto simp: tcp_end_def pc_ok_def\<close>)

text \<open>A new descriptor for a closed one.\<close>

lemma new_sockfd_ok:
  assumes "fd_ok C s" "sockfd (conn s) < 0" "fd \<ge> -1"
  shows "fd_ok C (new_sockfd fd s)"
  using assms by (auto simp: fd_ok_def held_def new_sockfd_def upd_conn_def)

lemma new_sockfd_fields [simp]:
  "sockfd (conn (new_sockfd fd s)) = fd" "connectFd (conn (new_sockfd fd s)) = connectFd (conn s)"
  "connStatus (conn (new_sockfd fd s)) = connStatus (conn s)" "same_bufs s0 (new_sockfd fd s) = same_bufs s0 s"
  "rbuf (new_sockfd fd s) = rbuf s"
  by (simp_all add: new_sockfd_def upd_conn_def same_bufs_def)

lemma rbuf_simps [simp]:
  "rbuf (printf t s) = rbuf s" "rbuf (upd_conn f s) = rbuf s" "rbuf (close_sockfd s) = rbuf s" "rbuf (drop_frames s) = rbuf s"
  by (simp_all add: printf_def upd_conn_def close_sockfd_def lwip_close_def drop_frames_def)

lemma UDPRecv_start_ok:
  assumes "net_ok C s" "recv_at s = R_Idle" "res_ok s r" "type = SOCK_CLIENT \<or> type = SOCK_SERVER"
  shows "net_ok C (UDPRecv_start r type s)"
proof -
  have s: "fd_ok C s" "buf_ok s" "sockfd (conn s) = -1" "connectFd (conn s) = -1" "connStatus (conn s) = CONNECT_STATUS_FAIL"
    using assms(1,2) by (auto simp: net_ok_def pc_ok_def)
  have r: "r_socket r \<ge> -1" using assms(3) by (simp_all add: res_ok_def)
  define s1 where "s1 = new_sockfd (r_socket r) (s\<lparr>rbuf := if r_malloc r then Some (unat (g_RecvBufSize s)) else None\<rparr>)"
  have s1: "fd_ok C s1" "same_bufs s s1" "rbuf s1 = None \<or> rbuf s1 = Some (unat (g_RecvBufSize s))" "connectFd (conn s1) = -1"
      "connStatus (conn s1) = CONNECT_STATUS_FAIL"
    using s r by (simp_all add: s1_def new_sockfd_ok)
  have fail: "net_ok C (udp_end (printf t s1))"
      "net_ok C (udp_end (printf t (opt_errors rs (upd_conn (\<lambda>w. w\<lparr>server_addr := a\<rparr>) s1))))" for t rs a
    by (rule udp_end_ok [OF s(2)]; use s1 in simp)+
  have go: "net_ok C ((printf t (upd_conn (\<lambda>w. w\<lparr>connStatus := CONNECT_STATUS_OK\<rparr>)
        (opt_errors rs (upd_conn (\<lambda>w. w\<lparr>server_addr := (remoteIp w, p)\<rparr>) s1))))\<lparr>recv_at := R_Udp type 0\<rparr>)"
      "net_ok C ((printf t (opt_errors rs (upd_conn (\<lambda>w. w\<lparr>server_addr := a\<rparr>) s1)))\<lparr>recv_at := R_Udp type 0\<rparr>)" for t rs p a
    by (rule net_okI [OF s(2)]; use s1 in \<open>simp add: pc_ok_def\<close>)+
  show ?thesis
    unfolding UDPRecv_start_def Let_def s1_def [symmetric] using assms(4)
    by (simp only: fail go split: if_split) blast
qed

lemma RecvThread_idle_ok:
  assumes "net_ok C s" "recv_at s = R_Idle" "res_ok s r"
  shows "net_ok C (RecvThread_idle r s)"
proof -
  have s: "fd_ok C s" "buf_ok s" "connectFd (conn s) = -1" "connStatus (conn s) = CONNECT_STATUS_FAIL"
    using assms(1,2) by (auto simp: net_ok_def pc_ok_def)
  have "net_ok C (s\<lparr>rbuf := if r_malloc r then Some (unat (g_RecvBufSize s)) else None, recv_at := R_TcpOpen t\<rparr>)" for t
    by (rule net_okI [OF s(2)]) (use s assms(3) in \<open>simp_all add: pc_ok_def res_ok_def\<close>)
  then show ?thesis
    unfolding RecvThread_idle_def Let_def using UDPRecv_start_ok [OF assms] assms(1) by simp
qed

lemma UDPRecv_turn_ok:
  assumes "net_ok C s" "recv_at s = R_Udp type n"
  shows "net_ok C (UDPRecv_turn type n s)"
proof -
  have s: "fd_ok C s" "buf_ok s" "pc_ok s" "connectFd (conn s) = -1" "rbuf s = None \<or> rbuf s = Some (unat (g_RecvBufSize s))"
    using assms by (auto simp: net_ok_def pc_ok_def buf_ok_def)
  have "net_ok C (s\<lparr>recv_at := R_UdpRecv type n\<rparr>)"
    by (rule net_okI [OF s(2)]) (use s in \<open>simp_all add: pc_ok_def\<close>)
  with s show ?thesis unfolding UDPRecv_turn_def by (auto intro!: udp_end_ok [OF s(2)])
qed

lemma recv_store_data_ok:
  "buf = None \<or> buf = Some g \<Longrightarrow> 0 < n \<Longrightarrow>
     (if buf = None \<or> n \<ge> int g then recv_store_data buf n d' = None
      else \<exists>d. recv_store_data buf n d' = Some d \<and> length d < g)"
  by (auto simp: recv_store_data_def)

lemma UDPRecv_data_ok:
  assumes "net_ok C s" "recv_at s = R_UdpRecv type n" "res_ok s r"
  shows "if overrun s r then UDPRecv_data r type n s = None else \<exists>s'. UDPRecv_data r type n s = Some s' \<and> net_ok C s'"
proof -
  have s: "fd_ok C s" "buf_ok s" "pc_ok s" "connectFd (conn s) = -1" "rbuf s = None \<or> rbuf s = Some (unat (g_RecvBufSize s))"
      "unat (g_RecvBufSize s) \<le> 1400"
    using assms by (auto simp: net_ok_def pc_ok_def buf_ok_def)
  show ?thesis
  proof (cases "r_recv r \<le> 0")
    case True
    have "net_ok C (s\<lparr>recv_at := R_Udp type n\<rparr>)" by (rule net_okI [OF s(2)]) (use s in \<open>simp_all add: pc_ok_def\<close>)
    moreover have "net_ok C (udp_end (close_sockfd s))" by (rule udp_end_ok [OF s(2)]) (use s in simp_all)
    ultimately show ?thesis using True by (simp add: UDPRecv_data_def overrun_def)
  next
    case False
    note st = recv_store_data_ok [OF s(5), of "r_recv r" "r_data r"]
    show ?thesis
    proof (cases "overrun s r")
      case True
      with False st show ?thesis by (simp add: UDPRecv_data_def overrun_def)
    next
      case no: False
      with False st assms(2) obtain d where d: "recv_store_data (rbuf s) (r_recv r) (r_data r) = Some d" "length d < unat (g_RecvBufSize s)"
        by (auto simp: overrun_def split: if_splits)
      have "net_ok C ((upd_conn (\<lambda>w. w\<lparr>connStatus := CONNECT_STATUS_OK\<rparr>) (upd_conn (\<lambda>w. w\<lparr>client_addr := r_from r\<rparr>) s))
          \<lparr>recv_at := R_UdpDeliver type 1 d\<rparr>)" "net_ok C ((upd_conn (\<lambda>w. w\<lparr>client_addr := r_from r\<rparr>) s)\<lparr>recv_at := R_UdpDeliver type n d\<rparr>)"
        by (rule net_okI [OF s(2)]; use s d(2) in \<open>simp add: pc_ok_def\<close>)+
      with no False d(1) show ?thesis by (cases "type = SOCK_SERVER") (simp_all add: UDPRecv_data_def Let_def)
    qed
  qed
qed

lemma deliver_ok:
  assumes "net_ok C s" "length d \<le> 1400" "pending next = []" "recv_at s = at"
    and "transferring at" "tcp_transfer at = tcp_transfer next" "transferring next"
  shows "\<exists>s'. deliver d next s = Some s' \<and> net_ok C s'"
proof (cases "uart_sendStart s = 0 \<and> uart_hasData s = 0")
  case True
  have s: "fd_ok C s" "buf_ok s" "pc_ok s" "length (uart_send_data s) = 1401" using assms(1) by (auto simp: net_ok_def buf_ok_def rx_ok_def)
  let ?b = "d @ drop (length d) (uart_send_data s)"
  let ?s = "s\<lparr>uart_send_data := ?b, uart_send_len := of_nat (length d), uart_hasData := 1, recv_at := next\<rparr>"
  have "deliver d next s = Some ?s" using True assms(2) s(4) by (simp add: deliver_def buf_write_def)
  moreover have "fd_ok C ?s \<longleftrightarrow> fd_ok C s" by (rule fd_ok_cong) simp_all
  with s(1) have "fd_ok C ?s" by blast
  moreover have "pc_ok ?s" using s(3) assms(4-7) transferring_socket [OF assms(7)] by (auto simp: pc_ok_def)
  moreover have "buf_ok ?s" using s(2,4) assms(2,3) by (simp add: buf_ok_def rx_ok_def)
  ultimately show ?thesis by (auto simp: net_ok_def)
next
  case False
  then show ?thesis using assms(1) by (auto simp: deliver_def)
qed

lemma TCPRecv_open_ok:
  assumes "net_ok C s" "recv_at s = R_TcpOpen type"
  shows "net_ok C (TCPRecv_open type s)"
proof -
  have s: "fd_ok C s" "buf_ok s" "connectFd (conn s) = -1" "connStatus (conn s) = CONNECT_STATUS_FAIL"
      "rbuf s = None \<or> rbuf s = Some (unat (g_RecvBufSize s))"
    using assms by (auto simp: net_ok_def pc_ok_def buf_ok_def)
  show ?thesis
    unfolding TCPRecv_open_def using s fd_range [OF s(1)]
    by (auto intro!: tcp_end_ok [OF s(2)] net_okI [OF s(2)] simp: pc_ok_def)
qed

lemma TCPRecv_socket_ok:
  assumes "net_ok C s" "recv_at s = R_TcpSocket type" "res_ok s r"
  shows "net_ok C (TCPRecv_socket r type s)"
proof -
  have s: "fd_ok C s" "buf_ok s" "connectFd (conn s) = -1" "connStatus (conn s) = CONNECT_STATUS_FAIL"
      "rbuf s = None \<or> rbuf s = Some (unat (g_RecvBufSize s))" "sockfd (conn s) = -1"
    using assms by (auto simp: net_ok_def pc_ok_def buf_ok_def)
  have r: "r_socket r \<ge> -1" using assms(3) by (simp add: res_ok_def)
  define s1 where "s1 = new_sockfd (r_socket r) s"
  have s1: "fd_ok C s1" "same_bufs s s1" "rbuf s1 = None \<or> rbuf s1 = Some (unat (g_RecvBufSize s))" "connectFd (conn s1) = -1"
      "connStatus (conn s1) = CONNECT_STATUS_FAIL"
    using s r by (simp_all add: s1_def new_sockfd_ok)
  show ?thesis
    unfolding TCPRecv_socket_def Let_def s1_def [symmetric] using s s1
    by (auto intro!: tcp_end_ok [OF s(2)] net_okI [OF s(2)] simp: pc_ok_def)
qed

lemma TCPRecv_connect_ok:
  assumes "net_ok C s" "recv_at s = R_TcpConnect"
  shows "net_ok C (TCPRecv_connect r s)"
proof -
  have s: "fd_ok C s" "buf_ok s" "connectFd (conn s) = -1" "connStatus (conn s) = CONNECT_STATUS_FAIL"
      "rbuf s = None \<or> rbuf s = Some (unat (g_RecvBufSize s))"
    using assms by (auto simp: net_ok_def pc_ok_def buf_ok_def)
  show ?thesis
    unfolding TCPRecv_connect_def using s
    by (auto intro!: net_okI [OF s(2)] simp: pc_ok_def)
qed

lemma TCPRecv_select_ok:
  assumes "net_ok C s" "recv_at s = R_TcpSelect" "res_ok s r"
  shows "net_ok C (TCPRecv_select r s)"
proof -
  have s: "fd_ok C s" "buf_ok s" "connectFd (conn s) = -1" "connStatus (conn s) = CONNECT_STATUS_FAIL"
      "rbuf s = None \<or> rbuf s = Some (unat (g_RecvBufSize s))"
    using assms by (auto simp: net_ok_def pc_ok_def buf_ok_def)
  have r: "r_accept r \<ge> -1" using assms(3) by (simp add: res_ok_def)
  let ?s1 = "(upd_conn (\<lambda>w. w\<lparr>connectFd := r_accept r, client_addr := r_from r\<rparr>) s)
      \<lparr>opened := opened s @ (if r_accept r \<ge> 0 then [r_accept r] else [])\<rparr>"
  have "fd_ok C ?s1" using s(1,3) r by (auto simp: fd_ok_def held_def upd_conn_def)
  then have "net_ok C ((printf (''+OK:DEV Connected'' @ nr) (opt_errors (r_opts r) ?s1))\<lparr>recv_at := R_TcpReady (r_accept r)\<rparr>)"
    by (intro net_okI [OF s(2)]) (use s in \<open>simp_all add: pc_ok_def\<close>)
  moreover have "net_ok C (s\<lparr>recv_at := R_TcpOpen SOCK_SERVER\<rparr>)"
    by (rule net_okI [OF s(2)]) (use s in \<open>simp_all add: pc_ok_def\<close>)
  moreover have "net_ok C (tcp_end (printf (''error'' @ nr) s))" by (rule tcp_end_ok [OF s(2)]) (use s in simp_all)
  ultimately show ?thesis unfolding TCPRecv_select_def Let_def by simp
qed

lemma connected_ok:
  assumes "net_ok C s" "recv_at s = R_TcpReady fd"
  shows "net_ok C (connected fd s)"
proof -
  have s: "fd_ok C s" "buf_ok s" "pc_ok s" "rbuf s = None \<or> rbuf s = Some (unat (g_RecvBufSize s))"
    using assms by (auto simp: net_ok_def buf_ok_def)
  show ?thesis
    by (rule net_okI [OF s(2)]) (use s in \<open>simp_all add: pc_ok_def connected_def\<close>)
qed

lemma TCPRecv_turn_ok:
  assumes "net_ok C s" "recv_at s = R_Tcp fd"
  shows "net_ok C (TCPRecv_turn fd s)"
proof -
  have s: "fd_ok C s" "buf_ok s" "pc_ok s" "rbuf s = None \<or> rbuf s = Some (unat (g_RecvBufSize s))"
    using assms by (auto simp: net_ok_def buf_ok_def)
  show ?thesis
    unfolding TCPRecv_turn_def using s assms(2)
    by (auto intro!: tcp_end_ok [OF s(2)] net_okI [OF s(2)] simp: pc_ok_def)
qed

lemma TCPRecv_data_ok:
  assumes "net_ok C s" "recv_at s = R_TcpRecv fd" "res_ok s r"
  shows "if overrun s r then TCPRecv_data r fd s = None else \<exists>s'. TCPRecv_data r fd s = Some s' \<and> net_ok C s'"
proof -
  have s: "fd_ok C s" "buf_ok s" "pc_ok s" "rbuf s = None \<or> rbuf s = Some (unat (g_RecvBufSize s))" "unat (g_RecvBufSize s) \<le> 1400"
    using assms by (auto simp: net_ok_def buf_ok_def)
  show ?thesis
  proof (cases "r_recv r \<le> 0")
    case True
    have "net_ok C (s\<lparr>recv_at := R_Tcp fd\<rparr>)" by (rule net_okI [OF s(2)]) (use s assms(2) in \<open>simp_all add: pc_ok_def\<close>)
    moreover have "net_ok C (tcp_end s)" by (rule tcp_end_ok [OF s(2)]) (use s in simp_all)
    ultimately show ?thesis using True by (simp add: TCPRecv_data_def overrun_def)
  next
    case False
    note st = recv_store_data_ok [OF s(4), of "r_recv r" "r_data r"]
    show ?thesis
    proof (cases "overrun s r")
      case True
      with False st show ?thesis by (simp add: TCPRecv_data_def overrun_def)
    next
      case no: False
      with False st assms(2) obtain d where d: "recv_store_data (rbuf s) (r_recv r) (r_data r) = Some d" "length d < unat (g_RecvBufSize s)"
        by (auto simp: overrun_def split: if_splits)
      have "net_ok C ((upd_conn (\<lambda>w. w\<lparr>connStatus := CONNECT_STATUS_OK\<rparr>) s)\<lparr>recv_at := R_TcpDeliver fd d\<rparr>)"
        by (rule net_okI [OF s(2)]) (use s d(2) in \<open>simp_all add: pc_ok_def\<close>)
      with no False d(1) show ?thesis by (simp add: TCPRecv_data_def)
    qed
  qed
qed

lemma RecvThread_ok:
  assumes "net_ok C s" "res_ok s r"
  shows "if overrun s r then RecvThread_turn r s = None else \<exists>s'. RecvThread_turn r s = Some s' \<and> net_ok C s'"
proof -
  have b: "length (pending (recv_at s)) \<le> 1400" using assms(1) by (simp add: net_ok_def buf_ok_def)
  show ?thesis
  proof (cases "recv_at s")
    case (R_UdpDeliver t n d)
    with deliver_ok [OF assms(1), of d "R_Udp t n"] b show ?thesis by (simp add: RecvThread_turn_def overrun_def)
  next
    case (R_TcpDeliver fd d)
    with deliver_ok [OF assms(1), of d "R_Tcp fd"] b show ?thesis by (simp add: RecvThread_turn_def overrun_def)
  next
    case (R_UdpRecv t n)
    with UDPRecv_data_ok [OF assms(1) _ assms(2)] show ?thesis by (simp add: RecvThread_turn_def)
  next
    case (R_TcpRecv fd)
    with TCPRecv_data_ok [OF assms(1) _ assms(2)] show ?thesis by (simp add: RecvThread_turn_def)
  qed (use assms RecvThread_idle_ok UDPRecv_turn_ok TCPRecv_open_ok TCPRecv_connect_ok TCPRecv_select_ok
      TCPRecv_turn_ok TCPRecv_socket_ok connected_ok in \<open>simp_all add: RecvThread_turn_def overrun_def\<close>)
qed

section \<open>The sender\<close>

lemma pc_ok_cong: "conn s' = conn s \<Longrightarrow> recv_at s' = recv_at s \<Longrightarrow> pc_ok s' = pc_ok s"
  by (simp add: pc_ok_def)

text \<open>A sender's step: the connection is kept or given up, the buffers keep their sizes.\<close>

lemma sender_ok:
  assumes "net_ok C s" "fd_ok C s'" "recv_at s' = recv_at s" "rbuf s' = rbuf s" "same_bufs s (s'\<lparr>send_at := send_at s\<rparr>)"
    and "send_buf_ok (send_at s')" "sockfd (conn s') = sockfd (conn s) \<or> sockfd (conn s') = -1"
    and "connectFd (conn s') = connectFd (conn s)"
    and "connStatus (conn s') = connStatus (conn s) \<or> connStatus (conn s') = CONNECT_STATUS_FAIL"
  shows "net_ok C s'"
proof -
  have s: "pc_ok s" "buf_ok s" using assms(1) by (auto simp: net_ok_def)
  have "recv_buf_ok (unat (g_RecvBufSize s)) (rbuf s) (recv_at s)" using s(2) by (simp add: buf_ok_def)
  then have "buf_ok (s'\<lparr>send_at := send_at s\<rparr>)" using assms(3-5) by (intro buf_ok_same [OF s(2)]) auto
  then have "buf_ok s'" using assms(6) by (simp add: buf_ok_def rx_ok_def)
  moreover have "pc_ok s'" using s(1) assms(3,7-9) unfolding pc_ok_def by (elim disjE) simp_all
  ultimately show ?thesis using assms(2) by (simp add: net_ok_def)
qed

lemma SendThread_ok:
  assumes "net_ok C s" "res_ok s r"
  shows "\<exists>s'. SendThread_turn r s = Some s' \<and> net_ok C s'"
proof -
  have s: "fd_ok C s" "buf_ok s" "unat (net_send_len s) \<le> 1400" "length (net_send_data s) = 1401"
    using assms(1) by (auto simp: net_ok_def buf_ok_def rx_ok_def)
  have at: "net_ok C (s\<lparr>send_at := p\<rparr>)" if "send_buf_ok p" for p
    by (rule sender_ok [OF assms(1)]) (use s that in simp_all)
  show ?thesis
  proof (cases "send_at s")
    case (S_UdpSend t off len a)
    have o: "off + len \<le> 1400" using s(2) S_UdpSend by (simp add: buf_ok_def)
    have r: "r_send r \<le> int len" using assms(2) S_UdpSend by (simp add: res_ok_def)
    have fin: "net_ok C (s\<lparr>net_sendStart := 0, net_send_len := 0, send_at := S_Udp t\<rparr>)"
      by (rule sender_ok [OF assms(1)]) (use s in \<open>simp_all add: same_bufs_def\<close>)
    have sent: "net_ok C (s\<lparr>sent := x, send_at := S_UdpSend t (off + nat (r_send r)) (len - nat (r_send r)) a\<rparr>)" if "0 \<le> r_send r" for x
      by (rule sender_ok [OF assms(1)]) (use s o r that in \<open>simp_all add: same_bufs_def\<close>)
    have "UDPSend_frame r t off len a s \<noteq> None" using o s(4) by (auto simp: UDPSend_frame_def Let_def)
    then show ?thesis using fin sent assms(1) S_UdpSend by (auto simp: SendThread_turn_def UDPSend_frame_def Let_def split: if_splits)
  next
    case (S_Tcp fd n)
    have more: "net_ok C (s\<lparr>tcp_out := x, net_sendStart := 0, net_send_len := 0, send_at := S_Tcp fd m\<rparr>)"
      "net_ok C ((printf t s)\<lparr>send_at := S_TcpFailed fd m\<rparr>)"
      "net_ok C ((printf t s)\<lparr>send_at := S_Idle\<rparr>)" "net_ok C ((drop_frames s)\<lparr>send_at := S_Idle\<rparr>)" for x m t
      by (rule sender_ok [OF assms(1)];
          (use s in \<open>simp; fail\<close> | simp add: same_bufs_def printf_def drop_frames_def upd_conn_def))+
    have "\<not> unat (net_send_len s) > length (net_send_data s)" using s(3,4) by simp
    then show ?thesis using more at [of S_Idle] assms(1) S_Tcp by (simp add: SendThread_turn_def TCPSend_turn_def Let_def)
  next
    case (S_TcpFailed fd n)
    have "net_ok C (s\<lparr>net_sendStart := 0, net_send_len := 0, send_at := S_Tcp fd m\<rparr>)"
      "net_ok C ((upd_conn (\<lambda>w. w\<lparr>connStatus := CONNECT_STATUS_FAIL\<rparr>) (drop_frames s))\<lparr>send_at := S_Idle\<rparr>)" for m
      by (rule sender_ok [OF assms(1)];
          (use s in \<open>simp; fail\<close> | simp add: same_bufs_def drop_frames_def upd_conn_def))+
    then show ?thesis using S_TcpFailed by (simp add: SendThread_turn_def TCPSend_failed_def)
  next
    case (S_Udp t)
    have more: "net_ok C ((drop_frames s)\<lparr>send_at := S_Idle\<rparr>)" "net_ok C ((close_sockfd s)\<lparr>send_at := S_Idle\<rparr>)"
      by (rule sender_ok [OF assms(1)];
          (use s fd_range [OF s(1)] in \<open>simp; fail\<close> |
           simp add: same_bufs_def drop_frames_def upd_conn_def close_sockfd_def lwip_close_def))+
    have "net_ok C (s\<lparr>send_at := S_UdpSend t 0 (unat (net_send_len s)) a\<rparr>)" for a by (rule at) (use s(3) in simp)
    then show ?thesis using more assms(1) S_Udp by (simp add: SendThread_turn_def UDPSend_turn_def)
  qed (use at assms(1) in \<open>simp_all add: SendThread_turn_def SendThread_idle_def Let_def\<close>)
qed

section \<open>The serial side\<close>

definition side :: "('f, 'a) net_sys_scheme \<Rightarrow> ('f, 'a) net_sys_scheme \<Rightarrow> bool" where
  "side s s' \<longleftrightarrow> conn s' = conn s \<and> closed s' = closed s \<and> opened s' = opened s \<and> lost s' = lost s \<and> recv_at s' = recv_at s \<and>
     send_at s' = send_at s \<and> rbuf s' = rbuf s \<and> g_RecvBufSize s' = g_RecvBufSize s \<and>
     (unat (net_send_len s) \<le> 1400 \<longrightarrow> unat (net_send_len s') \<le> 1400)"

lemma side_refl: "side s s" and side_trans: "side s s1 \<Longrightarrow> side s1 s2 \<Longrightarrow> side s s2"
  by (auto simp: side_def)

lemma side_net_ok: "net_ok C s \<Longrightarrow> side s s' \<Longrightarrow> rx_ok s' \<Longrightarrow> net_ok C s'"
  by (auto simp: net_ok_def buf_ok_def side_def pc_ok_def fd_ok_def held_def)

lemma recv_store_side: "recv_store c s = Some s' \<Longrightarrow> side s s'"
  unfolding recv_store_def set_char_def by (auto simp: side_def OSMboxPost_def split: if_splits)

lemma recv_escape_side: "recv_escape c s = Some s' \<Longrightarrow> side s s'"
  unfolding recv_escape_def buf_write_def by (auto simp: side_def OSMboxPost_def OSSemPost_def split: if_splits)

lemma to_net_side: "to_net s = Some s' \<Longrightarrow> rx_ok s \<Longrightarrow> side s s'"
  unfolding to_net_def set_char_def buf_write_def by (auto simp: side_def rx_ok_def split: if_splits)

lemma side_mbox: "side s (OSMboxPost m s)"
  by (simp add: side_def OSMboxPost_def)

lemma recv_frame_side: "recv_frame s = Some s' \<Longrightarrow> rx_ok s \<Longrightarrow> side s s'"
  unfolding recv_frame_def by (auto simp: side_refl to_net_side side_mbox split: if_splits)

lemma uart_char_ok:
  assumes "net_ok C s" "atMode (UserParam s) = DATA_MODE"
  shows "\<exists>s'. uart_data_recv c s = Some s' \<and> net_ok C s'"
proof -
  have rx: "rx_ok s" using assms(1) by (simp add: net_ok_def buf_ok_def)
  obtain s1 where s1: "recv_store c s = Some s1" "rx_ok s1" "side s s1"
    using recv_store_ok [OF rx] recv_store_side by blast
  obtain s2 where s2: "(if unat (uart_rec_len s1) = MAX_RECV_BUFFER_SIZE then recv_escape c s1 else Some s1) = Some s2"
      "rx_ok s2" "side s1 s2"
    using recv_escape_ok [OF s1(2), of c] recv_escape_side [of c s1] s1(2) side_refl
    by (cases "unat (uart_rec_len s1) = MAX_RECV_BUFFER_SIZE") auto
  obtain s3 where s3: "recv_frame s2 = Some s3" "rx_ok s3" "side s2 s3"
    using recv_frame_ok [OF s2(2)] recv_frame_side s2(2) by blast
  have "net_ok C s1" by (rule side_net_ok [OF assms(1) s1(3,2)])
  moreover have "net_ok C s3"
    by (rule side_net_ok [OF assms(1) _ s3(2)]) (use s1(3) s2(3) s3(3) side_trans in blast)
  ultimately show ?thesis
    using assms(2) s1(1) s2(1) s3(1) by (cases "connStatus (conn s1) = CONNECT_STATUS_OK")
      (simp_all add: uart_data_recv_def recv_data_mode_def)
qed

lemma timer_net_ok:
  assumes "net_ok C s"
  shows "\<exists>s'. timerFuncProcess s = Some s' \<and> net_ok C s'"
proof -
  have rx: "rx_ok s" using assms(1) by (simp add: net_ok_def buf_ok_def)
  obtain s' where s': "timerFuncProcess s = Some s'" "rx_ok s'" using timer_ok [OF rx] by blast
  define b where "b = (if uart_rec_len s = 5 then (uart_rec_data s)[5 := NUL] else uart_rec_data s)"
  have b: "(if uart_rec_len s = 5 then set_char (uart_rec_data s) 5 NUL else Some (uart_rec_data s)) = Some b"
    using rx by (simp add: b_def set_char_def rx_ok_def)
  have rb: "rx_ok (s\<lparr>uart_rec_data := b\<rparr>)" using rx by (simp add: rx_ok_def b_def)
  have sb: "side s (s\<lparr>uart_rec_data := b\<rparr>)" by (simp add: side_def)
  have "side s s'"
  proof (cases "net_sendStart s = 1 \<or> uart_rec_len s = 0")
    case True
    then have "timerFuncProcess s = Some s" unfolding timerFuncProcess_def by (elim disjE) simp_all
    with s'(1) show ?thesis by (simp add: side_refl)
  next
    case False
    then have "(if uart_rec_len s = 5 \<and> cstr b = escape_seq then Some (OSSemPost (s\<lparr>uart_rec_data := b\<rparr>))
        else if connStatus (conn (s\<lparr>uart_rec_data := b\<rparr>)) = CONNECT_STATUS_OK then to_net (s\<lparr>uart_rec_data := b\<rparr>)
        else Some (s\<lparr>uart_rec_data := b, uart_rec_len := 0\<rparr>)) = Some s'"
      using s'(1) b by (simp add: timerFuncProcess_def Let_def)
    then show ?thesis
      using side_trans [OF sb to_net_side [OF _ rb]] by (auto simp: side_def OSSemPost_def split: if_splits)
  qed
  with side_net_ok [OF assms] s' show ?thesis by blast
qed

lemma UartSend_net_ok:
  assumes "net_ok C s"
  shows "net_ok C (UartSend_turn s)"
proof (rule side_net_ok [OF assms])
  show "side s (UartSend_turn s)" by (simp add: side_def UartSend_turn_def printf_def)
  have "rx_ok s" using assms by (simp add: net_ok_def buf_ok_def)
  then show "rx_ok (UartSend_turn s)" by (simp add: UartSend_turn_def printf_def rx_ok_def)
qed

text \<open>The switch to command mode closes both descriptors.\<close>

lemma mode_switch_eq:
  assumes "mode_switch_turn s = Some s'" "uart_rec_len s = 5" "cstr ((uart_rec_data s)[5 := NUL]) = escape_seq"
  shows "closed s' = closed s @ (if connectFd (conn s) \<ge> 0 then [connectFd (conn s)] else []) @
      (if sockfd (conn s) \<ge> 0 then [sockfd (conn s)] else [])"
    "conn s' = (conn s)\<lparr>connectFd := if connectFd (conn s) \<ge> 0 then -1 else connectFd (conn s),
      sockfd := if sockfd (conn s) \<ge> 0 then -1 else sockfd (conn s)\<rparr>"
    "uart_rec_data s' = (uart_rec_data s)[5 := NUL]" "uart_rec_len s' = 0" "net_send_len s' = 0"
    "net_send_data s' = net_send_data s" "uart_send_data s' = uart_send_data s"
    "frameLength (UserParam s') = frameLength (UserParam s)" "g_RecvBufSize s' = g_RecvBufSize s"
  using assms unfolding mode_switch_turn_def set_char_def Let_def
  by (auto simp: close_fd_def lwip_close_def printf_def split: if_splits)

lemma mode_switch_net_ok:
  assumes "net_ok C s"
  shows "\<exists>s'. mode_switch_turn s = Some s' \<and> net_ok C s'"
proof -
  have rx: "rx_ok s" and b: "buf_ok s" and f: "fd_ok C s" and p: "pc_ok s" using assms by (simp_all add: net_ok_def buf_ok_def)
  define d where "d = (uart_rec_data s)[5 := NUL]"
  have d: "set_char (uart_rec_data s) 5 NUL = Some d" using rx by (simp add: d_def set_char_def rx_ok_def)
  show ?thesis
  proof (cases "uart_rec_len s = 5 \<and> cstr d = escape_seq")
    case True
    then obtain s' where s': "mode_switch_turn s = Some s'" using d by (simp add: mode_switch_turn_def Let_def)
    note eq = mode_switch_eq [OF s' conjunct1 [OF True] conjunct2 [OF True, unfolded d_def]]
    have at: "recv_at s' = recv_at s" "send_at s' = send_at s" "rbuf s' = rbuf s" "opened s' = opened s" "lost s' = lost s"
      using s' True d by (auto simp: mode_switch_turn_def Let_def close_fd_def lwip_close_def printf_def)
    have "fd_ok C s'" using f at(4,5) by (auto simp: fd_ok_def held_def eq(1,2) add_mset_commute)
    moreover have "pc_ok s'" using p fd_range [OF f] by (auto simp: pc_ok_def at eq(2))
    moreover have "buf_ok s'" using b by (simp add: buf_ok_def rx_ok_def at eq)
    ultimately show ?thesis using s' by (simp add: net_ok_def)
  next
    case False
    define s' where "s' = (if uart_rec_len s = 5 then s\<lparr>uart_rec_data := d, modeSwitch := modeSwitch s - 1\<rparr>
      else s\<lparr>modeSwitch := modeSwitch s - 1\<rparr>)"
    have "mode_switch_turn s = Some s'" using d False by (simp add: mode_switch_turn_def s'_def Let_def)
    moreover have "side s s'" "rx_ok s'" using rx by (simp_all add: s'_def side_def rx_ok_def d_def)
    ultimately show ?thesis using side_net_ok [OF assms] by blast
  qed
qed

text \<open>A link event. When it ends a smart configuration a descriptor is opened and closed for the broadcast.\<close>

definition event_opened :: "'f env \<Rightarrow> SYS_EVT_ID \<Rightarrow> ('f, 'a) snet_scheme \<Rightarrow> int list" where
  "event_opened e ev s =
     (if ev = SYS_EVT_LINK_UP \<and> smtconfigBegin s = 1 \<and> socket_res e \<noteq> -1 then [socket_res e] else [])"

definition link_event :: "'f env \<Rightarrow> SYS_EVT_ID \<Rightarrow> ('f, 'a) net_sys_scheme \<Rightarrow> ('f, 'a) net_sys_scheme" where
  "link_event e ev s = (AppEvtCallBack e ev s)\<lparr>opened := opened s @ event_opened e ev s\<rparr>"

lemmas link_event_defs = AppEvtCallBack_def printf_def Let_def ResponseSmartconfig_def RespondUdpBroadcast_def InfWiFiStart_def
  InfNetModeSet_def InfWiFiStop_def PostTaskMsg_def upd_wifi_def lwip_close_def

lemma link_event_fields:
  "conn (AppEvtCallBack e ev s) = conn s" "closed (AppEvtCallBack e ev s) = closed s @ event_opened e ev s"
  "lost (AppEvtCallBack e ev s) = lost s" "recv_at (AppEvtCallBack e ev s) = recv_at s"
  "send_at (AppEvtCallBack e ev s) = send_at s" "rbuf (AppEvtCallBack e ev s) = rbuf s"
  "g_RecvBufSize (AppEvtCallBack e ev s) = g_RecvBufSize s" "net_send_len (AppEvtCallBack e ev s) = net_send_len s"
  "rx_ok (AppEvtCallBack e ev s) = rx_ok s"
  for s :: "('f, 'a) net_sys_scheme"
  by (cases ev; simp add: link_event_defs event_opened_def rx_ok_def)+

lemma link_event_net_ok:
  assumes "net_ok C s"
  shows "net_ok C (link_event e ev s)"
proof -
  note f = link_event_def link_event_fields
  have "rx_ok (link_event e ev s) = rx_ok (AppEvtCallBack e ev s)" by (simp add: rx_ok_def link_event_def)
  then have "buf_ok (link_event e ev s) = buf_ok s" unfolding buf_ok_def by (simp add: f)
  moreover have "held (link_event e ev s) = held s" by (simp add: held_def f)
  then have "fd_ok C (link_event e ev s) = fd_ok C s" by (auto simp: fd_ok_def f ac_simps)
  moreover have "pc_ok (link_event e ev s) = pc_ok s" by (simp add: pc_ok_def f)
  ultimately show ?thesis using assms by (simp add: net_ok_def)
qed

text \<open>\<^verbatim>\<open>AT+QUIT\<close> starts the next session. It overwrites both descriptors, and one that is open then, as one the receiver has
  obtained since the switch to command mode, is lost.\<close>

definition open_fds :: "('f, 'a) snet_scheme \<Rightarrow> int list" where
  "open_fds s = filter (\<lambda>fd. fd \<ge> 0) [sockfd (conn s), connectFd (conn s)]"

definition new_session :: "('f, 'a) net_sys_scheme \<Rightarrow> ('f, 'a) net_sys_scheme" where
  "new_session s = (init_conn (s\<lparr>UserParam := (UserParam s)\<lparr>atMode := DATA_MODE\<rparr>\<rparr>))\<lparr>lost := lost s @ open_fds s\<rparr>"

lemma new_session_net_ok:
  assumes "net_ok C s"
  shows "net_ok C (new_session s)"
proof -
  have "mset (open_fds s) = held s" by (simp add: open_fds_def held_def)
  moreover have "held (new_session s) = {#}" by (simp add: held_def new_session_def init_conn_def)
  ultimately have "fd_ok C (new_session s)"
    using assms by (simp add: net_ok_def fd_ok_def new_session_def init_conn_def ac_simps)
  with assms show ?thesis
    by (auto simp: net_ok_def pc_ok_def buf_ok_def rx_ok_def new_session_def init_conn_def)
qed

section \<open>Every interleaving\<close>

text \<open>What may happen next: a turn of a network thread with the answers of the socket layer, a character on the line in data
  mode (\<open>Uart_Rx\<close> has the command line), the frame timer, a turn of the UART sender, a turn of the mode switch when it was
  posted, a link event of the Wi-Fi driver, and in command mode \<^verbatim>\<open>AT+QUIT\<close>.\<close>

datatype 'f net_event =
    N_Recv sock_res | N_Send sock_res | N_Char char | N_Timer | N_Uart | N_Switch | N_Link "'f env" SYS_EVT_ID | N_Quit

fun net_step :: "'f net_event \<Rightarrow> ('f, 'a) net_sys_scheme \<Rightarrow> ('f, 'a) net_sys_scheme option" where
  "net_step (N_Recv r) s = RecvThread_turn r s"
| "net_step (N_Send r) s = SendThread_turn r s"
| "net_step (N_Char c) s = uart_data_recv c s"
| "net_step N_Timer s = timerFuncProcess s"
| "net_step N_Uart s = Some (UartSend_turn s)"
| "net_step N_Switch s = mode_switch_turn s"
| "net_step (N_Link e ev) s = Some (link_event e ev s)"
| "net_step N_Quit s = Some (new_session s)"

fun may_happen :: "('f, 'a) net_sys_scheme \<Rightarrow> 'f net_event \<Rightarrow> bool" where
  "may_happen s (N_Recv r) = res_ok s r"
| "may_happen s (N_Send r) = res_ok s r"
| "may_happen s (N_Char c) = (atMode (UserParam s) = DATA_MODE)"
| "may_happen s N_Timer = True"
| "may_happen s N_Uart = True"
| "may_happen s N_Switch = (modeSwitch s > 0)"
| "may_happen s (N_Link e ev) = True"
| "may_happen s N_Quit = (atMode (UserParam s) = AT_MODE)"

inductive net_reach :: "('f, 'a) net_sys_scheme \<Rightarrow> ('f, 'a) net_sys_scheme \<Rightarrow> bool" for s0 where
  net_init: "net_reach s0 s0"
| net_next: "net_reach s0 s \<Longrightarrow> may_happen s ev \<Longrightarrow> net_step ev s = Some s' \<Longrightarrow> net_reach s0 s'"

text \<open>Both threads have just been created.\<close>

definition net_start :: "('f, 'a) net_sys_scheme \<Rightarrow> bool" where
  "net_start s \<longleftrightarrow> recv_at s = R_Idle \<and> send_at s = S_Idle \<and> opened s = [] \<and> closed s = [] \<and> lost s = [] \<and> rx_ok s \<and>
     rbuf s = None \<and> sockfd (conn s) = -1 \<and> connectFd (conn s) = -1 \<and> connStatus (conn s) = CONNECT_STATUS_FAIL \<and>
     unat (net_send_len s) \<le> 1400 \<and> unat (g_RecvBufSize s) \<le> 1400"

lemma net_start_ok: "net_start s \<Longrightarrow> net_ok {#} s"
  by (simp add: net_start_def net_ok_def fd_ok_def pc_ok_def buf_ok_def held_def)

lemma net_step_ok:
  assumes "net_ok C s" "may_happen s ev"
  shows "if \<exists>r. ev = N_Recv r \<and> overrun s r then net_step ev s = None
    else \<exists>s'. net_step ev s = Some s' \<and> net_ok C s'"
proof (cases ev)
  case (N_Recv r)
  with RecvThread_ok [of C s r] assms show ?thesis by auto
qed (use assms in \<open>simp_all add: SendThread_ok uart_char_ok timer_net_ok UartSend_net_ok
      mode_switch_net_ok link_event_net_ok new_session_net_ok\<close>)

lemma net_reach_ok: "net_reach s0 s \<Longrightarrow> net_ok C s0 \<Longrightarrow> net_ok C s"
proof (induction rule: net_reach.induct)
  case (net_next s ev s')
  with net_step_ok [of C s ev] show ?case by (auto split: if_splits)
qed

text \<open>C8: From the start of the two network threads, in every interleaving of their turns with characters received in data
  mode, the frame timer, the UART sender, posted mode switches, link events and \<^verbatim>\<open>AT+QUIT\<close> in command mode: the only
  step that writes outside a buffer is the turn of the receiver after a receive call that filled all \<^verbatim>\<open>g_RecvBufSize\<close> bytes
  it was given, or that returned data although the allocation of \<^verbatim>\<open>recv_data\<close> had failed; it always does, and every other
  step has a result. Every descriptor the socket layer handed out has been closed exactly once, is held in exactly
  one place, or was overwritten by an \<^verbatim>\<open>AT+QUIT\<close> while it was open; an idle receiver holds none; and the
  connection counts as open only while the receiver transfers data. The socket layer must return descriptors that are -1 or
  not negative and must not receive or send more than it was asked to.\<close>

theorem net_threads_safe:
  assumes "net_start s0" "net_reach s0 s"
  shows "(\<forall>ev. may_happen s ev \<longrightarrow> (net_step ev s = None \<longleftrightarrow> (\<exists>r. ev = N_Recv r \<and> overrun s r))) \<and>
    mset (closed s) + held s + mset (lost s) = mset (opened s) \<and>
    (recv_at s = R_Idle \<longrightarrow> held s = {#}) \<and>
    (connStatus (conn s) = CONNECT_STATUS_OK \<longrightarrow> transferring (recv_at s))"
proof -
  have ok: "net_ok {#} s" by (rule net_reach_ok [OF assms(2) net_start_ok [OF assms(1)]])
  have "net_step ev s = None \<longleftrightarrow> (\<exists>r. ev = N_Recv r \<and> overrun s r)" if "may_happen s ev" for ev
    using net_step_ok [OF ok that] by (auto split: if_splits)
  moreover have "mset (closed s) + held s + mset (lost s) = mset (opened s)" using ok by (simp add: net_ok_def fd_ok_def)
  moreover have "recv_at s = R_Idle \<longrightarrow> held s = {#}" using ok by (auto simp: net_ok_def pc_ok_def held_def)
  moreover have "connStatus (conn s) = CONNECT_STATUS_OK \<longrightarrow> transferring (recv_at s)"
    using ok by (auto simp: net_ok_def pc_ok_def CONNECT_STATUS_OK_def CONNECT_STATUS_FAIL_def)
  ultimately show ?thesis by blast
qed

text \<open>A start in data mode with the link up, UDP client on port 8000, and answers of a socket layer.\<close>

definition net0 :: "nor net_sys" where
  "net0 = snet.extend (snet_data\<lparr>WifiConnStatus := zero_CONN_STATUS\<lparr>connStatus := CONNECT_STATUS_FAIL, sockfd := -1,
     connectFd := -1, ws_socketPort := 8000, remoteIp := 0xC0A80102\<rparr>\<rparr>)
     (net_sys.fields S_Idle R_Idle None [] [] [])"

definition res0 :: sock_res where
  "res0 = \<lparr>r_malloc = True, r_socket = 3, r_opts = [0], r_bind = 0, r_listen = 0, r_connect = 0, r_select = 1, r_accept = 4,
     r_recv = 5, r_data = ''hello'', r_from = (0xC0A80102, 8000), r_send = 0\<rparr>"

lemma net0_start: "net_start net0"
  by (simp add: net_start_def net0_def snet.defs net_sys.defs snet_data_def snet0_def user0_def rx_ok_def)

lemma net0_open:
  "\<exists>s1. RecvThread_turn res0 net0 = Some s1 \<and> recv_at s1 = R_Udp 0 0 \<and> sockfd (conn s1) = 3 \<and> opened s1 = [3] \<and> closed s1 = []"
  by (simp add: RecvThread_turn_def RecvThread_idle_def UDPRecv_start_def net0_def res0_def snet.defs net_sys.defs snet_data_def
      snet0_def zero_CONN_STATUS_def new_sockfd_def upd_conn_def opt_errors_def printf_def SOCK_CLIENT_def Let_def)

text \<open>The receiver in \<^verbatim>\<open>recvfrom\<close> after two turns.\<close>

lemma net0_receiving:
  obtains s2 where "net_reach net0 s2" "recv_at s2 = R_UdpRecv 0 0" "g_RecvBufSize s2 = 1024" "rbuf s2 = Some 1024"
    "send_at s2 = S_Idle" "opened s2 = [3]" "lost s2 = []"
proof -
  obtain s1 where s1: "RecvThread_turn res0 net0 = Some s1" "recv_at s1 = R_Udp 0 0" "sockfd (conn s1) = 3"
      "atMode (UserParam s1) = DATA_MODE" "g_RecvBufSize s1 = 1024" "send_at s1 = S_Idle" "rbuf s1 = Some 1024"
      "opened s1 = [3]" "lost s1 = []"
    by (simp add: RecvThread_turn_def RecvThread_idle_def UDPRecv_start_def net0_def res0_def snet.defs net_sys.defs snet_data_def
      snet0_def zero_CONN_STATUS_def new_sockfd_def upd_conn_def opt_errors_def printf_def SOCK_CLIENT_def Let_def)
  define s2 where "s2 = s1\<lparr>recv_at := R_UdpRecv 0 0\<rparr>"
  have s2: "RecvThread_turn res0 s1 = Some s2" using s1 by (simp add: RecvThread_turn_def UDPRecv_turn_def s2_def)
  have m: "may_happen net0 (N_Recv res0)" "may_happen s1 (N_Recv res0)"
    using s1 by (simp_all add: res_ok_def res0_def net0_def snet.defs net_sys.defs snet_data_def snet0_def)
  have "net_reach net0 s1" by (rule net_next [OF net_init m(1)]) (simp add: s1(1))
  then have "net_reach net0 s2" by (rule net_next [OF _ m(2)]) (simp add: s2)
  then show thesis by (rule that) (use s1 in \<open>simp_all add: s2_def\<close>)
qed

theorem net_threads_safe_witness:
  "\<exists>s2. net_reach net0 s2 \<and> mset (closed s2) + held s2 = {#3#} \<and> net_step N_Timer s2 \<noteq> None \<and>
    net_step (N_Recv res0) s2 \<noteq> None \<and> net_step (N_Recv (res0\<lparr>r_recv := 1024\<rparr>)) s2 = None"
proof -
  obtain s2 where s2: "net_reach net0 s2" "recv_at s2 = R_UdpRecv 0 0" "g_RecvBufSize s2 = 1024" "rbuf s2 = Some 1024"
      "send_at s2 = S_Idle" "opened s2 = [3]" "lost s2 = []"
    by (rule net0_receiving)
  note safe = net_threads_safe [OF net0_start s2(1)]
  have m: "may_happen s2 (N_Recv (res0\<lparr>r_recv := n\<rparr>))" if "n \<le> 1024" for n
    using s2 that by (simp add: res_ok_def res0_def)
  have o: "overrun s2 (res0\<lparr>r_recv := 1024\<rparr>)" "\<not> overrun s2 res0" using s2 by (simp_all add: overrun_def res0_def)
  have "may_happen s2 (N_Recv res0)" using m [of 5] by (simp add: res0_def)
  then have "net_step (N_Recv res0) s2 \<noteq> None" using safe o(2) by blast
  moreover have "net_step (N_Recv (res0\<lparr>r_recv := 1024\<rparr>)) s2 = None" using safe o(1) m [of 1024] by blast
  moreover have "net_step N_Timer s2 \<noteq> None" using conjunct1 [OF safe, rule_format, of N_Timer] by simp
  moreover have "mset (closed s2) + held s2 = {#3#}" using safe s2 by simp
  ultimately show ?thesis using s2(1) by blast
qed

text \<open>A descriptor is really lost: switched to command mode while it waits to open its socket, the receiver opens it
  nevertheless, and \<^verbatim>\<open>AT+QUIT\<close> overwrites the number.\<close>

lemma quit_loses_descriptor:
  assumes "recv_at s = R_TcpSocket SOCK_CLIENT" "r_socket r = 7" "connectFd (conn s) = -1"
  shows "\<exists>s1. RecvThread_turn r s = Some s1 \<and> lost (new_session s1) = lost s @ [7]"
  using assms
  by (auto simp: RecvThread_turn_def TCPRecv_socket_def Let_def new_session_def open_fds_def SOCK_CLIENT_def)
    (simp add: new_sockfd_def upd_conn_def printf_def)

end
