(* ===== verification/Bridge.thy ===== *)
theory Bridge
  imports Socket_Inv
begin

text \<open>
  The two directions of the serial bridge end to end: characters received by the UART interrupt leave as datagrams or TCP
  segments, and what the network delivers appears on the UART, across \<^verbatim>\<open>serialNet.c\<close> and \<^verbatim>\<open>socketCom.c\<close>.
\<close>

section \<open>The frame loop\<close>

text \<open>Reference: a message cut into pieces of \<open>n\<close> bytes, the last one shorter.\<close>

function chunks :: "nat \<Rightarrow> 'a list \<Rightarrow> 'a list list" where
  "chunks n xs = (if n = 0 \<or> xs = [] then [] else take n xs # chunks n (drop n xs))"
  by auto
termination by (relation "measure (\<lambda>(n, xs). length xs)") auto

declare chunks.simps [simp del]

lemma chunks_Nil [simp]: "chunks n [] = []"
  by (simp add: chunks.simps)

lemma chunks_Cons: "0 < n \<Longrightarrow> xs \<noteq> [] \<Longrightarrow> chunks n xs = take n xs # chunks n (drop n xs)"
  by (simp add: chunks.simps)

lemma concat_chunks: "0 < n \<Longrightarrow> concat (chunks n xs) = xs"
  by (induction n xs rule: chunks.induct) (subst chunks.simps, simp)

lemma chunks_single: "xs \<noteq> [] \<Longrightarrow> length xs \<le> n \<Longrightarrow> chunks n xs = [xs]"
  using chunks_Cons [of n xs] by (cases "n = 0") simp_all

text \<open>Consecutive turns of the sender.\<close>

fun send_turns :: "sock_res list \<Rightarrow> ('f, 'a) net_sys_scheme \<Rightarrow> ('f, 'a) net_sys_scheme option" where
  "send_turns [] s = Some s"
| "send_turns (r # rs) s = do { s1 \<leftarrow> SendThread_turn r s; send_turns rs s1 }"

lemma send_turns_append: "send_turns (as @ bs) s = Option.bind (send_turns as s) (send_turns bs)"
proof (induction as arbitrary: s)
  case (Cons a as)
  then show ?case by (cases "SendThread_turn a s") simp_all
qed simp

lemma frame_turn:
  assumes "send_at s = S_UdpSend t off (length xs) a" "xs = take (length xs) (drop off (net_send_data s))" "xs \<noteq> []"
    and "unat (frameLength (UserParam s)) = n" "0 < n" "r_send r = int (length (take n xs))"
    and "off + length xs \<le> length (net_send_data s)"
  shows "SendThread_turn r s = Some (s\<lparr>sent := sent s @ [(to_bytes (take n xs), a)],
      send_at := S_UdpSend t (off + min n (length xs)) (length (drop n xs)) a\<rparr>)"
proof -
  have m: "nat (r_send r) = min n (length xs)" using assms(6) by simp
  have tk: "take (min n (length xs)) (drop off (net_send_data s)) = take n xs"
    using arg_cong [OF assms(2), of "take n"] by (simp add: min.commute)
  have len: "length xs - min n (length xs) = length (drop n xs)" by simp
  have "0 < length xs" "0 \<le> r_send r" using assms(3,6) by simp_all
  then show ?thesis
    unfolding SendThread_turn_def assms(1) using assms(4,7) by (simp add: UDPSend_frame_def Let_def m tk len)
qed

lemma frame_turns:
  assumes "send_at s = S_UdpSend t off (length xs) a" "xs = take (length xs) (drop off (net_send_data s))"
    and "unat (frameLength (UserParam s)) = n" "0 < n" "map r_send rs = map (\<lambda>c. int (length c)) (chunks n xs)"
    and "off + length xs \<le> length (net_send_data s)"
  shows "send_turns rs s = Some (s\<lparr>sent := sent s @ map (\<lambda>c. (to_bytes c, a)) (chunks n xs),
      send_at := S_UdpSend t (off + length xs) 0 a\<rparr>)"
  using assms
proof (induction rs arbitrary: s off xs)
  case Nil
  then have "xs = []" using chunks_Cons [of n xs] by fastforce
  with Nil show ?case by simp
next
  case (Cons r rs)
  then have ne: "xs \<noteq> []" by auto
  note ch = chunks_Cons [OF Cons.prems(4) ne]
  define s1 where "s1 = s\<lparr>sent := sent s @ [(to_bytes (take n xs), a)],
      send_at := S_UdpSend t (off + min n (length xs)) (length (drop n xs)) a\<rparr>"
  have same: "net_send_data s1 = net_send_data s" by (simp add: s1_def)
  have turn: "SendThread_turn r s = Some s1"
    unfolding s1_def by (rule frame_turn [OF Cons.prems(1,2) ne Cons.prems(3,4) _ Cons.prems(6)]) (use Cons.prems(5) ch in simp)
  have "drop n xs = drop n (take (length xs) (drop off (net_send_data s)))" using Cons.prems(2) by simp
  also have "\<dots> = take (length (drop n xs)) (drop (off + min n (length xs)) (net_send_data s))"
    by (cases "n \<le> length xs") (simp_all add: drop_take min_def add.commute)
  finally have rest: "drop n xs = take (length (drop n xs)) (drop (off + min n (length xs)) (net_send_data s1))"
    unfolding same .
  have "off + min n (length xs) + length (drop n xs) \<le> length (net_send_data s1)" using Cons.prems(6) by (simp add: s1_def min_def)
  with rest have "send_turns rs s1 = Some (s1\<lparr>sent := sent s1 @ map (\<lambda>c. (to_bytes c, a)) (chunks n (drop n xs)),
      send_at := S_UdpSend t (off + min n (length xs) + length (drop n xs)) 0 a\<rparr>)"
    by (intro Cons.IH) (use Cons.prems ch in \<open>simp_all add: s1_def\<close>)
  then show ?case using turn ch by (simp add: s1_def min_def)
qed

lemma udp_frame_turns:
  assumes "send_at s = S_Udp t" "atMode (UserParam s) = DATA_MODE" "sockfd (conn s) \<noteq> -1" "net_sendStart s = 1"
    and "unat (net_send_len s) \<le> length (net_send_data s)" "unat (frameLength (UserParam s)) = n" "0 < n"
    and "map r_send rs = map (\<lambda>c. int (length c)) (chunks n (take (unat (net_send_len s)) (net_send_data s)))"
  shows "\<exists>s'. send_turns (r0 # rs @ [r1]) s = Some s' \<and> send_at s' = S_Udp t \<and> net_sendStart s' = 0 \<and> net_send_len s' = 0 \<and>
    sent s' = sent s @ map (\<lambda>c. (to_bytes c, if t = SOCK_CLIENT then server_addr (conn s) else client_addr (conn s)))
      (chunks n (take (unat (net_send_len s)) (net_send_data s)))"
proof -
  let ?xs = "take (unat (net_send_len s)) (net_send_data s)"
  define a where "a = (if t = SOCK_CLIENT then server_addr (conn s) else client_addr (conn s))"
  have len: "length ?xs = unat (net_send_len s)" using assms(5) by simp
  define s1 where "s1 = s\<lparr>send_at := S_UdpSend t 0 (unat (net_send_len s)) a\<rparr>"
  have start: "SendThread_turn r0 s = Some s1" using assms(1-4) by (simp add: SendThread_turn_def UDPSend_turn_def s1_def a_def)
  have "send_turns rs s1 = Some (s1\<lparr>sent := sent s1 @ map (\<lambda>c. (to_bytes c, a)) (chunks n ?xs),
      send_at := S_UdpSend t (0 + length ?xs) 0 a\<rparr>)"
    by (rule frame_turns) (use assms(5-8) len in \<open>simp_all add: s1_def\<close>)
  then show ?thesis
    using start by (simp add: send_turns_append) (simp add: SendThread_turn_def UDPSend_frame_def s1_def a_def)
qed

text \<open>A frame handed to the UDP sender leaves the module completely and in order, cut into datagrams of
  \<^verbatim>\<open>frameLength\<close> bytes to the peer, and the buffer is released, when \<^verbatim>\<open>sendto\<close> takes each datagram whole.\<close>

theorem udp_frame_sent:
  assumes "send_at s = S_Udp t" "atMode (UserParam s) = DATA_MODE" "sockfd (conn s) \<noteq> -1" "net_sendStart s = 1"
    and "unat (net_send_len s) \<le> length (net_send_data s)" "unat (frameLength (UserParam s)) = n" "0 < n"
    and "map r_send rs = map (\<lambda>c. int (length c)) (chunks n (take (unat (net_send_len s)) (net_send_data s)))"
  shows "\<exists>s'. send_turns (r0 # rs @ [r1]) s = Some s' \<and> send_at s' = S_Udp t \<and> net_sendStart s' = 0 \<and> net_send_len s' = 0 \<and>
    sent s' = sent s @ map (\<lambda>c. (to_bytes c, if t = SOCK_CLIENT then server_addr (conn s) else client_addr (conn s)))
      (chunks n (take (unat (net_send_len s)) (net_send_data s)))"
  by (rule udp_frame_turns [OF assms])

section \<open>From the serial line to the network\<close>

text \<open>What receiving characters in data mode leaves alone.\<close>

definition feed_keeps :: "('f, 'a) net_sys_scheme \<Rightarrow> ('f, 'a) net_sys_scheme \<Rightarrow> bool" where
  "feed_keeps s s' \<longleftrightarrow> side s s' \<and> UserParam s' = UserParam s \<and> sent s' = sent s \<and> tcp_out s' = tcp_out s"

lemma feed_keeps_refl: "feed_keeps s s" and feed_keeps_trans: "feed_keeps s s1 \<Longrightarrow> feed_keeps s1 s2 \<Longrightarrow> feed_keeps s s2"
  using side_refl side_trans by (auto simp: feed_keeps_def)

lemma to_net_keeps: "to_net s = Some s' \<Longrightarrow> rx_ok s \<Longrightarrow> feed_keeps s s'"
  using to_net_side [of s s'] unfolding to_net_def set_char_def buf_write_def by (auto simp: feed_keeps_def split: if_splits)

lemma mbox_keeps: "feed_keeps s (OSMboxPost m s)"
  by (simp add: feed_keeps_def side_mbox) (simp add: OSMboxPost_def)

lemma escape_keeps: "recv_escape c s = Some s' \<Longrightarrow> feed_keeps s s'"
  using recv_escape_side [of c s s'] unfolding recv_escape_def buf_write_def
  by (auto simp: feed_keeps_def OSMboxPost_def OSSemPost_def split: if_splits)

lemma frame_keeps: "recv_frame s = Some s' \<Longrightarrow> rx_ok s \<Longrightarrow> feed_keeps s s'"
  unfolding recv_frame_def by (auto simp: feed_keeps_refl to_net_keeps mbox_keeps split: if_splits)

lemma char_keeps:
  assumes "uart_data_recv c s = Some s'" "atMode (UserParam s) = DATA_MODE" "rx_ok s"
  shows "feed_keeps s s' \<and> rx_ok s'"
proof -
  obtain s1 where s1: "recv_store c s = Some s1" "rx_ok s1"
    using recv_store_ok [OF assms(3)] by blast
  have k1: "feed_keeps s s1"
    using s1(1) recv_store_side [OF s1(1)] by (auto simp: feed_keeps_def recv_store_def set_char_def OSMboxPost_def split: if_splits)
  define m where "m = (if unat (uart_rec_len s1) = MAX_RECV_BUFFER_SIZE then recv_escape c s1 else Some s1)"
  obtain s2 where s2: "m = Some s2" "rx_ok s2"
    using recv_escape_ok [OF s1(2), of c] s1(2)
    by (cases "unat (uart_rec_len s1) = MAX_RECV_BUFFER_SIZE") (auto simp: m_def)
  have k2: "feed_keeps s1 s2"
    using s2(1) escape_keeps [of c s1 s2] feed_keeps_refl [of s1]
    by (cases "unat (uart_rec_len s1) = MAX_RECV_BUFFER_SIZE") (simp_all add: m_def)
  have k3: "feed_keeps s2 s3" if "recv_frame s2 = Some s3" for s3
    by (rule frame_keeps [OF that s2(2)])
  show ?thesis
  proof (cases "connStatus (conn s1) = CONNECT_STATUS_OK")
    case True
    then have "recv_frame s2 = Some s'"
      using assms(1,2) s1(1) s2(1) by (simp add: uart_data_recv_def recv_data_mode_def m_def)
    moreover from this have "feed_keeps s s'" by (rule feed_keeps_trans [OF feed_keeps_trans [OF k1 k2] k3])
    ultimately show ?thesis using recv_frame_ok [OF s2(2)] by auto
  next
    case False
    with assms(1,2) s1 k1 show ?thesis by (simp add: uart_data_recv_def recv_data_mode_def)
  qed
qed

lemma feed_keeps_data:
  "uart_feed cs s = Some s' \<Longrightarrow> atMode (UserParam s) = DATA_MODE \<Longrightarrow> rx_ok s \<Longrightarrow> feed_keeps s s' \<and> rx_ok s'"
proof (induction cs arbitrary: s)
  case (Cons c cs)
  then obtain s1 where s1: "uart_data_recv c s = Some s1" "uart_feed cs s1 = Some s'"
    by (cases "uart_data_recv c s") auto
  have k: "feed_keeps s s1" "rx_ok s1" using char_keeps [OF s1(1) Cons.prems(2,3)] by simp_all
  with Cons.prems(2) have "atMode (UserParam s1) = DATA_MODE" by (simp add: feed_keeps_def)
  from Cons.IH [OF s1(2) this k(2)] k(1) feed_keeps_trans show ?case by blast
qed (simp add: feed_keeps_refl)

text \<open>A whole frame has been received while the sender waits for it.\<close>

lemma frame_ready:
  assumes "gathering L s" "uart_rec_len s = 0" "length xs = L" "L < 1400"
  shows "\<exists>s1. uart_feed xs s = Some s1 \<and> feed_keeps s s1 \<and> net_sendStart s1 = 1 \<and> unat (net_send_len s1) = L \<and>
    take L (net_send_data s1) = xs \<and> L \<le> length (net_send_data s1)"
proof -
  obtain s1 where s1: "uart_feed xs s = Some s1" "net_sendStart s1 = 1" "unat (net_send_len s1) = L" "take L (net_send_data s1) = xs"
    using frame_complete [OF assms] by blast
  have "feed_keeps s s1 \<and> rx_ok s1" using feed_keeps_data [OF s1(1)] assms(1) by (simp add: gathering_def)
  with s1 assms(4) show ?thesis by (auto simp: rx_ok_def)
qed

text \<open>C15: The bridge sends what it hears: in data mode with an open UDP connection, the last character of a frame of
  \<^verbatim>\<open>frameLength\<close> characters on the serial line makes the sender emit exactly these characters as one datagram to the peer,
  and the buffers are free for the next frame.\<close>

theorem serial_to_udp:
  assumes "gathering L s" "uart_rec_len s = 0" "length xs = L" "L < 1400" "send_at s = S_Udp t" "sockfd (conn s) \<noteq> -1"
    and "r_send r = int L"
  shows "\<exists>s1 s2. uart_feed xs s = Some s1 \<and> send_turns [r0, r, r1] s1 = Some s2 \<and>
    sent s2 = sent s @ [(to_bytes xs, if t = SOCK_CLIENT then server_addr (conn s) else client_addr (conn s))] \<and>
    net_sendStart s2 = 0 \<and> send_at s2 = S_Udp t"
proof -
  obtain s1 where s1: "uart_feed xs s = Some s1" "feed_keeps s s1" "net_sendStart s1 = 1" "unat (net_send_len s1) = L"
      "take L (net_send_data s1) = xs" "L \<le> length (net_send_data s1)"
    using frame_ready [OF assms(1-4)] by blast
  have g: "atMode (UserParam s) = DATA_MODE" "unat (frameLength (UserParam s)) = L" "frameLength (UserParam s) \<noteq> 0"
    using assms(1) by (simp_all add: gathering_def rx_ok_def)
  then have L: "0 < L" using unat_eq_zero gr0I by metis
  have ch: "chunks L xs = [xs]" by (rule chunks_single) (use L assms(3) in auto)
  have k: "send_at s1 = S_Udp t" "conn s1 = conn s" "UserParam s1 = UserParam s" "sent s1 = sent s"
    using s1(2) assms(5) by (simp_all add: feed_keeps_def side_def)
  have "\<exists>s2. send_turns (r0 # [r] @ [r1]) s1 = Some s2 \<and> send_at s2 = S_Udp t \<and> net_sendStart s2 = 0 \<and>
      sent s2 = sent s1 @ map (\<lambda>c. (to_bytes c, if t = SOCK_CLIENT then server_addr (conn s1) else client_addr (conn s1)))
        (chunks L xs)"
    using udp_frame_turns [of s1 t L "[r]" r0 r1] k g L s1 assms(3,6,7) ch by auto
  with s1(1) ch k show ?thesis by auto
qed

text \<open>The same over TCP: one call of \<^verbatim>\<open>send\<close> on the connection's descriptor gets exactly the characters of the frame.\<close>

theorem serial_to_tcp:
  assumes "gathering L s" "uart_rec_len s = 0" "length xs = L" "L < 1400" "send_at s = S_Tcp fd k" "fd \<noteq> -1"
    and "r_send r = int L"
  shows "\<exists>s1 s2. uart_feed xs s = Some s1 \<and> SendThread_turn r s1 = Some s2 \<and>
    tcp_out s2 = tcp_out s @ [(fd, xs)] \<and> net_sendStart s2 = 0 \<and> send_at s2 = S_Tcp fd 0"
proof -
  obtain s1 where s1: "uart_feed xs s = Some s1" "feed_keeps s s1" "net_sendStart s1 = 1" "unat (net_send_len s1) = L"
      "take L (net_send_data s1) = xs" "L \<le> length (net_send_data s1)"
    using frame_ready [OF assms(1-4)] by blast
  have g: "atMode (UserParam s1) = DATA_MODE" "connStatus (conn s1) \<noteq> CONNECT_STATUS_FAIL" "send_at s1 = S_Tcp fd k"
      "tcp_out s1 = tcp_out s"
    using assms(1,5) s1(2)
    by (simp_all add: gathering_def feed_keeps_def side_def CONNECT_STATUS_OK_def CONNECT_STATUS_FAIL_def)
  have "SendThread_turn r s1 = Some (s1\<lparr>tcp_out := tcp_out s1 @ [(fd, xs)], net_sendStart := 0, net_send_len := 0, send_at := S_Tcp fd 0\<rparr>)"
    using g s1(3-6) assms(3,6,7) by (simp add: SendThread_turn_def TCPSend_turn_def)
  with s1(1) g(4) show ?thesis by simp
qed

section \<open>From the network to the serial line\<close>

text \<open>C16: What the network delivers appears on the serial line: when a receive call of either protocol into an
  allocated buffer returns \<open>k > 0\<close> bytes, fewer than the \<^verbatim>\<open>g_RecvBufSize\<close> it was given, in data mode, and the UART
  buffer is free, two turns of the receiver and one of the UART sender print exactly these bytes, and the receiver is
  back at the top of its loop. (A call that fills the buffer, or a buffer that could not be allocated, ends in a store
  outside the block instead, see \<open>Socket_Inv\<close>.)\<close>

theorem network_to_serial:
  assumes "recv_at s = R_UdpRecv t n \<or> recv_at s = R_TcpRecv fd" "net_ok C s" "rbuf s \<noteq> None"
    and "0 < r_recv r" "r_recv r < int (unat (g_RecvBufSize s))" "length (r_data r) = nat (r_recv r)"
    and "atMode (UserParam s) = DATA_MODE" "uart_sendStart s = 0" "uart_hasData s = 0"
  shows "\<exists>s1 s2. RecvThread_turn r s = Some s1 \<and> RecvThread_turn r' s1 = Some s2 \<and>
    stdout (UartSend_turn s2) = stdout s @ [r_data r] \<and> uart_hasData (UartSend_turn s2) = 0 \<and>
    ((\<exists>n'. recv_at (UartSend_turn s2) = R_Udp t n') \<or> recv_at (UartSend_turn s2) = R_Tcp fd)"
proof -
  have b: "rbuf s = Some (unat (g_RecvBufSize s))" "length (uart_send_data s) = 1401" "unat (g_RecvBufSize s) \<le> 1400"
    using assms(1-3) by (auto simp: net_ok_def buf_ok_def rx_ok_def recv_buf_ok_def)
  have r: "nat (r_recv r) < unat (g_RecvBufSize s)" using assms(4,5) by linarith
  have d: "recv_store_data (rbuf s) (r_recv r) (r_data r) = Some (r_data r)"
    using r b assms(6) by (simp add: recv_store_data_def)
  have w: "buf_write (uart_send_data s) 0 (r_data r) = Some (r_data r @ drop (length (r_data r)) (uart_send_data s))"
    using b r assms(6) by (simp add: buf_write_def)
  have l: "unat (of_nat (length (r_data r)) :: u32) = length (r_data r)"
    using b(3) r assms(6) by (simp add: unat_of_nat)
  have del: "\<exists>s2. deliver (r_data r) p s1 = Some s2 \<and> stdout (UartSend_turn s2) = stdout s1 @ [r_data r] \<and>
      uart_hasData (UartSend_turn s2) = 0 \<and> recv_at (UartSend_turn s2) = p"
    if "uart_sendStart s1 = 0" "uart_hasData s1 = 0" "uart_send_data s1 = uart_send_data s" "UserParam s1 = UserParam s"
    for s1 :: "('a, 'b) net_sys_scheme" and p
    using that w l assms(7) by (simp add: deliver_def UartSend_turn_def printf_def)
  from assms(1) show ?thesis
  proof
    assume at: "recv_at s = R_UdpRecv t n"
    define n' where "n' = (if t = SOCK_SERVER \<and> n = 0 then 1 else n)"
    from at obtain s1 where s1: "RecvThread_turn r s = Some s1" "recv_at s1 = R_UdpDeliver t n' (r_data r)" "stdout s1 = stdout s"
        "uart_sendStart s1 = 0" "uart_hasData s1 = 0" "uart_send_data s1 = uart_send_data s" "UserParam s1 = UserParam s"
      using assms(4,8,9) d by (cases "t = SOCK_SERVER \<and> n = 0") (simp_all add: RecvThread_turn_def UDPRecv_data_def upd_conn_def n'_def)
    from del [OF s1(4-7), of "R_Udp t n'"] s1(1-3) show ?thesis by (auto simp: RecvThread_turn_def)
  next
    assume at: "recv_at s = R_TcpRecv fd"
    then obtain s1 where s1: "RecvThread_turn r s = Some s1" "recv_at s1 = R_TcpDeliver fd (r_data r)" "stdout s1 = stdout s"
        "uart_sendStart s1 = 0" "uart_hasData s1 = 0" "uart_send_data s1 = uart_send_data s" "UserParam s1 = UserParam s"
      using assms(4,8,9) d by (auto simp: RecvThread_turn_def TCPRecv_data_def upd_conn_def Let_def)
    from del [OF s1(4-7), of "R_Tcp fd"] s1(1-3) show ?thesis by (auto simp: RecvThread_turn_def)
  qed
qed

section \<open>Witnesses\<close>

text \<open>A module in data mode whose UDP sender waits for a frame, and one whose receiver is in \<^verbatim>\<open>recvfrom\<close>.\<close>

definition net_data :: "nor net_sys" where
  "net_data = snet.extend (snet_data\<lparr>WifiConnStatus := zero_CONN_STATUS\<lparr>connStatus := CONNECT_STATUS_OK, sockfd := 3,
     connectFd := -1, server_addr := (0xC0A80102, 8000)\<rparr>\<rparr>)
     (net_sys.fields (S_Udp SOCK_CLIENT) (R_UdpRecv SOCK_CLIENT 0) (Some 1024) [3] [] [])"

lemmas net_data_simps = net_data_def snet.defs net_sys.defs snet_data_def snet0_def user0_def zero_CONN_STATUS_def

lemma net_data_gathering: "gathering 64 net_data"
  by (simp add: gathering_def rx_ok_def net_data_simps)

theorem udp_frame_witness:
  "\<exists>s'. send_turns [res0, res0\<lparr>r_send := 64\<rparr>, res0\<lparr>r_send := 36\<rparr>, res0]
      (net_data\<lparr>net_sendStart := 1, net_send_len := 100\<rparr>) = Some s' \<and>
    sent s' = [(to_bytes (replicate 64 NUL), (0xC0A80102, 8000)), (to_bytes (replicate 36 NUL), (0xC0A80102, 8000))]"
proof -
  let ?s = "net_data\<lparr>net_sendStart := 1, net_send_len := 100\<rparr>" and ?rs = "[res0\<lparr>r_send := 64\<rparr>, res0\<lparr>r_send := 36\<rparr>]"
  have c: "chunks 64 (replicate 100 NUL) = [replicate 64 NUL, replicate 36 NUL]"
    using chunks_Cons [of 64 "replicate 100 NUL"] chunks_single [of "replicate 36 NUL" 64] by simp
  have d: "take (unat (net_send_len ?s)) (net_send_data ?s) = replicate 100 NUL" by (simp add: net_data_simps)
  have "\<exists>s'. send_turns (res0 # ?rs @ [res0]) ?s = Some s' \<and> send_at s' = S_Udp SOCK_CLIENT \<and> net_sendStart s' = 0 \<and>
      net_send_len s' = 0 \<and> sent s' = sent ?s @ map (\<lambda>c. (to_bytes c, if SOCK_CLIENT = SOCK_CLIENT then server_addr (conn ?s)
        else client_addr (conn ?s))) (chunks 64 (take (unat (net_send_len ?s)) (net_send_data ?s)))"
    by (rule udp_frame_sent; (unfold d c)?; simp add: net_data_simps)
  then show ?thesis unfolding d c by (auto simp: net_data_simps)
qed

theorem serial_to_udp_witness:
  "\<exists>s1 s2. uart_feed (replicate 64 (CHR ''z'')) net_data = Some s1 \<and>
    send_turns [res0, res0\<lparr>r_send := 64\<rparr>, res0] s1 = Some s2 \<and>
    sent s2 = [(to_bytes (replicate 64 (CHR ''z'')), (0xC0A80102, 8000))]"
  using serial_to_udp [OF net_data_gathering, of "replicate 64 (CHR ''z'')" SOCK_CLIENT "res0\<lparr>r_send := 64\<rparr>" res0 res0]
  by (auto simp: net_data_simps)

theorem serial_to_tcp_witness:
  "\<exists>s1 s2. uart_feed (replicate 64 (CHR ''z'')) (net_data\<lparr>send_at := S_Tcp 3 0\<rparr>) = Some s1 \<and>
    SendThread_turn (res0\<lparr>r_send := 64\<rparr>) s1 = Some s2 \<and> tcp_out s2 = [(3, replicate 64 (CHR ''z''))]"
proof -
  have g: "gathering 64 (net_data\<lparr>send_at := S_Tcp 3 0\<rparr>)" using net_data_gathering by (simp add: gathering_def rx_ok_def)
  show ?thesis using serial_to_tcp [OF g, of "replicate 64 (CHR ''z'')" 3 0 "res0\<lparr>r_send := 64\<rparr>"]
    by (auto simp: net_data_simps)
qed

theorem network_to_serial_witness:
  "\<exists>s1 s2. RecvThread_turn res0 net_data = Some s1 \<and> RecvThread_turn res0 s1 = Some s2 \<and>
    stdout (UartSend_turn s2) = [''hello'']"
proof -
  have ok: "net_ok {#} net_data"
    by (simp add: net_ok_def fd_ok_def pc_ok_def buf_ok_def rx_ok_def recv_buf_ok_def held_def net_data_simps)
  from network_to_serial [OF _ ok, of SOCK_CLIENT 0 0 res0 res0] show ?thesis
    by (auto simp: net_data_simps res0_def)
qed

end
