(* ===== verification/Http_Page.thy ===== *)
theory Http_Page
  imports At_Cmd Nor_Flash
begin

text \<open>
  The pages of the web server: the builder that fills the current parameters into an HTML page
  (\<^verbatim>\<open>App/Webserver/http_builder.c\<close>) and the file table of \<^verbatim>\<open>App/Webserver/http_parser.c\<close> over the pages in flash.
  The destination is the 4096 byte array \<^verbatim>\<open>SendData\<close> with an offset; a store outside it is \<open>None\<close>. The source page is
  the C string at \<^verbatim>\<open>mainstr\<close>.
\<close>

section \<open>Filling in a page\<close>

text \<open>\<open>b_buf\<close> is the destination array, \<open>b_dst\<close> the offset of \<^verbatim>\<open>dst\<close>, \<open>b_main\<close> the text at \<^verbatim>\<open>mainstr\<close>, \<open>b_len\<close> is
  \<^verbatim>\<open>datalen\<close>.\<close>

record bld =
  b_buf :: string
  b_dst :: nat
  b_main :: string
  b_len :: u32

text \<open>One insertion: everything before the pattern is copied, the text is printed with its terminator, \<^verbatim>\<open>dst\<close> moves on by
  \<open>adv\<close> and \<^verbatim>\<open>datalen\<close> shrinks by what was copied and by \<open>sub\<close>.\<close>

definition insert_text :: "string \<Rightarrow> string \<Rightarrow> nat \<Rightarrow> nat \<Rightarrow> bld \<Rightarrow> bld option" where
  "insert_text pat text adv sub b =
     (case nustrstr (b_main b) pat of
        None \<Rightarrow> Some b
      | Some substr \<Rightarrow>
          let pre = take (length (b_main b) - length substr) (b_main b)
          in do {
            b1 \<leftarrow> buf_write (b_buf b) (b_dst b) pre;
            b2 \<leftarrow> buf_write b1 (b_dst b + length pre) (text @ [NUL]);
            Some \<lparr>b_buf = b2, b_dst = b_dst b + length pre + adv, b_main = drop (length pat) substr,
                  b_len = b_len b - of_nat (length pre) - of_nat sub\<rparr>
          })"

text \<open>The same for a text that may not be readable.\<close>

definition insert_opt :: "string \<Rightarrow> string option \<Rightarrow> bld \<Rightarrow> bld option" where
  "insert_opt pat v b =
     (case nustrstr (b_main b) pat of
        None \<Rightarrow> Some b
      | Some _ \<Rightarrow> (case v of None \<Rightarrow> None
                   | Some t \<Rightarrow> insert_text pat (pat @ t) (length pat + length t) (length pat + length t) b))"

text \<open>The copy of the rest of the page; \<^verbatim>\<open>datalen--\<close> is tested before it is decremented.\<close>

fun copy_rest :: "string \<Rightarrow> nat \<Rightarrow> string \<Rightarrow> u32 \<Rightarrow> (string \<times> u32) option" where
  "copy_rest buf dst [] dl = Some (buf, dl)"
| "copy_rest buf dst (c # m) dl =
     (if dst < length buf then
        if dl = 0 then Some (buf[dst := c], dl - 1) else copy_rest (buf[dst := c]) (Suc dst) m (dl - 1)
      else None)"

definition finish_page :: "u32 \<Rightarrow> bld \<Rightarrow> (string \<times> u32) option" where
  "finish_page len b =
     do { (buf, dl) \<leftarrow> copy_rest (b_buf b) (b_dst b) (b_main b) (b_len b); Some (buf, len - dl) }"

section \<open>The status page\<close>

definition mac_text :: "bytes \<Rightarrow> string" where
  "mac_text m = hex2_of_u8 (m ! 0) @ '':'' @ hex2_of_u8 (m ! 1) @ '':'' @ hex2_of_u8 (m ! 2) @ '':'' @
     hex2_of_u8 (m ! 3) @ '':'' @ hex2_of_u8 (m ! 4) @ '':'' @ hex2_of_u8 (m ! 5)"

definition version_text :: "bytes \<Rightarrow> string" where
  "version_text v = hex_of_u8 (v ! 0) @ ''.'' @ hex2_of_u8 (v ! 1) @ ''.'' @ hex2_of_u8 (v ! 2)"

definition html_rebuild_sysstatus ::
  "'f env \<Rightarrow> ('f, 'a) snet_scheme \<Rightarrow> string \<Rightarrow> nat \<Rightarrow> string \<Rightarrow> u32 \<Rightarrow> (string \<times> u32) option" where
  "html_rebuild_sysstatus e s buf dest src len =
     do {
       b1 \<leftarrow> insert_text ''SDK Version:'' (''SDK Version: '' @ version_text (fw_ver e)) 20 12
              \<lparr>b_buf = buf, b_dst = dest, b_main = src, b_len = len\<rparr>;
       b2 \<leftarrow> insert_text ''SerialNet Version:'' (''SerialNet Version: '' @ version_text AtVerNum) 26 18 b1;
       b3 \<leftarrow> insert_text ''IP ADDR:'' (''IP ADDR: '' @ inet_ntoa (netif_ip e)) (9 + length (inet_ntoa (netif_ip e))) 8 b2;
       b4 \<leftarrow> insert_text ''MAC ADDR:'' (''MAC ADDR: '' @ mac_text (PermanentAddress s)) 27 9 b3;
       finish_page len b4
     }"

section \<open>The Wi-Fi page\<close>

definition SELECT_CHECK_DEFAULT :: string where \<open>SELECT_CHECK_DEFAULT = '' selected="true"''\<close>
definition RADIO_CHECK_DEFAULT :: string where \<open>RADIO_CHECK_DEFAULT = '' checked="checked" ''\<close>

definition option_value :: "string \<Rightarrow> string" where
  \<open>option_value n = ''option value="'' @ n @ ''"''\<close>

definition name_value :: "string \<Rightarrow> string" where
  \<open>name_value n = ''name="'' @ n @ ''" value="''\<close>

text \<open>Marking one alternative as chosen.\<close>

definition mark :: "string \<Rightarrow> string \<Rightarrow> bld \<Rightarrow> bld option" where
  "mark valuestr check b =
     insert_text valuestr (valuestr @ '' '' @ check) (length valuestr + length check + 1) (length valuestr + length check + 1) b"

definition select_mark :: "u8 \<Rightarrow> bld \<Rightarrow> bld option" where
  "select_mark n b = mark (option_value (dec_of_nat (unat n))) SELECT_CHECK_DEFAULT b"

text \<open>The C string in a byte array; \<open>None\<close> when it runs past the array.\<close>

definition arr_str :: "bytes \<Rightarrow> string option" where
  "arr_str b = (if 0 \<in> set b then Some (of_bytes b) else None)"

text \<open>The value \<^verbatim>\<open>pt\<close> points to: \<open>x\<close> in station mode, \<open>y\<close> as access point, NULL otherwise.\<close>

definition by_mode :: "u8 \<Rightarrow> string option \<Rightarrow> string option \<Rightarrow> string option" where
  "by_mode p x y = (if p = 0 then x else if p = 2 then y else None)"

definition ip_text :: "bytes \<Rightarrow> string" where
  "ip_text b = inet_ntoa (of_le32 b)"

definition html_rebuild_wifibase ::
  "USER_CFG_PARAM \<Rightarrow> string \<Rightarrow> nat \<Rightarrow> string \<Rightarrow> u32 \<Rightarrow> (string \<times> u32) option" where
  "html_rebuild_wifibase u buf dest src len =
     (let w = WiFiCfg (cfg u); p = Protocol w; ip = IPCfg (cfg u); wip = web_IPCfg u
      in do {
        b1 \<leftarrow> select_mark p \<lparr>b_buf = buf, b_dst = dest, b_main = src, b_len = len\<rparr>;
        b2 \<leftarrow> select_mark (Encry w) b1;
        b3 \<leftarrow> select_mark (AuthMode w) b2;
        b4 \<leftarrow> insert_opt (name_value ''apssid'') (by_mode p (arr_str (web_ssid u)) (arr_str (Ssid w))) b3;
        b5 \<leftarrow> insert_opt (name_value ''apkey'') (by_mode p (arr_str (web_key u)) (arr_str (PSK w))) b4;
        b6 \<leftarrow> insert_opt (name_value ''apipaddr'') (by_mode p (Some (ip_text (Ip wip))) (Some (ip_text (Ip ip)))) b5;
        b7 \<leftarrow> insert_opt (name_value ''apnetmask'') (by_mode p (Some (ip_text (Netmask wip))) (Some (ip_text (Netmask ip)))) b6;
        b8 \<leftarrow> select_mark (Channel w) b7;
        b9 \<leftarrow> insert_opt (name_value ''stassid'') (by_mode p (arr_str (Ssid w)) (arr_str (web_ssid u))) b8;
        b10 \<leftarrow> insert_opt (name_value ''stakey'') (by_mode p (arr_str (PSK w)) (arr_str (web_key u))) b9;
        b11 \<leftarrow> select_mark (bDhcp ip) b10;
        b12 \<leftarrow> insert_opt (name_value ''staipaddr'') (by_mode p (Some (ip_text (Ip ip))) (Some (ip_text (Ip wip)))) b11;
        b13 \<leftarrow> insert_opt (name_value ''stanetmask'') (by_mode p (Some (ip_text (Netmask ip))) (Some (ip_text (Netmask wip)))) b12;
        b14 \<leftarrow> insert_opt (name_value ''gateway'') (Some (ip_text (GateWay wip))) b13;
        b15 \<leftarrow> insert_opt (name_value ''dnsserv'') (Some (ip_text (Dns wip))) b14;
        finish_page len b15
      })"

section \<open>The network page\<close>

text \<open>\<^verbatim>\<open>digital\<close> is overwritten by \<^verbatim>\<open>itoa\<close> when a number is filled in, and \<^verbatim>\<open>valuestr\<close> keeps its value when a parameter has
  none of the two expected values.\<close>

definition fill_number :: "string \<Rightarrow> u16 \<Rightarrow> string \<times> bld \<Rightarrow> (string \<times> bld) option" where
  "fill_number pat n db =
     (case db of (digital, b) \<Rightarrow>
        (case nustrstr (b_main b) pat of
           None \<Rightarrow> Some (digital, b)
         | Some _ \<Rightarrow> do {
             d \<leftarrow> itoa (ucast n) 0;
             b' \<leftarrow> insert_text pat (pat @ dec_of_nat (unat n)) (length pat + length d) (length pat + length d) b;
             Some (d, b')
           }))"

definition radio_value :: "string \<Rightarrow> int \<Rightarrow> string \<Rightarrow> string" where
  "radio_value n v old =
     (if v = 0 then name_value n @ ''0'' @ [CHR 0x22] else if v = 1 then name_value n @ ''1'' @ [CHR 0x22] else old)"

definition html_rebuild_wifinet ::
  "int \<Rightarrow> USER_CFG_PARAM \<Rightarrow> string \<Rightarrow> nat \<Rightarrow> string \<Rightarrow> u32 \<Rightarrow> (string \<times> u32) option" where
  "html_rebuild_wifinet workmode u buf dest src len =
     (let v0 = option_value (dec_of_int (sint (Baudrate u)))
      in do {
        b1 \<leftarrow> mark v0 SELECT_CHECK_DEFAULT \<lparr>b_buf = buf, b_dst = dest, b_main = src, b_len = len\<rparr>;
        db2 \<leftarrow> fill_number (name_value ''framelen'') (frameLength u) (v0, b1);
        db3 \<leftarrow> fill_number (name_value ''frametime'') (frameGap u) db2;
        let v4 = radio_value ''workmode'' workmode (fst db3);
        b4 \<leftarrow> mark v4 RADIO_CHECK_DEFAULT (snd db3);
        let v5 = radio_value ''socktype'' (uint (socketProtocol u)) v4;
        b5 \<leftarrow> mark v5 RADIO_CHECK_DEFAULT b4;
        let v6 = radio_value ''conntype'' (uint (socketType u)) v5;
        b6 \<leftarrow> mark v6 RADIO_CHECK_DEFAULT b5;
        b7 \<leftarrow> insert_opt (name_value ''remoteip'') (Some (inet_ntoa (remoteCommIp u))) b6;
        db8 \<leftarrow> fill_number (name_value ''port'') (socketPort u) (fst db3, b7);
        finish_page len (snd db8)
      })"

section \<open>What the builder writes\<close>

text \<open>Reference: the page with the first occurrence of each pattern, each behind the one before, replaced by its text; and
  what \<^verbatim>\<open>datalen\<close> loses on the way.\<close>

fun fill :: "(string \<times> string \<times> nat) list \<Rightarrow> string \<Rightarrow> string" where
  "fill [] s = s"
| "fill ((pat, text, sub) # r) s =
     (case nustrstr s pat of
        None \<Rightarrow> fill r s
      | Some t \<Rightarrow> take (length s - length t) s @ text @ fill r (drop (length pat) t))"

fun cost :: "(string \<times> string \<times> nat) list \<Rightarrow> string \<Rightarrow> nat" where
  "cost [] s = length s"
| "cost ((pat, text, sub) # r) s =
     (case nustrstr s pat of
        None \<Rightarrow> cost r s
      | Some t \<Rightarrow> (length s - length t) + sub + cost r (drop (length pat) t))"

fun inserts :: "(string \<times> string \<times> nat) list \<Rightarrow> bld \<Rightarrow> bld option" where
  "inserts [] b = Some b"
| "inserts ((pat, text, sub) # r) b = do { b1 \<leftarrow> insert_text pat text (length text) sub b; inserts r b1 }"

lemma inserts_Nil [simp]: "inserts [] = Some"
  by (rule ext) simp

lemma inserts_append: "inserts (as @ bs) b = Option.bind (inserts as b) (inserts bs)"
proof (induction as b rule: inserts.induct)
  case (2 pat tx sub r b)
  then show ?case by (cases "insert_text pat tx (length tx) sub b") simp_all
qed simp

text \<open>An array that holds \<open>xs\<close> at \<open>d\<close> and agrees with \<open>buf\<close> before.\<close>

definition holds_at :: "string \<Rightarrow> nat \<Rightarrow> string \<Rightarrow> string \<Rightarrow> bool" where
  "holds_at buf d xs buf' \<longleftrightarrow> length buf' = length buf \<and> take d buf' = take d buf \<and> take (length xs) (drop d buf') = xs"

lemma holds_at_append:
  assumes "holds_at buf d xs b1" "holds_at b1 (d + length xs) ys b2" "d + length xs \<le> length buf"
  shows "holds_at buf d (xs @ ys) b2"
proof -
  have t: "take (d + length xs) b2 = take (d + length xs) b1" "length b2 = length b1"
    using assms(2) by (simp_all add: holds_at_def)
  have "take d b2 = take d b1" using arg_cong [OF t(1), of "take d"] by simp
  moreover have "take (length xs) (drop d b2) = take (length xs) (drop d b1)"
    using arg_cong [OF t(1), of "drop d"] by (simp add: drop_take)
  ultimately show ?thesis
    using assms by (simp add: holds_at_def take_add add.commute)
qed

lemma copy_rest_ok:
  "dst + length m \<le> length buf \<Longrightarrow> length m \<le> unat dl \<Longrightarrow>
     \<exists>buf'. copy_rest buf dst m dl = Some (buf', dl - of_nat (length m)) \<and> holds_at buf dst m buf'"
proof (induction m arbitrary: buf dst dl)
  case (Cons c m)
  have dl: "dl \<noteq> 0" using Cons.prems(2) by auto
  then have u: "unat (dl - 1) = unat dl - 1" by (simp add: unat_minus_one)
  obtain buf' where b: "copy_rest (buf[dst := c]) (Suc dst) m (dl - 1) = Some (buf', dl - 1 - of_nat (length m))"
      "holds_at (buf[dst := c]) (dst + length [c]) m buf'"
    using Cons.IH [of "Suc dst" "buf[dst := c]" "dl - 1"] Cons.prems u by fastforce
  have "holds_at buf dst [c] (buf[dst := c])"
    using Cons.prems(1) by (simp add: holds_at_def take_Suc_conv_app_nth drop_update_cancel take_Suc hd_drop_conv_nth)
  from holds_at_append [OF this b(2)] Cons.prems(1) b(1) dl show ?case by simp
qed (simp add: holds_at_def)

lemma nustrstr_found:
  assumes "nustrstr s pat = Some t" "cstring pat" "pat \<noteq> []"
  shows "s = take (length s - length t) s @ t" "t = pat @ drop (length pat) t"
proof -
  have "deref pat \<noteq> NUL" using assms(2,3) by (cases pat) auto
  then obtain p where p: "s = p @ t" "prefix pat t"
    using nustrstr_scan_Some [OF assms(2,3), of s t] assms(1) by (auto simp: nustrstr_def)
  then show "s = take (length s - length t) s @ t" by simp
  from p(2) show "t = pat @ drop (length pat) t" by (auto simp: prefix_def)
qed

text \<open>The whole run of a builder whose \<^verbatim>\<open>dst\<close> moves by what was printed.\<close>

lemma inserts_finish:
  assumes "\<forall>(pat, tx, sub) \<in> set items. cstring pat \<and> pat \<noteq> []"
    and "b_dst b + length (fill items (b_main b)) < length (b_buf b)" "cost items (b_main b) \<le> unat (b_len b)"
  shows "\<exists>buf'. Option.bind (inserts items b) (finish_page len) =
      Some (buf', len - (b_len b - of_nat (cost items (b_main b)))) \<and>
    holds_at (b_buf b) (b_dst b) (fill items (b_main b)) buf'"
  using assms
proof (induction items "b_main b" arbitrary: b rule: fill.induct)
  case 1
  then obtain buf' where "copy_rest (b_buf b) (b_dst b) (b_main b) (b_len b) = Some (buf', b_len b - of_nat (length (b_main b)))"
      "holds_at (b_buf b) (b_dst b) (b_main b) buf'"
    using copy_rest_ok [of "b_dst b" "b_main b" "b_buf b" "b_len b"] by auto
  then show ?case by (simp add: finish_page_def)
next
  case (2 pat tx sub r)
  show ?case
  proof (cases "nustrstr (b_main b) pat")
    case None
    with 2 show ?thesis by (simp add: insert_text_def)
  next
    case (Some t)
    define pre where "pre = take (length (b_main b) - length t) (b_main b)"
    have pl: "length pre = length (b_main b) - length t" by (simp add: pre_def)
    have f: "fill ((pat, tx, sub) # r) (b_main b) = pre @ tx @ fill r (drop (length pat) t)"
      using Some by (simp add: pre_def)
    have c: "cost ((pat, tx, sub) # r) (b_main b) = length pre + sub + cost r (drop (length pat) t)"
      using Some pl by simp
    have room: "b_dst b + length pre + length tx + length (fill r (drop (length pat) t)) < length (b_buf b)"
      using 2(4) unfolding f by simp
    define b1 where "b1 = take (b_dst b) (b_buf b) @ pre @ drop (b_dst b + length pre) (b_buf b)"
    have b1: "buf_write (b_buf b) (b_dst b) pre = Some b1" "length b1 = length (b_buf b)" "holds_at (b_buf b) (b_dst b) pre b1"
      using room by (simp_all add: buf_write_def b1_def holds_at_def)
    define b2 where "b2 = take (b_dst b + length pre) b1 @ (tx @ [NUL]) @ drop (b_dst b + length pre + length (tx @ [NUL])) b1"
    have b2: "buf_write b1 (b_dst b + length pre) (tx @ [NUL]) = Some b2" "length b2 = length b1"
        "holds_at b1 (b_dst b + length pre) tx b2"
      using room b1(2) by (simp_all add: buf_write_def b2_def holds_at_def)
    define b' where "b' = \<lparr>b_buf = b2, b_dst = b_dst b + length pre + length tx, b_main = drop (length pat) t,
        b_len = b_len b - of_nat (length pre) - of_nat sub\<rparr>"
    have step: "insert_text pat tx (length tx) sub b = Some b'"
      unfolding insert_text_def using Some b1(1) b2(1) by (simp add: pre_def [symmetric] b'_def Let_def)
    have lb: "unat (b_len b') = unat (b_len b) - length pre - sub"
    proof -
      have le: "length pre + sub \<le> unat (b_len b)" using 2(5) unfolding c by simp
      have "b_len b' = b_len b - of_nat (length pre + sub)" by (simp add: b'_def)
      moreover have "unat (b_len b) < 2 ^ 32" using unsigned_less [of "b_len b"] by simp
      with le have "unat (of_nat (length pre + sub) :: u32) = length pre + sub" by (simp only: unat_of_nat) simp
      ultimately show ?thesis using le by (simp add: unat_sub word_le_nat_alt)
    qed
    obtain buf' where buf': "Option.bind (inserts r b') (finish_page len) =
        Some (buf', len - (b_len b' - of_nat (cost r (b_main b'))))"
        "holds_at (b_buf b') (b_dst b') (fill r (b_main b')) buf'"
    proof -
      have "\<exists>buf'. Option.bind (inserts r b') (finish_page len) =
          Some (buf', len - (b_len b' - of_nat (cost r (b_main b')))) \<and> holds_at (b_buf b') (b_dst b') (fill r (b_main b')) buf'"
        by (rule 2(2) [OF Some]) (use 2(3,5) room c lb b2(2) b1(2) in \<open>auto simp: b'_def\<close>)
      with that show ?thesis by blast
    qed
    have "holds_at (b_buf b) (b_dst b) (pre @ tx) b2"
      by (rule holds_at_append [OF b1(3) b2(3)]) (use room in simp)
    then have "holds_at (b_buf b) (b_dst b) ((pre @ tx) @ fill r (drop (length pat) t)) buf'"
      by (rule holds_at_append) (use buf'(2) room in \<open>simp_all add: b'_def add.assoc\<close>)
    then show ?thesis
      using step buf'(1) unfolding f c by (simp add: b'_def algebra_simps)
  qed
qed

lemma cost_pattern: "\<forall>(pat, tx, sub) \<in> set items. cstring pat \<and> pat \<noteq> [] \<and> sub = length pat \<Longrightarrow> cost items s = length s"
proof (induction items s rule: cost.induct)
  case (2 pat tx sub r s)
  show ?case
  proof (cases "nustrstr s pat")
    case (Some t)
    have c: "cstring pat" "pat \<noteq> []" "sub = length pat" using 2(3) by auto
    note f = nustrstr_found [OF Some c(1,2)]
    have "length t \<le> length s" using arg_cong [OF f(1), of length] by simp
    moreover have "length pat \<le> length t" using arg_cong [OF f(2), of length] by simp
    moreover have "cost r (drop (length pat) t) = length (drop (length pat) t)" using 2(2) [OF Some] 2(3) by simp
    ultimately show ?thesis using Some c(3) by simp
  qed (use 2 in simp)
qed simp

lemma cost_text: "\<forall>(pat, tx, sub) \<in> set items. sub = length tx \<Longrightarrow> cost items s = length (fill items s)"
proof (induction items s rule: cost.induct)
  case (2 pat tx sub r s)
  then show ?case by (cases "nustrstr s pat") auto
qed simp

subsection \<open>Status page\<close>

definition status_items :: "'f env \<Rightarrow> ('f, 'a) snet_scheme \<Rightarrow> (string \<times> string \<times> nat) list" where
  "status_items e s =
     [(''SDK Version:'', ''SDK Version: '' @ version_text (fw_ver e), 12),
      (''SerialNet Version:'', ''SerialNet Version: '' @ version_text AtVerNum, 18),
      (''IP ADDR:'', ''IP ADDR: '' @ inet_ntoa (netif_ip e), 8),
      (''MAC ADDR:'', ''MAC ADDR: '' @ mac_text (PermanentAddress s), 9)]"

lemma hex_length [simp]: "length (hex2_of_u8 b) = 2" "length (hex_of_u8 b) = (if unat b < 16 then 1 else 2)"
  by (simp_all add: hex2_of_u8_def hex_of_u8_def)

lemma status_inserts:
  assumes "unat (fw_ver e ! 0) < 16"
  shows "html_rebuild_sysstatus e s buf dest src len =
    Option.bind (inserts (status_items e s) \<lparr>b_buf = buf, b_dst = dest, b_main = src, b_len = len\<rparr>) (finish_page len)"
proof -
  have l: "length (''SDK Version: '' @ version_text (fw_ver e)) = 20" "length (''SerialNet Version: '' @ version_text AtVerNum) = 26"
      "length (''MAC ADDR: '' @ mac_text (PermanentAddress s)) = 27"
      "length (''IP ADDR: '' @ inet_ntoa (netif_ip e)) = 9 + length (inet_ntoa (netif_ip e))"
    using assms by (simp_all add: version_text_def AtVerNum_def mac_text_def)
  show ?thesis
    unfolding html_rebuild_sysstatus_def status_items_def inserts.simps l inserts_Nil Option.bind_assoc Option.bind_runit ..
qed

lemma status_built:
  assumes "unat (fw_ver e ! 0) < 16" "dest + length (fill (status_items e s) src) < length buf" "length src \<le> unat len"
  shows "\<exists>buf'. html_rebuild_sysstatus e s buf dest src len = Some (buf', of_nat (length src)) \<and>
    holds_at buf dest (fill (status_items e s) src) buf'"
proof -
  have i: "\<forall>(pat, tx, sub) \<in> set (status_items e s). cstring pat \<and> pat \<noteq> [] \<and> sub = length pat"
    by (simp add: status_items_def cstring_def NUL_def)
  note c = cost_pattern [OF i, of src]
  from i have "\<forall>(pat, tx, sub) \<in> set (status_items e s). cstring pat \<and> pat \<noteq> []" by auto
  from inserts_finish [OF this, of "\<lparr>b_buf = buf, b_dst = dest, b_main = src, b_len = len\<rparr>" len] show ?thesis
    unfolding status_inserts [OF assms(1)] using assms(2,3) c by simp
qed

subsection \<open>Parameter pages\<close>

definition value_item :: "string \<Rightarrow> string \<Rightarrow> string \<times> string \<times> nat" where
  "value_item n t = (name_value n, name_value n @ t, length (name_value n) + length t)"

definition mark_item :: "string \<Rightarrow> string \<Rightarrow> string \<times> string \<times> nat" where
  "mark_item v check = (v, v @ '' '' @ check, length v + length check + 1)"

definition select_item :: "u8 \<Rightarrow> string \<times> string \<times> nat" where
  "select_item n = mark_item (option_value (dec_of_nat (unat n))) SELECT_CHECK_DEFAULT"

text \<open>The parameters the Wi-Fi page shows; \<open>a\<close> and \<open>b\<close> are the current and the other configuration of name, key, address and
  mask, exchanged by \<open>swap\<close> in station mode.\<close>

definition wifibase_items :: "USER_CFG_PARAM \<Rightarrow> (string \<times> string \<times> nat) list" where
  "wifibase_items u =
     (let w = WiFiCfg (cfg u); ip = IPCfg (cfg u); wip = web_IPCfg u;
          own = (of_bytes (Ssid w), of_bytes (PSK w), ip_text (Ip ip), ip_text (Netmask ip));
          web = (of_bytes (web_ssid u), of_bytes (web_key u), ip_text (Ip wip), ip_text (Netmask wip));
          ap = (if Protocol w = 0 then web else own); sta = (if Protocol w = 0 then own else web)
      in [select_item (Protocol w), select_item (Encry w), select_item (AuthMode w),
          value_item ''apssid'' (fst ap), value_item ''apkey'' (fst (snd ap)), value_item ''apipaddr'' (fst (snd (snd ap))),
          value_item ''apnetmask'' (snd (snd (snd ap))), select_item (Channel w), value_item ''stassid'' (fst sta),
          value_item ''stakey'' (fst (snd sta)), select_item (bDhcp ip), value_item ''staipaddr'' (fst (snd (snd sta))),
          value_item ''stanetmask'' (snd (snd (snd sta))), value_item ''gateway'' (ip_text (GateWay wip)),
          value_item ''dnsserv'' (ip_text (Dns wip))])"

definition page_user :: "USER_CFG_PARAM \<Rightarrow> bool" where
  "page_user u \<longleftrightarrow> (Protocol (WiFiCfg (cfg u)) = 0 \<or> Protocol (WiFiCfg (cfg u)) = 2) \<and> 0 \<in> set (web_ssid u) \<and>
     0 \<in> set (web_key u) \<and> 0 \<in> set (Ssid (WiFiCfg (cfg u))) \<and> 0 \<in> set (PSK (WiFiCfg (cfg u)))"

lemma insert_opt_item: "insert_opt (name_value n) (Some t) b = inserts [value_item n t] b"
  by (cases "nustrstr (b_main b) (name_value n)") (simp_all add: insert_opt_def value_item_def insert_text_def Let_def)

lemma mark_item_step: "mark v check b = inserts [mark_item v check] b"
proof -
  have "length (v @ '' '' @ check) = length v + length check + 1" by simp
  then show ?thesis unfolding mark_def mark_item_def inserts.simps by simp
qed

lemma select_mark_item: "select_mark n b = inserts [select_item n] b"
  by (simp add: select_mark_def select_item_def mark_item_step)

lemma wifibase_inserts:
  assumes "page_user u"
  shows "html_rebuild_wifibase u buf dest src len =
    Option.bind (inserts (wifibase_items u) \<lparr>b_buf = buf, b_dst = dest, b_main = src, b_len = len\<rparr>) (finish_page len)"
proof -
  have a: "arr_str (web_ssid u) = Some (of_bytes (web_ssid u))" "arr_str (web_key u) = Some (of_bytes (web_key u))"
      "arr_str (Ssid (WiFiCfg (cfg u))) = Some (of_bytes (Ssid (WiFiCfg (cfg u))))"
      "arr_str (PSK (WiFiCfg (cfg u))) = Some (of_bytes (PSK (WiFiCfg (cfg u))))"
    using assms by (simp_all add: page_user_def arr_str_def)
  have split: "inserts (i # j # is) b = do { b1 \<leftarrow> inserts [i] b; inserts (j # is) b1 }" for i j "is" b
    using inserts_append [of "[i]" "j # is"] by simp
  have two: "((2 :: u8) = 0) = False" by simp
  have "Protocol (WiFiCfg (cfg u)) = 0 \<or> Protocol (WiFiCfg (cfg u)) = 2" using assms by (simp add: page_user_def)
  then show ?thesis
    unfolding html_rebuild_wifibase_def wifibase_items_def Let_def split select_mark_item a
    by (elim disjE; simp only: by_mode_def insert_opt_item Option.bind_assoc simp_thms if_True if_False fst_conv snd_conv two)
qed

lemma cstring_dec [simp]: "cstring (dec_of_nat n)" "cstring (dec_of_int i)"
proof -
  have "c \<noteq> NUL" if "isdigit c" for c using that by (auto simp: isdigit_def NUL_def)
  with dec_of_nat_digits show d: "cstring (dec_of_nat n)" for n by (auto simp: cstring_def)
  show "cstring (dec_of_int i)" using d by (simp add: dec_of_int_def NUL_def)
qed

lemma pattern_ok [simp]:
  "cstring (option_value n) \<longleftrightarrow> cstring n" "option_value n \<noteq> []" "cstring (name_value n) \<longleftrightarrow> cstring n" "name_value n \<noteq> []"
  by (simp_all add: option_value_def name_value_def NUL_def)

text \<open>An item list whose \<open>sub\<close> is the length of the printed text.\<close>

definition exact_items :: "(string \<times> string \<times> nat) list \<Rightarrow> bool" where
  "exact_items items \<longleftrightarrow> (\<forall>(pat, tx, sub) \<in> set items. cstring pat \<and> pat \<noteq> [] \<and> sub = length tx)"

lemma exact_items_simps [simp]:
  "exact_items []" "exact_items (select_item n # r) \<longleftrightarrow> exact_items r"
  "cstring n' \<Longrightarrow> exact_items (value_item n' t # r) \<longleftrightarrow> exact_items r"
  "cstring v \<Longrightarrow> v \<noteq> [] \<Longrightarrow> exact_items (mark_item v check # r) \<longleftrightarrow> exact_items r"
  by (auto simp: exact_items_def select_item_def value_item_def mark_item_def)

lemma exact_finish:
  assumes "exact_items items" "dest + length (fill items src) < length buf" "length (fill items src) \<le> unat len"
  shows "\<exists>buf'. Option.bind (inserts items \<lparr>b_buf = buf, b_dst = dest, b_main = src, b_len = len\<rparr>) (finish_page len) =
      Some (buf', of_nat (length (fill items src))) \<and> holds_at buf dest (fill items src) buf'"
proof -
  have i: "\<forall>(pat, tx, sub) \<in> set items. cstring pat \<and> pat \<noteq> []" "\<forall>(pat, tx, sub) \<in> set items. sub = length tx"
    using assms(1) by (auto simp: exact_items_def)
  from inserts_finish [OF i(1), of "\<lparr>b_buf = buf, b_dst = dest, b_main = src, b_len = len\<rparr>" len] show ?thesis
    using assms(2,3) cost_text [OF i(2), of src] by simp
qed

lemma wifibase_built:
  assumes "page_user u" "dest + length (fill (wifibase_items u) src) < length buf" "length (fill (wifibase_items u) src) \<le> unat len"
  shows "\<exists>buf'. html_rebuild_wifibase u buf dest src len = Some (buf', of_nat (length (fill (wifibase_items u) src))) \<and>
    holds_at buf dest (fill (wifibase_items u) src) buf'"
proof -
  have "exact_items (wifibase_items u)" by (simp add: wifibase_items_def Let_def NUL_def)
  from exact_finish [OF this assms(2,3)] show ?thesis by (simp add: wifibase_inserts [OF assms(1)])
qed

definition radio_pat :: "string \<Rightarrow> int \<Rightarrow> string" where
  "radio_pat n v = name_value n @ (if v = 0 then ''0'' else ''1'') @ [CHR 0x22]"

definition wifinet_items :: "int \<Rightarrow> USER_CFG_PARAM \<Rightarrow> (string \<times> string \<times> nat) list" where
  "wifinet_items workmode u =
     [mark_item (option_value (dec_of_int (sint (Baudrate u)))) SELECT_CHECK_DEFAULT,
      value_item ''framelen'' (dec_of_nat (unat (frameLength u))), value_item ''frametime'' (dec_of_nat (unat (frameGap u))),
      mark_item (radio_pat ''workmode'' workmode) RADIO_CHECK_DEFAULT,
      mark_item (radio_pat ''socktype'' (uint (socketProtocol u))) RADIO_CHECK_DEFAULT,
      mark_item (radio_pat ''conntype'' (uint (socketType u))) RADIO_CHECK_DEFAULT,
      value_item ''remoteip'' (inet_ntoa (remoteCommIp u)), value_item ''port'' (dec_of_nat (unat (socketPort u)))]"

lemma itoa_u16: "itoa (ucast (n :: u16)) 0 = Some (dec_of_nat (unat n))"
proof -
  have "itoa (ucast n) 0 = itoa (ucast n) 10" by (simp add: itoa_def utoa_def)
  moreover have "sint (ucast n :: u32) = int (unat n)"
  proof -
    have "uint n < 65536" "0 \<le> uint n" using unsigned_less [of n] by simp_all
    moreover have "(2 :: int) ^ 31 = 2147483648" by simp
    ultimately have "signed_take_bit 31 (uint n) = uint n" by (intro signed_take_bit_int_eq_self) linarith+
    then show ?thesis by (simp add: signed_ucast_eq)
  qed
  ultimately show ?thesis using itoa_dec [of "ucast n"] by (simp add: dec_of_int_def)
qed

lemma fill_number_item:
  "fill_number (name_value n) m (d, b) =
     map_option (\<lambda>b'. (if nustrstr (b_main b) (name_value n) = None then d else dec_of_nat (unat m), b'))
       (inserts [value_item n (dec_of_nat (unat m))] b)"
proof (cases "nustrstr (b_main b) (name_value n)")
  case None
  then show ?thesis by (simp add: fill_number_def value_item_def insert_text_def)
next
  case (Some a)
  then show ?thesis
    by (cases "insert_text (name_value n) (name_value n @ dec_of_nat (unat m)) (length (name_value n) + length (dec_of_nat (unat m)))
        (length (name_value n) + length (dec_of_nat (unat m))) b")
      (simp_all add: fill_number_def value_item_def itoa_u16)
qed

lemma wifinet_inserts:
  assumes "workmode \<in> {0, 1}" "uint (socketProtocol u) \<in> {0, 1}" "uint (socketType u) \<in> {0, 1}"
  shows "html_rebuild_wifinet workmode u buf dest src len =
    Option.bind (inserts (wifinet_items workmode u) \<lparr>b_buf = buf, b_dst = dest, b_main = src, b_len = len\<rparr>) (finish_page len)"
proof -
  have r: "radio_value n workmode v = radio_pat n workmode"
      "radio_value n (uint (socketProtocol u)) v = radio_pat n (uint (socketProtocol u))"
      "radio_value n (uint (socketType u)) v = radio_pat n (uint (socketType u))" for n v
    using assms by (auto simp: radio_value_def radio_pat_def)
  have split: "inserts (i # j # is) b = do { b1 \<leftarrow> inserts [i] b; inserts (j # is) b1 }" for i j "is" b
    using inserts_append [of "[i]" "j # is"] by simp
  have bm: "Option.bind (map_option f x) g = Option.bind x (\<lambda>y. g (f y))" for f x g by (cases x) simp_all
  show ?thesis
    unfolding html_rebuild_wifinet_def wifinet_items_def Let_def split r mark_item_step
    by (simp only: fill_number_item bm insert_opt_item Option.bind_assoc fst_conv snd_conv)
qed

lemma wifinet_built:
  assumes "workmode \<in> {0, 1}" "uint (socketProtocol u) \<in> {0, 1}" "uint (socketType u) \<in> {0, 1}"
    and "dest + length (fill (wifinet_items workmode u) src) < length buf" "length (fill (wifinet_items workmode u) src) \<le> unat len"
  shows "\<exists>buf'. html_rebuild_wifinet workmode u buf dest src len =
      Some (buf', of_nat (length (fill (wifinet_items workmode u) src))) \<and> holds_at buf dest (fill (wifinet_items workmode u) src) buf'"
proof -
  have "exact_items (wifinet_items workmode u)" by (simp add: wifinet_items_def radio_pat_def NUL_def)
  from exact_finish [OF this assms(4,5)] show ?thesis by (simp add: wifinet_inserts [OF assms(1-3)])
qed

end
