(* ===== verification/Http_File.thy ===== *)
theory Http_File
  imports Http_Page
begin

text \<open>
  The files of the web server and their transfer: the page table of \<^verbatim>\<open>App/Webserver/http_parser.c\<close> over the pages burnt
  into flash, and \<^verbatim>\<open>http_sendfile\<close> of \<^verbatim>\<open>App/Webserver/http_engine.c\<close>. Segments given to \<^verbatim>\<open>send\<close> are recorded with their
  descriptor. \<open>None\<close> is an access outside an array, or a transfer loop that does not end.
\<close>

section \<open>State\<close>

definition TCP_ENTRIES :: nat where "TCP_ENTRIES = 5"
definition SEND_BUFFER_SIZE :: nat where "SEND_BUFFER_SIZE = 4096"
definition HTTP_SEND_BUFFER_MAX :: nat where "HTTP_SEND_BUFFER_MAX = 4096"
definition HTTP_CLOSED :: u32 where "HTTP_CLOSED = 0"
definition HTTP_SEND :: u32 where "HTTP_SEND = 1"

record HTTP_Table =
  h_sock_fd :: int
  h_status :: u32
  h_file :: u32
  h_ftype :: u32
  h_flen :: u32
  h_fpos :: u32
  h_fparse :: u32
  h_fparam :: u32

text \<open>\<^verbatim>\<open>html_buf\<close> is NULL or a block of 4096 bytes, \<^verbatim>\<open>Rec_Data\<close> the block requests are received into; \<open>updFlag\<close>, \<open>firmwareSize\<close>, \<open>fmwStartSign\<close> are the static variables of
  \<^verbatim>\<open>http_engine\<close> and \<^verbatim>\<open>http_update\<close>.\<close>

record 'f web = "'f snet" +
  http_table :: "HTTP_Table list"
  SendData :: string
  Rec_Data :: string
  html_buf :: "string option"
  http_sent :: "(int \<times> string) list"
  updFlag :: u32
  firmwareSize :: u32
  fmwStartSign :: int

definition upd_entry :: "nat \<Rightarrow> (HTTP_Table \<Rightarrow> HTTP_Table) \<Rightarrow> ('f, 'a) web_scheme \<Rightarrow> ('f, 'a) web_scheme" where
  "upd_entry i f s = s\<lparr>http_table := (http_table s)[i := f (http_table s ! i)]\<rparr>"

section \<open>The page table\<close>

definition UNKNOWN_FILE :: u32 where "UNKNOWN_FILE = 0"
definition HTML_FILE :: u32 where "HTML_FILE = 1"
definition XML_FILE :: u32 where "XML_FILE = 2"
definition JS_FILE :: u32 where "JS_FILE = 3"
definition CSS_FILE :: u32 where "CSS_FILE = 4"
definition TXT_FILE :: u32 where "TXT_FILE = 5"
definition ICON_FILE :: u32 where "ICON_FILE = 6"
definition GIF_FILE :: u32 where "GIF_FILE = 7"
definition JPEG_FILE :: u32 where "JPEG_FILE = 8"

definition httpfiles :: "(string \<times> u32) list" where
  "httpfiles = [(''/'', HTML_FILE), (''/login.html'', HTML_FILE), (''/status.html'', HTML_FILE),
     (''/wifibase.html'', HTML_FILE), (''/wifinet.html'', HTML_FILE), (''/public.css'', CSS_FILE)]"

definition page_addr :: "u32 \<Rightarrow> nat option" where
  "page_addr type =
     (if type = 0 \<or> type = 1 then Some 0x6A000 else if type = 2 then Some 0x6B000 else if type = 3 then Some 0x6C000
      else if type = 4 then Some 0x6D000 else if type = 5 then Some 0x69000 else None)"

text \<open>\<^verbatim>\<open>FwSize\<close> is the second field of the 32 byte header, behind the 8 bytes of \<^verbatim>\<open>StartFlag\<close>.\<close>

definition get_web_html_len :: "'f env \<Rightarrow> u32 \<Rightarrow> ('f, 'a) snet_scheme \<Rightarrow> u32" where
  "get_web_html_len e type s =
     (case page_addr type of None \<Rightarrow> 0
      | Some a \<Rightarrow> of_le32 (take 4 (drop 8 (QSpiFlashRead (dev e) (flash s) a 32))) - 0x100 + 1)"

text \<open>Bytes seen as characters, and the C string in an array.\<close>

definition chars :: "bytes \<Rightarrow> string" where
  "chars b = map (\<lambda>x. char_of (unat x)) b"

definition str_in :: "string \<Rightarrow> string option" where
  "str_in b = (if NUL \<in> set b then Some (takeWhile (\<lambda>c. c \<noteq> NUL) b) else None)"

definition get_web_html :: "'f env \<Rightarrow> u32 \<Rightarrow> ('f, 'a) web_scheme \<Rightarrow> (string option \<times> ('f, 'a) web_scheme) option" where
  "get_web_html e type s =
     (case page_addr type of None \<Rightarrow> Some (None, s)
      | Some a \<Rightarrow>
          let len = unat (get_web_html_len e type s)
          in if html_buf s = None \<or> len > HTTP_SEND_BUFFER_MAX then None
             else
               let b = chars (QSpiFlashRead (dev e) (flash s) (a + 256) len) @ replicate (HTTP_SEND_BUFFER_MAX - len) NUL
               in Some (Some b, s\<lparr>html_buf := Some b\<rparr>))"

text \<open>\<^verbatim>\<open>http_fparse\<close>. \<^verbatim>\<open>dst\<close> is an offset of \<^verbatim>\<open>SendData\<close>, \<open>start\<close> the value \<^verbatim>\<open>*start\<close> points to. The copy loop stores up to
  \<open>len\<close> characters; it reads \<open>m\<close> from \<open>start\<close> on.\<close>

fun parse_copy :: "string \<Rightarrow> nat \<Rightarrow> string \<Rightarrow> nat \<Rightarrow> nat \<Rightarrow> u32 \<Rightarrow> (string \<times> nat \<times> u32) option" where
  "parse_copy buf dst [] n len start = Some (buf, n, start + 1)"
| "parse_copy buf dst (c # m) n len start =
     (if dst < length buf then
        if n + 1 \<ge> len then Some (buf[dst := c], n + 1, start + 1)
        else parse_copy (buf[dst := c]) (Suc dst) m (n + 1) len (start + 1)
      else None)"

definition http_fparse ::
  "'f env \<Rightarrow> nat \<Rightarrow> u32 \<Rightarrow> u32 \<Rightarrow> u32 \<Rightarrow> ('f, 'a) web_scheme \<Rightarrow> (u32 \<times> u32 \<times> ('f, 'a) web_scheme) option" where
  "http_fparse e dst file start len s0 =
     (if unat file \<ge> length httpfiles then Some (0, start, s0)
      else do {
        (html, s) \<leftarrow> get_web_html e file s0;
        (case html of
           None \<Rightarrow> Some (0, start, s)
         | Some h \<Rightarrow> do {
             t \<leftarrow> str_in h;
             if len = 0 then Some (of_nat (length t), start, s)
             else if unat start > length t then None
             else
               let src = drop (unat start) t
               in if file = 2 then do {
                    (b, n) \<leftarrow> html_rebuild_sysstatus e s (SendData s) dst src len;
                    Some (n, start, s\<lparr>SendData := b\<rparr>)
                  }
                  else if file = 3 then do {
                    (b, n) \<leftarrow> html_rebuild_wifibase (UserParam s) (SendData s) dst src len;
                    Some (n, start, s\<lparr>SendData := b\<rparr>)
                  }
                  else if file = 4 then do {
                    (b, n) \<leftarrow> html_rebuild_wifinet (wl_workmode s) (UserParam s) (SendData s) dst src len;
                    Some (n, start, s\<lparr>SendData := b\<rparr>)
                  }
                  else do {
                    (b, n, st) \<leftarrow> parse_copy (SendData s) dst src 0 (unat len) start;
                    Some (of_nat n, st, s\<lparr>SendData := b\<rparr>)
                  }
           })
      })"

definition http_fdata :: "'f env \<Rightarrow> nat \<Rightarrow> u32 \<Rightarrow> u32 \<Rightarrow> u32 \<Rightarrow> ('f, 'a) web_scheme \<Rightarrow> (u32 \<times> ('f, 'a) web_scheme) option" where
  "http_fdata e dst file start len s0 =
     (if unat file \<ge> length httpfiles then Some (0, s0)
      else
        let total = get_web_html_len e file s0; n = (if start + len > total then total - start else len)
        in do {
          (html, s) \<leftarrow> get_web_html e file s0;
          h \<leftarrow> html;
          if unat start + unat n > length h then None
          else do { b \<leftarrow> buf_write (SendData s) dst (take (unat n) (drop (unat start) h)); Some (n, s\<lparr>SendData := b\<rparr>) }
        })"

definition http_ftype :: "u32 \<Rightarrow> u32" where
  "http_ftype file = (if unat file \<ge> length httpfiles then UNKNOWN_FILE else snd (httpfiles ! unat file))"

definition http_flen :: "'f env \<Rightarrow> u32 \<Rightarrow> ('f, 'a) web_scheme \<Rightarrow> (u32 \<times> ('f, 'a) web_scheme) option" where
  "http_flen e file s =
     (if unat file \<ge> length httpfiles then Some (0, s)
      else if http_ftype file \<in> {TXT_FILE, HTML_FILE, XML_FILE} then
        do { (n, _, s1) \<leftarrow> http_fparse e 0 file 0 0 s; Some (n, s1) }
      else Some (get_web_html_len e file s, s))"

text \<open>\<^verbatim>\<open>http_fid\<close> on the C string \<open>name\<close>: the file number and the parameter. Up to eight digits go into \<^verbatim>\<open>buf[8]\<close> and the
  terminator behind them.\<close>

definition fid_param :: "string \<Rightarrow> u32 option" where
  "fid_param p =
     (let d = takeWhile isdigit (take 8 p) in if length d = 8 then None else Some (atoi d))"

fun fid_loop :: "string \<Rightarrow> (string \<times> u32) list \<Rightarrow> nat \<Rightarrow> (u32 \<times> u32) option" where
  "fid_loop name [] file = Some (0xFFFF, 0)"
| "fid_loop name (f # fs) file =
     (let len = length (fst f); r = drop len name
      in if strncmpi name (fst f) len = 0 then
           if deref r = NUL \<or> deref r = CHR '' '' then Some (of_nat file, 0)
           else if deref r = CHR ''?'' then map_option (Pair (of_nat file)) (fid_param (tl r))
           else fid_loop name fs (file + 1)
         else fid_loop name fs (file + 1))"

definition http_fid :: "string \<Rightarrow> (u32 \<times> u32) option" where
  "http_fid name = fid_loop (dropWhile (\<lambda>c. c = CHR '' '') name) httpfiles 0"

section \<open>Sending a file\<close>

definition crlf :: string where "crlf = [CR, LF]"

definition http_header :: "string \<Rightarrow> string \<Rightarrow> string" where
  "http_header cache ctype =
     ''HTTP/1.1 200 OK'' @ crlf @ ''Server: login'' @ crlf @ ''Connection: Close'' @ crlf @
     ''Cache-Control: no-store, no-cache, max-age='' @ cache @ ''Content-Type: '' @ ctype @ crlf @ ''Content-Length: ''"

definition HTTP_HTML_HEADER :: string where
  "HTTP_HTML_HEADER = http_header (''0'' @ crlf @ ''Pragma: no-cache'' @ crlf) ''text/html; charset=gb2312 ''"

definition HTTP_JS_HEADER :: string where
  "HTTP_JS_HEADER = http_header (''86400'' @ crlf) ''application/x-javascript''"

definition HTTP_CSS_HEADER :: string where
  "HTTP_CSS_HEADER = http_header (''86400'' @ crlf) ''text/css''"

definition HTTP_ICON_HEADER :: string where
  "HTTP_ICON_HEADER = http_header (''86400'' @ crlf) ''image/x-icon''"

definition HTTP_404 :: string where
  "HTTP_404 = ''HTTP/1.1 404 Not found'' @ crlf @ ''Server: login'' @ crlf @ ''Connection: Close'' @ crlf @ crlf @
     ''Error 404 Not found'' @ crlf @ crlf"

text \<open>A header with its \<^verbatim>\<open>%i\<close>; lengths are below \<^verbatim>\<open>2^31\<close>, so it prints the number.\<close>

definition with_length :: "string \<Rightarrow> u32 \<Rightarrow> string" where
  "with_length h n = h @ dec_of_int (sint n) @ crlf @ crlf"

definition tcp_send :: "nat \<Rightarrow> nat \<Rightarrow> ('f, 'a) web_scheme \<Rightarrow> ('f, 'a) web_scheme option" where
  "tcp_send idx len s =
     (if idx < TCP_ENTRIES then
        if len > length (SendData s) then None
        else Some (s\<lparr>http_sent := http_sent s @ [(h_sock_fd (http_table s ! idx), take len (SendData s))]\<rparr>)
      else Some s)"

definition http_close :: "nat \<Rightarrow> ('f, 'a) web_scheme \<Rightarrow> ('f, 'a) web_scheme" where
  "http_close idx s = upd_entry idx (\<lambda>t. t\<lparr>h_status := HTTP_CLOSED, h_flen := 0\<rparr>) s"

definition put_text :: "nat \<Rightarrow> string \<Rightarrow> ('f, 'a) web_scheme \<Rightarrow> ('f, 'a) web_scheme option" where
  "put_text tx t s = do { b \<leftarrow> buf_write (SendData s) tx (t @ [NUL]); Some (s\<lparr>SendData := b\<rparr>) }"

text \<open>The loop for pages. The header is printed over the one written before, with the length the page really has, and the
  character its terminator fell on is set to \<^verbatim>\<open><\<close>. The header is never empty, so the test for an empty segment never holds.\<close>

partial_function (option) send_html ::
  "'f env \<Rightarrow> nat \<Rightarrow> nat \<Rightarrow> nat \<Rightarrow> ('f, 'a) web_scheme \<Rightarrow> (nat \<times> ('f, 'a) web_scheme) option" where
  "send_html e idx tx len s =
     do {
       (i, st, s1) \<leftarrow> http_fparse e tx (h_file (http_table s ! idx)) (h_fparse (http_table s ! idx)) 4096 s;
       let h = with_length HTTP_HTML_HEADER i;
       s2 \<leftarrow> put_text (tx - len) h (upd_entry idx (\<lambda>t. t\<lparr>h_fparse := st\<rparr>) s1);
       b \<leftarrow> buf_write (SendData s2) (tx - len + length h) [CHR ''<''];
       s3 \<leftarrow> tcp_send idx (length h + unat i) (upd_entry idx (\<lambda>t. t\<lparr>h_fpos := h_fpos t + i\<rparr>) (s2\<lparr>SendData := b\<rparr>));
       if h_fpos (http_table s3 ! idx) < h_flen (http_table s3 ! idx) then send_html e idx 0 0 s3 else Some (0, s3)
     }"

partial_function (option) send_data ::
  "'f env \<Rightarrow> nat \<Rightarrow> nat \<Rightarrow> nat \<Rightarrow> ('f, 'a) web_scheme \<Rightarrow> (nat \<times> ('f, 'a) web_scheme) option" where
  "send_data e idx tx len s =
     do {
       (i, s1) \<leftarrow> http_fdata e tx (h_file (http_table s ! idx)) (h_fpos (http_table s ! idx)) 4096 s;
       let s2 = upd_entry idx (\<lambda>t. t\<lparr>h_fpos := h_fpos t + i\<rparr>) s1;
       if len + unat i = 0 then Some (0, s2)
       else do {
         s3 \<leftarrow> tcp_send idx (len + unat i) s2;
         if h_fpos (http_table s3 ! idx) < h_flen (http_table s3 ! idx) then send_data e idx 0 0 s3 else Some (0, s3)
       }
     }"

text \<open>The header of a found file.\<close>

definition file_header :: "u32 \<Rightarrow> u32 \<Rightarrow> string" where
  "file_header ftype flen =
     (if ftype = HTML_FILE then with_length HTTP_HTML_HEADER flen else if ftype = JS_FILE then with_length HTTP_JS_HEADER flen
      else if ftype = CSS_FILE then with_length HTTP_CSS_HEADER flen
      else if ftype = ICON_FILE then with_length HTTP_ICON_HEADER flen else [])"

definition send_body :: "'f env \<Rightarrow> nat \<Rightarrow> nat \<Rightarrow> nat \<Rightarrow> ('f, 'a) web_scheme \<Rightarrow> (nat \<times> ('f, 'a) web_scheme) option" where
  "send_body e idx tx len s =
     (let t = http_table s ! idx
      in if h_flen t \<noteq> 0 then do {
           (n, s1) \<leftarrow>
             (if h_ftype t \<in> {HTML_FILE, XML_FILE} then send_html e idx tx len s
              else if h_ftype t \<in> {JS_FILE, CSS_FILE, TXT_FILE, ICON_FILE, GIF_FILE, JPEG_FILE} then send_data e idx tx len s
              else Some (len, s));
           Some (n, if h_fpos (http_table s1 ! idx) \<ge> h_flen (http_table s1 ! idx) \<or> n = 0 then http_close idx s1 else s1)
         }
         else Some (len, s))"

definition http_sendfile ::
  "'f env \<Rightarrow> nat \<Rightarrow> string option \<Rightarrow> nat \<Rightarrow> ('f, 'a) web_scheme \<Rightarrow> (nat \<times> ('f, 'a) web_scheme) option" where
  "http_sendfile e idx name tx s =
     (if idx \<ge> length (http_table s) then None
      else
        case name of
          None \<Rightarrow> send_body e idx tx 0 s
        | Some n \<Rightarrow> do {
            (file, param) \<leftarrow> http_fid n;
            (flen, s1) \<leftarrow> http_flen e file s;
            let s2 = upd_entry idx (\<lambda>t. t\<lparr>h_status := HTTP_SEND, h_file := file, h_ftype := http_ftype file, h_flen := flen,
                       h_fpos := 0, h_fparse := 0, h_fparam := param\<rparr>) s1;
            if flen = 0 then do {
              s3 \<leftarrow> put_text tx HTTP_404 (upd_entry idx (\<lambda>t. t\<lparr>h_status := HTTP_CLOSED\<rparr>) s2);
              s4 \<leftarrow> tcp_send idx (length HTTP_404) s3;
              Some (length HTTP_404, s4)
            }
            else
              let h = file_header (http_ftype file) flen
              in do {
                s3 \<leftarrow> (if h = [] then Some s2 else put_text tx h s2);
                send_body e idx (tx + length h) (length h) s3
              }
          })"

section \<open>What a transfer changes\<close>

text \<open>A transfer changes its entry of the connection table (never the descriptor), the two buffers and the record of what was sent.\<close>

definition web_frame :: "nat \<Rightarrow> ('f, 'a) web_scheme \<Rightarrow> ('f, 'a) web_scheme \<Rightarrow> bool" where
  "web_frame idx s s' \<longleftrightarrow> (\<exists>tab d h snt. s' = s\<lparr>http_table := tab, SendData := d, html_buf := h, http_sent := snt\<rparr> \<and>
     map h_sock_fd tab = map h_sock_fd (http_table s) \<and> length d = length (SendData s) \<and> (html_buf s \<noteq> None \<longrightarrow> h \<noteq> None) \<and>
     (\<forall>j. j \<noteq> idx \<longrightarrow> tab ! j = http_table s ! j))"

lemma web_frame_refl [simp]: "web_frame idx s s"
  unfolding web_frame_def by (rule exI [of _ "http_table s"], rule exI [of _ "SendData s"], rule exI [of _ "html_buf s"],
    rule exI [of _ "http_sent s"]) simp

lemma web_frame_trans: "web_frame idx s s' \<Longrightarrow> web_frame idx s' s'' \<Longrightarrow> web_frame idx s s''"
  unfolding web_frame_def
proof (elim exE conjE)
  fix tab d h snt tab' d' h' snt'
  assume s: "s' = s\<lparr>http_table := tab, SendData := d, html_buf := h, http_sent := snt\<rparr>"
    and t: "s'' = s'\<lparr>http_table := tab', SendData := d', html_buf := h', http_sent := snt'\<rparr>"
    and "map h_sock_fd tab = map h_sock_fd (http_table s)" "map h_sock_fd tab' = map h_sock_fd (http_table s')"
      "length d = length (SendData s)" "length d' = length (SendData s')" "html_buf s \<noteq> None \<longrightarrow> h \<noteq> None" "html_buf s' \<noteq> None \<longrightarrow> h' \<noteq> None"
      "\<forall>j. j \<noteq> idx \<longrightarrow> tab ! j = http_table s ! j" "\<forall>j. j \<noteq> idx \<longrightarrow> tab' ! j = http_table s' ! j"
  then show "\<exists>tab d h snt. s'' = s\<lparr>http_table := tab, SendData := d, html_buf := h, http_sent := snt\<rparr> \<and>
      map h_sock_fd tab = map h_sock_fd (http_table s) \<and> length d = length (SendData s) \<and> (html_buf s \<noteq> None \<longrightarrow> h \<noteq> None) \<and>
      (\<forall>j. j \<noteq> idx \<longrightarrow> tab ! j = http_table s ! j)"
    by (intro exI [of _ tab'] exI [of _ d'] exI [of _ h'] exI [of _ snt']) simp
qed

lemma web_frame_entry:
  assumes "\<And>t. h_sock_fd (f t) = h_sock_fd t"
  shows "web_frame i s (upd_entry i f s)"
proof -
  have "map h_sock_fd ((http_table s)[i := f (http_table s ! i)]) = map h_sock_fd (http_table s)"
  proof (rule nth_equalityI)
    fix j assume "j < length (map h_sock_fd ((http_table s)[i := f (http_table s ! i)]))"
    then show "map h_sock_fd ((http_table s)[i := f (http_table s ! i)]) ! j = map h_sock_fd (http_table s) ! j"
      using assms by (cases "j = i") simp_all
  qed simp
  then show ?thesis
    unfolding web_frame_def upd_entry_def
    by (intro exI [of _ "(http_table s)[i := f (http_table s ! i)]"] exI [of _ "SendData s"] exI [of _ "html_buf s"]
        exI [of _ "http_sent s"]) simp
qed

lemma web_frame_send: "length d = length (SendData s) \<Longrightarrow> web_frame idx s (s\<lparr>SendData := d\<rparr>)"
  unfolding web_frame_def by (intro exI [of _ "http_table s"] exI [of _ d] exI [of _ "html_buf s"] exI [of _ "http_sent s"]) simp

lemma web_frame_sent: "web_frame idx s (s\<lparr>http_sent := x\<rparr>)"
  unfolding web_frame_def by (intro exI [of _ "http_table s"] exI [of _ "SendData s"] exI [of _ "html_buf s"] exI [of _ x]) simp

lemma web_frame_html: "web_frame idx s (s\<lparr>html_buf := Some x\<rparr>)"
  unfolding web_frame_def
  by (intro exI [of _ "http_table s"] exI [of _ "SendData s"] exI [of _ "Some x"] exI [of _ "http_sent s"]) simp

lemma web_frame_simps:
  assumes "web_frame idx s s'"
  shows "UserParam s' = UserParam s" "SysParam s' = SysParam s" "flash s' = flash s" "wl_workmode s' = wl_workmode s"
    "Rec_Data s' = Rec_Data s" "length (SendData s') = length (SendData s)" "map h_sock_fd (http_table s') = map h_sock_fd (http_table s)"
    "length (http_table s') = length (http_table s)" "html_buf s \<noteq> None \<Longrightarrow> html_buf s' \<noteq> None"
    "chip_reset s' = chip_reset s" "updFlag s' = updFlag s" "firmwareSize s' = firmwareSize s" "fmwStartSign s' = fmwStartSign s"
    "closed s' = closed s" "link_status s' = link_status s" "web.more s' = web.more s" "PermanentAddress s' = PermanentAddress s"
    "j \<noteq> idx \<Longrightarrow> http_table s' ! j = http_table s ! j"
proof -
  from assms obtain tab d h snt where r: "s' = s\<lparr>http_table := tab, SendData := d, html_buf := h, http_sent := snt\<rparr>"
      "map h_sock_fd tab = map h_sock_fd (http_table s)" "length d = length (SendData s)" "html_buf s \<noteq> None \<longrightarrow> h \<noteq> None" "\<forall>j. j \<noteq> idx \<longrightarrow> tab ! j = http_table s ! j"
    unfolding web_frame_def by blast
  have l: "length tab = length (http_table s)" using arg_cong [OF r(2), of length] by simp
  show "UserParam s' = UserParam s" "SysParam s' = SysParam s" "flash s' = flash s" "wl_workmode s' = wl_workmode s"
    "Rec_Data s' = Rec_Data s" "length (SendData s') = length (SendData s)" "map h_sock_fd (http_table s') = map h_sock_fd (http_table s)"
    "length (http_table s') = length (http_table s)" "html_buf s \<noteq> None \<Longrightarrow> html_buf s' \<noteq> None"
    "chip_reset s' = chip_reset s" "updFlag s' = updFlag s" "firmwareSize s' = firmwareSize s" "fmwStartSign s' = fmwStartSign s"
    "closed s' = closed s" "link_status s' = link_status s" "web.more s' = web.more s" "PermanentAddress s' = PermanentAddress s"
    "j \<noteq> idx \<Longrightarrow> http_table s' ! j = http_table s ! j"
    using r l by simp_all
qed

lemma get_web_html_frame: "get_web_html e file s = Some (h, s') \<Longrightarrow> web_frame idx s s'"
  by (auto simp: get_web_html_def Let_def intro: web_frame_html split: option.splits if_splits)

lemma parse_copy_length: "parse_copy buf dst m n len st = Some (b, r) \<Longrightarrow> length b = length buf"
  by (induction buf dst m n len st rule: parse_copy.induct) (auto split: if_splits)

lemma copy_rest_length: "copy_rest buf dst m dl = Some (b, r) \<Longrightarrow> length b = length buf"
  by (induction buf dst m dl rule: copy_rest.induct) (auto split: if_splits)

text \<open>The builders keep the length of the destination.\<close>

definition keeps_length :: "nat \<Rightarrow> bld option \<Rightarrow> bool" where
  "keeps_length n r \<longleftrightarrow> (\<forall>b. r = Some b \<longrightarrow> length (b_buf b) = n)"

definition page_length :: "nat \<Rightarrow> (string \<times> 'n) option \<Rightarrow> bool" where
  "page_length n r \<longleftrightarrow> (\<forall>buf k. r = Some (buf, k) \<longrightarrow> length buf = n)"

lemma page_length_bind:
  "keeps_length n r \<Longrightarrow> (\<And>b. length (b_buf b) = n \<Longrightarrow> page_length n (g b)) \<Longrightarrow> page_length n (Option.bind r g)"
  by (auto simp: keeps_length_def page_length_def bind_eq_Some_conv)

lemma insert_text_length: "length (b_buf b) = n \<Longrightarrow> keeps_length n (insert_text pat tx adv sub b)"
  by (auto simp: keeps_length_def insert_text_def Let_def bind_eq_Some_conv buf_write_length split: option.splits)

lemma fill_number_length:
  assumes "fill_number pat k db = Some db'"
  shows "length (b_buf (snd db')) = length (b_buf (snd db))"
proof (cases "nustrstr (b_main (snd db)) pat")
  case None
  with assms show ?thesis by (simp add: fill_number_def split: prod.splits)
next
  case (Some t)
  with assms obtain d b' where "db' = (d, b')" "insert_text pat (pat @ dec_of_nat (unat k)) (length pat + length d) (length pat + length d) (snd db) = Some b'"
    by (auto simp: fill_number_def bind_eq_Some_conv split: prod.splits)
  then show ?thesis using insert_text_length [OF refl, of "snd db"] by (simp add: keeps_length_def)
qed

lemma page_length_number:
  "length (b_buf (snd db)) = n \<Longrightarrow> (\<And>db'. length (b_buf (snd db')) = n \<Longrightarrow> page_length n (g db')) \<Longrightarrow>
   page_length n (Option.bind (fill_number pat k db) g)"
  using fill_number_length [of pat k db] by (cases "fill_number pat k db") (simp_all add: page_length_def)

lemma insert_opt_length: "length (b_buf b) = n \<Longrightarrow> keeps_length n (insert_opt pat v b)"
  using insert_text_length [of b n] by (auto simp: keeps_length_def insert_opt_def split: option.splits)

lemma mark_length: "length (b_buf b) = n \<Longrightarrow> keeps_length n (mark v c b)" "length (b_buf b) = n \<Longrightarrow> keeps_length n (select_mark k b)"
  by (simp_all add: select_mark_def mark_def insert_text_length)

lemma finish_page_length: "length (b_buf b) = n \<Longrightarrow> page_length n (finish_page len b)"
  by (auto simp: page_length_def finish_page_def bind_eq_Some_conv dest: copy_rest_length)

lemmas build_length = page_length_bind page_length_number insert_text_length insert_opt_length mark_length finish_page_length

lemma sysstatus_length: "page_length (length buf) (html_rebuild_sysstatus e s buf dest src len)"
  unfolding html_rebuild_sysstatus_def by (intro build_length) simp_all

lemma wifibase_length: "page_length (length buf) (html_rebuild_wifibase u buf dest src len)"
  unfolding html_rebuild_wifibase_def Let_def by (intro build_length) simp_all

lemma wifinet_length: "page_length (length buf) (html_rebuild_wifinet w u buf dest src len)"
  unfolding html_rebuild_wifinet_def Let_def by (intro build_length) simp_all

lemmas rebuilt_length = sysstatus_length [unfolded page_length_def, rule_format] wifibase_length [unfolded page_length_def, rule_format]
  wifinet_length [unfolded page_length_def, rule_format]

lemma http_fparse_frame:
  assumes "http_fparse e dst file st len s = Some (n, st', s')"
  shows "web_frame idx s s'"
proof (cases "unat file \<ge> length httpfiles")
  case True
  with assms show ?thesis by (simp add: http_fparse_def)
next
  case False
  then obtain h s1 where h: "get_web_html e (file) s = Some (h, s1)"
    using assms by (auto simp: http_fparse_def bind_eq_Some_conv)
  note f = get_web_html_frame [OF h]
  show ?thesis
  proof (cases "\<exists>b. s' = s1\<lparr>SendData := b\<rparr> \<and> length b = length (SendData s1)")
    case True
    with f show ?thesis by (auto intro: web_frame_trans web_frame_send)
  next
    case no: False
    have "s' = s1"
    proof (cases h)
      case None
      with assms h False show ?thesis by (simp add: http_fparse_def)
    next
      case (Some t)
      from assms h False Some no show ?thesis
        unfolding http_fparse_def
        by (simp only: if_False bind_eq_Some_conv Let_def)
          (auto simp: bind_eq_Some_conv dest!: rebuilt_length parse_copy_length split: if_splits)
    qed
    with f show ?thesis by simp
  qed
qed

lemma http_fdata_frame: "http_fdata e dst file st len s = Some (n, s') \<Longrightarrow> web_frame idx s s'"
  by (auto simp: http_fdata_def bind_eq_Some_conv Let_def dest!: buf_write_length
      intro: get_web_html_frame web_frame_trans [OF get_web_html_frame web_frame_send] split: if_splits)

lemma http_flen_frame: "http_flen e file s = Some (n, s') \<Longrightarrow> web_frame idx s s'"
  by (auto simp: http_flen_def bind_eq_Some_conv dest: http_fparse_frame split: if_splits)

lemma tcp_send_frame: "tcp_send idx len s = Some s' \<Longrightarrow> web_frame idx s s'"
  by (auto simp: tcp_send_def intro: web_frame_sent split: if_splits)

lemma put_text_frame: "put_text tx t s = Some s' \<Longrightarrow> web_frame idx s s'"
  by (auto simp: put_text_def bind_eq_Some_conv dest!: buf_write_length intro: web_frame_send)

lemma write_frame: "buf_write (SendData s) p xs = Some b \<Longrightarrow> web_frame idx s (s\<lparr>SendData := b\<rparr>)"
  by (rule web_frame_send) (rule buf_write_length)

lemma http_close_frame: "web_frame idx s (http_close idx s)"
  unfolding http_close_def by (rule web_frame_entry) simp

lemma send_html_frame:
  fixes s :: "('f, 'a) web_scheme"
  assumes "send_html e idx tx len s = Some r"
  shows "web_frame idx s (snd r) \<and> fst r = 0"
proof (rule send_html.raw_induct [where P = "\<lambda>e idx tx len s r. web_frame idx s (snd r) \<and> fst r = 0", rotated, OF assms])
  fix send_html and e :: "'f env" and idx tx len and s :: "('f, 'a) web_scheme" and r
  assume ih: "\<And>e idx tx len s r. send_html e idx tx len s = Some r \<Longrightarrow> web_frame idx s (snd r) \<and> fst r = 0"
    and step: "(do {
       (i, st, s1) \<leftarrow> http_fparse e tx (h_file (http_table s ! idx)) (h_fparse (http_table s ! idx)) 4096 s;
       let h = with_length HTTP_HTML_HEADER i;
       s2 \<leftarrow> put_text (tx - len) h (upd_entry idx (\<lambda>t. t\<lparr>h_fparse := st\<rparr>) s1);
       b \<leftarrow> buf_write (SendData s2) (tx - len + length h) [CHR ''<''];
       s3 \<leftarrow> tcp_send idx (length h + unat i) (upd_entry idx (\<lambda>t. t\<lparr>h_fpos := h_fpos t + i\<rparr>) (s2\<lparr>SendData := b\<rparr>));
       if h_fpos (http_table s3 ! idx) < h_flen (http_table s3 ! idx) then send_html e idx 0 0 s3 else Some (0, s3)
     }) = Some r"
  from step obtain i st s1 s2 b s3 where
    1: "http_fparse e tx (h_file (http_table s ! idx)) (h_fparse (http_table s ! idx)) 4096 s = Some (i, st, s1)"
    and 2: "put_text (tx - len) (with_length HTTP_HTML_HEADER i) (upd_entry idx (\<lambda>t. t\<lparr>h_fparse := st\<rparr>) s1) = Some s2"
    and 3: "buf_write (SendData s2) (tx - len + length (with_length HTTP_HTML_HEADER i)) [CHR ''<''] = Some b"
    and 4: "tcp_send idx (length (with_length HTTP_HTML_HEADER i) + unat i)
      (upd_entry idx (\<lambda>t. t\<lparr>h_fpos := h_fpos t + i\<rparr>) (s2\<lparr>SendData := b\<rparr>)) = Some s3"
    and 5: "(if h_fpos (http_table s3 ! idx) < h_flen (http_table s3 ! idx) then send_html e idx 0 0 s3 else Some (0, s3)) = Some r"
    by (auto simp: Let_def bind_eq_Some_conv)
  have "web_frame idx s (upd_entry idx (\<lambda>t. t\<lparr>h_fparse := st\<rparr>) s1)"
    by (rule web_frame_trans [OF http_fparse_frame [OF 1] web_frame_entry]) simp
  then have "web_frame idx s (s2\<lparr>SendData := b\<rparr>)"
    by (rule web_frame_trans [OF web_frame_trans [OF _ put_text_frame [OF 2]] write_frame [OF 3]])
  then have "web_frame idx s (upd_entry idx (\<lambda>t. t\<lparr>h_fpos := h_fpos t + i\<rparr>) (s2\<lparr>SendData := b\<rparr>))"
    by (rule web_frame_trans) (rule web_frame_entry, simp)
  then have "web_frame idx s s3" by (rule web_frame_trans) (rule tcp_send_frame [OF 4])
  with 5 ih [of e idx 0 0 s3 r] show "web_frame idx s (snd r) \<and> fst r = 0"
    by (auto intro: web_frame_trans split: if_splits)
qed

lemma send_data_frame:
  fixes s :: "('f, 'a) web_scheme"
  assumes "send_data e idx tx len s = Some r"
  shows "web_frame idx s (snd r) \<and> fst r = 0"
proof (rule send_data.raw_induct [where P = "\<lambda>e idx tx len s r. web_frame idx s (snd r) \<and> fst r = 0", rotated, OF assms])
  fix send_data and e :: "'f env" and idx tx len and s :: "('f, 'a) web_scheme" and r
  assume ih: "\<And>e idx tx len s r. send_data e idx tx len s = Some r \<Longrightarrow> web_frame idx s (snd r) \<and> fst r = 0"
    and step: "(do {
       (i, s1) \<leftarrow> http_fdata e tx (h_file (http_table s ! idx)) (h_fpos (http_table s ! idx)) 4096 s;
       let s2 = upd_entry idx (\<lambda>t. t\<lparr>h_fpos := h_fpos t + i\<rparr>) s1;
       if len + unat i = 0 then Some (0, s2)
       else do {
         s3 \<leftarrow> tcp_send idx (len + unat i) s2;
         if h_fpos (http_table s3 ! idx) < h_flen (http_table s3 ! idx) then send_data e idx 0 0 s3 else Some (0, s3)
       }
     }) = Some r"
  from step obtain i s1 where
    1: "http_fdata e tx (h_file (http_table s ! idx)) (h_fpos (http_table s ! idx)) 4096 s = Some (i, s1)"
    and 2: "(if len + unat i = 0 then Some (0, upd_entry idx (\<lambda>t. t\<lparr>h_fpos := h_fpos t + i\<rparr>) s1)
       else do { s3 \<leftarrow> tcp_send idx (len + unat i) (upd_entry idx (\<lambda>t. t\<lparr>h_fpos := h_fpos t + i\<rparr>) s1);
         if h_fpos (http_table s3 ! idx) < h_flen (http_table s3 ! idx) then send_data e idx 0 0 s3 else Some (0, s3) }) = Some r"
    by (auto simp: Let_def bind_eq_Some_conv)
  have f: "web_frame idx s (upd_entry idx (\<lambda>t. t\<lparr>h_fpos := h_fpos t + i\<rparr>) s1)"
    by (rule web_frame_trans [OF http_fdata_frame [OF 1] web_frame_entry]) simp
  show "web_frame idx s (snd r) \<and> fst r = 0"
  proof (cases "len + unat i = 0")
    case True
    with 2 f show ?thesis by auto
  next
    case False
    with 2 obtain s3 where s3: "tcp_send idx (len + unat i) (upd_entry idx (\<lambda>t. t\<lparr>h_fpos := h_fpos t + i\<rparr>) s1) = Some s3"
        "(if h_fpos (http_table s3 ! idx) < h_flen (http_table s3 ! idx) then send_data e idx 0 0 s3 else Some (0, s3)) = Some r"
      by (auto simp: bind_eq_Some_conv)
    have "web_frame idx s s3" by (rule web_frame_trans [OF f tcp_send_frame [OF s3(1)]])
    with s3(2) ih [of e idx 0 0 s3 r] show ?thesis by (auto intro: web_frame_trans split: if_splits)
  qed
qed

text \<open>A transfer always ends closed.\<close>

lemma send_body_frame:
  assumes "send_body e idx tx len s = Some (n, s')" "h_flen (http_table s ! idx) \<noteq> 0" "idx < length (http_table s)"
    "h_ftype (http_table s ! idx) \<in> {HTML_FILE, CSS_FILE}"
  shows "web_frame idx s s'" "h_status (http_table s' ! idx) = HTTP_CLOSED"
proof -
  have ty: "HTML_FILE \<noteq> CSS_FILE" "CSS_FILE \<noteq> XML_FILE" by (simp_all add: HTML_FILE_def CSS_FILE_def XML_FILE_def)
  obtain s1 where s1: "web_frame idx s s1" "s' = http_close idx s1"
    using assms(1,2,4) ty unfolding send_body_def Let_def
    by (auto simp: bind_eq_Some_conv dest!: send_html_frame send_data_frame split: if_splits)
  show "web_frame idx s s'" using web_frame_trans [OF s1(1) http_close_frame] s1(2) by simp
  show "h_status (http_table s' ! idx) = HTTP_CLOSED"
    using assms(3) web_frame_simps(8) [OF s1(1)] s1(2) by (simp add: http_close_def upd_entry_def)
qed

lemma http_sendfile_frame:
  assumes "http_sendfile e idx (Some name) tx s = Some (n, s')"
  shows "web_frame idx s s'" "h_status (http_table s' ! idx) = HTTP_CLOSED"
proof -
  have i: "idx < length (http_table s)" using assms by (auto simp: http_sendfile_def split: if_splits)
  obtain fid param flen s1 where f: "http_fid name = Some (fid, param)" "http_flen e fid s = Some (flen, s1)"
    using assms by (auto simp: http_sendfile_def bind_eq_Some_conv split: if_splits)
  define g where "g = (\<lambda>t :: HTTP_Table. t\<lparr>h_status := HTTP_SEND, h_file := fid, h_ftype := http_ftype fid, h_flen := flen,
    h_fpos := 0, h_fparse := 0, h_fparam := param\<rparr>)"
  note f1 = http_flen_frame [OF f(2)]
  have f2: "web_frame idx s (upd_entry idx g s1)" by (rule web_frame_trans [OF f1 web_frame_entry]) (simp add: g_def)
  have l2: "idx < length (http_table (upd_entry idx g s1))" using i web_frame_simps(8) [OF f2] by simp
  show "web_frame idx s s'" "h_status (http_table s' ! idx) = HTTP_CLOSED"
  proof (atomize (full), cases "flen = 0")
    case True
    define s2 where "s2 = upd_entry idx (\<lambda>t. t\<lparr>h_status := HTTP_CLOSED\<rparr>) (upd_entry idx g s1)"
    have f3: "web_frame idx s s2" unfolding s2_def by (rule web_frame_trans [OF f2 web_frame_entry]) simp
    have c: "h_status (http_table s2 ! idx) = HTTP_CLOSED" using l2 by (simp add: s2_def upd_entry_def)
    obtain s3 where s3: "put_text tx HTTP_404 s2 = Some s3" "tcp_send idx (length HTTP_404) s3 = Some s'"
      using assms f True i by (auto simp: http_sendfile_def bind_eq_Some_conv Let_def s2_def g_def)
    have "http_table s3 = http_table s2" "http_table s' = http_table s3"
      using s3 by (auto simp: put_text_def tcp_send_def bind_eq_Some_conv split: if_splits)
    with c show "web_frame idx s s' \<and> h_status (http_table s' ! idx) = HTTP_CLOSED"
      using web_frame_trans [OF web_frame_trans [OF f3 put_text_frame [OF s3(1)]] tcp_send_frame [OF s3(2)]] by simp
  next
    case False
    define h where "h = file_header (http_ftype fid) flen"
    obtain s3 where s3: "(if h = [] then Some (upd_entry idx g s1) else put_text tx h (upd_entry idx g s1)) = Some s3"
        "send_body e idx (tx + length h) (length h) s3 = Some (n, s')"
      unfolding g_def h_def using assms f False i by (auto simp: http_sendfile_def bind_eq_Some_conv Let_def)
    have t3: "http_table s3 = http_table (upd_entry idx g s1)" "web_frame idx (upd_entry idx g s1) s3"
      using s3(1) put_text_frame [of tx h "upd_entry idx g s1" s3]
      by (auto simp: put_text_def bind_eq_Some_conv split: if_splits)
    have e3: "http_table s3 ! idx = g (http_table s1 ! idx)" using l2 t3(1) by (simp add: upd_entry_def)
    have "unat fid < length httpfiles" using False f(2) by (cases "unat fid < length httpfiles") (simp_all add: http_flen_def)
    then have ty: "http_ftype fid \<in> {HTML_FILE, CSS_FILE}"
      by (auto simp: http_ftype_def httpfiles_def nth_Cons split: if_splits nat.splits)
    show "web_frame idx s s' \<and> h_status (http_table s' ! idx) = HTTP_CLOSED"
      using send_body_frame [OF s3(2)] False ty l2 t3(1) web_frame_trans [OF f2 t3(2)] e3
      by (auto simp: g_def intro: web_frame_trans)
  qed
qed

section \<open>A page is served\<close>

text \<open>The text of a page in flash.\<close>

definition page_text :: "'f env \<Rightarrow> u32 \<Rightarrow> ('f, 'a) snet_scheme \<Rightarrow> string option" where
  "page_text e file s =
     do {
       a \<leftarrow> page_addr file;
       let len = unat (get_web_html_len e file s);
       if len > HTTP_SEND_BUFFER_MAX then None
       else str_in (chars (QSpiFlashRead (dev e) (flash s) (a + 256) len) @ replicate (HTTP_SEND_BUFFER_MAX - len) NUL)
     }"

lemma get_web_html_text:
  assumes "page_text e file s = Some t" "html_buf s \<noteq> None"
  shows "\<exists>b. get_web_html e file s = Some (Some b, s\<lparr>html_buf := Some b\<rparr>) \<and> str_in b = Some t"
proof -
  obtain a where "page_addr file = Some a" using assms(1) by (auto simp: page_text_def bind_eq_Some_conv)
  then show ?thesis
    using assms by (auto simp: page_text_def get_web_html_def Let_def split: if_splits)
qed

text \<open>The page with the parameters filled in, and how many characters of it are sent.\<close>

definition filled :: "'f env \<Rightarrow> ('f, 'a) snet_scheme \<Rightarrow> u32 \<Rightarrow> string \<Rightarrow> string" where
  "filled e s file t =
     (if file = 2 then fill (status_items e s) t else if file = 3 then fill (wifibase_items (UserParam s)) t
      else if file = 4 then fill (wifinet_items (wl_workmode s) (UserParam s)) t else t)"

definition served :: "'f env \<Rightarrow> ('f, 'a) snet_scheme \<Rightarrow> u32 \<Rightarrow> string \<Rightarrow> nat" where
  "served e s file t = (if file = 2 then length t else length (filled e s file t))"

text \<open>What the page and the parameters must satisfy: modes with a name on the page, terminated name and key.\<close>

definition fillable :: "'f env \<Rightarrow> ('f, 'a) snet_scheme \<Rightarrow> u32 \<Rightarrow> bool" where
  "fillable e s file \<longleftrightarrow> (file = 2 \<longrightarrow> unat (fw_ver e ! 0) < 16) \<and> (file = 3 \<longrightarrow> page_user (UserParam s)) \<and>
     (file = 4 \<longrightarrow> wl_workmode s \<in> {0, 1} \<and> uint (socketProtocol (UserParam s)) \<in> {0, 1} \<and> uint (socketType (UserParam s)) \<in> {0, 1})"

lemma parse_copy_ok:
  "dst + length m \<le> length buf \<Longrightarrow> n + length m \<le> len \<Longrightarrow>
     \<exists>buf' st. parse_copy buf dst m n len start = Some (buf', n + length m, st) \<and> holds_at buf dst m buf'"
proof (induction m arbitrary: buf dst n start)
  case (Cons c m)
  have one: "holds_at buf dst [c] (buf[dst := c])"
    using Cons.prems(1) by (simp add: holds_at_def take_Suc_conv_app_nth drop_update_cancel take_Suc hd_drop_conv_nth)
  show ?case
  proof (cases "m = []")
    case True
    with Cons.prems one show ?thesis by simp
  next
    case False
    then have "\<not> len \<le> n + 1" using Cons.prems(2) by (cases m) auto
    moreover obtain buf' st where b: "parse_copy (buf[dst := c]) (Suc dst) m (n + 1) len (start + 1) = Some (buf', n + 1 + length m, st)"
        "holds_at (buf[dst := c]) (dst + length [c]) m buf'"
      using Cons.IH [of "Suc dst" "buf[dst := c]" "n + 1" "start + 1"] Cons.prems by auto
    ultimately show ?thesis
      using holds_at_append [OF one b(2)] Cons.prems(1) by auto
  qed
qed (simp add: holds_at_def)

lemma html_files: "file < 5 \<Longrightarrow> unat file < length httpfiles \<and> http_ftype file = HTML_FILE"
proof -
  assume "file < 5"
  then have "unat file < 5" by (simp add: word_less_nat_alt)
  then have "unat file = 0 \<or> unat file = 1 \<or> unat file = 2 \<or> unat file = 3 \<or> unat file = 4" by auto
  then show ?thesis by (elim disjE) (simp_all add: httpfiles_def http_ftype_def)
qed

lemma fparse_page:
  assumes "page_text e file s = Some t" "html_buf s \<noteq> None" "file < 5" "fillable e s file"
    and "dst + length (filled e s file t) < length (SendData s)" "length (filled e s file t) \<le> 4096" "length t \<le> 4096"
  shows "\<exists>hb st b. http_fparse e dst file 0 4096 s =
      Some (of_nat (served e s file t), st, s\<lparr>html_buf := hb, SendData := b\<rparr>) \<and> hb \<noteq> None \<and> holds_at (SendData s) dst (filled e s file t) b"
proof -
  obtain hb where hb: "get_web_html e file s = Some (Some hb, s\<lparr>html_buf := Some hb\<rparr>)" "str_in hb = Some t"
    using get_web_html_text [OF assms(1,2)] by blast
  have f: "\<not> length httpfiles \<le> unat file" using html_files [OF assms(3)] by simp
  note run = http_fparse_def [of e dst "file" 0 4096 s]
  have items: "status_items e (s\<lparr>html_buf := h\<rparr>) = status_items e s" for h by (simp add: status_items_def)
  consider "file = 2" | "file = 3" | "file = 4" | "file \<noteq> 2" "file \<noteq> 3" "file \<noteq> 4" by blast
  then show ?thesis
  proof cases
    case 1
    then obtain b where "html_rebuild_sysstatus e (s\<lparr>html_buf := Some hb\<rparr>) (SendData s) dst t 4096 = Some (b, of_nat (length t))"
        "holds_at (SendData s) dst (filled e s file t) b"
      using status_built [of e dst "s\<lparr>html_buf := Some hb\<rparr>" t "SendData s" 4096] assms(4,5,7)
      by (auto simp: fillable_def filled_def items)
    with run f hb 1 show ?thesis by (auto simp: served_def Let_def)
  next
    case 2
    then obtain b where "html_rebuild_wifibase (UserParam s) (SendData s) dst t 4096 = Some (b, of_nat (length (filled e s file t)))"
        "holds_at (SendData s) dst (filled e s file t) b"
      using wifibase_built [of "UserParam s" dst t "SendData s" 4096] assms(4,5,6) by (auto simp: fillable_def filled_def)
    with run f hb 2 show ?thesis by (auto simp: served_def Let_def)
  next
    case 3
    then obtain b where "html_rebuild_wifinet (wl_workmode s) (UserParam s) (SendData s) dst t 4096 =
        Some (b, of_nat (length (filled e s file t)))" "holds_at (SendData s) dst (filled e s file t) b"
      using wifinet_built [of "wl_workmode s" "UserParam s" dst t "SendData s" 4096] assms(4,5,6) by (auto simp: fillable_def filled_def)
    with run f hb 3 show ?thesis by (auto simp: served_def Let_def)
  next
    case 4
    then have ft: "filled e s file t = t" by (simp add: filled_def)
    then obtain b st where "parse_copy (SendData s) dst t 0 (unat (4096 :: u32)) 0 = Some (b, length t, st)" "holds_at (SendData s) dst t b"
      using parse_copy_ok [of dst t "SendData s" 0 4096 0] assms(5,6) by auto
    with run f hb 4 ft show ?thesis by (auto simp: served_def Let_def)
  qed
qed

lemma dec_of_small: "n \<le> 4096 \<Longrightarrow> dec_of_int (sint (of_nat n :: u32)) = dec_of_nat n"
proof -
  assume n: "n \<le> 4096"
  then have "signed_take_bit 31 (int n) = int n" by (intro signed_take_bit_int_eq_self) simp_all
  then have "sint (of_nat n :: u32) = int n" by (simp add: signed_of_nat)
  then show ?thesis by (simp add: dec_of_int_def)
qed

lemma write_keeps:
  assumes "buf_write b p xs = Some b'" "p + length xs \<le> q"
  shows "take n (drop q b') = take n (drop q b)"
proof -
  have "drop q b' = drop q b" using assms by (auto simp: buf_write_def drop_append min_def split: if_splits)
  then show ?thesis by simp
qed

text \<open>The array after header, page, the second header and the restored first character.\<close>

lemma page_over_header:
  assumes "holds_at buf (length h) c b" "length h + length c \<le> length buf" "c = CHR ''<'' # r"
  shows "\<exists>b1 b2. buf_write b 0 (h @ [NUL]) = Some b1 \<and> buf_write b1 (length h) [CHR ''<''] = Some b2 \<and>
    length b2 = length buf \<and> take (length h + length c) b2 = h @ c"
proof -
  have b: "length b = length buf" "take (length c) (drop (length h) b) = c" using assms(1) by (simp_all add: holds_at_def)
  define b1 where "b1 = h @ NUL # drop (Suc (length h)) b"
  have b1: "buf_write b 0 (h @ [NUL]) = Some b1" using assms(2,3) b(1) by (simp add: buf_write_def b1_def)
  define b2 where "b2 = h @ CHR ''<'' # drop (Suc (length h)) b"
  have b2: "buf_write b1 (length h) [CHR ''<''] = Some b2" by (simp add: buf_write_def b1_def b2_def)
  have "tl (take (length c) (drop (length h) b)) = r" using b(2) assms(3) by simp
  then have "take (length r) (drop (Suc (length h)) b) = r" using assms(3) by (simp add: tl_take drop_Suc tl_drop)
  then have "take (length h + length c) b2 = h @ c" using assms(3) by (simp add: b2_def)
  moreover have "length b2 = length buf" using assms(2,3) b(1) by (simp add: b2_def)
  ultimately show ?thesis using b1 b2 by blast
qed

lemma html_once:
  assumes "http_fparse e (length h) (h_file (http_table s ! idx)) (h_fparse (http_table s ! idx)) 4096 s =
      Some (i, st, s\<lparr>html_buf := hb, SendData := b\<rparr>)"
    and "h = with_length HTTP_HTML_HEADER i" "holds_at buf (length h) c b" "length h + length c \<le> length buf" "c = CHR ''<'' # r"
    and "unat i \<le> length c" "idx < 5" "idx < length (http_table s)"
    and "h_fpos (http_table s ! idx) = 0" "h_flen (http_table s ! idx) \<le> i" "length h' = length h"
  shows "\<exists>s'. send_html e idx (length h') (length h') s = Some (0, s') \<and>
    http_sent s' = http_sent s @ [(h_sock_fd (http_table s ! idx), h @ take (unat i) c)] \<and>
    (\<exists>b' t. s' = s\<lparr>html_buf := hb, SendData := b', http_sent := http_sent s', http_table := (http_table s)[idx := t]\<rparr> \<and>
      length b' = length buf \<and> h_flen t \<le> h_fpos t \<and> h_sock_fd t = h_sock_fd (http_table s ! idx))"
proof -
  obtain b1 b2 where b: "buf_write b 0 (h @ [NUL]) = Some b1" "buf_write b1 (length h) [CHR ''<''] = Some b2"
      "length b2 = length buf" "take (length h + length c) b2 = h @ c"
    using page_over_header [OF assms(3-5)] by blast
  have "take (length h + unat i) b2 = take (length h + unat i) (take (length h + length c) b2)" using assms(6) by (simp add: min_def)
  then have seg: "take (length h + unat i) b2 = h @ take (unat i) c" unfolding b(4) by simp
  have fits: "\<not> length b2 < length h + unat i" using b(3) assms(4,6) by simp
  define t where "t = (http_table s ! idx)\<lparr>h_fparse := st, h_fpos := i\<rparr>"
  define s1 where "s1 = upd_entry idx (\<lambda>t. t\<lparr>h_fparse := st\<rparr>) (s\<lparr>html_buf := hb, SendData := b\<rparr>)"
  define s2 where "s2 = s\<lparr>html_buf := hb, SendData := b2, http_table := (http_table s)[idx := t]\<rparr>"
  define s' where "s' = s2\<lparr>http_sent := http_sent s @ [(h_sock_fd (http_table s ! idx), h @ take (unat i) c)]\<rparr>"
  have put: "put_text 0 h s1 = Some (s1\<lparr>SendData := b1\<rparr>)" using b(1) by (simp add: put_text_def s1_def upd_entry_def)
  have upd: "upd_entry idx (\<lambda>t. t\<lparr>h_fpos := h_fpos t + i\<rparr>) (s1\<lparr>SendData := b2\<rparr>) = s2"
    using assms(8,9) by (simp add: upd_entry_def s1_def s2_def t_def)
  have fd: "h_sock_fd (http_table s2 ! idx) = h_sock_fd (http_table s ! idx)" using assms(8) by (simp add: s2_def t_def)
  have send: "tcp_send idx (length h + unat i) s2 = Some s'"
    using assms(7) fits seg fd by (simp add: tcp_send_def TCP_ENTRIES_def s'_def) (simp add: s2_def)
  have fin: "\<not> h_fpos (http_table s' ! idx) < h_flen (http_table s' ! idx)"
    using assms(8,10) by (simp add: s'_def s2_def t_def not_less)
  have "send_html e idx (length h') (length h') s = Some (0, s')"
    unfolding assms(11) send_html.simps [of e idx "length h" "length h" s] assms(1)
    using put b(2) upd send fin
    by (simp add: s1_def [symmetric] assms(2) [symmetric] Let_def)
  moreover have "h_flen t \<le> h_fpos t" "h_sock_fd t = h_sock_fd (http_table s ! idx)" using assms(10) by (simp_all add: t_def)
  moreover have "s' = s\<lparr>html_buf := hb, SendData := b2, http_sent := http_sent s', http_table := (http_table s)[idx := t]\<rparr>"
    by (simp add: s'_def s2_def)
  ultimately show ?thesis using b(3) by (auto simp: s'_def)
qed

lemma flen_page:
  assumes "page_text e file s = Some t" "html_buf s \<noteq> None" "file < 5"
  shows "\<exists>hb. http_flen e file s = Some (of_nat (length t), s\<lparr>html_buf := hb\<rparr>) \<and> hb \<noteq> None"
proof -
  obtain hb where hb: "get_web_html e file s = Some (Some hb, s\<lparr>html_buf := Some hb\<rparr>)" "str_in hb = Some t"
    using get_web_html_text [OF assms(1,2)] by blast
  have "\<not> length httpfiles \<le> unat file" "http_ftype file = HTML_FILE" using html_files [OF assms(3)] by simp_all
  with hb show ?thesis by (intro exI [of _ "Some hb"]) (simp add: http_flen_def http_fparse_def)
qed

lemma page_text_cong:
  assumes "flash s' = flash s"
  shows "page_text e file s' = page_text e file s"
  unfolding page_text_def get_web_html_len_def assms ..

text \<open>What a transfer leaves alone.\<close>

definition same_config :: "('f, 'a) web_scheme \<Rightarrow> ('f, 'a) web_scheme \<Rightarrow> bool" where
  "same_config s s' \<longleftrightarrow> UserParam s' = UserParam s \<and> SysParam s' = SysParam s \<and> flash s' = flash s \<and> wl_workmode s' = wl_workmode s \<and>
     length (http_table s') = length (http_table s) \<and> length (SendData s') = length (SendData s) \<and> html_buf s' \<noteq> None"

text \<open>The conditions on a page: its text \<open>t\<close> is in flash and not empty, the buffer it is read into could be allocated, the
  parameters can be printed on it (\<open>fillable\<close>), the filled page starts with a tag and is not shorter than \<open>t\<close>, it fits the
  send buffer of 4096 bytes behind the header, and the number of characters sent has as many digits as the number of
  characters of \<open>t\<close> (otherwise the second header overwrites the page, a finding).\<close>

definition page_ready :: "'f env \<Rightarrow> ('f, 'a) web_scheme \<Rightarrow> u32 \<Rightarrow> string \<Rightarrow> bool" where
  "page_ready e s file t \<longleftrightarrow> page_text e file s = Some t \<and> html_buf s \<noteq> None \<and> file < 5 \<and> fillable e s file \<and> t \<noteq> [] \<and>
     length t \<le> length (filled e s file t) \<and> (\<exists>r. filled e s file t = CHR ''<'' # r) \<and>
     length (with_length HTTP_HTML_HEADER (of_nat (length t))) + length (filled e s file t) < length (SendData s) \<and>
     length (SendData s) = SEND_BUFFER_SIZE \<and>
     length (dec_of_nat (served e s file t)) = length (dec_of_nat (length t))"

lemma page_served_lemma:
  assumes "page_ready e s file t" "http_fid name = Some (file, param)" "idx < 5" "length (http_table s) = 5"
  shows "\<exists>s'. http_sendfile e idx (Some name) 0 s = Some (0, s') \<and> same_config s s' \<and>
    http_sent s' = http_sent s @ [(h_sock_fd (http_table s ! idx),
      with_length HTTP_HTML_HEADER (of_nat (served e s file t)) @ take (served e s file t) (filled e s file t))] \<and>
    h_status (http_table s' ! idx) = HTTP_CLOSED"
proof -
  have pr: "page_text e file s = Some t" "html_buf s \<noteq> None" "file < 5" "fillable e s file" "t \<noteq> []"
      "length t \<le> length (filled e s file t)"
      "length (with_length HTTP_HTML_HEADER (of_nat (length t))) + length (filled e s file t) < length (SendData s)"
      "length (SendData s) = 4096" "length (dec_of_nat (served e s file t)) = length (dec_of_nat (length t))"
    using assms(1) by (auto simp: page_ready_def SEND_BUFFER_SIZE_def)
  obtain r where r: "filled e s file t = CHR ''<'' # r" using assms(1) by (auto simp: page_ready_def)
  define n where "n = served e s file t"
  define h where "h = with_length HTTP_HTML_HEADER (of_nat n)"
  define h' where "h' = with_length HTTP_HTML_HEADER (of_nat (length t))"
  have small: "n \<le> 4096" "length t \<le> 4096" "n \<le> length (filled e s file t)" "length t \<le> n"
    using pr(6-8) by (auto simp: n_def served_def)
  have hh: "length h' = length h" using pr(9) small(1,2) by (simp add: h_def h'_def with_length_def dec_of_small n_def)
  obtain hb where hb: "http_flen e file s = Some (of_nat (length t), s\<lparr>html_buf := hb\<rparr>)" "hb \<noteq> None"
    using flen_page [OF pr(1-3)] by blast
  have nz: "(of_nat (length t) :: u32) \<noteq> 0"
  proof
    assume "(of_nat (length t) :: u32) = 0"
    then have "unat (of_nat (length t) :: u32) = 0" by simp
    then show False using small(2) pr(5) by (simp add: unat_of_nat)
  qed
  define b0 where "b0 = h' @ NUL # drop (Suc (length h')) (SendData s)"
  define ent where "ent = (http_table s ! idx)\<lparr>h_status := HTTP_SEND, h_file := file, h_ftype := HTML_FILE, h_flen := of_nat (length t),
      h_fpos := 0, h_fparse := 0, h_fparam := param\<rparr>"
  define s3 where "s3 = s\<lparr>html_buf := hb, http_table := (http_table s)[idx := ent], SendData := b0\<rparr>"
  have l0: "length b0 = 4096" using pr(7,8) by (simp add: b0_def h'_def)
  have head: "http_sendfile e idx (Some name) 0 s = send_body e idx (length h') (length h') s3"
  proof -
    have "put_text 0 h' (s\<lparr>html_buf := hb, http_table := (http_table s)[idx := ent]\<rparr>) = Some s3"
      using pr(7) by (simp add: put_text_def buf_write_def h'_def [symmetric] b0_def s3_def)
    moreover have "h' \<noteq> []" by (simp add: h'_def with_length_def crlf_def)
    moreover have "file_header (http_ftype file) (of_nat (length t)) = h'"
      using html_files [OF pr(3)] by (simp add: file_header_def h'_def)
    ultimately show ?thesis
      using assms(2-4) hb nz html_files [OF pr(3)]
      by (simp add: http_sendfile_def upd_entry_def ent_def [symmetric] Let_def)
  qed
  have fin3: "filled e s3 file t = filled e s file t" "fillable e s3 file \<longleftrightarrow> fillable e s file" "served e s3 file t = n"
    by (simp_all add: filled_def fillable_def served_def s3_def n_def status_items_def)
  have ent3: "http_table s3 ! idx = ent" using assms(3,4) by (simp add: s3_def)
  obtain hb2 st b where p: "http_fparse e (length h) file 0 4096 s3 = Some (of_nat n, st, s3\<lparr>html_buf := hb2, SendData := b\<rparr>)"
      "hb2 \<noteq> None" "holds_at b0 (length h) (filled e s file t) b"
  proof -
    have "page_text e file s3 = Some t" using page_text_cong [of s3 s e "file"] pr(1) by (simp add: s3_def)
    moreover have "SendData s3 = b0" "html_buf s3 \<noteq> None" using hb(2) by (simp_all add: s3_def)
    ultimately show ?thesis
      using fparse_page [of e "file" s3 t "length h"] that fin3 pr(3,4,7,8) small(2) l0 hh by (auto simp: h'_def)
  qed
  have same3: "unat (of_nat n :: u32) = n" "http_sent s3 = http_sent s" "h_sock_fd (http_table s3 ! idx) = h_sock_fd (http_table s ! idx)"
    using small(1) by (simp_all add: unat_of_nat ent3) (simp_all add: ent_def s3_def)
  have once: "\<exists>s'. send_html e idx (length h') (length h') s3 = Some (0, s') \<and>
      http_sent s' = http_sent s3 @ [(h_sock_fd (http_table s3 ! idx), h @ take (unat (of_nat n :: u32)) (filled e s file t))] \<and>
      (\<exists>b' t'. s' = s3\<lparr>html_buf := hb2, SendData := b', http_sent := http_sent s', http_table := (http_table s3)[idx := t']\<rparr> \<and>
        length b' = length b0 \<and> h_flen t' \<le> h_fpos t' \<and> h_sock_fd t' = h_sock_fd (http_table s3 ! idx))"
  proof (rule html_once [where st = st and b = b])
    show "http_fparse e (length h) (h_file (http_table s3 ! idx)) (h_fparse (http_table s3 ! idx)) 4096 s3 =
        Some (of_nat n, st, s3\<lparr>html_buf := hb2, SendData := b\<rparr>)"
      using p(1) by (simp add: ent3 ent_def)
    show "length h + length (filled e s file t) \<le> length b0" using pr(7,8) l0 hh by (simp add: h'_def)
    show "unat (of_nat n :: u32) \<le> length (filled e s file t)" using small(1,3) by (simp add: unat_of_nat)
    show "h_flen (http_table s3 ! idx) \<le> of_nat n" using small by (simp add: ent3 ent_def word_le_nat_alt unat_of_nat)
  qed (use p(3) r assms(3,4) hh in \<open>simp_all add: h_def [symmetric] ent3 s3_def ent_def\<close>)
  obtain s' b' t' where s': "send_html e idx (length h') (length h') s3 = Some (0, s')"
      "http_sent s' = http_sent s @ [(h_sock_fd (http_table s ! idx), h @ take n (filled e s file t))]"
      "s' = s3\<lparr>html_buf := hb2, SendData := b', http_sent := http_sent s', http_table := (http_table s3)[idx := t']\<rparr>"
      "length b' = length b0" "h_flen t' \<le> h_fpos t'"
    using once [unfolded same3] by blast
  have tab: "http_table s' ! idx = t'" "length (http_table s') = 5" by (subst s'(3), use assms(3,4) in \<open>simp add: s3_def\<close>)+
  have body: "send_body e idx (length h') (length h') s3 = Some (0, http_close idx s')"
    using s'(1) nz by (simp add: send_body_def ent3 ent_def)
  have c: "UserParam s' = UserParam s" "SysParam s' = SysParam s" "flash s' = flash s" "wl_workmode s' = wl_workmode s"
      "SendData s' = b'" "html_buf s' = hb2"
    by (subst s'(3), simp add: s3_def)+
  have "same_config s (http_close idx s')"
    using c p(2) s'(4) l0 pr(8) tab assms(4) by (simp add: same_config_def http_close_def upd_entry_def)
  moreover have "h_status (http_table (http_close idx s') ! idx) = HTTP_CLOSED"
    using tab assms(3) by (simp add: http_close_def upd_entry_def)
  moreover have "http_sent (http_close idx s') = http_sent s'" by (simp add: http_close_def upd_entry_def)
  ultimately show ?thesis using head body s'(2) by (auto simp: h_def n_def)
qed

lemma fill_found:
  "nustrstr s pat = Some t \<Longrightarrow> fill ((pat, tx, sub) # r) s = take (length s - length t) s @ tx @ fill r (drop (length pat) t)"
  by simp

lemma fill_longer:
  "\<forall>(pat, tx, sub) \<in> set items. cstring pat \<and> pat \<noteq> [] \<and> length pat \<le> length tx \<Longrightarrow> length s \<le> length (fill items s)"
proof (induction items s rule: fill.induct)
  case (2 pat tx sub r s)
  show ?case
  proof (cases "nustrstr s pat")
    case (Some t)
    have c: "cstring pat" "pat \<noteq> []" "length pat \<le> length tx" using 2(3) by auto
    note f = nustrstr_found [OF Some c(1,2)]
    have "length t \<le> length s" using arg_cong [OF f(1), of length] by simp
    moreover have "length pat \<le> length t" using arg_cong [OF f(2), of length] by simp
    moreover have "length (drop (length pat) t) \<le> length (fill r (drop (length pat) t))" using 2(2) [OF Some] 2(3) by simp
    ultimately have "length t \<le> length tx + length (fill r (drop (length pat) t))" using c(3) by simp
    with Some show ?thesis by simp
  qed (use 2 in simp)
qed simp

text \<open>The status page grows when it is filled: by at least eight characters when it announces the SDK version.\<close>

lemma status_grows:
  assumes "unat (fw_ver e ! 0) < 16" "nustrstr t ''SDK Version:'' \<noteq> None"
  shows "length (fill (status_items e s) t) \<ge> length t + 8"
proof -
  have v: "unat (fw_ver e ! 0) < 16" by (rule assms(1))
  have "\<forall>(pat, tx, sub) \<in> set (tl (status_items e s)). cstring pat \<and> pat \<noteq> [] \<and> length pat \<le> length tx"
    by (simp add: status_items_def NUL_def)
  note rest = fill_longer [OF this]
  obtain r where r: "nustrstr t ''SDK Version:'' = Some r" using assms(2) by blast
  have f: "cstring ''SDK Version:''" "''SDK Version:'' \<noteq> []" by (simp_all add: NUL_def)
  note found = nustrstr_found [OF r f]
  have "length r \<le> length t" using arg_cong [OF found(1), of length] by simp
  moreover have "12 \<le> length r" using arg_cong [OF found(2), of length] by simp
  moreover have "length (drop 12 r) \<le> length (fill (tl (status_items e s)) (drop 12 r))" by (rule rest)
  moreover have "fill (status_items e s) t = take (length t - length r) t @ (''SDK Version: '' @ version_text (fw_ver e)) @
      fill (tl (status_items e s)) (drop 12 r)"
  proof -
    have st: "(''SDK Version:'', ''SDK Version: '' @ version_text (fw_ver e), 12) # tl (status_items e s) = status_items e s"
      by (simp add: status_items_def)
    have l: "length ''SDK Version:'' = 12" by simp
    show ?thesis using fill_found [OF r, of "''SDK Version: '' @ version_text (fw_ver e)" 12 "tl (status_items e s)"] unfolding st l .
  qed
  moreover have "length (''SDK Version: '' @ version_text (fw_ver e)) = 20" using v by (simp add: version_text_def)
  ultimately show ?thesis by (simp del: append.simps)
qed

text \<open>C28: For every page of the web server that is ready (its text in flash and not empty, the buffer it is read into
  allocated, printable parameters, the filled page starting with a tag, not shorter than the stored one and together with
  the header less than 4096 characters, the length sent with as many digits as the stored length), a request on one of the five
  connections is answered with one segment on that connection, a header that announces the length of the body and the body;
  the connection is closed and the configuration unchanged. The body is the page with the current parameters filled in, except
  for the status page: of that only as many characters are sent as the page had before anything was filled in, which cuts at
  least eight characters off a page that announces the SDK version (the defect at \<^verbatim>\<open>http_builder.c:97\<close>).\<close>

theorem page_served:
  assumes "page_ready e s file t" "http_fid name = Some (file, param)" "idx < 5" "length (http_table s) = 5"
  shows "\<exists>s' body. http_sendfile e idx (Some name) 0 s = Some (0, s') \<and> same_config s s' \<and>
    http_sent s' = http_sent s @ [(h_sock_fd (http_table s ! idx), with_length HTTP_HTML_HEADER (of_nat (length body)) @ body)] \<and>
    h_status (http_table s' ! idx) = HTTP_CLOSED \<and>
    (if file = 2 then body = take (length t) (fill (status_items e s) t) \<and>
        (nustrstr t ''SDK Version:'' \<noteq> None \<longrightarrow> length body + 8 \<le> length (fill (status_items e s) t))
     else body = filled e s file t)"
proof -
  have len: "length (take (served e s file t) (filled e s file t)) = served e s file t"
    using assms(1) by (auto simp: page_ready_def served_def min_def)
  have cut: "length t + 8 \<le> length (fill (status_items e s) t)" if "file = 2" "nustrstr t ''SDK Version:'' \<noteq> None"
    using status_grows [OF _ that(2), of e s] assms(1) that(1) by (simp add: page_ready_def fillable_def)
  obtain s' where "http_sendfile e idx (Some name) 0 s = Some (0, s')" "same_config s s'"
      "http_sent s' = http_sent s @ [(h_sock_fd (http_table s ! idx),
        with_length HTTP_HTML_HEADER (of_nat (served e s file t)) @ take (served e s file t) (filled e s file t))]"
      "h_status (http_table s' ! idx) = HTTP_CLOSED"
    using page_served_lemma [OF assms] by blast
  then show ?thesis
    using len cut by (intro exI [of _ s'] exI [of _ "take (served e s file t) (filled e s file t)"])
      (auto simp: served_def filled_def)
qed

section \<open>Witnesses\<close>

text \<open>A flash with the page \<open>t\<close> at \<open>a\<close>: the size in the header, the text behind it.\<close>

definition burn :: "nat \<Rightarrow> string \<Rightarrow> nor" where
  "burn a t = (\<lambda>x. if a + 8 \<le> x \<and> x < a + 12 then le32 (of_nat (length t) + 255) ! (x - (a + 8))
     else if a + 256 \<le> x \<and> x < a + 256 + length t then to_bytes t ! (x - (a + 256)) else 0xFF)"

definition web0 :: "nor \<Rightarrow> nor web" where
  "web0 f = snet.extend (snet0\<lparr>flash := f\<rparr>) (web.fields
     (replicate 5 \<lparr>h_sock_fd = 4, h_status = 0, h_file = 0, h_ftype = 0, h_flen = 0, h_fpos = 0, h_fparse = 0, h_fparam = 0\<rparr>)
     (replicate 4096 NUL) (replicate 3120 NUL) (Some []) [] 0 0 0)"

lemma web0_simps [simp]:
  "flash (web0 f) = f" "html_buf (web0 f) = Some []" "SendData (web0 f) = replicate 4096 NUL" "http_sent (web0 f) = []"
  "length (http_table (web0 f)) = 5" "i < 5 \<Longrightarrow> h_sock_fd (http_table (web0 f) ! i) = 4"
  "UserParam (web0 f) = user0" "PermanentAddress (web0 f) = [0, 0x13, 0xEF, 0, 0x12, 0x34]" "wl_workmode (web0 f) = 0"
  by (simp_all add: web0_def snet.defs web.defs snet0_def)

lemma map_window: "length ys = n \<Longrightarrow> (\<And>i. i < n \<Longrightarrow> f (a + i) = ys ! i) \<Longrightarrow> map f [a..<a + n] = ys"
  by (rule nth_equalityI) simp_all

lemma burn_page:
  assumes "page_addr file = Some a" "cstring t" "length t \<le> 4095"
  shows "page_text env0 file (web0 (burn a t)) = Some t"
proof -
  let ?n = "of_nat (length t) :: u32"
  have "map (burn a t) [a + 8..<a + 8 + 4] = le32 (?n + 255)"
    by (rule map_window) (auto simp: burn_def le32_def)
  then have "take 4 (drop 8 (map (burn a t) [a..<a + 32])) = le32 (?n + 255)" by (simp add: drop_map take_map)
  then have "get_web_html_len env0 file (web0 (burn a t)) = ?n"
    using assms(1) of_le32_le32 [of "?n + 255" "[]"] by (simp add: get_web_html_len_def nor.read)
  moreover have "unat ?n = length t" using assms(3) by (simp add: unat_of_nat)
  moreover have "map (burn a t) [a + 256..<a + 256 + length t] = to_bytes t"
    by (rule map_window) (auto simp: burn_def to_bytes_def)
  moreover have "chars (to_bytes t) = t"
    by (rule nth_equalityI) (simp_all add: chars_def to_bytes_def unat_of_nat)
  ultimately show ?thesis
    using assms by (simp add: page_text_def nor.read HTTP_SEND_BUFFER_MAX_def str_in_def) (auto simp: cstring_def takeWhile_append takeWhile_eq_all_conv)
qed

lemma header_length: "n \<le> 4096 \<Longrightarrow> length (with_length HTTP_HTML_HEADER (of_nat n)) = 177 + length (dec_of_nat n)"
  by (simp add: with_length_def dec_of_small HTTP_HTML_HEADER_def http_header_def crlf_def)

lemma two_digits: "10 \<le> n \<Longrightarrow> n < 100 \<Longrightarrow> length (dec_of_nat n) = 2"
  by (simp add: dec_of_nat.simps)

abbreviation login_page :: string where "login_page \<equiv> ''<html></html>''"

abbreviation status_page :: string where "status_page \<equiv> ''<b>SDK Version:</b>''"

lemma status_page_ready:
  defines "s \<equiv> web0 (burn 0x6B000 status_page)"
  shows "page_ready env0 s 2 status_page" "fill (status_items env0 s) status_page = ''<b>SDK Version: '' @ version_text (fw_ver env0) @ ''</b>''"
proof -
  have n: "nustrstr status_page ''SDK Version:'' = Some ''SDK Version:</b>''" "nustrstr ''</b>'' ''SerialNet Version:'' = None"
      "nustrstr ''</b>'' ''IP ADDR:'' = None" "nustrstr ''</b>'' ''MAC ADDR:'' = None"
    by code_simp+
  then show fl: "fill (status_items env0 s) status_page = ''<b>SDK Version: '' @ version_text (fw_ver env0) @ ''</b>''"
    by (simp add: status_items_def)
  have f: "filled env0 s 2 status_page = ''<b>SDK Version: '' @ version_text (fw_ver env0) @ ''</b>''" "served env0 s 2 status_page = 19"
    unfolding filled_def fl by (simp_all add: served_def)
  have v: "length (version_text (fw_ver env0)) = 7" by (simp add: version_text_def env0_def)
  have "page_text env0 2 s = Some status_page" unfolding s_def by (rule burn_page) (simp_all add: page_addr_def NUL_def)
  then show "page_ready env0 s 2 status_page"
    using header_length [of 19] v by (simp add: two_digits page_ready_def f fillable_def SEND_BUFFER_SIZE_def)
      (simp add: env0_def s_def)
qed

text \<open>The login page goes out whole, of the status page 19 characters.\<close>

theorem page_served_witness:
  "(\<exists>s'. http_sendfile env0 0 (Some ''/login.html'') 0 (web0 (burn 0x6A000 login_page)) = Some (0, s') \<and>
     http_sent s' = [(4, with_length HTTP_HTML_HEADER 13 @ login_page)]) \<and>
   (\<exists>s'. http_sendfile env0 0 (Some ''/status.html'') 0 (web0 (burn 0x6B000 status_page)) = Some (0, s') \<and>
     http_sent s' = [(4, with_length HTTP_HTML_HEADER 19 @
       take 19 (''<b>SDK Version: '' @ version_text (fw_ver env0) @ ''</b>''))])"
proof
  let ?s = "web0 (burn 0x6A000 login_page)"
  have f: "filled env0 ?s 1 login_page = login_page" "served env0 ?s 1 login_page = 13" by (simp_all add: filled_def served_def)
  have "page_text env0 1 ?s = Some login_page" by (rule burn_page) (simp_all add: page_addr_def NUL_def)
  then have "page_ready env0 ?s 1 login_page"
    using header_length [of 13] by (simp add: two_digits page_ready_def f fillable_def SEND_BUFFER_SIZE_def)
  moreover have "http_fid ''/login.html'' = Some (1, 0)" by code_simp
  ultimately show "\<exists>s'. http_sendfile env0 0 (Some ''/login.html'') 0 ?s = Some (0, s') \<and>
     http_sent s' = [(4, with_length HTTP_HTML_HEADER 13 @ login_page)]"
    using page_served [of env0 ?s 1 login_page "''/login.html''" 0 0] f by fastforce
next
  let ?s = "web0 (burn 0x6B000 status_page)"
  let ?body = "take 19 (''<b>SDK Version: '' @ version_text (fw_ver env0) @ ''</b>'')"
  have f: "http_fid ''/status.html'' = Some (2, 0)" by code_simp
  have i: "0 < (5 :: nat)" "length (http_table ?s) = 5" by simp_all
  obtain s' b where r: "http_sendfile env0 0 (Some ''/status.html'') 0 ?s = Some (0, s')"
      "http_sent s' = http_sent ?s @ [(h_sock_fd (http_table ?s ! 0), with_length HTTP_HTML_HEADER (of_nat (length b)) @ b)]"
      "b = take (length status_page) (fill (status_items env0 ?s) status_page)"
    using page_served [OF status_page_ready(1) f i] unfolding if_P [OF refl] by blast
  have "length status_page = 19" by simp
  with r(3) have b: "b = ?body" by (simp only: status_page_ready(2))
  have "length (version_text (fw_ver env0)) = 7" by (simp add: version_text_def env0_def)
  then have "of_nat (length ?body) = (19 :: u32)" by simp
  with r(1,2) show "\<exists>s'. http_sendfile env0 0 (Some ''/status.html'') 0 ?s = Some (0, s') \<and>
     http_sent s' = [(4, with_length HTTP_HTML_HEADER 19 @ ?body)]"
    unfolding b by (intro exI [of _ s']) (simp del: take_append)
qed

end
