(* ===== verification/Http_Form.thy ===== *)
theory Http_Form
  imports Http_File
begin

text \<open>
  The forms of the web server (\<^verbatim>\<open>App/Webserver/http_parser.c\<close>): \<^verbatim>\<open>url_decode\<close>, which decodes a value in place in the
  receive buffer, the scanners that look for the fields of a form, and the handlers \<^verbatim>\<open>http_setup_uart\<close>, \<^verbatim>\<open>http_setup_net\<close>,
  \<^verbatim>\<open>http_setup_wifibase\<close>, \<^verbatim>\<open>http_resetsys\<close> and \<^verbatim>\<open>http_factory\<close>. Pointers into the receive buffer are offsets; reading or
  writing outside the buffer and following a NULL pointer are \<open>None\<close>.
\<close>

section \<open>Decoding a value in place\<close>

text \<open>The loop of \<^verbatim>\<open>url_decode\<close>: \<open>src\<close> is always \<open>rx + i\<close>. The buffer ends long before \<open>i\<close> could wrap.\<close>

function url_loop :: "string \<Rightarrow> nat \<Rightarrow> nat \<Rightarrow> nat \<Rightarrow> nat \<Rightarrow> (string \<times> nat \<times> nat) option" where
  "url_loop buf rx dst i len =
     (if i < len then
        if rx + i \<ge> length buf then None
        else
          let c = buf ! (rx + i)
          in if c \<in> {NUL, CHR ''&'', CHR '' '', LF, CR} then Some (buf, dst, i + 1)
             else if c = CHR ''%'' then
               if rx + i + 2 \<ge> length buf then None
               else
                 let v = atou_hex (Some (takeWhile (\<lambda>c. c \<noteq> NUL) [buf ! (rx + i + 1), buf ! (rx + i + 2)]))
                 in url_loop (buf[dst := char_of (unat (ucast v :: u8))]) rx (dst + 1) (i + 3) len
             else url_loop (buf[dst := if c = CHR ''+'' then CHR '' '' else c]) rx (dst + 1) (i + 1) len
      else Some (buf, dst, i))"
  by pat_completeness auto
termination by (relation "measure (\<lambda>(buf, rx, dst, i, len). len - i)") auto

declare url_loop.simps [simp del]

text \<open>\<^verbatim>\<open>strrmvspace(ptr, ptr)\<close> on the buffer.\<close>

definition rmvspace_at :: "string \<Rightarrow> nat \<Rightarrow> string option" where
  "rmvspace_at buf ptr =
     do {
       src \<leftarrow> str_in (drop ptr buf);
       if src = [] then Some buf
       else
         let dst = dropWhile isspace src
         in do {
           b \<leftarrow> buf_write buf ptr (dst @ [NUL]);
           m \<leftarrow> rmvspace_back (rev (take (ptr + length dst) b));
           Some (rev m @ drop (ptr + length dst) b)
         }
     }"

definition url_decode :: "string \<Rightarrow> nat \<Rightarrow> u32 \<Rightarrow> (string \<times> nat) option" where
  "url_decode buf rx len =
     do {
       (b, dst, i) \<leftarrow> url_loop buf rx rx 0 (unat len);
       b1 \<leftarrow> buf_write b dst [NUL];
       b2 \<leftarrow> rmvspace_at b1 rx;
       Some (b2, i)
     }"

text \<open>\<^verbatim>\<open>http_skiphd\<close> on the text at \<^verbatim>\<open>src\<close>: the text behind the empty line and how much of it is left.\<close>

fun http_skiphd :: "string \<Rightarrow> nat \<Rightarrow> string \<times> nat" where
  "http_skiphd src 0 = (src, 0)"
| "http_skiphd src (Suc i) =
     (if Suc i \<ge> 4 \<and> take 4 src = [CR, LF, CR, LF] then (drop 4 src, Suc i - 4) else http_skiphd (tl src) i)"

section \<open>Scanning a form\<close>

text \<open>\<^verbatim>\<open>strncmpi(rx, key, strlen(key)) == 0\<close> on the buffer.\<close>

fun cmp_key :: "string \<Rightarrow> nat \<Rightarrow> string \<Rightarrow> bool option" where
  "cmp_key buf rx [] = Some True"
| "cmp_key buf rx (c # k) =
     (if rx \<ge> length buf then None else if tolower (buf ! rx) = tolower c then cmp_key buf (Suc rx) k else Some False)"

fun find_key :: "(string \<times> bool) list \<Rightarrow> string \<Rightarrow> nat \<Rightarrow> (string \<times> bool) option option" where
  "find_key [] buf rx = Some None"
| "find_key ((k, d) # ks) buf rx = do { m \<leftarrow> cmp_key buf rx k; if m then Some (Some (k, d)) else find_key ks buf rx }"

text \<open>The loop of the handlers. A key is listed with whether its value is decoded; \<open>field\<close> is what the handler does with
  the position of the value. \<^verbatim>\<open>rx_len\<close> wraps, so a field that is cut off makes the loop run off the buffer.\<close>

partial_function (option) form_loop ::
  "(string \<times> bool) list \<Rightarrow> (string \<Rightarrow> nat \<Rightarrow> string \<Rightarrow> 'b \<Rightarrow> 'b option) \<Rightarrow> 'b \<Rightarrow> string \<Rightarrow> nat \<Rightarrow> u32 \<Rightarrow> ('b \<times> string) option" where
  "form_loop keys field st buf rx len =
     (if len = 0 then Some (st, buf)
      else do {
        f \<leftarrow> find_key keys buf rx;
        (case f of
           None \<Rightarrow> form_loop keys field st buf (rx + 1) (len - 1)
         | Some (k, d) \<Rightarrow>
             if d then do {
               (b, i) \<leftarrow> url_decode buf (rx + length k) (len - of_nat (length k));
               st1 \<leftarrow> field k (rx + length k) b st;
               form_loop keys field st1 b (rx + length k + i) (len - of_nat (length k) - of_nat i)
             }
             else form_loop keys field st buf (rx + length k) (len - of_nat (length k)))
      })"

text \<open>The pointer variables of a handler, by the key that sets them.\<close>

definition store_ptr :: "string \<Rightarrow> nat \<Rightarrow> string \<Rightarrow> (string \<Rightarrow> nat option) \<Rightarrow> (string \<Rightarrow> nat option) option" where
  "store_ptr k p b m = Some (m(k := Some p))"

definition ptr_str :: "string \<Rightarrow> nat option \<Rightarrow> string option" where
  "ptr_str buf p = do { a \<leftarrow> p; str_in (drop a buf) }"

text \<open>\<^verbatim>\<open>atoi\<close> and \<^verbatim>\<open>strlen\<close> of \<^verbatim>\<open>os_core.c\<close> take the null pointer of a field that was not sent: the number 0, the empty text.\<close>

definition text_at :: "string \<Rightarrow> nat option \<Rightarrow> string option" where
  "text_at buf p = (if p = None then Some [] else ptr_str buf p)"

lemma text_at_ptr [simp]: "ptr_str buf p = Some t \<Longrightarrow> text_at buf p = Some t"
  by (auto simp: text_at_def ptr_str_def)

definition atoi_at :: "string \<Rightarrow> nat option \<Rightarrow> int option" where
  "atoi_at buf p = map_option atoi32 (text_at buf p)"

text \<open>\<^verbatim>\<open>inet_aton(cp, &v)\<close>: \<open>v\<close> keeps its value when the text is not an address.\<close>

definition aton_at :: "string \<Rightarrow> nat option \<Rightarrow> u32 \<Rightarrow> u32 option" where
  "aton_at buf p v = map_option (\<lambda>t. case ipaddr_aton t of None \<Rightarrow> v | Some a \<Rightarrow> a) (ptr_str buf p)"

section \<open>The handlers\<close>

definition uart_keys :: "(string \<times> bool) list" where
  "uart_keys = [(''baudrate='', True), (''framelen='', True), (''frametime='', True)]"

definition http_setup_uart ::
  "'f env \<Rightarrow> nat \<Rightarrow> nat \<Rightarrow> u32 \<Rightarrow> ('f, 'a) web_scheme \<Rightarrow> ('f, 'a) web_scheme option" where
  "http_setup_uart e idx rx len s =
     do {
       (p, b) \<leftarrow> form_loop uart_keys store_ptr (\<lambda>_. None) (Rec_Data s) rx len;
       let s1 = s\<lparr>Rec_Data := b\<rparr>;
       wl_baudrate \<leftarrow> atoi_at b (p ''baudrate='');
       wl_framelen \<leftarrow> atoi_at b (p ''framelen='');
       wl_frametime \<leftarrow> atoi_at b (p ''frametime='');
       if wl_baudrate < 300 \<or> wl_baudrate > 1250000 \<or> wl_framelen < 0 \<or> wl_framelen > 1400 \<or> wl_frametime < 30 then Some s1
       else
         map_option snd (http_sendfile e idx (Some ''/wifinet.html'') 0
           (s1\<lparr>UserParam := (UserParam s)\<lparr>Baudrate := of_int wl_baudrate, frameLength := of_int wl_framelen,
                 frameGap := of_int wl_frametime\<rparr>\<rparr>))
     }"

definition net_keys :: "(string \<times> bool) list" where
  "net_keys = [(''workmode='', True), (''socktype='', True), (''conntype='', True), (''remoteip='', True), (''port='', True)]"

text \<open>\<open>junk\<close> is what the uninitialised \<^verbatim>\<open>wl_remoteip\<close> holds. \<^verbatim>\<open>wl_workmode\<close> is a global and stored before the check.\<close>

definition http_setup_net ::
  "'f env \<Rightarrow> u32 \<Rightarrow> nat \<Rightarrow> nat \<Rightarrow> u32 \<Rightarrow> ('f, 'a) web_scheme \<Rightarrow> ('f, 'a) web_scheme option" where
  "http_setup_net e junk idx rx len s =
     do {
       (p, b) \<leftarrow> form_loop net_keys store_ptr (\<lambda>_. None) (Rec_Data s) rx len;
       wl_socktype \<leftarrow> atoi_at b (p ''socktype='');
       wl_conntype \<leftarrow> atoi_at b (p ''conntype='');
       wl_remoteip \<leftarrow> aton_at b (p ''remoteip='') junk;
       wl_port \<leftarrow> atoi_at b (p ''port='');
       workmode \<leftarrow> atoi_at b (p ''workmode='');
       let s1 = s\<lparr>Rec_Data := b, wl_workmode := workmode\<rparr>;
       if wl_socktype < 0 \<or> wl_socktype > 1 \<or> wl_conntype < 0 \<or> wl_conntype > 1 \<or> wl_port > 65535 \<or> workmode < 0 \<or> workmode > 1
       then Some s1
       else
         map_option snd (http_sendfile e idx (Some ''/wifinet.html'') 0
           (s1\<lparr>UserParam := (UserParam s)\<lparr>socketProtocol := of_int wl_socktype, socketType := of_int wl_conntype,
                 remoteCommIp := wl_remoteip, socketPort := of_int wl_port\<rparr>\<rparr>))
     }"

definition wifibase_keys :: "(string \<times> bool) list" where
  "wifibase_keys = [(''wifimode='', True), (''encry='', True), (''authmode='', True), (''apssid='', True), (''apkey='', True),
     (''apipaddr='', True), (''apnetmask='', True), (''channel='', True), (''stassid='', True), (''stakey='', True),
     (''dhcp='', True), (''staipaddr='', True), (''stanetmask='', True), (''gateway='', True), (''dnsserv='', True),
     (''save='', False)]"

text \<open>The variable a field sets; the fields of the mode that is not chosen go to the \<^verbatim>\<open>web_\<close> variables.\<close>

definition wifibase_var :: "int \<Rightarrow> string \<Rightarrow> string" where
  "wifibase_var wl_protocol k =
     (if k = ''wifimode='' then ''protocol'' else if k = ''encry='' then ''encrymode'' else if k = ''authmode='' then ''authmode''
      else if k = ''apssid='' then if wl_protocol = 2 then ''ssid'' else ''web_ssid''
      else if k = ''apkey='' then if wl_protocol = 2 then ''key'' else ''web_key''
      else if k = ''apipaddr='' then if wl_protocol = 2 then ''ipaddr'' else ''web_ipaddr''
      else if k = ''apnetmask='' then if wl_protocol = 2 then ''netmask'' else ''web_netmask''
      else if k = ''channel='' then ''channel''
      else if k = ''stassid='' then if wl_protocol = 0 then ''ssid'' else ''web_ssid''
      else if k = ''stakey='' then if wl_protocol = 0 then ''key'' else ''web_key''
      else if k = ''dhcp='' then ''dhcp''
      else if k = ''staipaddr='' then if wl_protocol = 0 then ''ipaddr'' else ''web_ipaddr''
      else if k = ''stanetmask='' then if wl_protocol = 0 then ''netmask'' else ''web_netmask''
      else if k = ''gateway='' then ''gateway'' else ''dnsserv'')"

definition wifibase_field ::
  "string \<Rightarrow> nat \<Rightarrow> string \<Rightarrow> (string \<Rightarrow> nat option) \<times> int \<Rightarrow> ((string \<Rightarrow> nat option) \<times> int) option" where
  "wifibase_field k p b st =
     (case st of (m, wl_protocol) \<Rightarrow>
        let m1 = m(wifibase_var wl_protocol k := Some p)
        in if k = ''wifimode='' then do { v \<leftarrow> atoi_at b (Some p); Some (m1, v) } else Some (m1, wl_protocol))"

text \<open>\<open>junk\<close> is what the four uninitialised address variables hold.\<close>

definition http_setup_wifibase ::
  "'f env \<Rightarrow> (nat \<Rightarrow> u32) \<Rightarrow> nat \<Rightarrow> nat \<Rightarrow> u32 \<Rightarrow> ('f, 'a) web_scheme \<Rightarrow> ('f, 'a) web_scheme option" where
  "http_setup_wifibase e junk idx rx len s =
     do {
       ((p, wl_protocol), b) \<leftarrow> form_loop wifibase_keys wifibase_field (\<lambda>_. None, 0) (Rec_Data s) rx len;
       let u = UserParam s;
       ip \<leftarrow> aton_at b (p ''web_ipaddr'') (of_le32 (Ip (web_IPCfg u)));
       mask \<leftarrow> aton_at b (p ''web_netmask'') (of_le32 (Netmask (web_IPCfg u)));
       wssid \<leftarrow> text_at b (p ''web_ssid'');
       ssid_arr \<leftarrow> put_cstring (web_ssid u) wssid;
       wkey \<leftarrow> text_at b (p ''web_key'');
       key_arr \<leftarrow> put_cstring (web_key u) wkey;
       let s1 = s\<lparr>Rec_Data := b, UserParam := u\<lparr>web_IPCfg := (web_IPCfg u)\<lparr>Ip := le32 ip, Netmask := le32 mask\<rparr>,
                    web_ssid := ssid_arr, web_key := key_arr\<rparr>\<rparr>;
       wl_ipaddr \<leftarrow> aton_at b (p ''ipaddr'') (junk 0);
       wl_netmask \<leftarrow> aton_at b (p ''netmask'') (junk 1);
       wl_gateway \<leftarrow> aton_at b (p ''gateway'') (junk 2);
       wl_dnsserv \<leftarrow> aton_at b (p ''dnsserv'') (junk 3);
       wl_authmode \<leftarrow> atoi_at b (p ''authmode'');
       wl_encrymode \<leftarrow> atoi_at b (p ''encrymode'');
       wl_channel \<leftarrow> atoi_at b (p ''channel'');
       wl_dhcp \<leftarrow> atoi_at b (p ''dhcp'');
       if wl_protocol < 0 \<or> wl_protocol > 2 \<or> wl_authmode < 0 \<or> wl_authmode > 3 \<or> wl_encrymode < 0 \<or> wl_encrymode > 4 \<or>
          wl_channel < 0 \<or> wl_channel > 13 then Some s1
       else do {
         let s2 = (if wl_protocol = 0 then upd_user_cfg (\<lambda>c. c\<lparr>IPCfg := (IPCfg c)\<lparr>bDhcp := of_int wl_dhcp\<rparr>\<rparr>) s1
                   else if wl_protocol = 2 then upd_user_cfg (\<lambda>c. c\<lparr>bDhcpServer := 1\<rparr>) s1 else s1);
         ssid \<leftarrow> text_at b (p ''ssid'');
         key \<leftarrow> text_at b (p ''key'');
         s3 \<leftarrow> SetWifiParam ssid key wl_ipaddr wl_netmask wl_gateway wl_dnsserv (of_int wl_protocol) (of_int wl_encrymode)
                (of_int wl_authmode) (of_int wl_channel) s2;
         map_option snd (http_sendfile e idx (Some ''/wifibase.html'') 0 s3)
       }
     }"

text \<open>The handlers of the reboot and factory buttons; the chip is reset at their end.\<close>

definition http_resetsys :: "'f env \<Rightarrow> nat \<Rightarrow> ('f, 'a) web_scheme \<Rightarrow> ('f, 'a) web_scheme option" where
  "http_resetsys e idx s =
     do {
       (_, s1) \<leftarrow> http_sendfile e idx (Some ''/login.html'') 0 s;
       s2 \<leftarrow> SaveUserParam e (s1\<lparr>UserParam := (UserParam s1)\<lparr>atMode := of_int (wl_workmode s1), isValid := USER_PARAM_FLAG_VALID\<rparr>\<rparr>);
       Some (s2\<lparr>chip_reset := True\<rparr>)
     }"

definition http_factory :: "'f env \<Rightarrow> nat \<Rightarrow> ('f, 'a) web_scheme \<Rightarrow> ('f, 'a) web_scheme option" where
  "http_factory e idx s =
     do {
       (_, s1) \<leftarrow> http_sendfile e idx (Some ''/login.html'') 0 s;
       s2 \<leftarrow> SaveUserParam e (s1\<lparr>UserParam := zero_USER_CFG_PARAM\<rparr>);
       Some (s2\<lparr>chip_reset := True\<rparr>)
     }"

section \<open>A value comes back from its encoding\<close>

text \<open>The encoding a browser uses: letters and digits as they are, a space as \<^verbatim>\<open>+\<close>, everything else as \<^verbatim>\<open>%XX\<close>.\<close>

definition url_char :: "char \<Rightarrow> string" where
  "url_char c =
     (if isdigit c \<or> islower c \<or> isupper c then [c] else if c = CHR '' '' then ''+''
      else [CHR ''%'', utoa_digits ! (cval c div 16), utoa_digits ! (cval c mod 16)])"

definition url_encode :: "string \<Rightarrow> string" where
  "url_encode s = concat (map url_char s)"

lemma url_encode_simps [simp]: "url_encode [] = []" "url_encode (c # s) = url_char c @ url_encode s"
  by (simp_all add: url_encode_def)

lemma hex_digits_decode:
  "char_of (unat (ucast (atou_hex (Some (takeWhile (\<lambda>c. c \<noteq> NUL)
     [utoa_digits ! (cval c div 16), utoa_digits ! (cval c mod 16)]))) :: u8)) = c"
proof -
  have l: "cval c < 256" by simp
  have d: "cval c div 16 < 16" by (rule less_mult_imp_div_less) simp
  have d': "cval c mod 16 < 16" by simp
  have n: "utoa_digits ! k \<noteq> NUL" if "k < 16" for k
  proof -
    have "utoa_digits ! k \<in> set utoa_digits" using that by (intro nth_mem) (simp add: utoa_digits_def)
    then show ?thesis by (auto simp: utoa_digits_def NUL_def)
  qed
  have "atou_hex (Some [utoa_digits ! (cval c div 16), utoa_digits ! (cval c mod 16)]) =
      of_nat (cval c div 16) * 16 + of_nat (cval c mod 16)"
    by (simp only: atou_hex_def option.case atou_hex_digit [OF d] atou_hex_digit [OF d'] atou_hex_loop.simps(1)) simp
  also have "\<dots> = (of_nat (cval c div 16 * 16 + cval c mod 16) :: u32)" by (simp only: of_nat_add of_nat_mult of_nat_numeral)
  finally have "atou_hex (Some [utoa_digits ! (cval c div 16), utoa_digits ! (cval c mod 16)]) = of_nat (cval c)"
    by (simp only: div_mult_mod_eq)
  moreover have "unat (ucast (of_nat (cval c) :: u32) :: u8) = cval c"
    using mod_less [OF l] mod_less [of "cval c" "2 ^ 32"] less_trans [OF l, of "2 ^ 32"]
    by (simp add: unsigned_ucast_eq unat_of_nat take_bit_eq_mod)
  ultimately show ?thesis using n [OF d] n [OF d'] by simp
qed

text \<open>One encoded character: it is stored behind what was decoded so far.\<close>

lemma url_loop_char:
  assumes "c \<noteq> NUL" "length out + length gap + length (url_char c) \<le> len"
  shows "url_loop (pre @ out @ gap @ url_char c @ rest) (length pre) (length pre + length out) (length out + length gap) len =
    url_loop (pre @ (out @ [c]) @ tl (gap @ url_char c) @ rest) (length pre) (length pre + length (out @ [c]))
      (length out + length gap + length (url_char c)) len"
proof -
  let ?b = "pre @ out @ gap @ url_char c @ rest"
  have nth: "?b ! (length pre + (length out + length gap) + k) = (url_char c @ rest) ! k" for k
    by (simp add: nth_append)
  have nth0: "?b ! (length pre + (length out + length gap)) = hd (url_char c)"
    using nth [of 0] by (simp add: url_char_def nth_append)
  have upd: "?b[length pre + length out := x] = pre @ (out @ [x]) @ tl (gap @ url_char c) @ rest" for x
    by (cases gap) (auto simp: list_update_append url_char_def)
  consider (plain) "url_char c = [c]" "isdigit c \<or> islower c \<or> isupper c" | (space) "c = CHR '' ''" |
      (hex) "url_char c = [CHR ''%'', utoa_digits ! (cval c div 16), utoa_digits ! (cval c mod 16)]"
    by (metis url_char_def)
  then show ?thesis
  proof cases
    case u: plain
    then have "c \<notin> {NUL, CHR ''&'', CHR '' '', LF, CR}" "c \<noteq> CHR ''%''" "c \<noteq> CHR ''+''"
      using assms(1) by (auto simp: isdigit_def islower_def isupper_def LF_def CR_def)
    then show ?thesis
      using assms(2) nth0 upd [of c] u by (subst url_loop.simps) (simp add: Let_def)
  next
    case space
    then have "url_char c = ''+''" by (simp add: url_char_def isdigit_def islower_def isupper_def)
    with space show ?thesis
      using assms(2) nth0 upd [of c] by (subst url_loop.simps) (simp add: Let_def NUL_def LF_def CR_def)
  next
    case u: hex
    have "?b ! (length pre + (length out + length gap) + 1) = utoa_digits ! (cval c div 16)"
        "?b ! (length pre + (length out + length gap) + 2) = utoa_digits ! (cval c mod 16)"
      using nth [of 1] nth [of 2] u by simp_all
    then show ?thesis
      using assms(2) nth0 upd [of c] u hex_digits_decode [of c]
      by (subst url_loop.simps) (simp add: Let_def NUL_def LF_def CR_def numeral_3_eq_3)
  qed
qed

lemma url_loop_encoded:
  assumes "cstring v" "length out + length gap + length (url_encode v) \<le> len"
  shows "\<exists>gap'. length gap' + length v = length gap + length (url_encode v) \<and>
    url_loop (pre @ out @ gap @ url_encode v @ rest) (length pre) (length pre + length out) (length out + length gap) len =
    url_loop (pre @ (out @ v) @ gap' @ rest) (length pre) (length pre + length (out @ v)) (length out + length gap + length (url_encode v)) len"
  using assms
proof (induction v arbitrary: out gap)
  case (Cons c v)
  let ?g = "tl (gap @ url_char c)"
  have ne: "length (url_char c) \<ge> 1" by (simp add: url_char_def)
  then have lg: "length out + length gap + length (url_char c) = length (out @ [c]) + length ?g" by simp
  have p: "length (out @ [c]) + length ?g + length (url_encode v) \<le> len"
    using Cons.prems(2) lg by (simp only: url_encode_simps length_append)
  have e: "length (out @ [c]) + length ?g + length (url_encode v) = length out + length gap + length (url_encode (c # v))"
    using lg by (simp only: url_encode_simps length_append)
  have cs: "c \<noteq> NUL" "cstring v" using Cons.prems(1) by simp_all
  obtain gap' where g: "length gap' + length v = length ?g + length (url_encode v)"
      "url_loop (pre @ (out @ [c]) @ ?g @ url_encode v @ rest) (length pre) (length pre + length (out @ [c])) (length (out @ [c]) + length ?g) len =
       url_loop (pre @ ((out @ [c]) @ v) @ gap' @ rest) (length pre) (length pre + length ((out @ [c]) @ v))
         (length (out @ [c]) + length ?g + length (url_encode v)) len"
    using Cons.IH [OF cs(2) p] by blast
  have "url_loop (pre @ out @ gap @ url_char c @ url_encode v @ rest) (length pre) (length pre + length out) (length out + length gap) len =
     url_loop (pre @ ((out @ [c]) @ v) @ gap' @ rest) (length pre) (length pre + length ((out @ [c]) @ v))
         (length out + length gap + length (url_encode (c # v))) len"
    unfolding e [symmetric] using url_loop_char [OF cs(1), of out gap len pre "url_encode v @ rest"] Cons.prems(2) lg g(2) by (simp only: append_assoc) simp
  moreover have "length gap' + length (c # v) = length gap + length (url_encode (c # v))" using g(1) lg by simp
  ultimately show ?case by (intro exI [of _ gap']) simp
next
  case Nil
  then show ?case by (intro exI [of _ gap]) simp
qed

text \<open>Trimming a text without spaces at its ends.\<close>

definition trimmed :: "string \<Rightarrow> bool" where
  "trimmed v \<longleftrightarrow> v = [] \<or> \<not> isspace (hd v) \<and> \<not> isspace (last v)"

lemma str_in_at: "cstring v \<Longrightarrow> str_in (v @ NUL # r) = Some v"
  by (auto simp: str_in_def cstring_def takeWhile_append takeWhile_eq_all_conv)

lemma rmvspace_at_trimmed:
  assumes "cstring v" "trimmed v"
  shows "rmvspace_at (pre @ v @ NUL # r) (length pre) = Some (pre @ v @ NUL # r)"
proof (cases "v = []")
  case True
  then show ?thesis by (simp add: rmvspace_at_def str_in_at [of "[]", simplified])
next
  case False
  then obtain x xs where v: "v = x # xs" "\<not> isspace x" using assms(2) by (cases v) (auto simp: trimmed_def)
  then have d: "dropWhile isspace v = v" by simp
  obtain y ys where w: "v = ys @ [y]" "\<not> isspace y" using assms(2) False by (cases v rule: rev_cases) (auto simp: trimmed_def)
  have "rmvspace_back (rev (take (length pre + length v) (pre @ v @ NUL # r))) = Some (rev (pre @ v))"
    using w by simp
  then show ?thesis
    using False d assms(1) by (simp add: rmvspace_at_def str_in_at buf_write_def)
qed

text \<open>Decoding the encoding of \<open>v\<close>, ended by a delimiter or by the end of the request.\<close>

lemma url_decode_encoded:
  assumes "cstring v" "trimmed v"
    and "d \<in> {NUL, CHR ''&'', CHR '' '', LF, CR} \<and> length (url_encode v) < unat len \<and> n = length (url_encode v) + 1 \<or>
      unat len = length (url_encode v) \<and> n = length (url_encode v)"
  shows "\<exists>mid. length mid + length v = length (url_encode v) \<and>
    url_decode (pre @ url_encode v @ d # post) (length pre) len = Some (pre @ v @ NUL # mid @ post, n)"
proof -
  have le: "length (url_encode v) \<le> unat len" using assms(3) by auto
  obtain gap where g: "length gap + length v = length (url_encode v)"
      "url_loop (pre @ url_encode v @ d # post) (length pre) (length pre) 0 (unat len) =
       url_loop (pre @ v @ gap @ d # post) (length pre) (length pre + length v) (length (url_encode v)) (unat len)"
    using url_loop_encoded [of v "[]" "[]" "unat len" pre "d # post"] assms(1) le by auto
  have "url_loop (pre @ v @ gap @ d # post) (length pre) (length pre + length v) (length (url_encode v)) (unat len) =
      Some (pre @ v @ gap @ d # post, length pre + length v, n)"
  proof -
    have "(pre @ v @ gap @ d # post) ! (length pre + length (url_encode v)) = d"
      unfolding g(1) [symmetric] by (simp add: nth_append)
    moreover have "length (pre @ v @ gap @ d # post) = length pre + length (url_encode v) + 1 + length post"
      unfolding g(1) [symmetric] by simp
    ultimately show ?thesis using assms(3) by (elim disjE) (subst url_loop.simps; simp)+
  qed
  moreover have "buf_write (pre @ v @ gap @ d # post) (length pre + length v) [NUL] = Some (pre @ v @ NUL # tl (gap @ [d]) @ post)"
    by (cases gap) (simp_all add: buf_write_def)
  moreover have "length (tl (gap @ [d])) + length v = length (url_encode v)" using g(1) by simp
  ultimately show ?thesis
    using g(2) rmvspace_at_trimmed [OF assms(1,2), of pre "tl (gap @ [d]) @ post"] by (auto simp: url_decode_def)
qed

text \<open>C38: a value that a browser sends url-encoded in a form is decoded to itself in place: whatever characters it has, with
  no space at its ends, the receive buffer then holds the value and its terminator where the encoding began, nothing before
  or behind the field changes, and the scan goes on behind the delimiter or at the end of the request.\<close>

theorem url_decode_roundtrip:
  assumes "cstring v" "trimmed v"
    and "d \<in> {NUL, CHR ''&'', CHR '' '', LF, CR} \<and> length (url_encode v) < unat len \<and> n = length (url_encode v) + 1 \<or>
      unat len = length (url_encode v) \<and> n = length (url_encode v)"
  shows "\<exists>mid. length mid + length v = length (url_encode v) \<and>
    url_decode (pre @ url_encode v @ d # post) (length pre) len = Some (pre @ v @ NUL # mid @ post, n)"
  by (rule url_decode_encoded [OF assms])

theorem url_decode_witness:
  "\<exists>mid. length mid + length ''a b&%'' = length (url_encode ''a b&%'') \<and>
    url_decode (''ssid='' @ url_encode ''a b&%'' @ CHR ''&'' # ''x'') (length ''ssid='') 11 = Some (''ssid='' @ ''a b&%'' @ NUL # mid @ ''x'', 10)"
proof -
  have "length (url_encode ''a b&%'') = 9" by code_simp
  then show ?thesis
    by (intro url_decode_roundtrip) (simp_all only:, simp_all add: trimmed_def isspace_def NUL_def)
qed

section \<open>The fields of a form are found\<close>

text \<open>A key at the start of a text, with case ignored.\<close>

definition matches :: "string \<Rightarrow> string \<Rightarrow> bool" where
  "matches k t \<longleftrightarrow> length k \<le> length t \<and> map tolower (take (length k) t) = map tolower k"

lemma matches_simps [simp]: "matches [] t" "\<not> matches (c # k) []" "matches (c # k) (x # t) \<longleftrightarrow> tolower x = tolower c \<and> matches k t"
  by (auto simp: matches_def)

lemma matches_append: "matches k (k @ t)"
  by (simp add: matches_def)

lemma matches_NUL: "cstring k \<Longrightarrow> matches k (x @ NUL # y) \<longleftrightarrow> matches k x"
proof (induction x arbitrary: k)
  case Nil
  then show ?case using tolower_NUL [of NUL] by (cases k) (auto dest: sym)
next
  case (Cons a x)
  then show ?case by (cases k) auto
qed

lemma cmp_key_matches: "NUL \<in> set (drop rx buf) \<Longrightarrow> cstring k \<Longrightarrow> cmp_key buf rx k = Some (matches k (drop rx buf))"
proof (induction k arbitrary: rx)
  case (Cons c k)
  have l: "rx < length buf" using Cons.prems(1) by (cases "rx < length buf") auto
  then have d: "drop rx buf = buf ! rx # drop (Suc rx) buf" by (simp add: Cons_nth_drop_Suc)
  have "NUL \<in> set (drop (Suc rx) buf)" if "tolower (buf ! rx) = tolower c"
  proof -
    have "buf ! rx \<noteq> NUL" using that Cons.prems(2) tolower_NUL [of NUL] by auto
    then show ?thesis using Cons.prems(1) d by auto
  qed
  with Cons l d show ?case by auto
qed simp

lemma find_key_find:
  "NUL \<in> set (drop rx buf) \<Longrightarrow> \<forall>k \<in> set keys. cstring (fst k) \<Longrightarrow>
     find_key keys buf rx = Some (find (\<lambda>k. matches (fst k) (drop rx buf)) keys)"
  by (induction keys buf rx rule: find_key.induct) (auto simp: cmp_key_matches)

text \<open>Text without a field is skipped.\<close>

lemma form_skip:
  assumes "\<forall>k \<in> set keys. cstring (fst k)" "\<forall>i < length hdr. \<forall>k \<in> set keys. \<not> matches (fst k) (drop i hdr @ t)"
    "unat len \<ge> length hdr" "NUL \<in> set t"
  shows "form_loop keys field st (pre @ hdr @ t) (length pre) len =
    form_loop keys field st (pre @ hdr @ t) (length pre + length hdr) (len - of_nat (length hdr))"
  using assms
proof (induction hdr arbitrary: pre len)
  case (Cons c h)
  have len: "len \<noteq> 0" using Cons.prems(3) by auto
  then have u: "unat (len - 1) = unat len - 1" by (simp add: unat_minus_one)
  have "find (\<lambda>k. matches (fst k) (drop (length pre) (pre @ (c # h) @ t))) keys = None"
    using spec [OF Cons.prems(2), of 0] by (auto simp: find_None_iff)
  then have "find_key keys (pre @ (c # h) @ t) (length pre) = Some None"
    using find_key_find [of "length pre" "pre @ (c # h) @ t" keys] Cons.prems(1,4) by simp
  then have "form_loop keys field st (pre @ (c # h) @ t) (length pre) len =
      form_loop keys field st ((pre @ [c]) @ h @ t) (length (pre @ [c])) (len - 1)"
    using len by (subst form_loop.simps) simp
  also have "\<dots> = form_loop keys field st ((pre @ [c]) @ h @ t) (length (pre @ [c]) + length h) (len - 1 - of_nat (length h))"
  proof (rule Cons.IH)
    show "\<forall>i < length h. \<forall>k \<in> set keys. \<not> matches (fst k) (drop i h @ t)"
      using Cons.prems(2) by (metis Suc_less_eq drop_Suc_Cons length_Cons)
  qed (use Cons.prems u in auto)
  finally show ?case by (simp add: algebra_simps)
qed simp

lemma unat_minus:
  assumes "n \<le> unat (len :: u32)"
  shows "unat (len - of_nat n) = unat len - n"
proof -
  have "unat len < 2 ^ 32" using unsigned_less [of len] by simp
  then have "unat (of_nat n :: u32) = n" using assms by (simp add: unat_of_nat)
  then show ?thesis using assms by (simp add: unat_sub word_le_nat_alt)
qed

text \<open>One field, up to and with its delimiter.\<close>

lemma form_field:
  assumes "\<forall>k \<in> set keys. cstring (fst k)" "find (\<lambda>x. matches (fst x) (k @ url_encode v @ d # post)) keys = Some (k, True)"
    "NUL \<in> set (d # post)" "cstring v" "trimmed v" "len \<noteq> 0" "length k \<le> unat len"
    and "d \<in> {NUL, CHR ''&'', CHR '' '', LF, CR} \<and> length (url_encode v) < unat len - length k \<and> n = length (url_encode v) + 1 \<or>
      unat len - length k = length (url_encode v) \<and> n = length (url_encode v)"
  shows "\<exists>mid. length mid + length v = length (url_encode v) \<and>
    form_loop keys field st (pre @ k @ url_encode v @ d # post) (length pre) len =
      do { st1 \<leftarrow> field k (length pre + length k) (pre @ k @ v @ NUL # mid @ post) st;
           form_loop keys field st1 (pre @ k @ v @ NUL # mid @ post) (length pre + length k + n) (len - of_nat (length k) - of_nat n) }"
proof -
  let ?b = "pre @ k @ url_encode v @ d # post"
  have "find_key keys ?b (length pre) = Some (Some (k, True))"
    using find_key_find [of "length pre" ?b keys] assms(1-3) by auto
  moreover note u = unat_minus [OF assms(7)]
  obtain mid where m: "length mid + length v = length (url_encode v)"
      "url_decode ((pre @ k) @ url_encode v @ d # post) (length (pre @ k)) (len - of_nat (length k)) = Some ((pre @ k) @ v @ NUL # mid @ post, n)"
    using url_decode_encoded [OF assms(4,5), of d "len - of_nat (length k)" n "pre @ k" post] assms(8) unfolding u by blast
  ultimately show ?thesis using assms(6) by (intro exI [of _ mid]) (subst form_loop.simps, simp)
qed

text \<open>The text of a form: fields with encoded values, separated by \<^verbatim>\<open>&\<close>.\<close>

fun form_text :: "(string \<times> string) list \<Rightarrow> string" where
  "form_text [] = []"
| "form_text [(k, v)] = k @ url_encode v"
| "form_text ((k, v) # f # fs) = k @ url_encode v @ CHR ''&'' # form_text (f # fs)"

text \<open>A key that no other key of the list hides.\<close>

definition plain_key :: "(string \<times> bool) list \<Rightarrow> string \<Rightarrow> bool" where
  "plain_key keys k \<longleftrightarrow> k \<noteq> [] \<and> cstring k \<and> (\<forall>t. find (\<lambda>x. matches (fst x) (k @ t)) keys = Some (k, True))"

definition good_form :: "(string \<times> bool) list \<Rightarrow> (string \<times> string) list \<Rightarrow> bool" where
  "good_form keys fs \<longleftrightarrow> distinct (map fst fs) \<and> (\<forall>(k, v) \<in> set fs. plain_key keys k \<and> cstring v \<and> trimmed v)"

lemma ptr_str_at: "cstring v \<Longrightarrow> length p = n \<Longrightarrow> ptr_str (p @ v @ NUL # r) (Some n) = Some v"
  by (auto simp: ptr_str_def str_in_at)

lemma store_ptr_some: "store_ptr k p b m = Some (m(k := Some p))"
  by (simp add: store_ptr_def)

text \<open>Every field of a form is found, and its value is read back through the stored pointer.\<close>

lemma form_fields:
  assumes "\<forall>k \<in> set keys. cstring (fst k)" "good_form keys fs" "unat len = length (form_text fs)"
  shows "\<exists>m r. form_loop keys store_ptr m0 (pre @ form_text fs @ NUL # post) (length pre) len = Some (m, pre @ r) \<and>
    (\<forall>(k, v) \<in> set fs. ptr_str (pre @ r) (m k) = Some v) \<and> (\<forall>k. k \<notin> fst ` set fs \<longrightarrow> m k = m0 k)"
  using assms(2,3)
proof (induction fs arbitrary: m0 pre len rule: form_text.induct)
  case 1
  then have "len = 0" by (simp add: unat_eq_0)
  then show ?case by (intro exI [of _ m0] exI [of _ "NUL # post"]) (subst form_loop.simps, simp)
next
  case (2 k v)
  have g: "plain_key keys k" "cstring v" "trimmed v" using 2(1) by (auto simp: good_form_def)
  have ul: "unat len = length k + length (url_encode v)" using 2(2) by simp
  have ne: "len \<noteq> 0" using ul g(1) by (auto simp: plain_key_def)
  have z: "len - of_nat (length k) - of_nat (length (url_encode v)) = 0"
    using unat_minus [of "length k + length (url_encode v)" len] ul by (simp add: unat_eq_0 algebra_simps)
  obtain mid where m: "form_loop keys store_ptr m0 (pre @ k @ url_encode v @ NUL # post) (length pre) len =
      do { st1 \<leftarrow> store_ptr k (length pre + length k) (pre @ k @ v @ NUL # mid @ post) m0;
           form_loop keys store_ptr st1 (pre @ k @ v @ NUL # mid @ post) (length pre + length k + length (url_encode v))
             (len - of_nat (length k) - of_nat (length (url_encode v))) }"
    using form_field [OF assms(1), of k v NUL post len "length (url_encode v)" store_ptr m0 pre] g ne ul
    by (auto simp: plain_key_def)
  have "ptr_str (pre @ k @ v @ NUL # mid @ post) (Some (length pre + length k)) = Some v"
    using ptr_str_at [OF g(2), of "pre @ k" _ "mid @ post"] by simp
  moreover from m z have "form_loop keys store_ptr m0 (pre @ k @ url_encode v @ NUL # post) (length pre) len =
      Some (m0(k := Some (length pre + length k)), pre @ k @ v @ NUL # mid @ post)"
    unfolding store_ptr_some by (simp add: form_loop.simps [of _ _ _ _ _ 0])
  ultimately show ?case
    by (intro exI [of _ "m0(k := Some (length pre + length k))"] exI [of _ "k @ v @ NUL # mid @ post"]) (simp add: fun_upd_def)
next
  case (3 k v f fs)
  let ?t = "form_text (f # fs)" and ?n = "length (url_encode v) + 1"
  have g: "plain_key keys k" "cstring v" "trimmed v" "good_form keys (f # fs)" "k \<notin> fst ` set (f # fs)"
    using 3(2) by (auto simp: good_form_def)
  have ul: "unat len = length k + length (url_encode v) + 1 + length ?t" using 3(3) by simp
  have ne: "len \<noteq> 0" using ul by auto
  have ul': "unat (len - of_nat (length k) - of_nat ?n) = length ?t"
    using unat_minus [of "length k + ?n" len] ul by (simp add: algebra_simps)
  obtain mid where m: "form_loop keys store_ptr m0 (pre @ k @ url_encode v @ CHR ''&'' # ?t @ NUL # post) (length pre) len =
      do { st1 \<leftarrow> store_ptr k (length pre + length k) (pre @ k @ v @ NUL # mid @ ?t @ NUL # post) m0;
           form_loop keys store_ptr st1 (pre @ k @ v @ NUL # mid @ ?t @ NUL # post) (length pre + length k + ?n)
             (len - of_nat (length k) - of_nat ?n) }" "length mid + length v = length (url_encode v)"
    using form_field [OF assms(1), of k v "CHR ''&''" "?t @ NUL # post" len ?n store_ptr m0 pre] g ne ul
    by (auto simp: plain_key_def)
  let ?p = "pre @ k @ v @ NUL # mid"
  have lp: "length ?p = length pre + length k + ?n" using m(2) by simp
  obtain m' r where ih: "form_loop keys store_ptr (m0(k := Some (length pre + length k))) (?p @ ?t @ NUL # post) (length ?p)
        (len - of_nat (length k) - of_nat ?n) = Some (m', ?p @ r)"
      "\<forall>(k, v) \<in> set (f # fs). ptr_str (?p @ r) (m' k) = Some v"
      "\<forall>x. x \<notin> fst ` set (f # fs) \<longrightarrow> m' x = (m0(k := Some (length pre + length k))) x"
    using 3(1) [OF g(4) ul'] by blast
  have "ptr_str (?p @ r) (m' k) = Some v"
    using ih(3) g(5) ptr_str_at [OF g(2), of "pre @ k" _ "mid @ r"] by simp
  moreover from m(1) ih(1) have "form_loop keys store_ptr m0 (pre @ k @ url_encode v @ CHR ''&'' # ?t @ NUL # post) (length pre) len =
      Some (m', ?p @ r)"
    unfolding lp store_ptr_some by simp
  ultimately show ?case
    using ih(2,3) g(5) by (intro exI [of _ m'] exI [of _ "k @ v @ NUL # mid @ r"]) auto
qed

text \<open>The same behind a request line and headers in which no key occurs.\<close>

definition no_field :: "(string \<times> bool) list \<Rightarrow> string \<Rightarrow> string \<Rightarrow> bool" where
  "no_field keys hdr t \<longleftrightarrow> (\<forall>i < length hdr. \<forall>k \<in> set keys. \<not> matches (fst k) (drop i hdr @ t))"

lemma form_read:
  assumes "\<forall>k \<in> set keys. cstring (fst k)" "good_form keys fs" "no_field keys hdr (form_text fs)"
    "unat len = length hdr + length (form_text fs)"
  shows "\<exists>m r. form_loop keys store_ptr m0 (pre @ hdr @ form_text fs @ NUL # post) (length pre) len = Some (m, pre @ r) \<and>
    (\<forall>(k, v) \<in> set fs. ptr_str (pre @ r) (m k) = Some v)"
proof -
  have "\<forall>i < length hdr. \<forall>k \<in> set keys. \<not> matches (fst k) (drop i hdr @ form_text fs @ NUL # post)"
    using assms(1,3) matches_NUL [of _ "drop _ hdr @ form_text fs" post] by (simp add: no_field_def)
  then have "form_loop keys store_ptr m0 (pre @ hdr @ form_text fs @ NUL # post) (length pre) len =
      form_loop keys store_ptr m0 ((pre @ hdr) @ form_text fs @ NUL # post) (length (pre @ hdr)) (len - of_nat (length hdr))"
    using form_skip [OF assms(1), of hdr "form_text fs @ NUL # post" len store_ptr m0 pre] assms(4) by simp
  moreover have "unat (len - of_nat (length hdr)) = length (form_text fs)" using unat_minus [of "length hdr" len] assms(4) by simp
  from form_fields [OF assms(1,2) this, of m0 "pre @ hdr" post] obtain m r where
    "form_loop keys store_ptr m0 ((pre @ hdr) @ form_text fs @ NUL # post) (length (pre @ hdr)) (len - of_nat (length hdr)) = Some (m, (pre @ hdr) @ r)"
    "\<forall>(k, v) \<in> set fs. ptr_str ((pre @ hdr) @ r) (m k) = Some v" by blast
  ultimately show ?thesis by (intro exI [of _ m] exI [of _ "hdr @ r"]) simp
qed

text \<open>A test for plain keys that can be computed.\<close>

definition clash :: "string \<Rightarrow> string \<Rightarrow> bool" where
  "clash k' k \<longleftrightarrow> map tolower (take (length k) k') \<noteq> map tolower (take (length k') k)"

lemma clash_matches: "matches k' (k @ t) \<Longrightarrow> \<not> clash k' k"
proof (induction k' arbitrary: k)
  case (Cons c k')
  then show ?case by (cases k) (auto simp: clash_def)
qed (simp add: clash_def)

definition plain_keys :: "(string \<times> bool) list \<Rightarrow> string list \<Rightarrow> bool" where
  "plain_keys keys ks \<longleftrightarrow> list_all (\<lambda>k. k \<noteq> [] \<and> cstring k \<and> find (\<lambda>x. \<not> clash (fst x) k) keys = Some (k, True)) ks"

lemma plain_keysD:
  assumes "plain_keys keys ks" "k \<in> set ks"
  shows "plain_key keys k"
proof -
  have k: "k \<noteq> []" "cstring k" "find (\<lambda>x. \<not> clash (fst x) k) keys = Some (k, True)"
    using assms by (auto simp: plain_keys_def list_all_iff)
  have "find (\<lambda>x. matches (fst x) (k @ t)) keys = Some (k, True)" for t
    using k(3) matches_append [of k t] clash_matches [of _ k t] unfolding find_Some_iff by (metis fst_conv)
  with k show ?thesis by (simp add: plain_key_def)
qed

lemma uart_keys_plain: "plain_keys uart_keys [''baudrate='', ''framelen='', ''frametime='']" "\<forall>k \<in> set uart_keys. cstring (fst k)"
  by code_simp+

lemma net_keys_plain:
  "plain_keys net_keys [''workmode='', ''socktype='', ''conntype='', ''remoteip='', ''port='']" "\<forall>k \<in> set net_keys. cstring (fst k)"
  by code_simp+

lemma atoi32_dec: "n < 2 ^ 31 \<Longrightarrow> atoi32 (dec_of_nat n) = int n"
  by (simp add: atoi32_def sint_small)

section \<open>What the forms store\<close>

text \<open>What a page depends on.\<close>

lemma filled_cong:
  assumes "UserParam s' = UserParam s" "PermanentAddress s' = PermanentAddress s" "wl_workmode s' = wl_workmode s"
  shows "filled e s' f t = filled e s f t" "served e s' f t = served e s f t" "fillable e s' f = fillable e s f"
  using assms by (simp_all add: filled_def served_def fillable_def status_items_def)

lemma page_ready_cong:
  assumes "UserParam s' = UserParam s" "PermanentAddress s' = PermanentAddress s" "wl_workmode s' = wl_workmode s"
    "flash s' = flash s" "(html_buf s' = None) = (html_buf s = None)" "length (SendData s') = length (SendData s)"
  shows "page_ready e s' f t = page_ready e s f t"
  unfolding page_ready_def filled_cong [OF assms(1-3)] page_text_cong [OF assms(4)] using assms(5,6) by simp

lemma page_ready_Rec [simp]: "page_ready e (s\<lparr>Rec_Data := b\<rparr>) f t = page_ready e s f t"
  by (rule page_ready_cong) simp_all

lemma Rec_User: "s\<lparr>Rec_Data := b, UserParam := u\<rparr> = s\<lparr>UserParam := u, Rec_Data := b\<rparr>"
  by simp

lemma page_names: "http_fid ''/login.html'' = Some (1, 0)" "http_fid ''/wifinet.html'' = Some (4, 0)" "http_fid ''/wifibase.html'' = Some (3, 0)"
  by code_simp+

text \<open>The reply to a form: the page the handler sends.\<close>

definition page_sent :: "'f env \<Rightarrow> ('f, 'a) web_scheme \<Rightarrow> nat \<Rightarrow> u32 \<Rightarrow> string \<Rightarrow> int \<times> string" where
  "page_sent e s idx file t = (h_sock_fd (http_table s ! idx),
     with_length HTTP_HTML_HEADER (of_nat (served e s file t)) @ take (served e s file t) (filled e s file t))"

lemma page_sent_Rec [simp]: "page_sent e (s\<lparr>Rec_Data := b\<rparr>) idx f t = page_sent e s idx f t"
  by (simp add: page_sent_def served_def filled_def status_items_def)

lemma page_reply:
  assumes "page_ready e s f t" "http_fid name = Some (f, param)" "idx < 5" "length (http_table s) = 5"
  shows "\<exists>s'. http_sendfile e idx (Some name) 0 s = Some (0, s') \<and> web_frame idx s s' \<and> http_sent s' = http_sent s @ [page_sent e s idx f t]"
proof -
  obtain s' where "http_sendfile e idx (Some name) 0 s = Some (0, s')" "http_sent s' = http_sent s @ [page_sent e s idx f t]"
    using page_served_lemma [OF assms] by (auto simp: page_sent_def)
  with http_sendfile_frame(1) show ?thesis by blast
qed

definition uart_user :: "nat \<Rightarrow> nat \<Rightarrow> nat \<Rightarrow> USER_CFG_PARAM \<Rightarrow> USER_CFG_PARAM" where
  "uart_user b f g u = u\<lparr>Baudrate := of_nat b, frameLength := of_nat f, frameGap := of_nat g\<rparr>"

lemma uart_form:
  assumes "Rec_Data s = pre @ hdr @ form_text fs @ NUL # post" "good_form uart_keys fs" "no_field uart_keys hdr (form_text fs)"
    "unat len = length hdr + length (form_text fs)"
    and "(''baudrate='', dec_of_nat b) \<in> set fs" "(''framelen='', dec_of_nat f) \<in> set fs" "(''frametime='', dec_of_nat g) \<in> set fs"
    and "b < 2 ^ 31" "f < 2 ^ 31" "g < 2 ^ 31" "idx < 5" "length (http_table s) = 5"
    and "page_ready e (s\<lparr>UserParam := uart_user b f g (UserParam s)\<rparr>) 4 t"
  defines "ok \<equiv> 300 \<le> b \<and> b \<le> 1250000 \<and> f \<le> 1400 \<and> 30 \<le> g"
  defines "s1 \<equiv> s\<lparr>UserParam := uart_user b f g (UserParam s)\<rparr>"
  shows "\<exists>s' r. http_setup_uart e idx (length pre) len s = Some s' \<and>
    (ok \<longrightarrow> web_frame idx (s1\<lparr>Rec_Data := pre @ r\<rparr>) s' \<and> http_sent s' = http_sent s @ [page_sent e s1 idx 4 t]) \<and>
    (\<not> ok \<longrightarrow> s' = s\<lparr>Rec_Data := pre @ r\<rparr>)"
proof -
  obtain m r where m: "form_loop uart_keys store_ptr (\<lambda>_. None) (Rec_Data s) (length pre) len = Some (m, pre @ r)"
      "\<forall>(k, v) \<in> set fs. ptr_str (pre @ r) (m k) = Some v"
    using form_read [OF uart_keys_plain(2) assms(2-4), of "\<lambda>_. None" pre post] assms(1) by auto
  have v: "ptr_str (pre @ r) (m ''baudrate='') = Some (dec_of_nat b)" "ptr_str (pre @ r) (m ''framelen='') = Some (dec_of_nat f)"
      "ptr_str (pre @ r) (m ''frametime='') = Some (dec_of_nat g)"
    using m(2) assms(5-7) by fastforce+
  let ?s2 = "s1\<lparr>Rec_Data := pre @ r\<rparr>"
  have "http_setup_uart e idx (length pre) len s =
      (if ok then map_option snd (http_sendfile e idx (Some ''/wifinet.html'') 0 ?s2) else Some (s\<lparr>Rec_Data := pre @ r\<rparr>))"
    using m(1) v assms(8-10) by (auto simp: http_setup_uart_def atoi_at_def atoi32_dec ok_def uart_user_def s1_def Rec_User Let_def)
  moreover obtain s' where "http_sendfile e idx (Some ''/wifinet.html'') 0 ?s2 = Some (0, s')" "web_frame idx ?s2 s'"
      "http_sent s' = http_sent s @ [page_sent e s1 idx 4 t]"
    using page_reply [OF _ page_names(2), of e ?s2 t idx] assms(11-13) by (auto simp: s1_def)
  ultimately show ?thesis by (cases ok) auto
qed

definition net_user :: "nat \<Rightarrow> nat \<Rightarrow> u32 \<Rightarrow> nat \<Rightarrow> USER_CFG_PARAM \<Rightarrow> USER_CFG_PARAM" where
  "net_user p c a n u = u\<lparr>socketProtocol := of_nat p, socketType := of_nat c, remoteCommIp := a, socketPort := of_nat n\<rparr>"

text \<open>C29: the network form: the fields \<^verbatim>\<open>workmode\<close>, \<^verbatim>\<open>socktype\<close>, \<^verbatim>\<open>conntype\<close>, \<^verbatim>\<open>remoteip\<close> and \<^verbatim>\<open>port\<close>, in any order, behind any
  header that contains none of the keys, are stored in the user parameters when they are in range, and the page with the new
  values is sent; when one is out of range no parameter changes and nothing is sent, but the work mode has already been taken
  over.\<close>

theorem net_form_stored:
  assumes "Rec_Data s = pre @ hdr @ form_text fs @ NUL # post" "good_form net_keys fs" "no_field net_keys hdr (form_text fs)"
    "unat len = length hdr + length (form_text fs)"
    and "(''workmode='', dec_of_nat w) \<in> set fs" "(''socktype='', dec_of_nat p) \<in> set fs" "(''conntype='', dec_of_nat c) \<in> set fs"
      "(''remoteip='', ip) \<in> set fs" "(''port='', dec_of_nat n) \<in> set fs" "ipaddr_aton ip = Some a"
    and "w < 2 ^ 31" "p < 2 ^ 31" "c < 2 ^ 31" "n < 2 ^ 31" "idx < 5" "length (http_table s) = 5"
    and "page_ready e (s\<lparr>UserParam := net_user p c a n (UserParam s), wl_workmode := int w\<rparr>) 4 t"
  defines "ok \<equiv> p \<le> 1 \<and> c \<le> 1 \<and> n \<le> 65535 \<and> w \<le> 1"
  shows "\<exists>s'. http_setup_net e junk idx (length pre) len s = Some s' \<and> wl_workmode s' = int w \<and> flash s' = flash s \<and>
    UserParam s' = (if ok then net_user p c a n (UserParam s) else UserParam s) \<and>
    http_sent s' = http_sent s @
      (if ok then [page_sent e (s\<lparr>UserParam := net_user p c a n (UserParam s), wl_workmode := int w\<rparr>) idx 4 t] else [])"
proof -
  obtain m r where m: "form_loop net_keys store_ptr (\<lambda>_. None) (Rec_Data s) (length pre) len = Some (m, pre @ r)"
      "\<forall>(k, v) \<in> set fs. ptr_str (pre @ r) (m k) = Some v"
    using form_read [OF net_keys_plain(2) assms(2-4), of "\<lambda>_. None" pre post] assms(1) by auto
  have v: "ptr_str (pre @ r) (m ''workmode='') = Some (dec_of_nat w)" "ptr_str (pre @ r) (m ''socktype='') = Some (dec_of_nat p)"
      "ptr_str (pre @ r) (m ''conntype='') = Some (dec_of_nat c)" "ptr_str (pre @ r) (m ''remoteip='') = Some ip"
      "ptr_str (pre @ r) (m ''port='') = Some (dec_of_nat n)"
    using m(2) assms(5-9) by fastforce+
  let ?s1 = "s\<lparr>UserParam := net_user p c a n (UserParam s), wl_workmode := int w\<rparr>"
  let ?s2 = "?s1\<lparr>Rec_Data := pre @ r\<rparr>"
  have comm: "s\<lparr>Rec_Data := pre @ r, wl_workmode := int w, UserParam := u\<rparr> = s\<lparr>UserParam := u, wl_workmode := int w, Rec_Data := pre @ r\<rparr>" for u
    by simp
  have "http_setup_net e junk idx (length pre) len s =
      (if ok then map_option snd (http_sendfile e idx (Some ''/wifinet.html'') 0 ?s2) else Some (s\<lparr>Rec_Data := pre @ r, wl_workmode := int w\<rparr>))"
    using m(1) v assms(10-14) by (auto simp: http_setup_net_def atoi_at_def aton_at_def atoi32_dec ok_def net_user_def comm Let_def)
  moreover obtain s' where "http_sendfile e idx (Some ''/wifinet.html'') 0 ?s2 = Some (0, s')" "web_frame idx ?s2 s'"
      "http_sent s' = http_sent s @ [page_sent e ?s1 idx 4 t]"
    using page_reply [OF _ page_names(2), of e ?s2 t idx] assms(15-17) by auto
  ultimately show ?thesis by (cases ok) (auto dest: web_frame_simps)
qed

section \<open>A form on a concrete request\<close>

abbreviation net_page :: string where "net_page \<equiv> ''<html></html>''"

definition net_fields :: "(string \<times> string) list" where
  "net_fields = [(''workmode='', dec_of_nat 1), (''socktype='', dec_of_nat 1), (''conntype='', dec_of_nat 0),
     (''remoteip='', ''10.0.0.7''), (''port='', dec_of_nat 80)]"

lemma cstring_trimmed_dec [simp]: "trimmed (dec_of_nat n)"
  using dec_of_nat_digits [of n] isdigit_not_space by (auto simp: trimmed_def)

lemma good_form_simps [simp]:
  "good_form keys []"
  "good_form keys ((k, v) # fs) \<longleftrightarrow> k \<notin> fst ` set fs \<and> plain_key keys k \<and> cstring v \<and> trimmed v \<and> good_form keys fs"
  by (auto simp: good_form_def)

lemmas uart_key = uart_keys_plain(1) [THEN plain_keysD, simplified] and net_key = net_keys_plain(1) [THEN plain_keysD, simplified]

lemma good_form_net: "good_form net_keys net_fields"
proof -
  have "trimmed ''10.0.0.7''" "cstring ''10.0.0.7''" by code_simp+
  then show ?thesis by (simp add: net_fields_def net_key del: cstring_simps)
qed

text \<open>A page without a quote has nothing to fill in.\<close>

lemma fill_plain:
  "\<forall>(pat, tx, sub) \<in> set items. cstring pat \<and> CHR 0x22 \<in> set pat \<Longrightarrow> CHR 0x22 \<notin> set s \<Longrightarrow> fill items s = s"
proof (induction items s rule: fill.induct)
  case (2 pat tx sub r s)
  have p: "cstring pat" "CHR 0x22 \<in> set pat" "pat \<noteq> []" using 2(3) by auto
  have "nustrstr s pat = None"
  proof (cases "nustrstr s pat")
    case (Some t)
    note f = nustrstr_found [OF Some p(1,3)]
    have "set pat \<subseteq> set t" by (subst f(2)) auto
    moreover have "set t \<subseteq> set s" by (subst f(1)) auto
    ultimately show ?thesis using p(2) 2(4) by blast
  qed
  with 2 show ?case by simp
qed simp

lemma fill_wifinet: "CHR 0x22 \<notin> set s \<Longrightarrow> fill (wifinet_items w u) s = s"
  by (rule fill_plain) (simp_all add: wifinet_items_def value_item_def mark_item_def name_value_def option_value_def radio_pat_def NUL_def)

lemma net_page_ready:
  assumes "page_text env0 4 s = Some net_page" "wl_workmode s \<in> {0, 1}" "uint (socketProtocol (UserParam s)) \<in> {0, 1}"
    "uint (socketType (UserParam s)) \<in> {0, 1}" "html_buf s \<noteq> None" "length (SendData s) = 4096"
  shows "page_ready env0 s 4 net_page"
  using assms header_length [of 13]
  by (simp add: two_digits page_ready_def filled_def served_def fill_wifinet fillable_def SEND_BUFFER_SIZE_def)

definition net_request :: string where
  "net_request = ''/setupnet HTTP/1.1'' @ [CR, LF, CR, LF]"

text \<open>A header without \<^verbatim>\<open>=\<close> that ends with a line feed contains no key.\<close>

lemma tolower_fixed: "tolower x = tolower c \<Longrightarrow> \<not> islower c \<Longrightarrow> \<not> isupper c \<Longrightarrow> x = c"
proof -
  assume t: "tolower x = tolower c" and c: "\<not> islower c" "\<not> isupper c"
  have "\<not> isupper x"
  proof
    assume x: "isupper x"
    then have "cval (tolower x) = cval x + 32" by (simp add: tolower_def isupper_def cval_char_of)
    then have "islower (tolower x)" using x by (simp add: islower_def isupper_def)
    with t c show False by (simp add: tolower_def)
  qed
  with t c show ?thesis by (simp add: tolower_def)
qed

lemma matches_nth: "matches k x \<Longrightarrow> j < length k \<Longrightarrow> tolower (x ! j) = tolower (k ! j)"
  unfolding matches_def by (elim conjE, drule arg_cong [of _ _ "\<lambda>l. l ! j"]) simp

definition header_keys :: "(string \<times> bool) list \<Rightarrow> bool" where
  "header_keys keys \<longleftrightarrow> (\<forall>k \<in> set keys. fst k \<noteq> [] \<and> last (fst k) = CHR ''='' \<and> LF \<notin> set (fst k))"

lemma no_field_header:
  assumes "header_keys keys" "CHR ''='' \<notin> set hdr" "last hdr = LF"
  shows "no_field keys hdr t"
  unfolding no_field_def
proof (intro allI impI ballI notI)
  fix i k assume i: "i < length hdr" and "k \<in> set keys" and m: "matches (fst k) (drop i hdr @ t)"
  let ?k = "fst k" and ?d = "drop i hdr"
  have k: "?k \<noteq> []" "last ?k = CHR ''=''" "LF \<notin> set ?k" using assms(1) \<open>k \<in> set keys\<close> by (auto simp: header_keys_def)
  note nth = matches_nth [OF m]
  show False
  proof (cases "length ?k \<le> length ?d")
    case True
    let ?j = "length ?k - 1"
    have j: "?j < length ?k" using k(1) by simp
    have "(?d @ t) ! ?j = ?d ! ?j" using True j by (intro nth_append_left) simp
    then have "tolower (?d ! ?j) = tolower (CHR ''='')" using nth [OF j] k(1,2) by (simp add: last_conv_nth)
    then have "?d ! ?j = CHR ''=''" by (rule tolower_fixed) (simp_all add: islower_def isupper_def)
    moreover have "?d ! ?j \<in> set ?d" using True j by (intro nth_mem) simp
    ultimately show False using assms(2) set_drop_subset [of i hdr] by auto
  next
    case False
    let ?j = "length ?d - 1"
    have j: "?j < length ?k" using False by simp
    have "(?d @ t) ! ?j = ?d ! ?j" using i by (intro nth_append_left) simp
    also have "\<dots> = last ?d" using i by (subst last_conv_nth) simp_all
    also have "\<dots> = LF" using assms(3) i by (simp add: last_drop)
    finally have "tolower (?k ! ?j) = tolower LF" using nth [OF j] by simp
    then have "?k ! ?j = LF" by (rule tolower_fixed) (simp_all add: LF_def islower_def isupper_def)
    then show False using k(3) nth_mem [OF j] by simp
  qed
qed

lemma form_header_keys: "header_keys uart_keys" "header_keys net_keys" "header_keys wifibase_keys"
  by code_simp+

theorem net_form_witness:
  "\<exists>s'. http_setup_net env0 0 0 (length ''POST '') (of_nat (length net_request + length (form_text net_fields)))
      ((web0 (burn 0x6D000 net_page))\<lparr>Rec_Data := ''POST '' @ net_request @ form_text net_fields @ [NUL]\<rparr>) = Some s' \<and>
    wl_workmode s' = 1 \<and> socketPort (UserParam s') = 80 \<and> remoteCommIp (UserParam s') = of_le32 [10, 0, 0, 7]"
proof -
  let ?s = "(web0 (burn 0x6D000 net_page))\<lparr>Rec_Data := ''POST '' @ net_request @ form_text net_fields @ [NUL]\<rparr>"
  let ?n = "length net_request + length (form_text net_fields)"
  have nf: "no_field net_keys net_request (form_text net_fields)"
    by (rule no_field_header [OF form_header_keys(2)]) (simp_all add: net_request_def CR_def LF_def)
  have ip: "ipaddr_aton ''10.0.0.7'' = Some (of_le32 [10, 0, 0, 7])" by code_simp
  have "?n = 86" by code_simp
  then have len: "unat (of_nat ?n :: u32) = ?n" by (simp only:) simp
  have "page_text env0 4 (web0 (burn 0x6D000 net_page)) = Some net_page" by (rule burn_page) (simp_all add: page_addr_def NUL_def)
  then have pt: "page_text env0 4 s = Some net_page" if "flash s = burn 0x6D000 net_page" for s :: "nor web"
    using page_text_cong [of s "web0 (burn 0x6D000 net_page)" env0 4] that by simp
  have pr: "page_ready env0 (?s\<lparr>UserParam := net_user 1 0 (of_le32 [10, 0, 0, 7]) 80 (UserParam ?s), wl_workmode := int 1\<rparr>) 4 net_page"
    by (rule net_page_ready) (simp_all add: pt net_user_def)
  have "\<exists>s'. http_setup_net env0 0 0 (length ''POST '') (of_nat ?n) ?s = Some s' \<and> wl_workmode s' = int 1 \<and> flash s' = flash ?s \<and>
    UserParam s' = (if 1 \<le> (1::nat) \<and> 0 \<le> (1::nat) \<and> 80 \<le> (65535::nat) \<and> 1 \<le> (1::nat)
       then net_user 1 0 (of_le32 [10, 0, 0, 7]) 80 (UserParam ?s) else UserParam ?s) \<and>
    http_sent s' = http_sent ?s @ (if 1 \<le> (1::nat) \<and> 0 \<le> (1::nat) \<and> 80 \<le> (65535::nat) \<and> 1 \<le> (1::nat)
      then [page_sent env0 (?s\<lparr>UserParam := net_user 1 0 (of_le32 [10, 0, 0, 7]) 80 (UserParam ?s), wl_workmode := int 1\<rparr>) 0 4 net_page] else [])"
    by (rule net_form_stored [where post = "[]" and hdr = net_request, OF _ good_form_net nf len _ _ _ _ _ ip _ _ _ _ _ _ pr])
      (simp_all add: net_fields_def)
  then show ?thesis by (elim exE conjE) (intro exI conjI, assumption, simp_all add: net_user_def)
qed

end
