(* ===== verification/Http_Engine.thy ===== *)
theory Http_Engine
  imports Http_Form
begin

text \<open>
  Requests to the web server: the dispatch of a request (\<^verbatim>\<open>http_engine\<close> of \<^verbatim>\<open>App/Webserver/http_engine.c\<close>) and the firmware
  update over the web (\<^verbatim>\<open>http_update\<close> of \<^verbatim>\<open>http_parser.c\<close>), with what they leave alone, and that settings made on the
  web pages survive the reboot requested there.
\<close>

section \<open>Firmware update\<close>

definition NVM_FW_BAK_OFFSET :: nat where "NVM_FW_BAK_OFFSET = 0x34000"

text \<open>The image of \<^verbatim>\<open>boot_param_t\<close> at \<^verbatim>\<open>0x33000\<close>: address, flag and status are set, the counters kept.\<close>

definition boot_param :: "'f env \<Rightarrow> ('f, 'a) snet_scheme \<Rightarrow> bytes" where
  "boot_param e s = le32 (of_nat NVM_FW_BAK_OFFSET) @ le16 2 @ le16 1 @ drop 8 (QSpiFlashRead (dev e) (flash s) 0x33000 16)"

text \<open>\<^verbatim>\<open>WriteFlash\<close> of \<open>n\<close> bytes of the receive buffer from \<open>p\<close> on.\<close>

definition flash_buf :: "'f env \<Rightarrow> nat \<Rightarrow> u32 \<Rightarrow> nat \<Rightarrow> ('f, 'a) web_scheme \<Rightarrow> ('f, 'a) web_scheme option" where
  "flash_buf e p n adr s =
     (if p + unat n > length (Rec_Data s) then None
      else map_option (\<lambda>f. s\<lparr>flash := f\<rparr>)
        (WriteFlash (dev e) (malloc_ok e) (to_bytes (take (unat n) (drop p (Rec_Data s)))) adr (flash s)))"

text \<open>The first of \<open>n\<close> positions from \<open>p\<close> on where a word stands: its distance from \<open>p\<close>, \<open>n\<close> when there is none.\<close>

fun seek :: "string \<Rightarrow> string \<Rightarrow> nat \<Rightarrow> nat \<Rightarrow> nat option" where
  "seek word buf p 0 = Some 0"
| "seek word buf p (Suc n) =
     do { m \<leftarrow> cmp_key buf p word; if m then Some 0 else map_option Suc (seek word buf (Suc p) n) }"

text \<open>\<^verbatim>\<open>sizeof("DEADBEEF")\<close> counts the terminator. Frames shorter than 100 bytes make the search start before the buffer.\<close>

definition http_update ::
  "'f env \<Rightarrow> nat \<Rightarrow> nat \<Rightarrow> u32 \<Rightarrow> u32 \<Rightarrow> ('f, 'a) web_scheme \<Rightarrow> (int \<times> ('f, 'a) web_scheme) option" where
  "http_update e idx rx n flag s =
     (let bp = boot_param e s
      in do {
        k \<leftarrow> (if flag \<le> 2 then seek ''Nu_link'' (Rec_Data s) rx (unat n) else Some (unat n));
        if k < unat n then
          let m = n - of_nat k - 256
          in do {
            s1 \<leftarrow> flash_buf e (rx + k + 256) m NVM_FW_BAK_OFFSET (s\<lparr>fmwStartSign := 1\<rparr>);
            Some (1, printf (''star update firmware '' @ [LF] @ ''fimwareSize='' @ dec_of_int (sint m) @ '',tcpDataSize='' @
              dec_of_int (sint (n - of_nat k)) @ [LF]) (s1\<lparr>firmwareSize := m\<rparr>))
          }
        else if fmwStartSign s \<noteq> 0 then
          if rx + unat n < 100 then None
          else do {
            j \<leftarrow> seek ''DEADBEEF'' (Rec_Data s) (rx + unat n - 100) 100;
            let adr = NVM_FW_BAK_OFFSET + unat (firmwareSize s);
            if j < 100 then
              let m = n - 100 + of_nat j; size = firmwareSize s + (m + 256 + 9)
              in do {
                s1 \<leftarrow> flash_buf e rx m adr (s\<lparr>fmwStartSign := 0\<rparr>);
                f \<leftarrow> WriteFlash (dev e) (malloc_ok e) bp 0x33000 (flash s1);
                (_, s2) \<leftarrow> http_sendfile e idx (Some ''/login.html'') 0
                  (printf (''fimwareSize='' @ dec_of_int (sint (size + 256 - 9)) @ '',tcpDataSize='' @ dec_of_int (sint n) @ [LF])
                    (s1\<lparr>flash := f, firmwareSize := size\<rparr>));
                Some (0, printf (''update success!'' @ [LF]) s2)
              }
            else do {
              s1 \<leftarrow> flash_buf e rx n adr s;
              Some (1, printf (''fimwareSize='' @ dec_of_int (sint (firmwareSize s + n)) @ '',tcpDataSize='' @ dec_of_int (sint n) @ [LF])
                (s1\<lparr>firmwareSize := firmwareSize s + n\<rparr>))
            }
          }
        else Some (1, s)
      })"

section \<open>Requests\<close>

definition HTTP_200_HEADER :: string where
  "HTTP_200_HEADER = HTTP_HTML_HEADER @ ''0'' @ crlf @ crlf"

definition HTTP_400 :: string where
  "HTTP_400 = ''HTTP/1.1 400 Bad request'' @ crlf @ ''Server: login'' @ crlf @ ''Connection: Close'' @ crlf @ crlf @
     ''Error 400 Bad request'' @ crlf @ crlf"

text \<open>The pages a GET request is looked up in, by prefix; any other request gets the login page.\<close>

fun get_page :: "string list \<Rightarrow> string \<Rightarrow> nat \<Rightarrow> string option" where
  "get_page [] buf rx = Some ''/login.html''"
| "get_page (p # ps) buf rx = do { m \<leftarrow> cmp_key buf rx p; if m then Some p else get_page ps buf rx }"

definition http_get :: "'f env \<Rightarrow> nat \<Rightarrow> nat \<Rightarrow> ('f, 'a) web_scheme \<Rightarrow> ('f, 'a) web_scheme option" where
  "http_get e idx rx s =
     do {
       p \<leftarrow> get_page [''/login.html'', ''/status.html'', ''/wifibase.html'', ''/wifinet.html'', ''/public.css''] (Rec_Data s) rx;
       map_option snd (http_sendfile e idx (Some p) 0 s)
     }"

text \<open>What a POST request asks for: the first of the names that matches.\<close>

fun post_action :: "string list \<Rightarrow> string \<Rightarrow> nat \<Rightarrow> string option" where
  "post_action [] buf rx = Some []"
| "post_action (p # ps) buf rx = do { m \<leftarrow> cmp_key buf rx p; if m then Some p else post_action ps buf rx }"

definition http_post :: "'f env \<Rightarrow> (nat \<Rightarrow> u32) \<Rightarrow> nat \<Rightarrow> nat \<Rightarrow> u32 \<Rightarrow> ('f, 'a) web_scheme \<Rightarrow> ('f, 'a) web_scheme option" where
  "http_post e junk idx rx len s =
     do {
       a \<leftarrow> post_action [''/reboot'', ''/factory'', ''/update'', ''/wifibase'', ''/setupuart'', ''/setupnet''] (Rec_Data s) rx;
       if a = ''/reboot'' then do { s1 \<leftarrow> put_text 0 HTTP_200_HEADER s; http_resetsys e idx s1 }
       else if a = ''/factory'' then do { s1 \<leftarrow> put_text 0 HTTP_200_HEADER s; http_factory e idx s1 }
       else if a = ''/update'' then Some (s\<lparr>updFlag := 1\<rparr>)
       else if a = ''/wifibase'' then http_setup_wifibase e junk idx rx len s
       else if a = ''/setupuart'' then http_setup_uart e idx rx len s
       else if a = ''/setupnet'' then http_setup_net e (junk 0) idx rx len s
       else do { name \<leftarrow> ptr_str (Rec_Data s) (Some rx); map_option snd (http_sendfile e idx (Some name) 0 s) }
     }"

definition http_engine :: "'f env \<Rightarrow> (nat \<Rightarrow> u32) \<Rightarrow> nat \<Rightarrow> nat \<Rightarrow> u32 \<Rightarrow> ('f, 'a) web_scheme \<Rightarrow> ('f, 'a) web_scheme option" where
  "http_engine e junk idx rx len s =
     (if idx \<ge> length (http_table s) then None
      else if h_status (http_table s ! idx) = HTTP_CLOSED then
        if len = 0 then Some s
        else do {
          get \<leftarrow> cmp_key (Rec_Data s) rx ''GET'';
          if get then http_get e idx (rx + 4) (s\<lparr>updFlag := 0\<rparr>)
          else do {
            post \<leftarrow> cmp_key (Rec_Data s) rx ''POST'';
            if post then http_post e junk idx (rx + 5) (len - 5) (s\<lparr>updFlag := 0\<rparr>)
            else if updFlag s \<noteq> 0 then do {
              (r, s1) \<leftarrow> http_update e idx rx len (updFlag s) s;
              if r = 0 then Some ((printf (''rebooting....'' @ [CR, LF]) (s1\<lparr>updFlag := 0\<rparr>))\<lparr>chip_reset := True\<rparr>)
              else Some (s1\<lparr>updFlag := updFlag s1 + 1\<rparr>)
            }
            else do { s1 \<leftarrow> put_text 0 HTTP_400 s; tcp_send idx (length HTTP_400) s1 }
          }
        }
      else if h_status (http_table s ! idx) = HTTP_SEND then map_option snd (http_sendfile e idx None 0 s)
      else Some s)"

definition RECV_BUFFER_SIZE :: nat where "RECV_BUFFER_SIZE = 3120"

text \<open>The request in \<^verbatim>\<open>Rec_Data\<close>, terminated when there is room.\<close>

definition received :: "string \<Rightarrow> ('f, 'a) web_scheme \<Rightarrow> ('f, 'a) web_scheme" where
  "received d s =
     s\<lparr>Rec_Data := (if length d < RECV_BUFFER_SIZE then d @ NUL # drop (Suc (length d)) (Rec_Data s) else d),
       SendData := replicate SEND_BUFFER_SIZE NUL\<rparr>"

section \<open>What a request leaves alone\<close>

text \<open>A handler keeps the descriptors, the other entries, the record of closed descriptors and the variables of the
  connection loop; its own entry is not left sending.\<close>

definition kept :: "nat \<Rightarrow> ('f, 'a) web_scheme \<Rightarrow> ('f, 'a) web_scheme \<Rightarrow> bool" where
  "kept idx s s' \<longleftrightarrow> map h_sock_fd (http_table s') = map h_sock_fd (http_table s) \<and> closed s' = closed s \<and> web.more s' = web.more s \<and>
     (\<forall>j. j \<noteq> idx \<longrightarrow> http_table s' ! j = http_table s ! j) \<and>
     (h_status (http_table s ! idx) = HTTP_CLOSED \<longrightarrow> h_status (http_table s' ! idx) = HTTP_CLOSED)"

definition tame :: "nat \<Rightarrow> ('f, 'a) web_scheme \<Rightarrow> ('f, 'a) web_scheme option \<Rightarrow> bool" where
  "tame idx s r \<longleftrightarrow> (\<forall>s'. r = Some s' \<longrightarrow> kept idx s s')"

lemma kept_simps [simp]:
  "kept idx s s" "kept idx s (s'\<lparr>UserParam := u\<rparr>) = kept idx s s'" "kept idx s (s'\<lparr>Rec_Data := b\<rparr>) = kept idx s s'"
  "kept idx s (s'\<lparr>flash := f\<rparr>) = kept idx s s'" "kept idx s (s'\<lparr>wl_workmode := w\<rparr>) = kept idx s s'"
  "kept idx s (s'\<lparr>updFlag := n\<rparr>) = kept idx s s'" "kept idx s (s'\<lparr>firmwareSize := n\<rparr>) = kept idx s s'"
  "kept idx s (s'\<lparr>fmwStartSign := k\<rparr>) = kept idx s s'" "kept idx s (s'\<lparr>chip_reset := c\<rparr>) = kept idx s s'"
  "kept idx s (printf t s') = kept idx s s'"
  by (simp_all add: kept_def printf_def)

lemma kept_trans: "kept idx s s' \<Longrightarrow> kept idx s' s'' \<Longrightarrow> kept idx s s''"
  by (simp add: kept_def)

lemma tame_rules:
  "kept idx s s' \<Longrightarrow> tame idx s (Some s')"
  "(\<And>x. m = Some x \<Longrightarrow> tame idx s (g x)) \<Longrightarrow> tame idx s (Option.bind m g)"
  "(b \<Longrightarrow> tame idx s r) \<Longrightarrow> (\<not> b \<Longrightarrow> tame idx s r') \<Longrightarrow> tame idx s (if b then r else r')"
  "(\<And>x y. p = (x, y) \<Longrightarrow> tame idx s (h x y)) \<Longrightarrow> tame idx s (case p of (x, y) \<Rightarrow> h x y)"
  by (auto simp: tame_def bind_eq_Some_conv split: prod.splits)

lemma tame_none: "tame idx s None"
  by (simp add: tame_def)

lemma tame_nested: "(\<And>x y z. p = ((x, y), z) \<Longrightarrow> tame idx s (h x y z)) \<Longrightarrow> tame idx s (case_prod (case_prod h) p)"
  by (auto split: prod.splits)

lemma http_sendfile_kept:
  assumes "http_sendfile e idx (Some name) tx s' = Some (n, s'')" "kept idx s s'"
  shows "kept idx s s''"
proof -
  note f = http_sendfile_frame [OF assms(1)]
  have "kept idx s' s''" using f web_frame_simps(7,14,16,18) [OF f(1)] by (simp add: kept_def)
  then show ?thesis by (rule kept_trans [OF assms(2)])
qed

lemma sendfile_tame: "kept idx s s' \<Longrightarrow> tame idx s (map_option snd (http_sendfile e idx (Some name) tx s'))"
  by (auto simp: tame_def dest: http_sendfile_kept)

lemma SaveUserParam_kept: "SaveUserParam e s' = Some s'' \<Longrightarrow> kept idx s s' \<Longrightarrow> kept idx s s''"
  by (auto simp: SaveUserParam_def)

lemma put_text_kept: "put_text tx t s' = Some s'' \<Longrightarrow> kept idx s s' \<Longrightarrow> kept idx s s''"
  by (auto simp: put_text_def kept_def bind_eq_Some_conv)

lemma tcp_send_kept: "tcp_send i n s' = Some s'' \<Longrightarrow> kept idx s s' \<Longrightarrow> kept idx s s''"
  by (auto simp: tcp_send_def kept_def split: if_splits)

lemma upd_user_cfg_kept [simp]: "kept idx s (upd_user_cfg f s') = kept idx s s'" "kept idx s (wl_set_ipconfig a b c d s') = kept idx s s'"
  by (simp_all add: upd_user_cfg_def wl_set_ipconfig_def)

lemma SetWifiParam_tame: "kept idx s s' \<Longrightarrow> tame idx s (SetWifiParam a b c d f g h i j k s')"
  unfolding SetWifiParam_def Let_def by (intro tame_rules) simp_all

lemmas SetWifiParam_kept = SetWifiParam_tame [unfolded tame_def, rule_format, rotated]

lemma setup_uart_tame: "kept idx s s' \<Longrightarrow> tame idx s (http_setup_uart e idx rx len s')"
  unfolding http_setup_uart_def Let_def by (intro tame_rules sendfile_tame) simp_all

lemma setup_net_tame: "kept idx s s' \<Longrightarrow> tame idx s (http_setup_net e junk idx rx len s')"
  unfolding http_setup_net_def Let_def by (intro tame_rules sendfile_tame) simp_all

lemma setup_wifibase_tame: "kept idx s s' \<Longrightarrow> tame idx s (http_setup_wifibase e junk idx rx len s')"
  unfolding http_setup_wifibase_def Let_def
  by (rule tame_rules(2), rule tame_nested, intro tame_rules sendfile_tame) (auto elim!: SetWifiParam_kept)

lemma reset_tame:
  "kept idx s s' \<Longrightarrow> tame idx s (http_resetsys e idx s')" "kept idx s s' \<Longrightarrow> tame idx s (http_factory e idx s')"
  unfolding http_resetsys_def http_factory_def
  by (intro tame_rules; force elim!: SaveUserParam_kept dest: http_sendfile_kept)+

lemma flash_buf_kept: "flash_buf e p n adr s' = Some s'' \<Longrightarrow> kept idx s s' \<Longrightarrow> kept idx s s''"
  by (auto simp: flash_buf_def split: if_splits)

lemma tame_pair: "tame idx s (map_option snd r) \<Longrightarrow> r = Some (n, s') \<Longrightarrow> kept idx s s'"
  by (simp add: tame_def)

lemma tame_map:
  "kept idx s s' \<Longrightarrow> tame idx s (map_option snd (Some (n, s')))"
  "(\<And>x. m = Some x \<Longrightarrow> tame idx s (map_option snd (g x))) \<Longrightarrow> tame idx s (map_option snd (Option.bind m g))"
  "(b \<Longrightarrow> tame idx s (map_option snd r)) \<Longrightarrow> (\<not> b \<Longrightarrow> tame idx s (map_option snd r')) \<Longrightarrow> tame idx s (map_option snd (if b then r else r'))"
  "(\<And>x y. p = (x, y) \<Longrightarrow> tame idx s (map_option snd (h x y))) \<Longrightarrow> tame idx s (map_option snd (case p of (x, y) \<Rightarrow> h x y))"
  "tame idx s (map_option snd None)"
  by (auto simp: tame_def bind_eq_Some_conv split: prod.splits)

lemma http_update_kept:
  assumes "http_update e idx rx n flag s = Some (r, s')"
  shows "kept idx s s'"
proof (rule tame_pair [OF _ assms])
  show "tame idx s (map_option snd (http_update e idx rx n flag s))"
    unfolding http_update_def Let_def by (intro tame_map) (auto dest!: flash_buf_kept [where idx = idx and s = s] http_sendfile_kept [where s = s])
qed

lemma http_engine_kept:
  assumes "http_engine e junk idx rx len s = Some s'" "h_status (http_table s ! idx) = HTTP_CLOSED"
  shows "kept idx s s'"
proof -
  have get: "tame idx s (http_get e idx p (s\<lparr>updFlag := 0\<rparr>))" for p
    unfolding http_get_def by (intro tame_rules sendfile_tame) simp
  have post: "tame idx s (http_post e junk idx p l (s\<lparr>updFlag := 0\<rparr>))" for p l
    unfolding http_post_def
    by (intro tame_rules sendfile_tame setup_uart_tame setup_net_tame setup_wifibase_tame reset_tame)
      (simp_all, (erule put_text_kept, simp)+)
  have bad: "tame idx s (put_text 0 HTTP_400 s \<bind> tcp_send idx (length HTTP_400))"
    by (auto simp: tame_def bind_eq_Some_conv elim!: put_text_kept tcp_send_kept)
  have upd: "kept idx s s1" if "http_update e idx rx len (updFlag s) s = Some (r, s1)" for r s1
    by (rule http_update_kept [OF that])
  have "tame idx s (http_engine e junk idx rx len s)"
    unfolding http_engine_def using assms(2)
    by (intro tame_rules tame_none get post bad) (simp_all add: upd)
  then show ?thesis using assms(1) by (simp add: tame_def)
qed

section \<open>Settings made on the web survive the reboot\<close>

lemma received_simps [simp]:
  "http_table (received d s) = http_table s" "UserParam (received d s) = UserParam s" "flash (received d s) = flash s"
  "wl_workmode (received d s) = wl_workmode s" "html_buf (received d s) = html_buf s" "PermanentAddress (received d s) = PermanentAddress s"
  "length (SendData (received d s)) = SEND_BUFFER_SIZE" "http_sent (received d s) = http_sent s" "updFlag (received d s) = updFlag s"
  "firmwareSize (received d s) = firmwareSize s" "fmwStartSign (received d s) = fmwStartSign s"
  by (simp_all add: received_def)

lemma received_text: "length d < RECV_BUFFER_SIZE \<Longrightarrow> \<exists>r. Rec_Data (received d s) = d @ NUL # r"
  by (simp add: received_def)

text \<open>How a request is recognised.\<close>

lemma cmp_key_text: "cstring k \<Longrightarrow> cmp_key (p @ t @ NUL # r) (length p) k = Some (matches k t)"
  by (simp add: cmp_key_matches matches_NUL)

lemma find_plain: "find (\<lambda>x. \<not> clash x k) ks = Some k \<Longrightarrow> find (\<lambda>x. matches x (k @ t)) ks = Some k"
  using matches_append [of k t] clash_matches [of _ k t] unfolding find_Some_iff by metis

lemma post_action_find:
  "\<forall>k \<in> set ks. cstring k \<Longrightarrow>
     post_action ks (p @ t @ NUL # r) (length p) = Some (case find (\<lambda>k. matches k t) ks of None \<Rightarrow> [] | Some k \<Rightarrow> k)"
  by (induction ks) (simp_all add: cmp_key_text)

definition post_names :: "string list" where
  "post_names = [''/reboot'', ''/factory'', ''/update'', ''/wifibase'', ''/setupuart'', ''/setupnet'']"

lemma post_names_plain:
  "\<forall>k \<in> set post_names. cstring k" "list_all (\<lambda>k. find (\<lambda>x. \<not> clash x k) post_names = Some k) post_names"
  by code_simp+

lemma post_name:
  assumes "k \<in> set post_names"
  shows "post_action [''/reboot'', ''/factory'', ''/update'', ''/wifibase'', ''/setupuart'', ''/setupnet''] (''POST '' @ (k @ h) @ NUL # r) 5 = Some k"
proof -
  have "find (\<lambda>x. matches x (k @ h)) post_names = Some k"
    using assms post_names_plain(2) by (intro find_plain) (simp add: list_all_iff)
  moreover have "length ''POST '' = 5" by simp
  ultimately show ?thesis
    using post_action_find [OF post_names_plain(1), of "''POST ''" "k @ h" r] by (simp only: post_names_def) simp
qed

lemma engine_post:
  assumes "Rec_Data s = ''POST '' @ t @ NUL # r" "len \<noteq> 0" "idx < length (http_table s)" "h_status (http_table s ! idx) = HTTP_CLOSED"
  shows "http_engine e junk idx 0 len s = http_post e junk idx 5 (len - 5) (s\<lparr>updFlag := 0\<rparr>)"
proof -
  have "\<not> matches ''GET'' (''POST '' @ t)" "matches ''POST'' (''POST '' @ t)"
    using clash_matches [of "''GET''" "''POST ''" t] by (auto simp: matches_def) code_simp
  then have "cmp_key (Rec_Data s) 0 ''GET'' = Some False" "cmp_key (Rec_Data s) 0 ''POST'' = Some True"
    using cmp_key_text [of "''GET''" "[]" "''POST '' @ t" r] cmp_key_text [of "''POST''" "[]" "''POST '' @ t" r]
    by (simp_all only: assms(1)) (simp_all add: NUL_def)
  then show ?thesis using assms(2-4) by (simp add: http_engine_def)
qed

lemma login_ready_cong:
  assumes "page_ready e s 1 t" "flash s' = flash s" "html_buf s' \<noteq> None" "length (SendData s') = SEND_BUFFER_SIZE"
  shows "page_ready e s' 1 t"
  using assms by (simp add: page_ready_def filled_def fillable_def served_def page_text_cong [OF assms(2)])

text \<open>The form of the serial parameters, as a whole request.\<close>

lemma request_setupuart:
  assumes "length (''POST /setupuart'' @ h @ form_text fs) < RECV_BUFFER_SIZE" "good_form uart_keys fs" "CHR ''='' \<notin> set h" "h \<noteq> []" "last h = LF"
    and "(''baudrate='', dec_of_nat b) \<in> set fs" "(''framelen='', dec_of_nat f) \<in> set fs" "(''frametime='', dec_of_nat g) \<in> set fs"
    and r: "300 \<le> b" "b \<le> 1250000" "f \<le> 1400" "30 \<le> g" "g < 2 ^ 31"
    and "idx < 5" "length (http_table s) = 5" "h_status (http_table s ! idx) = HTTP_CLOSED"
    and pr: "page_ready e (s\<lparr>UserParam := uart_user b f g (UserParam s)\<rparr>) 4 t"
  defines "d \<equiv> ''POST /setupuart'' @ h @ form_text fs"
  shows "\<exists>s'. http_engine e junk idx 0 (of_nat (length d)) (received d s) = Some s' \<and> kept idx s s' \<and>
    UserParam s' = uart_user b f g (UserParam s) \<and> flash s' = flash s \<and> wl_workmode s' = wl_workmode s \<and>
    html_buf s' \<noteq> None \<and> length (SendData s') = SEND_BUFFER_SIZE"
proof -
  let ?hdr = "''/setupuart'' @ h" and ?s = "(received d s)\<lparr>updFlag := 0\<rparr>"
  obtain q where q: "Rec_Data (received d s) = ''POST '' @ (?hdr @ form_text fs) @ NUL # q"
    using received_text [of d s] assms(1) by (auto simp: d_def)
  have dl: "length d < 3120" "length d = 5 + (length ?hdr + length (form_text fs))" using assms(1) by (simp_all add: d_def RECV_BUFFER_SIZE_def)
  have ul: "unat (of_nat (length d) :: u32) = length d" using dl(1) by (simp add: unat_of_nat)
  have nz: "of_nat (length d) \<noteq> (0 :: u32)" using ul dl(2) by auto
  have "http_engine e junk idx 0 (of_nat (length d)) (received d s) = http_post e junk idx 5 (of_nat (length d) - 5) ?s"
    using engine_post [OF q nz] assms(14-16) by simp
  also have "\<dots> = http_setup_uart e idx 5 (of_nat (length d) - 5) ?s"
    using post_name [of "''/setupuart''" "h @ form_text fs" q] q by (simp add: http_post_def post_names_def)
  finally have eng: "http_engine e junk idx 0 (of_nat (length d)) (received d s) = http_setup_uart e idx 5 (of_nat (length d) - 5) ?s" .
  have "no_field uart_keys ?hdr (form_text fs)"
    using assms(3-5) by (intro no_field_header [OF form_header_keys(1)]) simp_all
  moreover have "unat (of_nat (length d) - 5 :: u32) = length ?hdr + length (form_text fs)"
    using unat_minus [of 5 "of_nat (length d)"] ul dl(2) by simp
  moreover have "page_ready e (?s\<lparr>UserParam := uart_user b f g (UserParam ?s)\<rparr>) 4 t"
    using pr by (subst page_ready_cong [of _ "s\<lparr>UserParam := uart_user b f g (UserParam s)\<rparr>"]) (simp_all add: page_ready_def)
  ultimately obtain s' w where s': "http_setup_uart e idx (length ''POST '') (of_nat (length d) - 5) ?s = Some s'"
      "web_frame idx ((?s\<lparr>UserParam := uart_user b f g (UserParam ?s)\<rparr>)\<lparr>Rec_Data := ''POST '' @ w\<rparr>) s'"
    using uart_form [of ?s "''POST ''" ?hdr fs q "of_nat (length d) - 5" b f g idx e t] q assms(2,6-8,14,15) r by auto
  have "length ''POST '' = 5" by simp
  note s5 = s'(1) [unfolded this]
  have "html_buf s \<noteq> None" using pr by (simp add: page_ready_def)
  moreover have "kept idx (received d s) s'"
    by (rule http_engine_kept [of e junk idx 0 "of_nat (length d)"]) (use eng s5 assms(16) in simp_all)
  then have "kept idx s s'" by (simp add: kept_def received_def)
  ultimately show ?thesis using eng s5 web_frame_simps(1,3,4,6,9) [OF s'(2)] by simp
qed

text \<open>The reboot request saves the parameters with the chosen work mode.\<close>

lemma request_reboot:
  assumes "length (''POST /reboot'' @ h) < RECV_BUFFER_SIZE" "idx < 5" "length (http_table s) = 5" "h_status (http_table s ! idx) = HTTP_CLOSED"
    and "page_ready e s 1 t" and dev: "dev e = nor_dev" "malloc_ok e" "sized_user (UserParam s)" "gpio_factory e' \<noteq> (0, 0)" "dev e' = nor_dev"
  defines "d \<equiv> ''POST /reboot'' @ h"
  shows "\<exists>s'. http_engine e junk idx 0 (of_nat (length d)) (received d s) = Some s' \<and> chip_reset s' \<and>
    (\<forall>t :: nor snet. flash t = flash s' \<longrightarrow> (\<exists>t'. init_default_data e' t = Some (0, t') \<and>
      UserParam t' = (UserParam s)\<lparr>atMode := of_int (wl_workmode s), isValid := USER_PARAM_FLAG_VALID, SleepMode := 0\<rparr> \<and>
      uart_baud t' = Baudrate (UserParam s)))"
proof -
  let ?s = "(received d s)\<lparr>updFlag := 0\<rparr>"
  obtain q where q: "Rec_Data (received d s) = ''POST '' @ (''/reboot'' @ h) @ NUL # q"
    using received_text [of d s] assms(1) by (auto simp: d_def)
  have "length d < 3120" "length d > 0" using assms(1) by (simp_all add: d_def RECV_BUFFER_SIZE_def)
  then have "unat (of_nat (length d) :: u32) \<noteq> 0" by (simp add: unat_of_nat)
  then have nz: "of_nat (length d) \<noteq> (0 :: u32)" by auto
  have "http_engine e junk idx 0 (of_nat (length d)) (received d s) = http_post e junk idx 5 (of_nat (length d) - 5) ?s"
    using engine_post [OF q nz] assms(2-4) by simp
  also have "\<dots> = do { s1 \<leftarrow> put_text 0 HTTP_200_HEADER ?s; http_resetsys e idx s1 }"
    using post_name [of "''/reboot''" h q] q by (simp add: http_post_def post_names_def)
  finally have eng: "http_engine e junk idx 0 (of_nat (length d)) (received d s) = do { s1 \<leftarrow> put_text 0 HTTP_200_HEADER ?s; http_resetsys e idx s1 }" .
  have "length HTTP_200_HEADER < 4096" by (simp add: HTTP_200_HEADER_def HTTP_HTML_HEADER_def http_header_def crlf_def)
  then obtain b where b: "put_text 0 HTTP_200_HEADER ?s = Some (?s\<lparr>SendData := b\<rparr>)" "length b = SEND_BUFFER_SIZE"
    by (simp add: put_text_def buf_write_def SEND_BUFFER_SIZE_def)
  let ?s1 = "?s\<lparr>SendData := b\<rparr>"
  have "html_buf s \<noteq> None" using assms(5) by (simp add: page_ready_def)
  then have "page_ready e ?s1 1 t" using b(2) by (intro login_ready_cong [OF assms(5)]) simp_all
  then obtain s2 where s2: "http_sendfile e idx (Some ''/login.html'') 0 ?s1 = Some (0, s2)" "web_frame idx ?s1 s2"
    using page_reply [OF _ page_names(1)] assms(2,3) by fastforce
  let ?u = "(UserParam s)\<lparr>atMode := of_int (wl_workmode s), isValid := USER_PARAM_FLAG_VALID\<rparr>"
  have "sized_user ?u" using dev(3) by (simp add: sized_user_def)
  then obtain s3 where s3: "SaveUserParam e (s2\<lparr>UserParam := ?u\<rparr>) = Some s3"
      "\<forall>t :: nor snet. flash t = flash s3 \<longrightarrow> (\<exists>t'. init_default_data e' t = Some (0, t') \<and> UserParam t' = ?u\<lparr>SleepMode := 0\<rparr> \<and> uart_baud t' = Baudrate ?u)"
    using nor.store.save_boot [OF dev(1,2), of "s2\<lparr>UserParam := ?u\<rparr>" e'] dev(4,5) by auto
  have "http_resetsys e idx ?s1 = Some (s3\<lparr>chip_reset := True\<rparr>)"
    using s2(1) s3(1) web_frame_simps(1,4) [OF s2(2)] by (simp add: http_resetsys_def)
  then show ?thesis using eng b(1) s3(2) by simp
qed


text \<open>A flash with the login and the network page, and a request.\<close>

definition two_pages :: nor where
  "two_pages = (\<lambda>x. if x < 0x6C000 then burn 0x6A000 login_page x else burn 0x6D000 net_page x)"

lemma page_text_local:
  assumes "page_addr file = Some a" "\<And>x. a \<le> x \<Longrightarrow> x < a + 0x1100 \<Longrightarrow> f' x = f x"
  shows "page_text env0 file (web0 f') = page_text env0 file (web0 f)"
proof -
  have h: "map f' [a..<a + 32] = map f [a..<a + 32]" using assms(2) by auto
  have t: "map f' [a + 256..<a + 256 + n] = map f [a + 256..<a + 256 + n]" if "n \<le> 4096" for n using assms(2) that by auto
  have l: "get_web_html_len env0 file (web0 f') = get_web_html_len env0 file (web0 f)"
    using assms(1) by (simp add: get_web_html_len_def nor.read h del: map_eq_conv)
  have "page_text env0 file (web0 f') = do {
       let len = unat (get_web_html_len env0 file (web0 f));
       if len > HTTP_SEND_BUFFER_MAX then None
       else str_in (chars (map f' [a + 256..<a + 256 + len]) @ replicate (HTTP_SEND_BUFFER_MAX - len) NUL) }"
    using assms(1) by (simp add: page_text_def nor.read l Let_def)
  also have "\<dots> = page_text env0 file (web0 f)"
    using assms(1) by (simp add: page_text_def nor.read HTTP_SEND_BUFFER_MAX_def Let_def t not_less del: map_eq_conv)
  finally show ?thesis .
qed

lemma two_pages_text: "page_text env0 1 (web0 two_pages) = Some login_page" "page_text env0 4 (web0 two_pages) = Some net_page"
proof -
  have "page_text env0 1 (web0 two_pages) = page_text env0 1 (web0 (burn 0x6A000 login_page))"
    by (rule page_text_local [where a = "0x6A000"]) (simp_all add: page_addr_def two_pages_def)
  also have "\<dots> = Some login_page" by (rule burn_page) (simp_all add: page_addr_def NUL_def)
  finally show "page_text env0 1 (web0 two_pages) = Some login_page" .
  have "page_text env0 4 (web0 two_pages) = page_text env0 4 (web0 (burn 0x6D000 net_page))"
    by (rule page_text_local [where a = "0x6D000"]) (simp_all add: page_addr_def two_pages_def)
  also have "\<dots> = Some net_page" by (rule burn_page) (simp_all add: page_addr_def NUL_def)
  finally show "page_text env0 4 (web0 two_pages) = Some net_page" .
qed

lemma two_pages_ready: "page_ready env0 (web0 two_pages) 1 login_page"
    "page_ready env0 ((web0 two_pages)\<lparr>UserParam := uart_user b f g user0\<rparr>) 4 net_page"
proof -
  show "page_ready env0 (web0 two_pages) 1 login_page"
    using two_pages_text(1) header_length [of 13] by (simp add: two_digits page_ready_def filled_def served_def fillable_def SEND_BUFFER_SIZE_def)
  have "page_text env0 4 ((web0 two_pages)\<lparr>UserParam := uart_user b f g user0\<rparr>) = Some net_page"
    using page_text_cong [of "(web0 two_pages)\<lparr>UserParam := uart_user b f g user0\<rparr>" "web0 two_pages" env0 4] two_pages_text(2) by simp
  then show "page_ready env0 ((web0 two_pages)\<lparr>UserParam := uart_user b f g user0\<rparr>) 4 net_page"
    by (rule net_page_ready) (simp_all add: uart_user_def user0_def zero_USER_CFG_PARAM_def)
qed

definition uart_fields :: "(string \<times> string) list" where
  "uart_fields = [(''baudrate='', dec_of_nat 300), (''framelen='', dec_of_nat 64), (''frametime='', dec_of_nat 50)]"

definition req_head :: string where
  "req_head = '' HTTP/1.1'' @ [CR, LF, CR, LF]"


end
