(* ===== verification/Firmware.thy ===== *)
theory Firmware
  imports Http_Engine
begin

text \<open>
  A firmware upload through the web server (\<^verbatim>\<open>http_update\<close> of \<^verbatim>\<open>App/Webserver/http_parser.c\<close> below \<^verbatim>\<open>http_engine\<close>): what the
  frames of an upload are, what each of them leaves in flash, and what the flash holds when the last one has arrived.
\<close>

section \<open>A firmware upload\<close>

text \<open>Looking for a word in a frame.\<close>

definition has_word :: "string \<Rightarrow> string \<Rightarrow> nat \<Rightarrow> bool" where
  "has_word w d i \<longleftrightarrow> matches w (drop i d)"

lemma seek_first:
  assumes "cstring w" "p + n \<le> length d" "j \<le> n" "\<forall>i < j. \<not> has_word w d (p + i)" "j < n \<longrightarrow> has_word w d (p + j)"
  shows "seek w (d @ NUL # r) p n = Some j"
  using assms(2-)
proof (induction n arbitrary: p j)
  case (Suc n)
  have "drop p (d @ NUL # r) = drop p d @ NUL # r" using Suc.prems(1) by simp
  then have m: "cmp_key (d @ NUL # r) p w = Some (has_word w d p)"
    using cmp_key_matches [of p "d @ NUL # r" w] matches_NUL [OF assms(1)] assms(1) by (simp add: has_word_def)
  show ?case
  proof (cases j)
    case 0
    with Suc.prems(4) m show ?thesis by simp
  next
    case (Suc k)
    have "\<not> has_word w d p" using Suc.prems(3) Suc by (metis add_0_right zero_less_Suc)
    moreover have "seek w (d @ NUL # r) (Suc p) n = Some k"
      using Suc.prems Suc by (intro Suc.IH) auto
    ultimately show ?thesis using m Suc by simp
  qed
qed simp

text \<open>What is in flash during an upload that began with the flash \<open>f0\<close>: the image received so far, and nothing else changed.\<close>

definition uploading :: "nor \<Rightarrow> string \<Rightarrow> (nor, 'a) web_scheme \<Rightarrow> bool" where
  "uploading f0 img s \<longleftrightarrow> fmwStartSign s \<noteq> 0 \<and> firmwareSize s = of_nat (length img) \<and>
     ReadFlash nor_dev (flash s) (length img) NVM_FW_BAK_OFFSET = to_bytes img \<and>
     (\<forall>b n. b + n \<le> NVM_FW_BAK_OFFSET \<or> NVM_FW_BAK_OFFSET + length img \<le> b \<longrightarrow> ReadFlash nor_dev (flash s) n b = ReadFlash nor_dev f0 n b)"

lemma flash_buf_ok:
  assumes "dev e = nor_dev" "malloc_ok e" "Rec_Data s = x @ y @ z" "p = length x" "unat n = length y" "adr + length y \<le> 0x64000"
  shows "\<exists>f'. flash_buf e p n adr s = Some (s\<lparr>flash := f'\<rparr>) \<and> ReadFlash nor_dev f' (length y) adr = to_bytes y \<and>
    (\<forall>b n. b + n \<le> adr \<or> adr + length y \<le> b \<longrightarrow> ReadFlash nor_dev f' n b = ReadFlash nor_dev (flash s) n b)"
proof -
  have l: "length (to_bytes y) = length y" by (simp add: to_bytes_def)
  obtain f' where "WriteFlash nor_dev True (to_bytes y) adr (flash s) = Some f'" "ReadFlash nor_dev f' (length y) adr = to_bytes y"
      "\<forall>b n. b + n \<le> adr \<or> adr + length y \<le> b \<longrightarrow> ReadFlash nor_dev f' n b = ReadFlash nor_dev (flash s) n b"
    using nor.write_read [of adr "to_bytes y" "flash s"] assms(6) unfolding l by auto
  then show ?thesis using assms(1-5) by (intro exI [of _ f']) (simp add: flash_buf_def)
qed

lemma read_append:
  "ReadFlash nor_dev f (m + n) a = ReadFlash nor_dev f m a @ ReadFlash nor_dev f n (a + m)"
  using upt_add_eq_append [of a "a + m" n] by (simp add: ReadFlash_def nor.read add.assoc)

text \<open>Storing the next piece of the image.\<close>

lemma store_piece:
  assumes "uploading f0 img s" "dev e = nor_dev" "malloc_ok e" "Rec_Data s = y @ z" "unat n = length y" "length img + length y \<le> 0x30000"
  shows "\<exists>f'. flash_buf e 0 n (NVM_FW_BAK_OFFSET + unat (firmwareSize s)) s = Some (s\<lparr>flash := f'\<rparr>) \<and>
    uploading f0 (img @ y) (s\<lparr>flash := f', firmwareSize := firmwareSize s + n\<rparr>)"
proof -
  have fs: "unat (firmwareSize s) = length img" using assms(1,6) by (simp add: uploading_def unat_of_nat)
  have n: "n = of_nat (length y)" by (simp add: assms(5) [symmetric])
  obtain f' where f': "flash_buf e 0 n (NVM_FW_BAK_OFFSET + length img) s = Some (s\<lparr>flash := f'\<rparr>)"
      "ReadFlash nor_dev f' (length y) (NVM_FW_BAK_OFFSET + length img) = to_bytes y"
      "\<forall>b n. b + n \<le> NVM_FW_BAK_OFFSET + length img \<or> NVM_FW_BAK_OFFSET + length img + length y \<le> b \<longrightarrow>
        ReadFlash nor_dev f' n b = ReadFlash nor_dev (flash s) n b"
    using flash_buf_ok [OF assms(2,3), of s "[]" y z 0 n "NVM_FW_BAK_OFFSET + length img"] assms(4-6) by (auto simp: NVM_FW_BAK_OFFSET_def)
  have "ReadFlash nor_dev f' (length img) NVM_FW_BAK_OFFSET = to_bytes img"
    using f'(3) [rule_format, of NVM_FW_BAK_OFFSET "length img"] assms(1) by (simp add: uploading_def)
  then have "ReadFlash nor_dev f' (length (img @ y)) NVM_FW_BAK_OFFSET = to_bytes (img @ y)"
    using f'(2) by (simp add: read_append to_bytes_def)
  moreover have "ReadFlash nor_dev f' k b = ReadFlash nor_dev f0 k b"
    if "b + k \<le> NVM_FW_BAK_OFFSET \<or> NVM_FW_BAK_OFFSET + length (img @ y) \<le> b" for b k
    using f'(3) [rule_format, of b k] assms(1) that by (auto simp: uploading_def)
  ultimately show ?thesis unfolding fs using f'(1) assms(1) n by (intro exI [of _ f']) (simp add: uploading_def)
qed

text \<open>The frames of an upload: the first holds \<^verbatim>\<open>Nu_link\<close> and at least 256 bytes from there on, the middle ones have at least 100
  bytes and no end mark in their last 100, the last has the end mark there. While \<^verbatim>\<open>updFlag\<close> is at most 2 a frame is searched for
  \<^verbatim>\<open>Nu_link\<close>.\<close>

definition frame_size :: "string \<Rightarrow> bool" where
  "frame_size d \<longleftrightarrow> length d < RECV_BUFFER_SIZE \<and> d \<noteq> [] \<and> \<not> matches ''GET'' d \<and> \<not> matches ''POST'' d"

definition first_frame :: "string \<Rightarrow> string \<Rightarrow> bool" where
  "first_frame x y \<longleftrightarrow> frame_size (x @ y) \<and> 256 \<le> length y \<and> matches ''Nu_link'' y \<and> (\<forall>i < length x. \<not> has_word ''Nu_link'' (x @ y) i)"

definition later_frame :: "u32 \<Rightarrow> string \<Rightarrow> bool" where
  "later_frame flag d \<longleftrightarrow> frame_size d \<and> 100 \<le> length d \<and> flag \<noteq> 0 \<and> (flag \<le> 2 \<longrightarrow> (\<forall>i < length d. \<not> has_word ''Nu_link'' d i))"

definition middle_frame :: "u32 \<Rightarrow> string \<Rightarrow> bool" where
  "middle_frame flag d \<longleftrightarrow> later_frame flag d \<and> (\<forall>i < 100. \<not> has_word ''DEADBEEF'' d (length d - 100 + i))"

definition last_frame :: "u32 \<Rightarrow> string \<Rightarrow> string \<Rightarrow> bool" where
  "last_frame flag x y \<longleftrightarrow> later_frame flag (x @ y) \<and> length y \<le> 100 \<and> matches ''DEADBEEF'' y \<and>
     (\<forall>i < length x. length (x @ y) - 100 \<le> i \<longrightarrow> \<not> has_word ''DEADBEEF'' (x @ y) i)"

lemma frame_text: "frame_size d \<Longrightarrow> \<exists>r. Rec_Data (received d s) = d @ NUL # r"
  by (simp add: frame_size_def received_text)

lemma frame_len: "frame_size d \<Longrightarrow> unat (of_nat (length d) :: u32) = length d"
  by (simp add: frame_size_def RECV_BUFFER_SIZE_def unat_of_nat)

lemma engine_update:
  assumes "frame_size d" "updFlag s \<noteq> 0" "idx < length (http_table s)" "h_status (http_table s ! idx) = HTTP_CLOSED"
  shows "http_engine e junk idx 0 (of_nat (length d)) (received d s) =
    do { (r, s1) \<leftarrow> http_update e idx 0 (of_nat (length d)) (updFlag s) (received d s);
         if r = 0 then Some ((printf (''rebooting....'' @ [CR, LF]) (s1\<lparr>updFlag := 0\<rparr>))\<lparr>chip_reset := True\<rparr>)
         else Some (s1\<lparr>updFlag := updFlag s1 + 1\<rparr>) }"
proof -
  obtain r where r: "Rec_Data (received d s) = d @ NUL # r" using frame_text [OF assms(1)] by blast
  have nz: "of_nat (length d) \<noteq> (0 :: u32)" using frame_len [OF assms(1)] assms(1) by (auto simp: frame_size_def)
  have "cmp_key (Rec_Data (received d s)) 0 ''GET'' = Some False" "cmp_key (Rec_Data (received d s)) 0 ''POST'' = Some False"
    using assms(1) cmp_key_text [of "''GET''" "[]" d r] cmp_key_text [of "''POST''" "[]" d r] unfolding r
    by (simp_all add: frame_size_def NUL_def)
  then show ?thesis using nz assms(2-4) by (simp add: http_engine_def)
qed

lemma cstring_words: "cstring ''Nu_link''" "cstring ''DEADBEEF''"
  by code_simp+

text \<open>The search for the start mark in a later frame finds nothing.\<close>

lemma later_seek:
  assumes "later_frame flag d"
  shows "(if flag \<le> 2 then seek ''Nu_link'' (d @ NUL # r) 0 (unat (of_nat (length d) :: u32)) else Some (unat (of_nat (length d) :: u32))) = Some (length d)"
  using assms seek_first [OF cstring_words(1), of 0 "length d" d "length d" r] frame_len [of d] by (simp add: later_frame_def)

text \<open>What the state must have between two frames, besides the upload.\<close>

definition upload_ready :: "nat \<Rightarrow> ('f, 'a) web_scheme \<Rightarrow> ('f, 'a) web_scheme \<Rightarrow> bool" where
  "upload_ready idx s0 s \<longleftrightarrow> idx < 5 \<and> length (http_table s0) = 5 \<and> h_status (http_table s0 ! idx) = HTTP_CLOSED \<and>
     http_table s = http_table s0 \<and> http_sent s = http_sent s0 \<and> html_buf s \<noteq> None"

lemma uploading_received [simp]: "uploading f0 img (received d s) = uploading f0 img s"
  by (simp add: uploading_def)

text \<open>The three branches of \<^verbatim>\<open>http_update\<close>.\<close>

lemma update_start:
  assumes "flag \<le> 2" "seek ''Nu_link'' (Rec_Data s) rx (unat n) = Some k" "k < unat n"
    and "flash_buf e (rx + k + 256) (n - of_nat k - 256) NVM_FW_BAK_OFFSET (s\<lparr>fmwStartSign := 1\<rparr>) = Some s1"
  shows "\<exists>t. http_update e idx rx n flag s = Some (1, printf t (s1\<lparr>firmwareSize := n - of_nat k - 256\<rparr>))"
  unfolding http_update_def Let_def using assms by (intro exI) simp

definition no_start :: "u32 \<Rightarrow> nat \<Rightarrow> u32 \<Rightarrow> ('f, 'a) web_scheme \<Rightarrow> bool" where
  "no_start flag rx n s \<longleftrightarrow> (if flag \<le> 2 then seek ''Nu_link'' (Rec_Data s) rx (unat n) else Some (unat n)) = Some (unat n) \<and>
     fmwStartSign s \<noteq> 0 \<and> 100 \<le> rx + unat n"

lemma update_middle:
  assumes "no_start flag rx n s" "seek ''DEADBEEF'' (Rec_Data s) (rx + unat n - 100) 100 = Some 100"
    and "flash_buf e rx n (NVM_FW_BAK_OFFSET + unat (firmwareSize s)) s = Some s1"
  shows "\<exists>t. http_update e idx rx n flag s = Some (1, printf t (s1\<lparr>firmwareSize := firmwareSize s + n\<rparr>))"
  unfolding http_update_def Let_def using assms by (intro exI) (simp add: no_start_def)

lemma update_end:
  assumes "no_start flag rx n s" "seek ''DEADBEEF'' (Rec_Data s) (rx + unat n - 100) 100 = Some j" "j < 100"
    and "flash_buf e rx (n - 100 + of_nat j) (NVM_FW_BAK_OFFSET + unat (firmwareSize s)) (s\<lparr>fmwStartSign := 0\<rparr>) = Some s1"
    and "WriteFlash (dev e) (malloc_ok e) (boot_param e s) 0x33000 (flash s1) = Some f"
    and "\<And>t m. \<exists>s2. http_sendfile e idx (Some ''/login.html'') 0 (printf t (s1\<lparr>flash := f, firmwareSize := m\<rparr>)) = Some (0, s2) \<and> P s2"
  shows "\<exists>t s2. http_update e idx rx n flag s = Some (0, printf t s2) \<and> P s2"
proof -
  define m where "m = firmwareSize s + (n - 100 + of_nat j + 256 + 9)"
  define t where "t = ''fimwareSize='' @ dec_of_int (sint (m + 256 - 9)) @ '',tcpDataSize='' @ dec_of_int (sint n) @ [LF]"
  obtain s2 where "http_sendfile e idx (Some ''/login.html'') 0 (printf t (s1\<lparr>flash := f, firmwareSize := m\<rparr>)) = Some (0, s2)" "P s2"
    using assms(6) by blast
  moreover have "http_update e idx rx n flag s = Some (0, printf (''update success!'' @ [LF]) s2)"
    unfolding http_update_def Let_def using assms(1-5) calculation(1) unfolding no_start_def t_def m_def by simp
  ultimately show ?thesis by blast
qed

lemma uploading_upd [simp]:
  "uploading f0 img (printf t s) = uploading f0 img s" "uploading f0 img (s\<lparr>updFlag := k\<rparr>) = uploading f0 img s"
  by (simp_all add: uploading_def printf_def)

lemma upload_ready_upd [simp]:
  "upload_ready idx s0 (printf t s) = upload_ready idx s0 s" "upload_ready idx s0 (s\<lparr>updFlag := k\<rparr>) = upload_ready idx s0 s"
  "upload_ready idx s0 (s\<lparr>flash := f\<rparr>) = upload_ready idx s0 s" "upload_ready idx s0 (s\<lparr>firmwareSize := m\<rparr>) = upload_ready idx s0 s"
  "upload_ready idx s0 (s\<lparr>fmwStartSign := z\<rparr>) = upload_ready idx s0 s" "upload_ready idx s0 (received d s) = upload_ready idx s0 s"
  by (simp_all add: upload_ready_def printf_def)

lemma upload_readyD:
  assumes "upload_ready idx s0 s"
  shows "idx < length (http_table s)" "h_status (http_table s ! idx) = HTTP_CLOSED" "html_buf s \<noteq> None"
  using assms by (simp_all add: upload_ready_def)

text \<open>A frame that does not end the upload.\<close>

lemma step_goes_on:
  assumes "frame_size d" "updFlag s \<noteq> 0" "upload_ready idx s0 s"
    and "http_update e idx 0 (of_nat (length d)) (updFlag s) (received d s) = Some (1, printf t s1)"
    and "uploading f0 img s1" "upload_ready idx s0 s1" "updFlag s1 = updFlag s"
  shows "\<exists>s'. http_engine e junk idx 0 (of_nat (length d)) (received d s) = Some s' \<and>
    uploading f0 img s' \<and> updFlag s' = updFlag s + 1 \<and> upload_ready idx s0 s'"
proof -
  have "http_engine e junk idx 0 (of_nat (length d)) (received d s) = Some ((printf t s1)\<lparr>updFlag := updFlag (printf t s1) + 1\<rparr>)"
    using engine_update [OF assms(1,2), of idx e junk] upload_readyD [OF assms(3)] assms(4) by simp
  moreover have "updFlag (printf t s1) = updFlag s" using assms(7) by (simp add: printf_def)
  ultimately show ?thesis using assms(5,6) by simp
qed

lemma first_step:
  assumes "first_frame x y" "updFlag s = 1" "upload_ready idx s0 s" "dev e = nor_dev" "malloc_ok e"
  shows "\<exists>s'. http_engine e junk idx 0 (of_nat (length (x @ y))) (received (x @ y) s) = Some s' \<and>
    uploading (flash s) (drop 256 y) s' \<and> updFlag s' = updFlag s + 1 \<and> upload_ready idx s0 s'"
proof -
  let ?d = "x @ y" and ?s = "(received (x @ y) s)\<lparr>fmwStartSign := 1\<rparr>"
  have fr: "frame_size ?d" "256 \<le> length y" using assms(1) by (simp_all add: first_frame_def)
  define n where "n = (of_nat (length ?d) :: u32)"
  have n: "unat n = length ?d" unfolding n_def by (rule frame_len [OF fr(1)])
  obtain r where r: "Rec_Data (received ?d s) = ?d @ NUL # r" using frame_text [OF fr(1)] by blast
  have k: "seek ''Nu_link'' (Rec_Data (received ?d s)) 0 (unat n) = Some (length x)"
    unfolding n r using assms(1) by (intro seek_first [OF cstring_words(1)]) (auto simp: first_frame_def has_word_def)
  define m where "m = n - of_nat (length x) - 256"
  have m: "unat m = length (drop 256 y)"
    using unat_minus [of "length x + 256" n] n fr(2) by (simp add: m_def diff_diff_eq [symmetric])
  have split: "Rec_Data ?s = (x @ take 256 y) @ drop 256 y @ NUL # r" using r by simp
  have small: "length y < 3120" using fr(1) by (simp add: frame_size_def RECV_BUFFER_SIZE_def)
  obtain f' where f': "flash_buf e (length x + 256) m NVM_FW_BAK_OFFSET ?s = Some (?s\<lparr>flash := f'\<rparr>)"
      "ReadFlash nor_dev f' (length (drop 256 y)) NVM_FW_BAK_OFFSET = to_bytes (drop 256 y)"
      "\<forall>b n. b + n \<le> NVM_FW_BAK_OFFSET \<or> NVM_FW_BAK_OFFSET + length (drop 256 y) \<le> b \<longrightarrow> ReadFlash nor_dev f' n b = ReadFlash nor_dev (flash ?s) n b"
    using flash_buf_ok [OF assms(4,5) split, of "length x + 256" m NVM_FW_BAK_OFFSET] fr(2) m small by (auto simp: NVM_FW_BAK_OFFSET_def)
  have "length x < unat n" unfolding n using fr(2) by (cases y) simp_all
  then obtain t where t: "http_update e idx 0 n 1 (received ?d s) = Some (1, printf t (?s\<lparr>flash := f', firmwareSize := m\<rparr>))"
    using update_start [of 1 "received ?d s" 0 n "length x" e "?s\<lparr>flash := f'\<rparr>" idx] k f'(1) unfolding m_def by auto
  have "m = of_nat (length (drop 256 y))" using m [symmetric] by simp
  then have u: "uploading (flash s) (drop 256 y) (?s\<lparr>flash := f', firmwareSize := m\<rparr>)" using f'(2,3) by (simp add: uploading_def)
  show ?thesis
    by (rule step_goes_on [OF fr(1) _ assms(3) _ u]) (use assms(2,3) t in \<open>simp_all add: n_def\<close>)
qed

lemma later_start:
  assumes "later_frame flag d" "uploading f0 img s" "Rec_Data s = d @ NUL # r"
  shows "no_start flag 0 (of_nat (length d)) s"
proof -
  have "frame_size d" "100 \<le> length d" using assms(1) by (simp_all add: later_frame_def)
  moreover have "fmwStartSign s \<noteq> 0" using assms(2) by (simp add: uploading_def)
  ultimately show ?thesis using later_seek [OF assms(1), of r] frame_len [of d] unfolding no_start_def assms(3) by simp
qed

lemma middle_step:
  assumes "middle_frame (updFlag s) d" "uploading f0 img s" "length img + length d \<le> 0x30000" "upload_ready idx s0 s" "dev e = nor_dev" "malloc_ok e"
  shows "\<exists>s'. http_engine e junk idx 0 (of_nat (length d)) (received d s) = Some s' \<and>
    uploading f0 (img @ d) s' \<and> updFlag s' = updFlag s + 1 \<and> upload_ready idx s0 s'"
proof -
  let ?n = "of_nat (length d) :: u32" and ?s = "received d s"
  have l: "later_frame (updFlag s) d" using assms(1) by (simp add: middle_frame_def)
  then have fr: "frame_size d" "100 \<le> length d" "updFlag s \<noteq> 0" by (simp_all add: later_frame_def)
  note n = frame_len [OF fr(1)]
  obtain r where r: "Rec_Data ?s = d @ NUL # r" using frame_text [OF fr(1)] by blast
  have j: "seek ''DEADBEEF'' (Rec_Data ?s) (0 + unat ?n - 100) 100 = Some 100"
    unfolding r n using assms(1) fr(2) by (intro seek_first [OF cstring_words(2)]) (auto simp: middle_frame_def)
  obtain f' where f': "flash_buf e 0 ?n (NVM_FW_BAK_OFFSET + unat (firmwareSize ?s)) ?s = Some (?s\<lparr>flash := f'\<rparr>)"
      "uploading f0 (img @ d) (?s\<lparr>flash := f', firmwareSize := firmwareSize ?s + ?n\<rparr>)"
    using store_piece [of f0 img ?s e d "NUL # r" ?n] assms(2,3,5,6) r n by auto
  obtain t where t: "http_update e idx 0 ?n (updFlag s) ?s = Some (1, printf t (?s\<lparr>flash := f', firmwareSize := firmwareSize ?s + ?n\<rparr>))"
    using update_middle [OF later_start [OF l _ r] j f'(1), of f0 img idx] assms(2) by auto
  show ?thesis
    by (rule step_goes_on [OF fr(1,3) assms(4) t f'(2)]) (use assms(4) in simp_all)
qed

text \<open>What the flash holds after the upload of an image: the image, the boot parameters that ask for it, and all else as before.\<close>

definition uploaded :: "nor \<Rightarrow> string \<Rightarrow> nor \<Rightarrow> bool" where
  "uploaded f0 img f \<longleftrightarrow> ReadFlash nor_dev f (length img) 0x34000 = to_bytes img \<and>
     ReadFlash nor_dev f 16 0x33000 = le32 0x34000 @ le16 2 @ le16 1 @ drop 8 (ReadFlash nor_dev f0 16 0x33000) \<and>
     (\<forall>b n. b + n \<le> 0x33000 \<or> 0x33010 \<le> b \<and> b + n \<le> 0x34000 \<or> 0x34000 + length img \<le> b \<longrightarrow>
        ReadFlash nor_dev f n b = ReadFlash nor_dev f0 n b)"

lemma boot_param_written:
  assumes "uploading f0 img s" "dev e = nor_dev" "uploading f0 img1 s1"
  shows "\<exists>f. WriteFlash nor_dev True (boot_param e s1) 0x33000 (flash s) = Some f \<and> uploaded f0 img f"
proof -
  let ?b = "boot_param e s1"
  have b: "?b = le32 0x34000 @ le16 2 @ le16 1 @ drop 8 (ReadFlash nor_dev f0 16 0x33000)"
    using assms(2,3) by (simp add: boot_param_def uploading_def NVM_FW_BAK_OFFSET_def ReadFlash_def [symmetric])
  have l: "length ?b = 16" unfolding b by (simp add: ReadFlash_def nor.read)
  obtain f where f: "WriteFlash nor_dev True ?b 0x33000 (flash s) = Some f" "ReadFlash nor_dev f 16 0x33000 = ?b"
      "\<forall>a n. a + n \<le> 0x33000 \<or> 0x33000 + 16 \<le> a \<longrightarrow> ReadFlash nor_dev f n a = ReadFlash nor_dev (flash s) n a"
    using nor.write_read [of "0x33000" ?b "flash s"] unfolding l by auto
  have o: "ReadFlash nor_dev (flash s) n a = ReadFlash nor_dev f0 n a" if "a + n \<le> 0x34000 \<or> 0x34000 + length img \<le> a" for a n
    using assms(1) that by (auto simp: uploading_def NVM_FW_BAK_OFFSET_def)
  have "ReadFlash nor_dev f n a = ReadFlash nor_dev f0 n a" if "a + n \<le> 0x33000 \<or> 0x33010 \<le> a \<and> a + n \<le> 0x34000 \<or> 0x34000 + length img \<le> a" for a n
    using f(3) [rule_format, of a n] o [of a n] that by auto
  moreover have "ReadFlash nor_dev f (length img) 0x34000 = to_bytes img"
    using f(3) [rule_format, of "0x34000" "length img"] assms(1) by (simp add: uploading_def NVM_FW_BAK_OFFSET_def)
  ultimately show ?thesis using f(1,2) b by (intro exI [of _ f]) (simp add: uploaded_def)
qed

text \<open>The login page is not touched.\<close>

lemma uploaded_page:
  assumes "uploaded (flash s) img f" "length img \<le> 0x30000" "dev e = nor_dev" "flash s' = f"
  shows "page_text e 1 s' = page_text e 1 s"
proof -
  have "QSpiFlashRead nor_dev f a n = QSpiFlashRead nor_dev (flash s) a n" if "0x64000 \<le> a" for a n
  proof -
    have "ReadFlash nor_dev f n a = ReadFlash nor_dev (flash s) n a" using assms(1,2) that by (simp add: uploaded_def)
    then show ?thesis by (simp add: ReadFlash_def)
  qed
  then show ?thesis using assms(3,4) by (simp add: page_text_def get_web_html_len_def page_addr_def Let_def)
qed

lemma login_ready:
  assumes "page_ready e s 1 t" "page_text e 1 s' = page_text e 1 s" "html_buf s' \<noteq> None" "length (SendData s') = SEND_BUFFER_SIZE"
  shows "page_ready e s' 1 t"
  using assms by (simp add: page_ready_def filled_def fillable_def served_def)

lemma flash_buf_sign:
  assumes "flash_buf e p n a s = Some (s\<lparr>flash := f\<rparr>)"
  shows "flash_buf e p n a (s\<lparr>fmwStartSign := z\<rparr>) = Some (s\<lparr>fmwStartSign := z, flash := f\<rparr>)"
proof -
  obtain f1 where "WriteFlash (dev e) (malloc_ok e) (to_bytes (take (unat n) (drop p (Rec_Data s)))) a (flash s) = Some f1"
      "s\<lparr>flash := f1\<rparr> = s\<lparr>flash := f\<rparr>" "p + unat n \<le> length (Rec_Data s)"
    using assms by (auto simp: flash_buf_def split: if_splits)
  moreover from this(2) have "f1 = f" by (drule_tac f = flash in arg_cong) simp
  ultimately show ?thesis by (simp add: flash_buf_def)
qed

definition login_sent :: "('f, 'a) web_scheme \<Rightarrow> nat \<Rightarrow> string \<Rightarrow> int \<times> string" where
  "login_sent s idx t = (h_sock_fd (http_table s ! idx), with_length HTTP_HTML_HEADER (of_nat (length t)) @ t)"

lemma login_reply:
  assumes "page_ready e s 1 t" "upload_ready idx s0 s"
  shows "\<exists>s'. http_sendfile e idx (Some ''/login.html'') 0 s = Some (0, s') \<and> flash s' = flash s \<and> http_sent s' = http_sent s0 @ [login_sent s0 idx t]"
proof -
  obtain s' where "http_sendfile e idx (Some ''/login.html'') 0 s = Some (0, s')" "web_frame idx s s'" "http_sent s' = http_sent s @ [page_sent e s idx 1 t]"
    using page_reply [OF assms(1) page_names(1)] assms(2) by (auto simp: upload_ready_def)
  moreover have "page_sent e s idx 1 t = login_sent s0 idx t"
    using assms(2) by (simp add: page_sent_def login_sent_def served_def filled_def upload_ready_def)
  ultimately show ?thesis using web_frame_simps(3) [of idx s s'] assms(2) by (simp add: upload_ready_def)
qed

lemma last_step:
  assumes "last_frame (updFlag s) x y" "uploading (flash s0) img s" "length img + length x \<le> 0x30000" "upload_ready idx s0 s"
    and "dev e = nor_dev" "malloc_ok e" "page_ready e s0 1 t"
  shows "\<exists>s'. http_engine e junk idx 0 (of_nat (length (x @ y))) (received (x @ y) s) = Some s' \<and> chip_reset s' \<and>
    uploaded (flash s0) (img @ x) (flash s') \<and> http_sent s' = http_sent s0 @ [login_sent s0 idx t]"
proof -
  let ?d = "x @ y" and ?n = "of_nat (length (x @ y)) :: u32" and ?s = "received (x @ y) s"
  have l: "later_frame (updFlag s) ?d" and y: "length y \<le> 100" "y \<noteq> []" using assms(1) by (auto simp: last_frame_def matches_def)
  then have fr: "frame_size ?d" "100 \<le> length ?d" "updFlag s \<noteq> 0" by (simp_all add: later_frame_def)
  note n = frame_len [OF fr(1)]
  obtain r where r: "Rec_Data ?s = ?d @ NUL # r" using frame_text [OF fr(1)] by blast
  define j where "j = 100 - length y"
  have j: "length ?d - 100 + j = length x" "j < 100" using y fr(2) by (cases y; simp add: j_def)+
  have sk: "seek ''DEADBEEF'' (Rec_Data ?s) (0 + unat ?n - 100) 100 = Some j"
    unfolding r n using assms(1) fr(2) j by (intro seek_first [OF cstring_words(2)]) (auto simp: last_frame_def has_word_def)
  have m: "unat (?n - 100 + of_nat j) = length x"
  proof -
    have "j + length y = 100" using y by (simp add: j_def)
    then have "of_nat j + of_nat (length y) = (100 :: u32)" by (metis of_nat_add of_nat_numeral)
    then have eq: "?n - 100 + of_nat j = of_nat (length x)" by (simp add: algebra_simps)
    have "length x < 3120" using fr(1) by (simp add: frame_size_def RECV_BUFFER_SIZE_def)
    then show ?thesis unfolding eq by (simp add: unat_of_nat)
  qed
  obtain f' where f': "flash_buf e 0 (?n - 100 + of_nat j) (NVM_FW_BAK_OFFSET + unat (firmwareSize ?s)) ?s = Some (?s\<lparr>flash := f'\<rparr>)"
      "uploading (flash s0) (img @ x) (?s\<lparr>flash := f', firmwareSize := firmwareSize ?s + (?n - 100 + of_nat j)\<rparr>)"
    using store_piece [of "flash s0" img ?s e x "y @ NUL # r" "?n - 100 + of_nat j"] assms(2,3,5,6) r m by auto
  have u: "uploading (flash s0) img ?s" using assms(2) by simp
  obtain f where f: "WriteFlash nor_dev True (boot_param e ?s) 0x33000 f' = Some f" "uploaded (flash s0) (img @ x) f"
    using boot_param_written [OF f'(2) assms(5) u] by auto
  have "\<exists>s2. http_sendfile e idx (Some ''/login.html'') 0 (printf t' (?s\<lparr>fmwStartSign := 0, flash := f', flash := f, firmwareSize := m\<rparr>)) = Some (0, s2) \<and>
      flash s2 = f \<and> http_sent s2 = http_sent s0 @ [login_sent s0 idx t]" for t' m
  proof -
    let ?s3 = "printf t' (?s\<lparr>fmwStartSign := 0, flash := f', flash := f, firmwareSize := m\<rparr>)"
    have "page_text e 1 ?s3 = page_text e 1 s0" by (rule uploaded_page [OF f(2) _ assms(5)]) (use assms(3) in \<open>simp_all add: printf_def\<close>)
    then have "page_ready e ?s3 1 t"
      by (rule login_ready [OF assms(7)]) (use upload_readyD(3) [OF assms(4)] in \<open>simp_all add: printf_def received_def\<close>)
    moreover have "upload_ready idx s0 ?s3" using assms(4) by simp
    ultimately show ?thesis using login_reply by (fastforce simp: printf_def)
  qed
  then obtain t' s2 where t': "http_update e idx 0 ?n (updFlag s) ?s = Some (0, printf t' s2)" "flash s2 = f" "http_sent s2 = http_sent s0 @ [login_sent s0 idx t]"
    using update_end [OF later_start [OF l u r] sk j(2) flash_buf_sign [OF f'(1)], of f idx "\<lambda>s2. flash s2 = f \<and> http_sent s2 = http_sent s0 @ [login_sent s0 idx t]"]
      f(1) assms(5,6) by auto
  then show ?thesis using engine_update [OF fr(1,3), of idx e junk] upload_readyD [OF assms(4)] f(2) by (simp add: printf_def)
qed

text \<open>The frames of a connection, one after the other.\<close>

primrec uploads :: "'f env \<Rightarrow> (nat \<Rightarrow> u32) \<Rightarrow> nat \<Rightarrow> string list \<Rightarrow> ('f, 'a) web_scheme \<Rightarrow> ('f, 'a) web_scheme option" where
  "uploads e junk idx [] s = Some s"
| "uploads e junk idx (d # ds) s = do { s1 \<leftarrow> http_engine e junk idx 0 (of_nat (length d)) (received d s); uploads e junk idx ds s1 }"

lemma uploads_append: "uploads e junk idx (ds @ ds') s = Option.bind (uploads e junk idx ds s) (uploads e junk idx ds')"
  by (induction ds arbitrary: s) (simp_all add: bind_assoc)

fun middle_frames :: "u32 \<Rightarrow> string list \<Rightarrow> bool" where
  "middle_frames k [] = True"
| "middle_frames k (d # ds) = (middle_frame k d \<and> middle_frames (k + 1) ds)"

lemma middle_steps:
  assumes "middle_frames (updFlag s) ds" "uploading f0 img s" "length (img @ concat ds) \<le> 0x30000" "upload_ready idx s0 s" "dev e = nor_dev" "malloc_ok e"
  shows "\<exists>s'. uploads e junk idx ds s = Some s' \<and> uploading f0 (img @ concat ds) s' \<and>
    updFlag s' = updFlag s + of_nat (length ds) \<and> upload_ready idx s0 s'"
  using assms(1-4)
proof (induction ds arbitrary: s img)
  case (Cons d ds)
  obtain s1 where s1: "http_engine e junk idx 0 (of_nat (length d)) (received d s) = Some s1" "uploading f0 (img @ d) s1"
      "updFlag s1 = updFlag s + 1" "upload_ready idx s0 s1"
    using middle_step [of s d f0 img idx s0 e junk] Cons.prems assms(5,6) by auto
  have "\<exists>s'. uploads e junk idx ds s1 = Some s' \<and> uploading f0 ((img @ d) @ concat ds) s' \<and>
      updFlag s' = updFlag s1 + of_nat (length ds) \<and> upload_ready idx s0 s'"
    using Cons.prems s1(3) by (intro Cons.IH [OF _ s1(2) _ s1(4)]) simp_all
  then show ?case using s1(1,3) by (auto simp: algebra_simps)
qed simp

text \<open>The request that announces an upload.\<close>

lemma request_update:
  assumes "length (''POST /update'' @ h) < RECV_BUFFER_SIZE" "upload_ready idx s0 s"
  defines "d \<equiv> ''POST /update'' @ h"
  shows "http_engine e junk idx 0 (of_nat (length d)) (received d s) = Some ((received d s)\<lparr>updFlag := 1\<rparr>)"
proof -
  obtain q where q: "Rec_Data (received d s) = ''POST '' @ (''/update'' @ h) @ NUL # q"
    using received_text [of d s] assms(1) by (auto simp: d_def)
  have "length d < 3120" "length d > 0" using assms(1) by (simp_all add: d_def RECV_BUFFER_SIZE_def)
  then have "unat (of_nat (length d) :: u32) \<noteq> 0" by (simp add: unat_of_nat)
  then have nz: "of_nat (length d) \<noteq> (0 :: u32)" by auto
  have "http_engine e junk idx 0 (of_nat (length d)) (received d s) = http_post e junk idx 5 (of_nat (length d) - 5) ((received d s)\<lparr>updFlag := 0\<rparr>)"
    using engine_post [OF q nz] upload_readyD(1,2) [OF assms(2)] by simp
  also have "\<dots> = Some ((received d s)\<lparr>updFlag := 1\<rparr>)"
    unfolding http_post_def using post_name [of "''/update''" h q] q by (simp del: post_action.simps add: post_names_def)
  finally show ?thesis .
qed

text \<open>C17: a firmware image uploaded through the web page: the request for the update, a first frame with the start mark, any number of
  frames after it and a last one with the end mark. Every frame is handled without a bad access; then the flash holds the
  image, from 256 bytes behind the start mark to the end mark, at the address of the backup firmware, and the boot parameters
  that select it, with every other address unchanged, the login page has been sent and the chip is reset.\<close>

theorem firmware_uploaded:
  assumes "length (''POST /update'' @ h) < RECV_BUFFER_SIZE" "first_frame a b" "middle_frames 2 ds" "last_frame (of_nat (length ds) + 2) x y"
    and "length (drop 256 b @ concat ds @ x) \<le> 0x30000" "idx < 5" "length (http_table s) = 5" "h_status (http_table s ! idx) = HTTP_CLOSED"
    and "dev e = nor_dev" "malloc_ok e" "page_ready e s 1 t"
  shows "\<exists>s'. uploads e junk idx ([''POST /update'' @ h, a @ b] @ ds @ [x @ y]) s = Some s' \<and> chip_reset s' \<and>
    uploaded (flash s) (drop 256 b @ concat ds @ x) (flash s') \<and> http_sent s' = http_sent s @ [login_sent s idx t]"
proof -
  let ?d = "''POST /update'' @ h"
  define s1 where "s1 = (received ?d s)\<lparr>updFlag := 1\<rparr>"
  have r: "upload_ready idx s s" using assms(6-8,11) by (simp add: upload_ready_def page_ready_def)
  then have s1: "uploads e junk idx [?d] s = Some s1" "upload_ready idx s s1" "flash s1 = flash s" "updFlag s1 = 1"
    using request_update [OF assms(1) r, of e junk] by (simp_all del: append_Cons append_Nil add: s1_def)
  obtain s2 where s2: "uploads e junk idx [a @ b] s1 = Some s2" "uploading (flash s) (drop 256 b) s2" "updFlag s2 = 2" "upload_ready idx s s2"
    using first_step [OF assms(2) s1(4,2) assms(9,10), of junk] s1(3,4) by auto
  obtain s3 where s3: "uploads e junk idx ds s2 = Some s3" "uploading (flash s) (drop 256 b @ concat ds) s3" "updFlag s3 = of_nat (length ds) + 2" "upload_ready idx s s3"
    using middle_steps [of s2 ds "flash s" "drop 256 b" idx s e junk] assms(3,5,9,10) s2 by (auto simp: algebra_simps)
  obtain s' where "uploads e junk idx [x @ y] s3 = Some s'" "chip_reset s'" "uploaded (flash s) (drop 256 b @ concat ds @ x) (flash s')"
      "http_sent s' = http_sent s @ [login_sent s idx t]"
    using last_step [of s3 x y s "drop 256 b @ concat ds" idx e t junk] assms(4,5,9-11) s3 by auto
  moreover have "uploads e junk idx ([?d, a @ b] @ ds @ [x @ y]) s = uploads e junk idx [x @ y] s3"
    using s1(1) s2(1) s3(1) uploads_append [of e junk idx "[?d]" "[a @ b] @ ds @ [x @ y]" s] uploads_append [of e junk idx "[a @ b]" "ds @ [x @ y]" s1]
      uploads_append [of e junk idx ds "[x @ y]" s2] by (simp del: uploads.simps)
  ultimately show ?thesis by (intro exI [of _ s']) (simp del: uploads.simps)
qed

lemma filler_word:
  assumes "tolower c \<noteq> tolower k"
  shows "\<not> matches (k # w) (replicate n c)"
  using assms by (cases n) (simp_all add: matches_def)

lemma filler_front: "\<not> has_word (k # w) (replicate n c @ y) i" if "i < n" "tolower c \<noteq> tolower k"
proof -
  have "drop i (replicate n c @ y) = c # replicate (n - i - 1) c @ y"
    using that(1) by (cases "n - i") simp_all
  then show ?thesis using that(2) by (simp add: has_word_def matches_def)
qed

lemma filler_append: "tolower c \<noteq> tolower k \<Longrightarrow> 0 < n \<Longrightarrow> \<not> matches (k # w) (replicate n c @ y)"
  by (cases n) simp_all

lemma mark_letters:
  "tolower CHR ''N'' \<noteq> tolower CHR ''G''" "tolower CHR ''N'' \<noteq> tolower CHR ''P''" "tolower CHR ''y'' \<noteq> tolower CHR ''G''"
  "tolower CHR ''y'' \<noteq> tolower CHR ''P''" "tolower CHR ''y'' \<noteq> tolower CHR ''N''" "tolower CHR ''y'' \<noteq> tolower CHR ''D''"
  "tolower CHR ''z'' \<noteq> tolower CHR ''G''" "tolower CHR ''z'' \<noteq> tolower CHR ''P''" "tolower CHR ''z'' \<noteq> tolower CHR ''D''"
  by code_simp+

theorem firmware_uploaded_witness:
  "\<exists>s'. uploads env0 (\<lambda>_. 0) 0 ([''POST /update'' @ [], [] @ ''Nu_link'' @ replicate 300 CHR ''x''] @ [replicate 120 CHR ''y''] @ [replicate 150 CHR ''z'' @ ''DEADBEEF''])
      (web0 two_pages) = Some s' \<and> chip_reset s' \<and>
    uploaded two_pages (replicate 51 CHR ''x'' @ replicate 120 CHR ''y'' @ replicate 150 CHR ''z'') (flash s')"
proof -
  have f: "first_frame [] (''Nu_link'' @ replicate 300 CHR ''x'')"
    by (simp add: first_frame_def frame_size_def RECV_BUFFER_SIZE_def mark_letters)
  have m: "middle_frames 2 [replicate 120 CHR ''y'']"
    using filler_front [of _ 120 "CHR ''y''" "CHR ''N''" "''u_link''" "[]"] filler_front [of _ 120 "CHR ''y''" "CHR ''D''" "''EADBEEF''" "[]"]
    by (simp add: middle_frame_def later_frame_def frame_size_def RECV_BUFFER_SIZE_def filler_word mark_letters)
  have l: "last_frame (of_nat (length [replicate 120 CHR ''y'']) + 2) (replicate 150 CHR ''z'') ''DEADBEEF''"
    using filler_front [of _ 150 "CHR ''z''" "CHR ''D''" "''EADBEEF''" "''DEADBEEF''"] filler_append [of "CHR ''z''" _ 150]
    by (simp add: last_frame_def later_frame_def frame_size_def RECV_BUFFER_SIZE_def mark_letters)
  have d: "drop 256 (''Nu_link'' @ replicate 300 CHR ''x'') = replicate 51 CHR ''x''" by simp
  have c: "h_status (http_table (web0 two_pages) ! 0) = HTTP_CLOSED" by (simp add: web0_def web.defs snet.defs HTTP_CLOSED_def)
  have "page_ready env0 (web0 two_pages) 1 login_page" by (rule two_pages_ready(1))
  from firmware_uploaded [OF _ f m l _ _ _ _ _ _ this, where h = "[]" and idx = 0 and junk = "\<lambda>_. 0"] show ?thesis
    unfolding d by (simp add: RECV_BUFFER_SIZE_def c) blast
qed

end
