(* ===== verification/Os_Core.thy ===== *)
theory Os_Core
  imports SN_Prelude "HOL-Library.Monad_Syntax"
begin

text \<open>
  The kernel (\<^verbatim>\<open>uCOS-II/os_core.c\<close>, \<^verbatim>\<open>os_time.c\<close>, \<^verbatim>\<open>os_task.c\<close>): the ready and wait lists as bitmaps and the set of
  priorities they stand for, the variables and tasks of the kernel, the scheduler, the clock tick, and the operations on
  tasks. The services for tasks to wait on each other are in \<^verbatim>\<open>Os_Sem\<close>.
\<close>

section \<open>Priority bitmaps\<close>

text \<open>The lowest set bit of a byte.\<close>

definition OSUnMapTbl :: "nat list" where
  "OSUnMapTbl = [
    0, 0, 1, 0, 2, 0, 1, 0, 3, 0, 1, 0, 2, 0, 1, 0,
    4, 0, 1, 0, 2, 0, 1, 0, 3, 0, 1, 0, 2, 0, 1, 0,
    5, 0, 1, 0, 2, 0, 1, 0, 3, 0, 1, 0, 2, 0, 1, 0,
    4, 0, 1, 0, 2, 0, 1, 0, 3, 0, 1, 0, 2, 0, 1, 0,
    6, 0, 1, 0, 2, 0, 1, 0, 3, 0, 1, 0, 2, 0, 1, 0,
    4, 0, 1, 0, 2, 0, 1, 0, 3, 0, 1, 0, 2, 0, 1, 0,
    5, 0, 1, 0, 2, 0, 1, 0, 3, 0, 1, 0, 2, 0, 1, 0,
    4, 0, 1, 0, 2, 0, 1, 0, 3, 0, 1, 0, 2, 0, 1, 0,
    7, 0, 1, 0, 2, 0, 1, 0, 3, 0, 1, 0, 2, 0, 1, 0,
    4, 0, 1, 0, 2, 0, 1, 0, 3, 0, 1, 0, 2, 0, 1, 0,
    5, 0, 1, 0, 2, 0, 1, 0, 3, 0, 1, 0, 2, 0, 1, 0,
    4, 0, 1, 0, 2, 0, 1, 0, 3, 0, 1, 0, 2, 0, 1, 0,
    6, 0, 1, 0, 2, 0, 1, 0, 3, 0, 1, 0, 2, 0, 1, 0,
    4, 0, 1, 0, 2, 0, 1, 0, 3, 0, 1, 0, 2, 0, 1, 0,
    5, 0, 1, 0, 2, 0, 1, 0, 3, 0, 1, 0, 2, 0, 1, 0,
    4, 0, 1, 0, 2, 0, 1, 0, 3, 0, 1, 0, 2, 0, 1, 0]"

primrec unmap_ok :: "nat \<Rightarrow> nat list \<Rightarrow> bool" where
  "unmap_ok i [] \<longleftrightarrow> True"
| "unmap_ok i (b # bs) \<longleftrightarrow> b < 8 \<and> odd (i div 2 ^ b) \<and> i mod 2 ^ b = 0 \<and> unmap_ok (i + 1) bs"

lemma unmap_table: "unmap_ok 1 (tl OSUnMapTbl)"
  unfolding OSUnMapTbl_def by simp

lemma table_ok_nth: "unmap_ok i bs \<Longrightarrow> k < length bs \<Longrightarrow> bs ! k < 8 \<and> odd ((i + k) div 2 ^ (bs ! k)) \<and> (i + k) mod 2 ^ (bs ! k) = 0"
proof (induction bs arbitrary: i k)
  case (Cons b bs)
  show ?case
  proof (cases k)
    case (Suc j)
    then have "unmap_ok (i + 1) bs" "j < length bs" using Cons.prems by simp_all
    from Cons.IH [OF this] show ?thesis using Suc by simp
  qed (use Cons.prems in simp)
qed simp

lemma bit_u8_iff: "bit (w :: u8) n \<longleftrightarrow> odd (unat w div 2 ^ n)"
proof -
  have "bit w n = bit (unat w) n" by (auto simp: bit_unsigned_iff dest: bit_imp_le_length)
  then show ?thesis by (simp add: bit_iff_odd)
qed

lemma unmap_lowest:
  assumes "w \<noteq> (0 :: u8)"
  shows "OSUnMapTbl ! unat w < 8" "bit w (OSUnMapTbl ! unat w)" "i < OSUnMapTbl ! unat w \<Longrightarrow> \<not> bit w i"
proof -
  define b where "b = OSUnMapTbl ! unat w"
  have "0 < unat w" "unat w < 256" using assms unsigned_less [of w] by (simp_all add: unat_gt_0)
  moreover have "length (tl OSUnMapTbl) = 255" by (simp add: OSUnMapTbl_def)
  moreover have "tl OSUnMapTbl ! (unat w - 1) = b"
    using calculation by (simp add: b_def nth_tl)
  ultimately have t: "b < 8" "odd (unat w div 2 ^ b)" "unat w mod 2 ^ b = 0"
    using table_ok_nth [OF unmap_table, of "unat w - 1"] by simp_all
  then show "OSUnMapTbl ! unat w < 8" "bit w (OSUnMapTbl ! unat w)" by (simp_all add: bit_u8_iff flip: b_def)
  assume "i < OSUnMapTbl ! unat w"
  then obtain k where "b = Suc (i + k)" by (auto simp: b_def dest: less_imp_Suc_add)
  moreover obtain q where "unat w = 2 ^ b * q" using t(3) by (metis mod_0_imp_dvd dvdE)
  ultimately have "unat w = 2 ^ i * (2 * (2 ^ k * q))" by (simp add: power_add)
  then have "unat w div 2 ^ i = 2 * (2 ^ k * q)" by simp
  then show "\<not> bit w i" by (simp add: bit_u8_iff)
qed

text \<open>A ready or wait list: a bit for every priority in eight bytes, and a byte with a bit for every byte that is not zero. The
  priorities in it are what it stands for.\<close>

definition prios :: "u8 list \<Rightarrow> nat set" where
  "prios tbl = {p. p < 64 \<and> bit (tbl ! (p div 8)) (p mod 8)}"

definition list_ok :: "u8 \<Rightarrow> u8 list \<Rightarrow> bool" where
  "list_ok grp tbl \<longleftrightarrow> length tbl = 8 \<and> (\<forall>y < 8. bit grp y \<longleftrightarrow> tbl ! y \<noteq> 0)"

text \<open>The highest priority in a list, as \<^verbatim>\<open>OS_SchedNew\<close> and \<^verbatim>\<open>OS_EventTaskRdy\<close> find it; entering and removing a task.\<close>

definition highest :: "u8 \<Rightarrow> u8 list \<Rightarrow> nat" where
  "highest grp tbl = (let y = OSUnMapTbl ! unat grp in 8 * y + OSUnMapTbl ! unat (tbl ! y))"

definition list_add :: "u8 \<Rightarrow> u8 \<Rightarrow> nat \<Rightarrow> u8 \<times> u8 list \<Rightarrow> u8 \<times> u8 list" where
  "list_add bitx bity y l = (case l of (grp, tbl) \<Rightarrow> (grp OR bity, tbl[y := (tbl ! y) OR bitx]))"

definition list_remove :: "u8 \<Rightarrow> u8 \<Rightarrow> nat \<Rightarrow> u8 \<times> u8 list \<Rightarrow> u8 \<times> u8 list" where
  "list_remove bitx bity y l =
     (case l of (grp, tbl) \<Rightarrow>
        let tbl1 = tbl[y := (tbl ! y) AND NOT bitx]
        in (if tbl1 ! y = 0 then grp AND NOT bity else grp, tbl1))"

lemma byte_zero_iff: "(w :: u8) = 0 \<longleftrightarrow> (\<forall>i < 8. \<not> bit w i)"
  by (auto simp: bit_eq_iff dest: bit_imp_le_length)

lemma prios_less: "p \<in> prios tbl \<Longrightarrow> p < 64" "finite (prios tbl)"
proof -
  show "p \<in> prios tbl \<Longrightarrow> p < 64" by (simp add: prios_def)
  show "finite (prios tbl)" by (rule finite_subset [of _ "{..<64}"]) (auto simp: prios_def)
qed

lemma prios_byte:
  assumes "y < 8" shows "tbl ! y \<noteq> 0 \<longleftrightarrow> (\<exists>p \<in> prios tbl. p div 8 = y)"
proof
  assume "tbl ! y \<noteq> 0"
  then obtain i where "i < 8" "bit (tbl ! y) i" by (auto simp: byte_zero_iff)
  then have "8 * y + i \<in> prios tbl" "(8 * y + i) div 8 = y" using assms by (simp_all add: prios_def)
  then show "\<exists>p \<in> prios tbl. p div 8 = y" by blast
next
  assume "\<exists>p \<in> prios tbl. p div 8 = y"
  then show "tbl ! y \<noteq> 0" by (auto simp: prios_def)
qed

lemma list_ok_empty:
  assumes "list_ok grp tbl" shows "grp = 0 \<longleftrightarrow> prios tbl = {}"
proof -
  have "grp = 0 \<longleftrightarrow> (\<forall>y < 8. tbl ! y = 0)" using assms by (simp add: byte_zero_iff [of grp] list_ok_def)
  also have "\<dots> \<longleftrightarrow> prios tbl = {}"
  proof
    assume z: "\<forall>y < 8. tbl ! y = 0"
    have "p \<notin> prios tbl" for p using z by (cases "p < 64") (simp_all add: prios_def)
    then show "prios tbl = {}" by blast
  qed (use prios_byte in auto)
  finally show ?thesis .
qed

lemma highest_Min:
  assumes "list_ok grp tbl" "grp \<noteq> 0"
  shows "highest grp tbl = Min (prios tbl)" "highest grp tbl \<in> prios tbl" "highest grp tbl div 8 = OSUnMapTbl ! unat grp"
proof -
  define y where "y = OSUnMapTbl ! unat grp"
  have y: "y < 8" "bit grp y" "\<And>i. i < y \<Longrightarrow> \<not> bit grp i" using unmap_lowest [OF assms(2)] by (simp_all add: y_def)
  then have nz: "tbl ! y \<noteq> 0" using assms(1) by (simp add: list_ok_def)
  define x where "x = OSUnMapTbl ! unat (tbl ! y)"
  have x: "x < 8" "bit (tbl ! y) x" "\<And>i. i < x \<Longrightarrow> \<not> bit (tbl ! y) i" using unmap_lowest [OF nz] by (simp_all add: x_def)
  have h: "highest grp tbl = 8 * y + x" by (simp add: highest_def y_def x_def Let_def)
  show m: "highest grp tbl \<in> prios tbl" using h x y by (simp add: prios_def)
  show "highest grp tbl div 8 = OSUnMapTbl ! unat grp" using h x by (simp add: y_def)
  have "8 * y + x \<le> p" if "p \<in> prios tbl" for p
  proof -
    have p: "p div 8 < 8" "bit (tbl ! (p div 8)) (p mod 8)" using that by (auto simp: prios_def)
    then have "tbl ! (p div 8) \<noteq> 0" by auto
    then have "bit grp (p div 8)" using assms(1) p(1) by (simp add: list_ok_def)
    then have "y \<le> p div 8" using y(3) by (meson not_le)
    moreover have "x \<le> p mod 8" if "p div 8 = y" using x(3) p(2) that by (meson not_le)
    moreover have "p = 8 * (p div 8) + p mod 8" by simp
    ultimately show ?thesis using x(1) by (cases "p div 8 = y") linarith+
  qed
  then show "highest grp tbl = Min (prios tbl)" using m h prios_less(2) by (intro Min_eqI [symmetric]) auto
qed

definition bit8 :: "nat \<Rightarrow> u8" where "bit8 n = push_bit n 1"

lemma bit_bit8 [simp]: "bit (bit8 n) i \<longleftrightarrow> i = n \<and> n < 8"
  by (auto simp: bit8_def bit_push_bit_iff bit_1_iff simp del: push_bit_of_1 dest: bit_imp_le_length)

text \<open>Entering and removing the task of priority \<open>p\<close>.\<close>

abbreviation enter :: "nat \<Rightarrow> u8 \<times> u8 list \<Rightarrow> u8 \<times> u8 list" where
  "enter p \<equiv> list_add (bit8 (p mod 8)) (bit8 (p div 8)) (p div 8)"

abbreviation leave :: "nat \<Rightarrow> u8 \<times> u8 list \<Rightarrow> u8 \<times> u8 list" where
  "leave p \<equiv> list_remove (bit8 (p mod 8)) (bit8 (p div 8)) (p div 8)"

lemma enter_prios:
  assumes "list_ok g t" "p < 64" "enter p (g, t) = (g', t')"
  shows "list_ok g' t'" "prios t' = insert p (prios t)"
proof -
  have l: "length t = 8" "p div 8 < 8" using assms(1,2) by (simp_all add: list_ok_def)
  have r: "g' = g OR bit8 (p div 8)" "t' = t[p div 8 := t ! (p div 8) OR bit8 (p mod 8)]" using assms(3) by (simp_all add: list_add_def)
  have nz: "t ! (p div 8) OR bit8 (p mod 8) \<noteq> 0"
    unfolding byte_zero_iff by (auto simp: bit_or_iff intro!: exI [of _ "p mod 8"])
  show "list_ok g' t'" using assms(1) l nz by (auto simp: r list_ok_def nth_list_update bit_or_iff)
  have "q \<in> prios t' \<longleftrightarrow> q \<in> insert p (prios t)" for q
  proof (cases "q div 8 = p div 8")
    case True
    have "q mod 8 = p mod 8 \<longleftrightarrow> q = p" using True by (metis div_mult_mod_eq)
    then show ?thesis using True l assms(2) by (auto simp: r prios_def bit_or_iff)
  next
    case False
    then show ?thesis using l by (auto simp: r prios_def)
  qed
  then show "prios t' = insert p (prios t)" by blast
qed

lemma leave_prios:
  assumes "list_ok g t" "p < 64" "leave p (g, t) = (g', t')"
  shows "list_ok g' t'" "prios t' = prios t - {p}"
proof -
  have l: "length t = 8" "p div 8 < 8" using assms(1,2) by (simp_all add: list_ok_def)
  define b where "b = t ! (p div 8) AND NOT (bit8 (p mod 8))"
  have r: "g' = (if b = 0 then g AND NOT (bit8 (p div 8)) else g)" "t' = t[p div 8 := b]"
    using assms(3) l by (auto simp: list_remove_def Let_def b_def)
  have "bit g (p div 8)" if "b \<noteq> 0"
  proof -
    have "t ! (p div 8) \<noteq> 0" using that by (auto simp: b_def)
    then show ?thesis using assms(1) l by (simp add: list_ok_def)
  qed
  then show "list_ok g' t'" using assms(1) l by (auto simp: r list_ok_def nth_list_update bit_and_iff bit_not_iff dest: bit_imp_le_length)
  have "q \<in> prios t' \<longleftrightarrow> q \<in> prios t - {p}" for q
  proof (cases "q div 8 = p div 8")
    case True
    have "q mod 8 = p mod 8 \<longleftrightarrow> q = p" using True by (metis div_mult_mod_eq)
    then show ?thesis using True l by (auto simp: r prios_def b_def bit_and_iff bit_not_iff dest: bit_imp_le_length)
  next
    case False
    then show ?thesis using l by (auto simp: r prios_def)
  qed
  then show "prios t' = prios t - {p}" by blast
qed

lemma empty_prios: "list_ok 0 (replicate 8 0)" "prios (replicate 8 0) = {}"
  by (auto simp: list_ok_def prios_def)

section \<open>The kernel's state\<close>

definition OS_LOWEST_PRIO :: nat where "OS_LOWEST_PRIO = 63"
definition OS_TASK_IDLE_PRIO :: nat where "OS_TASK_IDLE_PRIO = OS_LOWEST_PRIO"
definition OS_PRIO_SELF :: nat where "OS_PRIO_SELF = 255"

definition OS_STAT_RDY :: u8 where "OS_STAT_RDY = 0"
definition OS_STAT_SEM :: u8 where "OS_STAT_SEM = 1"
definition OS_STAT_MBOX :: u8 where "OS_STAT_MBOX = 2"
definition OS_STAT_Q :: u8 where "OS_STAT_Q = 4"
definition OS_STAT_SUSPEND :: u8 where "OS_STAT_SUSPEND = 8"
definition OS_STAT_MUTEX :: u8 where "OS_STAT_MUTEX = 0x10"
definition OS_STAT_FLAG :: u8 where "OS_STAT_FLAG = 0x20"
definition OS_STAT_PEND_ANY :: u8 where
  "OS_STAT_PEND_ANY = OS_STAT_SEM OR OS_STAT_MBOX OR OS_STAT_Q OR OS_STAT_MUTEX OR OS_STAT_FLAG"

definition OS_STAT_PEND_OK :: u8 where "OS_STAT_PEND_OK = 0"
definition OS_STAT_PEND_TO :: u8 where "OS_STAT_PEND_TO = 1"
definition OS_STAT_PEND_ABORT :: u8 where "OS_STAT_PEND_ABORT = 2"

definition OS_ERR_NONE :: u8 where "OS_ERR_NONE = 0"
definition OS_ERR_PRIO_EXIST :: u8 where "OS_ERR_PRIO_EXIST = 40"
definition OS_ERR_PRIO :: u8 where "OS_ERR_PRIO = 41"
definition OS_ERR_PRIO_INVALID :: u8 where "OS_ERR_PRIO_INVALID = 42"
definition OS_ERR_TASK_CREATE_ISR :: u8 where "OS_ERR_TASK_CREATE_ISR = 60"
definition OS_ERR_TASK_NO_MORE_TCB :: u8 where "OS_ERR_TASK_NO_MORE_TCB = 66"
definition OS_ERR_TASK_NOT_EXIST :: u8 where "OS_ERR_TASK_NOT_EXIST = 67"
definition OS_ERR_TASK_NOT_SUSPENDED :: u8 where "OS_ERR_TASK_NOT_SUSPENDED = 68"
definition OS_ERR_TASK_RESUME_PRIO :: u8 where "OS_ERR_TASK_RESUME_PRIO = 70"
definition OS_ERR_TASK_SUSPEND_PRIO :: u8 where "OS_ERR_TASK_SUSPEND_PRIO = 72"
definition OS_ERR_SCHED_LOCKED :: u8 where "OS_ERR_SCHED_LOCKED = 50"
definition OS_ERR_TIME_NOT_DLY :: u8 where "OS_ERR_TIME_NOT_DLY = 80"
definition OS_ERR_TIME_DLY_ISR :: u8 where "OS_ERR_TIME_DLY_ISR = 85"

text \<open>A task control block. Blocks are named by their entry in \<^verbatim>\<open>OSTCBPrioTbl\<close>, which is their priority; events by their
  index; 0 is the null message.\<close>

record OS_TCB =
  OSTCBPrio :: nat
  OSTCBX :: nat
  OSTCBY :: nat
  OSTCBBitX :: u8
  OSTCBBitY :: u8
  OSTCBStat :: u8
  OSTCBStatPend :: u8
  OSTCBDly :: u32
  OSTCBEventPtr :: "nat option"
  OSTCBEventMultiPtr :: "nat list option"
  OSTCBMsg :: u32
  OSTCBCtxSwCtr :: u32

datatype tcb_ptr = TCB_NULL | OS_TCB_RESERVED | TCB OS_TCB

record OS_EVENT =
  OSEventType :: u8
  OSEventPtr :: u32
  OSEventCnt :: u16
  OSEventGrp :: u8
  OSEventTbl :: "u8 list"

text \<open>The global variables. The chained lists of tasks and free events are lists; of the free control blocks only their number
  matters. \<^verbatim>\<open>OSEvents\<close> is the array \<^verbatim>\<open>OSEventTbl\<close>.\<close>

record os =
  OSRunning :: bool
  OSIntNesting :: u8
  OSLockNesting :: u8
  OSRdyGrp :: u8
  OSRdyTbl :: "u8 list"
  OSPrioCur :: nat
  OSPrioHighRdy :: nat
  OSTCBCur :: nat
  OSTCBHighRdy :: nat
  OSTCBPrioTbl :: "nat \<Rightarrow> tcb_ptr"
  OSTCBList :: "nat list"
  OSTCBFree :: nat
  OSTaskCtr :: u8
  OSTime :: u32
  OSTickStepState :: u8
  OSCtxSwCtr :: u32
  OSEvents :: "OS_EVENT list"
  OSEventFreeList :: "nat list"

text \<open>Reading and writing through a pointer; a null pointer gives no result.\<close>

definition get_tcb :: "nat \<Rightarrow> 'a os_scheme \<Rightarrow> OS_TCB option" where
  "get_tcb p s = (case OSTCBPrioTbl s p of TCB t \<Rightarrow> Some t | _ \<Rightarrow> None)"

definition put_tcb :: "nat \<Rightarrow> OS_TCB \<Rightarrow> 'a os_scheme \<Rightarrow> 'a os_scheme" where
  "put_tcb p t s = s\<lparr>OSTCBPrioTbl := (OSTCBPrioTbl s)(p := TCB t)\<rparr>"

definition get_event :: "nat \<Rightarrow> 'a os_scheme \<Rightarrow> OS_EVENT option" where
  "get_event i s = (if i < length (OSEvents s) then Some (OSEvents s ! i) else None)"

definition put_event :: "nat \<Rightarrow> OS_EVENT \<Rightarrow> 'a os_scheme \<Rightarrow> 'a os_scheme" where
  "put_event i v s = s\<lparr>OSEvents := (OSEvents s)[i := v]\<rparr>"

section \<open>Scheduling\<close>

definition make_ready :: "OS_TCB \<Rightarrow> 'a os_scheme \<Rightarrow> 'a os_scheme" where
  "make_ready t s =
     (case list_add (OSTCBBitX t) (OSTCBBitY t) (OSTCBY t) (OSRdyGrp s, OSRdyTbl s) of (g, l) \<Rightarrow> s\<lparr>OSRdyGrp := g, OSRdyTbl := l\<rparr>)"

definition make_unready :: "OS_TCB \<Rightarrow> 'a os_scheme \<Rightarrow> 'a os_scheme" where
  "make_unready t s =
     (case list_remove (OSTCBBitX t) (OSTCBBitY t) (OSTCBY t) (OSRdyGrp s, OSRdyTbl s) of (g, l) \<Rightarrow> s\<lparr>OSRdyGrp := g, OSRdyTbl := l\<rparr>)"

definition OS_SchedNew :: "'a os_scheme \<Rightarrow> 'a os_scheme" where
  "OS_SchedNew s = s\<lparr>OSPrioHighRdy := highest (OSRdyGrp s) (OSRdyTbl s)\<rparr>"

text \<open>\<^verbatim>\<open>OS_TASK_SW\<close> and \<^verbatim>\<open>OSIntCtxSw\<close> raise the exception \<^verbatim>\<open>OSPendSV\<close>, which makes the new task the current one. It runs when
  interrupts are enabled again, at the end of the critical section.\<close>

definition OSPendSV :: "'a os_scheme \<Rightarrow> 'a os_scheme" where
  "OSPendSV s = s\<lparr>OSPrioCur := OSPrioHighRdy s, OSTCBCur := OSTCBHighRdy s\<rparr>"

definition switch_tasks :: "'a os_scheme \<Rightarrow> 'a os_scheme option" where
  "switch_tasks s =
     (let s1 = OS_SchedNew s; s2 = s1\<lparr>OSTCBHighRdy := OSPrioHighRdy s1\<rparr>
      in if OSPrioHighRdy s2 \<noteq> OSPrioCur s2 then do {
           t \<leftarrow> get_tcb (OSTCBHighRdy s2) s2;
           Some (OSPendSV ((put_tcb (OSTCBHighRdy s2) (t\<lparr>OSTCBCtxSwCtr := OSTCBCtxSwCtr t + 1\<rparr>) s2)\<lparr>OSCtxSwCtr := OSCtxSwCtr s2 + 1\<rparr>))
         }
         else Some s2)"

definition OS_Sched :: "'a os_scheme \<Rightarrow> 'a os_scheme option" where
  "OS_Sched s = (if OSIntNesting s = 0 \<and> OSLockNesting s = 0 then switch_tasks s else Some s)"

definition OSIntEnter :: "'a os_scheme \<Rightarrow> 'a os_scheme" where
  "OSIntEnter s = (if OSRunning s \<and> OSIntNesting s < 255 then s\<lparr>OSIntNesting := OSIntNesting s + 1\<rparr> else s)"

definition OSIntExit :: "'a os_scheme \<Rightarrow> 'a os_scheme option" where
  "OSIntExit s =
     (if OSRunning s then
        let s1 = (if OSIntNesting s > 0 then s\<lparr>OSIntNesting := OSIntNesting s - 1\<rparr> else s)
        in if OSIntNesting s1 = 0 \<and> OSLockNesting s1 = 0 then switch_tasks s1 else Some s1
      else Some s)"

definition OSSchedLock :: "'a os_scheme \<Rightarrow> 'a os_scheme" where
  "OSSchedLock s = (if OSRunning s \<and> OSIntNesting s = 0 \<and> OSLockNesting s < 255 then s\<lparr>OSLockNesting := OSLockNesting s + 1\<rparr> else s)"

definition OSSchedUnlock :: "'a os_scheme \<Rightarrow> 'a os_scheme option" where
  "OSSchedUnlock s =
     (if OSRunning s \<and> OSLockNesting s > 0 then
        let s1 = s\<lparr>OSLockNesting := OSLockNesting s - 1\<rparr>
        in if OSLockNesting s1 = 0 \<and> OSIntNesting s1 = 0 then OS_Sched s1 else Some s1
      else Some s)"

definition OSStart :: "'a os_scheme \<Rightarrow> 'a os_scheme" where
  "OSStart s =
     (if OSRunning s then s
      else let s1 = OS_SchedNew s in s1\<lparr>OSPrioCur := OSPrioHighRdy s1, OSTCBHighRdy := OSPrioHighRdy s1, OSTCBCur := OSPrioHighRdy s1, OSRunning := True\<rparr>)"

section \<open>The clock tick\<close>

text \<open>A task whose time is over: a wait ends with a timeout, and the task is ready unless it is suspended.\<close>

definition time_over :: "nat \<Rightarrow> OS_TCB \<Rightarrow> 'a os_scheme \<Rightarrow> 'a os_scheme" where
  "time_over p t s =
     (let t1 = (if OSTCBStat t AND OS_STAT_PEND_ANY \<noteq> OS_STAT_RDY
                then t\<lparr>OSTCBStat := OSTCBStat t AND NOT OS_STAT_PEND_ANY, OSTCBStatPend := OS_STAT_PEND_TO\<rparr>
                else t\<lparr>OSTCBStatPend := OS_STAT_PEND_OK\<rparr>);
          s1 = put_tcb p t1 s
      in if OSTCBStat t1 AND OS_STAT_SUSPEND = OS_STAT_RDY then make_ready t1 s1 else s1)"

definition tick_tcb :: "nat \<Rightarrow> OS_TCB \<Rightarrow> 'a os_scheme \<Rightarrow> 'a os_scheme" where
  "tick_tcb p t s =
     (if OSTCBDly t \<noteq> 0 then
        let t1 = t\<lparr>OSTCBDly := OSTCBDly t - 1\<rparr>
        in if OSTCBDly t1 = 0 then time_over p t1 s else put_tcb p t1 s
      else s)"

text \<open>The walk through the list of tasks, up to the idle task; at the end of the list it would go on through a null pointer.\<close>

fun tick_list :: "nat list \<Rightarrow> 'a os_scheme \<Rightarrow> 'a os_scheme option" where
  "tick_list [] s = None"
| "tick_list (p # ps) s =
     do { t \<leftarrow> get_tcb p s; if OSTCBPrio t = OS_TASK_IDLE_PRIO then Some s else tick_list ps (tick_tcb p t s) }"

text \<open>\<^verbatim>\<open>OSTickStepState\<close>: 0 when stepping is disabled, 1 for waiting, 2 for one step.\<close>

definition tick_step :: "u8 \<Rightarrow> bool \<times> u8" where
  "tick_step st = (if st = 0 then (True, st) else if st = 1 then (False, st) else if st = 2 then (True, 1) else (True, 0))"

definition OSTimeTick :: "'a os_scheme \<Rightarrow> 'a os_scheme option" where
  "OSTimeTick s =
     (let s1 = s\<lparr>OSTime := OSTime s + 1\<rparr>
      in if OSRunning s1 then
           (case tick_step (OSTickStepState s1) of (step, st) \<Rightarrow>
              let s2 = s1\<lparr>OSTickStepState := st\<rparr>
              in if step then tick_list (OSTCBList s2) s2 else Some s2)
         else Some s1)"

section \<open>Waiting for events\<close>

definition OS_EventTaskRemove :: "OS_TCB \<Rightarrow> nat \<Rightarrow> 'a os_scheme \<Rightarrow> 'a os_scheme option" where
  "OS_EventTaskRemove t i s =
     do {
       v \<leftarrow> get_event i s;
       Some (case list_remove (OSTCBBitX t) (OSTCBBitY t) (OSTCBY t) (OSEventGrp v, OSEventTbl v) of
         (g, l) \<Rightarrow> put_event i (v\<lparr>OSEventGrp := g, OSEventTbl := l\<rparr>) s)
     }"

fun OS_EventTaskRemoveMulti :: "OS_TCB \<Rightarrow> nat list \<Rightarrow> 'a os_scheme \<Rightarrow> 'a os_scheme option" where
  "OS_EventTaskRemoveMulti t [] s = Some s"
| "OS_EventTaskRemoveMulti t (i # is) s = do { s1 \<leftarrow> OS_EventTaskRemove t i s; OS_EventTaskRemoveMulti t is s1 }"

definition OS_EventTaskRdy :: "nat \<Rightarrow> u32 \<Rightarrow> u8 \<Rightarrow> u8 \<Rightarrow> 'a os_scheme \<Rightarrow> (nat \<times> 'a os_scheme) option" where
  "OS_EventTaskRdy i pmsg msk pend_stat s =
     do {
       v \<leftarrow> get_event i s;
       let y = OSUnMapTbl ! unat (OSEventGrp v);
       let prio = highest (OSEventGrp v) (OSEventTbl v);
       t \<leftarrow> get_tcb prio s;
       let t1 = t\<lparr>OSTCBDly := 0, OSTCBMsg := pmsg, OSTCBStat := OSTCBStat t AND NOT msk, OSTCBStatPend := pend_stat\<rparr>;
       let s1 = put_tcb prio t1 s;
       let s2 = (if OSTCBStat t1 AND OS_STAT_SUSPEND = OS_STAT_RDY then
                   case list_add (OSTCBBitX t1) (OSTCBBitY t1) y (OSRdyGrp s1, OSRdyTbl s1) of (g, l) \<Rightarrow> s1\<lparr>OSRdyGrp := g, OSRdyTbl := l\<rparr>
                 else s1);
       s3 \<leftarrow> OS_EventTaskRemove t1 i s2;
       case OSTCBEventMultiPtr t1 of None \<Rightarrow> Some (prio, s3)
       | Some is \<Rightarrow> do { s4 \<leftarrow> OS_EventTaskRemoveMulti t1 is s3; Some (prio, put_tcb prio (t1\<lparr>OSTCBEventPtr := Some i\<rparr>) s4) }
     }"

definition OS_EventTaskWait :: "nat \<Rightarrow> 'a os_scheme \<Rightarrow> 'a os_scheme option" where
  "OS_EventTaskWait i s =
     do {
       t \<leftarrow> get_tcb (OSTCBCur s) s;
       v \<leftarrow> get_event i s;
       let s1 = put_tcb (OSTCBCur s) (t\<lparr>OSTCBEventPtr := Some i\<rparr>) s;
       let s2 = (case list_add (OSTCBBitX t) (OSTCBBitY t) (OSTCBY t) (OSEventGrp v, OSEventTbl v) of
                   (g, l) \<Rightarrow> put_event i (v\<lparr>OSEventGrp := g, OSEventTbl := l\<rparr>) s1);
       Some (make_unready t s2)
     }"

definition OS_EventWaitListInit :: "OS_EVENT \<Rightarrow> OS_EVENT" where
  "OS_EventWaitListInit v = v\<lparr>OSEventGrp := 0, OSEventTbl := replicate 8 0\<rparr>"

section \<open>Operations on tasks\<close>

text \<open>The free list of control blocks is only counted.\<close>

definition OS_TCBInit :: "nat \<Rightarrow> 'a os_scheme \<Rightarrow> u8 \<times> 'a os_scheme" where
  "OS_TCBInit prio s =
     (if OSTCBFree s > 0 then
        let t = \<lparr>OSTCBPrio = prio, OSTCBX = prio mod 8, OSTCBY = prio div 8, OSTCBBitX = bit8 (prio mod 8), OSTCBBitY = bit8 (prio div 8),
                 OSTCBStat = OS_STAT_RDY, OSTCBStatPend = OS_STAT_PEND_OK, OSTCBDly = 0, OSTCBEventPtr = None, OSTCBEventMultiPtr = None,
                 OSTCBMsg = 0, OSTCBCtxSwCtr = 0\<rparr>;
            s1 = (put_tcb prio t (s\<lparr>OSTCBFree := OSTCBFree s - 1\<rparr>))\<lparr>OSTCBList := prio # OSTCBList s\<rparr>
        in (OS_ERR_NONE, (make_ready t s1)\<lparr>OSTaskCtr := OSTaskCtr s + 1\<rparr>)
      else (OS_ERR_TASK_NO_MORE_TCB, s))"

definition OSTaskCreate :: "nat \<Rightarrow> 'a os_scheme \<Rightarrow> (u8 \<times> 'a os_scheme) option" where
  "OSTaskCreate prio s =
     (if OSIntNesting s > 0 then Some (OS_ERR_TASK_CREATE_ISR, s)
      else if prio > OS_LOWEST_PRIO then None
      else if OSTCBPrioTbl s prio = TCB_NULL then
        case OS_TCBInit prio (s\<lparr>OSTCBPrioTbl := (OSTCBPrioTbl s)(prio := OS_TCB_RESERVED)\<rparr>) of (err, s1) \<Rightarrow>
          if err = OS_ERR_NONE then
            if OSRunning s1 then map_option (Pair err) (OS_Sched s1) else Some (err, s1)
          else Some (err, s1\<lparr>OSTCBPrioTbl := (OSTCBPrioTbl s1)(prio := TCB_NULL)\<rparr>)
      else Some (OS_ERR_PRIO_EXIST, s))"

text \<open>Delaying the current task.\<close>

definition OSTimeDly :: "u32 \<Rightarrow> 'a os_scheme \<Rightarrow> 'a os_scheme option" where
  "OSTimeDly ticks s =
     (if OSIntNesting s > 0 \<or> OSLockNesting s > 0 then Some s
      else if ticks > 0 then do {
        t \<leftarrow> get_tcb (OSTCBCur s) s;
        OS_Sched (put_tcb (OSTCBCur s) (t\<lparr>OSTCBDly := ticks\<rparr>) (make_unready t s))
      }
      else Some s)"

definition OSTimeDlyResume :: "nat \<Rightarrow> 'a os_scheme \<Rightarrow> (u8 \<times> 'a os_scheme) option" where
  "OSTimeDlyResume prio s =
     (if prio \<ge> OS_LOWEST_PRIO then Some (OS_ERR_PRIO_INVALID, s)
      else case OSTCBPrioTbl s prio of
        TCB t \<Rightarrow>
          if OSTCBDly t = 0 then Some (OS_ERR_TIME_NOT_DLY, s)
          else
            let s1 = time_over prio (t\<lparr>OSTCBDly := 0\<rparr>) s
            in if OSTCBStat t AND OS_STAT_SUSPEND = OS_STAT_RDY then map_option (Pair OS_ERR_NONE) (OS_Sched s1) else Some (OS_ERR_NONE, s1)
      | _ \<Rightarrow> Some (OS_ERR_TASK_NOT_EXIST, s))"

definition OS_TICKS_PER_SEC :: u32 where "OS_TICKS_PER_SEC = 100"

definition OSTimeDlyHMSM :: "u8 \<Rightarrow> u8 \<Rightarrow> u8 \<Rightarrow> u16 \<Rightarrow> 'a os_scheme \<Rightarrow> (u8 \<times> 'a os_scheme) option" where
  "OSTimeDlyHMSM hours minutes seconds ms s =
     (if OSIntNesting s > 0 then Some (OS_ERR_TIME_DLY_ISR, s)
      else if OSLockNesting s > 0 then Some (OS_ERR_SCHED_LOCKED, s)
      else
        let ticks = (ucast hours * 3600 + ucast minutes * 60 + ucast seconds) * OS_TICKS_PER_SEC
                    + OS_TICKS_PER_SEC * (ucast ms + 500 div OS_TICKS_PER_SEC) div 1000
        in map_option (Pair OS_ERR_NONE) (OSTimeDly ticks s))"

definition OSTimeGet :: "'a os_scheme \<Rightarrow> u32" where
  "OSTimeGet s = OSTime s"

definition OSTimeSet :: "u32 \<Rightarrow> 'a os_scheme \<Rightarrow> 'a os_scheme" where
  "OSTimeSet ticks s = s\<lparr>OSTime := ticks\<rparr>"

definition OSTaskSuspend :: "nat \<Rightarrow> 'a os_scheme \<Rightarrow> (u8 \<times> 'a os_scheme) option" where
  "OSTaskSuspend prio s =
     do {
       c \<leftarrow> get_tcb (OSTCBCur s) s;
       let p = (if prio = OS_PRIO_SELF then OSTCBPrio c else prio);
       let self = (p = OSTCBPrio c);
       if p > OS_LOWEST_PRIO then None
       else case OSTCBPrioTbl s p of
         TCB t \<Rightarrow>
           let s1 = put_tcb p (t\<lparr>OSTCBStat := OSTCBStat t OR OS_STAT_SUSPEND\<rparr>) (make_unready t s)
           in map_option (Pair OS_ERR_NONE) (if self then OS_Sched s1 else Some s1)
       | TCB_NULL \<Rightarrow> Some (OS_ERR_TASK_SUSPEND_PRIO, s)
       | OS_TCB_RESERVED \<Rightarrow> Some (OS_ERR_TASK_NOT_EXIST, s)
     }"

definition OSTaskResume :: "nat \<Rightarrow> 'a os_scheme \<Rightarrow> (u8 \<times> 'a os_scheme) option" where
  "OSTaskResume prio s =
     (if prio > OS_LOWEST_PRIO then None
      else case OSTCBPrioTbl s prio of
        TCB t \<Rightarrow>
          if OSTCBStat t AND OS_STAT_SUSPEND \<noteq> OS_STAT_RDY then
            let t1 = t\<lparr>OSTCBStat := OSTCBStat t AND NOT OS_STAT_SUSPEND\<rparr>; s1 = put_tcb prio t1 s
            in if OSTCBStat t1 = OS_STAT_RDY \<and> OSTCBDly t1 = 0 then
                 let s2 = make_ready t1 s1
                 in map_option (Pair OS_ERR_NONE) (if OSRunning s2 then OS_Sched s2 else Some s2)
               else Some (OS_ERR_NONE, s1)
          else Some (OS_ERR_TASK_NOT_SUSPENDED, s)
      | TCB_NULL \<Rightarrow> Some (OS_ERR_TASK_RESUME_PRIO, s)
      | OS_TCB_RESERVED \<Rightarrow> Some (OS_ERR_TASK_NOT_EXIST, s))"

text \<open>A change of priority: the block moves to another entry of \<^verbatim>\<open>OSTCBPrioTbl\<close>, so every pointer to it gets the new name.\<close>

definition rename_tcb :: "nat \<Rightarrow> nat \<Rightarrow> 'a os_scheme \<Rightarrow> 'a os_scheme" where
  "rename_tcb old new s =
     (let f = (\<lambda>p. if p = old then new else p)
      in s\<lparr>OSTCBPrioTbl := (OSTCBPrioTbl s)(old := TCB_NULL, new := OSTCBPrioTbl s old), OSTCBCur := f (OSTCBCur s), OSTCBHighRdy := f (OSTCBHighRdy s),
           OSTCBList := map f (OSTCBList s)\<rparr>)"

definition move_waiter :: "OS_TCB \<Rightarrow> nat \<Rightarrow> nat \<Rightarrow> 'a os_scheme \<Rightarrow> 'a os_scheme option" where
  "move_waiter t new i s =
     do {
       s1 \<leftarrow> OS_EventTaskRemove t i s;
       v \<leftarrow> get_event i s1;
       Some (case list_add (bit8 (new mod 8)) (bit8 (new div 8)) (new div 8) (OSEventGrp v, OSEventTbl v) of
         (g, l) \<Rightarrow> put_event i (v\<lparr>OSEventGrp := g, OSEventTbl := l\<rparr>) s1)
     }"

fun move_waiter_multi :: "OS_TCB \<Rightarrow> nat \<Rightarrow> nat list \<Rightarrow> 'a os_scheme \<Rightarrow> 'a os_scheme option" where
  "move_waiter_multi t new [] s = Some s"
| "move_waiter_multi t new (i # is) s = do { s1 \<leftarrow> move_waiter t new i s; move_waiter_multi t new is s1 }"

definition OSTaskChangePrio :: "nat \<Rightarrow> nat \<Rightarrow> 'a os_scheme \<Rightarrow> (u8 \<times> 'a os_scheme) option" where
  "OSTaskChangePrio oldprio newprio s =
     (if newprio > OS_LOWEST_PRIO then None
      else if OSTCBPrioTbl s newprio \<noteq> TCB_NULL then Some (OS_ERR_PRIO_EXIST, s)
      else do {
        old \<leftarrow> (if oldprio = OS_PRIO_SELF then map_option OSTCBPrio (get_tcb (OSTCBCur s) s) else Some oldprio);
        if old > OS_LOWEST_PRIO then None
        else case OSTCBPrioTbl s old of
          TCB_NULL \<Rightarrow> Some (OS_ERR_PRIO, s)
        | OS_TCB_RESERVED \<Rightarrow> Some (OS_ERR_TASK_NOT_EXIST, s)
        | TCB t \<Rightarrow> do {
            let s1 = rename_tcb old newprio s;
            let t1 = t\<lparr>OSTCBPrio := newprio, OSTCBY := newprio div 8, OSTCBX := newprio mod 8, OSTCBBitY := bit8 (newprio div 8), OSTCBBitX := bit8 (newprio mod 8)\<rparr>;
            let s2 = (if OSRdyTbl s1 ! OSTCBY t AND OSTCBBitX t \<noteq> 0 then make_ready t1 (make_unready t s1) else s1);
            s3 \<leftarrow> (case OSTCBEventPtr t of None \<Rightarrow> Some s2 | Some i \<Rightarrow> move_waiter t newprio i s2);
            s4 \<leftarrow> (case OSTCBEventMultiPtr t of None \<Rightarrow> Some s3 | Some is \<Rightarrow> move_waiter_multi t newprio is s3);
            let s5 = put_tcb newprio t1 s4;
            map_option (Pair OS_ERR_NONE) (if OSRunning s5 then OS_Sched s5 else Some s5)
          }
      })"

section \<open>Initialisation\<close>

text \<open>A null \<^verbatim>\<open>OSTCBCur\<close> is a name no block can have.\<close>

definition OS_MAX_EVENTS :: nat where "OS_MAX_EVENTS = 20"
definition OS_MAX_TASKS :: nat where "OS_MAX_TASKS = 20"
definition OS_N_SYS_TASKS :: nat where "OS_N_SYS_TASKS = 2"
definition OS_TASK_STAT_PRIO :: nat where "OS_TASK_STAT_PRIO = OS_LOWEST_PRIO - 1"

definition OS_InitMisc :: "'a os_scheme \<Rightarrow> 'a os_scheme" where
  "OS_InitMisc s = s\<lparr>OSTime := 0, OSIntNesting := 0, OSLockNesting := 0, OSTaskCtr := 0, OSRunning := False, OSCtxSwCtr := 0\<rparr>"

definition OS_InitRdyList :: "'a os_scheme \<Rightarrow> 'a os_scheme" where
  "OS_InitRdyList s = s\<lparr>OSRdyGrp := 0, OSRdyTbl := replicate 8 0, OSPrioCur := 0, OSPrioHighRdy := 0,
     OSTCBHighRdy := OS_LOWEST_PRIO + 1, OSTCBCur := OS_LOWEST_PRIO + 1\<rparr>"

definition OS_InitTCBList :: "'a os_scheme \<Rightarrow> 'a os_scheme" where
  "OS_InitTCBList s = s\<lparr>OSTCBPrioTbl := \<lambda>_. TCB_NULL, OSTCBList := [], OSTCBFree := OS_MAX_TASKS + OS_N_SYS_TASKS\<rparr>"

definition OS_InitEventList :: "'a os_scheme \<Rightarrow> 'a os_scheme" where
  "OS_InitEventList s = s\<lparr>OSEvents := replicate OS_MAX_EVENTS \<lparr>OSEventType = 0, OSEventPtr = 0, OSEventCnt = 0, OSEventGrp = 0, OSEventTbl = replicate 8 0\<rparr>,
     OSEventFreeList := [0..<OS_MAX_EVENTS]\<rparr>"

text \<open>\<^verbatim>\<open>OSInit\<close>, up to the tables of the parts of the kernel that are not modelled; on what is modelled \<^verbatim>\<open>OSTaskCreateExt\<close>, which creates the
  two tasks, does the same as \<^verbatim>\<open>OSTaskCreate\<close>.\<close>

definition OS_InitTaskIdle :: "'a os_scheme \<Rightarrow> 'a os_scheme option" where
  "OS_InitTaskIdle s = map_option snd (OSTaskCreate OS_TASK_IDLE_PRIO s)"

definition OS_InitTaskStat :: "'a os_scheme \<Rightarrow> 'a os_scheme option" where
  "OS_InitTaskStat s = map_option snd (OSTaskCreate OS_TASK_STAT_PRIO s)"

definition OSInit :: "'a os_scheme \<Rightarrow> 'a os_scheme option" where
  "OSInit s = do { s1 \<leftarrow> OS_InitTaskIdle (OS_InitEventList (OS_InitTCBList (OS_InitRdyList (OS_InitMisc s)))); OS_InitTaskStat s1 }"

end
