(* ===== verification/Os_Sem.thy ===== *)
theory Os_Sem
  imports Os_Core
begin

text \<open>
  Semaphores and mailboxes (\<^verbatim>\<open>uCOS-II/os_sem.c\<close>, \<^verbatim>\<open>os_mbox.c\<close>). A call that blocks is in two parts: up to the scheduler, and from
  where the task runs again.
\<close>

definition OS_EVENT_TYPE_UNUSED :: u8 where "OS_EVENT_TYPE_UNUSED = 0"
definition OS_EVENT_TYPE_MBOX :: u8 where "OS_EVENT_TYPE_MBOX = 1"
definition OS_EVENT_TYPE_Q :: u8 where "OS_EVENT_TYPE_Q = 2"
definition OS_EVENT_TYPE_SEM :: u8 where "OS_EVENT_TYPE_SEM = 3"

definition OS_ERR_EVENT_TYPE :: u8 where "OS_ERR_EVENT_TYPE = 1"
definition OS_ERR_PEND_ISR :: u8 where "OS_ERR_PEND_ISR = 2"
definition OS_ERR_INVALID_OPT :: u8 where "OS_ERR_INVALID_OPT = 7"
definition OS_ERR_TIMEOUT :: u8 where "OS_ERR_TIMEOUT = 10"
definition OS_ERR_PEND_LOCKED :: u8 where "OS_ERR_PEND_LOCKED = 13"
definition OS_ERR_PEND_ABORT :: u8 where "OS_ERR_PEND_ABORT = 14"
definition OS_ERR_DEL_ISR :: u8 where "OS_ERR_DEL_ISR = 15"
definition OS_ERR_MBOX_FULL :: u8 where "OS_ERR_MBOX_FULL = 20"
definition OS_ERR_SEM_OVF :: u8 where "OS_ERR_SEM_OVF = 51"
definition OS_ERR_TASK_WAITING :: u8 where "OS_ERR_TASK_WAITING = 73"

definition OS_DEL_NO_PEND :: u8 where "OS_DEL_NO_PEND = 0"
definition OS_DEL_ALWAYS :: u8 where "OS_DEL_ALWAYS = 1"
definition OS_PEND_OPT_BROADCAST :: u8 where "OS_PEND_OPT_BROADCAST = 1"
definition OS_POST_OPT_BROADCAST :: u8 where "OS_POST_OPT_BROADCAST = 1"
definition OS_POST_OPT_NO_SCHED :: u8 where "OS_POST_OPT_NO_SCHED = 4"

section \<open>What semaphores and mailboxes share\<close>

text \<open>Taking an event from the free list.\<close>

definition new_event :: "(OS_EVENT \<Rightarrow> OS_EVENT) \<Rightarrow> 'a os_scheme \<Rightarrow> (nat option \<times> 'a os_scheme) option" where
  "new_event f s =
     (if OSIntNesting s > 0 then Some (None, s)
      else case OSEventFreeList s of [] \<Rightarrow> Some (None, s)
      | i # is \<Rightarrow> do { v \<leftarrow> get_event i s; Some (Some i, put_event i (OS_EventWaitListInit (f v)) (s\<lparr>OSEventFreeList := is\<rparr>)) })"

text \<open>The loop \<^verbatim>\<open>while (pevent->OSEventGrp != 0u)\<close>, which counts the tasks it wakes.\<close>

partial_function (option) wake_all :: "nat \<Rightarrow> u32 \<Rightarrow> u8 \<Rightarrow> u8 \<Rightarrow> nat \<Rightarrow> 'a os_scheme \<Rightarrow> (nat \<times> 'a os_scheme) option" where
  "wake_all i pmsg msk pend_stat n s =
     do {
       v \<leftarrow> get_event i s;
       if OSEventGrp v \<noteq> 0 then do { (_, s1) \<leftarrow> OS_EventTaskRdy i pmsg msk pend_stat s; wake_all i pmsg msk pend_stat (n + 1) s1 }
       else Some (n, s)
     }"

text \<open>Deleting an event, and giving the block back.\<close>

definition free_event :: "nat \<Rightarrow> 'a os_scheme \<Rightarrow> 'a os_scheme option" where
  "free_event i s =
     do {
       v \<leftarrow> get_event i s;
       Some ((put_event i (v\<lparr>OSEventType := OS_EVENT_TYPE_UNUSED, OSEventCnt := 0\<rparr>) s)\<lparr>OSEventFreeList := i # OSEventFreeList s\<rparr>)
     }"

definition del_event :: "u8 \<Rightarrow> u8 \<Rightarrow> nat \<Rightarrow> u8 \<Rightarrow> 'a os_scheme \<Rightarrow> (u8 \<times> 'a os_scheme) option" where
  "del_event type msk i opt s =
     do {
       v \<leftarrow> get_event i s;
       if OSEventType v \<noteq> type then Some (OS_ERR_EVENT_TYPE, s)
       else if OSIntNesting s > 0 then Some (OS_ERR_DEL_ISR, s)
       else if opt = OS_DEL_NO_PEND then
         if OSEventGrp v = 0 then map_option (Pair OS_ERR_NONE) (free_event i s) else Some (OS_ERR_TASK_WAITING, s)
       else if opt = OS_DEL_ALWAYS then do {
         (_, s1) \<leftarrow> wake_all i 0 msk OS_STAT_PEND_OK 0 s;
         s2 \<leftarrow> free_event i s1;
         map_option (Pair OS_ERR_NONE) (if OSEventGrp v \<noteq> 0 then OS_Sched s2 else Some s2)
       }
       else Some (OS_ERR_INVALID_OPT, s)
     }"

definition abort_pend :: "u8 \<Rightarrow> u8 \<Rightarrow> nat \<Rightarrow> u8 \<Rightarrow> 'a os_scheme \<Rightarrow> (nat \<times> u8 \<times> 'a os_scheme) option" where
  "abort_pend type msk i opt s =
     do {
       v \<leftarrow> get_event i s;
       if OSEventType v \<noteq> type then Some (0, OS_ERR_EVENT_TYPE, s)
       else if OSEventGrp v \<noteq> 0 then do {
         (n, s1) \<leftarrow> (if opt = OS_PEND_OPT_BROADCAST then wake_all i 0 msk OS_STAT_PEND_ABORT 0 s
                    else map_option (\<lambda>(_, s1). (1, s1)) (OS_EventTaskRdy i 0 msk OS_STAT_PEND_ABORT s));
         s2 \<leftarrow> OS_Sched s1;
         Some (n, OS_ERR_PEND_ABORT, s2)
       }
       else Some (0, OS_ERR_NONE, s)
     }"

text \<open>The part of a pending call in which the task is put into the wait list and gives up the processor, and the end of the call
  when it runs again: the result, and the message it was given.\<close>

definition start_wait :: "u8 \<Rightarrow> nat \<Rightarrow> u32 \<Rightarrow> 'a os_scheme \<Rightarrow> 'a os_scheme option" where
  "start_wait msk i timeout s =
     do {
       t \<leftarrow> get_tcb (OSTCBCur s) s;
       s1 \<leftarrow> OS_EventTaskWait i
         (put_tcb (OSTCBCur s) (t\<lparr>OSTCBStat := OSTCBStat t OR msk, OSTCBStatPend := OS_STAT_PEND_OK, OSTCBDly := timeout\<rparr>) s);
       OS_Sched s1
     }"

definition end_wait :: "nat \<Rightarrow> 'a os_scheme \<Rightarrow> (u8 \<times> u32 \<times> 'a os_scheme) option" where
  "end_wait i s =
     do {
       t \<leftarrow> get_tcb (OSTCBCur s) s;
       (err, msg, s1) \<leftarrow>
         (if OSTCBStatPend t = OS_STAT_PEND_OK then Some (OS_ERR_NONE, OSTCBMsg t, s)
          else if OSTCBStatPend t = OS_STAT_PEND_ABORT then Some (OS_ERR_PEND_ABORT, 0, s)
          else map_option (\<lambda>s1. (OS_ERR_TIMEOUT, 0, s1)) (OS_EventTaskRemove t i s));
       Some (err, msg, put_tcb (OSTCBCur s)
         (t\<lparr>OSTCBStat := OS_STAT_RDY, OSTCBStatPend := OS_STAT_PEND_OK, OSTCBEventPtr := None, OSTCBEventMultiPtr := None\<rparr>) s1)
     }"

section \<open>Semaphores\<close>

definition OSSemCreate :: "u16 \<Rightarrow> 'a os_scheme \<Rightarrow> (nat option \<times> 'a os_scheme) option" where
  "OSSemCreate cnt = new_event (\<lambda>v. v\<lparr>OSEventType := OS_EVENT_TYPE_SEM, OSEventCnt := cnt, OSEventPtr := 0\<rparr>)"

definition OSSemAccept :: "nat \<Rightarrow> 'a os_scheme \<Rightarrow> (u16 \<times> 'a os_scheme) option" where
  "OSSemAccept i s =
     do {
       v \<leftarrow> get_event i s;
       if OSEventType v \<noteq> OS_EVENT_TYPE_SEM then Some (0, s)
       else Some (OSEventCnt v, if OSEventCnt v > 0 then put_event i (v\<lparr>OSEventCnt := OSEventCnt v - 1\<rparr>) s else s)
     }"

definition OSSemDel :: "nat \<Rightarrow> u8 \<Rightarrow> 'a os_scheme \<Rightarrow> (u8 \<times> 'a os_scheme) option" where
  "OSSemDel = del_event OS_EVENT_TYPE_SEM OS_STAT_SEM"

text \<open>\<^verbatim>\<open>OSSemPend\<close>: a result, or none when the task waits.\<close>

definition OSSemPend :: "nat \<Rightarrow> u32 \<Rightarrow> 'a os_scheme \<Rightarrow> (u8 option \<times> 'a os_scheme) option" where
  "OSSemPend i timeout s =
     do {
       v \<leftarrow> get_event i s;
       if OSEventType v \<noteq> OS_EVENT_TYPE_SEM then Some (Some OS_ERR_EVENT_TYPE, s)
       else if OSIntNesting s > 0 then Some (Some OS_ERR_PEND_ISR, s)
       else if OSLockNesting s > 0 then Some (Some OS_ERR_PEND_LOCKED, s)
       else if OSEventCnt v > 0 then Some (Some OS_ERR_NONE, put_event i (v\<lparr>OSEventCnt := OSEventCnt v - 1\<rparr>) s)
       else map_option (Pair None) (start_wait OS_STAT_SEM i timeout s)
     }"

definition OSSemPend_end :: "nat \<Rightarrow> 'a os_scheme \<Rightarrow> (u8 \<times> 'a os_scheme) option" where
  "OSSemPend_end i s = map_option (\<lambda>(err, _, s1). (err, s1)) (end_wait i s)"

definition OSSemPendAbort :: "nat \<Rightarrow> u8 \<Rightarrow> 'a os_scheme \<Rightarrow> (nat \<times> u8 \<times> 'a os_scheme) option" where
  "OSSemPendAbort = abort_pend OS_EVENT_TYPE_SEM OS_STAT_SEM"

definition OSSemPost :: "nat \<Rightarrow> 'a os_scheme \<Rightarrow> (u8 \<times> 'a os_scheme) option" where
  "OSSemPost i s =
     do {
       v \<leftarrow> get_event i s;
       if OSEventType v \<noteq> OS_EVENT_TYPE_SEM then Some (OS_ERR_EVENT_TYPE, s)
       else if OSEventGrp v \<noteq> 0 then do {
         (_, s1) \<leftarrow> OS_EventTaskRdy i 0 OS_STAT_SEM OS_STAT_PEND_OK s;
         map_option (Pair OS_ERR_NONE) (OS_Sched s1)
       }
       else if OSEventCnt v < 65535 then Some (OS_ERR_NONE, put_event i (v\<lparr>OSEventCnt := OSEventCnt v + 1\<rparr>) s)
       else Some (OS_ERR_SEM_OVF, s)
     }"

definition OSSemQuery :: "nat \<Rightarrow> 'a os_scheme \<Rightarrow> (u8 \<times> (u8 \<times> u8 list \<times> u16) option) option" where
  "OSSemQuery i s =
     do {
       v \<leftarrow> get_event i s;
       Some (if OSEventType v \<noteq> OS_EVENT_TYPE_SEM then (OS_ERR_EVENT_TYPE, None)
             else (OS_ERR_NONE, Some (OSEventGrp v, OSEventTbl v, OSEventCnt v)))
     }"

definition OSSemSet :: "nat \<Rightarrow> u16 \<Rightarrow> 'a os_scheme \<Rightarrow> (u8 \<times> 'a os_scheme) option" where
  "OSSemSet i cnt s =
     do {
       v \<leftarrow> get_event i s;
       Some (if OSEventType v \<noteq> OS_EVENT_TYPE_SEM then (OS_ERR_EVENT_TYPE, s)
             else if OSEventCnt v > 0 \<or> OSEventGrp v = 0 then (OS_ERR_NONE, put_event i (v\<lparr>OSEventCnt := cnt\<rparr>) s)
             else (OS_ERR_TASK_WAITING, s))
     }"

section \<open>Mailboxes\<close>

definition OSMboxCreate :: "u32 \<Rightarrow> 'a os_scheme \<Rightarrow> (nat option \<times> 'a os_scheme) option" where
  "OSMboxCreate pmsg = new_event (\<lambda>v. v\<lparr>OSEventType := OS_EVENT_TYPE_MBOX, OSEventCnt := 0, OSEventPtr := pmsg\<rparr>)"

definition OSMboxAccept :: "nat \<Rightarrow> 'a os_scheme \<Rightarrow> (u32 \<times> 'a os_scheme) option" where
  "OSMboxAccept i s =
     do {
       v \<leftarrow> get_event i s;
       Some (if OSEventType v \<noteq> OS_EVENT_TYPE_MBOX then (0, s) else (OSEventPtr v, put_event i (v\<lparr>OSEventPtr := 0\<rparr>) s))
     }"

definition OSMboxDel :: "nat \<Rightarrow> u8 \<Rightarrow> 'a os_scheme \<Rightarrow> (u8 \<times> 'a os_scheme) option" where
  "OSMboxDel = del_event OS_EVENT_TYPE_MBOX OS_STAT_MBOX"

definition OSMboxPend :: "nat \<Rightarrow> u32 \<Rightarrow> 'a os_scheme \<Rightarrow> ((u8 \<times> u32) option \<times> 'a os_scheme) option" where
  "OSMboxPend i timeout s =
     do {
       v \<leftarrow> get_event i s;
       if OSEventType v \<noteq> OS_EVENT_TYPE_MBOX then Some (Some (OS_ERR_EVENT_TYPE, 0), s)
       else if OSIntNesting s > 0 then Some (Some (OS_ERR_PEND_ISR, 0), s)
       else if OSLockNesting s > 0 then Some (Some (OS_ERR_PEND_LOCKED, 0), s)
       else if OSEventPtr v \<noteq> 0 then Some (Some (OS_ERR_NONE, OSEventPtr v), put_event i (v\<lparr>OSEventPtr := 0\<rparr>) s)
       else map_option (Pair None) (start_wait OS_STAT_MBOX i timeout s)
     }"

definition OSMboxPend_end :: "nat \<Rightarrow> 'a os_scheme \<Rightarrow> (u8 \<times> u32 \<times> 'a os_scheme) option" where
  "OSMboxPend_end i s =
     do {
       (err, msg, s1) \<leftarrow> end_wait i s;
       t \<leftarrow> get_tcb (OSTCBCur s1) s1;
       Some (err, msg, put_tcb (OSTCBCur s1) (t\<lparr>OSTCBMsg := 0\<rparr>) s1)
     }"

definition OSMboxPendAbort :: "nat \<Rightarrow> u8 \<Rightarrow> 'a os_scheme \<Rightarrow> (nat \<times> u8 \<times> 'a os_scheme) option" where
  "OSMboxPendAbort = abort_pend OS_EVENT_TYPE_MBOX OS_STAT_MBOX"

definition OSMboxPost :: "nat \<Rightarrow> u32 \<Rightarrow> 'a os_scheme \<Rightarrow> (u8 \<times> 'a os_scheme) option" where
  "OSMboxPost i pmsg s =
     do {
       v \<leftarrow> get_event i s;
       if OSEventType v \<noteq> OS_EVENT_TYPE_MBOX then Some (OS_ERR_EVENT_TYPE, s)
       else if OSEventGrp v \<noteq> 0 then do {
         (_, s1) \<leftarrow> OS_EventTaskRdy i pmsg OS_STAT_MBOX OS_STAT_PEND_OK s;
         map_option (Pair OS_ERR_NONE) (OS_Sched s1)
       }
       else if OSEventPtr v \<noteq> 0 then Some (OS_ERR_MBOX_FULL, s)
       else Some (OS_ERR_NONE, put_event i (v\<lparr>OSEventPtr := pmsg\<rparr>) s)
     }"

definition OSMboxPostOpt :: "nat \<Rightarrow> u32 \<Rightarrow> u8 \<Rightarrow> 'a os_scheme \<Rightarrow> (u8 \<times> 'a os_scheme) option" where
  "OSMboxPostOpt i pmsg opt s =
     do {
       v \<leftarrow> get_event i s;
       if OSEventType v \<noteq> OS_EVENT_TYPE_MBOX then Some (OS_ERR_EVENT_TYPE, s)
       else if OSEventGrp v \<noteq> 0 then do {
         s1 \<leftarrow> map_option snd (if opt AND OS_POST_OPT_BROADCAST \<noteq> 0 then wake_all i pmsg OS_STAT_MBOX OS_STAT_PEND_OK 0 s
                              else OS_EventTaskRdy i pmsg OS_STAT_MBOX OS_STAT_PEND_OK s);
         map_option (Pair OS_ERR_NONE) (if opt AND OS_POST_OPT_NO_SCHED = 0 then OS_Sched s1 else Some s1)
       }
       else if OSEventPtr v \<noteq> 0 then Some (OS_ERR_MBOX_FULL, s)
       else Some (OS_ERR_NONE, put_event i (v\<lparr>OSEventPtr := pmsg\<rparr>) s)
     }"

definition OSMboxQuery :: "nat \<Rightarrow> 'a os_scheme \<Rightarrow> (u8 \<times> (u8 \<times> u8 list \<times> u32) option) option" where
  "OSMboxQuery i s =
     do {
       v \<leftarrow> get_event i s;
       Some (if OSEventType v \<noteq> OS_EVENT_TYPE_MBOX then (OS_ERR_EVENT_TYPE, None)
             else (OS_ERR_NONE, Some (OSEventGrp v, OSEventTbl v, OSEventPtr v)))
     }"

end
