(* ===== verification/Os_Inv.thy ===== *)
theory Os_Inv
  imports Os_Sem
begin

text \<open>
  What the kernel keeps: the invariant of its lists, tasks and events, and that every change to a task, the clock tick, the
  scheduler and the operations on events preserve it.
\<close>

section \<open>What the lists stand for\<close>

definition rdy :: "'a os_scheme \<Rightarrow> nat set" where
  "rdy s = prios (OSRdyTbl s)"

definition wl :: "'a os_scheme \<Rightarrow> nat \<Rightarrow> nat set" where
  "wl s i = (if i < length (OSEvents s) then prios (OSEventTbl (OSEvents s ! i)) else {})"

definition lists_ok :: "'a os_scheme \<Rightarrow> bool" where
  "lists_ok s \<longleftrightarrow> list_ok (OSRdyGrp s) (OSRdyTbl s) \<and> (\<forall>i < length (OSEvents s). list_ok (OSEventGrp (OSEvents s ! i)) (OSEventTbl (OSEvents s ! i)))"

definition tcb_wf :: "nat \<Rightarrow> OS_TCB \<Rightarrow> bool" where
  "tcb_wf p t \<longleftrightarrow> p < 64 \<and> OSTCBPrio t = p \<and> OSTCBX t = p mod 8 \<and> OSTCBY t = p div 8 \<and> OSTCBBitX t = bit8 (p mod 8) \<and>
     OSTCBBitY t = bit8 (p div 8) \<and> OSTCBEventMultiPtr t = None"

text \<open>What an operation on lists and blocks leaves alone: the other variables, and type, count and pointer of every event.\<close>

definition ev_core :: "OS_EVENT \<Rightarrow> u8 \<times> u32 \<times> u16" where
  "ev_core v = (OSEventType v, OSEventPtr v, OSEventCnt v)"

definition os_base :: "'a os_scheme \<Rightarrow> 'a os_scheme" where
  "os_base s = s\<lparr>OSRdyGrp := 0, OSRdyTbl := [], OSTCBPrioTbl := \<lambda>_. TCB_NULL, OSEvents := []\<rparr>"

definition os_frame :: "'a os_scheme \<Rightarrow> 'a os_scheme \<Rightarrow> bool" where
  "os_frame s s' \<longleftrightarrow> os_base s' = os_base s \<and> map ev_core (OSEvents s') = map ev_core (OSEvents s)"

lemma os_frame_refl [simp]: "os_frame s s"
  by (simp add: os_frame_def)

lemma os_frame_trans: "os_frame s s1 \<Longrightarrow> os_frame s1 s2 \<Longrightarrow> os_frame s s2"
  by (simp add: os_frame_def)

lemma os_base_simps:
  "OSRunning (os_base s) = OSRunning s" "OSIntNesting (os_base s) = OSIntNesting s" "OSLockNesting (os_base s) = OSLockNesting s"
  "OSPrioCur (os_base s) = OSPrioCur s" "OSTCBCur (os_base s) = OSTCBCur s" "OSTCBList (os_base s) = OSTCBList s"
  "OSEventFreeList (os_base s) = OSEventFreeList s" "os.more (os_base s) = os.more s" "OSTime (os_base s) = OSTime s"
  by (simp_all add: os_base_def)

lemma os_frame_simps:
  assumes "os_frame s s'"
  shows "OSRunning s' = OSRunning s" "OSIntNesting s' = OSIntNesting s" "OSLockNesting s' = OSLockNesting s" "OSPrioCur s' = OSPrioCur s"
    "OSTCBCur s' = OSTCBCur s" "OSTCBList s' = OSTCBList s" "length (OSEvents s') = length (OSEvents s)" "OSEventFreeList s' = OSEventFreeList s"
    "os.more s' = os.more s" "OSTime s' = OSTime s"
proof -
  have b: "os_base s' = os_base s" "map ev_core (OSEvents s') = map ev_core (OSEvents s)" using assms by (simp_all add: os_frame_def)
  show "length (OSEvents s') = length (OSEvents s)" using b(2) by (rule map_eq_imp_length_eq)
qed (use assms os_base_simps in \<open>metis os_frame_def\<close>)+

lemma os_frame_core:
  assumes "os_frame s s'" "i < length (OSEvents s)"
  shows "OSEventType (OSEvents s' ! i) = OSEventType (OSEvents s ! i)" "OSEventPtr (OSEvents s' ! i) = OSEventPtr (OSEvents s ! i)"
    "OSEventCnt (OSEvents s' ! i) = OSEventCnt (OSEvents s ! i)"
proof -
  have "map ev_core (OSEvents s') = map ev_core (OSEvents s)" using assms(1) by (simp add: os_frame_def)
  then have "map ev_core (OSEvents s') ! i = map ev_core (OSEvents s) ! i" by (rule arg_cong)
  then have "ev_core (OSEvents s' ! i) = ev_core (OSEvents s ! i)" using assms(2) os_frame_simps(7) [OF assms(1)] by simp
  then show "OSEventType (OSEvents s' ! i) = OSEventType (OSEvents s ! i)" "OSEventPtr (OSEvents s' ! i) = OSEventPtr (OSEvents s ! i)"
    "OSEventCnt (OSEvents s' ! i) = OSEventCnt (OSEvents s ! i)" by (simp_all add: ev_core_def)
qed

lemma put_tcb_simps [simp]:
  "OSTCBPrioTbl (put_tcb p t s) = (OSTCBPrioTbl s)(p := TCB t)" "rdy (put_tcb p t s) = rdy s" "wl (put_tcb p t s) = wl s"
  "lists_ok (put_tcb p t s) = lists_ok s" "OSEvents (put_tcb p t s) = OSEvents s" "os_frame s' (put_tcb p t s) = os_frame s' s"
  "OSRdyGrp (put_tcb p t s) = OSRdyGrp s" "OSRdyTbl (put_tcb p t s) = OSRdyTbl s"
  by (simp_all add: put_tcb_def rdy_def wl_def lists_ok_def fun_eq_iff os_frame_def os_base_def)

lemma get_tcb_some: "get_tcb p s = Some t \<longleftrightarrow> OSTCBPrioTbl s p = TCB t"
  by (simp add: get_tcb_def split: tcb_ptr.splits)

lemma get_tcb_eq [simp]: "OSTCBPrioTbl s p = TCB t \<Longrightarrow> get_tcb p s = Some t"
  by (simp add: get_tcb_some)

lemma make_ready_effect:
  assumes "lists_ok s" "tcb_wf p t"
  shows "lists_ok (make_ready t s)" "rdy (make_ready t s) = insert p (rdy s)" "wl (make_ready t s) = wl s"
    "OSTCBPrioTbl (make_ready t s) = OSTCBPrioTbl s" "OSEvents (make_ready t s) = OSEvents s" "os_frame s (make_ready t s)"
proof -
  obtain g l where gl: "enter p (OSRdyGrp s, OSRdyTbl s) = (g, l)" by fastforce
  have m: "make_ready t s = s\<lparr>OSRdyGrp := g, OSRdyTbl := l\<rparr>" using assms(2) gl by (simp add: make_ready_def tcb_wf_def)
  have "list_ok g l" "prios l = insert p (rdy s)"
    using enter_prios [OF _ _ gl] assms by (auto simp: lists_ok_def tcb_wf_def rdy_def)
  then show "lists_ok (make_ready t s)" "rdy (make_ready t s) = insert p (rdy s)" using assms(1) by (simp_all add: m lists_ok_def rdy_def)
  show "wl (make_ready t s) = wl s" by (simp add: m wl_def fun_eq_iff)
  show "OSTCBPrioTbl (make_ready t s) = OSTCBPrioTbl s" "OSEvents (make_ready t s) = OSEvents s" by (simp_all add: m)
  show "os_frame s (make_ready t s)"
    by (simp add: m os_frame_def os_base_def)
qed

lemma make_unready_effect:
  assumes "lists_ok s" "tcb_wf p t"
  shows "lists_ok (make_unready t s)" "rdy (make_unready t s) = rdy s - {p}" "wl (make_unready t s) = wl s"
    "OSTCBPrioTbl (make_unready t s) = OSTCBPrioTbl s" "OSEvents (make_unready t s) = OSEvents s" "os_frame s (make_unready t s)"
proof -
  obtain g l where gl: "leave p (OSRdyGrp s, OSRdyTbl s) = (g, l)" by fastforce
  have m: "make_unready t s = s\<lparr>OSRdyGrp := g, OSRdyTbl := l\<rparr>" using assms(2) gl by (simp add: make_unready_def tcb_wf_def)
  have "list_ok g l" "prios l = rdy s - {p}"
    using leave_prios [OF _ _ gl] assms by (auto simp: lists_ok_def tcb_wf_def rdy_def)
  then show "lists_ok (make_unready t s)" "rdy (make_unready t s) = rdy s - {p}" using assms(1) by (simp_all add: m lists_ok_def rdy_def)
  show "wl (make_unready t s) = wl s" by (simp add: m wl_def fun_eq_iff)
  show "OSTCBPrioTbl (make_unready t s) = OSTCBPrioTbl s" "OSEvents (make_unready t s) = OSEvents s" by (simp_all add: m)
  show "os_frame s (make_unready t s)"
    by (simp add: m os_frame_def os_base_def)
qed

text \<open>A new wait list for one event.\<close>

lemma put_event_effect:
  assumes "lists_ok s" "i < length (OSEvents s)" "list_ok g l"
  defines "s' \<equiv> put_event i ((OSEvents s ! i)\<lparr>OSEventGrp := g, OSEventTbl := l\<rparr>) s"
  shows "lists_ok s'" "rdy s' = rdy s" "wl s' = (wl s)(i := prios l)" "OSTCBPrioTbl s' = OSTCBPrioTbl s" "os_frame s s'"
proof -
  show "lists_ok s'" "rdy s' = rdy s" "OSTCBPrioTbl s' = OSTCBPrioTbl s"
    using assms(1-3) by (auto simp: s'_def put_event_def lists_ok_def rdy_def nth_list_update)
  show "wl s' = (wl s)(i := prios l)" using assms(2) by (auto simp: s'_def put_event_def wl_def fun_eq_iff)
  have "map ev_core ((OSEvents s)[i := (OSEvents s ! i)\<lparr>OSEventGrp := g, OSEventTbl := l\<rparr>]) = map ev_core (OSEvents s)"
  proof (rule nth_equalityI)
    fix j assume "j < length (map ev_core ((OSEvents s)[i := (OSEvents s ! i)\<lparr>OSEventGrp := g, OSEventTbl := l\<rparr>]))"
    then show "map ev_core ((OSEvents s)[i := (OSEvents s ! i)\<lparr>OSEventGrp := g, OSEventTbl := l\<rparr>]) ! j = map ev_core (OSEvents s) ! j"
      by (cases "j = i") (simp_all add: ev_core_def)
  qed simp
  then show "os_frame s s'" by (simp add: os_frame_def os_base_def s'_def put_event_def)
qed

lemma remove_effect:
  assumes "lists_ok s" "tcb_wf p t" "i < length (OSEvents s)"
  shows "\<exists>s'. OS_EventTaskRemove t i s = Some s' \<and> lists_ok s' \<and> rdy s' = rdy s \<and> wl s' = (wl s)(i := wl s i - {p}) \<and>
    OSTCBPrioTbl s' = OSTCBPrioTbl s \<and> os_frame s s'"
proof -
  let ?v = "OSEvents s ! i"
  obtain g l where gl: "leave p (OSEventGrp ?v, OSEventTbl ?v) = (g, l)" by fastforce
  have "list_ok g l" "prios l = wl s i - {p}"
    using leave_prios [OF _ _ gl] assms by (auto simp: lists_ok_def tcb_wf_def wl_def)
  with put_event_effect [OF assms(1,3) this(1)] show ?thesis
    using assms(2,3) gl by (simp add: OS_EventTaskRemove_def get_event_def tcb_wf_def)
qed

section \<open>The invariant\<close>

text \<open>The status bit of a task that waits for an event of a type.\<close>

definition ev_mask :: "u8 \<Rightarrow> u8" where
  "ev_mask type = (if type = OS_EVENT_TYPE_SEM then OS_STAT_SEM else if type = OS_EVENT_TYPE_MBOX then OS_STAT_MBOX
     else if type = OS_EVENT_TYPE_Q then OS_STAT_Q else 0)"

definition pend_bits :: "OS_TCB \<Rightarrow> u8" where
  "pend_bits t = OSTCBStat t AND OS_STAT_PEND_ANY"

definition suspended :: "OS_TCB \<Rightarrow> bool" where
  "suspended t \<longleftrightarrow> OSTCBStat t AND OS_STAT_SUSPEND \<noteq> OS_STAT_RDY"

definition stat_ok :: "u8 \<Rightarrow> bool" where
  "stat_ok w \<longleftrightarrow> w \<in> {0, 1, 2, 4, 8, 9, 10, 12}"

text \<open>A task is ready exactly when its status is clear and it is not delayed. A task in a wait list points to the event and waits
  for it, or its time was over and it has not run since; a task that waits is in the list.\<close>

definition task_ok :: "'a os_scheme \<Rightarrow> nat \<Rightarrow> bool" where
  "task_ok s p \<longleftrightarrow>
     (case OSTCBPrioTbl s p of
        TCB t \<Rightarrow> tcb_wf p t \<and> stat_ok (OSTCBStat t) \<and> (p \<in> rdy s \<longleftrightarrow> OSTCBStat t = 0 \<and> OSTCBDly t = 0) \<and>
          (\<forall>i. p \<in> wl s i \<longrightarrow> OSTCBEventPtr t = Some i \<and>
             (pend_bits t = ev_mask (OSEventType (OSEvents s ! i)) \<or> pend_bits t = 0 \<and> OSTCBStatPend t = OS_STAT_PEND_TO \<and> OSTCBDly t = 0)) \<and>
          (pend_bits t \<noteq> 0 \<longrightarrow> (\<exists>i. OSTCBEventPtr t = Some i \<and> p \<in> wl s i))
      | _ \<Rightarrow> p \<notin> rdy s \<and> (\<forall>i. p \<notin> wl s i))"

text \<open>Tasks wait only for what is not there; a free event has no waiting tasks.\<close>

definition event_ok :: "'a os_scheme \<Rightarrow> nat \<Rightarrow> bool" where
  "event_ok s i \<longleftrightarrow> (let v = OSEvents s ! i in
     (OSEventType v = OS_EVENT_TYPE_SEM \<longrightarrow> OSEventCnt v \<noteq> 0 \<longrightarrow> wl s i = {}) \<and>
     (OSEventType v = OS_EVENT_TYPE_MBOX \<longrightarrow> OSEventPtr v \<noteq> 0 \<longrightarrow> wl s i = {}) \<and>
     (ev_mask (OSEventType v) = 0 \<longrightarrow> wl s i = {}))"

definition idle_ok :: "'a os_scheme \<Rightarrow> bool" where
  "idle_ok s \<longleftrightarrow> OS_TASK_IDLE_PRIO \<in> rdy s"

definition list_of_tasks :: "'a os_scheme \<Rightarrow> bool" where
  "list_of_tasks s \<longleftrightarrow> distinct (OSTCBList s) \<and> (\<forall>p. p \<in> set (OSTCBList s) \<longleftrightarrow> (\<exists>t. OSTCBPrioTbl s p = TCB t)) \<and>
     last (OSTCBList s) = OS_TASK_IDLE_PRIO"

definition free_ok :: "'a os_scheme \<Rightarrow> bool" where
  "free_ok s \<longleftrightarrow> distinct (OSEventFreeList s) \<and>
     (\<forall>i \<in> set (OSEventFreeList s). i < length (OSEvents s) \<and> OSEventType (OSEvents s ! i) = OS_EVENT_TYPE_UNUSED)"

definition os_inv :: "'a os_scheme \<Rightarrow> bool" where
  "os_inv s \<longleftrightarrow> lists_ok s \<and> (\<forall>p. task_ok s p) \<and> (\<forall>i < length (OSEvents s). event_ok s i) \<and> idle_ok s \<and> list_of_tasks s \<and> free_ok s"

lemma os_invD:
  assumes "os_inv s"
  shows "lists_ok s" "task_ok s p" "i < length (OSEvents s) \<Longrightarrow> event_ok s i" "idle_ok s" "list_of_tasks s" "free_ok s"
  using assms by (simp_all add: os_inv_def)

lemma stat_bits:
  assumes "stat_ok w"
  shows "w AND OS_STAT_PEND_ANY \<in> {0, 1, 2, 4}" "w AND OS_STAT_SUSPEND = 0 \<Longrightarrow> w AND OS_STAT_PEND_ANY = w"
    "w AND OS_STAT_PEND_ANY = 0 \<Longrightarrow> w \<in> {0, 8}" "stat_ok (w OR OS_STAT_SUSPEND)" "stat_ok (w AND NOT OS_STAT_SUSPEND)" "stat_ok (w AND NOT OS_STAT_PEND_ANY)"
    "(w AND NOT OS_STAT_PEND_ANY) AND OS_STAT_PEND_ANY = 0" "(w OR OS_STAT_SUSPEND) AND OS_STAT_PEND_ANY = w AND OS_STAT_PEND_ANY"
    "(w AND NOT OS_STAT_SUSPEND) AND OS_STAT_PEND_ANY = w AND OS_STAT_PEND_ANY" "w OR OS_STAT_SUSPEND \<noteq> 0"
    "(w AND NOT OS_STAT_PEND_ANY) AND OS_STAT_SUSPEND = w AND OS_STAT_SUSPEND" "(w AND NOT OS_STAT_SUSPEND) AND OS_STAT_SUSPEND = 0"
  using assms unfolding stat_ok_def OS_STAT_PEND_ANY_def OS_STAT_SUSPEND_def OS_STAT_SEM_def OS_STAT_MBOX_def OS_STAT_Q_def OS_STAT_MUTEX_def OS_STAT_FLAG_def
  by auto

lemma stat_zero:
  assumes "stat_ok w"
  shows "w = 0 \<longleftrightarrow> w AND OS_STAT_PEND_ANY = 0 \<and> w AND OS_STAT_SUSPEND = 0"
  using assms unfolding stat_ok_def OS_STAT_PEND_ANY_def OS_STAT_SUSPEND_def OS_STAT_SEM_def OS_STAT_MBOX_def OS_STAT_Q_def OS_STAT_MUTEX_def OS_STAT_FLAG_def
  by auto

section \<open>Changes to one task\<close>

definition only_task :: "nat \<Rightarrow> 'a os_scheme \<Rightarrow> 'a os_scheme \<Rightarrow> bool" where
  "only_task p s s' \<longleftrightarrow> os_frame s s' \<and> lists_ok s' \<and>
     (\<forall>q. q \<noteq> p \<longrightarrow> OSTCBPrioTbl s' q = OSTCBPrioTbl s q \<and> (q \<in> rdy s' \<longleftrightarrow> q \<in> rdy s) \<and> (\<forall>i. q \<in> wl s' i \<longleftrightarrow> q \<in> wl s i)) \<and>
     (\<exists>t. OSTCBPrioTbl s p = TCB t) \<and> (\<exists>t. OSTCBPrioTbl s' p = TCB t)"

text \<open>An event nobody may have to wait for.\<close>

definition nothing_there :: "'a os_scheme \<Rightarrow> nat \<Rightarrow> bool" where
  "nothing_there s i \<longleftrightarrow> (let v = OSEvents s ! i in
     (OSEventType v = OS_EVENT_TYPE_SEM \<longrightarrow> OSEventCnt v = 0) \<and> (OSEventType v = OS_EVENT_TYPE_MBOX \<longrightarrow> OSEventPtr v = 0) \<and>
     ev_mask (OSEventType v) \<noteq> 0)"

lemma wl_less: "p \<in> wl s i \<Longrightarrow> i < length (OSEvents s)"
  by (simp add: wl_def split: if_splits)

lemma os_inv_local:
  assumes "os_inv s" "only_task p s s'" "task_ok s' p" "p = OS_TASK_IDLE_PRIO \<Longrightarrow> p \<in> rdy s'"
    and "\<And>i. p \<in> wl s' i \<Longrightarrow> p \<in> wl s i \<or> nothing_there s i"
  shows "os_inv s'"
proof -
  have fr: "os_frame s s'" "lists_ok s'"
    and o: "\<And>q. q \<noteq> p \<Longrightarrow> OSTCBPrioTbl s' q = OSTCBPrioTbl s q \<and> (q \<in> rdy s' \<longleftrightarrow> q \<in> rdy s) \<and> (\<forall>i. q \<in> wl s' i \<longleftrightarrow> q \<in> wl s i)"
    and tp: "\<exists>t. OSTCBPrioTbl s p = TCB t" "\<exists>t. OSTCBPrioTbl s' p = TCB t"
    using assms(2) unfolding only_task_def by blast+
  note f = os_frame_simps [OF fr(1)] and c = os_frame_core [OF fr(1)]
  have "task_ok s' q" for q
  proof (cases "q = p")
    case False
    have "task_ok s q" by (rule os_invD(2) [OF assms(1)])
    then show ?thesis using o [OF False] c(1) wl_less [of q s] unfolding task_ok_def by (auto split: tcb_ptr.splits)
  qed (use assms(3) in simp)
  moreover have "event_ok s' i" if i: "i < length (OSEvents s')" for i
  proof -
    have e: "event_ok s i" using os_invD(3) [OF assms(1)] i f(7) by simp
    have "wl s' i = {}" if w: "wl s i = {}" and n: "\<not> nothing_there s i"
    proof -
      have "q \<notin> wl s' i" for q using o [of q] assms(5) [of i] w n by (cases "q = p") auto
      then show ?thesis by blast
    qed
    then show ?thesis using e c [of i] i f(7) unfolding event_ok_def nothing_there_def Let_def by auto
  qed
  moreover have "idle_ok s'" using os_invD(4) [OF assms(1)] o assms(4) unfolding idle_ok_def by (cases "p = OS_TASK_IDLE_PRIO") auto
  moreover have "(\<exists>t. OSTCBPrioTbl s' q = TCB t) \<longleftrightarrow> (\<exists>t. OSTCBPrioTbl s q = TCB t)" for q using o tp by (cases "q = p") auto
  then have "list_of_tasks s'" using os_invD(5) [OF assms(1)] f(6) unfolding list_of_tasks_def by simp
  moreover have "free_ok s'" using os_invD(6) [OF assms(1)] f(7,8) c(1) unfolding free_ok_def by simp
  ultimately show ?thesis using fr(2) by (simp add: os_inv_def)
qed

lemma task_okD:
  assumes "task_ok s p" "OSTCBPrioTbl s p = TCB t"
  shows "tcb_wf p t" "stat_ok (OSTCBStat t)" "p \<in> rdy s \<longleftrightarrow> OSTCBStat t = 0 \<and> OSTCBDly t = 0"
    "p \<in> wl s i \<Longrightarrow> OSTCBEventPtr t = Some i"
    "p \<in> wl s i \<Longrightarrow> pend_bits t = ev_mask (OSEventType (OSEvents s ! i)) \<or> pend_bits t = 0 \<and> OSTCBStatPend t = OS_STAT_PEND_TO \<and> OSTCBDly t = 0"
    "pend_bits t \<noteq> 0 \<Longrightarrow> \<exists>i. OSTCBEventPtr t = Some i \<and> p \<in> wl s i"
  using assms by (auto simp: task_ok_def)

lemma wl_mask:
  assumes "os_inv s" "p \<in> wl s i"
  shows "ev_mask (OSEventType (OSEvents s ! i)) \<noteq> 0"
  using os_invD(3) [OF assms(1) wl_less [OF assms(2)]] assms(2) by (auto simp: event_ok_def Let_def)

lemma idle_task:
  assumes "os_inv s"
  shows "\<exists>t. OSTCBPrioTbl s OS_TASK_IDLE_PRIO = TCB t \<and> OSTCBStat t = 0 \<and> OSTCBDly t = 0"
  using os_invD(2) [OF assms, of OS_TASK_IDLE_PRIO] os_invD(4) [OF assms] by (auto simp: task_ok_def idle_ok_def split: tcb_ptr.splits)

text \<open>A block is written, and the task made ready or not.\<close>

lemma put_only:
  assumes "os_inv s" "OSTCBPrioTbl s p = TCB t" "tcb_wf p t'"
  shows "only_task p s (put_tcb p t' s)" "only_task p s (make_ready t' (put_tcb p t' s))" "only_task p s (make_unready t' (put_tcb p t' s))"
    "rdy (make_ready t' (put_tcb p t' s)) = insert p (rdy s)" "rdy (make_unready t' (put_tcb p t' s)) = rdy s - {p}"
    "wl (make_ready t' (put_tcb p t' s)) = wl s" "wl (make_unready t' (put_tcb p t' s)) = wl s"
    "OSTCBPrioTbl (make_ready t' (put_tcb p t' s)) = (OSTCBPrioTbl s)(p := TCB t')"
    "OSTCBPrioTbl (make_unready t' (put_tcb p t' s)) = (OSTCBPrioTbl s)(p := TCB t')"
    "OSEvents (make_ready t' (put_tcb p t' s)) = OSEvents s"
proof -
  have l: "lists_ok (put_tcb p t' s)" using os_invD(1) [OF assms(1)] by simp
  note r = make_ready_effect [OF l assms(3)] and u = make_unready_effect [OF l assms(3)]
  have f: "os_frame s (make_ready t' (put_tcb p t' s))" "os_frame s (make_unready t' (put_tcb p t' s))"
    using r(6) u(6) os_frame_trans [of s "put_tcb p t' s"] by simp_all
  show "only_task p s (put_tcb p t' s)" "only_task p s (make_ready t' (put_tcb p t' s))" "only_task p s (make_unready t' (put_tcb p t' s))"
    using l r u f assms(2) by (auto simp: only_task_def)
  show "rdy (make_ready t' (put_tcb p t' s)) = insert p (rdy s)" "rdy (make_unready t' (put_tcb p t' s)) = rdy s - {p}"
    "wl (make_ready t' (put_tcb p t' s)) = wl s" "wl (make_unready t' (put_tcb p t' s)) = wl s"
    "OSTCBPrioTbl (make_ready t' (put_tcb p t' s)) = (OSTCBPrioTbl s)(p := TCB t')"
    "OSTCBPrioTbl (make_unready t' (put_tcb p t' s)) = (OSTCBPrioTbl s)(p := TCB t')"
    "OSEvents (make_ready t' (put_tcb p t' s)) = OSEvents s"
    using r u by simp_all
qed

lemma put_make_comm: "make_unready t (put_tcb p t' s) = put_tcb p t' (make_unready t s)"
  by (simp add: make_unready_def put_tcb_def split: prod.splits)

lemma make_same: "OSTCBBitX t' = OSTCBBitX t \<Longrightarrow> OSTCBBitY t' = OSTCBBitY t \<Longrightarrow> OSTCBY t' = OSTCBY t \<Longrightarrow>
    make_unready t' s = make_unready t s \<and> make_ready t' s = make_ready t s"
  by (simp add: make_unready_def make_ready_def)

text \<open>The time of a task is over.\<close>

lemma time_over_inv:
  assumes "os_inv s" "OSTCBPrioTbl s p = TCB t0" "OSTCBDly t0 \<noteq> 0" "t = t0\<lparr>OSTCBDly := 0\<rparr>"
  shows "os_inv (time_over p t s)" "only_task p s (time_over p t s)"
    "\<exists>t'. OSTCBPrioTbl (time_over p t s) p = TCB t' \<and> OSTCBDly t' = 0 \<and> pend_bits t' = 0 \<and> (suspended t' \<longleftrightarrow> suspended t0) \<and>
       OSTCBEventPtr t' = OSTCBEventPtr t0"
    "rdy (time_over p t s) = (if suspended t0 then rdy s else insert p (rdy s))" "wl (time_over p t s) = wl s"
proof -
  have tk: "task_ok s p" by (rule os_invD(2) [OF assms(1)])
  note d = task_okD [OF tk assms(2)] and b = stat_bits [OF d(2)]
  define t1 where "t1 = (if OSTCBStat t AND OS_STAT_PEND_ANY \<noteq> OS_STAT_RDY
      then t\<lparr>OSTCBStat := OSTCBStat t AND NOT OS_STAT_PEND_ANY, OSTCBStatPend := OS_STAT_PEND_TO\<rparr> else t\<lparr>OSTCBStatPend := OS_STAT_PEND_OK\<rparr>)"
  have wf: "tcb_wf p t1" using d(1) by (simp add: t1_def assms(4) tcb_wf_def)
  have z: "OS_STAT_RDY = 0" by (simp add: OS_STAT_RDY_def)
  have p1: "pend_bits t1 = 0" "OSTCBDly t1 = 0" "OSTCBEventPtr t1 = OSTCBEventPtr t0" "stat_ok (OSTCBStat t1)"
      "OSTCBStat t1 AND OS_STAT_SUSPEND = OSTCBStat t0 AND OS_STAT_SUSPEND"
    using b d(2) by (simp_all add: t1_def assms(4) pend_bits_def z)
  have st0: "OSTCBStat t1 = 0 \<longleftrightarrow> \<not> suspended t0"
    using stat_zero [OF p1(4)] p1(1,5) by (simp add: pend_bits_def suspended_def z)
  have to: "OSTCBStatPend t1 = OS_STAT_PEND_TO" if "p \<in> wl s i" "pend_bits t0 \<noteq> 0" for i
    using that by (simp add: t1_def assms(4) pend_bits_def z)
  note pt = put_only [OF assms(1,2) wf]
  have eq: "time_over p t s = (if suspended t0 then put_tcb p t1 s else make_ready t1 (put_tcb p t1 s))"
    using p1(5) by (simp add: time_over_def t1_def suspended_def z Let_def)
  show only: "only_task p s (time_over p t s)" using pt(1,2) by (simp add: eq)
  show r: "rdy (time_over p t s) = (if suspended t0 then rdy s else insert p (rdy s))" "wl (time_over p t s) = wl s"
    using pt(4,6) by (simp_all add: eq)
  have tb: "OSTCBPrioTbl (time_over p t s) p = TCB t1" using pt(8) by (simp add: eq)
  then show "\<exists>t'. OSTCBPrioTbl (time_over p t s) p = TCB t' \<and> OSTCBDly t' = 0 \<and> pend_bits t' = 0 \<and> (suspended t' \<longleftrightarrow> suspended t0) \<and>
       OSTCBEventPtr t' = OSTCBEventPtr t0" using p1 by (simp add: suspended_def)
  have np: "p \<notin> rdy s" using d(3) assms(3) by simp
  have "task_ok (time_over p t s) p"
    unfolding task_ok_def tb tcb_ptr.case r
  proof (intro conjI allI impI)
    show "p \<in> (if suspended t0 then rdy s else insert p (rdy s)) \<longleftrightarrow> OSTCBStat t1 = 0 \<and> OSTCBDly t1 = 0" using st0 p1(2) np by simp
    fix i assume i: "p \<in> wl s i"
    show "OSTCBEventPtr t1 = Some i" using d(4) [OF i] p1(3) by simp
    have "pend_bits t0 \<noteq> 0" using d(5) [OF i] wl_mask [OF assms(1) i] assms(3) by auto
    then show "pend_bits t1 = ev_mask (OSEventType (OSEvents (time_over p t s) ! i)) \<or>
        pend_bits t1 = 0 \<and> OSTCBStatPend t1 = OS_STAT_PEND_TO \<and> OSTCBDly t1 = 0" using to [OF i] p1 by simp
  qed (use wf p1 in simp_all)
  moreover have "p \<noteq> OS_TASK_IDLE_PRIO" using np os_invD(4) [OF assms(1)] by (auto simp: idle_ok_def)
  ultimately show "os_inv (time_over p t s)" using r by (intro os_inv_local [OF assms(1) only]) auto
qed

text \<open>One task of a clock tick, and the tick.\<close>

lemma tick_tcb_inv:
  assumes "os_inv s" "OSTCBPrioTbl s p = TCB t"
  shows "os_inv (tick_tcb p t s)" "only_task p s (tick_tcb p t s)" "wl (tick_tcb p t s) = wl s"
    "\<exists>t'. OSTCBPrioTbl (tick_tcb p t s) p = TCB t' \<and> OSTCBEventPtr t' = OSTCBEventPtr t"
    "OSTCBDly t \<noteq> 1 \<Longrightarrow> rdy (tick_tcb p t s) = rdy s"
    "OSTCBDly t = 1 \<Longrightarrow> rdy (tick_tcb p t s) = (if suspended t then rdy s else insert p (rdy s))"
    "\<exists>t'. OSTCBPrioTbl (tick_tcb p t s) p = TCB t' \<and> OSTCBDly t' = (if OSTCBDly t = 0 then 0 else OSTCBDly t - 1) \<and>
       (OSTCBDly t \<noteq> 1 \<longrightarrow> OSTCBStat t' = OSTCBStat t \<and> OSTCBStatPend t' = OSTCBStatPend t) \<and> (suspended t' \<longleftrightarrow> suspended t)"
proof -
  have tk: "task_ok s p" by (rule os_invD(2) [OF assms(1)])
  note d = task_okD [OF tk assms(2)]
  have "os_inv (tick_tcb p t s) \<and> only_task p s (tick_tcb p t s) \<and> wl (tick_tcb p t s) = wl s \<and>
    (\<exists>t'. OSTCBPrioTbl (tick_tcb p t s) p = TCB t' \<and> OSTCBEventPtr t' = OSTCBEventPtr t) \<and>
    (OSTCBDly t \<noteq> 1 \<longrightarrow> rdy (tick_tcb p t s) = rdy s) \<and>
    (OSTCBDly t = 1 \<longrightarrow> rdy (tick_tcb p t s) = (if suspended t then rdy s else insert p (rdy s))) \<and>
    (\<exists>t'. OSTCBPrioTbl (tick_tcb p t s) p = TCB t' \<and> OSTCBDly t' = (if OSTCBDly t = 0 then 0 else OSTCBDly t - 1) \<and>
       (OSTCBDly t \<noteq> 1 \<longrightarrow> OSTCBStat t' = OSTCBStat t \<and> OSTCBStatPend t' = OSTCBStatPend t) \<and> (suspended t' \<longleftrightarrow> suspended t))"
  proof (cases "OSTCBDly t = 0 \<or> OSTCBDly t = 1")
    case True
    then show ?thesis
    proof
      assume z: "OSTCBDly t = 0"
      have "only_task p s s" using os_invD(1) [OF assms(1)] assms(2) by (simp add: only_task_def)
      then show ?thesis using z assms by (simp add: tick_tcb_def)
    next
      assume o: "OSTCBDly t = 1"
      then have "tick_tcb p t s = time_over p (t\<lparr>OSTCBDly := 0\<rparr>) s" by (simp add: tick_tcb_def)
      then show ?thesis using time_over_inv [OF assms(1,2) _ refl] o by auto
    qed
  next
    case False
    define t1 where "t1 = t\<lparr>OSTCBDly := OSTCBDly t - 1\<rparr>"
    have eq: "tick_tcb p t s = put_tcb p t1 s" using False by (simp add: tick_tcb_def t1_def Let_def)
    have wf: "tcb_wf p t1" using d(1) by (simp add: t1_def tcb_wf_def)
    have np: "p \<notin> rdy s" using d(3) False by simp
    have nz: "OSTCBDly t1 \<noteq> 0" using False by (simp add: t1_def)
    have "task_ok (put_tcb p t1 s) p"
      unfolding task_ok_def put_tcb_simps fun_upd_same tcb_ptr.case
    proof (intro conjI allI impI)
      fix i assume i: "p \<in> wl s i"
      show "OSTCBEventPtr t1 = Some i" using d(4) [OF i] by (simp add: t1_def)
      show "pend_bits t1 = ev_mask (OSEventType (OSEvents s ! i)) \<or> pend_bits t1 = 0 \<and> OSTCBStatPend t1 = OS_STAT_PEND_TO \<and> OSTCBDly t1 = 0"
        using d(5) [OF i] False by (auto simp: t1_def pend_bits_def)
    qed (use wf d np nz in \<open>simp_all add: t1_def pend_bits_def\<close>)
    moreover have "p \<noteq> OS_TASK_IDLE_PRIO" using np os_invD(4) [OF assms(1)] by (auto simp: idle_ok_def)
    ultimately have "os_inv (put_tcb p t1 s)" by (intro os_inv_local [OF assms(1) put_only(1) [OF assms(1,2) wf]]) auto
    then show ?thesis using put_only(1) [OF assms(1,2) wf] False by (simp add: eq t1_def suspended_def)
  qed
  then show "os_inv (tick_tcb p t s)" "only_task p s (tick_tcb p t s)" "wl (tick_tcb p t s) = wl s"
    "\<exists>t'. OSTCBPrioTbl (tick_tcb p t s) p = TCB t' \<and> OSTCBEventPtr t' = OSTCBEventPtr t"
    "OSTCBDly t \<noteq> 1 \<Longrightarrow> rdy (tick_tcb p t s) = rdy s"
    "OSTCBDly t = 1 \<Longrightarrow> rdy (tick_tcb p t s) = (if suspended t then rdy s else insert p (rdy s))"
    "\<exists>t'. OSTCBPrioTbl (tick_tcb p t s) p = TCB t' \<and> OSTCBDly t' = (if OSTCBDly t = 0 then 0 else OSTCBDly t - 1) \<and>
       (OSTCBDly t \<noteq> 1 \<longrightarrow> OSTCBStat t' = OSTCBStat t \<and> OSTCBStatPend t' = OSTCBStatPend t) \<and> (suspended t' \<longleftrightarrow> suspended t)"
    by blast+
qed

text \<open>The invariant is about six of the variables.\<close>

definition same_lists :: "'a os_scheme \<Rightarrow> 'a os_scheme \<Rightarrow> bool" where
  "same_lists s s' \<longleftrightarrow> OSRdyGrp s' = OSRdyGrp s \<and> OSRdyTbl s' = OSRdyTbl s \<and> OSTCBPrioTbl s' = OSTCBPrioTbl s \<and> OSEvents s' = OSEvents s \<and>
     OSTCBList s' = OSTCBList s \<and> OSEventFreeList s' = OSEventFreeList s"

lemma same_lists_views:
  assumes "same_lists s s'"
  shows "rdy s' = rdy s" "wl s' = wl s" "lists_ok s' = lists_ok s" "OSTCBPrioTbl s' = OSTCBPrioTbl s" "OSEvents s' = OSEvents s"
    "os_inv s' = os_inv s"
proof -
  show v: "rdy s' = rdy s" "wl s' = wl s" "lists_ok s' = lists_ok s" "OSTCBPrioTbl s' = OSTCBPrioTbl s" "OSEvents s' = OSEvents s"
    using assms by (simp_all add: same_lists_def rdy_def wl_def lists_ok_def fun_eq_iff)
  have "OSTCBList s' = OSTCBList s" "OSEventFreeList s' = OSEventFreeList s" using assms by (simp_all add: same_lists_def)
  then show "os_inv s' = os_inv s"
    unfolding os_inv_def task_ok_def event_ok_def idle_ok_def list_of_tasks_def free_ok_def v by simp
qed

definition ticked :: "'a os_scheme \<Rightarrow> 'a os_scheme \<Rightarrow> nat \<Rightarrow> bool" where
  "ticked s s' p \<longleftrightarrow> (\<forall>t. OSTCBPrioTbl s p = TCB t \<longrightarrow> (\<exists>t'. OSTCBPrioTbl s' p = TCB t' \<and> OSTCBEventPtr t' = OSTCBEventPtr t \<and>
     OSTCBDly t' = (if OSTCBDly t = 0 then 0 else OSTCBDly t - 1) \<and> (suspended t' \<longleftrightarrow> suspended t) \<and>
     (OSTCBDly t \<noteq> 1 \<longrightarrow> OSTCBStat t' = OSTCBStat t \<and> OSTCBStatPend t' = OSTCBStatPend t) \<and>
     (p \<in> rdy s' \<longleftrightarrow> p \<in> rdy s \<or> OSTCBDly t = 1 \<and> \<not> suspended t)))"

lemma tick_ticked:
  assumes "os_inv s" "OSTCBPrioTbl s p = TCB t"
  shows "ticked s (tick_tcb p t s) p"
proof -
  note i = tick_tcb_inv [OF assms]
  obtain t' where "OSTCBPrioTbl (tick_tcb p t s) p = TCB t'" "OSTCBDly t' = (if OSTCBDly t = 0 then 0 else OSTCBDly t - 1)"
      "OSTCBDly t \<noteq> 1 \<longrightarrow> OSTCBStat t' = OSTCBStat t \<and> OSTCBStatPend t' = OSTCBStatPend t" "suspended t' \<longleftrightarrow> suspended t"
    using i(7) by blast
  moreover have "p \<in> rdy (tick_tcb p t s) \<longleftrightarrow> p \<in> rdy s \<or> OSTCBDly t = 1 \<and> \<not> suspended t"
    using i(5,6) by (cases "OSTCBDly t = 1") auto
  ultimately show ?thesis using i(4) assms(2) by (simp add: ticked_def)
qed

lemma tick_list_inv:
  assumes "os_inv s" "ps \<noteq> []" "last ps = OS_TASK_IDLE_PRIO" "distinct ps" "\<forall>p \<in> set ps. \<exists>t. OSTCBPrioTbl s p = TCB t"
  shows "\<exists>s'. tick_list ps s = Some s' \<and> os_inv s' \<and> os_frame s s' \<and> wl s' = wl s \<and> (\<forall>p \<in> set ps. ticked s s' p) \<and>
    (\<forall>p. p \<notin> set ps \<longrightarrow> OSTCBPrioTbl s' p = OSTCBPrioTbl s p \<and> (p \<in> rdy s' \<longleftrightarrow> p \<in> rdy s))"
  using assms
proof (induction ps arbitrary: s)
  case (Cons p ps)
  obtain t where t: "OSTCBPrioTbl s p = TCB t" using Cons.prems(5) by auto
  have pr: "OSTCBPrio t = p" using task_okD(1) [OF os_invD(2) [OF Cons.prems(1)] t] by (simp add: tcb_wf_def)
  show ?case
  proof (cases "p = OS_TASK_IDLE_PRIO")
    case True
    have "ps = []"
    proof (rule ccontr)
      assume "ps \<noteq> []"
      then have "p \<in> set ps" using Cons.prems(3) True last_in_set [of ps] by simp
      then show False using Cons.prems(4) by simp
    qed
    moreover have "ticked s s p"
      using idle_task [OF Cons.prems(1)] True by (auto simp: ticked_def)
    ultimately show ?thesis using t pr True Cons.prems(1) by (simp add: get_tcb_some)
  next
    case False
    let ?s = "tick_tcb p t s"
    note i = tick_tcb_inv [OF Cons.prems(1) t]
    have o: "\<And>q. q \<noteq> p \<Longrightarrow> OSTCBPrioTbl ?s q = OSTCBPrioTbl s q \<and> (q \<in> rdy ?s \<longleftrightarrow> q \<in> rdy s)" and fr: "os_frame s ?s"
      using i(2) by (simp_all add: only_task_def)
    have ne: "ps \<noteq> []" using Cons.prems(3) False by auto
    have "\<exists>s'. tick_list ps ?s = Some s' \<and> os_inv s' \<and> os_frame ?s s' \<and> wl s' = wl ?s \<and> (\<forall>p \<in> set ps. ticked ?s s' p) \<and>
        (\<forall>p. p \<notin> set ps \<longrightarrow> OSTCBPrioTbl s' p = OSTCBPrioTbl ?s p \<and> (p \<in> rdy s' \<longleftrightarrow> p \<in> rdy ?s))"
    proof (rule Cons.IH [OF i(1) ne])
      show "\<forall>q \<in> set ps. \<exists>t. OSTCBPrioTbl ?s q = TCB t" using Cons.prems(4,5) o by (metis distinct.simps(2) list.set_intros(2))
    qed (use Cons.prems(3,4) ne in simp_all)
    then obtain s' where s': "tick_list ps ?s = Some s'" "os_inv s'" "os_frame ?s s'" "wl s' = wl ?s" "\<And>q. q \<in> set ps \<Longrightarrow> ticked ?s s' q"
        "\<And>q. q \<notin> set ps \<Longrightarrow> OSTCBPrioTbl s' q = OSTCBPrioTbl ?s q \<and> (q \<in> rdy s' \<longleftrightarrow> q \<in> rdy ?s)" by blast
    have "ticked s s' q" if "q \<in> set (p # ps)" for q
    proof (cases "q = p")
      case True
      then show ?thesis using tick_ticked [OF Cons.prems(1) t] s'(6) [of p] Cons.prems(4) by (simp add: ticked_def)
    next
      case False
      then show ?thesis using s'(5) [of q] o [OF False] that by (simp add: ticked_def)
    qed
    moreover have "tick_list (p # ps) s = Some s'" using s'(1) t pr False by (simp add: get_tcb_some)
    moreover have "os_frame s s'" using fr s'(3) by (rule os_frame_trans)
    ultimately show ?thesis using s'(2,4,6) i(3) o by (intro exI [of _ s']) auto
  qed
qed simp

lemma OSTimeTick_inv:
  assumes "os_inv s"
  shows "\<exists>s'. OSTimeTick s = Some s' \<and> os_inv s' \<and> wl s' = wl s \<and> OSTime s' = OSTime s + 1 \<and> OSRunning s' = OSRunning s \<and>
    OSIntNesting s' = OSIntNesting s \<and> OSLockNesting s' = OSLockNesting s \<and> OSPrioCur s' = OSPrioCur s \<and> OSTCBCur s' = OSTCBCur s \<and>
    os.more s' = os.more s \<and> (\<forall>p. (\<exists>t. OSTCBPrioTbl s' p = TCB t) \<longleftrightarrow> (\<exists>t. OSTCBPrioTbl s p = TCB t)) \<and>
    length (OSEvents s') = length (OSEvents s) \<and> (\<forall>p t'. OSTCBPrioTbl s' p = TCB t' \<longrightarrow> (\<exists>t. OSTCBPrioTbl s p = TCB t \<and> OSTCBEventPtr t' = OSTCBEventPtr t)) \<and>
    (OSRunning s \<longrightarrow> OSTickStepState s = 0 \<longrightarrow> OSTickStepState s' = 0 \<and> (\<forall>p. ticked s s' p))"
proof -
  define s1 where "s1 = s\<lparr>OSTime := OSTime s + 1\<rparr>"
  obtain step st where st: "tick_step (OSTickStepState s1) = (step, st)" by fastforce
  define s2 where "s2 = s1\<lparr>OSTickStepState := st\<rparr>"
  have l1: "same_lists s s1" "same_lists s s2" by (simp_all add: s1_def s2_def same_lists_def)
  note v1 = same_lists_views [OF l1(1)] and v2 = same_lists_views [OF l1(2)]
  have lt: "list_of_tasks s" by (rule os_invD(5) [OF assms])
  then have "OS_TASK_IDLE_PRIO \<in> set (OSTCBList s)" using idle_task [OF assms] by (auto simp: list_of_tasks_def)
  then have ne: "OSTCBList s \<noteq> []" by auto
  have tsk: "\<forall>p \<in> set (OSTCBList s). \<exists>t. OSTCBPrioTbl s p = TCB t" using lt by (simp add: list_of_tasks_def)
  then obtain s3 where s3: "tick_list (OSTCBList s) s2 = Some s3" "os_inv s3" "os_frame s2 s3" "wl s3 = wl s2" "\<And>p. p \<in> set (OSTCBList s) \<Longrightarrow> ticked s2 s3 p"
      "\<And>p. p \<notin> set (OSTCBList s) \<Longrightarrow> OSTCBPrioTbl s3 p = OSTCBPrioTbl s2 p"
    using tick_list_inv [of s2 "OSTCBList s"] v2 assms lt ne by (auto simp: list_of_tasks_def)
  note f = os_frame_simps [OF s3(3)]
  have tk: "ticked s s3 p" for p
  proof (cases "p \<in> set (OSTCBList s)")
    case True
    then show ?thesis using s3(5) [OF True] v2 by (simp add: ticked_def)
  next
    case False
    then have "\<nexists>t. OSTCBPrioTbl s p = TCB t" using lt by (simp add: list_of_tasks_def)
    then show ?thesis by (simp add: ticked_def)
  qed
  have ex: "(\<exists>t. OSTCBPrioTbl s3 p = TCB t) \<longleftrightarrow> (\<exists>t. OSTCBPrioTbl s p = TCB t)" for p
  proof (cases "p \<in> set (OSTCBList s)")
    case True
    then obtain t where "OSTCBPrioTbl s p = TCB t" using tsk by blast
    then show ?thesis using tk [of p] by (auto simp: ticked_def)
  qed (use s3(6) v2(4) in simp)
  have evp: "\<exists>t. OSTCBPrioTbl s p = TCB t \<and> OSTCBEventPtr t' = OSTCBEventPtr t" if h: "OSTCBPrioTbl s3 p = TCB t'" for p t'
  proof -
    obtain t where "OSTCBPrioTbl s p = TCB t" using ex [of p] h by blast
    then show ?thesis using tk [of p] h by (auto simp: ticked_def)
  qed
  show ?thesis
  proof (cases "OSRunning s")
    case False
    then have "OSTimeTick s = Some s1" by (simp add: OSTimeTick_def s1_def Let_def)
    then show ?thesis using False v1 assms by (intro exI [of _ s1]) (simp add: s1_def)
  next
    case True
    have eq: "OSTimeTick s = (if step then Some s3 else Some s2)"
      using True s3(1) st by (simp add: OSTimeTick_def s1_def s2_def Let_def)
    show ?thesis
    proof (cases step)
      case st2: True
      have "OSTickStepState s = 0 \<longrightarrow> OSTickStepState s3 = 0"
      proof
        assume "OSTickStepState s = 0"
        then have "st = 0" using st by (simp add: tick_step_def s1_def)
        moreover have "OSTickStepState (os_base s3) = OSTickStepState (os_base s2)" using s3(3) by (simp add: os_frame_def)
        ultimately show "OSTickStepState s3 = 0" by (simp add: os_base_def s2_def)
      qed
      then show ?thesis using eq st2 s3(2,4) f tk ex evp v2 by (intro exI [of _ s3]) (simp add: s1_def s2_def)
    next
      case st2: False
      then have "OSTickStepState s \<noteq> 0" using st by (auto simp: tick_step_def s1_def split: if_splits)
      then show ?thesis using eq st2 v2 assms by (intro exI [of _ s2]) (simp add: s1_def s2_def)
    qed
  qed
qed

section \<open>Waking and waiting\<close>

lemma mask_bits:
  assumes "stat_ok w" "m = ev_mask type" "m \<noteq> 0" "w AND OS_STAT_PEND_ANY = m \<or> w AND OS_STAT_PEND_ANY = 0"
  shows "stat_ok (w AND NOT m)" "(w AND NOT m) AND OS_STAT_PEND_ANY = 0" "(w AND NOT m) AND OS_STAT_SUSPEND = w AND OS_STAT_SUSPEND"
    "(0 OR m) AND OS_STAT_PEND_ANY = m" "stat_ok m"
proof -
  have "m \<in> {1, 2, 4}" using assms(2,3) by (auto simp: ev_mask_def OS_STAT_SEM_def OS_STAT_MBOX_def OS_STAT_Q_def split: if_splits)
  then show "stat_ok (w AND NOT m)" "(w AND NOT m) AND OS_STAT_PEND_ANY = 0" "(w AND NOT m) AND OS_STAT_SUSPEND = w AND OS_STAT_SUSPEND"
    "(0 OR m) AND OS_STAT_PEND_ANY = m" "stat_ok m"
    using assms(1,4) unfolding stat_ok_def OS_STAT_PEND_ANY_def OS_STAT_SUSPEND_def OS_STAT_SEM_def OS_STAT_MBOX_def OS_STAT_Q_def OS_STAT_MUTEX_def OS_STAT_FLAG_def
    by auto
qed

lemma grp_wl:
  assumes "lists_ok s" "i < length (OSEvents s)"
  shows "OSEventGrp (OSEvents s ! i) = 0 \<longleftrightarrow> wl s i = {}"
  using assms list_ok_empty by (auto simp: lists_ok_def wl_def)

lemma EventTaskRdy_eq:
  assumes "get_event i s = Some v" "highest (OSEventGrp v) (OSEventTbl v) = p" "get_tcb p s = Some t" "OSUnMapTbl ! unat (OSEventGrp v) = OSTCBY t"
    and "t1 = t\<lparr>OSTCBDly := 0, OSTCBMsg := m, OSTCBStat := OSTCBStat t AND NOT msk, OSTCBStatPend := st\<rparr>" "OSTCBEventMultiPtr t = None"
  shows "OS_EventTaskRdy i m msk st s =
    map_option (Pair p) (OS_EventTaskRemove t1 i (if suspended t1 then put_tcb p t1 s else make_ready t1 (put_tcb p t1 s)))"
proof -
  have m: "OSTCBEventMultiPtr t1 = None" "OSTCBY t1 = OSTCBY t" using assms(5,6) by simp_all
  have "OS_EventTaskRdy i m msk st s =
      OS_EventTaskRemove t1 i (if suspended t1 then put_tcb p t1 s else make_ready t1 (put_tcb p t1 s)) \<bind> (\<lambda>s3. Some (p, s3))"
    unfolding OS_EventTaskRdy_def assms(1,3) Option.bind.simps Let_def assms(2,4) assms(5) [symmetric] m option.case
    by (simp add: suspended_def OS_STAT_RDY_def make_ready_def m)
  then show ?thesis by (cases "OS_EventTaskRemove t1 i (if suspended t1 then put_tcb p t1 s else make_ready t1 (put_tcb p t1 s))") simp_all
qed

lemma EventTaskRdy_inv:
  assumes "os_inv s" "i < length (OSEvents s)" "wl s i \<noteq> {}" "msk = ev_mask (OSEventType (OSEvents s ! i))"
  defines "p \<equiv> Min (wl s i)"
  shows "\<exists>t t' s'. OSTCBPrioTbl s p = TCB t \<and> OS_EventTaskRdy i m msk st s = Some (p, s') \<and> os_inv s' \<and> only_task p s s' \<and> p \<in> wl s i \<and>
    wl s' = (wl s)(i := wl s i - {p}) \<and> OSTCBPrioTbl s' p = TCB t' \<and> OSTCBMsg t' = m \<and> OSTCBStatPend t' = st \<and> pend_bits t' = 0 \<and>
    (suspended t' \<longleftrightarrow> suspended t) \<and> rdy s' = (if suspended t then rdy s else insert p (rdy s))"
proof -
  let ?v = "OSEvents s ! i"
  have lo: "lists_ok s" and ev: "list_ok (OSEventGrp ?v) (OSEventTbl ?v)" and w: "prios (OSEventTbl ?v) = wl s i"
    using os_invD(1) [OF assms(1)] assms(2) by (auto simp: lists_ok_def wl_def)
  have g: "OSEventGrp ?v \<noteq> 0" using grp_wl [OF lo assms(2)] assms(3) by simp
  note h = highest_Min [OF ev g, unfolded w, folded p_def]
  obtain t where t: "OSTCBPrioTbl s p = TCB t"
    using os_invD(2) [OF assms(1), of p] h(1,2) by (auto simp: task_ok_def split: tcb_ptr.splits)
  have tk: "task_ok s p" by (rule os_invD(2) [OF assms(1)])
  have pw: "p \<in> wl s i" using h(1,2) by simp
  note d = task_okD [OF tk t]
  have nz: "msk \<noteq> 0" using wl_mask [OF assms(1) pw] assms(4) by simp
  have pb: "pend_bits t = msk \<or> pend_bits t = 0" using d(5) [OF pw] assms(4) by auto
  note b = mask_bits [OF d(2) assms(4) nz pb [unfolded pend_bits_def]]
  define t1 where "t1 = t\<lparr>OSTCBDly := 0, OSTCBMsg := m, OSTCBStat := OSTCBStat t AND NOT msk, OSTCBStatPend := st\<rparr>"
  have wf: "tcb_wf p t1" using d(1) by (simp add: t1_def tcb_wf_def)
  have z: "OS_STAT_RDY = 0" by (simp add: OS_STAT_RDY_def)
  have p1: "pend_bits t1 = 0" "OSTCBDly t1 = 0" "stat_ok (OSTCBStat t1)" "suspended t1 \<longleftrightarrow> suspended t" "OSTCBEventMultiPtr t1 = None"
    using b wf by (simp_all add: t1_def pend_bits_def suspended_def tcb_wf_def)
  have st0: "OSTCBStat t1 = 0 \<longleftrightarrow> \<not> suspended t"
    using stat_zero [OF p1(3)] p1(1,4) by (simp add: pend_bits_def suspended_def z)
  define s2 where "s2 = (if suspended t then put_tcb p t1 s else make_ready t1 (put_tcb p t1 s))"
  note pt = put_only [OF assms(1) t wf]
  have s2: "only_task p s s2" "wl s2 = wl s" "rdy s2 = (if suspended t then rdy s else insert p (rdy s))" "OSTCBPrioTbl s2 p = TCB t1"
    using pt by (simp_all add: s2_def)
  have l2: "lists_ok s2" "i < length (OSEvents s2)" using s2(1) os_frame_simps(7) [of s s2] assms(2) by (simp_all add: only_task_def)
  obtain s' where s': "OS_EventTaskRemove t1 i s2 = Some s'" "lists_ok s'" "rdy s' = rdy s2" "wl s' = (wl s2)(i := wl s2 i - {p})"
      "OSTCBPrioTbl s' = OSTCBPrioTbl s2" "os_frame s2 s'" using remove_effect [OF l2(1) wf l2(2)] by blast
  have only: "only_task p s s'" using s2(1,2,4) s' os_frame_trans [of s s2 s'] by (auto simp: only_task_def)
  have y: "OSUnMapTbl ! unat (OSEventGrp ?v) = OSTCBY t" using h(1,3) d(1) by (simp add: tcb_wf_def)
  have "OS_EventTaskRdy i m msk st s = map_option (Pair p) (OS_EventTaskRemove t1 i s2)"
    unfolding s2_def p1(4) [symmetric]
    by (rule EventTaskRdy_eq [OF _ h(1) _ y t1_def]) (use assms(2) t d(1) in \<open>simp_all add: get_event_def tcb_wf_def\<close>)
  then have eq: "OS_EventTaskRdy i m msk st s = Some (p, s')" by (simp add: s'(1))
  have np: "p \<notin> wl s' j" for j using s'(4) s2(2) d(4) [of j] d(4) [OF pw] by auto
  have "task_ok s' p"
    unfolding task_ok_def s'(5) s2(4) tcb_ptr.case s'(3) s2(3) using wf p1 st0 np d(3) by (auto simp: z suspended_def)
  moreover have "p = OS_TASK_IDLE_PRIO \<Longrightarrow> p \<in> rdy s'" using os_invD(4) [OF assms(1)] s'(3) s2(3) by (simp add: idle_ok_def)
  ultimately have "os_inv s'" using np by (intro os_inv_local [OF assms(1) only]) auto
  then show ?thesis using t eq only pw s' s2 p1(1,4) by (intro exI [of _ t] exI [of _ t1] exI [of _ s']) (simp add: t1_def)
qed

lemma wait_inv:
  assumes "os_inv s" "i < length (OSEvents s)" "nothing_there s i" "msk = ev_mask (OSEventType (OSEvents s ! i))"
    and "OSTCBPrioTbl s (OSTCBCur s) = TCB t" "OSTCBCur s \<in> rdy s" "OSTCBCur s \<noteq> OS_TASK_IDLE_PRIO" "\<And>j. OSTCBCur s \<notin> wl s j"
  defines "p \<equiv> OSTCBCur s"
  shows "\<exists>s' t'. OS_EventTaskWait i (put_tcb p (t\<lparr>OSTCBStat := OSTCBStat t OR msk, OSTCBStatPend := OS_STAT_PEND_OK, OSTCBDly := n\<rparr>) s) = Some s' \<and>
    os_inv s' \<and> only_task p s s' \<and> rdy s' = rdy s - {p} \<and> wl s' = (wl s)(i := insert p (wl s i)) \<and> OSTCBPrioTbl s' p = TCB t'"
proof -
  let ?v = "OSEvents s ! i"
  have lo: "lists_ok s" and ev: "list_ok (OSEventGrp ?v) (OSEventTbl ?v)" and w: "prios (OSEventTbl ?v) = wl s i"
    using os_invD(1) [OF assms(1)] assms(2) by (auto simp: lists_ok_def wl_def)
  have tk: "task_ok s p" by (rule os_invD(2) [OF assms(1)])
  note d = task_okD [OF tk assms(5) [folded p_def]]
  have st: "OSTCBStat t = 0" "OSTCBDly t = 0" using d(3) assms(6) by (simp_all add: p_def)
  have nz: "msk \<noteq> 0" using assms(3,4) by (simp add: nothing_there_def Let_def)
  note b = mask_bits [OF d(2) assms(4) nz]
  define t1 where "t1 = t\<lparr>OSTCBStat := OSTCBStat t OR msk, OSTCBStatPend := OS_STAT_PEND_OK, OSTCBDly := n\<rparr>"
  define t2 where "t2 = t1\<lparr>OSTCBEventPtr := Some i\<rparr>"
  have wf: "tcb_wf p t2" using d(1) by (simp add: t2_def t1_def tcb_wf_def)
  define s1 where "s1 = put_tcb p t2 s"
  obtain g l where gl: "enter p (OSEventGrp ?v, OSEventTbl ?v) = (g, l)" by fastforce
  note e = enter_prios [OF ev _ gl]
  have p64: "p < 64" using wf by (simp add: tcb_wf_def)
  define s2 where "s2 = put_event i (?v\<lparr>OSEventGrp := g, OSEventTbl := l\<rparr>) s1"
  have l1: "lists_ok s1" "i < length (OSEvents s1)" "OSEvents s1 ! i = ?v" using lo assms(2) by (simp_all add: s1_def)
  note pe = put_event_effect [OF l1(1,2) e(1) [OF p64], unfolded l1(3), folded s2_def]
  define s' where "s' = make_unready t2 s2"
  note u = make_unready_effect [OF pe(1) wf, folded s'_def]
  have w': "wl s' = (wl s)(i := insert p (wl s i))" using u(3) pe(3) e(2) [OF p64] w by (simp add: s1_def)
  have r': "rdy s' = rdy s - {p}" using u(2) pe(2) by (simp add: s1_def)
  have tb: "OSTCBPrioTbl s' = (OSTCBPrioTbl s)(p := TCB t2)" using u(4) pe(4) by (simp add: s1_def)
  have fr: "os_frame s s'" using u(6) pe(5) os_frame_trans by (metis os_frame_refl put_tcb_simps(6) s1_def)
  have only: "only_task p s s'" using fr u(1) w' r' tb assms(5) by (auto simp: only_task_def p_def)
  have cur: "OSTCBCur (put_tcb p t1 s) = p" by (simp add: put_tcb_def p_def)
  have pp: "put_tcb p t2 (put_tcb p t1 s) = s1" by (simp add: s1_def put_tcb_def)
  have same: "OSTCBBitX t1 = OSTCBBitX t2" "OSTCBBitY t1 = OSTCBBitY t2" "OSTCBY t1 = OSTCBY t2" by (simp_all add: t2_def)
  have eq: "OS_EventTaskWait i (put_tcb p t1 s) = Some s'"
    unfolding OS_EventTaskWait_def cur using assms(2) wf gl pp same make_same [OF same, of s2]
    by (simp add: get_event_def t2_def [symmetric] s'_def s2_def tcb_wf_def)
  have pb: "pend_bits t2 = msk" using b(4) st nz by (simp add: pend_bits_def t2_def t1_def)
  have ty: "OSEventType (OSEvents s' ! i) = OSEventType ?v" using os_frame_core(1) [OF fr assms(2)] .
  have so: "stat_ok (OSTCBStat t2)" "OSTCBStat t2 \<noteq> 0" using b(5) st nz by (simp_all add: t2_def t1_def)
  have "task_ok s' p"
    unfolding task_ok_def tb fun_upd_same tcb_ptr.case w' r' using wf so pb assms(4,8) ty nz by (auto simp: t2_def p_def)
  moreover have "\<And>j. p \<in> wl s' j \<Longrightarrow> p \<in> wl s j \<or> nothing_there s j" using assms(3) w' by (simp split: if_splits)
  ultimately have "os_inv s'" using assms(7) by (intro os_inv_local [OF assms(1) only]) (auto simp: p_def)
  then show ?thesis using eq only r' w' tb unfolding t1_def by (intro exI [of _ s'] exI [of _ t2]) simp
qed

text \<open>The end of a wait.\<close>

lemma end_wait_inv:
  assumes "os_inv s" "i < length (OSEvents s)" "OSTCBPrioTbl s (OSTCBCur s) = TCB t" "OSTCBCur s \<in> rdy s" "\<And>j. OSTCBCur s \<in> wl s j \<Longrightarrow> j = i"
  defines "p \<equiv> OSTCBCur s"
  shows "\<exists>err m s' t'. end_wait i s = Some (err, m, s') \<and> os_inv s' \<and> only_task p s s' \<and> rdy s' = rdy s \<and> (\<forall>j. wl s' j = wl s j - {p}) \<and>
    OSTCBPrioTbl s' p = TCB t' \<and> OSTCBStat t' = 0 \<and> OSTCBDly t' = 0 \<and>
    (OSTCBStatPend t = OS_STAT_PEND_OK \<longrightarrow> err = OS_ERR_NONE \<and> m = OSTCBMsg t) \<and> (err = OS_ERR_NONE \<longrightarrow> OSTCBStatPend t = OS_STAT_PEND_OK)"
proof -
  have tk: "task_ok s p" by (rule os_invD(2) [OF assms(1)])
  note d = task_okD [OF tk assms(3) [folded p_def]]
  have st: "OSTCBStat t = 0" "OSTCBDly t = 0" using d(3) assms(4) by (simp_all add: p_def)
  define t' where "t' = t\<lparr>OSTCBStat := OS_STAT_RDY, OSTCBStatPend := OS_STAT_PEND_OK, OSTCBEventPtr := None, OSTCBEventMultiPtr := None\<rparr>"
  have wf: "tcb_wf p t'" using d(1) by (simp add: t'_def tcb_wf_def)
  have lo: "lists_ok s" by (rule os_invD(1) [OF assms(1)])
  have gone: "p \<notin> wl s j" if "OSTCBStatPend t \<noteq> OS_STAT_PEND_TO" for j
  proof
    assume w: "p \<in> wl s j"
    have "pend_bits t = 0" using st by (simp add: pend_bits_def)
    then show False using d(5) [OF w] wl_mask [OF assms(1) w] that by auto
  qed
  obtain r where r: "OS_EventTaskRemove t i s = Some r" "lists_ok r" "rdy r = rdy s" "wl r = (wl s)(i := wl s i - {p})"
      "OSTCBPrioTbl r = OSTCBPrioTbl s" "os_frame s r" using remove_effect [OF lo d(1) assms(2)] by blast
  let ?r = "if OSTCBStatPend t = OS_STAT_PEND_OK then Some (OS_ERR_NONE, OSTCBMsg t, s)
          else if OSTCBStatPend t = OS_STAT_PEND_ABORT then Some (OS_ERR_PEND_ABORT, 0, s)
          else map_option (\<lambda>s1. (OS_ERR_TIMEOUT, 0, s1)) (OS_EventTaskRemove t i s)"
  have "\<exists>err m s1. ?r = Some (err, m, s1) \<and> lists_ok s1 \<and> rdy s1 = rdy s \<and> (\<forall>j. wl s1 j = wl s j - {p}) \<and> OSTCBPrioTbl s1 = OSTCBPrioTbl s \<and>
      os_frame s s1 \<and> (OSTCBStatPend t = OS_STAT_PEND_OK \<longrightarrow> err = OS_ERR_NONE \<and> m = OSTCBMsg t) \<and>
      (err = OS_ERR_NONE \<longrightarrow> OSTCBStatPend t = OS_STAT_PEND_OK)"
  proof -
    consider (ok) "OSTCBStatPend t = OS_STAT_PEND_OK" | (ab) "OSTCBStatPend t \<noteq> OS_STAT_PEND_OK" "OSTCBStatPend t = OS_STAT_PEND_ABORT"
      | (to) "OSTCBStatPend t \<noteq> OS_STAT_PEND_OK" "OSTCBStatPend t \<noteq> OS_STAT_PEND_ABORT" by blast
    then show ?thesis
    proof cases
      case ok
      then have "\<forall>j. wl s j = wl s j - {p}" using gone by (simp add: OS_STAT_PEND_OK_def OS_STAT_PEND_TO_def)
      then show ?thesis using ok lo by simp
    next
      case ab
      then have "\<forall>j. wl s j = wl s j - {p}" using gone by (simp add: OS_STAT_PEND_ABORT_def OS_STAT_PEND_TO_def)
      then show ?thesis using ab lo by (simp add: OS_ERR_NONE_def OS_ERR_PEND_ABORT_def)
    next
      case to
      moreover have "\<forall>j. wl r j = wl s j - {p}" using r(4) assms(5) by (auto simp: p_def)
      ultimately show ?thesis using r by (simp add: OS_ERR_NONE_def OS_ERR_TIMEOUT_def)
    qed
  qed
  then obtain err m s1 where s1: "?r = Some (err, m, s1)"
      "lists_ok s1" "rdy s1 = rdy s" "\<forall>j. wl s1 j = wl s j - {p}" "OSTCBPrioTbl s1 = OSTCBPrioTbl s" "os_frame s s1"
      "OSTCBStatPend t = OS_STAT_PEND_OK \<longrightarrow> err = OS_ERR_NONE \<and> m = OSTCBMsg t" "err = OS_ERR_NONE \<longrightarrow> OSTCBStatPend t = OS_STAT_PEND_OK"
    by blast
  have only: "only_task p s (put_tcb p t' s1)" using s1 assms(3) by (auto simp: only_task_def p_def)
  have cur: "OSTCBCur s1 = p" using os_frame_simps(5) [OF s1(6)] by (simp add: p_def)
  have eq: "end_wait i s = Some (err, m, put_tcb p t' s1)"
    unfolding end_wait_def get_tcb_eq [OF assms(3)] Option.bind.simps s1(1) by (simp add: t'_def p_def cur)
  have "task_ok (put_tcb p t' s1) p"
    unfolding task_ok_def put_tcb_simps fun_upd_same tcb_ptr.case s1(3) using wf s1(4) assms(4) st
    by (auto simp: t'_def pend_bits_def OS_STAT_RDY_def stat_ok_def p_def)
  moreover have "p = OS_TASK_IDLE_PRIO \<Longrightarrow> p \<in> rdy (put_tcb p t' s1)" using assms(4) s1(3) by (simp add: p_def)
  ultimately have "os_inv (put_tcb p t' s1)" using s1(4) by (intro os_inv_local [OF assms(1) only]) auto
  then show ?thesis using eq only s1 st
    by (intro exI [of _ err] exI [of _ m] exI [of _ "put_tcb p t' s1"] exI [of _ t']) (simp add: t'_def OS_STAT_RDY_def)
qed

section \<open>The scheduler\<close>

text \<open>When it may switch, the highest priority ready task becomes the current one.\<close>

definition sched_ok :: "'a os_scheme \<Rightarrow> bool" where
  "sched_ok s \<longleftrightarrow> OSTCBCur s = OSPrioCur s \<and> (OSRunning s \<and> OSIntNesting s = 0 \<and> OSLockNesting s = 0 \<longrightarrow> OSPrioCur s = Min (rdy s))"

text \<open>What the scheduler leaves alone.\<close>

definition same_but_cur :: "'a os_scheme \<Rightarrow> 'a os_scheme \<Rightarrow> bool" where
  "same_but_cur s s' \<longleftrightarrow> rdy s' = rdy s \<and> wl s' = wl s \<and> OSEvents s' = OSEvents s \<and> OSRunning s' = OSRunning s \<and> OSIntNesting s' = OSIntNesting s \<and>
     OSLockNesting s' = OSLockNesting s \<and> OSEventFreeList s' = OSEventFreeList s \<and> OSTCBList s' = OSTCBList s \<and> os.more s' = os.more s \<and> OSTime s' = OSTime s \<and>
     OSTickStepState s' = OSTickStepState s \<and>
     (\<forall>p. OSTCBPrioTbl s' p = OSTCBPrioTbl s p \<or>
        (\<exists>t. OSTCBPrioTbl s p = TCB t \<and> OSTCBPrioTbl s' p = TCB (t\<lparr>OSTCBCtxSwCtr := OSTCBCtxSwCtr t + 1\<rparr>)))"

lemma highest_rdy:
  assumes "os_inv s"
  shows "highest (OSRdyGrp s) (OSRdyTbl s) = Min (rdy s)" "Min (rdy s) \<in> rdy s" "\<exists>t. OSTCBPrioTbl s (Min (rdy s)) = TCB t"
proof -
  have l: "list_ok (OSRdyGrp s) (OSRdyTbl s)" using os_invD(1) [OF assms] by (simp add: lists_ok_def)
  have "OSRdyGrp s \<noteq> 0" using list_ok_empty [OF l] os_invD(4) [OF assms] by (auto simp: idle_ok_def rdy_def)
  from highest_Min [OF l this] show h: "highest (OSRdyGrp s) (OSRdyTbl s) = Min (rdy s)" "Min (rdy s) \<in> rdy s" by (simp_all add: rdy_def)
  then show "\<exists>t. OSTCBPrioTbl s (Min (rdy s)) = TCB t"
    using os_invD(2) [OF assms, of "Min (rdy s)"] by (auto simp: task_ok_def split: tcb_ptr.splits)
qed

lemma switch_inv:
  assumes "os_inv s" "OSTCBCur s = OSPrioCur s"
  shows "\<exists>s'. switch_tasks s = Some s' \<and> os_inv s' \<and> same_but_cur s s' \<and> OSPrioCur s' = Min (rdy s) \<and> OSTCBCur s' = Min (rdy s)"
proof -
  define h where "h = Min (rdy s)"
  obtain t where t: "OSTCBPrioTbl s h = TCB t" using highest_rdy(3) [OF assms(1)] by (auto simp: h_def)
  define s2 where "s2 = s\<lparr>OSPrioHighRdy := h, OSTCBHighRdy := h\<rparr>"
  define t1 where "t1 = t\<lparr>OSTCBCtxSwCtr := OSTCBCtxSwCtr t + 1\<rparr>"
  define s3 where "s3 = OSPendSV ((put_tcb h t1 s2)\<lparr>OSCtxSwCtr := OSCtxSwCtr s2 + 1\<rparr>)"
  have eq: "switch_tasks s = (if h \<noteq> OSPrioCur s then Some s3 else Some s2)"
    using highest_rdy(1) [OF assms(1)] t
    by (simp add: switch_tasks_def OS_SchedNew_def Let_def h_def [symmetric] s2_def s3_def t1_def get_tcb_def)
  have l2: "same_lists s s2" and l3: "same_lists (put_tcb h t1 s) s3"
    by (simp_all add: same_lists_def s2_def s3_def OSPendSV_def put_tcb_def)
  have wf: "tcb_wf h t1" using task_okD(1) [OF os_invD(2) [OF assms(1)] t] by (simp add: t1_def tcb_wf_def)
  have "task_ok (put_tcb h t1 s) h"
    using os_invD(2) [OF assms(1), of h] t wf by (simp add: task_ok_def t1_def pend_bits_def)
  then have "os_inv (put_tcb h t1 s)"
    using os_invD(4) [OF assms(1)] by (intro os_inv_local [OF assms(1) put_only(1) [OF assms(1) t wf]]) (auto simp: idle_ok_def)
  then have i3: "os_inv s3" and i2: "os_inv s2" using same_lists_views(6) [OF l3] same_lists_views(6) [OF l2] assms(1) by simp_all
  show ?thesis
  proof (cases "h = OSPrioCur s")
    case True
    have "same_but_cur s s2" using same_lists_views [OF l2] by (simp add: same_but_cur_def s2_def)
    then show ?thesis using eq True i2 assms(2) by (intro exI [of _ s2]) (simp add: h_def [symmetric] s2_def)
  next
    case False
    have v: "rdy s3 = rdy s" "wl s3 = wl s" "OSEvents s3 = OSEvents s" "OSTCBPrioTbl s3 = (OSTCBPrioTbl s)(h := TCB t1)"
      using same_lists_views(1,2,4,5) [OF l3] by simp_all
    have "same_but_cur s s3"
      unfolding same_but_cur_def v using t by (simp add: s3_def OSPendSV_def s2_def put_tcb_def t1_def)
    then show ?thesis using eq False i3 by (intro exI [of _ s3]) (simp add: h_def [symmetric] s3_def OSPendSV_def put_tcb_def s2_def)
  qed
qed

lemma Sched_inv:
  assumes "os_inv s" "OSTCBCur s = OSPrioCur s"
  shows "\<exists>s'. OS_Sched s = Some s' \<and> os_inv s' \<and> same_but_cur s s' \<and>
    (if OSIntNesting s = 0 \<and> OSLockNesting s = 0 then OSPrioCur s' = Min (rdy s) \<and> OSTCBCur s' = Min (rdy s) else s' = s)"
proof (cases "OSIntNesting s = 0 \<and> OSLockNesting s = 0")
  case True
  then show ?thesis using switch_inv [OF assms] by (auto simp: OS_Sched_def)
next
  case False
  then show ?thesis using assms(1) by (auto simp: OS_Sched_def same_but_cur_def)
qed

section \<open>Operations on tasks and events\<close>

text \<open>Making the status and the delay of a task what they should be for a ready or for a stopped task.\<close>

lemma stop_task_inv:
  assumes "os_inv s" "OSTCBPrioTbl s p = TCB t" "p \<noteq> OS_TASK_IDLE_PRIO" "t' = t\<lparr>OSTCBStat := w, OSTCBDly := n\<rparr>" "stat_ok w"
    and "w AND OS_STAT_PEND_ANY = OSTCBStat t AND OS_STAT_PEND_ANY" "w \<noteq> 0 \<or> n \<noteq> 0" "n = 0 \<or> (\<forall>i. p \<notin> wl s i) \<or> n = OSTCBDly t"
  defines "s' \<equiv> put_tcb p t' (make_unready t s)"
  shows "os_inv s' \<and> only_task p s s' \<and> rdy s' = rdy s - {p} \<and> wl s' = wl s"
proof -
  have tk: "task_ok s p" by (rule os_invD(2) [OF assms(1)])
  note d = task_okD [OF tk assms(2)]
  have wf: "tcb_wf p t'" using d(1) by (simp add: assms(4) tcb_wf_def)
  have "make_unready t' (put_tcb p t' s) = s'"
    unfolding s'_def put_make_comm using make_same [of t' t s] by (simp add: assms(4))
  note pt = put_only [OF assms(1,2) wf, unfolded this]
  have "task_ok s' p"
    unfolding task_ok_def pt(9,5,7) fun_upd_same tcb_ptr.case
  proof (intro conjI allI impI)
    fix i assume i: "p \<in> wl s i"
    show "OSTCBEventPtr t' = Some i" using d(4) [OF i] by (simp add: assms(4))
    have "OSEventType (OSEvents s' ! i) = OSEventType (OSEvents s ! i)"
      using os_frame_core(1) [of s s' i] pt(3) wl_less [OF i] by (simp add: only_task_def)
    then show "pend_bits t' = ev_mask (OSEventType (OSEvents s' ! i)) \<or> pend_bits t' = 0 \<and> OSTCBStatPend t' = OS_STAT_PEND_TO \<and> OSTCBDly t' = 0"
      using d(5) [OF i] assms(6,8) i by (auto simp: assms(4) pend_bits_def)
  qed (use wf d(6) assms(5,6,7) in \<open>auto simp: assms(4) pend_bits_def\<close>)
  moreover have "p \<in> wl s' i \<Longrightarrow> p \<in> wl s i" for i using pt(7) by simp
  ultimately have "os_inv s'" using assms(3) by (intro os_inv_local [OF assms(1) pt(3)]) auto
  then show ?thesis using pt(3,5,7) by blast
qed

lemma OSTaskResume_inv:
  assumes "os_inv s" "OSTCBPrioTbl s p = TCB t" "suspended t"
  defines "t1 \<equiv> t\<lparr>OSTCBStat := OSTCBStat t AND NOT OS_STAT_SUSPEND\<rparr>"
  shows "OSTCBStat t1 = 0 \<and> OSTCBDly t1 = 0 \<Longrightarrow>
      os_inv (make_ready t1 (put_tcb p t1 s)) \<and> only_task p s (make_ready t1 (put_tcb p t1 s)) \<and> rdy (make_ready t1 (put_tcb p t1 s)) = insert p (rdy s) \<and>
      wl (make_ready t1 (put_tcb p t1 s)) = wl s"
    "\<not> (OSTCBStat t1 = 0 \<and> OSTCBDly t1 = 0) \<Longrightarrow> os_inv (put_tcb p t1 s) \<and> only_task p s (put_tcb p t1 s)"
proof -
  have tk: "task_ok s p" by (rule os_invD(2) [OF assms(1)])
  note d = task_okD [OF tk assms(2)]
  have wf: "tcb_wf p t1" using d(1) by (simp add: t1_def tcb_wf_def)
  note pt = put_only [OF assms(1,2) wf] and b = stat_bits [OF d(2)]
  have np: "p \<notin> rdy s" using d(3) assms(3) by (auto simp: suspended_def OS_STAT_RDY_def)
  then have ni: "p \<noteq> OS_TASK_IDLE_PRIO" using os_invD(4) [OF assms(1)] by (auto simp: idle_ok_def)
  have w: "OSTCBEventPtr t1 = Some i \<and> (pend_bits t1 = ev_mask (OSEventType (OSEvents s ! i)) \<or> pend_bits t1 = 0 \<and> OSTCBStatPend t1 = OS_STAT_PEND_TO \<and> OSTCBDly t1 = 0)"
    if "p \<in> wl s i" for i using d(4) [OF that] d(5) [OF that] b by (auto simp: t1_def pend_bits_def)
  { assume c: "OSTCBStat t1 = 0 \<and> OSTCBDly t1 = 0"
    let ?s = "make_ready t1 (put_tcb p t1 s)"
    have "task_ok ?s p"
      unfolding task_ok_def pt(4,6,8,10) fun_upd_same tcb_ptr.case using wf c w d(6) b by (auto simp: t1_def pend_bits_def stat_ok_def)
    moreover have "p \<in> wl ?s i \<Longrightarrow> p \<in> wl s i" for i using pt(6) by simp
    ultimately have "os_inv ?s" using ni by (intro os_inv_local [OF assms(1) pt(2)]) auto
    then show "os_inv ?s \<and> only_task p s ?s \<and> rdy ?s = insert p (rdy s) \<and> wl ?s = wl s" using pt by blast }
  { assume c: "\<not> (OSTCBStat t1 = 0 \<and> OSTCBDly t1 = 0)"
    have "task_ok (put_tcb p t1 s) p"
      unfolding task_ok_def put_tcb_simps fun_upd_same tcb_ptr.case using wf c w d(6) b np by (auto simp: t1_def pend_bits_def)
    then have "os_inv (put_tcb p t1 s)" using ni by (intro os_inv_local [OF assms(1) pt(1)]) auto
    then show "os_inv (put_tcb p t1 s) \<and> only_task p s (put_tcb p t1 s)" using pt by blast }
qed

text \<open>A new count or message of an event.\<close>

lemma put_event_inv:
  assumes "os_inv s" "i < length (OSEvents s)" "OSEventGrp v = OSEventGrp (OSEvents s ! i)" "OSEventTbl v = OSEventTbl (OSEvents s ! i)"
    and "OSEventType v = OSEventType (OSEvents s ! i)"
    and "OSEventType v = OS_EVENT_TYPE_SEM \<Longrightarrow> OSEventCnt v \<noteq> 0 \<Longrightarrow> wl s i = {}" "OSEventType v = OS_EVENT_TYPE_MBOX \<Longrightarrow> OSEventPtr v \<noteq> 0 \<Longrightarrow> wl s i = {}"
  shows "os_inv (put_event i v s)" "wl (put_event i v s) = wl s" "rdy (put_event i v s) = rdy s" "OSTCBPrioTbl (put_event i v s) = OSTCBPrioTbl s"
proof -
  let ?s = "put_event i v s"
  have e: "OSEvents ?s = (OSEvents s)[i := v]" by (simp add: put_event_def)
  have "OSEventTbl ((OSEvents s)[i := v] ! j) = OSEventTbl (OSEvents s ! j)" for j using assms(2,4) by (cases "j = i") simp_all
  then show w: "wl ?s = wl s" by (simp add: wl_def e fun_eq_iff)
  show r: "rdy ?s = rdy s" and t: "OSTCBPrioTbl ?s = OSTCBPrioTbl s" by (simp_all add: put_event_def rdy_def)
  have ty: "OSEventType (OSEvents ?s ! j) = OSEventType (OSEvents s ! j)" for j
    using assms(2,5) by (cases "j = i") (simp_all add: e)
  have "lists_ok ?s" using os_invD(1) [OF assms(1)] assms(2-4) by (auto simp: lists_ok_def put_event_def nth_list_update)
  moreover have "task_ok ?s p" for p using os_invD(2) [OF assms(1), of p] unfolding task_ok_def w r t ty .
  moreover have "event_ok ?s j" if "j < length (OSEvents ?s)" for j
    using os_invD(3) [OF assms(1), of j] that assms(2,5,6,7) by (cases "j = i") (auto simp: event_ok_def w e Let_def)
  moreover have "idle_ok ?s" "list_of_tasks ?s" using os_invD(4,5) [OF assms(1)] by (simp_all add: idle_ok_def r list_of_tasks_def t) (simp add: put_event_def)
  moreover have "free_ok ?s" using os_invD(6) [OF assms(1)] ty by (simp add: free_ok_def) (simp add: put_event_def)
  ultimately show "os_inv ?s" by (simp add: os_inv_def)
qed

text \<open>What waking tasks does to the state, seen from outside.\<close>

definition woken :: "'a os_scheme \<Rightarrow> 'a os_scheme \<Rightarrow> bool" where
  "woken s s' \<longleftrightarrow> os_inv s' \<and> os_frame s s' \<and> (\<forall>j. wl s' j \<subseteq> wl s j) \<and> rdy s \<subseteq> rdy s' \<and>
     (\<forall>p. (\<exists>t. OSTCBPrioTbl s' p = TCB t) \<longleftrightarrow> (\<exists>t. OSTCBPrioTbl s p = TCB t))"

lemma woken_refl: "os_inv s \<Longrightarrow> woken s s"
  by (simp add: woken_def)

lemma woken_trans: "woken s s1 \<Longrightarrow> woken s1 s2 \<Longrightarrow> woken s s2"
  unfolding woken_def using os_frame_trans by blast

lemma only_task_dom:
  assumes "only_task p s s'"
  shows "(\<exists>t. OSTCBPrioTbl s' q = TCB t) \<longleftrightarrow> (\<exists>t. OSTCBPrioTbl s q = TCB t)"
  using assms by (cases "q = p") (auto simp: only_task_def)

lemma EventTaskRdy_woken:
  assumes "os_inv s" "i < length (OSEvents s)" "wl s i \<noteq> {}" "msk = ev_mask (OSEventType (OSEvents s ! i))"
  shows "\<exists>s'. OS_EventTaskRdy i m msk st s = Some (Min (wl s i), s') \<and> woken s s' \<and> wl s' = (wl s)(i := wl s i - {Min (wl s i)}) \<and> Min (wl s i) \<in> wl s i"
proof -
  obtain s' where s': "OS_EventTaskRdy i m msk st s = Some (Min (wl s i), s')" "os_inv s'" "only_task (Min (wl s i)) s s'" "Min (wl s i) \<in> wl s i"
      "wl s' = (wl s)(i := wl s i - {Min (wl s i)})" "rdy s \<subseteq> rdy s'"
    using EventTaskRdy_inv [OF assms, of m st] by (auto split: if_splits)
  then have "woken s s'" using only_task_dom [OF s'(3)] by (auto simp: woken_def only_task_def)
  with s' show ?thesis by blast
qed

lemma wake_all_inv:
  assumes "os_inv s" "i < length (OSEvents s)" "msk = ev_mask (OSEventType (OSEvents s ! i))"
  shows "\<exists>s'. wake_all i m msk st n s = Some (n + card (wl s i), s') \<and> woken s s' \<and> wl s' = (wl s)(i := {})"
  using assms
proof (induction "card (wl s i)" arbitrary: s n)
  case 0
  have "finite (wl s i)" using prios_less(2) by (simp add: wl_def)
  then have "wl s i = {}" using 0(1) by simp
  moreover from this have "OSEventGrp (OSEvents s ! i) = 0" using grp_wl [OF os_invD(1) [OF 0(2)] 0(3)] by simp
  ultimately show ?case using 0 woken_refl [OF 0(2)]
    by (subst wake_all.simps) (auto simp: get_event_def fun_eq_iff intro!: exI [of _ s])
next
  case (Suc k)
  have f: "finite (wl s i)" using prios_less(2) by (simp add: wl_def)
  have ne: "wl s i \<noteq> {}" using Suc(2) by auto
  then have g: "OSEventGrp (OSEvents s ! i) \<noteq> 0" using grp_wl [OF os_invD(1) [OF Suc(3)] Suc(4)] by simp
  obtain s1 where s1: "OS_EventTaskRdy i m msk st s = Some (Min (wl s i), s1)" "woken s s1" "wl s1 = (wl s)(i := wl s i - {Min (wl s i)})" "Min (wl s i) \<in> wl s i"
    using EventTaskRdy_woken [OF Suc(3,4) ne Suc(5), of m st] by blast
  have fr: "os_frame s s1" "os_inv s1" using s1(2) by (simp_all add: woken_def)
  have c: "card (wl s1 i) = k" using s1(3,4) Suc(2) f by simp
  have ty: "i < length (OSEvents s1)" "msk = ev_mask (OSEventType (OSEvents s1 ! i))"
    using os_frame_simps(7) [OF fr(1)] os_frame_core(1) [OF fr(1) Suc(4)] Suc(4,5) by simp_all
  obtain s' where s': "wake_all i m msk st (n + 1) s1 = Some (n + 1 + card (wl s1 i), s')" "woken s1 s'" "wl s' = (wl s1)(i := {})"
    using Suc(1) [OF c [symmetric] fr(2) ty, of "n + 1"] by blast
  have "wake_all i m msk st n s = Some (n + card (wl s i), s')"
    using s1(1) s'(1) g Suc(2,4) c by (subst wake_all.simps) (simp add: get_event_def)
  then show ?case using s' s1(3) woken_trans [OF s1(2)] by auto
qed

end
