(* ===== verification/Os_Sys.thy ===== *)
theory Os_Sys
  imports Os_Inv
begin

text \<open>
  The kernel as a system of tasks and interrupts: every sequence of calls from the tasks, clock ticks and posts from interrupt
  handlers. The properties of the kernel hold in every state it reaches.
\<close>

section \<open>Turns\<close>

text \<open>A task that waits in a call remembers in which.\<close>

datatype kpend = Pend_Sem nat | Pend_Mbox nat

fun pend_ev :: "kpend \<Rightarrow> nat" where
  "pend_ev (Pend_Sem i) = i"
| "pend_ev (Pend_Mbox i) = i"

record ksys = os +
  k_wait :: "nat \<Rightarrow> kpend option"

datatype call =
    Sem_Create u16 | Sem_Accept nat | Sem_Pend nat u32 | Sem_Post nat | Sem_Set nat u16 | Sem_Del nat u8 | Sem_PendAbort nat u8
  | Mbox_Create u32 | Mbox_Accept nat | Mbox_Pend nat u32 | Mbox_Post nat u32 | Mbox_Del nat u8 | Mbox_PendAbort nat u8
  | Time_Dly u32 | Dly_Resume nat | Task_Suspend nat | Task_Resume nat | Task_Create nat | Sched_Lock | Sched_Unlock

text \<open>What a caller has to ensure, as the arguments are not checked: the event is a block of the table, the priority one of the
  table's, and the idle task is not suspended.\<close>

fun call_ok :: "'a os_scheme \<Rightarrow> call \<Rightarrow> bool" where
  "call_ok s (Sem_Accept i) \<longleftrightarrow> i < length (OSEvents s)"
| "call_ok s (Sem_Pend i n) \<longleftrightarrow> i < length (OSEvents s)"
| "call_ok s (Sem_Post i) \<longleftrightarrow> i < length (OSEvents s)"
| "call_ok s (Sem_Set i c) \<longleftrightarrow> i < length (OSEvents s)"
| "call_ok s (Sem_Del i opt) \<longleftrightarrow> i < length (OSEvents s)"
| "call_ok s (Sem_PendAbort i opt) \<longleftrightarrow> i < length (OSEvents s)"
| "call_ok s (Mbox_Accept i) \<longleftrightarrow> i < length (OSEvents s)"
| "call_ok s (Mbox_Pend i n) \<longleftrightarrow> i < length (OSEvents s)"
| "call_ok s (Mbox_Post i m) \<longleftrightarrow> i < length (OSEvents s)"
| "call_ok s (Mbox_Del i opt) \<longleftrightarrow> i < length (OSEvents s)"
| "call_ok s (Mbox_PendAbort i opt) \<longleftrightarrow> i < length (OSEvents s)"
| "call_ok s (Task_Suspend p) \<longleftrightarrow> p < OS_TASK_IDLE_PRIO \<or> p = OS_PRIO_SELF"
| "call_ok s (Task_Resume p) \<longleftrightarrow> p \<le> OS_LOWEST_PRIO"
| "call_ok s (Task_Create p) \<longleftrightarrow> p \<le> OS_LOWEST_PRIO"
| "call_ok s _ \<longleftrightarrow> True"

text \<open>A call of the current task, and the rest of a call in which it has waited.\<close>

definition waits :: "nat \<Rightarrow> kpend \<Rightarrow> 'r option \<times> ksys \<Rightarrow> ksys" where
  "waits p w r = (case r of (None, s) \<Rightarrow> s\<lparr>k_wait := (k_wait s)(p := Some w)\<rparr> | (Some _, s) \<Rightarrow> s)"

fun task_call :: "call \<Rightarrow> ksys \<Rightarrow> ksys option" where
  "task_call (Sem_Create c) s = map_option snd (OSSemCreate c s)"
| "task_call (Sem_Accept i) s = map_option snd (OSSemAccept i s)"
| "task_call (Sem_Pend i n) s = map_option (waits (OSTCBCur s) (Pend_Sem i)) (OSSemPend i n s)"
| "task_call (Sem_Post i) s = map_option snd (OSSemPost i s)"
| "task_call (Sem_Set i c) s = map_option snd (OSSemSet i c s)"
| "task_call (Sem_Del i opt) s = map_option snd (OSSemDel i opt s)"
| "task_call (Sem_PendAbort i opt) s = map_option (\<lambda>(_, _, s1). s1) (OSSemPendAbort i opt s)"
| "task_call (Mbox_Create m) s = map_option snd (OSMboxCreate m s)"
| "task_call (Mbox_Accept i) s = map_option snd (OSMboxAccept i s)"
| "task_call (Mbox_Pend i n) s = map_option (waits (OSTCBCur s) (Pend_Mbox i)) (OSMboxPend i n s)"
| "task_call (Mbox_Post i m) s = map_option snd (OSMboxPost i m s)"
| "task_call (Mbox_Del i opt) s = map_option snd (OSMboxDel i opt s)"
| "task_call (Mbox_PendAbort i opt) s = map_option (\<lambda>(_, _, s1). s1) (OSMboxPendAbort i opt s)"
| "task_call (Time_Dly n) s = OSTimeDly n s"
| "task_call (Dly_Resume p) s = map_option snd (OSTimeDlyResume p s)"
| "task_call (Task_Suspend p) s = map_option snd (OSTaskSuspend p s)"
| "task_call (Task_Resume p) s = map_option snd (OSTaskResume p s)"
| "task_call (Task_Create p) s = map_option snd (OSTaskCreate p s)"
| "task_call Sched_Lock s = Some (OSSchedLock s)"
| "task_call Sched_Unlock s = OSSchedUnlock s"

definition task_resume :: "kpend \<Rightarrow> ksys \<Rightarrow> ksys option" where
  "task_resume w s =
     map_option (\<lambda>s1. s1\<lparr>k_wait := (k_wait s1)(OSTCBCur s := None)\<rparr>)
       (case w of Pend_Sem i \<Rightarrow> map_option snd (OSSemPend_end i s) | Pend_Mbox i \<Rightarrow> map_option (\<lambda>(_, _, s1). s1) (OSMboxPend_end i s))"

text \<open>What interrupt handlers do.\<close>

datatype isr = Int_Enter | Int_Tick | Int_Sem_Post nat | Int_Mbox_Post nat u32 | Int_Exit

fun isr_ok :: "'a os_scheme \<Rightarrow> isr \<Rightarrow> bool" where
  "isr_ok s (Int_Sem_Post i) \<longleftrightarrow> OSIntNesting s > 0 \<and> i < length (OSEvents s)"
| "isr_ok s (Int_Mbox_Post i m) \<longleftrightarrow> OSIntNesting s > 0 \<and> i < length (OSEvents s)"
| "isr_ok s Int_Enter \<longleftrightarrow> True"
| "isr_ok s _ \<longleftrightarrow> OSIntNesting s > 0"

fun isr_step :: "isr \<Rightarrow> ksys \<Rightarrow> ksys option" where
  "isr_step Int_Enter s = Some (OSIntEnter s)"
| "isr_step Int_Tick s = OSTimeTick s"
| "isr_step (Int_Sem_Post i) s = map_option snd (OSSemPost i s)"
| "isr_step (Int_Mbox_Post i m) s = map_option snd (OSMboxPost i m s)"
| "isr_step Int_Exit s = OSIntExit s"

text \<open>Before the kernel is started, \<^verbatim>\<open>main\<close> creates tasks and events. Then the current task makes calls, unless it is the idle task, and
  interrupts come between them.\<close>

fun boot_call :: "call \<Rightarrow> bool" where
  "boot_call (Sem_Create c) \<longleftrightarrow> True"
| "boot_call (Mbox_Create m) \<longleftrightarrow> True"
| "boot_call (Task_Create p) \<longleftrightarrow> True"
| "boot_call _ \<longleftrightarrow> False"

inductive booting :: "ksys \<Rightarrow> bool" where
  boot_init: "OSInit s = Some s' \<Longrightarrow> booting (s'\<lparr>k_wait := \<lambda>_. None\<rparr>)"
| boot_step: "booting s \<Longrightarrow> boot_call c \<Longrightarrow> call_ok s c \<Longrightarrow> task_call c s = Some s' \<Longrightarrow> booting s'"

inductive reachable :: "ksys \<Rightarrow> bool" where
  reach_start: "booting s \<Longrightarrow> reachable (OSStart s)"
| reach_call: "reachable s \<Longrightarrow> OSIntNesting s = 0 \<Longrightarrow> OSTCBCur s \<noteq> OS_TASK_IDLE_PRIO \<Longrightarrow> k_wait s (OSTCBCur s) = None \<Longrightarrow> call_ok s c \<Longrightarrow>
    task_call c s = Some s' \<Longrightarrow> reachable s'"
| reach_resume: "reachable s \<Longrightarrow> OSIntNesting s = 0 \<Longrightarrow> k_wait s (OSTCBCur s) = Some w \<Longrightarrow> task_resume w s = Some s' \<Longrightarrow> reachable s'"
| reach_isr: "reachable s \<Longrightarrow> isr_ok s i \<Longrightarrow> isr_step i s = Some s' \<Longrightarrow> reachable s'"

section \<open>The invariant of the system\<close>

definition k_loose :: "ksys \<Rightarrow> bool" where
  "k_loose s \<longleftrightarrow> os_inv s \<and> OSRunning s \<and> OSTCBCur s = OSPrioCur s \<and> (\<exists>t. OSTCBPrioTbl s (OSTCBCur s) = TCB t) \<and>
     (\<forall>p i. p \<in> wl s i \<longrightarrow> (\<exists>w. k_wait s p = Some w \<and> pend_ev w = i)) \<and>
     (\<forall>p w. k_wait s p = Some w \<longrightarrow> pend_ev w < length (OSEvents s)) \<and>
     (OSLockNesting s \<noteq> 0 \<longrightarrow> k_wait s (OSTCBCur s) = None)"

definition k_inv :: "ksys \<Rightarrow> bool" where
  "k_inv s \<longleftrightarrow> k_loose s \<and> (OSIntNesting s = 0 \<and> OSLockNesting s = 0 \<longrightarrow> OSTCBCur s = Min (rdy s))"

text \<open>What operations leave alone until the scheduler is called.\<close>

definition k_kept :: "ksys \<Rightarrow> ksys \<Rightarrow> bool" where
  "k_kept s s' \<longleftrightarrow> os_inv s' \<and> OSRunning s' = OSRunning s \<and> OSIntNesting s' = OSIntNesting s \<and> OSLockNesting s' = OSLockNesting s \<and>
     OSTCBCur s' = OSTCBCur s \<and> OSPrioCur s' = OSPrioCur s \<and> (\<exists>t. OSTCBPrioTbl s' (OSTCBCur s) = TCB t) \<and>
     (\<forall>i. wl s' i \<subseteq> wl s i) \<and> length (OSEvents s') = length (OSEvents s) \<and> k_wait s' = k_wait s"

lemma k_looseD:
  assumes "k_loose s"
  shows "os_inv s" "OSRunning s" "OSTCBCur s = OSPrioCur s" "\<exists>t. OSTCBPrioTbl s (OSTCBCur s) = TCB t"
    "p \<in> wl s i \<Longrightarrow> \<exists>w. k_wait s p = Some w \<and> pend_ev w = i" "k_wait s p = Some w \<Longrightarrow> pend_ev w < length (OSEvents s)"
    "OSLockNesting s \<noteq> 0 \<Longrightarrow> k_wait s (OSTCBCur s) = None"
  using assms unfolding k_loose_def by blast+

lemma k_invD:
  assumes "k_inv s"
  shows "k_loose s" "os_inv s" "OSIntNesting s = 0 \<Longrightarrow> OSLockNesting s = 0 \<Longrightarrow> OSTCBCur s = Min (rdy s)"
  using assms unfolding k_inv_def k_loose_def by blast+

lemma kept_loose:
  assumes "k_loose s" "k_kept s s'" shows "k_loose s'"
  using assms unfolding k_loose_def k_kept_def by (metis subsetD)

lemma kept_inv:
  assumes "k_inv s" "k_kept s s'" "rdy s' = rdy s" shows "k_inv s'"
proof -
  have "k_loose s'" using kept_loose [OF k_invD(1) [OF assms(1)] assms(2)] .
  then show ?thesis using assms by (simp add: k_inv_def k_kept_def)
qed

lemma woken_kept:
  assumes "k_loose s" "woken s s'" shows "k_kept s s'"
proof -
  have f: "os_frame s s'" using assms(2) by (simp add: woken_def)
  have "k_wait s' = k_wait s" using os_frame_simps(9) [OF f] by (cases s, cases s') simp
  then show ?thesis using assms os_frame_simps [OF f] k_looseD(4) [OF assms(1)] by (simp add: k_kept_def woken_def)
qed

lemma only_kept:
  assumes "k_loose s" "only_task p s s'" "os_inv s'" "\<And>i. wl s' i \<subseteq> wl s i" shows "k_kept s s'"
proof -
  have f: "os_frame s s'" using assms(2) by (simp add: only_task_def)
  have "k_wait s' = k_wait s" using os_frame_simps(9) [OF f] by (cases s, cases s') simp
  then show ?thesis using assms(3,4) os_frame_simps [OF f] k_looseD(4) [OF assms(1)] only_task_dom [OF assms(2)] by (simp add: k_kept_def)
qed

lemma sched_k:
  assumes "k_loose s" shows "\<exists>s'. OS_Sched s = Some s' \<and> k_inv s'"
proof -
  have i: "os_inv s" using assms by (simp add: k_loose_def)
  obtain s' where s': "OS_Sched s = Some s'" "os_inv s'" "same_but_cur s s'"
      "if OSIntNesting s = 0 \<and> OSLockNesting s = 0 then OSPrioCur s' = Min (rdy s) \<and> OSTCBCur s' = Min (rdy s) else s' = s"
    using Sched_inv [OF i k_looseD(3) [OF assms]] by blast
  show ?thesis
  proof (cases "OSIntNesting s = 0 \<and> OSLockNesting s = 0")
    case True
    have w: "k_wait s' = k_wait s" using s'(3) by (cases s, cases s') (simp add: same_but_cur_def)
    have "Min (rdy s) \<in> rdy s'" "OSTCBCur s' = Min (rdy s)" using highest_rdy(2) [OF i] s'(3,4) True by (simp_all add: same_but_cur_def)
    then have "\<exists>t. OSTCBPrioTbl s' (OSTCBCur s') = TCB t"
      using os_invD(2) [OF s'(2), of "Min (rdy s)"] by (auto simp: task_ok_def split: tcb_ptr.splits)
    then show ?thesis using s' True w k_looseD [OF assms] by (simp add: k_inv_def k_loose_def same_but_cur_def)
  next
    case False
    then show ?thesis using s' assms by (auto simp: k_inv_def)
  qed
qed

section \<open>Every call keeps it\<close>

lemma masks [simp]:
  "ev_mask OS_EVENT_TYPE_SEM = OS_STAT_SEM" "ev_mask OS_EVENT_TYPE_MBOX = OS_STAT_MBOX" "OS_STAT_SEM \<noteq> 0" "OS_STAT_MBOX \<noteq> 0"
  "OS_EVENT_TYPE_SEM \<noteq> OS_EVENT_TYPE_MBOX" "OS_EVENT_TYPE_MBOX \<noteq> OS_EVENT_TYPE_SEM"
  by (simp_all add: ev_mask_def OS_EVENT_TYPE_SEM_def OS_EVENT_TYPE_MBOX_def OS_STAT_SEM_def OS_STAT_MBOX_def)

lemma get_event_eq [simp]: "i < length (OSEvents s) \<Longrightarrow> get_event i s = Some (OSEvents s ! i)"
  by (simp add: get_event_def)

lemma put_event_k:
  assumes "k_inv s" "i < length (OSEvents s)" "v = (OSEvents s ! i)\<lparr>OSEventCnt := c, OSEventPtr := m\<rparr>"
    and "OSEventType v = OS_EVENT_TYPE_SEM \<Longrightarrow> c \<noteq> 0 \<Longrightarrow> wl s i = {}" "OSEventType v = OS_EVENT_TYPE_MBOX \<Longrightarrow> m \<noteq> 0 \<Longrightarrow> wl s i = {}"
  shows "k_inv (put_event i v s)"
proof -
  have e: "os_inv (put_event i v s)" "wl (put_event i v s) = wl s" "rdy (put_event i v s) = rdy s" "OSTCBPrioTbl (put_event i v s) = OSTCBPrioTbl s"
    using put_event_inv [OF k_invD(2) [OF assms(1)] assms(2), of v] assms(3-5) by simp_all
  have "k_kept s (put_event i v s)"
    using e k_looseD(4) [OF k_invD(1) [OF assms(1)]] by (simp add: k_kept_def) (simp add: put_event_def)
  then show ?thesis using kept_inv [OF assms(1)] e(3) by blast
qed

lemma no_waiter:
  assumes "k_inv s" "i < length (OSEvents s)"
  shows "OSEventType (OSEvents s ! i) = OS_EVENT_TYPE_SEM \<Longrightarrow> OSEventCnt (OSEvents s ! i) \<noteq> 0 \<Longrightarrow> wl s i = {}"
    "OSEventType (OSEvents s ! i) = OS_EVENT_TYPE_MBOX \<Longrightarrow> OSEventPtr (OSEvents s ! i) \<noteq> 0 \<Longrightarrow> wl s i = {}"
    "OSEventGrp (OSEvents s ! i) = 0 \<longleftrightarrow> wl s i = {}"
  using os_invD(3) [OF k_invD(2) [OF assms(1)] assms(2)] grp_wl [OF os_invD(1) [OF k_invD(2) [OF assms(1)]] assms(2)] by (simp_all add: event_ok_def Let_def)

lemma accept_k:
  assumes "k_inv s" "i < length (OSEvents s)"
  shows "\<exists>s'. task_call (Sem_Accept i) s = Some s' \<and> k_inv s'" "\<exists>s'. task_call (Mbox_Accept i) s = Some s' \<and> k_inv s'"
    "\<exists>s'. task_call (Sem_Set i c) s = Some s' \<and> k_inv s'"
proof -
  let ?v = "OSEvents s ! i"
  note n = no_waiter [OF assms]
  have "k_inv (put_event i (?v\<lparr>OSEventCnt := OSEventCnt ?v - 1\<rparr>) s)" if "OSEventType ?v = OS_EVENT_TYPE_SEM" "OSEventCnt ?v > 0"
    by (rule put_event_k [OF assms, where c = "OSEventCnt ?v - 1" and m = "OSEventPtr ?v"]) (use that n in auto)
  then show "\<exists>s'. task_call (Sem_Accept i) s = Some s' \<and> k_inv s'" using assms by (simp add: OSSemAccept_def)
  have "k_inv (put_event i (?v\<lparr>OSEventPtr := 0\<rparr>) s)"
    by (rule put_event_k [OF assms, where c = "OSEventCnt ?v" and m = 0]) (use n in auto)
  then show "\<exists>s'. task_call (Mbox_Accept i) s = Some s' \<and> k_inv s'" using assms by (simp add: OSMboxAccept_def)
  have "k_inv (put_event i (?v\<lparr>OSEventCnt := c\<rparr>) s)" if "OSEventType ?v = OS_EVENT_TYPE_SEM" "OSEventCnt ?v > 0 \<or> OSEventGrp ?v = 0"
    by (rule put_event_k [OF assms, where c = c and m = "OSEventPtr ?v"]) (use that n in auto)
  then show "\<exists>s'. task_call (Sem_Set i c) s = Some s' \<and> k_inv s'" using assms by (simp add: OSSemSet_def)
qed

text \<open>Waking a task, and the scheduler.\<close>

lemma wake_sched_k:
  assumes "k_inv s" "i < length (OSEvents s)" "OSEventGrp (OSEvents s ! i) \<noteq> 0" "msk = ev_mask (OSEventType (OSEvents s ! i))"
  shows "\<exists>s1 s'. OS_EventTaskRdy i m msk st s = Some (Min (wl s i), s1) \<and> OS_Sched s1 = Some s' \<and> k_inv s'"
proof -
  note l = k_invD(1,2) [OF assms(1)]
  have "wl s i \<noteq> {}" using no_waiter(3) [OF assms(1,2)] assms(3) by simp
  then obtain s1 where s1: "OS_EventTaskRdy i m msk st s = Some (Min (wl s i), s1)" "woken s s1"
    using EventTaskRdy_woken [OF l(2) assms(2) _ assms(4), of m st] by blast
  show ?thesis using s1(1) sched_k [OF kept_loose [OF l(1) woken_kept [OF l(1) s1(2)]]] by blast
qed

lemma post_k:
  assumes "k_inv s" "i < length (OSEvents s)"
  shows "\<exists>r s'. OSSemPost i s = Some (r, s') \<and> k_inv s'" "\<exists>r s'. OSMboxPost i m s = Some (r, s') \<and> k_inv s'"
proof -
  let ?v = "OSEvents s ! i"
  note n = no_waiter [OF assms] and w = wake_sched_k [OF assms]
  show "\<exists>r s'. OSSemPost i s = Some (r, s') \<and> k_inv s'"
  proof (cases "OSEventType ?v = OS_EVENT_TYPE_SEM \<and> OSEventGrp ?v \<noteq> 0")
    case True
    then obtain s1 s' where "OS_EventTaskRdy i 0 OS_STAT_SEM OS_STAT_PEND_OK s = Some (Min (wl s i), s1)" "OS_Sched s1 = Some s'" "k_inv s'"
      using w [of OS_STAT_SEM 0 OS_STAT_PEND_OK] by auto
    then show ?thesis using True assms by (simp add: OSSemPost_def)
  next
    case False
    have "k_inv (put_event i (?v\<lparr>OSEventCnt := OSEventCnt ?v + 1\<rparr>) s)" if "OSEventType ?v = OS_EVENT_TYPE_SEM"
      by (rule put_event_k [OF assms, where c = "OSEventCnt ?v + 1" and m = "OSEventPtr ?v"]) (use that False n in auto)
    then show ?thesis using False assms by (auto simp: OSSemPost_def)
  qed
  show "\<exists>r s'. OSMboxPost i m s = Some (r, s') \<and> k_inv s'"
  proof (cases "OSEventType ?v = OS_EVENT_TYPE_MBOX \<and> OSEventGrp ?v \<noteq> 0")
    case True
    then obtain s1 s' where "OS_EventTaskRdy i m OS_STAT_MBOX OS_STAT_PEND_OK s = Some (Min (wl s i), s1)" "OS_Sched s1 = Some s'" "k_inv s'"
      using w [of OS_STAT_MBOX m OS_STAT_PEND_OK] by auto
    then show ?thesis using True assms by (simp add: OSMboxPost_def)
  next
    case False
    have "k_inv (put_event i (?v\<lparr>OSEventPtr := m\<rparr>) s)" if "OSEventType ?v = OS_EVENT_TYPE_MBOX"
      by (rule put_event_k [OF assms, where c = "OSEventCnt ?v" and m = m]) (use that False n in auto)
    then show ?thesis using False assms by (auto simp: OSMboxPost_def)
  qed
qed

text \<open>Waiting.\<close>

lemma wait_k:
  assumes "k_inv s" "i < length (OSEvents s)" "nothing_there s i" "msk = ev_mask (OSEventType (OSEvents s ! i))" "OSIntNesting s = 0" "OSLockNesting s = 0"
    and "OSTCBCur s \<noteq> OS_TASK_IDLE_PRIO" "k_wait s (OSTCBCur s) = None" "pend_ev w = i"
  shows "\<exists>s'. start_wait msk i n s = Some s' \<and> k_inv (s'\<lparr>k_wait := (k_wait s')(OSTCBCur s := Some w)\<rparr>)"
proof -
  note l = k_invD(1,2) [OF assms(1)]
  note ld = k_looseD [OF l(1)]
  define p where "p = OSTCBCur s"
  obtain t where t: "OSTCBPrioTbl s p = TCB t" using ld(4) by (auto simp: p_def)
  have r: "p \<in> rdy s" using k_invD(3) [OF assms(1,5,6)] highest_rdy(2) [OF l(2)] by (simp add: p_def)
  have nw: "p \<notin> wl s j" for j using ld(5) [of p j] assms(8) by (auto simp: p_def)
  obtain s1 t' where s1: "OS_EventTaskWait i (put_tcb p (t\<lparr>OSTCBStat := OSTCBStat t OR msk, OSTCBStatPend := OS_STAT_PEND_OK, OSTCBDly := n\<rparr>) s) = Some s1"
      "os_inv s1" "only_task p s s1" "rdy s1 = rdy s - {p}" "wl s1 = (wl s)(i := insert p (wl s i))" "OSTCBPrioTbl s1 p = TCB t'"
    using wait_inv [OF l(2) assms(2-4) t [unfolded p_def] r [unfolded p_def] assms(7), of n] nw unfolding p_def by blast
  have f: "os_frame s s1" using s1(3) by (simp add: only_task_def)
  note fs = os_frame_simps [OF f]
  have k1: "k_wait s1 = k_wait s" using fs(9) by (cases s, cases s1) simp
  have c: "OSTCBCur s1 = OSPrioCur s1" using fs(4,5) ld(3) by simp
  obtain s2 where s2: "OS_Sched s1 = Some s2" "os_inv s2" "same_but_cur s1 s2" "OSPrioCur s2 = Min (rdy s1)" "OSTCBCur s2 = Min (rdy s1)"
    using Sched_inv [OF s1(2) c] fs(2,3) assms(5,6) by auto
  have eq: "start_wait msk i n s = Some s2"
    using s1(1) s2(1) t by (simp add: start_wait_def p_def)
  have k2: "k_wait s2 = k_wait s" using s2(3) k1 by (cases s1, cases s2) (simp add: same_but_cur_def)
  define s3 where "s3 = s2\<lparr>k_wait := (k_wait s2)(p := Some w)\<rparr>"
  have sl: "same_lists s2 s3" by (simp add: same_lists_def s3_def)
  note v = same_lists_views [OF sl]
  have b: "rdy s2 = rdy s1" "wl s2 = wl s1" "OSEvents s2 = OSEvents s1" "OSRunning s2 = OSRunning s1" "OSIntNesting s2 = OSIntNesting s1" "OSLockNesting s2 = OSLockNesting s1"
    using s2(3) by (simp_all add: same_but_cur_def)
  have "\<exists>t. OSTCBPrioTbl s3 (OSTCBCur s3) = TCB t"
    using os_invD(2) [OF s2(2), of "Min (rdy s1)"] highest_rdy(2) [OF s1(2)] b(1) s2(5) by (auto simp: s3_def task_ok_def split: tcb_ptr.splits)
  moreover have "\<exists>w. k_wait s3 q = Some w \<and> pend_ev w = j" if "q \<in> wl s3 j" for q j
  proof (cases "q = p")
    case True
    then have "j = i" using that nw v(2) b(2) s1(5) by (simp split: if_splits)
    then show ?thesis using True assms(9) by (simp add: s3_def)
  next
    case False
    then have "q \<in> wl s j" using that v(2) b(2) s1(5) by (simp split: if_splits)
    then show ?thesis using ld(5) False by (simp add: s3_def k2)
  qed
  moreover have "pend_ev u < length (OSEvents s3)" if "k_wait s3 q = Some u" for q u
    using that ld(6) [of q u] assms(2,9) fs(7) b(3) v(5) by (simp add: s3_def k2 split: if_splits)
  ultimately have "k_inv s3"
    using v s2 b fs(1,2,3) assms(5,6) ld(2) by (simp add: k_inv_def k_loose_def) (simp add: s3_def)
  then show ?thesis using eq by (simp add: s3_def p_def)
qed

lemma pend_k:
  assumes "k_inv s" "i < length (OSEvents s)" "OSIntNesting s = 0" "OSTCBCur s \<noteq> OS_TASK_IDLE_PRIO" "k_wait s (OSTCBCur s) = None"
  shows "\<exists>s'. task_call (Sem_Pend i n) s = Some s' \<and> k_inv s'" "\<exists>s'. task_call (Mbox_Pend i n) s = Some s' \<and> k_inv s'"
proof -
  let ?v = "OSEvents s ! i"
  note nw = no_waiter [OF assms(1,2)]
  show "\<exists>s'. task_call (Sem_Pend i n) s = Some s' \<and> k_inv s'"
  proof (cases "OSEventType ?v = OS_EVENT_TYPE_SEM \<and> OSLockNesting s = 0 \<and> OSEventCnt ?v = 0")
    case True
    then have "nothing_there s i" by (simp add: nothing_there_def Let_def)
    then obtain s' where "start_wait OS_STAT_SEM i n s = Some s'" "k_inv (s'\<lparr>k_wait := (k_wait s')(OSTCBCur s := Some (Pend_Sem i))\<rparr>)"
      using wait_k [OF assms(1,2) _ _ assms(3) _ assms(4,5), of OS_STAT_SEM "Pend_Sem i" n] True by auto
    then show ?thesis using True assms by (simp add: OSSemPend_def waits_def)
  next
    case False
    have "k_inv (put_event i (?v\<lparr>OSEventCnt := OSEventCnt ?v - 1\<rparr>) s)" if "OSEventType ?v = OS_EVENT_TYPE_SEM" "OSEventCnt ?v > 0"
      by (rule put_event_k [OF assms(1,2), where c = "OSEventCnt ?v - 1" and m = "OSEventPtr ?v"]) (use that nw in auto)
    then show ?thesis using False assms by (auto simp: OSSemPend_def waits_def word_gt_0)
  qed
  show "\<exists>s'. task_call (Mbox_Pend i n) s = Some s' \<and> k_inv s'"
  proof (cases "OSEventType ?v = OS_EVENT_TYPE_MBOX \<and> OSLockNesting s = 0 \<and> OSEventPtr ?v = 0")
    case True
    then have "nothing_there s i" by (simp add: nothing_there_def Let_def)
    then obtain s' where "start_wait OS_STAT_MBOX i n s = Some s'" "k_inv (s'\<lparr>k_wait := (k_wait s')(OSTCBCur s := Some (Pend_Mbox i))\<rparr>)"
      using wait_k [OF assms(1,2) _ _ assms(3) _ assms(4,5), of OS_STAT_MBOX "Pend_Mbox i" n] True by auto
    then show ?thesis using True assms by (simp add: OSMboxPend_def waits_def)
  next
    case False
    have "k_inv (put_event i (?v\<lparr>OSEventPtr := 0\<rparr>) s)"
      by (rule put_event_k [OF assms(1,2), where c = "OSEventCnt ?v" and m = 0]) (use nw in auto)
    then show ?thesis using False assms by (auto simp: OSMboxPend_def waits_def word_gt_0)
  qed
qed

text \<open>The end of a wait.\<close>

lemma resume_k:
  assumes "k_inv s" "OSIntNesting s = 0" "k_wait s (OSTCBCur s) = Some w"
  shows "\<exists>s'. task_resume w s = Some s' \<and> k_inv s'"
proof -
  note l = k_invD(1,2) [OF assms(1)]
  note ld = k_looseD [OF l(1)]
  define p where "p = OSTCBCur s"
  obtain t where t: "OSTCBPrioTbl s p = TCB t" using ld(4) by (auto simp: p_def)
  have lk: "OSLockNesting s = 0" using ld(7) assms(3) by auto
  have r: "p \<in> rdy s" using k_invD(3) [OF assms(1,2) lk] highest_rdy(2) [OF l(2)] by (simp add: p_def)
  have i: "pend_ev w < length (OSEvents s)" using ld(6) [OF assms(3)] .
  have only: "j = pend_ev w" if "p \<in> wl s j" for j using ld(5) [OF that] assms(3) by (simp add: p_def)
  obtain err m s1 t' where s1: "end_wait (pend_ev w) s = Some (err, m, s1)" "os_inv s1" "only_task p s s1" "rdy s1 = rdy s" "\<forall>j. wl s1 j = wl s j - {p}"
      "OSTCBPrioTbl s1 p = TCB t'"
    using end_wait_inv [OF l(2) i t [unfolded p_def] r [unfolded p_def] only [unfolded p_def]] unfolding p_def by blast
  define s2 where "s2 = (case w of Pend_Sem i \<Rightarrow> s1 | Pend_Mbox i \<Rightarrow> put_tcb p (t'\<lparr>OSTCBMsg := 0\<rparr>) s1)"
  have f: "os_frame s s1" using s1(3) by (simp add: only_task_def)
  have k1: "k_wait s1 = k_wait s" using os_frame_simps(9) [OF f] by (cases s, cases s1) simp
  note tk' = os_invD(2) [OF s1(2), of p]
  have wf: "tcb_wf p (t'\<lparr>OSTCBMsg := 0\<rparr>)" using task_okD(1) [OF tk' s1(6)] by (simp add: tcb_wf_def)
  have "task_ok (put_tcb p (t'\<lparr>OSTCBMsg := 0\<rparr>) s1) p" using tk' s1(6) wf by (simp add: task_ok_def pend_bits_def)
  then have "os_inv (put_tcb p (t'\<lparr>OSTCBMsg := 0\<rparr>) s1)"
    using os_invD(4) [OF s1(2)] by (intro os_inv_local [OF s1(2) put_only(1) [OF s1(2,6) wf]]) (auto simp: idle_ok_def)
  then have i2: "os_inv s2" using s1(2) by (simp add: s2_def split: kpend.split)
  have v: "rdy s2 = rdy s" "wl s2 = wl s1" "\<exists>t. OSTCBPrioTbl s2 p = TCB t" "k_wait s2 = k_wait s" "OSTCBCur s2 = p" "OSPrioCur s2 = p" "OSRunning s2 = True"
      "OSIntNesting s2 = 0" "OSLockNesting s2 = 0" "length (OSEvents s2) = length (OSEvents s)"
    using s1(4,6) k1 os_frame_simps [OF f] ld(2,3) assms(2) lk by (simp_all add: s2_def p_def put_tcb_def rdy_def wl_def fun_eq_iff split: kpend.split)
  have eq: "task_resume w s = Some (s2\<lparr>k_wait := (k_wait s2)(p := None)\<rparr>)"
    using s1(1,6) v(5) os_frame_simps(5) [OF f]
    by (cases w) (simp_all add: task_resume_def OSSemPend_end_def OSMboxPend_end_def s2_def p_def)
  define s3 where "s3 = s2\<lparr>k_wait := (k_wait s2)(p := None)\<rparr>"
  have sl: "same_lists s2 s3" by (simp add: same_lists_def s3_def)
  note v3 = same_lists_views [OF sl]
  have "\<exists>w. k_wait s3 q = Some w \<and> pend_ev w = j" if "q \<in> wl s3 j" for q j
    using that v3(2) v(2,4) s1(5) ld(5) [of q j] by (simp add: s3_def)
  moreover have "pend_ev u < length (OSEvents s3)" if "k_wait s3 q = Some u" for q u
    using that ld(6) [of q u] v(4,10) v3(5) by (simp add: s3_def split: if_splits)
  moreover have "OSTCBCur s = Min (rdy s)" using k_invD(3) [OF assms(1,2) lk] .
  ultimately have "k_inv s3" using v3 v i2 by (simp add: k_inv_def k_loose_def p_def) (simp add: s3_def p_def)
  then show ?thesis using eq by (simp add: s3_def)
qed

text \<open>Stopping tasks and starting them again.\<close>

lemma stop_k:
  assumes "k_inv s" "OSTCBPrioTbl s p = TCB t" "p \<noteq> OS_TASK_IDLE_PRIO" "stat_ok w"
    and "w AND OS_STAT_PEND_ANY = OSTCBStat t AND OS_STAT_PEND_ANY" "w \<noteq> 0 \<or> n \<noteq> 0" "n = 0 \<or> (\<forall>i. p \<notin> wl s i) \<or> n = OSTCBDly t"
  defines "s' \<equiv> put_tcb p (t\<lparr>OSTCBStat := w, OSTCBDly := n\<rparr>) (make_unready t s)"
  shows "k_loose s'" "p \<noteq> OSTCBCur s \<Longrightarrow> k_inv s'"
proof -
  note l = k_invD(1,2) [OF assms(1)]
  have st: "os_inv s'" "only_task p s s'" "rdy s' = rdy s - {p}" "wl s' = wl s"
    using stop_task_inv [OF l(2) assms(2,3) refl assms(4-7)] by (simp_all add: s'_def)
  have k: "k_kept s s'" using only_kept [OF l(1) st(2,1)] st(4) by simp
  show lo: "k_loose s'" by (rule kept_loose [OF l(1) k])
  assume ne: "p \<noteq> OSTCBCur s"
  have "Min (rdy s') = Min (rdy s)" if "OSTCBCur s = Min (rdy s)"
  proof -
    have f: "finite (rdy s)" by (simp add: rdy_def prios_less(2))
    have "Min (rdy s) \<in> rdy s - {p}" using highest_rdy(2) [OF l(2)] ne that by simp
    then show ?thesis using f st(3) by (intro Min_eqI) auto
  qed
  then show "k_inv s'" using lo k k_invD(3) [OF assms(1)] by (simp add: k_inv_def k_kept_def)
qed

lemma dly_k:
  assumes "k_inv s" "OSIntNesting s = 0" "OSTCBCur s \<noteq> OS_TASK_IDLE_PRIO" "k_wait s (OSTCBCur s) = None"
  shows "\<exists>s'. task_call (Time_Dly n) s = Some s' \<and> k_inv s'"
proof (cases "OSLockNesting s = 0 \<and> n > 0")
  case True
  note l = k_invD(1,2) [OF assms(1)]
  obtain t where t: "OSTCBPrioTbl s (OSTCBCur s) = TCB t" using k_looseD(4) [OF l(1)] by blast
  note d = task_okD [OF os_invD(2) [OF l(2)] t]
  have "OSTCBCur s \<notin> wl s i" for i using k_looseD(5) [OF l(1), of "OSTCBCur s" i] assms(4) by auto
  then have "k_loose (put_tcb (OSTCBCur s) (t\<lparr>OSTCBStat := OSTCBStat t, OSTCBDly := n\<rparr>) (make_unready t s))"
    using stop_k(1) [OF assms(1) t assms(3) d(2) refl, of n] True by (simp add: word_gt_0)
  then show ?thesis using sched_k t assms(2) True by (simp add: OSTimeDly_def)
next
  case False
  then show ?thesis using assms(1) by (auto simp: OSTimeDly_def word_gt_0)
qed

lemma suspend_k:
  assumes "k_inv s" "p < OS_TASK_IDLE_PRIO \<or> p = OS_PRIO_SELF" "OSTCBCur s \<noteq> OS_TASK_IDLE_PRIO"
  shows "\<exists>s'. task_call (Task_Suspend p) s = Some s' \<and> k_inv s'"
proof -
  note l = k_invD(1,2) [OF assms(1)]
  obtain c where c: "OSTCBPrioTbl s (OSTCBCur s) = TCB c" using k_looseD(4) [OF l(1)] by blast
  have pc: "OSTCBPrio c = OSTCBCur s" "OSTCBCur s < 64" using task_okD(1) [OF os_invD(2) [OF l(2)] c] by (simp_all add: tcb_wf_def)
  define q where "q = (if p = OS_PRIO_SELF then OSTCBPrio c else p)"
  have q: "q \<noteq> OS_TASK_IDLE_PRIO" "q \<le> OS_LOWEST_PRIO" using assms(2,3) pc by (auto simp: q_def OS_TASK_IDLE_PRIO_def OS_LOWEST_PRIO_def)
  show ?thesis
  proof (cases "\<exists>t. OSTCBPrioTbl s q = TCB t")
    case True
    then obtain t where t: "OSTCBPrioTbl s q = TCB t" ..
    define s1 where "s1 = put_tcb q (t\<lparr>OSTCBStat := OSTCBStat t OR OS_STAT_SUSPEND\<rparr>) (make_unready t s)"
    note b = stat_bits [OF task_okD(2) [OF os_invD(2) [OF l(2)] t]]
    have k: "k_loose s1" "q \<noteq> OSTCBCur s \<Longrightarrow> k_inv s1"
      using stop_k [OF assms(1) t q(1) b(4,8), of "OSTCBDly t"] b(10) by (simp_all add: s1_def)
    have "task_call (Task_Suspend p) s = (if q = OSTCBPrio c then OS_Sched s1 else Some s1)"
      using t q c by (simp add: OSTaskSuspend_def Let_def q_def [symmetric] s1_def option.map_comp comp_def option.map_ident)
    then show ?thesis using k sched_k [OF k(1)] pc by simp
  next
    case False
    have "\<exists>r. OSTaskSuspend p s = Some (r, s)"
      using False q c unfolding OSTaskSuspend_def Let_def q_def by (cases "OSTCBPrioTbl s q") (auto simp: q_def split: if_splits)
    then show ?thesis using assms(1) by auto
  qed
qed

lemma task_resume_k:
  assumes "k_inv s" "p \<le> OS_LOWEST_PRIO"
  shows "\<exists>s'. task_call (Task_Resume p) s = Some s' \<and> k_inv s'"
proof (cases "\<exists>t. OSTCBPrioTbl s p = TCB t \<and> suspended t")
  case True
  then obtain t where t: "OSTCBPrioTbl s p = TCB t" "suspended t" by blast
  note l = k_invD(1,2) [OF assms(1)]
  define t1 where "t1 = t\<lparr>OSTCBStat := OSTCBStat t AND NOT OS_STAT_SUSPEND\<rparr>"
  define s1 where "s1 = put_tcb p t1 s"
  note r = OSTaskResume_inv [OF l(2) t, folded t1_def, folded s1_def]
  have c: "OSTCBStat t AND OS_STAT_SUSPEND \<noteq> OS_STAT_RDY" using t(2) by (simp add: suspended_def)
  have z: "OS_STAT_RDY = 0" by (simp add: OS_STAT_RDY_def)
  show ?thesis
  proof (cases "OSTCBStat t1 = 0 \<and> OSTCBDly t1 = 0")
    case True
    note k = kept_loose [OF l(1) only_kept [OF l(1), of p "make_ready t1 s1"]]
    have ki: "k_loose (make_ready t1 s1)" using k r(1) [OF True] by simp
    have "task_call (Task_Resume p) s = OS_Sched (make_ready t1 s1)"
      using t assms(2) c True k_looseD(2) [OF ki]
      by (simp add: OSTaskResume_def z [symmetric] t1_def [symmetric] s1_def [symmetric] Let_def option.map_comp comp_def option.map_ident)
    then show ?thesis using sched_k [OF ki] by simp
  next
    case False
    have w: "wl s1 = wl s" "rdy s1 = rdy s" by (simp_all add: s1_def)
    have "k_inv s1" using kept_inv [OF assms(1) only_kept [OF l(1), of p s1]] r(2) [OF False] w by simp
    then show ?thesis using t assms(2) c False unfolding z [symmetric]
      by (auto simp: OSTaskResume_def t1_def [symmetric] s1_def [symmetric] Let_def)
  qed
next
  case False
  then have "\<exists>r. OSTaskResume p s = Some (r, s)"
    using assms(2) by (cases "OSTCBPrioTbl s p") (auto simp: OSTaskResume_def suspended_def)
  then show ?thesis using assms(1) by auto
qed

lemma dly_resume_k:
  assumes "k_inv s" shows "\<exists>s'. task_call (Dly_Resume p) s = Some s' \<and> k_inv s'"
proof (cases "\<exists>t. OSTCBPrioTbl s p = TCB t \<and> OSTCBDly t \<noteq> 0 \<and> p < OS_LOWEST_PRIO")
  case True
  then obtain t where t: "OSTCBPrioTbl s p = TCB t" "OSTCBDly t \<noteq> 0" "p < OS_LOWEST_PRIO" by blast
  note l = k_invD(1,2) [OF assms(1)]
  define s1 where "s1 = time_over p (t\<lparr>OSTCBDly := 0\<rparr>) s"
  note o = time_over_inv [OF l(2) t(1,2) refl, folded s1_def]
  have k: "k_kept s s1" using only_kept [OF l(1) o(2,1)] o(5) by simp
  have "task_call (Dly_Resume p) s = (if suspended t then Some s1 else OS_Sched s1)"
    using t by (simp add: OSTimeDlyResume_def s1_def Let_def suspended_def option.map_comp comp_def option.map_ident)
  then show ?thesis using sched_k [OF kept_loose [OF l(1) k]] kept_inv [OF assms k] o(4) by simp
next
  case False
  then have "\<exists>r. OSTimeDlyResume p s = Some (r, s)" by (cases "OSTCBPrioTbl s p") (auto simp: OSTimeDlyResume_def)
  then show ?thesis using assms by auto
qed

lemma lock_k:
  assumes "k_inv s" "OSIntNesting s = 0" "k_wait s (OSTCBCur s) = None"
  shows "\<exists>s'. task_call Sched_Lock s = Some s' \<and> k_inv s'" "\<exists>s'. task_call Sched_Unlock s = Some s' \<and> k_inv s'"
proof -
  note l = k_invD(1) [OF assms(1)]
  have any: "k_loose (s\<lparr>OSLockNesting := n\<rparr>)" for n
  proof -
    have sl: "same_lists s (s\<lparr>OSLockNesting := n\<rparr>)" by (simp add: same_lists_def)
    show ?thesis using same_lists_views [OF sl] k_looseD [OF l] assms(3) by (simp add: k_loose_def)
  qed
  have "k_inv (s\<lparr>OSLockNesting := OSLockNesting s + 1\<rparr>)" if "OSLockNesting s < 255"
  proof -
    have "OSLockNesting s + 1 \<noteq> 0" using that by (auto simp flip: eq_neg_iff_add_eq_0)
    then show ?thesis using any by (simp add: k_inv_def)
  qed
  then show "\<exists>s'. task_call Sched_Lock s = Some s' \<and> k_inv s'" using assms(1) by (simp add: OSSchedLock_def)
  show "\<exists>s'. task_call Sched_Unlock s = Some s' \<and> k_inv s'"
    using any [of "OSLockNesting s - 1"] sched_k [OF any, of "OSLockNesting s - 1"] assms(1,2)
    by (auto simp: OSSchedUnlock_def Let_def k_inv_def)
qed

text \<open>Deleting events and ending waits.\<close>

lemma wake_all_k:
  assumes "k_loose s" "i < length (OSEvents s)" "msk = ev_mask (OSEventType (OSEvents s ! i))"
  shows "\<exists>n s'. wake_all i m msk st 0 s = Some (n, s') \<and> k_loose s' \<and> wl s' i = {} \<and> os_frame s s' \<and> (wl s i = {} \<longrightarrow> s' = s)"
proof -
  obtain s' where s': "wake_all i m msk st 0 s = Some (0 + card (wl s i), s')" "woken s s'" "wl s' = (wl s)(i := {})"
    using wake_all_inv [OF k_looseD(1) [OF assms(1)] assms(2,3), of m st 0] by blast
  have "s' = s" if "wl s i = {}"
  proof -
    have "OSEventGrp (OSEvents s ! i) = 0" using grp_wl [OF os_invD(1) [OF k_looseD(1) [OF assms(1)]] assms(2)] that by simp
    then show ?thesis using s'(1) assms(2) by (subst (asm) wake_all.simps) simp
  qed
  then show ?thesis using s' kept_loose [OF assms(1) woken_kept [OF assms(1) s'(2)]] by (auto simp: woken_def)
qed

text \<open>A block without waiting tasks gets a new type.\<close>

lemma retype_inv:
  fixes fl :: "nat list"
  assumes "os_inv s" "i < length (OSEvents s)" "wl s i = {}" "list_ok (OSEventGrp v) (OSEventTbl v)" "prios (OSEventTbl v) = {}"
  defines "s' \<equiv> (put_event i v s)\<lparr>OSEventFreeList := fl\<rparr>"
  assumes "free_ok s'"
  shows "os_inv s'" "wl s' = wl s" "rdy s' = rdy s" "OSTCBPrioTbl s' = OSTCBPrioTbl s"
proof -
  have e: "OSEvents s' = (OSEvents s)[i := v]" by (simp add: s'_def put_event_def)
  have "wl s' j = wl s j" for j
    using assms(2,3,5) by (cases "j = i") (simp_all add: wl_def e)
  then show w: "wl s' = wl s" by blast
  show r: "rdy s' = rdy s" and t: "OSTCBPrioTbl s' = OSTCBPrioTbl s" by (simp_all add: s'_def put_event_def rdy_def)
  have ty: "OSEventType (OSEvents s' ! j) = OSEventType (OSEvents s ! j)" if "p \<in> wl s j" for p j
    using that assms(3) by (cases "j = i") (simp_all add: e)
  have lr: "OSRdyGrp s' = OSRdyGrp s" "OSRdyTbl s' = OSRdyTbl s" by (simp_all add: s'_def put_event_def)
  have "lists_ok s'" using os_invD(1) [OF assms(1)] assms(2,4) by (simp add: lists_ok_def lr e nth_list_update)
  moreover have "task_ok s' p" for p
    using os_invD(2) [OF assms(1), of p] ty [of p] unfolding task_ok_def w r t by (simp split: tcb_ptr.splits)
  moreover have "event_ok s' j" if "j < length (OSEvents s')" for j
    using os_invD(3) [OF assms(1), of j] that assms(3) by (cases "j = i") (auto simp: event_ok_def w e Let_def)
  moreover have "idle_ok s'" "list_of_tasks s'"
    using os_invD(4,5) [OF assms(1)] by (simp_all add: idle_ok_def r list_of_tasks_def t) (simp add: s'_def put_event_def)
  ultimately show "os_inv s'" using assms(7) by (simp add: os_inv_def)
qed

lemma retype_k:
  fixes fl :: "nat list"
  assumes "k_loose s" "i < length (OSEvents s)" "wl s i = {}" "list_ok (OSEventGrp v) (OSEventTbl v)" "prios (OSEventTbl v) = {}"
  defines "s' \<equiv> (put_event i v s)\<lparr>OSEventFreeList := fl\<rparr>"
  assumes "free_ok s'"
  shows "k_kept s s'" "rdy s' = rdy s"
proof -
  note r = retype_inv [OF k_looseD(1) [OF assms(1)] assms(2-5), of fl, folded s'_def, OF assms(7)]
  show "rdy s' = rdy s" by (rule r(3))
  show "k_kept s s'" using r k_looseD(4) [OF assms(1)] by (simp add: k_kept_def) (simp add: s'_def put_event_def)
qed

lemma free_event_k:
  assumes "k_loose s" "i < length (OSEvents s)" "wl s i = {}" "OSEventType (OSEvents s ! i) \<noteq> OS_EVENT_TYPE_UNUSED"
  shows "\<exists>s'. free_event i s = Some s' \<and> k_kept s s' \<and> rdy s' = rdy s"
proof -
  let ?v = "(OSEvents s ! i)\<lparr>OSEventType := OS_EVENT_TYPE_UNUSED, OSEventCnt := 0\<rparr>"
  define s' where "s' = (put_event i ?v s)\<lparr>OSEventFreeList := i # OSEventFreeList s\<rparr>"
  note o = os_invD [OF k_looseD(1) [OF assms(1)]]
  have f: "free_ok s'"
    using o(6) assms(2,4) by (auto simp: free_ok_def s'_def put_event_def nth_list_update)
  have "list_ok (OSEventGrp ?v) (OSEventTbl ?v)" "prios (OSEventTbl ?v) = {}"
    using o(1) assms(2,3) by (auto simp: lists_ok_def wl_def)
  from retype_k [OF assms(1-3) this, of "i # OSEventFreeList s", folded s'_def, OF f] show ?thesis
    using assms(2) by (simp add: free_event_def s'_def)
qed

lemma del_k:
  assumes "k_inv s" "i < length (OSEvents s)" "OSIntNesting s = 0" "type \<noteq> OS_EVENT_TYPE_UNUSED" "msk = ev_mask type"
  shows "\<exists>r s'. del_event type msk i opt s = Some (r, s') \<and> k_inv s'"
proof -
  let ?v = "OSEvents s ! i"
  note l = k_invD(1) [OF assms(1)]
  consider (other) "OSEventType ?v \<noteq> type \<or> opt \<noteq> OS_DEL_NO_PEND \<and> opt \<noteq> OS_DEL_ALWAYS \<or> opt = OS_DEL_NO_PEND \<and> OSEventGrp ?v \<noteq> 0"
    | (np) "OSEventType ?v = type" "opt = OS_DEL_NO_PEND" "OSEventGrp ?v = 0" | (al) "OSEventType ?v = type" "opt = OS_DEL_ALWAYS" by blast
  then show ?thesis
  proof cases
    case other
    have ne: "OS_DEL_NO_PEND \<noteq> OS_DEL_ALWAYS" by (simp add: OS_DEL_NO_PEND_def OS_DEL_ALWAYS_def)
    show ?thesis using other assms(1-3) ne by (auto simp: del_event_def)
  next
    case np
    obtain s' where s': "free_event i s = Some s'" "k_kept s s'" "rdy s' = rdy s"
      using free_event_k [OF l assms(2)] no_waiter(3) [OF assms(1,2)] np assms(4) by auto
    then show ?thesis using np assms(2,3) kept_inv [OF assms(1)] by (simp add: del_event_def)
  next
    case al
    obtain n s1 where s1: "wake_all i 0 msk OS_STAT_PEND_OK 0 s = Some (n, s1)" "k_loose s1" "wl s1 i = {}" "os_frame s s1" "wl s i = {} \<longrightarrow> s1 = s"
      using wake_all_k [OF l assms(2), of msk 0 OS_STAT_PEND_OK] al(1) assms(5) by blast
    have i1: "i < length (OSEvents s1)" "OSEventType (OSEvents s1 ! i) \<noteq> OS_EVENT_TYPE_UNUSED"
      using os_frame_simps(7) [OF s1(4)] os_frame_core(1) [OF s1(4) assms(2)] assms(2,4) al(1) by simp_all
    obtain s2 where s2: "free_event i s1 = Some s2" "k_kept s1 s2" "rdy s2 = rdy s1" using free_event_k [OF s1(2) i1(1) s1(3) i1(2)] by blast
    have "opt \<noteq> OS_DEL_NO_PEND" using al by (simp add: OS_DEL_NO_PEND_def OS_DEL_ALWAYS_def)
    then have eq: "del_event type msk i opt s = map_option (Pair OS_ERR_NONE) (if OSEventGrp ?v \<noteq> 0 then OS_Sched s2 else Some s2)"
      using al assms(2,3) s1(1) s2(1) by (simp add: del_event_def)
    show ?thesis
    proof (cases "OSEventGrp ?v = 0")
      case True
      then have "s1 = s" using s1(5) no_waiter(3) [OF assms(1,2)] by blast
      then show ?thesis using eq True s2 kept_inv [OF assms(1)] by simp
    next
      case False
      then show ?thesis using eq sched_k [OF kept_loose [OF s1(2) s2(2)]] by auto
    qed
  qed
qed

lemma abort_k:
  assumes "k_inv s" "i < length (OSEvents s)" "msk = ev_mask type"
  shows "\<exists>n r s'. abort_pend type msk i opt s = Some (n, r, s') \<and> k_inv s'"
proof (cases "OSEventType (OSEvents s ! i) = type \<and> OSEventGrp (OSEvents s ! i) \<noteq> 0")
  case True
  note l = k_invD(1) [OF assms(1)]
  show ?thesis
  proof (cases "opt = OS_PEND_OPT_BROADCAST")
    case bc: True
    obtain n s1 where s1: "wake_all i 0 msk OS_STAT_PEND_ABORT 0 s = Some (n, s1)" "k_loose s1"
      using wake_all_k [OF l assms(2), of msk 0 OS_STAT_PEND_ABORT] True assms(3) by blast
    then show ?thesis using sched_k [OF s1(2)] True bc assms(2) by (auto simp: abort_pend_def)
  next
    case False
    then show ?thesis using wake_sched_k [OF assms(1,2), of msk 0 OS_STAT_PEND_ABORT] True assms(2,3) by (auto simp: abort_pend_def)
  qed
next
  case False
  then show ?thesis using assms(1,2) by (auto simp: abort_pend_def)
qed

text \<open>The clock tick and interrupts.\<close>

lemma tick_k:
  assumes "k_inv s" "OSIntNesting s > 0"
  shows "\<exists>s'. OSTimeTick s = Some s' \<and> k_inv s'"
proof -
  note l = k_invD(1) [OF assms(1)]
  obtain s' where s': "OSTimeTick s = Some s'" "os_inv s'" "wl s' = wl s" "OSRunning s' = OSRunning s" "OSIntNesting s' = OSIntNesting s" "OSLockNesting s' = OSLockNesting s"
      "OSPrioCur s' = OSPrioCur s" "OSTCBCur s' = OSTCBCur s" "os.more s' = os.more s" "\<And>p. (\<exists>t. OSTCBPrioTbl s' p = TCB t) \<longleftrightarrow> (\<exists>t. OSTCBPrioTbl s p = TCB t)"
      "length (OSEvents s') = length (OSEvents s)"
    using OSTimeTick_inv [OF k_looseD(1) [OF l]] by blast
  have "k_wait s' = k_wait s" using s'(9) by (cases s, cases s') simp
  then have "k_kept s s'" using s' k_looseD(4) [OF l] by (simp add: k_kept_def)
  then have "k_loose s'" by (rule kept_loose [OF l])
  then show ?thesis using s'(1,5) assms(2) by (auto simp: k_inv_def)
qed

lemma isr_k:
  assumes "k_inv s" "isr_ok s i"
  shows "\<exists>s'. isr_step i s = Some s' \<and> k_inv s'"
proof -
  note l = k_invD(1) [OF assms(1)]
  have any: "k_loose (s\<lparr>OSIntNesting := n\<rparr>)" for n
  proof -
    have sl: "same_lists s (s\<lparr>OSIntNesting := n\<rparr>)" by (simp add: same_lists_def)
    show ?thesis using same_lists_views [OF sl] k_looseD [OF l] by (simp add: k_loose_def)
  qed
  show ?thesis
  proof (cases i)
    case Int_Enter
    have "k_inv (s\<lparr>OSIntNesting := OSIntNesting s + 1\<rparr>)" if "OSIntNesting s < 255"
    proof -
      have "OSIntNesting s + 1 \<noteq> 0" using that by (auto simp flip: eq_neg_iff_add_eq_0)
      then show ?thesis using any by (simp add: k_inv_def)
    qed
    then show ?thesis using Int_Enter assms(1) by (simp add: OSIntEnter_def)
  next
    case Int_Exit
    let ?s = "s\<lparr>OSIntNesting := OSIntNesting s - 1\<rparr>"
    obtain s' where s': "OS_Sched ?s = Some s'" "k_inv s'" using sched_k [OF any] by blast
    have "OSIntExit s = OS_Sched ?s" using assms(2) Int_Exit k_looseD(2) [OF l] by (simp add: OSIntExit_def OS_Sched_def Let_def)
    then show ?thesis using Int_Exit s' by simp
  qed (use assms tick_k post_k in fastforce)+
qed

text \<open>Creating events and tasks; the invariant without the idle task, for the initialisation.\<close>

lemma new_event_cases:
  assumes "os_inv s"
  shows "\<exists>r s'. new_event f s = Some (r, s') \<and> (s' = s \<or> (\<exists>i v fl. s' = (put_event i v s)\<lparr>OSEventFreeList := fl\<rparr> \<and> i < length (OSEvents s) \<and> wl s i = {} \<and>
    list_ok (OSEventGrp v) (OSEventTbl v) \<and> prios (OSEventTbl v) = {} \<and> free_ok s'))"
proof (cases "OSIntNesting s > 0 \<or> OSEventFreeList s = []")
  case True
  then show ?thesis by (auto simp: new_event_def)
next
  case False
  then obtain i fl where fl: "OSEventFreeList s = i # fl" by (cases "OSEventFreeList s") auto
  have i: "i < length (OSEvents s)" "OSEventType (OSEvents s ! i) = OS_EVENT_TYPE_UNUSED" using os_invD(6) [OF assms] fl by (simp_all add: free_ok_def)
  define v where "v = OS_EventWaitListInit (f (OSEvents s ! i))"
  define s' where "s' = (put_event i v s)\<lparr>OSEventFreeList := fl\<rparr>"
  have eq: "new_event f s = Some (Some i, s')" using False fl i(1) by (simp add: new_event_def v_def s'_def get_event_def put_event_def)
  have "ev_mask OS_EVENT_TYPE_UNUSED = 0"
    by (simp add: ev_mask_def OS_EVENT_TYPE_UNUSED_def OS_EVENT_TYPE_SEM_def OS_EVENT_TYPE_MBOX_def OS_EVENT_TYPE_Q_def)
  then have w: "wl s i = {}" using os_invD(3) [OF assms i(1)] i(2) by (simp add: event_ok_def Let_def)
  have f: "free_ok s'" using os_invD(6) [OF assms] fl i(1) by (auto simp: free_ok_def s'_def put_event_def nth_list_update)
  have v: "list_ok (OSEventGrp v) (OSEventTbl v)" "prios (OSEventTbl v) = {}" using empty_prios by (simp_all add: v_def OS_EventWaitListInit_def)
  show ?thesis using eq s'_def i(1) w v f by blast
qed

definition part_inv :: "'a os_scheme \<Rightarrow> bool" where
  "part_inv s \<longleftrightarrow> lists_ok s \<and> (\<forall>p. task_ok s p) \<and> (\<forall>i < length (OSEvents s). event_ok s i) \<and> free_ok s \<and>
     distinct (OSTCBList s) \<and> (\<forall>p. p \<in> set (OSTCBList s) \<longleftrightarrow> (\<exists>t. OSTCBPrioTbl s p = TCB t))"

lemma os_inv_part: "os_inv s \<longleftrightarrow> part_inv s \<and> idle_ok s \<and> last (OSTCBList s) = OS_TASK_IDLE_PRIO"
  by (auto simp: os_inv_def part_inv_def list_of_tasks_def)

definition new_task :: "nat \<Rightarrow> OS_TCB" where
  "new_task p = \<lparr>OSTCBPrio = p, OSTCBX = p mod 8, OSTCBY = p div 8, OSTCBBitX = bit8 (p mod 8), OSTCBBitY = bit8 (p div 8),
     OSTCBStat = OS_STAT_RDY, OSTCBStatPend = OS_STAT_PEND_OK, OSTCBDly = 0, OSTCBEventPtr = None, OSTCBEventMultiPtr = None,
     OSTCBMsg = 0, OSTCBCtxSwCtr = 0\<rparr>"

definition with_task :: "nat \<Rightarrow> 'a os_scheme \<Rightarrow> 'a os_scheme" where
  "with_task p s = (make_ready (new_task p) (s\<lparr>OSTCBFree := OSTCBFree s - 1, OSTCBPrioTbl := (OSTCBPrioTbl s)(p := TCB (new_task p)),
     OSTCBList := p # OSTCBList s\<rparr>))\<lparr>OSTaskCtr := OSTaskCtr s + 1\<rparr>"

lemma create_eq:
  "OSTaskCreate p s =
     (if OSIntNesting s > 0 then Some (OS_ERR_TASK_CREATE_ISR, s)
      else if p > OS_LOWEST_PRIO then None
      else if OSTCBPrioTbl s p = TCB_NULL then
        if OSTCBFree s > 0 then
          if OSRunning s then map_option (Pair OS_ERR_NONE) (OS_Sched (with_task p s)) else Some (OS_ERR_NONE, with_task p s)
        else Some (OS_ERR_TASK_NO_MORE_TCB, s\<lparr>OSTCBPrioTbl := (OSTCBPrioTbl s)(p := TCB_NULL)\<rparr>)
      else Some (OS_ERR_PRIO_EXIST, s))"
proof -
  have e: "OS_ERR_TASK_NO_MORE_TCB \<noteq> OS_ERR_NONE" by (simp add: OS_ERR_TASK_NO_MORE_TCB_def OS_ERR_NONE_def)
  have i: "OS_TCBInit p (s\<lparr>OSTCBPrioTbl := (OSTCBPrioTbl s)(p := OS_TCB_RESERVED)\<rparr>) =
      (if OSTCBFree s > 0 then (OS_ERR_NONE, with_task p s) else (OS_ERR_TASK_NO_MORE_TCB, s\<lparr>OSTCBPrioTbl := (OSTCBPrioTbl s)(p := OS_TCB_RESERVED)\<rparr>))"
    unfolding OS_TCBInit_def with_task_def new_task_def [symmetric] Let_def by (simp add: put_tcb_def)
  have r: "OSRunning (with_task p s) = OSRunning s" by (simp add: with_task_def make_ready_def split: prod.splits)
  show ?thesis unfolding OSTaskCreate_def i using e r by simp
qed

lemma with_task_part:
  assumes "part_inv s" "OSTCBPrioTbl s p = TCB_NULL" "p \<le> OS_LOWEST_PRIO"
  shows "part_inv (with_task p s)" "rdy (with_task p s) = insert p (rdy s)" "wl (with_task p s) = wl s" "OSTCBList (with_task p s) = p # OSTCBList s"
    "OSTCBPrioTbl (with_task p s) = (OSTCBPrioTbl s)(p := TCB (new_task p))" "OSEvents (with_task p s) = OSEvents s"
    "OSRunning (with_task p s) = OSRunning s" "OSIntNesting (with_task p s) = OSIntNesting s" "OSLockNesting (with_task p s) = OSLockNesting s"
    "OSTCBCur (with_task p s) = OSTCBCur s" "OSPrioCur (with_task p s) = OSPrioCur s" "os.more (with_task p s) = os.more s"
proof -
  define s1 where "s1 = s\<lparr>OSTCBFree := OSTCBFree s - 1, OSTCBPrioTbl := (OSTCBPrioTbl s)(p := TCB (new_task p)), OSTCBList := p # OSTCBList s\<rparr>"
  have l: "lists_ok s1" using assms(1) by (simp add: part_inv_def lists_ok_def s1_def)
  have wf: "tcb_wf p (new_task p)" using assms(3) by (simp add: tcb_wf_def new_task_def OS_LOWEST_PRIO_def)
  note r = make_ready_effect [OF l wf]
  have sl: "same_lists (make_ready (new_task p) s1) (with_task p s)"
    unfolding with_task_def s1_def [symmetric] by (simp add: same_lists_def)
  note v = same_lists_views [OF sl]
  have v1: "rdy s1 = rdy s" "wl s1 = wl s" by (simp_all add: s1_def rdy_def wl_def fun_eq_iff)
  note f = os_frame_simps [OF r(6)]
  show rd: "rdy (with_task p s) = insert p (rdy s)" and w: "wl (with_task p s) = wl s"
    and tb: "OSTCBPrioTbl (with_task p s) = (OSTCBPrioTbl s)(p := TCB (new_task p))" and ev: "OSEvents (with_task p s) = OSEvents s"
    using v r v1 by (simp_all add: s1_def)
  have wt: "with_task p s = (make_ready (new_task p) s1)\<lparr>OSTaskCtr := OSTaskCtr s + 1\<rparr>" by (simp add: with_task_def s1_def)
  show lst: "OSTCBList (with_task p s) = p # OSTCBList s" and "OSRunning (with_task p s) = OSRunning s" "OSIntNesting (with_task p s) = OSIntNesting s"
    "OSLockNesting (with_task p s) = OSLockNesting s" "OSTCBCur (with_task p s) = OSTCBCur s" "OSPrioCur (with_task p s) = OSPrioCur s"
    "os.more (with_task p s) = os.more s" unfolding wt using f by (simp_all add: s1_def)
  have fl: "OSEventFreeList (with_task p s) = OSEventFreeList s" unfolding wt using f by (simp add: s1_def)
  have "lists_ok (with_task p s)" using v(3) r(1) by simp
  moreover have "task_ok (with_task p s) q" for q
  proof (cases "q = p")
    case True
    have "task_ok s p" using assms(1) by (simp add: part_inv_def)
    then have "p \<notin> wl s i" for i using assms(2) by (simp add: task_ok_def)
    then show ?thesis unfolding task_ok_def tb rd w ev True using wf
      by (simp add: new_task_def stat_ok_def pend_bits_def OS_STAT_RDY_def)
  next
    case False
    have "task_ok s q" using assms(1) by (simp add: part_inv_def)
    then show ?thesis using False unfolding task_ok_def tb rd w ev by (simp split: tcb_ptr.splits)
  qed
  moreover have "event_ok (with_task p s) i \<longleftrightarrow> event_ok s i" for i by (simp add: event_ok_def w ev)
  moreover have "free_ok (with_task p s)" using assms(1) by (simp add: free_ok_def part_inv_def fl ev)
  ultimately show "part_inv (with_task p s)" using assms(1,2) unfolding part_inv_def lst tb ev by auto
qed

lemma with_task_inv:
  assumes "os_inv s" "OSTCBPrioTbl s p = TCB_NULL" "p \<le> OS_LOWEST_PRIO"
  shows "os_inv (with_task p s)"
proof -
  have "OS_TASK_IDLE_PRIO \<in> set (OSTCBList s)" using idle_task [OF assms(1)] os_invD(5) [OF assms(1)] by (auto simp: list_of_tasks_def)
  then have "OSTCBList s \<noteq> []" by auto
  then show ?thesis using with_task_part [OF _ assms(2,3)] assms(1) by (simp add: os_inv_part idle_ok_def)
qed

lemma create_k:
  assumes "k_inv s" "OSIntNesting s = 0"
  shows "p \<le> OS_LOWEST_PRIO \<Longrightarrow> \<exists>s'. task_call (Task_Create p) s = Some s' \<and> k_inv s'"
    "\<exists>s'. task_call (Sem_Create c) s = Some s' \<and> k_inv s'" "\<exists>s'. task_call (Mbox_Create m) s = Some s' \<and> k_inv s'"
proof -
  note l = k_invD(1,2) [OF assms(1)]
  note ld = k_looseD [OF l(1)]
  have new: "\<exists>s'. map_option snd (new_event f s) = Some s' \<and> k_inv s'" for f
  proof -
    obtain r s' where s': "new_event f s = Some (r, s')" "s' = s \<or> (\<exists>i v fl. s' = (put_event i v s)\<lparr>OSEventFreeList := fl\<rparr> \<and> i < length (OSEvents s) \<and>
        wl s i = {} \<and> list_ok (OSEventGrp v) (OSEventTbl v) \<and> prios (OSEventTbl v) = {} \<and> free_ok s')"
      using new_event_cases [OF l(2), of f] by blast
    have "k_inv s'" using s'(2) assms(1) kept_inv [OF assms(1)] retype_k [OF l(1)] by blast
    then show ?thesis using s'(1) by simp
  qed
  show "\<exists>s'. task_call (Sem_Create c) s = Some s' \<and> k_inv s'" "\<exists>s'. task_call (Mbox_Create m) s = Some s' \<and> k_inv s'"
    unfolding task_call.simps OSSemCreate_def OSMboxCreate_def by (rule new)+
  assume p: "p \<le> OS_LOWEST_PRIO"
  show "\<exists>s'. task_call (Task_Create p) s = Some s' \<and> k_inv s'"
  proof (cases "OSTCBPrioTbl s p = TCB_NULL \<and> OSTCBFree s > 0")
    case True
    note w = with_task_part [OF _ conjunct1 [OF True] p]
    have pa: "part_inv s" using l(2) by (simp add: os_inv_part)
    have "k_wait (with_task p s) = k_wait s" using w(12) [OF pa] by (cases s, cases "with_task p s") simp
    then have "k_loose (with_task p s)"
      using w [OF pa] with_task_inv [OF l(2) conjunct1 [OF True] p] ld by (simp add: k_loose_def)
    then show ?thesis using sched_k True assms(2) ld(2) p by (auto simp: create_eq)
  next
    case False
    have "s\<lparr>OSTCBPrioTbl := (OSTCBPrioTbl s)(p := TCB_NULL)\<rparr> = s" if "OSTCBPrioTbl s p = TCB_NULL"
      using fun_upd_triv [of "OSTCBPrioTbl s" p] that by simp
    then show ?thesis using False assms p by (auto simp: create_eq)
  qed
qed

section \<open>The system\<close>

lemma call_k:
  assumes "k_inv s" "OSIntNesting s = 0" "OSTCBCur s \<noteq> OS_TASK_IDLE_PRIO" "k_wait s (OSTCBCur s) = None" "call_ok s c"
  shows "\<exists>s'. task_call c s = Some s' \<and> k_inv s'"
proof -
  have u: "OS_EVENT_TYPE_SEM \<noteq> OS_EVENT_TYPE_UNUSED" "OS_EVENT_TYPE_MBOX \<noteq> OS_EVENT_TYPE_UNUSED"
    by (simp_all add: OS_EVENT_TYPE_SEM_def OS_EVENT_TYPE_MBOX_def OS_EVENT_TYPE_UNUSED_def)
  show ?thesis
  proof (cases c)
    case (Sem_Del i opt)
    then show ?thesis using del_k [OF assms(1) _ assms(2) u(1), of i OS_STAT_SEM opt] assms(5) by (auto simp: OSSemDel_def)
  next
    case (Mbox_Del i opt)
    then show ?thesis using del_k [OF assms(1) _ assms(2) u(2), of i OS_STAT_MBOX opt] assms(5) by (auto simp: OSMboxDel_def)
  next
    case (Sem_PendAbort i opt)
    then show ?thesis using abort_k [OF assms(1), of i OS_STAT_SEM OS_EVENT_TYPE_SEM opt] assms(5) by (auto simp: OSSemPendAbort_def)
  next
    case (Mbox_PendAbort i opt)
    then show ?thesis using abort_k [OF assms(1), of i OS_STAT_MBOX OS_EVENT_TYPE_MBOX opt] assms(5) by (auto simp: OSMboxPendAbort_def)
  next
    case (Sem_Post i)
    then show ?thesis using post_k(1) [OF assms(1)] assms(5) by fastforce
  next
    case (Mbox_Post i m)
    then show ?thesis using post_k(2) [OF assms(1)] assms(5) by fastforce
  next
    case (Task_Create p)
    then show ?thesis using create_k(1) [OF assms(1,2)] assms(5) by simp
  next
    case (Sem_Create n)
    then show ?thesis using create_k(2) [OF assms(1,2)] by simp
  next
    case (Mbox_Create m)
    then show ?thesis using create_k(3) [OF assms(1,2)] by simp
  next
    case (Sem_Pend i n)
    then show ?thesis using pend_k(1) [OF assms(1) _ assms(2-4)] assms(5) by simp
  next
    case (Mbox_Pend i n)
    then show ?thesis using pend_k(2) [OF assms(1) _ assms(2-4)] assms(5) by simp
  next
    case (Sem_Accept i)
    then show ?thesis using accept_k(1) [OF assms(1)] assms(5) by simp
  next
    case (Mbox_Accept i)
    then show ?thesis using accept_k(2) [OF assms(1)] assms(5) by simp
  next
    case (Sem_Set i n)
    then show ?thesis using accept_k(3) [OF assms(1)] assms(5) by simp
  next
    case (Time_Dly n)
    then show ?thesis using dly_k [OF assms(1-4)] by simp
  next
    case (Dly_Resume p)
    then show ?thesis using dly_resume_k [OF assms(1)] by simp
  next
    case (Task_Suspend p)
    then show ?thesis using suspend_k [OF assms(1) _ assms(3), of p] assms(5) by simp
  next
    case (Task_Resume p)
    then show ?thesis using task_resume_k [OF assms(1), of p] assms(5) by simp
  next
    case Sched_Lock
    then show ?thesis using lock_k(1) [OF assms(1,2,4)] by simp
  next
    case Sched_Unlock
    then show ?thesis using lock_k(2) [OF assms(1,2,4)] by simp
  qed
qed

text \<open>The start of the kernel.\<close>

definition boot_inv :: "ksys \<Rightarrow> bool" where
  "boot_inv s \<longleftrightarrow> os_inv s \<and> \<not> OSRunning s \<and> OSIntNesting s = 0 \<and> OSLockNesting s = 0 \<and> (\<forall>i. wl s i = {}) \<and> k_wait s = (\<lambda>_. None)"

lemma init_inv: "\<exists>s'. OSInit s = Some s' \<and> os_inv s' \<and> \<not> OSRunning s' \<and> OSIntNesting s' = 0 \<and> OSLockNesting s' = 0 \<and> (\<forall>i. wl s' i = {})"
proof -
  define s0 where "s0 = OS_InitEventList (OS_InitTCBList (OS_InitRdyList (OS_InitMisc s)))"
  have b: "OSRunning s0 = False" "OSIntNesting s0 = 0" "OSLockNesting s0 = 0" "OSTCBPrioTbl s0 = (\<lambda>_. TCB_NULL)" "OSTCBList s0 = []" "OSTCBFree s0 = 22"
      "OSEventFreeList s0 = [0..<OS_MAX_EVENTS]" "length (OSEvents s0) = OS_MAX_EVENTS" "OSRdyGrp s0 = 0" "OSRdyTbl s0 = replicate 8 0"
    by (simp_all add: s0_def OS_InitEventList_def OS_InitTCBList_def OS_InitRdyList_def OS_InitMisc_def OS_MAX_TASKS_def OS_N_SYS_TASKS_def)
  have ev: "OSEventGrp (OSEvents s0 ! i) = 0" "OSEventTbl (OSEvents s0 ! i) = replicate 8 0" "OSEventType (OSEvents s0 ! i) = OS_EVENT_TYPE_UNUSED"
    if "i < length (OSEvents s0)" for i using that by (simp_all add: s0_def OS_InitEventList_def OS_EVENT_TYPE_UNUSED_def)
  have w: "wl s0 i = {}" for i using ev empty_prios by (simp add: wl_def)
  have r: "rdy s0 = {}" using b empty_prios by (simp add: rdy_def)
  have p0: "part_inv s0"
    using b w r ev empty_prios by (simp add: part_inv_def lists_ok_def task_ok_def event_ok_def free_ok_def Let_def)
  have le: "OS_TASK_IDLE_PRIO \<le> OS_LOWEST_PRIO" "OS_TASK_STAT_PRIO \<le> OS_LOWEST_PRIO" "OS_TASK_STAT_PRIO \<noteq> OS_TASK_IDLE_PRIO"
    by (simp_all add: OS_TASK_IDLE_PRIO_def OS_TASK_STAT_PRIO_def OS_LOWEST_PRIO_def)
  define s1 where "s1 = with_task OS_TASK_IDLE_PRIO s0"
  have n0: "OSTCBPrioTbl s0 OS_TASK_IDLE_PRIO = TCB_NULL" by (simp add: b(4))
  note w1 = with_task_part [OF p0 n0 le(1), folded s1_def]
  have i1: "os_inv s1" using w1(1,2,4) by (simp add: os_inv_part idle_ok_def b(5))
  have n1: "OSTCBPrioTbl s1 OS_TASK_STAT_PRIO = TCB_NULL" using w1(5) b(4) le(3) by simp
  note w2 = with_task_part [OF w1(1) n1 le(2)]
  have "OSTCBFree s1 = 21" using b(6) by (simp add: s1_def with_task_def make_ready_def split: prod.splits)
  then have "OSInit s = Some (with_task OS_TASK_STAT_PRIO s1)"
    unfolding OSInit_def s0_def [symmetric] OS_InitTaskIdle_def OS_InitTaskStat_def
    using b le n1 w1(7,8) by (simp add: create_eq s1_def [symmetric])
  then show ?thesis using with_task_inv [OF i1 n1 le(2)] w2(3,7-9) w1(3,7-9) w b by simp
qed

lemma boot_call_inv:
  assumes "boot_inv s" "boot_call c" "call_ok s c" "task_call c s = Some s'"
  shows "boot_inv s'"
proof -
  note b = assms(1) [unfolded boot_inv_def]
  have i: "os_inv s" using b by simp
  have new: "boot_inv s'" if "new_event f s = Some (r, s')" for f r
  proof -
    from new_event_cases [OF i, of f] that
    consider "s' = s" | i v fl where "s' = (put_event i v s)\<lparr>OSEventFreeList := fl\<rparr>" "i < length (OSEvents s)" "wl s i = {}" "list_ok (OSEventGrp v) (OSEventTbl v)"
      "prios (OSEventTbl v) = {}" "free_ok s'" by auto
    then show ?thesis
    proof cases
      case (2 i v fl)
      note t = retype_inv [OF \<open>os_inv s\<close> 2(2-5), of fl, folded 2(1), OF 2(6)]
      show ?thesis unfolding boot_inv_def t(2) using t(1) b by (simp add: 2(1) put_event_def)
    qed (use assms(1) in simp)
  qed
  show ?thesis
  proof (cases c)
    case (Task_Create p)
    then have p: "p \<le> OS_LOWEST_PRIO" using assms(3) by simp
    show ?thesis
    proof (cases "OSTCBPrioTbl s p = TCB_NULL \<and> OSTCBFree s > 0")
      case True
      have pa: "part_inv s" using i by (simp add: os_inv_part)
      note w = with_task_part [OF pa conjunct1 [OF True] p]
      have "s' = with_task p s" using assms(4) Task_Create True p b by (simp add: create_eq)
      moreover have "k_wait (with_task p s) = k_wait s" using w(12) by (cases s, cases "with_task p s") simp
      ultimately show ?thesis using with_task_inv [OF i conjunct1 [OF True] p] w b by (simp add: boot_inv_def)
    next
      case False
      have "s\<lparr>OSTCBPrioTbl := (OSTCBPrioTbl s)(p := TCB_NULL)\<rparr> = s" if "OSTCBPrioTbl s p = TCB_NULL"
        using fun_upd_triv [of "OSTCBPrioTbl s" p] that by simp
      then have "s' = s" using assms(4) Task_Create False p b by (auto simp: create_eq split: if_splits)
      then show ?thesis using assms(1) by simp
    qed
  qed (use assms new in \<open>auto simp: OSSemCreate_def OSMboxCreate_def\<close>)
qed

lemma booting_inv: "booting s \<Longrightarrow> boot_inv s"
proof (induction rule: booting.induct)
  case (boot_init s s')
  have s': "os_inv s'" "\<not> OSRunning s'" "OSIntNesting s' = 0" "OSLockNesting s' = 0" "\<forall>i. wl s' i = {}"
    using init_inv [of s] boot_init by auto
  have sl: "same_lists s' (s'\<lparr>k_wait := \<lambda>_. None\<rparr>)" by (simp add: same_lists_def)
  show ?case using s' same_lists_views [OF sl] by (simp add: boot_inv_def)
qed (use boot_call_inv in blast)

lemma start_k:
  assumes "boot_inv s" shows "k_inv (OSStart s)"
proof -
  note b = assms [unfolded boot_inv_def]
  have i: "os_inv s" using b by simp
  note h = highest_rdy [OF i]
  define s' where "s' = OSStart s"
  have s': "s' = s\<lparr>OSPrioHighRdy := Min (rdy s), OSPrioCur := Min (rdy s), OSTCBHighRdy := Min (rdy s), OSTCBCur := Min (rdy s), OSRunning := True\<rparr>"
    using b h(1) by (simp add: s'_def OSStart_def OS_SchedNew_def Let_def)
  have sl: "same_lists s s'" by (simp add: same_lists_def s')
  note v = same_lists_views [OF sl]
  show ?thesis unfolding s'_def [symmetric] using v b h(3) by (simp add: k_inv_def k_loose_def) (simp add: s')
qed

lemma reachable_k: "reachable s \<Longrightarrow> k_inv s"
proof (induction rule: reachable.induct)
  case (reach_start s)
  then show ?case using booting_inv start_k by blast
next
  case (reach_call s c s')
  then show ?case using call_k by fastforce
next
  case (reach_resume s w s')
  then show ?case using resume_k by fastforce
next
  case (reach_isr s i s')
  then show ?case using isr_k by fastforce
qed

end
