(* ===== verification/Os_Props.thy ===== *)
theory Os_Props
  imports Os_Sys
begin

text \<open>
  The properties of the kernel in every state it reaches: who runs, who waits, what a post and a delay do. Two small systems serve as witnesses.
\<close>

section \<open>What holds in every reachable state\<close>

definition ready_task :: "'a os_scheme \<Rightarrow> nat \<Rightarrow> bool" where
  "ready_task s p \<longleftrightarrow> (case OSTCBPrioTbl s p of TCB t \<Rightarrow> OSTCBStat t = OS_STAT_RDY \<and> OSTCBDly t = 0 | _ \<Rightarrow> False)"

section \<open>Two systems\<close>

text \<open>A system of two tasks, of the priorities 5 and 10, and a mailbox.\<close>

definition raw_kernel :: ksys where
  "raw_kernel = \<lparr>OSRunning = False, OSIntNesting = 0, OSLockNesting = 0, OSRdyGrp = 0, OSRdyTbl = [], OSPrioCur = 0, OSPrioHighRdy = 0, OSTCBCur = 0,
     OSTCBHighRdy = 0, OSTCBPrioTbl = \<lambda>_. TCB_NULL, OSTCBList = [], OSTCBFree = 0, OSTaskCtr = 0, OSTime = 0, OSTickStepState = 0, OSCtxSwCtr = 0,
     OSEvents = [], OSEventFreeList = [], k_wait = \<lambda>_. None\<rparr>"

definition two_tasks :: "ksys option" where
  "two_tasks =
     do {
       s0 \<leftarrow> OSInit raw_kernel;
       s1 \<leftarrow> task_call (Task_Create 5) (s0\<lparr>k_wait := \<lambda>_. None\<rparr>);
       s2 \<leftarrow> task_call (Task_Create 10) s1;
       s3 \<leftarrow> task_call (Mbox_Create 0) s2;
       Some (OSStart s3)
     }"

definition one_waits :: "ksys option" where
  "one_waits = do { s \<leftarrow> two_tasks; task_call (Mbox_Pend 0 0) s }"

lemma demo_values:
  "map_option (\<lambda>s. (OSTCBCur s, OSIntNesting s, OSLockNesting s, OSTickStepState s, k_wait s 5, length (OSEvents s))) two_tasks = Some (5, 0, 0, 0, None, 20)"
  "map_option (\<lambda>s. (OSTCBCur s, OSIntNesting s, OSLockNesting s, get_event 0 s)) one_waits =
     Some (10, 0, 0, Some \<lparr>OSEventType = 1, OSEventPtr = 0, OSEventCnt = 0, OSEventGrp = 1, OSEventTbl = [32, 0, 0, 0, 0, 0, 0, 0]\<rparr>)"
  "map_option (\<lambda>s. map_option (\<lambda>t. (OSTCBStat t, OSTCBEventPtr t)) (get_tcb 5 s)) one_waits = Some (Some (2, Some 0))"
  "map_option (\<lambda>s. k_wait s 10) one_waits = Some None"
  by code_simp+

lemma two_tasksD:
  assumes "two_tasks = Some s"
  shows "OSTCBCur s = 5" "OSIntNesting s = 0" "OSLockNesting s = 0" "OSTickStepState s = 0" "k_wait s 5 = None" "length (OSEvents s) = 20"
  using demo_values(1) unfolding assms option.map(2) by simp_all

lemma one_waitsD:
  assumes "one_waits = Some s"
  shows "OSTCBCur s = 10" "OSIntNesting s = 0" "OSLockNesting s = 0" "k_wait s 10 = None"
    "get_event 0 s = Some \<lparr>OSEventType = 1, OSEventPtr = 0, OSEventCnt = 0, OSEventGrp = 1, OSEventTbl = [32, 0, 0, 0, 0, 0, 0, 0]\<rparr>"
    "\<exists>t. OSTCBPrioTbl s 5 = TCB t \<and> OSTCBStat t = 2 \<and> OSTCBEventPtr t = Some 0"
  using demo_values(2-4) unfolding assms option.map(2) by (simp_all add: get_tcb_some)

lemma demo_exist: "\<exists>s. two_tasks = Some s" "\<exists>s. one_waits = Some s"
  using demo_values(1,2) by auto

lemma demo_reachable: "two_tasks = Some s \<Longrightarrow> reachable s" "one_waits = Some s \<Longrightarrow> reachable s"
proof -
  have two: "reachable s" if d: "two_tasks = Some s" for s
  proof -
    obtain s0 s1 s2 s3 where h: "OSInit raw_kernel = Some s0" "task_call (Task_Create 5) (s0\<lparr>k_wait := \<lambda>_. None\<rparr>) = Some s1" "task_call (Task_Create 10) s1 = Some s2"
        "task_call (Mbox_Create 0) s2 = Some s3" "OSStart s3 = s"
      using d unfolding two_tasks_def bind_eq_Some_conv option.inject by blast
    have "booting (s0\<lparr>k_wait := \<lambda>_. None\<rparr>)" using h(1) by (rule boot_init)
    then have "booting s1" by (rule boot_step [OF _ _ _ h(2)]) (simp_all add: OS_LOWEST_PRIO_def)
    then have "booting s2" by (rule boot_step [OF _ _ _ h(3)]) (simp_all add: OS_LOWEST_PRIO_def)
    then have "booting s3" by (rule boot_step [OF _ _ _ h(4)]) simp_all
    then show ?thesis using h(5) reach_start by blast
  qed
  then show "two_tasks = Some s \<Longrightarrow> reachable s" .
  assume o: "one_waits = Some s"
  then obtain s0 where s0: "two_tasks = Some s0" "task_call (Mbox_Pend 0 0) s0 = Some s" unfolding one_waits_def bind_eq_Some_conv by blast
  note v = two_tasksD [OF s0(1)]
  have r: "reachable s0" by (rule two [OF s0(1)])
  have "call_ok s0 (Mbox_Pend 0 0)" using v(6) by simp
  then show "reachable s" using v(1,2,5) by (intro reach_call [OF r _ _ _ _ s0(2)]) (simp_all add: OS_TASK_IDLE_PRIO_def OS_LOWEST_PRIO_def)
qed

section \<open>The properties\<close>

lemma rdy_ready: "os_inv s \<Longrightarrow> p \<in> rdy s \<longleftrightarrow> ready_task s p"
  using os_invD(2) [of s p] by (auto simp: task_ok_def ready_task_def OS_STAT_RDY_def split: tcb_ptr.splits)

lemma rdy_set: "os_inv s \<Longrightarrow> rdy s = {p. ready_task s p}"
  using rdy_ready by blast

text \<open>C20: Outside interrupts and while the scheduler is not locked, the running task is the ready task of the highest priority: it is itself
  ready (its status is clear and it is not delayed), and no task with a smaller number is.\<close>

theorem kernel_runs_highest:
  assumes "reachable s" "OSIntNesting s = 0" "OSLockNesting s = 0"
  shows "ready_task s (OSTCBCur s) \<and> (\<forall>p < OSTCBCur s. \<not> ready_task s p)"
proof -
  note k = reachable_k [OF assms(1)]
  have c: "OSTCBCur s = Min (rdy s)" using k_invD(3) [OF k assms(2,3)] .
  have f: "finite (rdy s)" by (simp add: rdy_def prios_less(2))
  have "p \<notin> rdy s" if "p < Min (rdy s)" for p using Min_le [OF f, of p] that by auto
  then show ?thesis using c highest_rdy(2) [OF k_invD(2) [OF k]] rdy_ready [OF k_invD(2) [OF k]] by metis
qed

lemma kernel_runs_highest_witness:
  "\<exists>s. two_tasks = Some s \<and> ready_task s 5 \<and> (\<forall>p < 5. \<not> ready_task s p)"
proof -
  obtain s where s: "two_tasks = Some s" using demo_exist(1) by blast
  note v = two_tasksD [OF s]
  show ?thesis using kernel_runs_highest [OF demo_reachable(1) [OF s] v(2,3)] s unfolding v(1) by (intro exI [of _ s]) simp
qed

text \<open>C22: No call, no end of a wait and no part of an interrupt handler goes through a null pointer or runs forever: in every reachable
  state, whatever a task or an interrupt may do next has a result. The loops over the tasks of a clock tick and over the tasks
  that wait for a deleted event end.\<close>

theorem kernel_calls_return:
  assumes "reachable s"
  shows "(OSIntNesting s = 0 \<and> OSTCBCur s \<noteq> OS_TASK_IDLE_PRIO \<and> k_wait s (OSTCBCur s) = None \<and> call_ok s c \<longrightarrow> task_call c s \<noteq> None) \<and>
    (OSIntNesting s = 0 \<and> k_wait s (OSTCBCur s) = Some w \<longrightarrow> task_resume w s \<noteq> None) \<and> (isr_ok s i \<longrightarrow> isr_step i s \<noteq> None)"
  using call_k [OF reachable_k [OF assms], of c] resume_k [OF reachable_k [OF assms], of w] isr_k [OF reachable_k [OF assms], of i] by auto

lemma kernel_calls_return_witness:
  "\<exists>s. one_waits = Some s \<and> OSTCBCur s = 10 \<and> task_call (Mbox_Post 0 7) s \<noteq> None"
proof -
  obtain s where s: "one_waits = Some s" using demo_exist(2) by blast
  have r: "reachable s" by (rule demo_reachable(2) [OF s])
  note v = one_waitsD [OF s]
  show ?thesis using conjunct1 [OF kernel_calls_return [OF r, of "Mbox_Post 0 7"]] s v(1,2,4,5)
    by (intro exI [of _ s]) (simp add: OS_TASK_IDLE_PRIO_def OS_LOWEST_PRIO_def get_event_def split: if_splits del: task_call.simps)
qed

text \<open>C39: Waiting and events agree: a task whose status says that it waits is in the wait list of the event it points to, a task in the wait list
  of an event has a block, and no task waits for a semaphore that has a count or for a mailbox that has a message.\<close>

theorem kernel_waiting:
  assumes "reachable s" "OSTCBPrioTbl s p = TCB t" "OSTCBStat t AND OS_STAT_PEND_ANY \<noteq> OS_STAT_RDY"
  shows "\<exists>i v. OSTCBEventPtr t = Some i \<and> get_event i s = Some v \<and> p \<in> prios (OSEventTbl v) \<and> OSEventGrp v \<noteq> 0 \<and>
    (OSEventType v = OS_EVENT_TYPE_SEM \<longrightarrow> OSEventCnt v = 0) \<and> (OSEventType v = OS_EVENT_TYPE_MBOX \<longrightarrow> OSEventPtr v = 0)"
proof -
  note k = reachable_k [OF assms(1)]
  note o = os_invD [OF k_invD(2) [OF k]]
  have "pend_bits t \<noteq> 0" using assms(3) by (simp add: pend_bits_def OS_STAT_RDY_def)
  then obtain i where i: "OSTCBEventPtr t = Some i" "p \<in> wl s i" using task_okD(6) [OF o(2) assms(2)] by blast
  have l: "i < length (OSEvents s)" using wl_less [OF i(2)] .
  show ?thesis using i l no_waiter [OF k l] by (intro exI [of _ i] exI [of _ "OSEvents s ! i"]) (auto simp: wl_def)
qed

lemma kernel_waiting_witness:
  "\<exists>s v. one_waits = Some s \<and> get_event 0 s = Some v \<and> 5 \<in> prios (OSEventTbl v) \<and> OSEventPtr v = 0"
proof -
  obtain s where s: "one_waits = Some s" using demo_exist(2) by blast
  obtain t where p: "OSTCBPrioTbl s 5 = TCB t" and t: "OSTCBStat t = 2" "OSTCBEventPtr t = Some 0" using one_waitsD(6) [OF s] by blast
  have b: "OSTCBStat t AND OS_STAT_PEND_ANY \<noteq> OS_STAT_RDY" unfolding t(1) by code_simp
  show ?thesis using kernel_waiting [OF demo_reachable(2) [OF s] p b] t(2) s one_waitsD(5) [OF s] by (auto simp: OS_EVENT_TYPE_MBOX_def)
qed

lemma wake_sched_full:
  assumes "k_inv s" "i < length (OSEvents s)" "wl s i \<noteq> {}" "msk = ev_mask (OSEventType (OSEvents s ! i))"
  defines "p \<equiv> Min (wl s i)"
  shows "\<exists>s1 s' t t'. OS_EventTaskRdy i m msk st s = Some (p, s1) \<and> OS_Sched s1 = Some s' \<and> k_inv s' \<and> OSTCBPrioTbl s p = TCB t \<and> OSTCBPrioTbl s' p = TCB t' \<and>
    OSTCBMsg t' = m \<and> OSTCBStatPend t' = st \<and> pend_bits t' = 0 \<and> rdy s' = (if suspended t then rdy s else insert p (rdy s)) \<and>
    wl s' = (wl s)(i := wl s i - {p}) \<and> OSIntNesting s' = OSIntNesting s \<and> OSLockNesting s' = OSLockNesting s \<and> length (OSEvents s') = length (OSEvents s) \<and>
    p \<in> wl s i"
proof -
  note l = k_invD(1,2) [OF assms(1)]
  obtain t t1 s1 where s1: "OSTCBPrioTbl s p = TCB t" "OS_EventTaskRdy i m msk st s = Some (p, s1)" "os_inv s1" "only_task p s s1" "p \<in> wl s i"
      "wl s1 = (wl s)(i := wl s i - {p})" "OSTCBPrioTbl s1 p = TCB t1" "OSTCBMsg t1 = m" "OSTCBStatPend t1 = st" "pend_bits t1 = 0"
      "rdy s1 = (if suspended t then rdy s else insert p (rdy s))"
    using EventTaskRdy_inv [OF l(2) assms(2-4), of m st] unfolding p_def by blast
  have f: "os_frame s s1" using s1(4) by (simp add: only_task_def)
  have lo: "k_loose s1" using kept_loose [OF l(1) only_kept [OF l(1) s1(4,3)]] s1(6) by auto
  obtain s2 where s2: "OS_Sched s1 = Some s2" "same_but_cur s1 s2"
    using Sched_inv [OF k_looseD(1,3) [OF lo]] by blast
  have k2: "k_inv s2" using sched_k [OF lo] s2(1) by simp
  have "\<exists>t'. OSTCBPrioTbl s2 p = TCB t' \<and> OSTCBMsg t' = m \<and> OSTCBStatPend t' = st \<and> pend_bits t' = 0"
  proof -
    have "OSTCBPrioTbl s2 p = OSTCBPrioTbl s1 p \<or> (\<exists>t. OSTCBPrioTbl s1 p = TCB t \<and> OSTCBPrioTbl s2 p = TCB (t\<lparr>OSTCBCtxSwCtr := OSTCBCtxSwCtr t + 1\<rparr>))"
      using s2(2) unfolding same_but_cur_def by blast
    then show ?thesis using s1(7-10) by (auto simp: pend_bits_def)
  qed
  then obtain t' where "OSTCBPrioTbl s2 p = TCB t'" "OSTCBMsg t' = m" "OSTCBStatPend t' = st" "pend_bits t' = 0" by blast
  moreover have "rdy s2 = rdy s1" "wl s2 = wl s1" "OSIntNesting s2 = OSIntNesting s" "OSLockNesting s2 = OSLockNesting s" "length (OSEvents s2) = length (OSEvents s)"
    using s2(2) os_frame_simps [OF f] by (simp_all add: same_but_cur_def)
  ultimately show ?thesis using s1 s2(1) k2 by auto
qed

text \<open>C30: Posting a message to a mailbox on which tasks wait wakes the one of the highest priority and no other: its block gets the message, it no
  longer waits, and unless it is suspended it becomes ready, alone; the wait list loses it alone. If it has a higher priority than the
  running task, it runs at once, and its pending call ends with the message.\<close>

theorem mailbox_post_delivers:
  assumes "reachable s" "get_event i s = Some v" "OSEventType v = OS_EVENT_TYPE_MBOX" "prios (OSEventTbl v) \<noteq> {}" "p = Min (prios (OSEventTbl v))"
  shows "\<exists>s' v' t t'. OSMboxPost i m s = Some (OS_ERR_NONE, s') \<and> get_event i s' = Some v' \<and> prios (OSEventTbl v') = prios (OSEventTbl v) - {p} \<and>
    OSTCBPrioTbl s p = TCB t \<and> OSTCBPrioTbl s' p = TCB t' \<and> OSTCBMsg t' = m \<and> OSTCBStatPend t' = OS_STAT_PEND_OK \<and> OSTCBStat t' AND OS_STAT_PEND_ANY = 0 \<and>
    (\<forall>q. ready_task s' q \<longleftrightarrow> ready_task s q \<or> q = p \<and> OSTCBStat t AND OS_STAT_SUSPEND = OS_STAT_RDY) \<and>
    (OSIntNesting s = 0 \<and> OSLockNesting s = 0 \<and> p < OSTCBCur s \<and> OSTCBStat t AND OS_STAT_SUSPEND = OS_STAT_RDY \<longrightarrow>
       OSTCBCur s' = p \<and> (\<exists>s2. OSMboxPend_end i s' = Some (OS_ERR_NONE, m, s2)))"
proof -
  note k = reachable_k [OF assms(1)]
  have v: "i < length (OSEvents s)" "v = OSEvents s ! i" using assms(2) by (simp_all add: get_event_def split: if_splits)
  then have w: "wl s i = prios (OSEventTbl v)" by (simp add: wl_def)
  have ne: "wl s i \<noteq> {}" using assms(4) w by simp
  have msk: "OS_STAT_MBOX = ev_mask (OSEventType (OSEvents s ! i))" using assms(3) v by simp
  obtain s1 s' t t' where s': "OS_EventTaskRdy i m OS_STAT_MBOX OS_STAT_PEND_OK s = Some (p, s1)" "OS_Sched s1 = Some s'" "k_inv s'"
      "OSTCBPrioTbl s p = TCB t" "OSTCBPrioTbl s' p = TCB t'" "OSTCBMsg t' = m" "OSTCBStatPend t' = OS_STAT_PEND_OK" "pend_bits t' = 0"
      "rdy s' = (if suspended t then rdy s else insert p (rdy s))" "wl s' = (wl s)(i := wl s i - {p})" "OSIntNesting s' = OSIntNesting s"
      "OSLockNesting s' = OSLockNesting s" "length (OSEvents s') = length (OSEvents s)" "p \<in> wl s i"
    using wake_sched_full [OF k v(1) ne msk, of m OS_STAT_PEND_OK] unfolding assms(5) w by blast
  have "OSEventGrp v \<noteq> 0" using no_waiter(3) [OF k v(1)] ne v(2) by simp
  then have post: "OSMboxPost i m s = Some (OS_ERR_NONE, s')" using assms(2,3) s'(1,2) by (simp add: OSMboxPost_def)
  have v': "get_event i s' = Some (OSEvents s' ! i)" "prios (OSEventTbl (OSEvents s' ! i)) = prios (OSEventTbl v) - {p}"
    using s'(10,13) v(1) w by (simp_all add: get_event_def) (simp add: wl_def fun_eq_iff split: if_splits)
  have rd: "ready_task s' q \<longleftrightarrow> ready_task s q \<or> q = p \<and> OSTCBStat t AND OS_STAT_SUSPEND = OS_STAT_RDY" for q
    unfolding rdy_ready [OF k_invD(2) [OF s'(3)], symmetric] rdy_ready [OF k_invD(2) [OF k], symmetric] s'(9) by (auto simp: suspended_def)
  have run: "OSTCBCur s' = p \<and> (\<exists>s2. OSMboxPend_end i s' = Some (OS_ERR_NONE, m, s2))"
    if h: "OSIntNesting s = 0" "OSLockNesting s = 0" "p < OSTCBCur s" "OSTCBStat t AND OS_STAT_SUSPEND = OS_STAT_RDY"
  proof -
    have f: "finite (rdy s)" by (simp add: rdy_def prios_less(2))
    have r: "rdy s' = insert p (rdy s)" using s'(9) h(4) by (simp add: suspended_def)
    have "p < Min (rdy s)" "rdy s \<noteq> {}" using k_invD(3) [OF k h(1,2)] h(3) highest_rdy(2) [OF k_invD(2) [OF k]] by auto
    then have "Min (rdy s') = p" using f r by simp
    then have c: "OSTCBCur s' = p" using k_invD(3) [OF s'(3)] s'(11,12) h(1,2) by simp
    have u: "j = i" if "p \<in> wl s' j" for j
    proof -
      have "p \<in> wl s j" using that s'(10) by (simp split: if_splits)
      then show ?thesis using k_looseD(5) [OF k_invD(1) [OF k], of p j] k_looseD(5) [OF k_invD(1) [OF k], of p i] s'(14) by auto
    qed
    have i': "i < length (OSEvents s')" using v(1) s'(13) by simp
    have pr: "p \<in> rdy s'" by (simp add: r)
    obtain err mm s2 t2 where e: "end_wait i s' = Some (err, mm, s2)" "only_task p s' s2" "OSTCBPrioTbl s2 p = TCB t2" "err = OS_ERR_NONE" "mm = OSTCBMsg t'"
      using end_wait_inv [OF k_invD(2) [OF s'(3)] i', unfolded c, OF s'(5) pr u] s'(7) by blast
    have "OSTCBCur s2 = p" using e(2) os_frame_simps(5) [of s' s2] c by (simp add: only_task_def)
    then show ?thesis using c e s'(6) by (simp add: OSMboxPend_end_def)
  qed
  show ?thesis
    by (rule exI [of _ s'], rule exI [of _ "OSEvents s' ! i"], rule exI [of _ t], rule exI [of _ t'])
      (use post v' s'(4-8) rd run in \<open>simp add: pend_bits_def\<close>)
qed

lemma mailbox_post_delivers_witness:
  "\<exists>s s'. one_waits = Some s \<and> OSMboxPost 0 7 s = Some (OS_ERR_NONE, s') \<and> OSTCBCur s' = 5 \<and> (\<exists>s2. OSMboxPend_end 0 s' = Some (OS_ERR_NONE, 7, s2))"
proof -
  obtain s where s: "one_waits = Some s" using demo_exist(2) by blast
  define v where "v = \<lparr>OSEventType = 1, OSEventPtr = 0, OSEventCnt = 0, OSEventGrp = 1, OSEventTbl = [32, 0, 0, 0, 0, 0, 0, 0 :: u8]\<rparr>"
  have e: "get_event 0 s = Some v" "OSEventType v = OS_EVENT_TYPE_MBOX" using one_waitsD(5) [OF s] by (simp_all add: v_def OS_EVENT_TYPE_MBOX_def)
  have l: "list_ok (OSEventGrp v) (OSEventTbl v)" unfolding v_def list_ok_def by code_simp
  have g: "OSEventGrp v \<noteq> 0" "highest (OSEventGrp v) (OSEventTbl v) = 5" unfolding v_def by code_simp+
  note h = highest_Min(1,2) [OF l g(1), unfolded g(2)]
  obtain t where t: "OSTCBPrioTbl s 5 = TCB t" "OSTCBStat t = 2" using one_waitsD(6) [OF s] by blast
  have "prios (OSEventTbl v) \<noteq> {}" using h(2) by blast
  from mailbox_post_delivers [OF demo_reachable(2) [OF s] e this h(1), of 7] obtain s' where
    "OSMboxPost 0 7 s = Some (OS_ERR_NONE, s')" "OSIntNesting s = 0 \<and> OSLockNesting s = 0 \<and> 5 < OSTCBCur s \<and> OSTCBStat t AND OS_STAT_SUSPEND = OS_STAT_RDY \<longrightarrow>
       OSTCBCur s' = 5 \<and> (\<exists>s2. OSMboxPend_end 0 s' = Some (OS_ERR_NONE, 7, s2))" using t(1) by auto
  moreover have "OSTCBStat t AND OS_STAT_SUSPEND = OS_STAT_RDY" unfolding t(2) by code_simp
  ultimately show ?thesis using s one_waitsD(1-3) [OF s] by auto
qed

text \<open>Clock ticks in a row.\<close>

primrec ticks :: "nat \<Rightarrow> 'a os_scheme \<Rightarrow> 'a os_scheme option" where
  "ticks 0 s = Some s"
| "ticks (Suc k) s = do { s1 \<leftarrow> OSTimeTick s; ticks k s1 }"

lemma ticks_delayed:
  assumes "os_inv s" "OSRunning s" "OSTickStepState s = 0" "OSTCBPrioTbl s p = TCB t" "\<not> suspended t" "OSTCBDly t \<noteq> 0 \<or> OSTCBStat t = 0"
  shows "\<exists>s'. ticks k s = Some s' \<and> os_inv s' \<and> (p \<in> rdy s' \<longleftrightarrow> unat (OSTCBDly t) \<le> k)"
  using assms
proof (induction k arbitrary: s t)
  case 0
  have "p \<in> rdy s \<longleftrightarrow> OSTCBStat t = 0 \<and> OSTCBDly t = 0" using task_okD(3) [OF os_invD(2) [OF 0(1)] 0(4)] .
  then show ?case using 0 by (auto simp: unat_eq_0)
next
  case (Suc k)
  obtain s1 where s1: "OSTimeTick s = Some s1" "os_inv s1" "OSRunning s1 = OSRunning s" "OSTickStepState s1 = 0" "ticked s s1 p"
    using OSTimeTick_inv [OF Suc(2)] Suc(3,4) by blast
  obtain t1 where t1: "OSTCBPrioTbl s1 p = TCB t1" "OSTCBDly t1 = (if OSTCBDly t = 0 then 0 else OSTCBDly t - 1)" "suspended t1 \<longleftrightarrow> suspended t"
      "OSTCBDly t \<noteq> 1 \<longrightarrow> OSTCBStat t1 = OSTCBStat t" "p \<in> rdy s1 \<longleftrightarrow> p \<in> rdy s \<or> OSTCBDly t = 1 \<and> \<not> suspended t"
    using s1(5) Suc(5) unfolding ticked_def by blast
  have "OSTCBDly t1 \<noteq> 0 \<or> OSTCBStat t1 = 0"
  proof (cases "OSTCBDly t = 1")
    case True
    then have "p \<in> rdy s1" using t1(5) Suc(6) by simp
    then show ?thesis using task_okD(3) [OF os_invD(2) [OF s1(2)] t1(1)] by simp
  next
    case False
    then show ?thesis using t1(2,4) Suc(7) by auto
  qed
  then obtain s' where s': "ticks k s1 = Some s'" "os_inv s'" "p \<in> rdy s' \<longleftrightarrow> unat (OSTCBDly t1) \<le> k"
    using Suc(1) [OF s1(2) _ s1(4) t1(1)] s1(3) t1(3) Suc(3,6) by auto
  have "unat (OSTCBDly t1) = unat (OSTCBDly t) - 1" using t1(2) by (simp add: unat_minus_one)
  then show ?case using s1(1) s' by (intro exI [of _ s']) auto
qed

text \<open>C33: A task that delays itself by \<open>n\<close> ticks is ready again after \<open>n\<close> clock ticks, and not before: whatever \<open>n\<close> of 32 bits, the task is
  taken from the ready list by the call, and after \<open>k\<close> ticks it is ready exactly when \<open>k\<close> is at least \<open>n\<close>.\<close>

theorem delay_exact:
  assumes "reachable s" "OSIntNesting s = 0" "OSLockNesting s = 0" "OSTCBCur s \<noteq> OS_TASK_IDLE_PRIO" "k_wait s (OSTCBCur s) = None" "OSTickStepState s = 0"
    and "n > 0"
  shows "\<exists>s1. OSTimeDly n s = Some s1 \<and> (\<exists>s2. ticks k s1 = Some s2 \<and> (ready_task s2 (OSTCBCur s) \<longleftrightarrow> unat n \<le> k))"
proof -
  note kk = reachable_k [OF assms(1)]
  note l = k_invD(1,2) [OF kk]
  define p where "p = OSTCBCur s"
  obtain t where t: "OSTCBPrioTbl s p = TCB t" using k_looseD(4) [OF l(1)] by (auto simp: p_def)
  note d = task_okD [OF os_invD(2) [OF l(2)] t]
  have "p \<in> rdy s" using k_invD(3) [OF kk assms(2,3)] highest_rdy(2) [OF l(2)] by (simp add: p_def)
  then have st: "OSTCBStat t = 0" using d(3) by simp
  have nw: "p \<notin> wl s i" for i using k_looseD(5) [OF l(1), of p i] assms(5) by (auto simp: p_def)
  define s0 where "s0 = put_tcb p (t\<lparr>OSTCBDly := n\<rparr>) (make_unready t s)"
  have s0: "k_loose s0"
    using stop_k(1) [OF kk t assms(4) [folded p_def] d(2) refl, of n] assms(7) nw by (simp add: s0_def word_gt_0)
  obtain s1 where s1: "OS_Sched s0 = Some s1" "os_inv s1" "same_but_cur s0 s1"
    using Sched_inv [OF k_looseD(1,3) [OF s0]] by blast
  have eq: "OSTimeDly n s = Some s1" using assms(2,3,7) t s1(1) by (simp add: OSTimeDly_def s0_def p_def)
  have "OSTCBPrioTbl s0 p = TCB (t\<lparr>OSTCBDly := n\<rparr>)" by (simp add: s0_def)
  moreover have "OSTCBPrioTbl s1 p = OSTCBPrioTbl s0 p \<or>
      (\<exists>t. OSTCBPrioTbl s0 p = TCB t \<and> OSTCBPrioTbl s1 p = TCB (t\<lparr>OSTCBCtxSwCtr := OSTCBCtxSwCtr t + 1\<rparr>))"
    using s1(3) unfolding same_but_cur_def by blast
  ultimately obtain t1 where t1: "OSTCBPrioTbl s1 p = TCB t1" "OSTCBDly t1 = n" "OSTCBStat t1 = 0" using st by auto
  have r: "OSRunning s1" "OSTickStepState s1 = 0"
    using s1(3) k_looseD(2) [OF s0] assms(6) by (simp_all add: same_but_cur_def s0_def put_tcb_def make_unready_def split: prod.splits)
  obtain s2 where "ticks k s1 = Some s2" "os_inv s2" "p \<in> rdy s2 \<longleftrightarrow> unat (OSTCBDly t1) \<le> k"
    using ticks_delayed [OF s1(2) r t1(1), of k] t1 assms(7) by (auto simp: suspended_def OS_STAT_RDY_def)
  then show ?thesis using eq t1(2) rdy_ready by (auto simp: p_def)
qed

lemma delay_exact_witness:
  "\<exists>s s1. two_tasks = Some s \<and> OSTimeDly 3 s = Some s1 \<and> (\<exists>s2. ticks 2 s1 = Some s2 \<and> \<not> ready_task s2 5)"
proof -
  obtain s where s: "two_tasks = Some s" using demo_exist(1) by blast
  note v = two_tasksD [OF s]
  show ?thesis using delay_exact [OF demo_reachable(1) [OF s] v(2,3), of 3 2] s v(1,4,5) by (auto simp: OS_TASK_IDLE_PRIO_def OS_LOWEST_PRIO_def)
qed

section \<open>A change of priority after a post\<close>

text \<open>A task that a post has made ready still points to the event until it runs. If its priority is changed before that, it is entered into the wait
  list again, although it is ready: the next message is not kept in the mailbox but overwrites the first one.\<close>

definition two_posts :: "bool \<Rightarrow> (u32 \<times> u32 option) option" where
  "two_posts change =
     do {
       s0 \<leftarrow> one_waits;
       s1 \<leftarrow> task_call Sched_Lock s0;
       s2 \<leftarrow> task_call (Mbox_Post 0 7) s1;
       s3 \<leftarrow> (if change then map_option snd (OSTaskChangePrio 5 7 s2) else Some s2);
       s4 \<leftarrow> task_call (Mbox_Post 0 8) s3;
       v \<leftarrow> get_event 0 s4;
       Some (OSEventPtr v, map_option OSTCBMsg (get_tcb (if change then 7 else 5) s4))
     }"

lemma change_prio_loses_message: "two_posts False = Some (8, Some 7)" "two_posts True = Some (0, Some 8)"
  by code_simp+

end
