(* ===== verification/Refined_Steps.thy ===== *)
theory Refined_Steps
  imports SN_Prelude "HOL-Library.Monad_Syntax"
begin

text \<open>
  An interface: the steps of an implementation with their results, those of its specification, what a caller has to ensure, what the state
  represents, and what a step leaves alone. Whole sequences of steps follow.
\<close>

fun run_ops :: "('op \<Rightarrow> 's \<Rightarrow> ('r \<times> 's) option) \<Rightarrow> 'op list \<Rightarrow> 's \<Rightarrow> ('r list \<times> 's) option" where
  "run_ops step [] s = Some ([], s)"
| "run_ops step (x # xs) s = do { (r, s1) \<leftarrow> step x s; (rs, s2) \<leftarrow> run_ops step xs s1; Some (r # rs, s2) }"

fun run_spec :: "('op \<Rightarrow> 'l \<Rightarrow> 'r \<times> 'l) \<Rightarrow> 'op list \<Rightarrow> 'l \<Rightarrow> 'r list \<times> 'l" where
  "run_spec step [] l = ([], l)"
| "run_spec step (x # xs) l = (let (r, l1) = step x l; (rs, l2) = run_spec step xs l1 in (r # rs, l2))"

fun all_ok :: "('op \<Rightarrow> 'l \<Rightarrow> 'r \<times> 'l) \<Rightarrow> ('op \<Rightarrow> 'l \<Rightarrow> bool) \<Rightarrow> 'op list \<Rightarrow> 'l \<Rightarrow> bool" where
  "all_ok step pre [] l \<longleftrightarrow> True"
| "all_ok step pre (x # xs) l \<longleftrightarrow> pre x l \<and> all_ok step pre xs (snd (step x l))"

lemma all_ok_True: "all_ok step (\<lambda>_ _. True) xs l"
  by (induction xs arbitrary: l) simp_all

locale refined_steps =
  fixes step :: "'op \<Rightarrow> 's \<Rightarrow> ('r \<times> 's) option" and spec :: "'op \<Rightarrow> 'l \<Rightarrow> 'r \<times> 'l" and pre :: "'op \<Rightarrow> 'l \<Rightarrow> bool"
    and rep :: "'s \<Rightarrow> 'l \<Rightarrow> bool" and frame :: "'s \<Rightarrow> 's \<Rightarrow> bool"
  assumes step_refines: "rep s l \<Longrightarrow> pre x l \<Longrightarrow> \<exists>s1. step x s = Some (fst (spec x l), s1) \<and> rep s1 (snd (spec x l)) \<and> frame s s1"
    and frame_refl: "frame s s"
    and frame_trans: "frame s s1 \<Longrightarrow> frame s1 s2 \<Longrightarrow> frame s s2"
begin

lemma run_refines:
  assumes "rep s l" "all_ok spec pre xs l"
  shows "\<exists>s'. run_ops step xs s = Some (fst (run_spec spec xs l), s') \<and> rep s' (snd (run_spec spec xs l)) \<and> frame s s'"
  using assms
proof (induction xs arbitrary: s l)
  case Nil
  then show ?case by (simp add: frame_refl)
next
  case (Cons x xs)
  then have pre: "pre x l" and okr: "all_ok spec pre xs (snd (spec x l))" by simp_all
  obtain s1 where s1: "step x s = Some (fst (spec x l), s1)" "rep s1 (snd (spec x l))" "frame s s1" using step_refines [OF Cons.prems(1) pre] by blast
  obtain s' where s': "run_ops step xs s1 = Some (fst (run_spec spec xs (snd (spec x l))), s')" "rep s' (snd (run_spec spec xs (snd (spec x l))))" "frame s1 s'"
    using Cons.IH [OF s1(2) okr] by blast
  show ?case using s1 s' frame_trans [OF s1(3) s'(3)] by (simp add: split_beta)
qed

end

end
