(* ===== verification/Os_Queue.thy ===== *)
theory Os_Queue
  imports Os_Inv Refined_Steps
begin

text \<open>
  Message queues (\<^verbatim>\<open>uCOS-II/os_q.c\<close>): the ring buffer of a queue control block, and the calls that post to it and take from it. A queue
  without waiting tasks is a bounded list of messages.
\<close>

section \<open>Queue control blocks\<close>

text \<open>Pointers into the message areas are the addresses of \<^verbatim>\<open>void *\<close> cells, in units of a cell; an event points to a control block by its
  index plus one.\<close>

record OS_Q =
  OSQStart :: nat
  OSQEnd :: nat
  OSQIn :: nat
  OSQOut :: nat
  OSQSize :: u16
  OSQEntries :: u16

record os_q = os +
  OSQTbl :: "OS_Q list"
  OSQFreeList :: "nat list"
  q_cells :: "nat \<Rightarrow> u32"

definition OS_MAX_QS :: nat where "OS_MAX_QS = 20"
definition OS_ERR_Q_FULL :: u8 where "OS_ERR_Q_FULL = 30"
definition OS_ERR_Q_EMPTY :: u8 where "OS_ERR_Q_EMPTY = 31"
definition OS_POST_OPT_FRONT :: u8 where "OS_POST_OPT_FRONT = 2"

definition OS_QInit :: "'a os_q_scheme \<Rightarrow> 'a os_q_scheme" where
  "OS_QInit s = s\<lparr>OSQTbl := replicate OS_MAX_QS \<lparr>OSQStart = 0, OSQEnd = 0, OSQIn = 0, OSQOut = 0, OSQSize = 0, OSQEntries = 0\<rparr>,
     OSQFreeList := [0..<OS_MAX_QS]\<rparr>"

definition get_q :: "OS_EVENT \<Rightarrow> 'a os_q_scheme \<Rightarrow> (nat \<times> OS_Q) option" where
  "get_q v s = (let k = unat (OSEventPtr v) in if 0 < k \<and> k \<le> length (OSQTbl s) then Some (k - 1, OSQTbl s ! (k - 1)) else None)"

definition put_q :: "nat \<Rightarrow> OS_Q \<Rightarrow> 'a os_q_scheme \<Rightarrow> 'a os_q_scheme" where
  "put_q k q s = s\<lparr>OSQTbl := (OSQTbl s)[k := q]\<rparr>"

section \<open>The ring buffer\<close>

definition q_take :: "nat \<Rightarrow> OS_Q \<Rightarrow> 'a os_q_scheme \<Rightarrow> u32 \<times> 'a os_q_scheme" where
  "q_take k q s =
     (let q1 = q\<lparr>OSQOut := OSQOut q + 1, OSQEntries := OSQEntries q - 1\<rparr>;
          q2 = (if OSQOut q1 = OSQEnd q1 then q1\<lparr>OSQOut := OSQStart q1\<rparr> else q1)
      in (q_cells s (OSQOut q), put_q k q2 s))"

definition q_put :: "nat \<Rightarrow> OS_Q \<Rightarrow> u32 \<Rightarrow> 'a os_q_scheme \<Rightarrow> 'a os_q_scheme" where
  "q_put k q m s =
     (let s1 = s\<lparr>q_cells := (q_cells s)(OSQIn q := m)\<rparr>; q1 = q\<lparr>OSQIn := OSQIn q + 1, OSQEntries := OSQEntries q + 1\<rparr>;
          q2 = (if OSQIn q1 = OSQEnd q1 then q1\<lparr>OSQIn := OSQStart q1\<rparr> else q1)
      in put_q k q2 s1)"

definition q_put_front :: "nat \<Rightarrow> OS_Q \<Rightarrow> u32 \<Rightarrow> 'a os_q_scheme \<Rightarrow> 'a os_q_scheme" where
  "q_put_front k q m s =
     (let q1 = (if OSQOut q = OSQStart q then q\<lparr>OSQOut := OSQEnd q\<rparr> else q); q2 = q1\<lparr>OSQOut := OSQOut q1 - 1\<rparr>;
          s1 = s\<lparr>q_cells := (q_cells s)(OSQOut q2 := m)\<rparr>
      in put_q k (q2\<lparr>OSQEntries := OSQEntries q2 + 1\<rparr>) s1)"

section \<open>The calls\<close>

definition OSQCreate :: "nat \<Rightarrow> u16 \<Rightarrow> 'a os_q_scheme \<Rightarrow> (nat option \<times> 'a os_q_scheme) option" where
  "OSQCreate start qsize s =
     (if OSIntNesting s > 0 then Some (None, s)
      else case OSEventFreeList s of [] \<Rightarrow> Some (None, s)
      | i # is \<Rightarrow>
        (case OSQFreeList s of [] \<Rightarrow> Some (None, s)
         | k # ks \<Rightarrow> do {
             v \<leftarrow> get_event i s;
             let q = \<lparr>OSQStart = start, OSQEnd = start + unat qsize, OSQIn = start, OSQOut = start, OSQSize = qsize, OSQEntries = 0\<rparr>;
             let v1 = v\<lparr>OSEventType := OS_EVENT_TYPE_Q, OSEventCnt := 0, OSEventPtr := of_nat (k + 1)\<rparr>;
             Some (Some i, put_event i (OS_EventWaitListInit v1) (put_q k q (s\<lparr>OSEventFreeList := is, OSQFreeList := ks\<rparr>)))
           }))"

definition OSQAccept :: "nat \<Rightarrow> 'a os_q_scheme \<Rightarrow> (u8 \<times> u32 \<times> 'a os_q_scheme) option" where
  "OSQAccept i s =
     do {
       v \<leftarrow> get_event i s;
       if OSEventType v \<noteq> OS_EVENT_TYPE_Q then Some (OS_ERR_EVENT_TYPE, 0, s)
       else do {
         (k, q) \<leftarrow> get_q v s;
         if OSQEntries q > 0 then (case q_take k q s of (m, s1) \<Rightarrow> Some (OS_ERR_NONE, m, s1)) else Some (OS_ERR_Q_EMPTY, 0, s)
       }
     }"

text \<open>Giving the control block and the event back.\<close>

definition free_queue :: "nat \<Rightarrow> 'a os_q_scheme \<Rightarrow> 'a os_q_scheme option" where
  "free_queue i s = do { v \<leftarrow> get_event i s; (k, q) \<leftarrow> get_q v s; free_event i (s\<lparr>OSQFreeList := k # OSQFreeList s\<rparr>) }"

definition OSQDel :: "nat \<Rightarrow> u8 \<Rightarrow> 'a os_q_scheme \<Rightarrow> (u8 \<times> 'a os_q_scheme) option" where
  "OSQDel i opt s =
     do {
       v \<leftarrow> get_event i s;
       if OSEventType v \<noteq> OS_EVENT_TYPE_Q then Some (OS_ERR_EVENT_TYPE, s)
       else if OSIntNesting s > 0 then Some (OS_ERR_DEL_ISR, s)
       else if opt = OS_DEL_NO_PEND then
         if OSEventGrp v = 0 then map_option (Pair OS_ERR_NONE) (free_queue i s) else Some (OS_ERR_TASK_WAITING, s)
       else if opt = OS_DEL_ALWAYS then do {
         (_, s1) \<leftarrow> wake_all i 0 OS_STAT_Q OS_STAT_PEND_OK 0 s;
         s2 \<leftarrow> free_queue i s1;
         map_option (Pair OS_ERR_NONE) (if OSEventGrp v \<noteq> 0 then OS_Sched s2 else Some s2)
       }
       else Some (OS_ERR_INVALID_OPT, s)
     }"

definition OSQFlush :: "nat \<Rightarrow> 'a os_q_scheme \<Rightarrow> (u8 \<times> 'a os_q_scheme) option" where
  "OSQFlush i s =
     do {
       v \<leftarrow> get_event i s;
       (k, q) \<leftarrow> get_q v s;
       Some (OS_ERR_NONE, put_q k (q\<lparr>OSQIn := OSQStart q, OSQOut := OSQStart q, OSQEntries := 0\<rparr>) s)
     }"

definition OSQPend :: "nat \<Rightarrow> u32 \<Rightarrow> 'a os_q_scheme \<Rightarrow> ((u8 \<times> u32) option \<times> 'a os_q_scheme) option" where
  "OSQPend i timeout s =
     do {
       v \<leftarrow> get_event i s;
       if OSEventType v \<noteq> OS_EVENT_TYPE_Q then Some (Some (OS_ERR_EVENT_TYPE, 0), s)
       else if OSIntNesting s > 0 then Some (Some (OS_ERR_PEND_ISR, 0), s)
       else if OSLockNesting s > 0 then Some (Some (OS_ERR_PEND_LOCKED, 0), s)
       else do {
         (k, q) \<leftarrow> get_q v s;
         if OSQEntries q > 0 then (case q_take k q s of (m, s1) \<Rightarrow> Some (Some (OS_ERR_NONE, m), s1))
         else map_option (Pair None) (start_wait OS_STAT_Q i timeout s)
       }
     }"

definition OSQPend_end :: "nat \<Rightarrow> 'a os_q_scheme \<Rightarrow> (u8 \<times> u32 \<times> 'a os_q_scheme) option" where
  "OSQPend_end i s =
     do {
       (err, msg, s1) \<leftarrow> end_wait i s;
       t \<leftarrow> get_tcb (OSTCBCur s1) s1;
       Some (err, msg, put_tcb (OSTCBCur s1) (t\<lparr>OSTCBMsg := 0\<rparr>) s1)
     }"

definition OSQPendAbort :: "nat \<Rightarrow> u8 \<Rightarrow> 'a os_q_scheme \<Rightarrow> (nat \<times> u8 \<times> 'a os_q_scheme) option" where
  "OSQPendAbort = abort_pend OS_EVENT_TYPE_Q OS_STAT_Q"

text \<open>The three posts: \<open>wake\<close> readies waiting tasks, and \<open>put\<close> stores the message.\<close>

definition OSQPost :: "nat \<Rightarrow> u32 \<Rightarrow> 'a os_q_scheme \<Rightarrow> (u8 \<times> 'a os_q_scheme) option" where
  "OSQPost i m s =
     do {
       v \<leftarrow> get_event i s;
       if OSEventType v \<noteq> OS_EVENT_TYPE_Q then Some (OS_ERR_EVENT_TYPE, s)
       else if OSEventGrp v \<noteq> 0 then do {
         (_, s1) \<leftarrow> OS_EventTaskRdy i m OS_STAT_Q OS_STAT_PEND_OK s;
         map_option (Pair OS_ERR_NONE) (OS_Sched s1)
       }
       else do {
         (k, q) \<leftarrow> get_q v s;
         Some (if OSQEntries q \<ge> OSQSize q then (OS_ERR_Q_FULL, s) else (OS_ERR_NONE, q_put k q m s))
       }
     }"

definition OSQPostFront :: "nat \<Rightarrow> u32 \<Rightarrow> 'a os_q_scheme \<Rightarrow> (u8 \<times> 'a os_q_scheme) option" where
  "OSQPostFront i m s =
     do {
       v \<leftarrow> get_event i s;
       if OSEventType v \<noteq> OS_EVENT_TYPE_Q then Some (OS_ERR_EVENT_TYPE, s)
       else if OSEventGrp v \<noteq> 0 then do {
         (_, s1) \<leftarrow> OS_EventTaskRdy i m OS_STAT_Q OS_STAT_PEND_OK s;
         map_option (Pair OS_ERR_NONE) (OS_Sched s1)
       }
       else do {
         (k, q) \<leftarrow> get_q v s;
         Some (if OSQEntries q \<ge> OSQSize q then (OS_ERR_Q_FULL, s) else (OS_ERR_NONE, q_put_front k q m s))
       }
     }"

definition OSQPostOpt :: "nat \<Rightarrow> u32 \<Rightarrow> u8 \<Rightarrow> 'a os_q_scheme \<Rightarrow> (u8 \<times> 'a os_q_scheme) option" where
  "OSQPostOpt i m opt s =
     do {
       v \<leftarrow> get_event i s;
       if OSEventType v \<noteq> OS_EVENT_TYPE_Q then Some (OS_ERR_EVENT_TYPE, s)
       else if OSEventGrp v \<noteq> 0 then do {
         s1 \<leftarrow> map_option snd (if opt AND OS_POST_OPT_BROADCAST \<noteq> 0 then wake_all i m OS_STAT_Q OS_STAT_PEND_OK 0 s
                              else OS_EventTaskRdy i m OS_STAT_Q OS_STAT_PEND_OK s);
         map_option (Pair OS_ERR_NONE) (if opt AND OS_POST_OPT_NO_SCHED = 0 then OS_Sched s1 else Some s1)
       }
       else do {
         (k, q) \<leftarrow> get_q v s;
         Some (if OSQEntries q \<ge> OSQSize q then (OS_ERR_Q_FULL, s)
               else (OS_ERR_NONE, (if opt AND OS_POST_OPT_FRONT \<noteq> 0 then q_put_front k q m s else q_put k q m s)))
       }
     }"

definition OSQQuery :: "nat \<Rightarrow> 'a os_q_scheme \<Rightarrow> (u8 \<times> (u8 \<times> u8 list \<times> u32 \<times> u16 \<times> u16) option) option" where
  "OSQQuery i s =
     do {
       v \<leftarrow> get_event i s;
       if OSEventType v \<noteq> OS_EVENT_TYPE_Q then Some (OS_ERR_EVENT_TYPE, None)
       else do {
         (k, q) \<leftarrow> get_q v s;
         Some (OS_ERR_NONE, Some (OSEventGrp v, OSEventTbl v, if OSQEntries q > 0 then q_cells s (OSQOut q) else 0, OSQEntries q, OSQSize q))
       }
     }"

section \<open>A queue is a bounded list\<close>

text \<open>The ring: the entries are the cells from \<^verbatim>\<open>OSQOut\<close> on, around the end of the area.\<close>

definition ring_ok :: "OS_Q \<Rightarrow> bool" where
  "ring_ok q \<longleftrightarrow> (let n = unat (OSQSize q) in
     0 < n \<and> OSQEnd q = OSQStart q + n \<and> OSQStart q \<le> OSQOut q \<and> OSQOut q < OSQEnd q \<and> unat (OSQEntries q) \<le> n \<and>
     OSQIn q = OSQStart q + (OSQOut q - OSQStart q + unat (OSQEntries q)) mod n)"

definition ring_list :: "OS_Q \<Rightarrow> (nat \<Rightarrow> u32) \<Rightarrow> u32 list" where
  "ring_list q cells = map (\<lambda>j. cells (OSQStart q + (OSQOut q - OSQStart q + j) mod unat (OSQSize q))) [0..<unat (OSQEntries q)]"

lemma ring_pos_inj:
  assumes "j < n" "j' < n" "(a + j) mod n = (a + j') mod (n :: nat)"
  shows "j = j'"
proof -
  have m: "(a + x) mod n = (if a mod n + x < n then a mod n + x else a mod n + x - n)" if "x < n" for x
  proof -
    have "(a + x) mod n = (a mod n + x) mod n" by (simp add: mod_add_left_eq)
    moreover have "a mod n < n" using that by simp
    moreover have "(a mod n + x) mod n = a mod n + x - n" if "\<not> a mod n + x < n"
      using le_mod_geq [of n "a mod n + x"] that \<open>a mod n < n\<close> \<open>x < n\<close> by simp
    ultimately show ?thesis by simp
  qed
  define r where "r = a mod n"
  have r: "r < n" using assms(1) by (simp add: r_def)
  have e: "(if r + j < n then r + j else r + j - n) = (if r + j' < n then r + j' else r + j' - n)"
    using assms(3) unfolding m [OF assms(1)] m [OF assms(2)] r_def .
  show ?thesis using e r assms(1,2) by (cases "r + j < n"; cases "r + j' < n") simp_all
qed

lemma word_inc_less: "(x :: u16) < y \<Longrightarrow> unat (x + 1) = unat x + 1"
  by unat_arith

lemma wrap_next: "r < n \<Longrightarrow> (if r + 1 = n then 0 else r + 1) = (r + 1) mod (n :: nat)"
  by (cases "r + 1 = n") simp_all

text \<open>The geometry of a ring in offsets.\<close>

lemma ring_okE:
  assumes "ring_ok q"
  obtains n off c where "n = unat (OSQSize q)" "c = unat (OSQEntries q)" "OSQOut q = OSQStart q + off" "OSQEnd q = OSQStart q + n" "off < n" "c \<le> n"
    "OSQIn q = OSQStart q + (off + c) mod n"
proof (rule that)
  show "OSQOut q = OSQStart q + (OSQOut q - OSQStart q)" "OSQEnd q = OSQStart q + unat (OSQSize q)" "OSQOut q - OSQStart q < unat (OSQSize q)"
    "unat (OSQEntries q) \<le> unat (OSQSize q)" "OSQIn q = OSQStart q + (OSQOut q - OSQStart q + unat (OSQEntries q)) mod unat (OSQSize q)"
    using assms by (auto simp: ring_ok_def Let_def)
qed simp_all

lemma ring_list_off: "OSQOut q = OSQStart q + off \<Longrightarrow>
    ring_list q cells = map (\<lambda>j. cells (OSQStart q + (off + j) mod unat (OSQSize q))) [0..<unat (OSQEntries q)]"
  by (simp add: ring_list_def)

lemma ring_take:
  assumes "ring_ok q" "OSQEntries q > 0"
  defines "q1 \<equiv> q\<lparr>OSQOut := OSQOut q + 1, OSQEntries := OSQEntries q - 1\<rparr>"
  defines "q2 \<equiv> if OSQOut q1 = OSQEnd q1 then q1\<lparr>OSQOut := OSQStart q1\<rparr> else q1"
  shows "ring_ok q2" "ring_list q cells = cells (OSQOut q) # ring_list q2 cells" "OSQStart q2 = OSQStart q" "OSQSize q2 = OSQSize q"
proof -
  obtain n off c where g: "n = unat (OSQSize q)" "c = unat (OSQEntries q)" "OSQOut q = OSQStart q + off" "OSQEnd q = OSQStart q + n" "off < n" "c \<le> n"
    "OSQIn q = OSQStart q + (off + c) mod n" using ring_okE [OF assms(1)] .
  have c: "0 < c" "unat (OSQEntries q - 1) = c - 1" using assms(2) g(2) by (simp_all add: word_gt_0 unat_minus_one unat_gt_0)
  define o2 where "o2 = (off + 1) mod n"
  have q2: "OSQOut q2 = OSQStart q + o2" "OSQStart q2 = OSQStart q" "OSQEnd q2 = OSQStart q + n" "OSQIn q2 = OSQIn q" "OSQSize q2 = OSQSize q" "unat (OSQEntries q2) = c - 1"
    using g(3-5) c(2) wrap_next [OF g(5)] by (auto simp: q2_def q1_def o2_def)
  show "OSQStart q2 = OSQStart q" "OSQSize q2 = OSQSize q" by (rule q2)+
  have m: "(o2 + j) mod n = (off + Suc j) mod n" for j by (simp add: o2_def mod_add_left_eq)
  have "o2 < n" using g(5) by (simp add: o2_def)
  then show "ring_ok q2" using q2 g(1,6,7) c(1) m [of "c - 1"] by (simp add: ring_ok_def Let_def)
  have "[0..<c] = 0 # map Suc [0..<c - 1]" using c(1) by (cases c) (simp_all add: upt_conv_Cons map_Suc_upt)
  then have "ring_list q cells = cells (OSQStart q + off mod n) # map (\<lambda>j. cells (OSQStart q + (off + Suc j) mod n)) [0..<c - 1]"
    using ring_list_off [OF g(3)] g(1,2) by (simp add: comp_def)
  then show "ring_list q cells = cells (OSQOut q) # ring_list q2 cells"
    using ring_list_off [of q2 o2 cells] q2 m g(1,3,5) by simp
qed

lemma ring_put:
  assumes "ring_ok q" "OSQEntries q < OSQSize q"
  defines "q1 \<equiv> q\<lparr>OSQIn := OSQIn q + 1, OSQEntries := OSQEntries q + 1\<rparr>"
  defines "q2 \<equiv> if OSQIn q1 = OSQEnd q1 then q1\<lparr>OSQIn := OSQStart q1\<rparr> else q1"
  shows "ring_ok q2" "ring_list q2 (cells(OSQIn q := m)) = ring_list q cells @ [m]" "OSQStart q2 = OSQStart q" "OSQSize q2 = OSQSize q"
    "OSQStart q \<le> OSQIn q" "OSQIn q < OSQEnd q"
proof -
  obtain n off c where g: "n = unat (OSQSize q)" "c = unat (OSQEntries q)" "OSQOut q = OSQStart q + off" "OSQEnd q = OSQStart q + n" "off < n" "c \<le> n"
    "OSQIn q = OSQStart q + (off + c) mod n" using ring_okE [OF assms(1)] .
  have c: "c < n" "unat (OSQEntries q + 1) = c + 1" using assms(2) g(1,2) word_inc_less by (simp_all add: word_less_nat_alt)
  have lt: "(off + c) mod n < n" using g(5) by simp
  have "(if (off + c) mod n + 1 = n then 0 else (off + c) mod n + 1) = (off + (c + 1)) mod n"
    unfolding wrap_next [OF lt] by (simp add: mod_add_left_eq mod_Suc_eq)
  then have q2: "OSQOut q2 = OSQStart q + off" "OSQStart q2 = OSQStart q" "OSQEnd q2 = OSQStart q + n" "OSQIn q2 = OSQStart q + (off + (c + 1)) mod n"
      "OSQSize q2 = OSQSize q" "unat (OSQEntries q2) = c + 1"
    using g c(2) by (auto simp: q2_def q1_def split: if_splits)
  show "OSQStart q2 = OSQStart q" "OSQSize q2 = OSQSize q" by (rule q2)+
  show "OSQStart q \<le> OSQIn q" "OSQIn q < OSQEnd q" using g lt by simp_all
  show "ring_ok q2" using q2 g(1,5) c(1) by (simp add: ring_ok_def Let_def)
  have ne: "(off + j) mod n \<noteq> (off + c) mod n" if "j < c" for j using ring_pos_inj [of j n c off] that c(1) by auto
  have "ring_list q2 (cells(OSQIn q := m)) = map (\<lambda>j. (cells(OSQIn q := m)) (OSQStart q + (off + j) mod n)) [0..<c] @ [m]"
    using ring_list_off [of q2 off] q2 g(1,7) by simp
  also have "map (\<lambda>j. (cells(OSQIn q := m)) (OSQStart q + (off + j) mod n)) [0..<c] = ring_list q cells"
    using ring_list_off [OF g(3)] g(1,2,7) ne by simp
  finally show "ring_list q2 (cells(OSQIn q := m)) = ring_list q cells @ [m]" .
qed

lemma ring_put_front:
  assumes "ring_ok q" "OSQEntries q < OSQSize q"
  defines "q1 \<equiv> if OSQOut q = OSQStart q then q\<lparr>OSQOut := OSQEnd q\<rparr> else q"
  defines "q2 \<equiv> q1\<lparr>OSQOut := OSQOut q1 - 1\<rparr>"
  defines "q3 \<equiv> q2\<lparr>OSQEntries := OSQEntries q2 + 1\<rparr>"
  shows "ring_ok q3" "ring_list q3 (cells(OSQOut q2 := m)) = m # ring_list q cells" "OSQStart q3 = OSQStart q" "OSQSize q3 = OSQSize q"
    "OSQStart q \<le> OSQOut q2" "OSQOut q2 < OSQEnd q"
proof -
  obtain n off c where g: "n = unat (OSQSize q)" "c = unat (OSQEntries q)" "OSQOut q = OSQStart q + off" "OSQEnd q = OSQStart q + n" "off < n" "c \<le> n"
    "OSQIn q = OSQStart q + (off + c) mod n" using ring_okE [OF assms(1)] .
  have c: "c < n" "unat (OSQEntries q + 1) = c + 1" using assms(2) g(1,2) word_inc_less by (simp_all add: word_less_nat_alt)
  define o2 where "o2 = (off + (n - 1)) mod n"
  have o2: "o2 = (if off = 0 then n - 1 else off - 1)"
  proof (cases off)
    case (Suc r)
    then have "off + (n - 1) = r + n" using g(5) by simp
    then show ?thesis using Suc g(5) by (simp add: o2_def)
  qed (use g(5) in \<open>simp add: o2_def\<close>)
  have ou: "OSQOut q2 = OSQStart q + o2" using g(3-5) by (simp add: q2_def q1_def o2)
  have q3: "OSQOut q3 = OSQStart q + o2" "OSQStart q3 = OSQStart q" "OSQEnd q3 = OSQStart q + n" "OSQIn q3 = OSQIn q" "OSQSize q3 = OSQSize q"
      "unat (OSQEntries q3) = c + 1"
    using g(4) c(2) ou by (simp_all add: q3_def q2_def q1_def)
  show "OSQStart q3 = OSQStart q" "OSQSize q3 = OSQSize q" by (rule q3)+
  have lt: "o2 < n" using g(5) by (simp add: o2_def)
  show "OSQStart q \<le> OSQOut q2" "OSQOut q2 < OSQEnd q" using ou lt g(4) by simp_all
  have m: "(o2 + Suc j) mod n = (off + j) mod n" for j
  proof -
    have "(o2 + Suc j) mod n = (off + (n - 1) + Suc j) mod n" by (simp only: o2_def mod_add_left_eq)
    also have "off + (n - 1) + Suc j = off + j + n" using g(5) by simp
    finally show ?thesis by simp
  qed
  show "ring_ok q3" using q3 g(1,7) c(1) lt m [of c] by (simp add: ring_ok_def Let_def)
  have ne: "(off + j) mod n \<noteq> o2" if "j < c" for j using ring_pos_inj [of j n "n - 1" off] that c(1) by (auto simp: o2_def)
  have "[0..<c + 1] = 0 # map Suc [0..<c]" by (simp add: upt_conv_Cons map_Suc_upt del: upt_Suc)
  then have "ring_list q3 (cells(OSQOut q2 := m')) = m' # map (\<lambda>j. (cells(OSQOut q2 := m')) (OSQStart q + (off + j) mod n)) [0..<c]" for m'
    using ring_list_off [of q3 o2] q3 g(1) lt ou m by (simp add: comp_def del: upt_Suc)
  then show "ring_list q3 (cells(OSQOut q2 := m)) = m # ring_list q cells"
    using ring_list_off [OF g(3)] g(1,2) ne ou by simp
qed

text \<open>The queue behind an event, while no task waits for it.\<close>

definition queue_of :: "nat \<Rightarrow> 'a os_q_scheme \<Rightarrow> (nat \<times> OS_Q) option" where
  "queue_of i s = do { v \<leftarrow> get_event i s; if OSEventType v = OS_EVENT_TYPE_Q \<and> OSEventGrp v = 0 then get_q v s else None }"

datatype qop = Q_Post u32 | Q_Front u32 | Q_Accept | Q_Flush

text \<open>The result of a call is its error code and, for \<^verbatim>\<open>OSQAccept\<close>, the message.\<close>

fun q_step :: "nat \<Rightarrow> qop \<Rightarrow> 'a os_q_scheme \<Rightarrow> ((u8 \<times> u32) \<times> 'a os_q_scheme) option" where
  "q_step i (Q_Post m) s = map_option (\<lambda>(e, s1). ((e, 0), s1)) (OSQPost i m s)"
| "q_step i (Q_Front m) s = map_option (\<lambda>(e, s1). ((e, 0), s1)) (OSQPostFront i m s)"
| "q_step i Q_Accept s = map_option (\<lambda>(e, m, s1). ((e, m), s1)) (OSQAccept i s)"
| "q_step i Q_Flush s = map_option (\<lambda>(e, s1). ((e, 0), s1)) (OSQFlush i s)"

text \<open>What a queue of \<open>n\<close> messages promises.\<close>

fun bounded_step :: "nat \<Rightarrow> qop \<Rightarrow> u32 list \<Rightarrow> (u8 \<times> u32) \<times> u32 list" where
  "bounded_step n (Q_Post m) l = (if length l < n then ((OS_ERR_NONE, 0), l @ [m]) else ((OS_ERR_Q_FULL, 0), l))"
| "bounded_step n (Q_Front m) l = (if length l < n then ((OS_ERR_NONE, 0), m # l) else ((OS_ERR_Q_FULL, 0), l))"
| "bounded_step n Q_Accept l = (case l of [] \<Rightarrow> ((OS_ERR_Q_EMPTY, 0), []) | m # ms \<Rightarrow> ((OS_ERR_NONE, m), ms))"
| "bounded_step n Q_Flush l = ((OS_ERR_NONE, 0), [])"

text \<open>A step seen from outside: the queue holds a list, the cells outside its area are untouched.\<close>

definition holds :: "nat \<Rightarrow> nat \<Rightarrow> nat \<Rightarrow> 'a os_q_scheme \<Rightarrow> u32 list \<Rightarrow> bool" where
  "holds i start n s l \<longleftrightarrow> (\<exists>k q. queue_of i s = Some (k, q) \<and> k < length (OSQTbl s) \<and> ring_ok q \<and> OSQStart q = start \<and> unat (OSQSize q) = n \<and> ring_list q (q_cells s) = l)"

definition outside_same :: "nat \<Rightarrow> nat \<Rightarrow> 'a os_q_scheme \<Rightarrow> 'a os_q_scheme \<Rightarrow> bool" where
  "outside_same start n s s' \<longleftrightarrow> (\<forall>a. a < start \<or> start + n \<le> a \<longrightarrow> q_cells s' a = q_cells s a)"

lemma queue_of_put:
  assumes "queue_of i s = Some (k, q)" "k < length (OSQTbl s)"
  shows "queue_of i (put_q k q' (s\<lparr>q_cells := c\<rparr>)) = Some (k, q')" "queue_of i (put_q k q' s) = Some (k, q')"
  using assms by (auto simp: queue_of_def get_q_def get_event_def put_q_def Let_def bind_eq_Some_conv split: if_splits)

lemma queue_ofD:
  assumes "queue_of i s = Some (k, q)"
  obtains v where "get_event i s = Some v" "OSEventType v = OS_EVENT_TYPE_Q" "OSEventGrp v = 0" "get_q v s = Some (k, q)"
  using assms by (auto simp: queue_of_def bind_eq_Some_conv split: if_splits)

lemma q_step_holds:
  assumes "holds i start n s l" "bounded_step n x l = (r, l1)"
  shows "\<exists>s1. q_step i x s = Some (r, s1) \<and> holds i start n s1 l1 \<and> outside_same start n s s1"
proof -
  obtain k q where q: "queue_of i s = Some (k, q)" "k < length (OSQTbl s)" "ring_ok q" "OSQStart q = start" "unat (OSQSize q) = n" "ring_list q (q_cells s) = l"
    using assms(1) unfolding holds_def by blast
  obtain v where v: "get_event i s = Some v" "OSEventType v = OS_EVENT_TYPE_Q" "OSEventGrp v = 0" "get_q v s = Some (k, q)"
    using queue_ofD [OF q(1)] .
  have len: "length l = unat (OSQEntries q)" using q(6) by (auto simp: ring_list_def)
  have en: "OSQEnd q = start + n" using q(3-5) by (simp add: ring_ok_def Let_def)
  have full: "OSQEntries q \<ge> OSQSize q \<longleftrightarrow> \<not> length l < n" using len q(5) by (simp add: word_le_nat_alt not_less)
  have same: "outside_same start n s s" by (simp add: outside_same_def)
  show ?thesis
  proof (cases x)
    case (Q_Post m)
    show ?thesis
    proof (cases "length l < n")
      case True
      then have lt: "OSQEntries q < OSQSize q" using full by simp
      note p = ring_put [OF q(3) lt]
      define s1 where "s1 = q_put k q m s"
      have "holds i start n s1 (l @ [m])"
        unfolding holds_def s1_def q_put_def Let_def using queue_of_put(1) [OF q(1,2)] p q(2,4-6) by (auto simp: put_q_def)
      moreover have "outside_same start n s s1" using p(5,6) q(4) en by (simp add: outside_same_def s1_def q_put_def Let_def put_q_def)
      ultimately show ?thesis using assms(2) Q_Post True v lt by (auto simp: OSQPost_def s1_def not_le)
    next
      case False
      then show ?thesis using assms Q_Post v full same by (auto simp: OSQPost_def)
    qed
  next
    case (Q_Front m)
    show ?thesis
    proof (cases "length l < n")
      case True
      then have lt: "OSQEntries q < OSQSize q" using full by simp
      note p = ring_put_front [OF q(3) lt]
      define s1 where "s1 = q_put_front k q m s"
      have "holds i start n s1 (m # l)"
        unfolding holds_def s1_def q_put_front_def Let_def using queue_of_put(1) [OF q(1,2)] p q(2,4-6) by (auto simp: put_q_def)
      moreover have "outside_same start n s s1" using p(5,6) q(4) en by (simp add: outside_same_def s1_def q_put_front_def Let_def put_q_def)
      ultimately show ?thesis using assms(2) Q_Front True v lt by (auto simp: OSQPostFront_def s1_def not_le)
    next
      case False
      then show ?thesis using assms Q_Front v full same by (auto simp: OSQPostFront_def)
    qed
  next
    case Q_Accept
    show ?thesis
    proof (cases l)
      case Nil
      then have "OSQEntries q = 0" using len by (simp add: unat_eq_0)
      then show ?thesis using assms Q_Accept v Nil same by (auto simp: OSQAccept_def)
    next
      case (Cons m ms)
      then have gt: "OSQEntries q > 0" using len by (auto simp: word_gt_0)
      note p = ring_take [OF q(3) gt]
      have m: "q_cells s (OSQOut q) = m" using p(2) q(6) Cons by simp
      define s1 where "s1 = snd (q_take k q s)"
      have "holds i start n s1 ms"
        unfolding holds_def s1_def q_take_def Let_def using queue_of_put(2) [OF q(1,2)] p q(2,4-6) Cons by (auto simp: put_q_def)
      moreover have "outside_same start n s s1" by (simp add: outside_same_def s1_def q_take_def Let_def put_q_def)
      moreover have "q_take k q s = (m, s1)" using m by (simp add: s1_def q_take_def Let_def)
      ultimately show ?thesis using assms(2) Q_Accept v Cons gt by (auto simp: OSQAccept_def)
    qed
  next
    case Q_Flush
    define q1 where "q1 = q\<lparr>OSQIn := OSQStart q, OSQOut := OSQStart q, OSQEntries := 0\<rparr>"
    have "ring_ok q1" "ring_list q1 c = []" "OSQStart q1 = start" "unat (OSQSize q1) = n" for c
      using q(3-5) by (simp_all add: q1_def ring_ok_def ring_list_def Let_def)
    then have "holds i start n (put_q k q1 s) []" unfolding holds_def using queue_of_put(2) [OF q(1,2)] q(2) by (auto simp: put_q_def)
    moreover have "outside_same start n s (put_q k q1 s)" by (simp add: outside_same_def put_q_def)
    ultimately show ?thesis using assms(2) Q_Flush v by (auto simp: OSQFlush_def q1_def)
  qed
qed

interpretation q: refined_steps "q_step i" "bounded_step n" "\<lambda>_ _. True" "holds i start n" "outside_same start n" for i start n
proof
  show "\<exists>s1. q_step i x s = Some (fst (bounded_step n x l), s1) \<and> holds i start n s1 (snd (bounded_step n x l)) \<and> outside_same start n s s1"
    if "holds i start n s l" for s l x
    using q_step_holds [OF that] by (cases "bounded_step n x l") auto
qed (simp_all add: outside_same_def)

lemma create_holds:
  assumes "OSIntNesting s = 0" "OSEventFreeList s = i # is" "i < length (OSEvents s)" "OSQFreeList s = k # ks" "k < length (OSQTbl s)" "length (OSQTbl s) < 2 ^ 32"
    and "qsize > 0"
  shows "\<exists>s1. OSQCreate start qsize s = Some (Some i, s1) \<and> holds i start (unat qsize) s1 [] \<and> outside_same start (unat qsize) s s1"
proof -
  define q where "q = \<lparr>OSQStart = start, OSQEnd = start + unat qsize, OSQIn = start, OSQOut = start, OSQSize = qsize, OSQEntries = 0\<rparr>"
  define v where "v = OS_EventWaitListInit ((OSEvents s ! i)\<lparr>OSEventType := OS_EVENT_TYPE_Q, OSEventCnt := 0, OSEventPtr := of_nat (k + 1)\<rparr>)"
  define s1 where "s1 = put_event i v (put_q k q (s\<lparr>OSEventFreeList := is, OSQFreeList := ks\<rparr>))"
  have eq: "OSQCreate start qsize s = Some (Some i, s1)"
    using assms(1-4) by (simp add: OSQCreate_def get_event_def s1_def v_def q_def)
  have u: "unat (of_nat (k + 1) :: u32) = k + 1" using assms(5,6) by (simp add: unat_of_nat del: of_nat_add of_nat_Suc)
  have g: "get_event i s1 = Some v" using assms(3) by (simp add: get_event_def s1_def put_event_def put_q_def)
  have t: "OSQTbl s1 = (OSQTbl s)[k := q]" by (simp add: s1_def put_event_def put_q_def)
  have "OSEventPtr v = of_nat (k + 1)" "OSEventType v = OS_EVENT_TYPE_Q" "OSEventGrp v = 0" by (simp_all add: v_def OS_EventWaitListInit_def)
  then have "queue_of i s1 = Some (k, q)" using g t u assms(5) by (simp add: queue_of_def get_q_def Let_def)
  moreover have "ring_ok q" "ring_list q c = []" for c
    using assms(7) by (simp_all add: q_def ring_ok_def ring_list_def Let_def unat_gt_0 word_gt_0)
  ultimately have "holds i start (unat qsize) s1 []" unfolding holds_def using t assms(5) by (auto simp: q_def)
  moreover have "outside_same start (unat qsize) s s1" by (simp add: outside_same_def s1_def put_event_def put_q_def)
  ultimately show ?thesis using eq by blast
qed

text \<open>C26: A message queue is a bounded list: whatever sequence of posts, posts to the front, accepts and flushes follows the creation of a queue on an
  area of \<open>n\<close> cells, every call returns what it returns on a list of at most \<open>n\<close> messages, the queue ends up holding that list, and no
  cell outside the area is written.\<close>

theorem queue_is_bounded_list:
  assumes "OSIntNesting s = 0" "OSEventFreeList s = i # is" "i < length (OSEvents s)" "OSQFreeList s = k # ks" "k < length (OSQTbl s)" "length (OSQTbl s) < 2 ^ 32"
    and "qsize > 0"
  shows "\<exists>s1 s2 j q. OSQCreate start qsize s = Some (Some i, s1) \<and> run_ops (q_step i) xs s1 = Some (fst (run_spec (bounded_step (unat qsize)) xs []), s2) \<and>
    queue_of i s2 = Some (j, q) \<and> ring_list q (q_cells s2) = snd (run_spec (bounded_step (unat qsize)) xs []) \<and>
    (\<forall>a. a < start \<or> start + unat qsize \<le> a \<longrightarrow> q_cells s2 a = q_cells s a)"
proof -
  obtain s1 where s1: "OSQCreate start qsize s = Some (Some i, s1)" "holds i start (unat qsize) s1 []" "outside_same start (unat qsize) s s1"
    using create_holds [OF assms] by blast
  obtain s2 where s2: "run_ops (q_step i) xs s1 = Some (fst (run_spec (bounded_step (unat qsize)) xs []), s2)" "holds i start (unat qsize) s2 (snd (run_spec (bounded_step (unat qsize)) xs []))"
      "outside_same start (unat qsize) s1 s2" using q.run_refines [OF s1(2) all_ok_True] by blast
  obtain j q where "queue_of i s2 = Some (j, q)" "ring_list q (q_cells s2) = snd (run_spec (bounded_step (unat qsize)) xs [])"
    using s2(2) unfolding holds_def by blast
  then show ?thesis using s1(1,3) s2(1,3) unfolding outside_same_def by (intro exI [of _ s1] exI [of _ s2] exI [of _ j] exI [of _ q]) simp
qed

definition some_queues :: "unit os_q_ext os_scheme" where
  "some_queues = OS_QInit (OS_InitEventList \<lparr>OSRunning = False, OSIntNesting = 0, OSLockNesting = 0, OSRdyGrp = 0, OSRdyTbl = [], OSPrioCur = 0, OSPrioHighRdy = 0,
     OSTCBCur = 0, OSTCBHighRdy = 0, OSTCBPrioTbl = \<lambda>_. TCB_NULL, OSTCBList = [], OSTCBFree = 0, OSTaskCtr = 0, OSTime = 0, OSTickStepState = 0, OSCtxSwCtr = 0,
     OSEvents = [], OSEventFreeList = [], OSQTbl = [], OSQFreeList = [], q_cells = \<lambda>_. 0\<rparr>)"

lemma some_queues_values:
  "OSIntNesting some_queues = 0" "OSEventFreeList some_queues = 0 # [1..<20]" "length (OSEvents some_queues) = 20"
  "OSQFreeList some_queues = 0 # [1..<20]" "length (OSQTbl some_queues) = 20"
  by code_simp+

lemma queue_is_bounded_list_witness:
  "\<exists>s1 s2. OSQCreate 100 2 some_queues = Some (Some 0, s1) \<and>
     run_ops (q_step 0) [Q_Post 7, Q_Front 8, Q_Post 9, Q_Accept, Q_Accept, Q_Accept] s1 =
       Some ([(OS_ERR_NONE, 0), (OS_ERR_NONE, 0), (OS_ERR_Q_FULL, 0), (OS_ERR_NONE, 8), (OS_ERR_NONE, 7), (OS_ERR_Q_EMPTY, 0)], s2)"
  using queue_is_bounded_list [OF some_queues_values(1,2) _ some_queues_values(4), of 2 100 "[Q_Post 7, Q_Front 8, Q_Post 9, Q_Accept, Q_Accept, Q_Accept]"]
  by (simp add: some_queues_values(3,5)) blast

end
