(* ===== verification/Os_Mem.thy ===== *)
theory Os_Mem
  imports Os_Core Refined_Steps
begin

text \<open>
  Memory partitions (\<^verbatim>\<open>uCOS-II/os_mem.c\<close>): blocks of one size, the free ones chained through their first cells. A partition is a stack of
  free blocks for every caller who writes only to blocks he holds.
\<close>

section \<open>Control blocks and calls\<close>

text \<open>The memory is a map from the addresses of pointer cells, which do not overlap as blocks are aligned to words; partitions are named by their index in \<^verbatim>\<open>OSMemTbl\<close>. The list of
  free control blocks is \<open>m_free\<close>.\<close>

record OS_MEM =
  OSMemAddr :: u32
  OSMemFreeList :: u32
  OSMemBlkSize :: u32
  OSMemNBlks :: u32
  OSMemNFree :: u32

record mem_parts =
  OSMemTbl :: "OS_MEM list"
  m_free :: "nat list"
  m_cells :: "u32 \<Rightarrow> u32"

definition OS_MAX_MEM_PART :: nat where "OS_MAX_MEM_PART = 5"
definition OS_ERR_MEM_INVALID_PART :: u8 where "OS_ERR_MEM_INVALID_PART = 90"
definition OS_ERR_MEM_NO_FREE_BLKS :: u8 where "OS_ERR_MEM_NO_FREE_BLKS = 93"
definition OS_ERR_MEM_FULL :: u8 where "OS_ERR_MEM_FULL = 94"

definition OS_MemInit :: "'a mem_parts_scheme \<Rightarrow> 'a mem_parts_scheme" where
  "OS_MemInit s = s\<lparr>OSMemTbl := replicate OS_MAX_MEM_PART \<lparr>OSMemAddr = 0, OSMemFreeList = 0, OSMemBlkSize = 0, OSMemNBlks = 0, OSMemNFree = 0\<rparr>,
     m_free := [0..<OS_MAX_MEM_PART]\<rparr>"

text \<open>The loop that chains the blocks; its count is that of the 32 bit counter.\<close>

fun link_blocks :: "nat \<Rightarrow> u32 \<Rightarrow> u32 \<Rightarrow> (u32 \<Rightarrow> u32) \<Rightarrow> u32 \<Rightarrow> u32" where
  "link_blocks 0 blksize plink cells = cells(plink := 0)"
| "link_blocks (Suc loops) blksize plink cells = link_blocks loops blksize (plink + blksize) (cells(plink := plink + blksize))"

definition OSMemCreate :: "u32 \<Rightarrow> u32 \<Rightarrow> u32 \<Rightarrow> 'a mem_parts_scheme \<Rightarrow> u8 \<times> nat option \<times> 'a mem_parts_scheme" where
  "OSMemCreate addr nblks blksize s =
     (case m_free s of [] \<Rightarrow> (OS_ERR_MEM_INVALID_PART, None, s)
      | k # ks \<Rightarrow>
          (OS_ERR_NONE, Some k,
           s\<lparr>m_free := ks, m_cells := link_blocks (unat (nblks - 1)) blksize addr (m_cells s),
             OSMemTbl := (OSMemTbl s)[k := \<lparr>OSMemAddr = addr, OSMemFreeList = addr, OSMemBlkSize = blksize, OSMemNBlks = nblks, OSMemNFree = nblks\<rparr>]\<rparr>))"

definition get_part :: "nat \<Rightarrow> 'a mem_parts_scheme \<Rightarrow> OS_MEM option" where
  "get_part k s = (if k < length (OSMemTbl s) then Some (OSMemTbl s ! k) else None)"

definition OSMemGet :: "nat \<Rightarrow> 'a mem_parts_scheme \<Rightarrow> (u8 \<times> u32 \<times> 'a mem_parts_scheme) option" where
  "OSMemGet k s =
     do {
       p \<leftarrow> get_part k s;
       Some (if OSMemNFree p > 0 then
               (OS_ERR_NONE, OSMemFreeList p,
                s\<lparr>OSMemTbl := (OSMemTbl s)[k := p\<lparr>OSMemFreeList := m_cells s (OSMemFreeList p), OSMemNFree := OSMemNFree p - 1\<rparr>]\<rparr>)
             else (OS_ERR_MEM_NO_FREE_BLKS, 0, s))
     }"

definition OSMemPut :: "nat \<Rightarrow> u32 \<Rightarrow> 'a mem_parts_scheme \<Rightarrow> (u8 \<times> 'a mem_parts_scheme) option" where
  "OSMemPut k pblk s =
     do {
       p \<leftarrow> get_part k s;
       Some (if OSMemNFree p \<ge> OSMemNBlks p then (OS_ERR_MEM_FULL, s)
             else (OS_ERR_NONE, s\<lparr>m_cells := (m_cells s)(pblk := OSMemFreeList p),
               OSMemTbl := (OSMemTbl s)[k := p\<lparr>OSMemFreeList := pblk, OSMemNFree := OSMemNFree p + 1\<rparr>]\<rparr>))
     }"

definition OSMemQuery :: "nat \<Rightarrow> 'a mem_parts_scheme \<Rightarrow> (u8 \<times> OS_MEM \<times> u32) option" where
  "OSMemQuery k s = do { p \<leftarrow> get_part k s; Some (OS_ERR_NONE, p, OSMemNBlks p - OSMemNFree p) }"

section \<open>A partition is a stack of blocks\<close>

text \<open>What is done with a partition: blocks are taken and given back, and callers write to memory.\<close>

datatype mop = M_Get | M_Put u32 | M_Write u32 u32

fun m_step :: "nat \<Rightarrow> mop \<Rightarrow> 'a mem_parts_scheme \<Rightarrow> ((u8 \<times> u32) \<times> 'a mem_parts_scheme) option" where
  "m_step k M_Get s = map_option (\<lambda>(e, b, s1). ((e, b), s1)) (OSMemGet k s)"
| "m_step k (M_Put b) s = map_option (\<lambda>(e, s1). ((e, 0), s1)) (OSMemPut k b s)"
| "m_step k (M_Write a v) s = Some ((OS_ERR_NONE, 0), s\<lparr>m_cells := (m_cells s)(a := v)\<rparr>)"

fun stack_step :: "mop \<Rightarrow> u32 list \<Rightarrow> (u8 \<times> u32) \<times> u32 list" where
  "stack_step M_Get l = (case l of [] \<Rightarrow> ((OS_ERR_MEM_NO_FREE_BLKS, 0), []) | b # bs \<Rightarrow> ((OS_ERR_NONE, b), bs))"
| "stack_step (M_Put b) l = ((OS_ERR_NONE, 0), b # l)"
| "stack_step (M_Write a v) l = ((OS_ERR_NONE, 0), l)"

text \<open>What a caller has to keep to: he gives back a block of the partition that is not free, and does not write to the first cell of a free
  block.\<close>

fun m_pre :: "u32 set \<Rightarrow> mop \<Rightarrow> u32 list \<Rightarrow> bool" where
  "m_pre B M_Get l \<longleftrightarrow> True"
| "m_pre B (M_Put b) l \<longleftrightarrow> b \<in> B \<and> b \<notin> set l"
| "m_pre B (M_Write a v) l \<longleftrightarrow> a \<notin> set l"

definition blocks :: "u32 \<Rightarrow> u32 \<Rightarrow> nat \<Rightarrow> u32 list" where
  "blocks addr blksize n = map (\<lambda>i. addr + of_nat i * blksize) [0..<n]"

primrec chain :: "(u32 \<Rightarrow> u32) \<Rightarrow> u32 \<Rightarrow> u32 list \<Rightarrow> bool" where
  "chain cells p [] \<longleftrightarrow> p = 0"
| "chain cells p (b # bs) \<longleftrightarrow> p = b \<and> chain cells (cells b) bs"

lemma chain_upd: "a \<notin> set bs \<Longrightarrow> chain (cells(a := v)) p bs = chain cells p bs"
  by (induction bs arbitrary: p) auto

definition part_holds :: "nat \<Rightarrow> u32 set \<Rightarrow> 'a mem_parts_scheme \<Rightarrow> u32 list \<Rightarrow> bool" where
  "part_holds k B s l \<longleftrightarrow> (\<exists>p. get_part k s = Some p \<and> unat (OSMemNFree p) = length l \<and> unat (OSMemNBlks p) = card B \<and> finite B \<and>
     set l \<subseteq> B \<and> distinct l \<and> chain (m_cells s) (OSMemFreeList p) l)"

lemma m_step_refines:
  assumes "part_holds k B s l" "m_pre B x l"
  shows "\<exists>s1. m_step k x s = Some (fst (stack_step x l), s1) \<and> part_holds k B s1 (snd (stack_step x l))"
proof -
  obtain p where p: "get_part k s = Some p" "unat (OSMemNFree p) = length l" "unat (OSMemNBlks p) = card B" "finite B" "set l \<subseteq> B" "distinct l"
      "chain (m_cells s) (OSMemFreeList p) l" using assms(1) unfolding part_holds_def by blast
  have k: "k < length (OSMemTbl s)" using p(1) by (simp add: get_part_def split: if_splits)
  show ?thesis
  proof (cases x)
    case M_Get
    show ?thesis
    proof (cases l)
      case Nil
      then have "OSMemNFree p = 0" using p(2) by (simp add: unat_eq_0)
      then show ?thesis using M_Get Nil p(1) assms(1) by (simp add: OSMemGet_def)
    next
      case (Cons b bs)
      then have nz: "OSMemNFree p \<noteq> 0" using p(2) by auto
      have gt: "OSMemNFree p > 0" "unat (OSMemNFree p - 1) = length bs" using nz unat_minus_one [OF nz] p(2) Cons by (simp_all add: word_gt_0)
      define p1 where "p1 = p\<lparr>OSMemFreeList := m_cells s (OSMemFreeList p), OSMemNFree := OSMemNFree p - 1\<rparr>"
      have "part_holds k B (s\<lparr>OSMemTbl := (OSMemTbl s)[k := p1]\<rparr>) bs"
        unfolding part_holds_def using p k Cons gt(2) by (intro exI [of _ p1]) (simp add: get_part_def p1_def)
      then show ?thesis using M_Get Cons p(1,7) gt(1) by (simp add: OSMemGet_def p1_def)
    qed
  next
    case (M_Put b)
    then have b: "b \<in> B" "b \<notin> set l" using assms(2) by simp_all
    have "length l < card B"
      using card_mono [OF p(4), of "insert b (set l)"] b p(5) distinct_card [OF p(6)] by simp
    then have lt: "OSMemNFree p < OSMemNBlks p" using p(2,3) by (simp add: word_less_nat_alt)
    then have u: "unat (OSMemNFree p + 1) = length l + 1" using p(2) by unat_arith
    define p1 where "p1 = p\<lparr>OSMemFreeList := b, OSMemNFree := OSMemNFree p + 1\<rparr>"
    have "part_holds k B (s\<lparr>m_cells := (m_cells s)(b := OSMemFreeList p), OSMemTbl := (OSMemTbl s)[k := p1]\<rparr>) (b # l)"
      unfolding part_holds_def using p k u b chain_upd [OF b(2)] by (intro exI [of _ p1]) (simp add: get_part_def p1_def)
    moreover have "\<not> OSMemNBlks p \<le> OSMemNFree p" using lt by simp
    ultimately show ?thesis using M_Put p(1) by (simp add: OSMemPut_def p1_def)
  next
    case (M_Write a v)
    then have "part_holds k B (s\<lparr>m_cells := (m_cells s)(a := v)\<rparr>) l"
      unfolding part_holds_def using p chain_upd assms(2) by (intro exI [of _ p]) (simp add: get_part_def split: if_splits)
    then show ?thesis using M_Write by simp
  qed
qed

interpretation m: refined_steps "m_step k" stack_step "m_pre B" "part_holds k B" "\<lambda>_ _. True" for k B
  by unfold_locales (use m_step_refines in auto)

text \<open>The chain of a new partition.\<close>

lemma blocks_Suc: "blocks addr blksize (Suc n) = addr # blocks (addr + blksize) blksize n"
proof -
  have "[0..<Suc n] = 0 # map Suc [0..<n]" by (simp add: upt_conv_Cons map_Suc_upt del: upt_Suc)
  then show ?thesis by (simp add: blocks_def comp_def algebra_simps del: upt_Suc)
qed

lemma blocks_distinct:
  assumes "0 < unat blksize" "unat addr + n * unat blksize \<le> 2 ^ 32"
  shows "distinct (blocks addr blksize n)"
proof -
  have u: "unat (addr + of_nat i * blksize) = unat addr + i * unat blksize" if "i < n" for i
  proof -
    have "i * unat blksize < n * unat blksize" using that assms(1) by simp
    then have l: "unat addr + i * unat blksize < 2 ^ 32" using assms(2) by linarith
    have "addr + of_nat i * blksize = of_nat (unat addr + i * unat blksize)" by simp
    then show ?thesis using l by (simp only: unat_of_nat) simp
  qed
  have "inj_on (\<lambda>i. addr + of_nat i * blksize) {0..<n}"
  proof (rule inj_onI)
    fix i j assume ij: "i \<in> {0..<n}" "j \<in> {0..<n}" "addr + of_nat i * blksize = addr + of_nat j * blksize"
    have "unat addr + i * unat blksize = unat (addr + of_nat i * blksize)" using u [of i] ij(1) by simp
    also have "\<dots> = unat (addr + of_nat j * blksize)" by (rule arg_cong [OF ij(3)])
    also have "\<dots> = unat addr + j * unat blksize" using u [of j] ij(2) by simp
    finally have "i * unat blksize = j * unat blksize" by simp
    then show "i = j" using assms(1) by simp
  qed
  then show ?thesis by (simp add: blocks_def distinct_map)
qed

lemma link_blocks_chain:
  assumes "distinct (blocks addr blksize (Suc n))"
  shows "chain (link_blocks n blksize addr cells) addr (blocks addr blksize (Suc n)) \<and>
    (\<forall>a. a \<notin> set (blocks addr blksize (Suc n)) \<longrightarrow> link_blocks n blksize addr cells a = cells a)"
  using assms
proof (induction n arbitrary: addr cells)
  case 0
  then show ?case by (simp add: blocks_def)
next
  case (Suc n)
  let ?bs = "blocks (addr + blksize) blksize (Suc n)"
  have d: "addr \<notin> set ?bs" "distinct ?bs" using Suc.prems unfolding blocks_Suc [of addr blksize "Suc n"] by simp_all
  define c1 where "c1 = cells(addr := addr + blksize)"
  have i: "chain (link_blocks n blksize (addr + blksize) c1) (addr + blksize) ?bs"
      "\<And>a. a \<notin> set ?bs \<Longrightarrow> link_blocks n blksize (addr + blksize) c1 a = c1 a"
    using Suc.IH [OF d(2)] by blast+
  have "link_blocks (Suc n) blksize addr cells = link_blocks n blksize (addr + blksize) c1" by (simp add: c1_def)
  moreover have "link_blocks n blksize (addr + blksize) c1 addr = addr + blksize" using i(2) [OF d(1)] by (simp add: c1_def)
  ultimately show ?case unfolding blocks_Suc [of addr blksize "Suc n"] using i by (simp add: c1_def)
qed

text \<open>C40: A memory partition is a stack of its blocks: after the creation of a partition of \<open>n\<close> blocks that fits into the address space, in every
  sequence of calls in which callers give back only blocks of the partition that are not free and do not write to the first cell of a free block,
  every call returns what it returns on the stack, starting with all blocks in order; the free blocks stay different blocks of the
  partition, so no block is handed out twice.\<close>

theorem partition_is_block_stack:
  assumes "m_free s = k # ks" "k < length (OSMemTbl s)" "0 < n" "0 < blksize" "unat addr + unat n * unat blksize \<le> 2 ^ 32"
    and "B = blocks addr blksize (unat n)" "all_ok stack_step (m_pre (set B)) xs B"
  shows "\<exists>s1 s2 l. OSMemCreate addr n blksize s = (OS_ERR_NONE, Some k, s1) \<and> run_ops (m_step k) xs s1 = Some (fst (run_spec stack_step xs B), s2) \<and>
    l = snd (run_spec stack_step xs B) \<and> distinct l \<and> set l \<subseteq> set B \<and> map_option (unat \<circ> OSMemNFree) (get_part k s2) = Some (length l)"
proof -
  define p where "p = \<lparr>OSMemAddr = addr, OSMemFreeList = addr, OSMemBlkSize = blksize, OSMemNBlks = n, OSMemNFree = n\<rparr>"
  define s1 where "s1 = s\<lparr>m_free := ks, m_cells := link_blocks (unat (n - 1)) blksize addr (m_cells s), OSMemTbl := (OSMemTbl s)[k := p]\<rparr>"
  have eq: "OSMemCreate addr n blksize s = (OS_ERR_NONE, Some k, s1)" by (simp add: OSMemCreate_def assms(1) s1_def p_def)
  have nz: "n \<noteq> 0" using assms(3) by auto
  have n: "unat n = Suc (unat (n - 1))" using unat_minus_one [OF nz] nz by (simp add: unat_gt_0)
  have d: "distinct B" unfolding assms(6) by (rule blocks_distinct) (use assms(4,5) in \<open>simp_all add: unat_gt_0 word_gt_0\<close>)
  have len: "length B = unat n" by (simp add: assms(6) blocks_def)
  have c: "chain (m_cells s1) addr B" using link_blocks_chain [of addr blksize "unat (n - 1)" "m_cells s"] d unfolding assms(6) n by (simp add: s1_def)
  have "part_holds k (set B) s1 B"
    unfolding part_holds_def using assms(2) d len c distinct_card [OF d] by (intro exI [of _ p]) (simp add: get_part_def s1_def p_def)
  then obtain s2 where s2: "run_ops (m_step k) xs s1 = Some (fst (run_spec stack_step xs B), s2)" "part_holds k (set B) s2 (snd (run_spec stack_step xs B))"
    using m.run_refines [OF _ assms(7), of k s1] by blast
  then show ?thesis using eq unfolding part_holds_def by (intro exI [of _ s1] exI [of _ s2] exI [of _ "snd (run_spec stack_step xs B)"]) auto
qed

lemma partition_is_block_stack_witness:
  "\<exists>s1 s2. OSMemCreate 0x1000 2 16 (OS_MemInit \<lparr>OSMemTbl = [], m_free = [], m_cells = \<lambda>_. 7\<rparr>) = (OS_ERR_NONE, Some 0, s1) \<and>
     run_ops (m_step 0) [M_Get, M_Write 0x1000 5, M_Get, M_Get, M_Put 0x1000, M_Get] s1 =
       Some ([(OS_ERR_NONE, 0x1000), (OS_ERR_NONE, 0), (OS_ERR_NONE, 0x1010), (OS_ERR_MEM_NO_FREE_BLKS, 0), (OS_ERR_NONE, 0), (OS_ERR_NONE, 0x1000)], s2)"
proof -
  let ?s = "OS_MemInit \<lparr>OSMemTbl = [], m_free = [], m_cells = \<lambda>_. 7\<rparr>"
  have f: "m_free ?s = 0 # [1..<5]" "0 < length (OSMemTbl ?s)" by (simp_all add: OS_MemInit_def OS_MAX_MEM_PART_def upt_conv_Cons)
  have b: "blocks 0x1000 16 (unat (2 :: u32)) = [0x1000, 0x1010]" by (simp add: blocks_def upt_conv_Cons)
  show ?thesis
    using partition_is_block_stack [OF f, of 2 16 "0x1000" "[0x1000, 0x1010]" "[M_Get, M_Write 0x1000 5, M_Get, M_Get, M_Put 0x1000, M_Get]"] b by auto
qed

end
