(* ===== verification/Web_Server.thy ===== *)
theory Web_Server
  imports Http_Engine "HOL-Library.Multiset"
begin

text \<open>
  The thread of the web server (\<^verbatim>\<open>App/Webserver/webserver.c\<close>). One turn of its loop is one pass around \<^verbatim>\<open>while (1)\<close> with
  the results of \<^verbatim>\<open>select\<close>, \<^verbatim>\<open>recv\<close> and \<^verbatim>\<open>accept\<close> as arguments; other threads run between the turns.
\<close>

section \<open>Connections\<close>

definition PARAM_NET_MODE_SOFTAP :: u8 where "PARAM_NET_MODE_SOFTAP = 2"
definition MEMP_NUM_NETCONN :: int where "MEMP_NUM_NETCONN = 8"

text \<open>Where the thread is: waiting for the access point, about to open the listening socket, in the loop, or waiting for the
  access point again after the mode was changed.\<close>

datatype web_pc = W_Boot | W_Start | W_Loop | W_Wait

text \<open>The variables of \<^verbatim>\<open>webserver_main\<close>, with the descriptors the stack has handed out and those no variable holds any more.\<close>

record 'f wsrv = "'f web" +
  w_pc :: web_pc
  conn_amount :: int
  listen_fd :: int
  maxsock :: int
  opened :: "int list"
  lost :: "int list"

definition softap :: "('f, 'a) snet_scheme \<Rightarrow> bool" where
  "softap s \<longleftrightarrow> Protocol (WiFiCfg (SysParam s)) = PARAM_NET_MODE_SOFTAP"

text \<open>\<^verbatim>\<open>WebServerThread\<close> before its loop; \<open>m\<close> is whether \<^verbatim>\<open>malloc\<close> of the page buffer succeeds.\<close>

definition http_senddata_alloc :: "bool \<Rightarrow> ('f, 'a) web_scheme \<Rightarrow> ('f, 'a) web_scheme" where
  "http_senddata_alloc m s = s\<lparr>html_buf := if m then Some (replicate HTTP_SEND_BUFFER_MAX NUL) else None\<rparr>"

definition web_boot :: "bool \<Rightarrow> 'f wsrv \<Rightarrow> 'f wsrv" where
  "web_boot m s = (if softap s \<and> link_status s = SYS_EVT_LINK_UP then (http_senddata_alloc m s)\<lparr>w_pc := W_Start\<rparr> else s)"

text \<open>From the label \<^verbatim>\<open>WebServer\<close> to the loop, with the results of \<^verbatim>\<open>socket\<close>, \<^verbatim>\<open>bind\<close>, \<^verbatim>\<open>listen\<close> and \<^verbatim>\<open>OSMMalloc\<close>. A return loses
  the local variable \<^verbatim>\<open>sock_fd\<close>; the thread calls \<^verbatim>\<open>webserver_main\<close> again.\<close>

definition web_start :: "int \<Rightarrow> int \<Rightarrow> int \<Rightarrow> string option \<Rightarrow> 'f wsrv \<Rightarrow> 'f wsrv" where
  "web_start sk bnd lst blk s =
     (let s0 = s\<lparr>conn_amount := 0\<rparr>
      in if sk = -1 then s0
         else
           let s1 = s0\<lparr>opened := opened s @ [sk]\<rparr>
           in if bnd = -1 \<or> lst = -1 then s1\<lparr>lost := lost s @ [sk]\<rparr>
              else case blk of None \<Rightarrow> s1\<lparr>lost := lost s @ [sk]\<rparr>
              | Some b \<Rightarrow> s1\<lparr>listen_fd := sk, maxsock := sk, Rec_Data := b, w_pc := W_Loop,
                  http_table := map (\<lambda>t. t\<lparr>h_status := HTTP_CLOSED, h_sock_fd := -1\<rparr>) (http_table s)\<rparr>)"

text \<open>Closing one entry, the entries that are not sending, and all entries.\<close>

definition close_entry :: "'f wsrv \<Rightarrow> nat \<Rightarrow> 'f wsrv" where
  "close_entry s i =
     (upd_entry i (\<lambda>t. t\<lparr>h_sock_fd := -1\<rparr>) (lwip_close (h_sock_fd (http_table s ! i)) s))\<lparr>conn_amount := conn_amount s - 1\<rparr>"

definition close_closed :: "'f wsrv \<Rightarrow> 'f wsrv" where
  "close_closed s =
     foldl (\<lambda>s i. if h_sock_fd (http_table s ! i) \<ge> 0 \<and> h_status (http_table s ! i) = HTTP_CLOSED then close_entry s i else s)
       s [0..<TCP_ENTRIES]"

definition close_all :: "'f wsrv \<Rightarrow> 'f wsrv" where
  "close_all s =
     foldl (\<lambda>s i. if h_sock_fd (http_table s ! i) \<ge> 0 then close_entry (upd_entry i (\<lambda>t. t\<lparr>h_status := HTTP_CLOSED\<rparr>) s) i else s)
       s [0..<TCP_ENTRIES]"

text \<open>What one pass sees: the result of \<^verbatim>\<open>select\<close> and the descriptors that are ready, what \<^verbatim>\<open>recv\<close> gives on each entry (nothing
  for an end or an error), and the result of \<^verbatim>\<open>accept\<close>. \<^verbatim>\<open>select\<close> looks at the descriptors that were set and are not above
  \<^verbatim>\<open>maxsock\<close>.\<close>

record web_io =
  io_sel :: int
  io_ready :: "int list"
  io_recv :: "nat \<Rightarrow> string"
  io_accept :: int

definition ready :: "web_io \<Rightarrow> ('f, 'a) wsrv_scheme \<Rightarrow> int list" where
  "ready io s = filter (\<lambda>fd. fd \<le> maxsock s \<and> (fd = listen_fd s \<or>
     fd \<in> h_sock_fd ` set (http_table s) \<and> 0 \<le> fd \<and> fd < MEMP_NUM_NETCONN)) (io_ready io)"

text \<open>The loop over the entries. A connection that ends makes the code close every entry that is not sending, with the loop
  variable of the outer loop, which ends with it. The chip reset at the end of some handlers does not return.\<close>

fun serve :: "'f env \<Rightarrow> (nat \<Rightarrow> u32) \<Rightarrow> (nat \<Rightarrow> string) \<Rightarrow> int list \<Rightarrow> nat list \<Rightarrow> 'f wsrv \<Rightarrow> 'f wsrv option" where
  "serve e junk rcv rd [] s = (if conn_amount s > int TCP_ENTRIES then None else Some s)"
| "serve e junk rcv rd (i # is) s =
     (if int i < conn_amount s then
        if h_sock_fd (http_table s ! i) \<in> set rd then
          let d = take RECV_BUFFER_SIZE (rcv i)
          in if d = [] then
               let s1 = upd_entry i (\<lambda>t. t\<lparr>h_status := HTTP_CLOSED\<rparr>) s
               in Some (close_closed (if h_sock_fd (http_table s1 ! i) \<ge> 0 then close_entry s1 i else s1))
             else do {
               s1 \<leftarrow> http_engine e junk i 0 (of_nat (length d)) (received d s);
               if chip_reset s1 then Some s1 else serve e junk rcv rd is s1
             }
        else serve e junk rcv rd is s
      else Some s)"

definition web_accept :: "int \<Rightarrow> 'f wsrv \<Rightarrow> 'f wsrv" where
  "web_accept new_fd s =
     (let s1 = (if conn_amount s \<ge> int TCP_ENTRIES then close_closed s else s)
      in if new_fd < 0 then s1
         else
           let s2 = s1\<lparr>opened := opened s1 @ [new_fd]\<rparr>
           in if conn_amount s2 < int TCP_ENTRIES then
                (upd_entry (nat (conn_amount s2)) (\<lambda>t. t\<lparr>h_sock_fd := new_fd\<rparr>) s2)\<lparr>conn_amount := conn_amount s2 + 1, maxsock := new_fd + 1\<rparr>
              else lwip_close new_fd s2)"

definition web_pass :: "'f env \<Rightarrow> (nat \<Rightarrow> u32) \<Rightarrow> web_io \<Rightarrow> 'f wsrv \<Rightarrow> 'f wsrv option" where
  "web_pass e junk io s =
     (if io_sel io \<le> 0 then
        if softap s then Some s
        else
          let s1 = close_all s; s2 = (if listen_fd s1 \<ge> 0 then lwip_close (listen_fd s1) s1 else s1)
          in Some (s2\<lparr>listen_fd := -1, w_pc := W_Wait\<rparr>)
      else
        let rd = ready io s
        in do {
          s1 \<leftarrow> serve e junk (io_recv io) rd [0..<TCP_ENTRIES] s;
          if chip_reset s1 then Some s1
          else Some (if listen_fd s1 \<in> set rd then web_accept (io_accept io) s1 else s1)
        })"

definition web_wait :: "'f wsrv \<Rightarrow> 'f wsrv" where
  "web_wait s = (if softap s then s\<lparr>w_pc := W_Start\<rparr> else s)"

section \<open>The connection table\<close>

abbreviation fds :: "('f, 'a) web_scheme \<Rightarrow> int list" where
  "fds s \<equiv> map h_sock_fd (http_table s)"

definition all_closed :: "('f, 'a) web_scheme \<Rightarrow> bool" where
  "all_closed s \<longleftrightarrow> length (http_table s) = TCP_ENTRIES \<and> (\<forall>t \<in> set (http_table s). h_status t = HTTP_CLOSED)"

text \<open>The entries in use are the first ones, with the descriptors \<open>ls\<close>.\<close>

definition table_ok :: "int list \<Rightarrow> 'f wsrv \<Rightarrow> bool" where
  "table_ok ls s \<longleftrightarrow> all_closed s \<and> fds s = ls @ replicate (TCP_ENTRIES - length ls) (-1) \<and> length ls \<le> TCP_ENTRIES \<and>
     (\<forall>f \<in> set ls. 0 \<le> f) \<and> conn_amount s = int (length ls)"

definition same_vars :: "'f wsrv \<Rightarrow> 'f wsrv \<Rightarrow> bool" where
  "same_vars s s' \<longleftrightarrow> opened s' = opened s \<and> lost s' = lost s \<and> listen_fd s' = listen_fd s \<and> w_pc s' = w_pc s"

lemma same_vars_simps [simp]:
  "same_vars s s" "same_vars s (s'\<lparr>conn_amount := n\<rparr>) = same_vars s s'" "same_vars s (upd_entry i f s') = same_vars s s'"
  "same_vars s (lwip_close fd s') = same_vars s s'"
  by (simp_all add: same_vars_def upd_entry_def lwip_close_def)

lemma upd_entry_simps [simp]:
  "http_table (upd_entry i f s) = (http_table s)[i := f (http_table s ! i)]" "closed (upd_entry i f s) = closed s"
  "conn_amount (upd_entry i f s) = conn_amount s"
  by (simp_all add: upd_entry_def)

lemma lwip_close_simps [simp]:
  "http_table (lwip_close fd s) = http_table s" "closed (lwip_close fd s) = closed s @ [fd]" "conn_amount (lwip_close fd s) = conn_amount s"
  "opened (lwip_close fd s) = opened s" "lost (lwip_close fd s) = lost s" "listen_fd (lwip_close fd s) = listen_fd s"
  by (simp_all add: lwip_close_def)

lemma close_entry_simps [simp]:
  "http_table (close_entry s i) = (http_table s)[i := (http_table s ! i)\<lparr>h_sock_fd := -1\<rparr>]"
  "closed (close_entry s i) = closed s @ [h_sock_fd (http_table s ! i)]" "conn_amount (close_entry s i) = conn_amount s - 1"
  "same_vars t (close_entry s i) = same_vars t s"
  by (simp_all add: close_entry_def)

lemma all_closed_update:
  assumes "all_closed s" "\<And>t. h_status (f t) = h_status t \<or> h_status (f t) = HTTP_CLOSED" "http_table s' = (http_table s)[i := f (http_table s ! i)]"
  shows "all_closed s'"
proof (cases "i < length (http_table s)")
  case True
  then have "h_status (http_table s ! i) = HTTP_CLOSED" using assms(1) by (simp add: all_closed_def)
  then have "h_status (f (http_table s ! i)) = HTTP_CLOSED" using assms(2) [of "http_table s ! i"] by auto
  then have "\<forall>t \<in> set (http_table s'). h_status t = HTTP_CLOSED"
    using assms(1,3) set_update_subset_insert [of "http_table s" i "f (http_table s ! i)"] by (auto simp: all_closed_def)
  then show ?thesis using assms(1,3) by (simp add: all_closed_def)
next
  case False
  then have "http_table s' = http_table s" using assms(3) by (simp add: list_update_beyond)
  with assms(1) show ?thesis by (simp add: all_closed_def)
qed

text \<open>Both closing loops close every entry that holds a descriptor.\<close>

definition closes :: "('f wsrv \<Rightarrow> nat \<Rightarrow> 'f wsrv) \<Rightarrow> bool" where
  "closes g \<longleftrightarrow> (\<forall>s i. all_closed s \<longrightarrow> i < TCP_ENTRIES \<longrightarrow> g s i = (if 0 \<le> h_sock_fd (http_table s ! i) then close_entry s i else s))"

lemma fold_closes:
  assumes "closes g" "all_closed s" "n \<le> TCP_ENTRIES"
  shows "all_closed (foldl g s [0..<n]) \<and> same_vars s (foldl g s [0..<n]) \<and>
    fds (foldl g s [0..<n]) = map (\<lambda>f. if 0 \<le> f then -1 else f) (take n (fds s)) @ drop n (fds s) \<and>
    closed (foldl g s [0..<n]) = closed s @ filter (\<lambda>f. 0 \<le> f) (take n (fds s)) \<and>
    conn_amount (foldl g s [0..<n]) = conn_amount s - int (length (filter (\<lambda>f. 0 \<le> f) (take n (fds s))))"
  using assms(3)
proof (induction n)
  case 0
  then show ?case using assms(2) by simp
next
  case (Suc n)
  define s' where "s' = foldl g s [0..<n]"
  have n: "n < TCP_ENTRIES" "n < length (fds s)" "length (http_table s) = TCP_ENTRIES" using Suc.prems assms(2) by (simp_all add: all_closed_def)
  have ih: "all_closed s'" "same_vars s s'" "fds s' = map (\<lambda>f. if 0 \<le> f then -1 else f) (take n (fds s)) @ drop n (fds s)"
      "closed s' = closed s @ filter (\<lambda>f. 0 \<le> f) (take n (fds s))"
      "conn_amount s' = conn_amount s - int (length (filter (\<lambda>f. 0 \<le> f) (take n (fds s))))"
    using Suc by (simp_all add: s'_def)
  have lt: "n < length (http_table s')" using ih(1) n(1) by (simp add: all_closed_def)
  have nth: "h_sock_fd (http_table s' ! n) = fds s ! n"
    using arg_cong [OF ih(3), of "\<lambda>l. l ! n"] lt n by (simp add: nth_append)
  have step: "foldl g s [0..<Suc n] = (if 0 \<le> fds s ! n then close_entry s' n else s')"
    using assms(1) ih(1) n(1) nth by (simp add: closes_def s'_def)
  have tk: "take (Suc n) (fds s) = take n (fds s) @ [fds s ! n]" using n(2) by (rule take_Suc_conv_app_nth)
  have dr: "drop n (fds s) = fds s ! n # drop (Suc n) (fds s)" by (rule Cons_nth_drop_Suc [OF n(2), symmetric])
  have ac: "all_closed (close_entry s' n)" using ih(1) by (rule all_closed_update [where f = "\<lambda>t. t\<lparr>h_sock_fd := -1\<rparr>"]) simp_all
  have "map h_sock_fd ((http_table s')[n := x\<lparr>h_sock_fd := -1\<rparr>]) = (fds s')[n := -1]" for x
    by (simp add: map_update)
  then show ?case
    unfolding step tk using ih ac n dr nth by (simp add: list_update_append)
qed

lemma closing_loops: "closes (\<lambda>(s :: 'f wsrv) i. if h_sock_fd (http_table s ! i) \<ge> 0 \<and> h_status (http_table s ! i) = HTTP_CLOSED then close_entry s i else s)"
  "closes (\<lambda>(s :: 'f wsrv) i. if h_sock_fd (http_table s ! i) \<ge> 0 then close_entry (upd_entry i (\<lambda>t. t\<lparr>h_status := HTTP_CLOSED\<rparr>) s) i else s)"
proof -
  have st: "h_status (http_table s ! i) = HTTP_CLOSED" if "all_closed s" "i < TCP_ENTRIES" for s :: "'f wsrv" and i
    using that by (simp add: all_closed_def)
  have same: "upd_entry i (\<lambda>t. t\<lparr>h_status := HTTP_CLOSED\<rparr>) s = s" if "all_closed s" "i < TCP_ENTRIES" for s :: "'f wsrv" and i
  proof -
    have "(http_table s ! i)\<lparr>h_status := HTTP_CLOSED\<rparr> = http_table s ! i" using st [OF that] by simp
    then show ?thesis by (simp add: upd_entry_def)
  qed
  show "closes (\<lambda>(s :: 'f wsrv) i. if h_sock_fd (http_table s ! i) \<ge> 0 \<and> h_status (http_table s ! i) = HTTP_CLOSED then close_entry s i else s)"
    using st by (simp add: closes_def)
  show "closes (\<lambda>(s :: 'f wsrv) i. if h_sock_fd (http_table s ! i) \<ge> 0 then close_entry (upd_entry i (\<lambda>t. t\<lparr>h_status := HTTP_CLOSED\<rparr>) s) i else s)"
    using same by (simp add: closes_def)
qed

lemma close_loops:
  assumes "all_closed s"
  shows "all_closed (close_closed s)" "same_vars s (close_closed s)" "fds (close_closed s) = map (\<lambda>f. if 0 \<le> f then -1 else f) (fds s)"
    "closed (close_closed s) = closed s @ filter (\<lambda>f. 0 \<le> f) (fds s)"
    "conn_amount (close_closed s) = conn_amount s - int (length (filter (\<lambda>f. 0 \<le> f) (fds s)))"
    and "same_vars s (close_all s)" "closed (close_all s) = closed s @ filter (\<lambda>f. 0 \<le> f) (fds s)" "all_closed (close_all s)"
  using fold_closes [OF closing_loops(1) assms, of TCP_ENTRIES] fold_closes [OF closing_loops(2) assms, of TCP_ENTRIES] assms
  by (simp_all add: close_closed_def close_all_def all_closed_def)

lemma table_filter: "table_ok ls s \<Longrightarrow> filter (\<lambda>f. 0 \<le> f) (fds s) = ls"
  by (auto simp: table_ok_def filter_empty_conv filter_id_conv)

lemma close_closed_table:
  assumes "table_ok ls s"
  shows "table_ok [] (close_closed s)" "closed (close_closed s) = closed s @ ls" "same_vars s (close_closed s)"
proof -
  have t: "all_closed s" "conn_amount s = int (length ls)" using assms by (simp_all add: table_ok_def)
  have "map (\<lambda>f. if 0 \<le> f then -1 else f) (fds s) = replicate TCP_ENTRIES (-1)"
    using assms by (auto simp: table_ok_def list_eq_iff_nth_eq nth_append all_closed_def)
  then show "table_ok [] (close_closed s)" "closed (close_closed s) = closed s @ ls" "same_vars s (close_closed s)"
    using close_loops [OF t(1)] table_filter [OF assms] t(2) by (simp_all add: table_ok_def)
qed

lemma wsrv_more:
  assumes "web.more s' = web.more (s :: 'f wsrv)"
  shows "same_vars s s'" "conn_amount s' = conn_amount s"
  using assms by (cases s; cases s'; simp add: same_vars_def)+

lemma kept_table:
  assumes "table_ok ls s" "kept i s s'"
  shows "table_ok ls s'" "closed s' = closed s" "same_vars s s'"
proof -
  have k: "fds s' = fds s" "web.more s' = web.more s" "closed s' = closed s" "\<forall>j. j \<noteq> i \<longrightarrow> http_table s' ! j = http_table s ! j"
      "h_status (http_table s ! i) = HTTP_CLOSED \<longrightarrow> h_status (http_table s' ! i) = HTTP_CLOSED"
    using assms(2) by (simp_all add: kept_def)
  have l: "length (http_table s') = length (http_table s)" using arg_cong [OF k(1), of length] by simp
  have ac: "all_closed s" using assms(1) by (simp add: table_ok_def)
  have "h_status (http_table s' ! j) = HTTP_CLOSED" if "j < length (http_table s')" for j
  proof -
    have "h_status (http_table s ! j) = HTTP_CLOSED" using that l ac by (simp add: all_closed_def)
    then show ?thesis using k(4,5) by (cases "j = i") auto
  qed
  then have "all_closed s'" using ac l by (auto simp: all_closed_def in_set_conv_nth)
  then show "table_ok ls s'" using assms(1) k(1) wsrv_more [OF k(2)] by (simp add: table_ok_def)
  show "closed s' = closed s" "same_vars s s'" using k(3) wsrv_more [OF k(2)] by simp_all
qed

lemma same_vars_trans: "same_vars s s' \<Longrightarrow> same_vars s' s'' \<Longrightarrow> same_vars s s''"
  by (simp add: same_vars_def)

text \<open>A connection that ends takes all others with it; what leaves the table is closed.\<close>

lemma entry_fd:
  assumes "table_ok ls s" "i < length ls"
  shows "i < length (http_table s)" "h_sock_fd (http_table s ! i) = ls ! i" "0 \<le> ls ! i"
proof -
  have t: "all_closed s" "fds s = ls @ replicate (TCP_ENTRIES - length ls) (-1)" "length ls \<le> TCP_ENTRIES" "\<forall>f \<in> set ls. 0 \<le> f"
    using assms(1) by (simp_all add: table_ok_def)
  show i: "i < length (http_table s)" using assms(2) t(1,3) by (simp add: all_closed_def)
  show "h_sock_fd (http_table s ! i) = ls ! i" "0 \<le> ls ! i"
    using arg_cong [OF t(2), of "\<lambda>l. l ! i"] i assms(2) t(4) by (simp_all add: nth_append)
qed

lemma filter_removed:
  assumes "\<forall>f \<in> set ls. 0 \<le> f" "i < length (ls :: int list)"
  shows "mset (filter (\<lambda>f. 0 \<le> f) (ls[i := -1])) = mset ls - {#ls ! i#}"
proof -
  have "filter (\<lambda>f. 0 \<le> f) ls = ls" using assms(1) by (simp add: filter_id_conv)
  then have "filter_mset (\<lambda>f. 0 \<le> f) (mset ls) = mset ls" by (metis mset_filter)
  then show ?thesis using assms by (simp add: mset_update)
qed

lemma end_connection:
  assumes "table_ok ls s" "i < length ls"
  defines "s1 \<equiv> close_entry (upd_entry i (\<lambda>t. t\<lparr>h_status := HTTP_CLOSED\<rparr>) s) i"
  shows "table_ok [] (close_closed s1)" "mset (closed (close_closed s1)) = mset (closed s) + mset ls" "same_vars s (close_closed s1)"
proof -
  have t: "all_closed s" "fds s = ls @ replicate (TCP_ENTRIES - length ls) (-1)" "length ls \<le> TCP_ENTRIES"
      "\<forall>f \<in> set ls. 0 \<le> f" "conn_amount s = int (length ls)"
    using assms(1) by (simp_all add: table_ok_def)
  note fd = entry_fd [OF assms(1,2)]
  have "all_closed (upd_entry i (\<lambda>t. t\<lparr>h_status := HTTP_CLOSED\<rparr>) s)"
    by (rule all_closed_update [where f = "\<lambda>t. t\<lparr>h_status := HTTP_CLOSED\<rparr>" and i = i, OF t(1)]) simp_all
  then have ac: "all_closed s1"
    unfolding s1_def by (rule all_closed_update [where f = "\<lambda>t. t\<lparr>h_sock_fd := -1\<rparr>" and i = i]) simp_all
  have f1: "fds s1 = ls[i := -1] @ replicate (TCP_ENTRIES - length ls) (-1)" "closed s1 = closed s @ [ls ! i]" "same_vars s s1"
      "conn_amount s1 = int (length ls) - 1"
    using t(2,5) fd assms(2) by (simp_all add: s1_def map_update list_update_append)
  have fl: "filter (\<lambda>f. 0 \<le> f) (fds s1) = filter (\<lambda>f. 0 \<le> f) (ls[i := -1])" by (simp add: f1(1) filter_empty_conv)
  note m = filter_removed [OF t(4) assms(2)]
  then have "length (filter (\<lambda>f. 0 \<le> f) (ls[i := -1])) = length ls - 1"
    using assms(2) by (metis nth_mem_mset size_Diff_singleton size_mset)
  moreover have "map (\<lambda>f. if 0 \<le> f then -1 else f) (fds s1) = replicate TCP_ENTRIES (-1)"
    using t(3,4) assms(2) unfolding f1(1) by (auto simp: list_eq_iff_nth_eq nth_append nth_list_update)
  ultimately show "table_ok [] (close_closed s1)" using close_loops [OF ac] f1(4) assms(2) fl by (simp add: table_ok_def)
  show "mset (closed (close_closed s1)) = mset (closed s) + mset ls" using close_loops(4) [OF ac] f1(2) fl m assms(2) by simp
  show "same_vars s (close_closed s1)" by (rule same_vars_trans [OF f1(3) close_loops(2) [OF ac]])
qed

lemma engine_table:
  assumes "http_engine e junk i 0 n (received d s) = Some s'" "table_ok ls s" "i < length ls"
  shows "table_ok ls s'" "closed s' = closed s" "same_vars s s'"
proof -
  have r: "http_table (received d s) = http_table s" "closed (received d s) = closed s" "same_vars s (received d s)"
      "conn_amount (received d s) = conn_amount s"
    by (simp_all add: received_def same_vars_def)
  have "h_status (http_table (received d s) ! i) = HTTP_CLOSED"
    using assms(2) entry_fd(1) [OF assms(2,3)] r(1) by (simp add: table_ok_def all_closed_def)
  note k = http_engine_kept [OF assms(1) this]
  have "table_ok ls (received d s)" using assms(2) r by (simp add: table_ok_def all_closed_def)
  note kt = kept_table [OF this k]
  show "table_ok ls s'" "closed s' = closed s" "same_vars s s'" using kt r(2) same_vars_trans [OF r(3) kt(3)] by simp_all
qed

text \<open>Serving the entries keeps the table in order.\<close>

lemma serve_table:
  assumes "serve e junk rcv rd is s = Some s'" "table_ok ls s" "\<forall>i \<in> set is. i < TCP_ENTRIES"
  shows "\<exists>ls'. table_ok ls' s' \<and> mset (closed s') + mset ls' = mset (closed s) + mset ls \<and> same_vars s s'"
  using assms
proof (induction "is" arbitrary: s ls)
  case Nil
  then show ?case by (auto split: if_splits)
next
  case (Cons i "is")
  have conn: "conn_amount s = int (length ls)" using Cons.prems(2) by (simp add: table_ok_def)
  show ?case
  proof (cases "i < length ls \<and> h_sock_fd (http_table s ! i) \<in> set rd")
    case False
    then have "s' = s \<or> serve e junk rcv rd is s = Some s'"
      using Cons.prems(1) conn by (auto split: if_splits)
    with Cons show ?thesis by auto
  next
    case True
    note fd = entry_fd [OF Cons.prems(2), of i]
    show ?thesis
    proof (cases "take RECV_BUFFER_SIZE (rcv i) = []")
      case rec: True
      have "s' = close_closed (close_entry (upd_entry i (\<lambda>t. t\<lparr>h_status := HTTP_CLOSED\<rparr>) s) i)"
        using Cons.prems(1) True rec fd conn by simp
      with end_connection [OF Cons.prems(2), of i] True show ?thesis by (intro exI [of _ "[]"]) simp
    next
      case False
      let ?d = "take RECV_BUFFER_SIZE (rcv i)"
      obtain s1 where s1: "http_engine e junk i 0 (of_nat (length ?d)) (received ?d s) = Some s1"
          "chip_reset s1 \<and> s' = s1 \<or> serve e junk rcv rd is s1 = Some s'"
        using Cons.prems(1) True False conn by (auto simp: Let_def bind_eq_Some_conv split: if_splits)
      have et: "table_ok ls s1" "closed s1 = closed s" "same_vars s s1" using engine_table [OF s1(1) Cons.prems(2)] True by blast+
      from s1(2) show ?thesis
      proof (elim disjE conjE)
        assume "s' = s1"
        with et show ?thesis by (intro exI [of _ ls]) simp
      next
        assume "serve e junk rcv rd is s1 = Some s'"
        from Cons.IH [OF this et(1)] Cons.prems(3) et(2,3) show ?thesis by (auto intro: same_vars_trans)
      qed
    qed
  qed
qed

lemma web_accept_table:
  assumes "table_ok ls s"
  shows "\<exists>ls'. table_ok ls' (web_accept fd s) \<and> listen_fd (web_accept fd s) = listen_fd s \<and> lost (web_accept fd s) = lost s \<and>
    w_pc (web_accept fd s) = w_pc s \<and>
    mset (closed (web_accept fd s)) + mset ls' + mset (opened s) = mset (closed s) + mset ls + mset (opened (web_accept fd s))"
proof -
  define s1 where "s1 = (if conn_amount s \<ge> int TCP_ENTRIES then close_closed s else s)"
  obtain l1 where l1: "table_ok l1 s1" "mset (closed s1) + mset l1 = mset (closed s) + mset ls" "same_vars s s1" "length l1 < TCP_ENTRIES"
  proof (cases "conn_amount s \<ge> int TCP_ENTRIES")
    case True
    with close_closed_table [OF assms] that [of "[]"] show ?thesis by (simp add: s1_def TCP_ENTRIES_def)
  next
    case False
    with assms that [of ls] show ?thesis by (simp add: s1_def table_ok_def)
  qed
  have t: "conn_amount s1 = int (length l1)" "fds s1 = l1 @ replicate (TCP_ENTRIES - length l1) (-1)" "all_closed s1" "\<forall>f \<in> set l1. 0 \<le> f"
    using l1(1) by (simp_all add: table_ok_def)
  show ?thesis
  proof (cases "fd < 0")
    case True
    then have "web_accept fd s = s1" by (simp add: web_accept_def s1_def [symmetric])
    with l1 show ?thesis by (intro exI [of _ l1]) (simp add: same_vars_def)
  next
    case False
    let ?s3 = "(upd_entry (length l1) (\<lambda>t. t\<lparr>h_sock_fd := fd\<rparr>) (s1\<lparr>opened := opened s1 @ [fd]\<rparr>))\<lparr>conn_amount := int (length l1) + 1, maxsock := fd + 1\<rparr>"
    have w: "web_accept fd s = ?s3"
      using False l1(4) t(1) by (simp add: web_accept_def s1_def [symmetric])
    obtain k where k: "TCP_ENTRIES - length l1 = Suc k" using l1(4) by (cases "TCP_ENTRIES - length l1") auto
    have "fds ?s3 = (fds s1)[length l1 := fd]" by (simp add: map_update)
    also have "\<dots> = (l1 @ [fd]) @ replicate (TCP_ENTRIES - length (l1 @ [fd])) (-1)" unfolding t(2) using k by simp
    finally have f3: "fds ?s3 = (l1 @ [fd]) @ replicate (TCP_ENTRIES - length (l1 @ [fd])) (-1)" .
    have "all_closed ?s3" using t(3) by (rule all_closed_update [where f = "\<lambda>t. t\<lparr>h_sock_fd := fd\<rparr>" and i = "length l1"]) simp_all
    then have "table_ok (l1 @ [fd]) ?s3" using f3 l1(4) t(4) False unfolding table_ok_def by simp
    with l1(2,3) show ?thesis unfolding w by (intro exI [of _ "l1 @ [fd]"]) (simp add: same_vars_def upd_entry_def)
  qed
qed

section \<open>The web server thread\<close>

text \<open>The thread starts with a zeroed table. Between its steps other threads may change parameters, flash and link.\<close>

definition web_init :: "'f wsrv \<Rightarrow> bool" where
  "web_init s \<longleftrightarrow> all_closed s \<and> w_pc s = W_Boot \<and> opened s = [] \<and> closed s = [] \<and> lost s = []"

inductive web_reach :: "'f wsrv \<Rightarrow> bool" where
  start: "web_init s \<Longrightarrow> web_reach s"
| other: "web_reach s \<Longrightarrow> web_reach (s\<lparr>SysParam := c, UserParam := u, flash := f, link_status := l\<rparr>)"
| boot: "web_reach s \<Longrightarrow> w_pc s = W_Boot \<Longrightarrow> web_reach (web_boot m s)"
| listening: "web_reach s \<Longrightarrow> w_pc s = W_Start \<Longrightarrow> -1 \<le> sk \<Longrightarrow> web_reach (web_start sk bnd lst blk s)"
| pass: "web_reach s \<Longrightarrow> w_pc s = W_Loop \<Longrightarrow> web_pass e junk io s = Some s' \<Longrightarrow> web_reach s'"
| wait: "web_reach s \<Longrightarrow> w_pc s = W_Wait \<Longrightarrow> web_reach (web_wait s)"

definition web_inv :: "'f wsrv \<Rightarrow> bool" where
  "web_inv s \<longleftrightarrow> all_closed s \<and>
     (if w_pc s = W_Loop
      then \<exists>ls. table_ok ls s \<and> 0 \<le> listen_fd s \<and> mset (opened s) = mset (closed s) + mset (lost s) + mset ls + {#listen_fd s#}
      else mset (opened s) = mset (closed s) + mset (lost s))"

lemma web_start_inv:
  assumes "web_inv s" "w_pc s = W_Start" "-1 \<le> sk"
  shows "web_inv (web_start sk bnd lst blk s)"
proof -
  have i: "all_closed s" "mset (opened s) = mset (closed s) + mset (lost s)" using assms(1,2) by (simp_all add: web_inv_def)
  have c: "all_closed (s\<lparr>conn_amount := n, opened := o', lost := l\<rparr>)" "all_closed (s\<lparr>conn_amount := n\<rparr>)" for n o' l
    using i(1) by (simp_all add: all_closed_def)
  show ?thesis
  proof (cases "sk = -1 \<or> bnd = -1 \<or> lst = -1 \<or> blk = None")
    case True
    then have "web_start sk bnd lst blk s = s\<lparr>conn_amount := 0\<rparr> \<or>
        web_start sk bnd lst blk s = s\<lparr>conn_amount := 0, opened := opened s @ [sk], lost := lost s @ [sk]\<rparr>"
      by (auto simp: web_start_def Let_def)
    then show ?thesis using i(2) c assms(2) by (auto simp: web_inv_def)
  next
    case False
    then obtain b where b: "blk = Some b" "sk \<noteq> -1" "0 \<le> sk" using assms(3) by auto
    define s' where "s' = web_start sk bnd lst blk s"
    have e: "http_table s' = map (\<lambda>t. t\<lparr>h_status := HTTP_CLOSED, h_sock_fd := -1\<rparr>) (http_table s)" "conn_amount s' = 0"
        "w_pc s' = W_Loop" "listen_fd s' = sk" "opened s' = opened s @ [sk]" "closed s' = closed s" "lost s' = lost s"
      using False b by (auto simp: s'_def web_start_def Let_def)
    have "length (http_table s) = TCP_ENTRIES" using i(1) by (simp add: all_closed_def)
    then have "fds s' = replicate TCP_ENTRIES (-1)" unfolding e(1) by (simp add: map_replicate_const comp_def)
    moreover have "all_closed s'" using i(1) by (simp add: all_closed_def e(1))
    ultimately have "table_ok [] s'" "all_closed s'" using e(2) by (simp_all add: table_ok_def)
    then show ?thesis unfolding s'_def [symmetric] web_inv_def using e i(2) b(3) by auto
  qed
qed

lemma web_pass_inv:
  assumes "web_inv s" "w_pc s = W_Loop" "web_pass e junk io s = Some s'"
  shows "web_inv s'"
proof -
  obtain ls where ls: "table_ok ls s" "0 \<le> listen_fd s" "mset (opened s) = mset (closed s) + mset (lost s) + mset ls + {#listen_fd s#}"
    using assms(1,2) by (auto simp: web_inv_def)
  have ac: "all_closed s" using ls(1) by (simp add: table_ok_def)
  show ?thesis
  proof (cases "io_sel io \<le> 0")
    case True
    show ?thesis
    proof (cases "softap s")
      case True
      with \<open>io_sel io \<le> 0\<close> assms(1,3) show ?thesis by (simp add: web_pass_def)
    next
      case False
      note c = close_loops(6-8) [OF ac]
      have "s' = (lwip_close (listen_fd s) (close_all s))\<lparr>listen_fd := -1, w_pc := W_Wait\<rparr>"
        using True False assms(3) ls(2) c(1) by (simp add: web_pass_def Let_def same_vars_def)
      then show ?thesis using c ls(3) table_filter [OF ls(1)] by (simp add: web_inv_def same_vars_def all_closed_def)
    qed
  next
    case False
    then obtain s1 where s1: "serve e junk (io_recv io) (ready io s) [0..<TCP_ENTRIES] s = Some s1"
        "s' = s1 \<or> s' = web_accept (io_accept io) s1"
      using assms(3) by (auto simp: web_pass_def Let_def bind_eq_Some_conv split: if_splits)
    obtain l1 where l1: "table_ok l1 s1" "mset (closed s1) + mset l1 = mset (closed s) + mset ls" "same_vars s s1"
      using serve_table [OF s1(1) ls(1)] by auto
    have sv: "opened s1 = opened s" "lost s1 = lost s" "listen_fd s1 = listen_fd s" "w_pc s1 = W_Loop"
      using l1(3) assms(2) by (simp_all add: same_vars_def)
    have m: "mset (opened s1) = mset (closed s1) + mset (lost s1) + mset l1 + {#listen_fd s1#}"
      using l1(2) ls(3) sv by (simp add: algebra_simps)
    from s1(2) show ?thesis
    proof
      assume "s' = s1"
      with l1(1) m sv ls(2) show ?thesis by (auto simp: web_inv_def table_ok_def)
    next
      assume s': "s' = web_accept (io_accept io) s1"
      obtain l2 where l2: "table_ok l2 s'" "listen_fd s' = listen_fd s1" "lost s' = lost s1" "w_pc s' = w_pc s1"
          "mset (closed s') + mset l2 + mset (opened s1) = mset (closed s1) + mset l1 + mset (opened s')"
        using web_accept_table [OF l1(1), of "io_accept io"] s' by blast
      have "mset (opened s') = mset (closed s') + mset (lost s') + mset l2 + {#listen_fd s'#}"
        using l2(5) m l2(2,3) by (simp add: algebra_simps)
      with l2 sv ls(2) show ?thesis by (auto simp: web_inv_def table_ok_def)
    qed
  qed
qed

lemma web_reach_inv: "web_reach s \<Longrightarrow> web_inv s"
proof (induction rule: web_reach.induct)
  case (start s)
  then show ?case by (simp add: web_init_def web_inv_def)
next
  case (other s l f u c)
  have "all_closed (s\<lparr>SysParam := c, UserParam := u, flash := f, link_status := l\<rparr>) = all_closed s"
      "table_ok ls (s\<lparr>SysParam := c, UserParam := u, flash := f, link_status := l\<rparr>) = table_ok ls s" for ls
    by (simp_all add: table_ok_def all_closed_def)
  with other show ?case by (auto simp: web_inv_def split: if_splits)
next
  case (boot s m)
  then show ?case by (auto simp: web_inv_def web_boot_def http_senddata_alloc_def all_closed_def)
next
  case (listening s sk bnd lst blk)
  then show ?case by (simp add: web_start_inv)
next
  case (pass s e junk io s')
  then show ?case by (auto intro: web_pass_inv)
next
  case (wait s)
  then show ?case by (auto simp: web_inv_def web_wait_def all_closed_def)
qed

text \<open>C12: in every state the web server thread can reach, with other threads changing the parameters and the link in between,
  the table has five entries and none is left in the middle of a transfer; in the connection loop the entries in use are exactly
  the first \<^verbatim>\<open>conn_amount\<close> ones, so no connection is skipped by the loop over them and no index leaves the table; and every
  descriptor the stack handed out was closed, or is held by the table or as listening socket, or was lost when opening the
  server failed: none is closed twice.\<close>

theorem web_connections:
  assumes "web_reach s"
  shows "length (http_table s) = 5 \<and> (\<forall>t \<in> set (http_table s). h_status t = HTTP_CLOSED) \<and>
    (w_pc s = W_Loop \<longrightarrow> 0 \<le> conn_amount s \<and> conn_amount s \<le> 5 \<and>
      (\<forall>i < 5. 0 \<le> h_sock_fd (http_table s ! i) \<longleftrightarrow> int i < conn_amount s)) \<and>
    mset (opened s) = mset (closed s) + mset (lost s) +
      (if w_pc s = W_Loop then mset (filter (\<lambda>f. 0 \<le> f) (map h_sock_fd (http_table s))) + {#listen_fd s#} else {#})"
proof -
  note i = web_reach_inv [OF assms]
  have ac: "length (http_table s) = 5" "\<forall>t \<in> set (http_table s). h_status t = HTTP_CLOSED"
    using i by (simp_all add: web_inv_def all_closed_def TCP_ENTRIES_def)
  show ?thesis
  proof (cases "w_pc s = W_Loop")
    case True
    with i obtain ls where ls: "table_ok ls s" "mset (opened s) = mset (closed s) + mset (lost s) + mset ls + {#listen_fd s#}"
      by (auto simp: web_inv_def)
    then have t: "conn_amount s = int (length ls)" "length ls \<le> 5" "fds s = ls @ replicate (5 - length ls) (-1)" "\<forall>f \<in> set ls. 0 \<le> f"
      by (simp_all add: table_ok_def TCP_ENTRIES_def)
    have "0 \<le> h_sock_fd (http_table s ! i) \<longleftrightarrow> int i < conn_amount s" if "i < 5" for i
    proof -
      have "h_sock_fd (http_table s ! i) = fds s ! i" using that ac(1) by simp
      also have "\<dots> = (ls @ replicate (5 - length ls) (-1)) ! i" by (simp only: t(3))
      finally show ?thesis using that t(1,2,4) by (simp add: nth_append)
    qed
    with True ac t(1,2) ls(2) show ?thesis unfolding table_filter [OF ls(1)] by (simp add: add.assoc)
  next
    case False
    with i ac show ?thesis by (simp add: web_inv_def)
  qed
qed

text \<open>A run: the access point comes up, the server listens on descriptor 1 and accepts a connection on descriptor 2.\<close>

definition wsrv0 :: "nor wsrv" where
  "wsrv0 = web.extend (web0 (\<lambda>_. 0xFF)) (wsrv.fields W_Boot 0 0 0 [] [])"

definition ap_cfg :: CFG_PARAM where
  "ap_cfg = zero_CFG_PARAM\<lparr>WiFiCfg := zero_WIFI_CFG\<lparr>Protocol := 2\<rparr>\<rparr>"

definition wsrv1 :: "nor wsrv" where
  "wsrv1 = web_start 1 0 0 (Some (replicate 3120 NUL)) (web_boot True
     (wsrv0\<lparr>SysParam := ap_cfg, UserParam := user0, flash := (\<lambda>_. 0xFF), link_status := SYS_EVT_LINK_UP\<rparr>))"

definition io1 :: web_io where
  "io1 = \<lparr>io_sel = 1, io_ready = [1], io_recv = (\<lambda>_. []), io_accept = 2\<rparr>"

lemma wsrv1_reach: "web_reach wsrv1" "w_pc wsrv1 = W_Loop" "conn_amount wsrv1 = 0" "listen_fd wsrv1 = 1" "maxsock wsrv1 = 1"
proof -
  let ?s = "wsrv0\<lparr>SysParam := ap_cfg, UserParam := user0, flash := (\<lambda>_. 0xFF), link_status := SYS_EVT_LINK_UP\<rparr>"
  have "web_init wsrv0"
    by (simp add: web_init_def all_closed_def wsrv0_def web0_def web.defs wsrv.defs snet.defs snet0_def HTTP_CLOSED_def TCP_ENTRIES_def)
  then have "web_reach ?s" by (rule web_reach.other [OF web_reach.start])
  moreover have "w_pc ?s = W_Boot" by (simp add: wsrv0_def web.defs wsrv.defs)
  ultimately have r: "web_reach (web_boot True ?s)" by (rule web_reach.boot)
  have b: "w_pc (web_boot True ?s) = W_Start" by (simp add: web_boot_def softap_def ap_cfg_def PARAM_NET_MODE_SOFTAP_def)
  show "web_reach wsrv1" unfolding wsrv1_def by (rule web_reach.listening [OF r b]) simp
  show "w_pc wsrv1 = W_Loop" "conn_amount wsrv1 = 0" "listen_fd wsrv1 = 1" "maxsock wsrv1 = 1"
    by (simp_all add: wsrv1_def web_start_def)
qed

theorem web_connections_witness:
  "\<exists>s. web_pass env0 (\<lambda>_. 0) io1 wsrv1 = Some s \<and> w_pc s = W_Loop \<and> conn_amount s = 1 \<and> 0 \<le> h_sock_fd (http_table s ! 0) \<and>
     mset (opened s) = mset (closed s) + mset (lost s) + mset (filter (\<lambda>f. 0 \<le> f) (map h_sock_fd (http_table s))) + {#listen_fd s#}"
proof -
  have u: "[0..<5] = [0, 1, 2, 3, 4 :: nat]" by (simp add: upt_rec)
  obtain s where s: "web_pass env0 (\<lambda>_. 0) io1 wsrv1 = Some s" "w_pc s = W_Loop" "conn_amount s = 1"
  proof -
    have "serve env0 (\<lambda>_. 0) (\<lambda>_. []) [1] [0..<TCP_ENTRIES] wsrv1 = Some wsrv1"
      using wsrv1_reach(3) by (simp add: TCP_ENTRIES_def u)
    moreover have "ready io1 wsrv1 = [1]" using wsrv1_reach(4,5) by (simp add: ready_def io1_def)
    moreover have "\<not> chip_reset wsrv1" by (simp add: wsrv1_def web_start_def web_boot_def http_senddata_alloc_def wsrv0_def web0_def web.defs snet.defs snet0_def)
    ultimately have "web_pass env0 (\<lambda>_. 0) io1 wsrv1 = Some (web_accept 2 wsrv1)"
      using wsrv1_reach(4) by (simp add: web_pass_def io1_def)
    moreover have "w_pc (web_accept 2 wsrv1) = W_Loop" "conn_amount (web_accept 2 wsrv1) = 1"
      using wsrv1_reach(2,3) by (simp_all add: web_accept_def TCP_ENTRIES_def upd_entry_def)
    ultimately show ?thesis using that by blast
  qed
  have "web_reach s" by (rule web_reach.pass [OF wsrv1_reach(1,2) s(1)])
  from web_connections [OF this] s show ?thesis by auto
qed

end
