(* ===== verification/Spec2Isabelle.thy ===== *)
theory Spec2Isabelle
  imports Str_Lib Crc Mem_Pool Dhcp_Server Nor_Flash Inet Params Serial_Net Sys_Events Uart_Rx Ping At_Safe Dns_Server Bridge Firmware Os_Props Os_Queue Os_Mem Web_Server
begin

text \<open>
  \<^bold>\<open>The NL6621 SerialNet firmware.\<close> The program turns a Wi-Fi module into a bridge between a serial line and the network.
  In command mode the module is configured with AT commands on the serial line; in data mode characters on the line are
  gathered into frames and sent over UDP or TCP, and what arrives from the network is printed on the line. The parameters
  live in flash and are loaded at boot. As a soft access point the module runs a DHCP server, a DNS server and a web
  server. The parts and the theories that model them, in the order of the calls (paths under \<^verbatim>\<open>src/Source\<close>):

  \<^item> \<^verbatim>\<open>SN_Prelude\<close>: type names of \<^verbatim>\<open>Include/types_def.h\<close>, the C library the sources use, byte order, bounded buffers,
    the lemmas on lists and words all components share.
  \<^item> \<^verbatim>\<open>Str_Lib\<close>: \<^verbatim>\<open>App/ExtLib/str_lib.c\<close> and the string and memory routines of \<^verbatim>\<open>Sys/util.c\<close>. \<^verbatim>\<open>Crc\<close>: the checksums of
    \<^verbatim>\<open>Sys/util.c\<close>, equal to the shift register forms. \<^verbatim>\<open>Inet\<close>: addresses as text (\<^verbatim>\<open>LwIP/.../ip_addr.c\<close>).
  \<^item> \<^verbatim>\<open>Mem_Pool\<close>: the heap \<^verbatim>\<open>Ports/Cortex-M3/os_dmem.c\<close>. Its circular list of headers refines a list of blocks with
    first-fit allocation from a search pointer and merging release; every sequence of calls within the contract is safe.
  \<^item> \<^verbatim>\<open>Nor_Flash\<close>: the verified writers of \<^verbatim>\<open>BSP/flash.c\<close> and \<^verbatim>\<open>WriteFlash\<close> of \<^verbatim>\<open>serialNet.c\<close> over a device that is a parameter;
    the locale \<^verbatim>\<open>nor_flash\<close> states what a NOR device guarantees and \<^verbatim>\<open>nor\<close> interprets it. \<^verbatim>\<open>Params\<close>: the configuration records
    of \<^verbatim>\<open>Include/param.h\<close>, the setters of \<^verbatim>\<open>Sys/param.c\<close>, the routines of \<^verbatim>\<open>App/Webserver/wifi_opt.c\<close>. \<^verbatim>\<open>Serial_Net\<close>: the
    globals, saving and loading of parameters, boot (\<^verbatim>\<open>App/SerialNet/serialNet.c\<close>), over the interface \<^verbatim>\<open>param_store\<close>.
  \<^item> \<^verbatim>\<open>Sys_Events\<close>: \<^verbatim>\<open>Sys/sys_mgmt.c\<close> and the callback of \<^verbatim>\<open>Sys/app_main.c\<close>; the link status refines an abstract link.
  \<^item> \<^verbatim>\<open>Uart_Rx\<close>: the receive interrupt, the frame timer, the UART sender, the mode switch. \<^verbatim>\<open>Ping\<close>: \<^verbatim>\<open>App/SerialNet/ping.c\<close>
    with the Internet checksum. \<^verbatim>\<open>At_Cmd\<close>, \<^verbatim>\<open>At_Net\<close>: tokenizer, dispatcher and handlers of \<^verbatim>\<open>App/SerialNet/at_cmd.c\<close>;
    \<^verbatim>\<open>At_Props\<close>, \<^verbatim>\<open>At_Safe\<close>: their round trip, error and safety theorems.
  \<^item> \<^verbatim>\<open>Socket_Com\<close>: the send and receive threads of \<^verbatim>\<open>App/SerialNet/socketCom.c\<close> as program counters; \<^verbatim>\<open>Socket_Inv\<close>: the
    invariant of all their interleavings with interrupt, timer, UART sender, mode switch, link events and \<^verbatim>\<open>AT+QUIT\<close>, in which
    the one step that leaves a buffer is a receive call that fills it; \<^verbatim>\<open>Bridge\<close>: both directions of the bridge end to end.
  \<^item> \<^verbatim>\<open>Dhcp_Server\<close>, \<^verbatim>\<open>Dns_Server\<close>: the servers under \<^verbatim>\<open>App/DhcpServer\<close> and \<^verbatim>\<open>App/DnsServer\<close>.
  \<^item> The web server under \<^verbatim>\<open>App/Webserver\<close>. \<^verbatim>\<open>Http_Page\<close>: the builders that fill the parameters into the pages
    (\<^verbatim>\<open>http_builder.c\<close>). \<^verbatim>\<open>Http_File\<close>: the pages in flash and the transfer of a file. \<^verbatim>\<open>Http_Form\<close>: url decoding and the form
    handlers of \<^verbatim>\<open>http_parser.c\<close>, working in place on the receive buffer. \<^verbatim>\<open>Http_Engine\<close>: the dispatch of a request and the
    firmware update; settings posted to the server are those of the next boot. \<^verbatim>\<open>Firmware\<close>: a whole firmware upload. \<^verbatim>\<open>Web_Server\<close>: the thread of \<^verbatim>\<open>webserver.c\<close>
    with its table of connections, and the invariant of all its turns.

  \<^item> The kernel below them, \<^verbatim>\<open>uCOS-II\<close>. \<^verbatim>\<open>Os_Core\<close>: ready and wait lists as bitmaps, scheduler, interrupts, clock tick, tasks and delays
    (\<^verbatim>\<open>os_core.c\<close>, \<^verbatim>\<open>os_task.c\<close>, \<^verbatim>\<open>os_time.c\<close>). \<^verbatim>\<open>Os_Sem\<close>: semaphores and mailboxes (\<^verbatim>\<open>os_sem.c\<close>, \<^verbatim>\<open>os_mbox.c\<close>). \<^verbatim>\<open>Os_Inv\<close>: the
    invariant of lists, tasks and events, kept by every change; \<^verbatim>\<open>Os_Sys\<close>: the system of all calls of tasks and steps of interrupt
    handlers; \<^verbatim>\<open>Os_Props\<close>: who runs, that every call returns, who waits, what a post and a delay do, and how a change of priority loses a message. \<^verbatim>\<open>Os_Queue\<close>: message queues
    (\<^verbatim>\<open>os_q.c\<close>), whose ring buffer refines a bounded list; \<^verbatim>\<open>Os_Mem\<close>: memory partitions (\<^verbatim>\<open>os_mem.c\<close>), stacks of blocks; both interpret
    the locale of \<^verbatim>\<open>Refined_Steps\<close>, which carries a refinement of single steps over to sequences.

  \<^bold>\<open>Conventions.\<close> A module's globals are a record, operations are functions on it; a result of type \<open>option\<close> is \<open>None\<close>
  exactly when the code would access memory it must not, so \<open>Some\<close> is also a statement of memory safety. Effects outside the
  state (UART text, packets, closed descriptors, posted messages, resets) are recorded in order. Integers are words of
  their width where they can wrap. Loops are recursive functions with termination proofs; the sector loop of the flash
  writer, which may not return on a failing device, the form loop of the web server, whose counter can wrap, and the loop
  that wakes all tasks of a deleted event are \<^verbatim>\<open>partial_function (option)\<close>, and their theorems state that they return. The only bounds are those of the code's own arrays (1401 byte serial buffers, 50 arguments, 8
  leases). Threads are relations over turns between scheduling points. A call of the kernel is one step of \<^verbatim>\<open>Os_Sys\<close>, up to the point
  where the task gives up the processor; interrupts come between the steps, in any nesting. The component models above the kernel record what they post to it.

  \<^bold>\<open>Parameters.\<close> Code that is not in the repository or that only drives hardware is an argument of the model: the flash
  device, the Wi-Fi library, the results of the socket layer and of the heap in each turn, clock and GPIO readings.

  \<^bold>\<open>Not modelled.\<close> The third-party \<^verbatim>\<open>LwIP\<close> stack (apart from address text and checksum); of the \<^verbatim>\<open>uCOS-II\<close> kernel the
  mutexes, flags and timers, deletion of tasks, waiting for several events at once, names, stack checks and the statistics task
  (queues, posts without the scheduler and changes of priority are modelled, but are no steps of \<^verbatim>\<open>Os_Sys\<close>); the register drivers under \<^verbatim>\<open>BSP\<close>, the assembler ports, the closed Wi-Fi library under \<^verbatim>\<open>Lib\<close>, the smart configuration
  threads of \<^verbatim>\<open>at_cmd.c\<close> that only drive that library, and the timer and lock wrappers of \<^verbatim>\<open>Sys/util.c\<close> around kernel calls.
\<close>

section \<open>From the serial line to the flash and back\<close>

lemma toupper_letters [simp]: "toupper (CHR ''A'') = CHR ''A''" "is_t t \<Longrightarrow> toupper t = CHR ''T''"
proof -
  have "toupper (CHR ''A'') = CHR ''A''" "toupper (CHR ''T'') = CHR ''T''" "toupper (CHR ''t'') = CHR ''T''" by code_simp+
  then show "toupper (CHR ''A'') = CHR ''A''" "is_t t \<Longrightarrow> toupper t = CHR ''T''" by (auto simp: is_t_def)
qed

lemma cstr_upper:
  assumes "cstr b = CHR ''A'' # t # body" "is_t t"
  shows "cstr (b[0 := toupper (b ! 0), 1 := toupper (b ! 1)]) = CHR ''A'' # CHR ''T'' # body"
proof -
  obtain r where b: "b = CHR ''A'' # t # r"
    using assms(1) by (cases b; cases "tl b") (auto simp: cstr_def split: if_splits)
  with assms show ?thesis by (auto simp: cstr_def NUL_def split: if_splits)
qed

text \<open>A received line reaches its handler.\<close>

lemma at_turn:
  assumes "idle s" "is_a a" "is_t t" "LF \<notin> set body" "NUL \<notin> set body" "length body \<le> 197"
  shows "\<exists>s1 d. uart_feed (a # t # (CHR ''+'' # body) @ [CR, LF]) s = Some s1 \<and> line_only s s1 \<and>
    length d = 1401 \<and> recv_start s1 = 0 \<and>
    AtThread_turn e s1 = do { s2 \<leftarrow> parseParameter e body (s1\<lparr>uart_rec_data := d\<rparr>);
      Some (s2\<lparr>uart_rec_len := 0, uart_recvEnd := 0, uart_rec_data := clear_frame (uart_rec_data s2)\<rparr>) }"
proof -
  have at: "atMode (UserParam s) = AT_MODE" using assms(1) by (simp add: idle_def)
  have "LF \<notin> set (CHR ''+'' # body)" "NUL \<notin> set (CHR ''+'' # body)" "length (CHR ''+'' # body) \<le> 198"
    using assms(4-6) by (simp_all add: LF_def NUL_def)
  with line_received [OF assms(1-3), of "CHR ''+'' # body"] obtain s1
    where s1: "uart_feed (a # t # (CHR ''+'' # body) @ [CR, LF]) s = Some s1" "uart_recvEnd s1 = 1"
      "cstr (uart_rec_data s1) = CHR ''A'' # t # CHR ''+'' # body" "length (uart_rec_data s1) = 1401" "recv_start s1 = 0"
    by auto
  have keep: "line_only s s1" by (rule feed_frame_rule [OF s1(1) at])
  let ?b = "uart_rec_data s1"
  let ?d = "?b[0 := toupper (?b ! 0), 1 := toupper (?b ! 1)]"
  have c: "cstr ?d = CHR ''A'' # CHR ''T'' # CHR ''+'' # body" using cstr_upper [OF s1(3) assms(3)] .
  have sw: "strStartsWith (CHR ''A'' # CHR ''T'' # CHR ''+'' # body) ''AT''"
    "strStartsWith (CHR ''A'' # CHR ''T'' # CHR ''+'' # body) ''AT+''"
    by (cases body; simp add: deref_NUL)+
  have "AtThread_turn e s1 = do { s2 \<leftarrow> parseParameter e body (s1\<lparr>uart_rec_data := ?d\<rparr>);
      Some (s2\<lparr>uart_rec_len := 0, uart_recvEnd := 0, uart_rec_data := clear_frame (uart_rec_data s2)\<rparr>) }"
    unfolding AtThread_turn_def Let_def c at_line_def using keep at s1(2) sw by (simp add: line_only_def)
  moreover have "length ?d = 1401" using s1(4) by simp
  ultimately show ?thesis using s1(1,5) keep by blast
qed

text \<open>C5: typing \<^verbatim>\<open>AT+SAVE\<close> and the line end on an idle serial line ends with the answer \<^verbatim>\<open>+OK\<close> and an idle line, and every
  later boot from that flash without the factory button, whatever the RAM holds then, runs with the parameters that
  were in use when the line was typed, marked valid.\<close>

theorem save_command_survives_reboot:
  assumes "idle s" "is_a a" "is_t t" "sized_user (UserParam s)"
    and "dev e = nor_dev" "malloc_ok e" "gpio_factory e' \<noteq> (0, 0)" "dev e' = nor_dev"
  shows "\<exists>s1 s2. uart_feed (a # t # ''+save'' @ [CR, LF]) s = Some s1 \<and> AtThread_turn e s1 = Some s2 \<and> idle s2 \<and>
    stdout s2 = stdout s @ [''+OK'' @ nr] \<and>
    (\<forall>t :: nor snet. flash t = flash s2 \<longrightarrow> (\<exists>t'. init_default_data e' t = Some (0, t') \<and>
        UserParam t' = (UserParam s)\<lparr>isValid := USER_PARAM_FLAG_VALID, SleepMode := 0\<rparr> \<and>
        uart_baud t' = Baudrate (UserParam s)))"
proof -
  obtain s1 d where s1: "uart_feed (a # t # ''+save'' @ [CR, LF]) s = Some s1" "line_only s s1" "length d = 1401"
      "recv_start s1 = 0"
      "AtThread_turn e s1 = do { s2 \<leftarrow> parseParameter e ''save'' (s1\<lparr>uart_rec_data := d\<rparr>);
        Some (s2\<lparr>uart_rec_len := 0, uart_recvEnd := 0, uart_rec_data := clear_frame (uart_rec_data s2)\<rparr>) }"
    using at_turn [OF assms(1-3), of "''save''" e] by (auto simp: LF_def NUL_def)
  let ?u = "upd_user (\<lambda>u. u\<lparr>isValid := USER_PARAM_FLAG_VALID\<rparr>) (s1\<lparr>uart_rec_data := d\<rparr>)"
  have u: "UserParam ?u = (UserParam s)\<lparr>isValid := USER_PARAM_FLAG_VALID\<rparr>"
    using s1(2) by (simp add: upd_user_def line_only_def)
  have sz: "sized_user (UserParam ?u)" using assms(4) unfolding u by (simp add: sized_user_def)
  obtain f where f: "SaveUserParam e ?u = Some (?u\<lparr>flash := f\<rparr>)" using nor.store.save_user [OF assms(5,6) sz] by blast
  have boot: "\<exists>t'. init_default_data e' t = Some (0, t') \<and> UserParam t' = (UserParam ?u)\<lparr>SleepMode := 0\<rparr> \<and>
      uart_baud t' = Baudrate (UserParam ?u)" if "flash t = f" for t :: "nor snet"
    using nor.store.save_boot [OF assms(5,6) sz _ assms(7,8)] f that u by auto
  have req: "stringTorequest ''save'' = Some REQ_SAVE" "parse_argv ''save'' = Some [''save'']" by code_simp+
  have "parseParameter e ''save'' (s1\<lparr>uart_rec_data := d\<rparr>) = Some (printf (''+OK'' @ nr) (?u\<lparr>flash := f\<rparr>))"
    by (simp add: parseParameter_def req request_known [OF req(1)] responseSAVE_def f reply_def)
  then have run: "AtThread_turn e s1 = Some ((printf (''+OK'' @ nr) (?u\<lparr>flash := f\<rparr>))\<lparr>uart_rec_len := 0, uart_recvEnd := 0,
      uart_rec_data := clear_frame d\<rparr>)" (is "_ = Some ?s2")
    unfolding s1(5) by (simp add: printf_def upd_user_def)
  have "idle ?s2"
    using assms(1) s1(2-4)
    by (simp add: idle_def printf_def upd_user_def line_only_def clear_frame_def MAX_RECV_BUFFER_SIZE_def)
  moreover have "stdout ?s2 = stdout s @ [''+OK'' @ nr]" using s1(2) by (simp add: printf_def upd_user_def line_only_def)
  ultimately show ?thesis using s1(1) run boot unfolding u by auto
qed

theorem save_command_witness:
  "\<exists>s1 s2. uart_feed (CHR ''a'' # CHR ''T'' # ''+save'' @ [CR, LF]) snet0 = Some s1 \<and> AtThread_turn env0 s1 = Some s2 \<and>
    idle s2 \<and> stdout s2 = stdout snet0 @ [''+OK'' @ nr]"
  using save_command_survives_reboot [OF snet0_idle, of "CHR ''a''" "CHR ''T''" env0 env0] sized_user0
  by (fastforce simp: is_a_def is_t_def)

section \<open>Broadcast reception\<close>

text \<open>After \<^verbatim>\<open>AT+BCTRXSTART\<close> was accepted with a descriptor above 0, no round of \<^verbatim>\<open>BCTRecvThread\<close> ever receives
  anything: the thread waits while the descriptor is valid and goes on only when it is not.\<close>

theorem broadcast_reception_dead:
  assumes "responseBCTRXSTART e argv s = Some s'" "rx_status (broadcast_status s') = 1" "rx_status (broadcast_status s) = 0"
    and "socket_res e > 0"
  shows "BCTRecv_turn r s' = s' \<and> rx_sockfd (broadcast_status s') = socket_res e"
proof -
  have "rx_sockfd (broadcast_status s') = socket_res e"
    using assms unfolding responseBCTRXSTART_def reply_def upd_bct_def
    by (auto simp: Let_def printf_def split: if_splits)
  with assms(4) show ?thesis by (simp add: BCTRecv_turn_def Let_def)
qed

theorem broadcast_reception_dead_witness:
  "\<exists>s'. responseBCTRXSTART env0 [''BCTRXSTART'', ''7000''] (snet0\<lparr>link_status := SYS_EVT_LINK_UP\<rparr>) = Some s' \<and>
    rx_status (broadcast_status s') = 1 \<and> BCTRecv_turn res0 s' = s'"
proof -
  have a: "atoi ''7000'' = 7000" "isdigit (CHR ''7'')" "isdigit (CHR ''0'')" by code_simp+
  obtain s' where s': "responseBCTRXSTART env0 [''BCTRXSTART'', ''7000''] (snet0\<lparr>link_status := SYS_EVT_LINK_UP\<rparr>) = Some s'"
      "rx_status (broadcast_status s') = 1"
    using a by (simp add: responseBCTRXSTART_def reply_def upd_bct_def printf_def wifi_started_def env0_def snet0_def Let_def)
  from broadcast_reception_dead [OF s', of res0] s' show ?thesis by (simp add: env0_def snet0_def)
qed

end
